(* ===== verification/Prelude.thy ===== *)
theory Prelude
  imports Main
begin

text \<open>
  The vocabulary shared by every component of the model.

  A Python call either returns or raises. It is a value of \<open>'a res\<close>: \<open>Inl e\<close> for the
  exception \<open>e\<close>, \<open>Inr v\<close> for the value \<open>v\<close>. \<open>bindR\<close> sequences two calls (the second is
  not reached when the first raises) and \<open>foldR\<close> is a \<open>for\<close> loop whose body may raise.
  The lemmas below are the rules by which the components reason about both; the ones that
  decompose a successful run are collected in \<open>res_elims\<close>.
\<close>

named_theorems res_simps "rewrite rules for calls that may raise"

section \<open>Exceptions\<close>

datatype py_error =
    KeyError
  | IndexError
  | AssertionError
  | AttributeError
  | TypeError
  | ValueError
  | RecursionError
  | NameError
  | MissingDependency (missing_repo: string) (missing_commit: "string option")
  | UserException string

type_synonym 'a res = "py_error + 'a"

definition is_ok :: "'a res \<Rightarrow> bool" where
  "is_ok r = (case r of Inl _ \<Rightarrow> False | Inr _ \<Rightarrow> True)"

lemma is_ok_simps [simp]: "is_ok (Inr v)" "\<not> is_ok (Inl e)"
  by (simp_all add: is_ok_def)

lemma is_ok_iff: "is_ok r \<longleftrightarrow> (\<exists>v. r = Inr v)"
  by (cases r) auto

fun bindR :: "'a res \<Rightarrow> ('a \<Rightarrow> 'b res) \<Rightarrow> 'b res" where
  "bindR (Inl e) f = Inl e"
| "bindR (Inr v) f = f v"

definition assertR :: "bool \<Rightarrow> py_error \<Rightarrow> unit res" where
  "assertR b e = (if b then Inr () else Inl e)"

lemma bindR_Inr_conv: "bindR r f = Inr w \<longleftrightarrow> (\<exists>v. r = Inr v \<and> f v = Inr w)"
  by (cases r) auto

lemma bindR_Inl_conv: "bindR r f = Inl e \<longleftrightarrow> r = Inl e \<or> (\<exists>v. r = Inr v \<and> f v = Inl e)"
  by (cases r) auto

lemma bindR_InrE:
  assumes "bindR r f = Inr w"
  obtains v where "r = Inr v" "f v = Inr w"
  using assms by (auto simp: bindR_Inr_conv)

lemma bindR_assoc: "bindR (bindR r f) g = bindR r (\<lambda>v. bindR (f v) g)"
  by (cases r) auto

lemma bindR_Inr_right [simp]: "bindR r Inr = r"
  by (cases r) auto

lemma bindR_cong [fundef_cong]:
  "r = r' \<Longrightarrow> (\<And>v. r' = Inr v \<Longrightarrow> f v = g v) \<Longrightarrow> bindR r f = bindR r' g"
  by (cases r') auto

lemma assertR_Inr_conv [simp]: "assertR b e = Inr u \<longleftrightarrow> b"
  by (simp add: assertR_def)

lemma assertR_Inl_conv [simp]: "assertR b e = Inl e' \<longleftrightarrow> \<not> b \<and> e' = e"
  by (auto simp: assertR_def)

lemmas res_elims = bindR_Inr_conv bindR_Inl_conv

section \<open>Loops whose body may raise\<close>

fun foldR :: "('a \<Rightarrow> 's \<Rightarrow> 's res) \<Rightarrow> 'a list \<Rightarrow> 's \<Rightarrow> 's res" where
  "foldR f [] s = Inr s"
| "foldR f (x # xs) s = bindR (f x s) (foldR f xs)"

lemma foldR_append: "foldR f (xs @ ys) s = bindR (foldR f xs s) (foldR f ys)"
proof (induction xs arbitrary: s)
  case Nil
  then show ?case by simp
next
  case (Cons x xs)
  then show ?case by (cases "f x s") auto
qed

lemma foldR_cong [fundef_cong]:
  assumes "xs = ys" "s = t" "\<And>x u. x \<in> set ys \<Longrightarrow> f x u = g x u"
  shows "foldR f xs s = foldR g ys t"
proof -
  have "foldR f ys t = foldR g ys t"
    using assms(3)
  proof (induction ys arbitrary: t)
    case Nil
    then show ?case by simp
  next
    case (Cons y ys)
    then show ?case by (cases "g y t") auto
  qed
  with assms show ?thesis by simp
qed

text \<open>An invariant of the body is an invariant of the loop.\<close>

lemma foldR_inv:
  assumes "foldR f xs s = Inr t" "P s"
    and "\<And>x u v. x \<in> set xs \<Longrightarrow> P u \<Longrightarrow> f x u = Inr v \<Longrightarrow> P v"
  shows "P t"
  using assms
proof (induction xs arbitrary: s)
  case Nil
  then show ?case by simp
next
  case (Cons x xs)
  from Cons.prems(1) obtain u where u: "f x s = Inr u" "foldR f xs u = Inr t"
    by (auto simp: bindR_Inr_conv)
  have "P u" using Cons.prems(2,3) u(1) by auto
  with Cons.IH [OF u(2)] Cons.prems(3) show ?case by auto
qed

text \<open>A body that never raises in the states the loop passes through gives a loop that never
  raises.\<close>

lemma foldR_ok:
  assumes "P s" and "\<And>x u. x \<in> set xs \<Longrightarrow> P u \<Longrightarrow> \<exists>v. f x u = Inr v \<and> P v"
  shows "\<exists>t. foldR f xs s = Inr t \<and> P t"
  using assms
proof (induction xs arbitrary: s)
  case Nil
  then show ?case by simp
next
  case (Cons x xs)
  then obtain v where "f x s = Inr v" "P v" by (metis list.set_intros(1))
  with Cons show ?case by auto
qed

lemma foldR_total: "(\<And>x u. f x u = Inr (g x u)) \<Longrightarrow> foldR f xs s = Inr (fold g xs s)"
  by (induction xs arbitrary: s) auto

text \<open>A list comprehension whose element expression may raise.\<close>

fun mapR :: "('a \<Rightarrow> 'b res) \<Rightarrow> 'a list \<Rightarrow> 'b list res" where
  "mapR f [] = Inr []"
| "mapR f (x # xs) = bindR (f x) (\<lambda>y. bindR (mapR f xs) (\<lambda>ys. Inr (y # ys)))"

lemma mapR_Inr_iff: "mapR f xs = Inr ys \<longleftrightarrow> list_all2 (\<lambda>x y. f x = Inr y) xs ys"
  by (induction xs arbitrary: ys) (auto simp: bindR_Inr_conv list_all2_Cons1)

lemma mapR_cong [fundef_cong]:
  "xs = ys \<Longrightarrow> (\<And>x. x \<in> set ys \<Longrightarrow> f x = g x) \<Longrightarrow> mapR f xs = mapR g ys"
  by (induction ys arbitrary: xs) auto

section \<open>Lists and association lists\<close>

text \<open>Python's \<open>xs[i]\<close> for a non-negative index.\<close>

definition nthR :: "'a list \<Rightarrow> nat \<Rightarrow> 'a res" where
  "nthR xs i = (if i < length xs then Inr (xs ! i) else Inl IndexError)"

lemma nthR_Inr [simp]: "nthR xs i = Inr x \<longleftrightarrow> i < length xs \<and> xs ! i = x"
  by (simp add: nthR_def)

text \<open>A dict whose iteration order matters is an association list; \<open>alist_set\<close> is
  \<open>d[k] = v\<close>, which keeps the position of a key that is present.\<close>

fun alist_set :: "'k \<Rightarrow> 'v \<Rightarrow> ('k \<times> 'v) list \<Rightarrow> ('k \<times> 'v) list" where
  "alist_set k v [] = [(k, v)]"
| "alist_set k v ((k', v') # kvs) =
     (if k' = k then (k, v) # kvs else (k', v') # alist_set k v kvs)"

lemma map_of_alist_set [simp]: "map_of (alist_set k v d) = (map_of d)(k \<mapsto> v)"
  by (induction d) auto

lemma keys_alist_set: "set (map fst (alist_set k v d)) = insert k (set (map fst d))"
  by (simp add: dom_map_of_conv_image_fst [symmetric] del: map_of_eq_None_iff)

lemma distinct_alist_set:
  "distinct (map fst d) \<Longrightarrow> distinct (map fst (alist_set k v d))"
proof (induction d)
  case Nil
  then show ?case by simp
next
  case (Cons a d)
  have "fst a \<noteq> k \<Longrightarrow> fst a \<notin> set (map fst (alist_set k v d))"
    using Cons.prems by (simp only: keys_alist_set) auto
  with Cons show ?case by (cases a) auto
qed

definition alist_update :: "('k \<times> 'v) list \<Rightarrow> ('k \<times> 'v) list \<Rightarrow> ('k \<times> 'v) list" where
  "alist_update d e = fold (\<lambda>(k, v). alist_set k v) e d"

lemma map_of_alist_update: "map_of (alist_update d e) = map_of d ++ map_of (rev e)"
  unfolding alist_update_def by (induction e arbitrary: d) auto

lemma distinct_alist_update:
  "distinct (map fst d) \<Longrightarrow> distinct (map fst (alist_update d e))"
  unfolding alist_update_def
  by (induction e arbitrary: d) (auto simp: distinct_alist_set split: prod.splits)

definition alist_del :: "'k \<Rightarrow> ('k \<times> 'v) list \<Rightarrow> ('k \<times> 'v) list" where
  "alist_del k d = filter (\<lambda>p. fst p \<noteq> k) d"

lemma map_of_alist_del [simp]: "map_of (alist_del k d) = (map_of d)(k := None)"
  by (induction d) (auto simp: alist_del_def)

lemma keys_alist_del: "set (map fst (alist_del k d)) = set (map fst d) - {k}"
  by (auto simp: alist_del_def)

lemma distinct_alist_del: "distinct (map fst d) \<Longrightarrow> distinct (map fst (alist_del k d))"
  by (induction d) (auto simp: alist_del_def)

lemma alist_set_nonempty [simp]: "alist_set k v d \<noteq> []"
  by (cases d) (auto split: if_splits)

definition lookupR :: "('k \<rightharpoonup> 'v) \<Rightarrow> 'k \<Rightarrow> 'v res" where
  "lookupR m k = (case m k of None \<Rightarrow> Inl KeyError | Some v \<Rightarrow> Inr v)"

lemma lookupR_Inr [simp]: "lookupR m k = Inr v \<longleftrightarrow> m k = Some v"
  by (auto simp: lookupR_def split: option.splits)

lemma count_filter_upd:
  "distinct xs \<Longrightarrow> x \<in> set xs \<Longrightarrow> (\<And>y. y \<noteq> x \<Longrightarrow> P y = Q y) \<Longrightarrow>
   int (length (filter P xs)) - (if P x then 1 else 0) =
   int (length (filter Q xs)) - (if Q x then 1 else 0)"
proof (induction xs)
  case Nil
  then show ?case by simp
next
  case (Cons a xs)
  show ?case
  proof (cases "a = x")
    case True
    with Cons.prems have "filter P xs = filter Q xs"
      by (metis distinct.simps(2) filter_cong)
    with True show ?thesis by simp
  next
    case False
    with Cons show ?thesis by auto
  qed
qed

section \<open>Singleton lists\<close>

lemma distinct_singleton: "distinct xs \<Longrightarrow> set xs = {i} \<Longrightarrow> xs = [i]"
proof -
  assume a: "distinct xs" "set xs = {i}"
  have "length xs = Suc 0" using distinct_card [OF a(1)] a(2) by simp
  then obtain x where "xs = [x]" by (cases xs) simp_all
  with a(2) show "xs = [i]" by simp
qed

section \<open>Sums\<close>

lemma sum_list_less:
  fixes f g :: "'a \<Rightarrow> nat"
  assumes "x \<in> set xs" "f x < g x" "\<And>y. y \<in> set xs \<Longrightarrow> f y \<le> g y"
  shows "sum_list (map f xs) < sum_list (map g xs)"
  using assms
proof (induction xs)
  case (Cons y ys)
  have le: "sum_list (map f ys) \<le> sum_list (map g ys)"
    using Cons.prems(3) by (intro sum_list_mono) auto
  show ?case
  proof (cases "x \<in> set ys")
    case True
    with Cons.IH Cons.prems have "sum_list (map f ys) < sum_list (map g ys)" by auto
    moreover have "f y \<le> g y" using Cons.prems(3) by simp
    ultimately show ?thesis by simp
  next
    case False
    with Cons.prems(1,2) le show ?thesis by simp
  qed
qed simp

lemma length_filter_other:
  "distinct xs \<Longrightarrow> x \<in> set xs \<Longrightarrow> Suc (length (filter (\<lambda>y. y \<noteq> x) xs)) = length xs"
proof (induction xs)
  case (Cons a xs)
  show ?case
  proof (cases "a = x")
    case True
    then have "filter (\<lambda>y. y \<noteq> x) xs = xs" using Cons.prems(1) by (auto intro: filter_True)
    then show ?thesis using True by simp
  qed (use Cons in auto)
qed simp

end
