(* ===== verification/Algebraic.thy ===== *)
theory Algebraic
  imports Prelude Complex_Main
begin

text \<open>
  The typed unions every other part of the program keeps its data in: \<open>core/algebraic.py\<close>.

  An \<open>Alternative\<close> is declared once, as a set of named options with typed fields, and is
  referred to by name (\<open>TAlt\<close>), so that declarations may be recursive. \<open>pyval\<close> is a Python
  value, an instance of an option being \<open>VInst\<close>. A dict is the list of its items in iteration
  order. \<open>coerce_instance\<close> and the constructor call each other along the types, which need not
  end for a recursive declaration: the number of nested coercions the interpreter allows is an
  argument, and exceeding it raises \<open>RecursionError\<close>.
\<close>

section \<open>Types and values\<close>

datatype atype =
    TStr
  | TInt
  | TBool
  | TFloat
  | TTuple "atype list"
  | TList atype
  | TDict atype atype
  | TAlt string
  | TNullable atype
  | TObj string

text \<open>In Python 2 \<open>bytes\<close> is \<open>str\<close>. The characters from 128 on of a \<open>unicode\<close> value stand for
  every code point that is not ASCII. A float is the rational number it denotes.\<close>

datatype pyval =
    VNone
  | VStr string
  | VUni string
  | VInt int
  | VBool bool
  | VFloat rat
  | VTuple "pyval list"
  | VList "pyval list"
  | VDict "(pyval \<times> pyval) list"
  | VInst atype string "(string \<times> pyval) list"
  | VObj string string

type_synonym option_types = "(string \<times> (string \<times> atype) list) list"

record alt_def =
  alt_types :: option_types
  alt_methods :: "string list"
  alt_common :: "(string \<times> atype) list"
  alt_frozen :: bool
  alt_default :: "pyval option"

type_synonym alt_env = "string \<Rightarrow> alt_def option"

section \<open>Declaring an alternative\<close>

definition empty_alt :: alt_def where
  "empty_alt = \<lparr>alt_types = [], alt_methods = [], alt_common = [], alt_frozen = False,
     alt_default = None\<rparr>"

definition valid_fieldname :: "string \<Rightarrow> bool" where
  "valid_fieldname name \<longleftrightarrow>
     name \<noteq> [] \<and> hd name \<noteq> CHR ''_'' \<and> name \<noteq> ''matches'' \<and> name \<noteq> ''define''"

text \<open>\<open>X.Name = {field: type, ...}\<close>.\<close>

definition define_option ::
    "string \<Rightarrow> (string \<times> atype) list \<Rightarrow> alt_def \<Rightarrow> alt_def res" where
  "define_option name fds d =
     bindR (assertR (\<not> alt_frozen d \<and> name \<notin> fst ` set (alt_types d)) AssertionError) (\<lambda>_.
     bindR (assertR (valid_fieldname name \<and> (\<forall>f \<in> set fds. valid_fieldname (fst f)))
       AssertionError) (\<lambda>_.
     Inr (d\<lparr>alt_types := alt_types d @ [(name, alist_update fds (alt_common d))]\<rparr>)))"

text \<open>\<open>X.name = function\<close>.\<close>

definition define_method :: "string \<Rightarrow> alt_def \<Rightarrow> alt_def res" where
  "define_method name d =
     bindR (assertR (\<not> alt_frozen d \<and> name \<notin> fst ` set (alt_types d)) AssertionError) (\<lambda>_.
     Inr (d\<lparr>alt_methods := name # alt_methods d\<rparr>))"

definition add_common_field :: "string \<Rightarrow> atype \<Rightarrow> alt_def \<Rightarrow> alt_def res" where
  "add_common_field k t d =
     bindR (assertR (\<not> alt_frozen d) AssertionError) (\<lambda>_.
     Inr (d\<lparr>alt_common := alist_set k t (alt_common d),
            alt_types := map (\<lambda>(n, fs). (n, alist_set k t fs)) (alt_types d)\<rparr>))"

definition add_common_fields :: "(string \<times> atype) list \<Rightarrow> alt_def \<Rightarrow> alt_def res" where
  "add_common_fields fds d =
     bindR (assertR (\<not> alt_frozen d) AssertionError) (\<lambda>_.
     foldR (\<lambda>(k, t). add_common_field k t) fds d)"

definition set_create_default :: "pyval \<Rightarrow> alt_def \<Rightarrow> alt_def res" where
  "set_create_default v d =
     bindR (assertR (alt_default d = None) AssertionError) (\<lambda>_. Inr (d\<lparr>alt_default := Some v\<rparr>))"

definition freeze :: "alt_def \<Rightarrow> alt_def" where
  "freeze d = d\<lparr>alt_frozen := True\<rparr>"

text \<open>What \<open>_freeze\<close> records in \<open>_types_with_unique_fields\<close>: the loop over the options with the
  table from field names to the option that has them, \<open>None\<close> once two options share them.\<close>

definition freeze_step ::
    "(string \<times> (string \<times> atype) list) \<Rightarrow> (string set \<times> string option) list \<times> string list \<Rightarrow>
     (string set \<times> string option) list \<times> string list" where
  "freeze_step = (\<lambda>(name, fs) (seen, uniq).
     let names = fst ` set fs in
     case map_of seen names of
       None \<Rightarrow> (alist_set names (Some name) seen, name # uniq)
     | Some None \<Rightarrow> (alist_set names None seen, uniq)
     | Some (Some other) \<Rightarrow> (alist_set names None seen, filter (\<lambda>n. n \<noteq> other) uniq))"

definition types_with_unique_fields :: "option_types \<Rightarrow> string list" where
  "types_with_unique_fields tys = snd (fold freeze_step tys ([], []))"

text \<open>\<open>Nullable(t)\<close> is an alternative of its own.\<close>

definition types_of :: "alt_env \<Rightarrow> atype \<Rightarrow> option_types" where
  "types_of env t = (case t of
     TAlt n \<Rightarrow> (case env n of None \<Rightarrow> [] | Some d \<Rightarrow> alt_types d)
   | TNullable s \<Rightarrow> [(''Null'', []), (''Value'', [(''val'', s)])]
   | _ \<Rightarrow> [])"

section \<open>Dicts\<close>

definition num_of :: "pyval \<Rightarrow> rat option" where
  "num_of v = (case v of VInt i \<Rightarrow> Some (of_int i) | VBool b \<Rightarrow> Some (if b then 1 else 0)
     | VFloat r \<Rightarrow> Some r | _ \<Rightarrow> None)"

definition is_ascii :: "string \<Rightarrow> bool" where
  "is_ascii s \<longleftrightarrow> (\<forall>c \<in> set s. of_char c < (128::nat))"

lemma size_zip [termination_simp]:
  "(a, b) \<in> set (zip xs ys) \<Longrightarrow> size a < Suc (size_list size xs)"
  "(a, b) \<in> set (zip xs ys) \<Longrightarrow> size a \<le> Suc (size_list size xs)"
  using size_list_estimation' [of a xs "size a" size] set_zip_leftD [of a b xs ys] by force+

lemma size_zip_field [termination_simp]:
  "((a, b), p) \<in> set (zip xs ys) \<Longrightarrow> size b < Suc (size_list (\<lambda>x. Suc (size (snd x))) xs)"
  "((a, b), p) \<in> set (zip xs ys) \<Longrightarrow> size b \<le> Suc (size_list (\<lambda>x. Suc (size (snd x))) xs)"
  using size_list_estimation' [of "(a, b)" xs "size b" "\<lambda>x. Suc (size (snd x))"]
    set_zip_leftD [of "(a, b)" p xs ys] by force+

text \<open>Equality of keys: a bool equals the int it stands for, a \<open>str\<close> the \<open>unicode\<close> with the same
  ASCII characters.\<close>

fun py_eq :: "pyval \<Rightarrow> pyval \<Rightarrow> bool" where
  "py_eq (VTuple xs) (VTuple ys) =
     (length xs = length ys \<and> (\<forall>(x, y) \<in> set (zip xs ys). py_eq x y))"
| "py_eq (VStr a) (VUni b) = (a = b \<and> is_ascii a)"
| "py_eq (VUni a) (VStr b) = (a = b \<and> is_ascii a)"
| "py_eq a b = (case (num_of a, num_of b) of (Some x, Some y) \<Rightarrow> x = y | _ \<Rightarrow> a = b)"

fun hashable :: "pyval \<Rightarrow> bool" where
  "hashable (VList xs) = False"
| "hashable (VDict d) = False"
| "hashable (VTuple xs) = (\<forall>x \<in> set xs. hashable x)"
| "hashable v = True"

fun dict_set :: "pyval \<Rightarrow> pyval \<Rightarrow> (pyval \<times> pyval) list \<Rightarrow> (pyval \<times> pyval) list" where
  "dict_set k v [] = [(k, v)]"
| "dict_set k v ((k', v') # d) =
     (if py_eq k' k then (k', v) # d else (k', v') # dict_set k v d)"

definition dict_put :: "pyval \<Rightarrow> pyval \<Rightarrow> (pyval \<times> pyval) list \<Rightarrow> (pyval \<times> pyval) list res" where
  "dict_put k v d = (if hashable k then Inr (dict_set k v d) else Inl TypeError)"

definition keys_differ :: "(pyval \<times> pyval) list \<Rightarrow> bool" where
  "keys_differ = sorted_wrt (\<lambda>p q. \<not> py_eq (fst p) (fst q))"

section \<open>Coercion and construction\<close>

definition opt_none :: "pyval option \<Rightarrow> pyval" where
  "opt_none r = (case r of None \<Rightarrow> VNone | Some v \<Rightarrow> v)"

text \<open>\<open>iter(v)\<close>; the characters of a string are strings.\<close>

definition py_iter :: "pyval \<Rightarrow> pyval list option" where
  "py_iter v = (case v of
     VStr s \<Rightarrow> Some (map (\<lambda>c. VStr [c]) s)
   | VUni s \<Rightarrow> Some (map (\<lambda>c. VUni [c]) s)
   | VTuple xs \<Rightarrow> Some xs
   | VList xs \<Rightarrow> Some xs
   | VDict d \<Rightarrow> Some (map fst d)
   | _ \<Rightarrow> None)"

definition default_initialize :: "alt_env \<Rightarrow> atype \<Rightarrow> pyval option" where
  "default_initialize env t = (case t of
     TStr \<Rightarrow> Some (VStr '''')
   | TBool \<Rightarrow> Some (VBool False)
   | TInt \<Rightarrow> Some (VInt 0)
   | TFloat \<Rightarrow> Some (VFloat 0)
   | TDict k v \<Rightarrow> Some (VDict [])
   | TList s \<Rightarrow> Some (VTuple [])
   | TNullable s \<Rightarrow> Some (VInst (TNullable s) ''Null'' [])
   | TAlt n \<Rightarrow> (case env n of None \<Rightarrow> None | Some d \<Rightarrow> alt_default d)
   | TObj c \<Rightarrow> Some (VObj c ''NULL'')
   | TTuple ts \<Rightarrow> None)"

type_synonym coercion = "pyval \<Rightarrow> atype \<Rightarrow> pyval option res"

text \<open>One field of a new instance: given, defaulted or missing.\<close>

definition init_field ::
    "alt_env \<Rightarrow> coercion \<Rightarrow> bool \<Rightarrow> (string \<times> pyval) list \<Rightarrow> string \<times> atype \<Rightarrow> (string \<times> pyval) res"
  where
  "init_field env c fill given = (\<lambda>(k, t).
     bindR (case map_of given k of
         None \<Rightarrow> (if fill then Inr (default_initialize env t) else Inl TypeError)
       | Some v \<Rightarrow> c v t) (\<lambda>r.
     case r of None \<Rightarrow> Inl TypeError | Some v \<Rightarrow> Inr (k, v)))"

text \<open>\<open>AlternativeOption.__init__\<close> with keyword arguments.\<close>

definition construct ::
    "alt_env \<Rightarrow> coercion \<Rightarrow> atype \<Rightarrow> string \<Rightarrow> (string \<times> atype) list \<Rightarrow> bool \<Rightarrow> bool \<Rightarrow>
     (string \<times> pyval) list \<Rightarrow> pyval res" where
  "construct env c t which td fill extra given =
     bindR (assertR (extra \<or> (\<forall>f \<in> set given. fst f \<in> fst ` set td)) TypeError) (\<lambda>_.
     let used = (if extra then filter (\<lambda>f. fst f \<in> fst ` set td) given else given) in
     bindR (mapR (init_field env c fill used) td) (\<lambda>fs.
     Inr (VInst t which fs)))"

text \<open>The same with one positional argument.\<close>

definition construct_from ::
    "alt_env \<Rightarrow> coercion \<Rightarrow> atype \<Rightarrow> string \<Rightarrow> (string \<times> atype) list \<Rightarrow> pyval \<Rightarrow> pyval res" where
  "construct_from env c t which td arg =
     (if td = [] \<and> arg = VNone then construct env c t which td False False []
      else case td of
        [(f, _)] \<Rightarrow> construct env c t which td False False [(f, arg)]
      | _ \<Rightarrow> Inl TypeError)"

text \<open>\<open>Alternative.__call__\<close> with one positional argument, and with keyword arguments.\<close>

definition alt_call :: "alt_env \<Rightarrow> coercion \<Rightarrow> atype \<Rightarrow> pyval \<Rightarrow> pyval res" where
  "alt_call env c t arg = (case types_of env t of
     [(which, td)] \<Rightarrow> construct_from env c t which td arg
   | tys \<Rightarrow>
       (case filter (\<lambda>(w, td). if arg = VNone then td = [] else length td = 1) tys of
          [(which, td)] \<Rightarrow> construct_from env c t which td arg
        | _ \<Rightarrow> Inl TypeError))"

definition alt_call_with :: "alt_env \<Rightarrow> coercion \<Rightarrow> atype \<Rightarrow> (string \<times> pyval) list \<Rightarrow> pyval res" where
  "alt_call_with env c t kwds = (case types_of env t of
     [(which, td)] \<Rightarrow> construct env c t which td False False kwds
   | tys \<Rightarrow>
       (case filter (\<lambda>(w, td). fst ` set td = fst ` set kwds) tys of
          [(which, td)] \<Rightarrow> construct env c t which td False False kwds
        | _ \<Rightarrow> Inl TypeError))"

text \<open>The loops of \<open>coerce_instance\<close>: the first element that cannot be coerced ends the call.\<close>

fun coerce_list :: "('a \<Rightarrow> pyval option res) \<Rightarrow> 'a list \<Rightarrow> pyval list option res" where
  "coerce_list c [] = Inr (Some [])"
| "coerce_list c (x # xs) = bindR (c x) (\<lambda>r. case r of
     None \<Rightarrow> Inr None
   | Some v \<Rightarrow> bindR (coerce_list c xs) (\<lambda>rs. Inr (map_option (Cons v) rs)))"

text \<open>A dict keeps what the coercion of a key or of a value returned, \<open>None\<close> included.\<close>

definition coerce_item ::
    "coercion \<Rightarrow> atype \<Rightarrow> atype \<Rightarrow> pyval \<times> pyval \<Rightarrow> (pyval \<times> pyval) list \<Rightarrow>
     (pyval \<times> pyval) list res" where
  "coerce_item c kt vt = (\<lambda>(k, v) d.
     bindR (c v vt) (\<lambda>v'. bindR (c k kt) (\<lambda>k'. dict_put (opt_none k') (opt_none v') d)))"

fun isinstance :: "pyval \<Rightarrow> atype \<Rightarrow> bool" where
  "isinstance (VStr s) t = (t = TStr)"
| "isinstance (VInt i) t = (t = TInt)"
| "isinstance (VBool b) t = (t = TBool \<or> t = TInt)"
| "isinstance (VFloat r) t = (t = TFloat)"
| "isinstance (VObj c i) t = (t = TObj c)"
| "isinstance v t = False"

definition coerce_alt :: "alt_env \<Rightarrow> coercion \<Rightarrow> pyval \<Rightarrow> atype \<Rightarrow> pyval option res" where
  "coerce_alt env c v t =
     (case v of
        VInst t' w fs \<Rightarrow> (if t' = t then Inr (Some v) else
          (case alt_call env c t v of Inl TypeError \<Rightarrow> Inr None | Inl e \<Rightarrow> Inl e
           | Inr i \<Rightarrow> Inr (Some i)))
      | _ \<Rightarrow> (case alt_call env c t v of Inl TypeError \<Rightarrow> Inr None | Inl e \<Rightarrow> Inl e
           | Inr i \<Rightarrow> Inr (Some i)))"

definition to_str :: "pyval \<Rightarrow> pyval res" where
  "to_str v = (case v of
     VUni s \<Rightarrow> (if is_ascii s then Inr (VStr s) else Inl ValueError)
   | _ \<Rightarrow> Inr v)"

definition coerce_body :: "alt_env \<Rightarrow> coercion \<Rightarrow> coercion" where
  "coerce_body env c v t = (case t of
     TAlt n \<Rightarrow> coerce_alt env c v t
   | TNullable s \<Rightarrow> coerce_alt env c v t
   | TTuple ts \<Rightarrow> (case v of
       VTuple xs \<Rightarrow> (if length xs \<noteq> length ts then Inr None
         else bindR (coerce_list (\<lambda>p. c (fst p) (snd p)) (zip xs ts)) (\<lambda>r.
           Inr (map_option VTuple r)))
     | _ \<Rightarrow> Inr None)
   | TDict kt vt \<Rightarrow> (case v of
       VDict d \<Rightarrow> bindR (foldR (coerce_item c kt vt) d []) (\<lambda>d'. Inr (Some (VDict d')))
     | _ \<Rightarrow> Inr None)
   | TList s \<Rightarrow> (case py_iter v of
       None \<Rightarrow> Inr None
     | Some xs \<Rightarrow> bindR (coerce_list (\<lambda>x. c x s) xs) (\<lambda>r. Inr (map_option VTuple r)))
   | _ \<Rightarrow> Inr (if isinstance v t then Some v else None))"

definition coerce_step :: "alt_env \<Rightarrow> coercion \<Rightarrow> coercion" where
  "coerce_step env c v t = bindR (to_str v) (\<lambda>v. coerce_body env c v t)"

primrec coerce_instance :: "alt_env \<Rightarrow> nat \<Rightarrow> coercion" where
  "coerce_instance env 0 = (\<lambda>v t. Inl RecursionError)"
| "coerce_instance env (Suc n) = coerce_step env (coerce_instance env n)"

text \<open>\<open>_withReplacement\<close> of an instance: the fields of the instance itself are replaced before the
  constructor checks them, so the first component, the instance after the call, is changed
  whether or not the call returns.\<close>

definition with_replacement ::
    "alt_env \<Rightarrow> nat \<Rightarrow> (string \<times> pyval) list \<Rightarrow> pyval \<Rightarrow> pyval \<times> pyval res" where
  "with_replacement env n kwargs v = (case v of
     VInst t w fs \<Rightarrow>
       (let fs' = alist_update fs kwargs in
        (VInst t w fs',
         (case map_of (types_of env t) w of
            None \<Rightarrow> Inl AttributeError
          | Some td \<Rightarrow> construct env (coerce_instance env n) t w td False False fs')))
   | _ \<Rightarrow> (v, Inl AttributeError))"

definition matches :: "pyval \<Rightarrow> string \<Rightarrow> bool" where
  "matches v name = (case v of VInst t w fs \<Rightarrow> w = name | _ \<Rightarrow> False)"

section \<open>Well-typed values\<close>

text \<open>
  What it means for a value to have a type. Coercion stores the failed coercion of an entry of a
  dict as \<open>None\<close>; with \<open>lax\<close> such entries are admitted, and only those.
\<close>

fun typed :: "bool \<Rightarrow> alt_env \<Rightarrow> pyval \<Rightarrow> atype \<Rightarrow> bool" where
  "typed lax env (VTuple xs) t = (case t of
     TTuple ts \<Rightarrow> length xs = length ts \<and> (\<forall>(x, s) \<in> set (zip xs ts). typed lax env x s)
   | TList s \<Rightarrow> (\<forall>x \<in> set xs. typed lax env x s)
   | _ \<Rightarrow> False)"
| "typed lax env (VDict d) t = (case t of
     TDict kt vt \<Rightarrow> keys_differ d \<and>
       (\<forall>(k, v) \<in> set d. hashable k \<and> (typed lax env k kt \<or> lax \<and> k = VNone) \<and>
          (typed lax env v vt \<or> lax \<and> v = VNone))
   | _ \<Rightarrow> False)"
| "typed lax env (VInst t' w fs) t = (t' = t \<and> (case map_of (types_of env t) w of
     None \<Rightarrow> False
   | Some td \<Rightarrow> map fst fs = map fst td \<and>
       (\<forall>(f, p) \<in> set (zip fs td). typed lax env (snd f) (snd p))))"
| "typed lax env v t = isinstance v t"

text \<open>Every instance that occurs in the value is well typed.\<close>

fun instances_ok :: "alt_env \<Rightarrow> pyval \<Rightarrow> bool" where
  "instances_ok env (VTuple xs) = (\<forall>x \<in> set xs. instances_ok env x)"
| "instances_ok env (VList xs) = (\<forall>x \<in> set xs. instances_ok env x)"
| "instances_ok env (VDict d) = (\<forall>(k, v) \<in> set d. instances_ok env k \<and> instances_ok env v)"
| "instances_ok env (VInst t w fs) = typed True env (VInst t w fs) t"
| "instances_ok env v = True"

text \<open>A declaration as \<open>define\<close> builds it, and a set of declarations whose defaults are instances of
  the alternative they are the default of.\<close>

definition alt_ok :: "alt_def \<Rightarrow> bool" where
  "alt_ok d \<longleftrightarrow> distinct (map fst (alt_types d)) \<and> distinct (map fst (alt_common d)) \<and>
     (\<forall>o' \<in> set (alt_types d). distinct (map fst (snd o')))"

definition env_ok :: "alt_env \<Rightarrow> bool" where
  "env_ok env \<longleftrightarrow> (\<forall>n d. env n = Some d \<longrightarrow> alt_ok d \<and>
     (\<forall>v. alt_default d = Some v \<longrightarrow> typed True env v (TAlt n)))"

lemma alt_ok_empty: "alt_ok empty_alt"
  by (simp add: alt_ok_def empty_alt_def)

lemma alt_ok_define_option:
  assumes "define_option name fds d = Inr d'" "alt_ok d" "distinct (map fst fds)"
  shows "alt_ok d'"
  using assms
  by (auto simp: define_option_def alt_ok_def res_elims distinct_alist_update)

lemma alt_ok_add_common_field:
  assumes "add_common_field k t d = Inr d'" "alt_ok d"
  shows "alt_ok d'"
  using assms
  by (force simp: add_common_field_def alt_ok_def res_elims comp_def split_def
      intro!: distinct_alist_set)

lemma alt_ok_add_common_fields:
  assumes "add_common_fields fds d = Inr d'" "alt_ok d"
  shows "alt_ok d'"
  using assms unfolding add_common_fields_def
  by (auto simp: res_elims elim!: foldR_inv intro: alt_ok_add_common_field)

section \<open>Construction is sound\<close>

lemma types_of_distinct:
  assumes "env_ok env" "(w, td) \<in> set (types_of env t)"
  shows "map_of (types_of env t) w = Some td" "distinct (map fst td)"
  using assms
  by (force simp: types_of_def env_ok_def alt_ok_def split: atype.splits option.splits)+

definition sound_coercion :: "alt_env \<Rightarrow> coercion \<Rightarrow> bool" where
  "sound_coercion env c \<longleftrightarrow>
     (\<forall>v t w. instances_ok env v \<longrightarrow> c v t = Inr (Some w) \<longrightarrow> typed True env w t)"

lemma default_typed:
  assumes "env_ok env" "default_initialize env t = Some v"
  shows "typed True env v t"
  using assms
  by (auto simp: default_initialize_def env_ok_def types_of_def keys_differ_def
      split: atype.splits option.splits)

lemma init_field_sound:
  assumes "init_field env c fill given (k, t) = Inr p" "env_ok env" "sound_coercion env c"
    and "\<forall>f \<in> set given. instances_ok env (snd f)"
  shows "fst p = k \<and> typed True env (snd p) t"
  using assms
  by (force simp: init_field_def res_elims sound_coercion_def
      split: option.splits if_splits dest: map_of_SomeD default_typed)

lemma init_fields_sound:
  assumes "mapR (init_field env c fill given) td = Inr fs" "env_ok env" "sound_coercion env c"
    and "\<forall>f \<in> set given. instances_ok env (snd f)"
  shows "map fst fs = map fst td \<and> (\<forall>(f, p) \<in> set (zip fs td). typed True env (snd f) (snd p))"
  using assms(1)
proof (induction td arbitrary: fs)
  case (Cons p td)
  then obtain f fs' where fs: "fs = f # fs'" "init_field env c fill given p = Inr f"
    "mapR (init_field env c fill given) td = Inr fs'" by (auto simp: res_elims)
  have "fst f = fst p \<and> typed True env (snd f) (snd p)"
    using init_field_sound [of env c fill given "fst p" "snd p" f] fs(2) assms(2-4) by simp
  with Cons.IH [OF fs(3)] fs(1) show ?case by auto
qed simp

lemma construct_sound:
  assumes "construct env c t w td fill extra given = Inr v"
    and "env_ok env" "sound_coercion env c" "(w, td) \<in> set (types_of env t)"
    and "\<forall>f \<in> set given. instances_ok env (snd f)"
  shows "typed True env v t"
proof -
  obtain used fs where "mapR (init_field env c fill used) td = Inr fs" "v = VInst t w fs"
    "set used \<subseteq> set given"
    using assms(1) by (auto simp: construct_def res_elims Let_def split: if_splits)
  with init_fields_sound [of env c fill used td fs] assms types_of_distinct(1) [OF assms(2,4)]
  show ?thesis by auto
qed

lemma construct_from_sound:
  assumes "construct_from env c t w td arg = Inr v" "env_ok env" "sound_coercion env c"
    and "(w, td) \<in> set (types_of env t)" "instances_ok env arg"
  shows "typed True env v t"
  using assms unfolding construct_from_def
  by (auto split: if_splits list.splits elim!: construct_sound)

lemma alt_call_sound:
  assumes "alt_call env c t arg = Inr v" "env_ok env" "sound_coercion env c" "instances_ok env arg"
  shows "typed True env v t"
proof -
  let ?P = "\<lambda>(w :: string, td :: (string \<times> atype) list).
    if arg = VNone then td = [] else length td = 1"
  obtain p where p: "p \<in> set (types_of env t)" "construct_from env c t (fst p) (snd p) arg = Inr v"
  proof (cases "\<exists>p. types_of env t = [p]")
    case True
    with assms(1) that show ?thesis by (auto simp: alt_call_def)
  next
    case False
    then obtain p where q: "filter ?P (types_of env t) = [p]"
      "construct_from env c t (fst p) (snd p) arg = Inr v"
      using assms(1) unfolding alt_call_def by (cases "types_of env t" rule: list.exhaust)
        (auto split: list.splits)
    have "p \<in> set (filter ?P (types_of env t))" using q(1) by simp
    then have "p \<in> set (types_of env t)" by simp
    then show ?thesis by (rule that) (rule q(2))
  qed
  then show ?thesis using construct_from_sound [of env c t "fst p" "snd p" arg v] assms by simp
qed

lemma coerce_list_Some:
  "coerce_list c xs = Inr (Some ys) \<longleftrightarrow> list_all2 (\<lambda>x y. c x = Inr (Some y)) xs ys"
proof (induction xs arbitrary: ys)
  case (Cons x xs)
  show ?case
  proof (cases "c x")
    case (Inr r)
    show ?thesis
    proof (cases r)
      case (Some v)
      with Inr Cons show ?thesis
        by (cases ys) (auto simp: bindR_Inr_conv)
    qed (use Inr in \<open>auto simp: list_all2_Cons1\<close>)
  qed (auto simp: list_all2_Cons1)
qed auto

lemma py_iter_instances:
  "py_iter v = Some xs \<Longrightarrow> instances_ok env v \<Longrightarrow> x \<in> set xs \<Longrightarrow> instances_ok env x"
  by (cases v) (force simp: py_iter_def)+

lemma keys_dict_set: "q \<in> set (dict_set k v d) \<Longrightarrow> fst q = k \<or> fst q \<in> fst ` set d"
  by (induction d) (force split: if_splits)+

lemma keys_differ_dict_set: "keys_differ d \<Longrightarrow> keys_differ (dict_set k v d)"
proof (induction d)
  case (Cons p d)
  then show ?case using keys_dict_set [of _ k v d] by (cases p) (fastforce simp: keys_differ_def)
qed (simp add: keys_differ_def)

lemma set_dict_set:
  "(a, b) \<in> set (dict_set k v d) \<Longrightarrow> (a, b) \<in> set d \<or> b = v \<and> (a = k \<or> a \<in> fst ` set d)"
  by (induction d) (auto split: if_splits)

lemma coerce_dict_typed:
  assumes c: "\<And>v t r. instances_ok env v \<Longrightarrow> c v t = Inr (Some r) \<Longrightarrow> typed True env r t"
    and "foldR (coerce_item c kt vt) d e = Inr e'" "typed True env (VDict e) (TDict kt vt)"
    and "instances_ok env (VDict d)"
  shows "typed True env (VDict e') (TDict kt vt)"
  using assms(2-)
proof (induction d arbitrary: e)
  case (Cons p d)
  obtain k v where p: "p = (k, v)" by (cases p)
  from Cons.prems(1) p obtain k' v' e1 where s: "c v vt = Inr v'" "c k kt = Inr k'"
    "dict_put (opt_none k') (opt_none v') e = Inr e1" "foldR (coerce_item c kt vt) d e1 = Inr e'"
    by (auto simp: coerce_item_def res_elims)
  have "typed True env (VDict e1) (TDict kt vt)"
  proof -
    have e1: "e1 = dict_set (opt_none k') (opt_none v') e" "hashable (opt_none k')"
      using s(3) by (auto simp: dict_put_def split: if_splits)
    have k: "typed True env (opt_none k') kt \<or> opt_none k' = VNone"
      and v: "typed True env (opt_none v') vt \<or> opt_none v' = VNone"
      using c s(1,2) Cons.prems(3) p by (cases k'; cases v'; auto simp: opt_none_def)+
    show ?thesis
      using Cons.prems(2) e1 k v keys_differ_dict_set
      by (fastforce dest!: set_dict_set)
  qed
  with Cons.IH [OF s(4)] Cons.prems(3) show ?case by simp
qed simp

lemma isinstance_typed: "isinstance v t \<Longrightarrow> typed lax env v t"
  by (cases v) auto

lemma coerce_alt_sound:
  assumes "coerce_alt env c v t = Inr (Some w)" "env_ok env" "sound_coercion env c"
    and "instances_ok env v"
  shows "typed True env w t"
proof (cases "\<exists>i fs. v = VInst t i fs")
  case True
  with assms show ?thesis by (auto simp: coerce_alt_def)
next
  case False
  then have "alt_call env c t v = Inr w"
    using assms(1) by (auto simp: coerce_alt_def split: pyval.splits if_splits sum.splits py_error.splits)
  then show ?thesis using alt_call_sound assms by blast
qed

lemma coerce_body_sound:
  assumes "env_ok env" "sound_coercion env c"
    and okv: "instances_ok env v" and r: "coerce_body env c v t = Inr (Some w)"
  shows "typed True env w t"
proof -
  have c: "\<And>v t r. instances_ok env v \<Longrightarrow> c v t = Inr (Some r) \<Longrightarrow> typed True env r t"
    using assms(2) by (auto simp: sound_coercion_def)
  show ?thesis
  proof (cases t)
    case (TTuple ts)
    then obtain xs ys where x: "v = VTuple xs" "length xs = length ts" "w = VTuple ys"
      "list_all2 (\<lambda>p y. c (fst p) (snd p) = Inr (Some y)) (zip xs ts) ys"
      using r by (auto simp: coerce_body_def bindR_Inr_conv coerce_list_Some
          split: pyval.splits if_splits)
    have "\<forall>(y, s) \<in> set (zip ys ts). typed True env y s"
      using x(2,4) okv unfolding x(1)
      by (fastforce simp: list_all2_conv_all_nth set_zip intro: c)
    moreover have "length ys = length ts" using x(2) list_all2_lengthD [OF x(4)] by simp
    ultimately show ?thesis using x(3) TTuple by simp
  next
    case (TList s)
    then obtain xs ys where x: "py_iter v = Some xs" "w = VTuple ys"
      "list_all2 (\<lambda>x y. c x s = Inr (Some y)) xs ys"
      using r by (auto simp: coerce_body_def bindR_Inr_conv coerce_list_Some split: option.splits)
    have "\<forall>y \<in> set ys. typed True env y s"
      using x(3) py_iter_instances [OF x(1) okv]
      by (fastforce simp: list_all2_conv_all_nth in_set_conv_nth intro: c)
    then show ?thesis using x(2) TList by simp
  next
    case (TDict kt vt)
    then obtain d d' where x: "v = VDict d" "foldR (coerce_item c kt vt) d [] = Inr d'"
      "w = VDict d'"
      using r by (auto simp: coerce_body_def bindR_Inr_conv split: pyval.splits)
    have "typed True env (VDict []) (TDict kt vt)" by (simp add: keys_differ_def)
    with coerce_dict_typed [OF c x(2)] okv x TDict show ?thesis by simp
  next
    case (TAlt n)
    with r have "coerce_alt env c v t = Inr (Some w)" by (simp add: coerce_body_def)
    then show ?thesis using coerce_alt_sound assms(1,2) okv by blast
  next
    case (TNullable n)
    with r have "coerce_alt env c v t = Inr (Some w)" by (simp add: coerce_body_def)
    then show ?thesis using coerce_alt_sound assms(1,2) okv by blast
  qed (use r in \<open>auto simp: coerce_body_def split: if_splits intro: isinstance_typed\<close>)
qed

lemma coerce_step_sound:
  assumes "env_ok env" "sound_coercion env c"
  shows "sound_coercion env (coerce_step env c)"
proof -
  have "to_str v = Inr v' \<Longrightarrow> instances_ok env v \<Longrightarrow> instances_ok env v'" for v v'
    by (cases v) (auto simp: to_str_def split: if_splits)
  with coerce_body_sound [OF assms] show ?thesis
    unfolding sound_coercion_def coerce_step_def by (fastforce simp: bindR_Inr_conv)
qed

lemma coerce_instance_sound: "env_ok env \<Longrightarrow> sound_coercion env (coerce_instance env n)"
proof (induction n)
  case 0
  show ?case by (simp add: sound_coercion_def)
qed (simp add: coerce_step_sound)

end
