(* ===== verification/Algebraic_Json.thy ===== *)
theory Algebraic_Json
  imports Algebraic
begin

text \<open>
  The encoder between typed unions and JSON, \<open>core/algebraic_to_json.py\<close>: what the database
  stores, what the server and the workers send each other and what a configuration file is read
  into. JSON values are Python values without instances. \<open>from_json\<close> recurses along the type, so
  like a coercion it is given the depth the interpreter allows.
\<close>

section \<open>Encoding\<close>

definition ascii_ignore :: "string \<Rightarrow> string" where
  "ascii_ignore = filter (\<lambda>c. of_char c < (128::nat))"

definition is_nullable :: "atype \<Rightarrow> bool" where
  "is_nullable t = (case t of TNullable s \<Rightarrow> True | _ \<Rightarrow> False)"

definition fields_are_unique :: "alt_env \<Rightarrow> atype \<Rightarrow> string \<Rightarrow> bool" where
  "fields_are_unique env t which = (which \<in> set (types_with_unique_fields (types_of env t)))"

text \<open>The JSON of an instance, once its fields are encoded.\<close>

definition instance_json :: "alt_env \<Rightarrow> atype \<Rightarrow> string \<Rightarrow> (string \<times> pyval) list \<Rightarrow> pyval res" where
  "instance_json env t which js =
     (if is_nullable t then
        (if which = ''Null'' then Inr VNone
         else case map_of js ''val'' of None \<Rightarrow> Inl AttributeError | Some j \<Rightarrow> Inr j)
      else if js = [] then Inr (VStr which)
      else Inr (VDict ((if fields_are_unique env t which then []
                        else [(VStr ''_type'', VStr which)]) @ map (\<lambda>(f, j). (VStr f, j)) js)))"

fun to_json :: "alt_env \<Rightarrow> pyval \<Rightarrow> pyval res" where
  "to_json env (VUni s) = Inr (VStr (ascii_ignore s))"
| "to_json env (VInst t which fs) =
     bindR (assertR (is_nullable t \<or> ''_type'' \<notin> fst ` set fs) AssertionError) (\<lambda>_.
     bindR (mapR (\<lambda>(f, v). bindR (to_json env v) (\<lambda>j. Inr (f, j))) fs) (\<lambda>js.
     instance_json env t which js))"
| "to_json env (VList xs) = bindR (mapR (to_json env) xs) (\<lambda>js. Inr (VList js))"
| "to_json env (VTuple xs) = bindR (mapR (to_json env) xs) (\<lambda>js. Inr (VList js))"
| "to_json env (VDict d) = bindR (foldR (\<lambda>(k, v) e.
     bindR (to_json env v) (\<lambda>v'. bindR (to_json env k) (\<lambda>k'. dict_put k' v' e))) d [])
     (\<lambda>e. Inr (VDict e))"
| "to_json env (VObj c i) = Inr (VStr i)"
| "to_json env v = Inr v"

section \<open>Decoding\<close>

record encoder =
  mergeListsIntoDicts :: bool
  allowExtraFields :: bool

fun flatten_val :: "pyval \<Rightarrow> pyval list" where
  "flatten_val (VTuple xs) = concat (map flatten_val xs)"
| "flatten_val (VList xs) = concat (map flatten_val xs)"
| "flatten_val v = [v]"

definition flattenListsAndTuples :: "pyval \<Rightarrow> pyval" where
  "flattenListsAndTuples v = (case v of
     VTuple xs \<Rightarrow> VList (flatten_val v) | VList xs \<Rightarrow> VList (flatten_val v) | _ \<Rightarrow> v)"

fun digits :: "nat \<Rightarrow> string" where
  "digits n = (if n < 10 then [char_of (48 + n)] else digits (n div 10) @ [char_of (48 + n mod 10)])"

definition str_int :: "int \<Rightarrow> string" where
  "str_int i = (if i < 0 then ''-'' @ digits (nat (- i)) else digits (nat i))"

text \<open>\<open>float(i)\<close>: 53 significant bits, half way cases to even.\<close>

fun bit_length :: "nat \<Rightarrow> nat" where
  "bit_length n = (if n = 0 then 0 else Suc (bit_length (n div 2)))"

definition float_int :: "int \<Rightarrow> rat" where
  "float_int i =
     (let m = nat \<bar>i\<bar>; e = bit_length m - 53; q = m div 2 ^ e; r = m mod 2 ^ e;
          up = (2 * r > 2 ^ e \<or> 2 * r = 2 ^ e \<and> odd q);
          a = of_nat ((if up then q + 1 else q) * 2 ^ e)
      in if i < 0 then - a else a)"

text \<open>\<open>for k, v in value\<close>: unpacking one element.\<close>

definition unpack2 :: "pyval \<Rightarrow> (pyval \<times> pyval) res" where
  "unpack2 v = (case py_iter v of
     None \<Rightarrow> Inl TypeError
   | Some xs \<Rightarrow> (case xs of [a, b] \<Rightarrow> Inr (a, b) | _ \<Rightarrow> Inl ValueError))"

type_synonym decoder = "pyval \<Rightarrow> atype \<Rightarrow> pyval res"

definition decode_items ::
    "decoder \<Rightarrow> atype \<Rightarrow> atype \<Rightarrow> (pyval \<times> pyval) list \<Rightarrow> (pyval \<times> pyval) list res" where
  "decode_items dec kt vt d = foldR (\<lambda>(k, v) e.
     bindR (dec v vt) (\<lambda>v'. bindR (dec k kt) (\<lambda>k'. dict_put k' v' e))) d []"

definition merge_item ::
    "decoder \<Rightarrow> atype \<Rightarrow> pyval \<Rightarrow> (pyval \<times> pyval) list \<Rightarrow> (pyval \<times> pyval) list res" where
  "merge_item dec t sub res = bindR (dec sub t) (\<lambda>r. case r of
     VDict d \<Rightarrow> foldR (\<lambda>(k, v). dict_put k v) d res
   | _ \<Rightarrow> Inl AttributeError)"

definition decode_dict_type :: "encoder \<Rightarrow> decoder \<Rightarrow> atype \<Rightarrow> atype \<Rightarrow> pyval \<Rightarrow> pyval res" where
  "decode_dict_type enc dec kt vt v = bindR
     (case v of
        VDict d \<Rightarrow> decode_items dec kt vt d
      | _ \<Rightarrow>
        if mergeListsIntoDicts enc then
          (case v of
             VTuple xs \<Rightarrow> foldR (merge_item dec (TDict kt vt)) xs []
           | VList xs \<Rightarrow> foldR (merge_item dec (TDict kt vt)) xs []
           | _ \<Rightarrow> Inl (UserException ''UserWarning''))
        else
          (case py_iter v of
             None \<Rightarrow> Inl TypeError
           | Some xs \<Rightarrow> bindR (mapR unpack2 xs) (decode_items dec kt vt)))
     (\<lambda>d. Inr (VDict d))"

definition list_items :: "atype \<Rightarrow> pyval \<Rightarrow> pyval list option" where
  "list_items s v =
     (let v1 = (case s of TList _ \<Rightarrow> v | _ \<Rightarrow> flattenListsAndTuples v) in
      case v1 of
        VDict d \<Rightarrow> Some (map (\<lambda>(k, x). VTuple [k, x]) d)
      | VStr _ \<Rightarrow> Some [v1]
      | VInt _ \<Rightarrow> Some [v1]
      | VBool _ \<Rightarrow> Some [v1]
      | _ \<Rightarrow> py_iter v1)"

text \<open>The attributes of an alternative that are not options. The methods \<open>define\<close> and
  \<open>_freeze\<close> can be called without arguments and return \<open>None\<close>.\<close>

definition class_attributes :: "string list" where
  "class_attributes = [''define'', ''_freeze'', ''setCreateDefault'', ''add_common_fields'',
     ''add_common_field'', ''_name'', ''_types'', ''_options'', ''_frozen'', ''_methods'',
     ''_common_fields'', ''_createDefaultValue'', ''_unique_field_to_type'',
     ''_types_with_unique_fields'']"

text \<open>An alternative given as a string.\<close>

definition decode_name :: "alt_env \<Rightarrow> coercion \<Rightarrow> atype \<Rightarrow> string \<Rightarrow> pyval res" where
  "decode_name env c t s =
     (let tys = types_of env t;
          zero = filter (\<lambda>(w, td). td = []) tys;
          single = filter (\<lambda>(w, td). map snd td = [TStr]) tys
      in if length single = 1 \<and> zero = [] then
           (case hd single of (w, td) \<Rightarrow> construct_from env c t w td (VStr s))
         else if s = ''define'' \<or> s = ''_freeze'' then Inr VNone
         else if s \<in> set class_attributes then Inl TypeError
         else case map_of tys s of
           None \<Rightarrow> Inl AssertionError
         | Some td \<Rightarrow> construct env c t s td False False [])"

definition key_name :: "pyval \<Rightarrow> string option" where
  "key_name k = (case k of VStr s \<Rightarrow> Some s | VUni s \<Rightarrow> (if is_ascii s then Some s else None)
     | _ \<Rightarrow> None)"

definition dict_get :: "string \<Rightarrow> (pyval \<times> pyval) list \<Rightarrow> pyval option" where
  "dict_get name d = map_option snd (find (\<lambda>p. key_name (fst p) = Some name) d)"

text \<open>The options that have every field seen so far; with \<open>allowExtraFields\<close> a field that no
  remaining option has is passed over.\<close>

fun narrow :: "bool \<Rightarrow> option_types \<Rightarrow> pyval list \<Rightarrow> option_types res" where
  "narrow extra possible [] = Inr possible"
| "narrow extra possible (k # ks) =
     (let here = filter (\<lambda>(w, td). case key_name k of None \<Rightarrow> False
                   | Some f \<Rightarrow> f \<in> fst ` set td) possible
      in if here \<noteq> [] then narrow extra here ks
         else if extra then narrow extra possible ks
         else Inl (UserException ''UserWarning''))"

definition guess_option ::
    "encoder \<Rightarrow> option_types \<Rightarrow> (pyval \<times> pyval) list \<Rightarrow> (string \<times> (string \<times> atype) list) res" where
  "guess_option enc tys d =
     bindR (narrow (allowExtraFields enc) tys (map fst d)) (\<lambda>possible.
     let left = (if length possible > 1
                 then filter (\<lambda>(w, td). length td = length d) possible else possible)
     in case left of
          [] \<Rightarrow> Inl IndexError
        | [p] \<Rightarrow> Inr p
        | _ \<Rightarrow> Inl (UserException ''UserWarning''))"

definition field_entry ::
    "(string \<times> atype) list \<Rightarrow> pyval \<times> pyval \<Rightarrow> (string \<times> pyval \<times> atype) option" where
  "field_entry td = (\<lambda>(k, v). case key_name k of
     None \<Rightarrow> None
   | Some f \<Rightarrow> if f = ''_type'' then None else map_option (\<lambda>s. (f, v, s)) (map_of td f))"

definition decode_fields ::
    "decoder \<Rightarrow> (string \<times> atype) list \<Rightarrow> (pyval \<times> pyval) list \<Rightarrow> (string \<times> pyval) list res" where
  "decode_fields dec td d =
     mapR (\<lambda>(f, v, s). bindR (dec v s) (\<lambda>x. Inr (f, x))) (List.map_filter (field_entry td) d)"

definition decode_option ::
    "alt_env \<Rightarrow> encoder \<Rightarrow> coercion \<Rightarrow> decoder \<Rightarrow> atype \<Rightarrow> string \<Rightarrow> (string \<times> atype) list \<Rightarrow>
     (pyval \<times> pyval) list \<Rightarrow> pyval res" where
  "decode_option env enc c dec t w td d =
     bindR (decode_fields dec td d) (\<lambda>subs.
     construct env c t w td True (allowExtraFields enc) subs)"

text \<open>An alternative given as an object, with the name of the option or without. The message
  for an unknown name looks up the key \<open>type\<close>.\<close>

definition decode_object ::
    "alt_env \<Rightarrow> encoder \<Rightarrow> coercion \<Rightarrow> decoder \<Rightarrow> atype \<Rightarrow> (pyval \<times> pyval) list \<Rightarrow> pyval res" where
  "decode_object env enc c dec t d =
     (let tys = types_of env t in
      case dict_get ''_type'' d of
        None \<Rightarrow> bindR (guess_option enc tys d) (\<lambda>(w, td). decode_option env enc c dec t w td d)
      | Some tv \<Rightarrow>
          (case (case tv of VUni s \<Rightarrow> VStr (ascii_ignore s) | _ \<Rightarrow> tv) of
             VStr s \<Rightarrow>
               if s \<in> set class_attributes then
                 (if length d \<noteq> 1 then Inl AttributeError
                  else if s = ''define'' then Inr VNone else Inl TypeError)
               else (case map_of tys s of
                 None \<Rightarrow> Inl (if dict_get ''type'' d = None then KeyError
                             else UserException ''UserWarning'')
               | Some td \<Rightarrow> decode_option env enc c dec t s td d)
           | _ \<Rightarrow> Inl (UserException ''UserWarning'')))"

definition decode_primitive :: "atype \<Rightarrow> pyval \<Rightarrow> pyval" where
  "decode_primitive t v =
     (if t = TStr then (case v of VBool b \<Rightarrow> VStr (if b then ''true'' else ''false'')
        | VInt i \<Rightarrow> VStr (str_int i) | _ \<Rightarrow> v)
      else if t = TFloat then (case v of VInt i \<Rightarrow> VFloat (float_int i)
        | VBool b \<Rightarrow> VFloat (if b then 1 else 0) | _ \<Rightarrow> v)
      else v)"

definition decode_body :: "alt_env \<Rightarrow> encoder \<Rightarrow> coercion \<Rightarrow> decoder \<Rightarrow> decoder" where
  "decode_body env enc c dec v t = (case t of
     TNullable s \<Rightarrow> bindR (dec v s) (\<lambda>x.
       construct env c t ''Value'' [(''val'', s)] False False [(''val'', x)])
   | TTuple ts \<Rightarrow> (case py_iter v of
       None \<Rightarrow> Inl TypeError
     | Some xs \<Rightarrow> bindR (assertR (length ts = length xs) AssertionError) (\<lambda>_.
         bindR (mapR (\<lambda>p. dec (fst p) (snd p)) (zip xs ts)) (\<lambda>ys. Inr (VTuple ys))))
   | TDict kt vt \<Rightarrow> decode_dict_type enc dec kt vt v
   | TList s \<Rightarrow> (case list_items s v of
       None \<Rightarrow> Inl TypeError
     | Some xs \<Rightarrow> bindR (mapR (\<lambda>x. dec x s) xs) (\<lambda>ys. Inr (VTuple ys)))
   | TAlt n \<Rightarrow> (case v of
       VStr s \<Rightarrow> decode_name env c t s
     | VDict d \<Rightarrow> decode_object env enc c dec t d
     | _ \<Rightarrow> Inl AssertionError)
   | TObj cls \<Rightarrow> (case v of VStr i \<Rightarrow> Inr (VObj cls i) | _ \<Rightarrow> Inl AssertionError)
   | _ \<Rightarrow> Inr (decode_primitive t v))"

definition decode_step :: "alt_env \<Rightarrow> encoder \<Rightarrow> coercion \<Rightarrow> decoder \<Rightarrow> decoder" where
  "decode_step env enc c dec v0 t =
     (let v = (case v0 of VUni s \<Rightarrow> VStr (ascii_ignore s) | _ \<Rightarrow> v0) in
      if v = VNone then Inr (case t of TDict kt vt \<Rightarrow> VDict [] | _ \<Rightarrow> VNone)
      else decode_body env enc c dec v t)"

primrec from_json :: "alt_env \<Rightarrow> encoder \<Rightarrow> nat \<Rightarrow> decoder" where
  "from_json env enc 0 = (\<lambda>v t. Inl RecursionError)"
| "from_json env enc (Suc n) =
     decode_step env enc (coerce_instance env n) (from_json env enc n)"

section \<open>What is decoded is well typed\<close>

definition instances_decoder :: "alt_env \<Rightarrow> decoder \<Rightarrow> bool" where
  "instances_decoder env dec \<longleftrightarrow>
     (\<forall>v t w. instances_ok env v \<longrightarrow> dec v t = Inr w \<longrightarrow> instances_ok env w)"

lemma typed_inst_instances [intro]: "typed True env (VInst t' w fs) t \<Longrightarrow> instances_ok env (VInst t' w fs)"
  by simp

lemma construct_instances:
  assumes "construct env c t w td fill extra given = Inr v"
    and "env_ok env" "sound_coercion env c" "(w, td) \<in> set (types_of env t)"
    and "\<forall>f \<in> set given. instances_ok env (snd f)"
  shows "typed True env v t \<and> instances_ok env v"
  using construct_sound [OF assms] assms(1)
  by (auto simp: construct_def Let_def bindR_Inr_conv simp del: typed.simps)

lemma construct_from_instances:
  assumes "construct_from env c t w td arg = Inr v" "env_ok env" "sound_coercion env c"
    and "(w, td) \<in> set (types_of env t)" "instances_ok env arg"
  shows "typed True env v t \<and> instances_ok env v"
  using assms unfolding construct_from_def
  by (auto simp del: typed.simps split: if_splits list.splits dest!: construct_instances)

lemma dict_put_instances:
  "dict_put k v d = Inr d' \<Longrightarrow> instances_ok env (VDict d) \<Longrightarrow> instances_ok env k \<Longrightarrow>
   instances_ok env v \<Longrightarrow> instances_ok env (VDict d')"
proof (induction d arbitrary: d')
  case (Cons p d)
  then have "instances_ok env (VDict (dict_set k v d))" by (auto simp: dict_put_def split: if_splits)
  with Cons.prems show ?case by (cases p) (auto simp: dict_put_def split: if_splits)
qed (auto simp: dict_put_def split: if_splits)

lemma decode_items_instances:
  assumes "decode_items dec kt vt d = Inr e" "instances_decoder env dec" "instances_ok env (VDict d)"
  shows "instances_ok env (VDict e)"
proof (rule foldR_inv [where P = "\<lambda>e. instances_ok env (VDict e)"])
  show "foldR (\<lambda>(k, v) e. bindR (dec v vt) (\<lambda>v'. bindR (dec k kt) (\<lambda>k'. dict_put k' v' e))) d []
    = Inr e" using assms(1) by (simp add: decode_items_def)
  show "instances_ok env (VDict [])" by simp
next
  fix p u v
  assume p: "p \<in> set d" "instances_ok env (VDict u)"
    "(case p of (k, v) \<Rightarrow> \<lambda>e. bindR (dec v vt) (\<lambda>v'. bindR (dec k kt) (\<lambda>k'. dict_put k' v' e))) u
     = Inr v"
  obtain k x where "p = (k, x)" by (cases p)
  with p assms(2,3) show "instances_ok env (VDict v)"
    unfolding instances_decoder_def
    by (auto simp del: instances_ok.simps simp add: instances_ok.simps(3) [of env d] bindR_Inr_conv
        elim!: dict_put_instances)
qed

lemma merge_item_instances:
  assumes "merge_item dec t sub u = Inr v" "instances_decoder env dec" "instances_ok env sub"
    and "instances_ok env (VDict u)"
  shows "instances_ok env (VDict v)"
proof -
  obtain d where d: "dec sub t = Inr (VDict d)" "foldR (\<lambda>(k, v). dict_put k v) d u = Inr v"
  proof -
    obtain r where r: "dec sub t = Inr r" "(case r of VDict d \<Rightarrow> foldR (\<lambda>(k, v). dict_put k v) d u
      | _ \<Rightarrow> Inl AttributeError) = Inr v"
      using assms(1) unfolding merge_item_def by (rule bindR_InrE) (rule that)
    with that show ?thesis by (cases r) auto
  qed
  have "instances_ok env (VDict d)" using assms(2,3) d(1) unfolding instances_decoder_def by blast
  with assms(4) show ?thesis
    by (intro foldR_inv [OF d(2), where P = "\<lambda>e. instances_ok env (VDict e)"])
      (auto simp del: instances_ok.simps simp add: instances_ok.simps(3) [of env d]
        elim!: dict_put_instances)
qed

lemma mapR_instances:
  assumes "mapR f xs = Inr ys" "\<And>x y. x \<in> set xs \<Longrightarrow> f x = Inr y \<Longrightarrow> P y"
  shows "\<forall>y \<in> set ys. P y"
  using assms unfolding mapR_Inr_iff list_all2_conv_all_nth
  by (metis in_set_conv_nth)

lemma unpack2_instances:
  "unpack2 v = Inr (a, b) \<Longrightarrow> instances_ok env v \<Longrightarrow> instances_ok env a \<and> instances_ok env b"
  using py_iter_instances [of v "[a, b]" env] by (auto simp: unpack2_def split: option.splits list.splits)

lemma decode_dict_type_instances:
  assumes r: "decode_dict_type enc dec kt vt v = Inr w" and dec: "instances_decoder env dec"
    and v: "instances_ok env v"
  shows "instances_ok env w"
proof -
  from r obtain d where w: "w = VDict d" by (auto simp: decode_dict_type_def bindR_Inr_conv)
  consider (dict) e where "v = VDict e" "decode_items dec kt vt e = Inr d"
    | (merge) xs where "v = VTuple xs \<or> v = VList xs" "foldR (merge_item dec (TDict kt vt)) xs [] = Inr d"
    | (pairs) xs ps where "py_iter v = Some xs" "mapR unpack2 xs = Inr ps"
        "decode_items dec kt vt ps = Inr d"
    using r w by (auto simp: decode_dict_type_def bindR_Inr_conv
        split: pyval.splits if_splits option.splits)
  then have "instances_ok env (VDict d)"
  proof cases
    case dict
    then show ?thesis using decode_items_instances dec v by blast
  next
    case merge
    show ?thesis
    proof (rule foldR_inv [where P = "\<lambda>e. instances_ok env (VDict e)", OF merge(2)])
      show "instances_ok env (VDict [])" by simp
      show "instances_ok env (VDict b)" if "x \<in> set xs" "instances_ok env (VDict a)"
        "merge_item dec (TDict kt vt) x a = Inr b" for x a b
        using merge_item_instances [OF that(3) dec _ that(2)] merge(1) v that(1) by auto
    qed
  next
    case pairs
    have "\<forall>p \<in> set ps. instances_ok env (fst p) \<and> instances_ok env (snd p)"
      by (rule mapR_instances [OF pairs(2)])
        (metis prod.collapse unpack2_instances py_iter_instances [OF pairs(1) v])
    then have "instances_ok env (VDict ps)" by auto
    then show ?thesis using decode_items_instances [OF pairs(3) dec] by simp
  qed
  with w show ?thesis by simp
qed

lemma decode_name_typed:
  assumes "decode_name env c t s = Inr w" "env_ok env" "sound_coercion env c"
  shows "w = VNone \<or> typed True env w t \<and> instances_ok env w"
proof (cases "w = VNone")
  case False
  let ?single = "filter (\<lambda>(w, td). map snd td = [TStr]) (types_of env t)"
  consider (single) "length ?single = 1" "(case hd ?single of (w, td) \<Rightarrow>
      construct_from env c t w td (VStr s)) = Inr w"
    | (named) td where "map_of (types_of env t) s = Some td"
        "construct env c t s td False False [] = Inr w"
    using assms(1) False
    by (auto simp: decode_name_def Let_def split: if_splits option.splits)
  then show ?thesis
  proof cases
    case single
    then obtain p where p: "?single = [p]" by (auto simp: length_Suc_conv)
    then have "p \<in> set ?single" by simp
    then have "p \<in> set (types_of env t)" by simp
    with construct_from_instances [of env c t "fst p" "snd p" "VStr s" w] single(2) p assms(2,3)
    show ?thesis by (simp add: split_def)
  next
    case named
    then have "(s, td) \<in> set (types_of env t)" by (auto dest: map_of_SomeD)
    with construct_instances [OF named(2) assms(2,3)] show ?thesis by simp
  qed
qed simp

lemma decode_fields_instances:
  assumes "decode_fields dec td d = Inr fs" "instances_decoder env dec" "instances_ok env (VDict d)"
  shows "\<forall>f \<in> set fs. instances_ok env (snd f)"
proof (rule mapR_instances [OF assms(1) [unfolded decode_fields_def]])
  fix x y
  assume x: "x \<in> set (List.map_filter (field_entry td) d)"
    and y: "(case x of (f, v, s) \<Rightarrow> bindR (dec v s) (\<lambda>x. Inr (f, x))) = Inr y"
  obtain f v s where e: "x = (f, v, s)" by (cases x)
  have "v \<in> snd ` set d"
    using x e by (force simp: field_entry_def map_filter_def split: option.splits if_splits)
  then have "instances_ok env v" using assms(3) by auto
  with y e assms(2) show "instances_ok env (snd y)"
    unfolding instances_decoder_def by (auto simp: bindR_Inr_conv)
qed

lemma decode_option_typed:
  assumes "decode_option env enc c dec t w td d = Inr v" "env_ok env" "sound_coercion env c"
    and "instances_decoder env dec" "instances_ok env (VDict d)" "(w, td) \<in> set (types_of env t)"
  shows "typed True env v t \<and> instances_ok env v"
proof -
  obtain fs where fs: "decode_fields dec td d = Inr fs"
    "construct env c t w td True (allowExtraFields enc) fs = Inr v"
    using assms(1) unfolding decode_option_def by (rule bindR_InrE) (rule that)
  show ?thesis
    by (rule construct_instances [OF fs(2) assms(2,3,6) decode_fields_instances [OF fs(1) assms(4,5)]])
qed

lemma narrow_subset: "narrow extra possible ks = Inr left \<Longrightarrow> set left \<subseteq> set possible"
proof (induction ks arbitrary: possible)
  case (Cons k ks)
  let ?here = "filter (\<lambda>(w, td). case key_name k of None \<Rightarrow> False
                   | Some f \<Rightarrow> f \<in> fst ` set td) possible"
  have "narrow extra ?here ks = Inr left \<or> narrow extra possible ks = Inr left"
    using Cons.prems by (simp add: Let_def split: if_splits)
  then have "set left \<subseteq> set ?here \<or> set left \<subseteq> set possible" using Cons.IH by blast
  then show ?case by (metis filter_is_subset subset_trans)
qed simp

lemma guess_option_in:
  assumes "guess_option enc tys d = Inr p"
  shows "p \<in> set tys"
proof -
  obtain possible where p: "narrow (allowExtraFields enc) tys (map fst d) = Inr possible"
    "(case (if length possible > 1 then filter (\<lambda>(w, td). length td = length d) possible
      else possible) of [] \<Rightarrow> Inl IndexError | [p] \<Rightarrow> Inr p
        | _ \<Rightarrow> Inl (UserException ''UserWarning'')) = Inr p"
    using assms unfolding guess_option_def Let_def by (rule bindR_InrE) (rule that)
  then have "(if length possible > 1 then filter (\<lambda>(w, td). length td = length d) possible
      else possible) = [p]"
    by (cases "if length possible > 1 then filter (\<lambda>(w, td). length td = length d) possible
      else possible" rule: list.exhaust) (auto split: list.splits)
  then have "p \<in> set possible" by (metis filter_is_subset list.set_intros(1) subsetD)
  with narrow_subset [OF p(1)] show ?thesis by auto
qed

lemma decode_object_typed:
  assumes r: "decode_object env enc c dec t d = Inr w" and "env_ok env" "sound_coercion env c"
    and "instances_decoder env dec" "instances_ok env (VDict d)"
  shows "w = VNone \<or> typed True env w t \<and> instances_ok env w"
proof (cases "w = VNone")
  case False
  have "\<exists>o' td. (o', td) \<in> set (types_of env t) \<and> decode_option env enc c dec t o' td d = Inr w"
  proof (cases "dict_get ''_type'' d")
    case None
    then obtain p where "guess_option enc (types_of env t) d = Inr p"
      "decode_option env enc c dec t (fst p) (snd p) d = Inr w"
      using r by (auto simp: decode_object_def bindR_Inr_conv split_def)
    then show ?thesis using guess_option_in by (metis prod.collapse)
  next
    case (Some tv)
    then obtain s td where "map_of (types_of env t) s = Some td"
      "decode_option env enc c dec t s td d = Inr w"
      using r False by (auto simp: decode_object_def Let_def split: pyval.splits if_splits option.splits)
    then show ?thesis by (auto dest: map_of_SomeD)
  qed
  with decode_option_typed assms show ?thesis by blast
qed simp

lemma decode_alt_typed:
  assumes r: "decode_body env enc c dec v (TAlt n) = Inr w" and "env_ok env" "sound_coercion env c"
    and "instances_decoder env dec" "instances_ok env v"
  shows "w = VNone \<or> typed True env w (TAlt n) \<and> instances_ok env w"
proof (cases v)
  case (VStr s)
  with r have "decode_name env c (TAlt n) s = Inr w" by (simp add: decode_body_def)
  then show ?thesis using decode_name_typed assms(2,3) by blast
next
  case (VDict d)
  with r have "decode_object env enc c dec (TAlt n) d = Inr w" by (simp add: decode_body_def)
  then show ?thesis using decode_object_typed assms(2-) VDict by blast
qed (use r in \<open>auto simp: decode_body_def\<close>)

lemma flatten_instances:
  "instances_ok env v \<Longrightarrow> x \<in> set (flatten_val v) \<Longrightarrow> instances_ok env x"
  by (induction v rule: flatten_val.induct) auto

lemma list_items_instances:
  assumes "list_items s v = Some xs" "instances_ok env v" "x \<in> set xs"
  shows "instances_ok env x"
proof -
  let ?v = "case s of TList _ \<Rightarrow> v | _ \<Rightarrow> flattenListsAndTuples v"
  have "instances_ok env ?v"
    using assms(2) flatten_instances [OF assms(2)]
    by (auto simp: flattenListsAndTuples_def split: atype.splits pyval.splits)
  moreover have "(case ?v of VDict d \<Rightarrow> Some (map (\<lambda>(k, x). VTuple [k, x]) d)
      | VStr _ \<Rightarrow> Some [?v] | VInt _ \<Rightarrow> Some [?v] | VBool _ \<Rightarrow> Some [?v] | _ \<Rightarrow> py_iter ?v) = Some xs"
    using assms(1) unfolding list_items_def Let_def .
  ultimately show ?thesis
    using assms(3) py_iter_instances [of ?v xs env x] by (cases ?v) fastforce+
qed

lemma decode_body_instances:
  assumes r: "decode_body env enc c dec v t = Inr w" and "env_ok env" "sound_coercion env c"
    and dec: "instances_decoder env dec" and v: "instances_ok env v"
  shows "instances_ok env w"
proof (cases t)
  case (TTuple ts)
  then obtain xs ys where x: "py_iter v = Some xs"
    "mapR (\<lambda>p. dec (fst p) (snd p)) (zip xs ts) = Inr ys" "w = VTuple ys"
    using r by (auto simp: decode_body_def bindR_Inr_conv split: option.splits)
  have "\<forall>y \<in> set ys. instances_ok env y"
    using py_iter_instances [OF x(1) v] dec unfolding instances_decoder_def
    by (intro mapR_instances [OF x(2)]) (metis prod.collapse set_zip_leftD)
  with x(3) show ?thesis by simp
next
  case (TList s)
  then obtain xs ys where x: "list_items s v = Some xs" "mapR (\<lambda>x. dec x s) xs = Inr ys"
    "w = VTuple ys"
    using r by (auto simp: decode_body_def bindR_Inr_conv split: option.splits)
  have "\<forall>y \<in> set ys. instances_ok env y"
    using list_items_instances [OF x(1) v] dec unfolding instances_decoder_def
    by (intro mapR_instances [OF x(2)]) auto
  with x(3) show ?thesis by simp
next
  case (TDict kt vt)
  then show ?thesis using r decode_dict_type_instances [OF _ dec v] by (simp add: decode_body_def)
next
  case (TAlt n)
  then show ?thesis using decode_alt_typed assms by (metis instances_ok.simps(5))
next
  case (TNullable s)
  then obtain x where "dec v s = Inr x"
    "construct env c t ''Value'' [(''val'', s)] False False [(''val'', x)] = Inr w"
    using r by (auto simp: decode_body_def bindR_Inr_conv)
  moreover have "instances_ok env x"
    using dec v calculation(1) unfolding instances_decoder_def by blast
  moreover have "(''Value'', [(''val'', s)]) \<in> set (types_of env t)"
    using TNullable by (simp add: types_of_def)
  ultimately show ?thesis using construct_instances assms(2,3) by fastforce
qed (use r v in \<open>auto simp: decode_body_def decode_primitive_def split: pyval.splits if_splits\<close>)

lemma from_json_instances:
  assumes "env_ok env"
  shows "instances_decoder env (from_json env enc n)"
proof (induction n)
  case (Suc n)
  show ?case unfolding instances_decoder_def
  proof (intro allI impI)
    fix v0 t w
    assume v0: "instances_ok env v0" and r: "from_json env enc (Suc n) v0 t = Inr w"
    let ?v = "case v0 of VUni s \<Rightarrow> VStr (ascii_ignore s) | _ \<Rightarrow> v0"
    have v: "instances_ok env ?v" using v0 by (cases v0) auto
    show "instances_ok env w"
    proof (cases "?v = VNone")
      case True
      then show ?thesis using r by (auto simp: decode_step_def split: atype.splits)
    next
      case False
      then have "decode_body env enc (coerce_instance env n) (from_json env enc n) ?v t = Inr w"
        using r by (simp add: decode_step_def Let_def)
      then show ?thesis
        using decode_body_instances assms coerce_instance_sound [OF assms] Suc v by blast
    qed
  qed
qed (simp add: instances_decoder_def)


section \<open>Reading back what was written\<close>

text \<open>The JSON of a value of the type may be an array.\<close>

fun listy :: "atype \<Rightarrow> bool" where
  "listy (TTuple ts) = True"
| "listy (TList s) = True"
| "listy (TNullable s) = listy s"
| "listy t = False"

text \<open>
  The types whose values survive the encoding. A list whose elements are encoded as arrays would
  be flattened, unless its elements are lists; an absent value is \<open>None\<close> at every depth, so a
  nullable of a nullable is ambiguous; the keys of an object are strings.
\<close>

fun json_type :: "atype \<Rightarrow> bool" where
  "json_type (TTuple ts) = (\<forall>t \<in> set ts. json_type t)"
| "json_type (TList s) = (json_type s \<and> (listy s \<longrightarrow> (case s of TList _ \<Rightarrow> True | _ \<Rightarrow> False)))"
| "json_type (TDict kt vt) = (kt = TStr \<and> json_type vt)"
| "json_type (TNullable s) = (json_type s \<and> \<not> is_nullable s)"
| "json_type t = True"

definition json_env :: "alt_env \<Rightarrow> bool" where
  "json_env env \<longleftrightarrow> (\<forall>n d. env n = Some d \<longrightarrow> (\<forall>(w, td) \<in> set (alt_types d).
     w \<notin> set class_attributes \<and> (\<forall>(f, s) \<in> set td. f \<noteq> ''_type'' \<and> json_type s)))"

subsection \<open>Options with unique field names\<close>

definition seen_entry :: "string set \<Rightarrow> option_types \<Rightarrow> string option option" where
  "seen_entry N tys = (case filter (\<lambda>p. fst ` set (snd p) = N) tys of
     [] \<Rightarrow> None | [p] \<Rightarrow> Some (Some (fst p)) | _ \<Rightarrow> Some None)"

lemma seen_entry_snoc:
  "seen_entry N (tys @ [p]) = (if fst ` set (snd p) = N
     then (if seen_entry N tys = None then Some (Some (fst p)) else Some None)
     else seen_entry N tys)"
  by (auto simp: seen_entry_def split: list.splits)

definition seen_inv ::
    "option_types \<Rightarrow> (string set \<times> string option) list \<times> string list \<Rightarrow> bool" where
  "seen_inv past s \<longleftrightarrow> (\<forall>N. map_of (fst s) N = seen_entry N past) \<and>
     (\<forall>w \<in> set (snd s). \<exists>p \<in> set past. fst p = w \<and>
        seen_entry (fst ` set (snd p)) past = Some (Some w))"

lemma seen_inv_step:
  assumes "seen_inv past s"
  shows "seen_inv (past @ [p]) (freeze_step p s)"
proof -
  obtain name fs seen uniq where e: "p = (name, fs)" "s = (seen, uniq)" by (cases p; cases s)
  have seen: "map_of seen N = seen_entry N past" for N
    using assms by (simp add: seen_inv_def e)
  have uniq: "\<exists>p \<in> set past. fst p = w \<and> seen_entry (fst ` set (snd p)) past = Some (Some w)"
    if "w \<in> set uniq" for w using that assms by (simp add: seen_inv_def e)
  have step: "map_of (fst (freeze_step p s)) N = seen_entry N (past @ [p])" for N
    by (auto simp: e freeze_step_def Let_def seen_entry_snoc seen split: option.splits)
  have "\<exists>q \<in> set (past @ [p]). fst q = w \<and>
      seen_entry (fst ` set (snd q)) (past @ [p]) = Some (Some w)"
    if w: "w \<in> set (snd (freeze_step p s))" for w
  proof (cases "w \<in> set uniq \<and> seen_entry (fst ` set fs) past \<noteq> Some (Some w)")
    case True
    then obtain q where q: "q \<in> set past" "fst q = w"
      "seen_entry (fst ` set (snd q)) past = Some (Some w)" using uniq by blast
    then have "fst ` set (snd q) \<noteq> fst ` set fs" using True by auto
    with q show ?thesis by (intro bexI [of _ q]) (auto simp: seen_entry_snoc e)
  next
    case False
    then have "w = name \<and> seen_entry (fst ` set fs) past = None"
      using w by (auto simp: e freeze_step_def Let_def seen split: option.splits)
    then show ?thesis by (intro bexI [of _ p]) (auto simp: seen_entry_snoc e)
  qed
  with step show ?thesis by (simp add: seen_inv_def)
qed

lemma seen_inv_fold: "seen_inv past s \<Longrightarrow> seen_inv (past @ tys) (fold freeze_step tys s)"
proof (induction tys arbitrary: past s)
  case (Cons p tys)
  from Cons.IH [OF seen_inv_step [OF Cons.prems, of p]] show ?case by simp
qed simp

lemma unique_fields_unique:
  assumes "w \<in> set (types_with_unique_fields tys)" "(w, td) \<in> set tys" "distinct (map fst tys)"
    and "(w', td') \<in> set tys" "fst ` set td' = fst ` set td"
  shows "w' = w"
proof -
  have "seen_inv [] ([], [])" by (simp add: seen_inv_def seen_entry_def)
  from seen_inv_fold [OF this, of tys] obtain p where
    p: "p \<in> set tys" "fst p = w" "seen_entry (fst ` set (snd p)) tys = Some (Some w)"
    using assms(1) by (auto simp: types_with_unique_fields_def seen_inv_def)
  have "snd p = td" using p assms(2,3) by (metis eq_key_imp_eq_value prod.collapse)
  with p(3) obtain q where q: "filter (\<lambda>p. fst ` set (snd p) = fst ` set td) tys = [q]" "fst q = w"
    by (auto simp: seen_entry_def split: list.splits)
  have "(w', td') \<in> set (filter (\<lambda>p. fst ` set (snd p) = fst ` set td) tys)"
    using assms(4,5) by simp
  then have "(w', td') = q" using q(1) by simp
  with q(2) show ?thesis by auto
qed

subsection \<open>Finding the option again\<close>

definition has_keys :: "pyval list \<Rightarrow> (string \<times> atype) list \<Rightarrow> bool" where
  "has_keys ks td \<longleftrightarrow> (\<forall>k \<in> set ks. \<exists>f. key_name k = Some f \<and> f \<in> fst ` set td)"

lemma has_keys_Cons:
  "has_keys (k # ks) td \<longleftrightarrow>
     (case key_name k of None \<Rightarrow> False | Some f \<Rightarrow> f \<in> fst ` set td) \<and> has_keys ks td"
  by (simp add: has_keys_def split: option.splits)

lemma narrow_filter:
  assumes "(w, td) \<in> set possible" "has_keys ks td"
  shows "narrow extra possible ks = Inr (filter (\<lambda>p. has_keys ks (snd p)) possible)"
  using assms
proof (induction ks arbitrary: possible)
  case Nil
  then show ?case by (simp add: has_keys_def)
next
  case (Cons k ks)
  let ?P = "\<lambda>(w :: string, td :: (string \<times> atype) list). case key_name k of None \<Rightarrow> False
                   | Some f \<Rightarrow> f \<in> fst ` set td"
  have mem: "(w, td) \<in> set (filter ?P possible)"
    using Cons.prems unfolding has_keys_Cons set_filter by simp
  have IH: "narrow extra (filter ?P possible) ks =
      Inr (filter (\<lambda>p. has_keys ks (snd p)) (filter ?P possible))"
    by (rule Cons.IH [OF mem]) (use Cons.prems in \<open>simp add: has_keys_Cons\<close>)
  have f: "filter (\<lambda>p. has_keys ks (snd p)) (filter ?P possible) =
      filter (\<lambda>p. has_keys (k # ks) (snd p)) possible"
    unfolding filter_filter by (rule filter_cong) (simp_all only: has_keys_Cons split_def conj_commute)
  have ne: "filter ?P possible \<noteq> []" using mem by (metis empty_iff list.set(1))
  show ?case unfolding narrow.simps Let_def if_P [OF ne] IH f ..
qed

lemma filter_singleton:
  assumes "distinct xs" "x \<in> set xs" "Q x" "\<forall>y \<in> set xs. Q y \<longrightarrow> y = x"
  shows "filter Q xs = [x]"
proof (rule distinct_singleton)
  show "set (filter Q xs) = {x}" unfolding set_filter using assms(2-4) by blast
qed (rule distinct_filter [OF assms(1)])

lemma guess_option_finds:
  assumes tys: "distinct (map fst tys)" "(w, td) \<in> set tys" "\<forall>(w', td') \<in> set tys. distinct (map fst td')"
    and u: "w \<in> set (types_with_unique_fields tys)"
    and keys: "map (key_name \<circ> fst) d = map (Some \<circ> fst) td"
  shows "guess_option enc tys d = Inr (w, td)"
proof -
  have names: "has_keys (map fst d) td"
    unfolding has_keys_def
  proof
    fix k assume "k \<in> set (map fst d)"
    then obtain q where q: "q \<in> set d" "k = fst q" unfolding set_map by (elim imageE)
    have "(key_name \<circ> fst) q \<in> set (map (key_name \<circ> fst) d)"
      unfolding set_map by (rule imageI [OF q(1)])
    then have "key_name k \<in> set (map (Some \<circ> fst) td)" using q(2) unfolding keys by simp
    then show "\<exists>f. key_name k = Some f \<and> f \<in> fst ` set td" by auto
  qed
  have len: "length d = length td" using keys by (metis length_map)
  let ?possible = "filter (\<lambda>p. has_keys (map fst d) (snd p)) tys"
  have n: "narrow (allowExtraFields enc) tys (map fst d) = Inr ?possible"
    by (rule narrow_filter [OF tys(2) names])
  have mem: "(w, td) \<in> set ?possible" using tys(2) names by simp
  have only: "p = (w, td)" if p: "p \<in> set ?possible" "length (snd p) = length d" for p
  proof -
    obtain w' td' where e: "p = (w', td')" by (cases p)
    have sub: "fst ` set td \<subseteq> fst ` set td'"
    proof
      fix f assume "f \<in> fst ` set td"
      then have "Some f \<in> set (map (Some \<circ> fst) td)" by auto
      then obtain q where "q \<in> set d" "key_name (fst q) = Some f"
        unfolding keys [symmetric] by auto
      moreover from this have "fst q \<in> set (map fst d)" by (metis image_eqI set_map)
      moreover have "has_keys (map fst d) td'" using p(1) e by simp
      ultimately show "f \<in> fst ` set td'" unfolding has_keys_def by (metis option.inject)
    qed
    have d': "distinct (map fst td')" "distinct (map fst td)" using p(1) e tys by auto
    have "card (fst ` set td') = card (fst ` set td)"
      using d' p(2) e len by (metis distinct_card length_map list.set_map snd_conv)
    then have "fst ` set td' = fst ` set td" using sub by (metis List.finite_set card_subset_eq finite_imageI)
    then have "w' = w" using unique_fields_unique [OF u tys(2,1)] p(1) e by auto
    with tys(1,2) p(1) e show ?thesis by (auto dest: eq_key_imp_eq_value)
  qed
  have dist: "distinct ?possible" using tys(1) by (simp add: distinct_map)
  have "(if length ?possible > 1 then filter (\<lambda>(w, td). length td = length d) ?possible
         else ?possible) = [(w, td)]"
  proof (cases "length ?possible > 1")
    case True
    have "filter (\<lambda>(w, td). length td = length d) ?possible = [(w, td)]"
      by (rule filter_singleton [OF dist mem]) (use only len in auto)
    with True show ?thesis by simp
  next
    case False
    with mem have "?possible = [(w, td)]"
      by (cases ?possible) auto
    with False show ?thesis by simp
  qed
  with n show ?thesis by (simp add: guess_option_def Let_def)
qed

subsection \<open>Each kind of value\<close>

definition json_of :: "alt_env \<Rightarrow> pyval \<Rightarrow> pyval" where
  "json_of env v = projr (to_json env v)"

definition read_of :: "alt_env \<Rightarrow> encoder \<Rightarrow> nat \<Rightarrow> pyval \<Rightarrow> atype \<Rightarrow> pyval" where
  "read_of env enc n v t = projr (from_json env enc n (json_of env v) t)"

definition json_shape :: "pyval \<Rightarrow> atype \<Rightarrow> bool" where
  "json_shape j t \<longleftrightarrow> (case j of VUni s \<Rightarrow> False | VTuple xs \<Rightarrow> False | VList xs \<Rightarrow> listy t
     | VNone \<Rightarrow> is_nullable t | _ \<Rightarrow> True)"

text \<open>The value is encoded, and reading the encoding gives a value the constructor of whatever
  contains it coerces back to the original; an instance is read as itself.\<close>

definition reads_back :: "alt_env \<Rightarrow> encoder \<Rightarrow> pyval \<Rightarrow> atype \<Rightarrow> bool" where
  "reads_back env enc v t \<longleftrightarrow>
     to_json env v = Inr (json_of env v) \<and> json_shape (json_of env v) t \<and>
     (\<forall>n > size v. from_json env enc n (json_of env v) t = Inr (read_of env enc n v t) \<and>
        (\<forall>m > size v. coerce_instance env m (read_of env enc n v t) t = Inr (Some v)) \<and>
        ((\<exists>a. t = TAlt a) \<longrightarrow> read_of env enc n v t = v))"

lemma reads_backI:
  assumes "to_json env v = Inr j" "json_shape j t"
    and "\<And>n. size v \<le> n \<Longrightarrow> \<exists>w. decode_step env enc (coerce_instance env n) (from_json env enc n) j t = Inr w \<and>
      (\<forall>m \<ge> size v. coerce_step env (coerce_instance env m) w t = Inr (Some v)) \<and>
      ((\<exists>a. t = TAlt a) \<longrightarrow> w = v)"
  shows "reads_back env enc v t"
  unfolding reads_back_def
proof (intro conjI allI impI)
  have j: "json_of env v = j" using assms(1) by (simp add: json_of_def)
  show "to_json env v = Inr (json_of env v)" "json_shape (json_of env v) t" using assms(1,2) j by simp_all
  fix n :: nat assume "size v < n"
  then obtain n' where n: "n = Suc n'" "size v \<le> n'" by (cases n) auto
  from assms(3) [OF n(2)] obtain w where w: "from_json env enc n j t = Inr w"
    "\<forall>m \<ge> size v. coerce_step env (coerce_instance env m) w t = Inr (Some v)"
    "(\<exists>a. t = TAlt a) \<longrightarrow> w = v" by (auto simp: n(1))
  then have r: "read_of env enc n v t = w" by (simp add: read_of_def j)
  show "from_json env enc n (json_of env v) t = Inr (read_of env enc n v t)" using w(1) r j by simp
  show "coerce_instance env m (read_of env enc n v t) t = Inr (Some v)" if "size v < m" for m
    using w(2) r that by (cases m) auto
  show "read_of env enc n v t = v" if "\<exists>a. t = TAlt a" using w(3) r that by simp
qed

lemma reads_backD:
  assumes "reads_back env enc v t"
  shows "to_json env v = Inr (json_of env v)" "json_shape (json_of env v) t"
    and "size v < n \<Longrightarrow> from_json env enc n (json_of env v) t = Inr (read_of env enc n v t)"
    and "size v < n \<Longrightarrow> size v < m \<Longrightarrow>
      coerce_instance env m (read_of env enc n v t) t = Inr (Some v)"
  using assms by (auto simp: reads_back_def)

lemma mapR_ok: "(\<And>x. x \<in> set xs \<Longrightarrow> f x = Inr (g x)) \<Longrightarrow> mapR f xs = Inr (map g xs)"
  by (induction xs) auto

lemma size_elem: "x \<in> set xs \<Longrightarrow> size x < Suc (size_list size xs)"
  by (meson le_imp_less_Suc order_refl size_list_estimation')

lemma reads_back_tuple:
  assumes "length xs = length ts" "\<forall>(x, s) \<in> set (zip xs ts). reads_back env enc x s"
  shows "reads_back env enc (VTuple xs) (TTuple ts)"
proof (rule reads_backI)
  have el: "reads_back env enc (xs ! i) (ts ! i)" "xs ! i \<in> set xs" if "i < length xs" for i
    using assms that by (auto simp: set_zip)
  have j: "to_json env x = Inr (json_of env x)" if "x \<in> set xs" for x
    using el(1) that reads_backD(1) by (metis in_set_conv_nth)
  show "to_json env (VTuple xs) = Inr (VList (map (json_of env) xs))"
    using mapR_ok [of xs, OF j] by simp
  show "json_shape (VList (map (json_of env) xs)) (TTuple ts)" by (simp add: json_shape_def)
  fix n assume n: "size (VTuple xs) \<le> n"
  have sz: "size (xs ! i) < n" if "i < length xs" for i
    using size_elem [OF el(2) [OF that]] n by simp
  let ?ws = "map (\<lambda>p. read_of env enc n (fst p) (snd p)) (zip xs ts)"
  have z: "zip (map (json_of env) xs) ts = map (\<lambda>p. (json_of env (fst p), snd p)) (zip xs ts)"
    by (simp add: zip_map1 split_def)
  have "mapR (\<lambda>p. from_json env enc n (fst p) (snd p)) (zip (map (json_of env) xs) ts) = Inr ?ws"
    unfolding mapR_Inr_iff list_all2_conv_all_nth
    using assms(1) reads_backD(3) [OF el(1) sz] by simp
  then have d: "decode_step env enc (coerce_instance env n) (from_json env enc n)
      (VList (map (json_of env) xs)) (TTuple ts) = Inr (VTuple ?ws)"
    using assms(1) by (simp add: decode_step_def decode_body_def py_iter_def Let_def assertR_def)
  have "coerce_step env (coerce_instance env m) (VTuple ?ws) (TTuple ts) = Inr (Some (VTuple xs))"
    if m: "size (VTuple xs) \<le> m" for m
  proof -
    have sm: "size (xs ! i) < m" if "i < length xs" for i
      using size_elem [OF el(2) [OF that]] m by simp
    have "coerce_list (\<lambda>p. coerce_instance env m (fst p) (snd p)) (zip ?ws ts) = Inr (Some xs)"
      unfolding coerce_list_Some list_all2_conv_all_nth
      using assms(1) reads_backD(4) [OF el(1) sz sm] by simp
    then show ?thesis
      using assms(1) by (simp add: coerce_step_def to_str_def coerce_body_def)
  qed
  with d show "\<exists>w. decode_step env enc (coerce_instance env n) (from_json env enc n)
      (VList (map (json_of env) xs)) (TTuple ts) = Inr w \<and>
      (\<forall>m \<ge> size (VTuple xs). coerce_step env (coerce_instance env m) w (TTuple ts) = Inr (Some (VTuple xs))) \<and>
      ((\<exists>a. TTuple ts = TAlt a) \<longrightarrow> w = VTuple xs)" by blast
qed

lemma flatten_flat:
  assumes "\<forall>j \<in> set js. json_shape j s" "\<not> listy s"
  shows "flattenListsAndTuples (VList js) = VList js"
proof -
  have "flatten_val j = [j]" if "json_shape j s" for j
    using that assms(2) by (cases j) (auto simp: json_shape_def)
  then have "concat (map flatten_val js) = js" using assms(1) by (induction js) auto
  then show ?thesis by (simp add: flattenListsAndTuples_def)
qed

lemma reads_back_list:
  assumes "\<forall>x \<in> set xs. reads_back env enc x s" "json_type (TList s)"
  shows "reads_back env enc (VTuple xs) (TList s)"
proof (rule reads_backI)
  have el: "\<And>x. x \<in> set xs \<Longrightarrow> reads_back env enc x s" using assms(1) by blast
  show "to_json env (VTuple xs) = Inr (VList (map (json_of env) xs))"
    using mapR_ok [of xs, OF reads_backD(1) [OF el]] by simp
  show "json_shape (VList (map (json_of env) xs)) (TList s)" by (simp add: json_shape_def)
  fix n assume n: "size (VTuple xs) \<le> n"
  have sz: "size x < n" if "x \<in> set xs" for x using size_elem [OF that] n by simp
  have items: "list_items s (VList (map (json_of env) xs)) = Some (map (json_of env) xs)"
  proof (cases "\<exists>s'. s = TList s'")
    case True
    then show ?thesis by (auto simp: list_items_def py_iter_def)
  next
    case False
    then have "\<not> listy s" using assms(2) by (cases s) auto
    then have f: "flattenListsAndTuples (VList (map (json_of env) xs)) = VList (map (json_of env) xs)"
      using reads_backD(2) [OF el] by (intro flatten_flat [where s = s]) auto
    have "(case s of TList x \<Rightarrow> VList (map (json_of env) xs)
        | _ \<Rightarrow> flattenListsAndTuples (VList (map (json_of env) xs))) = VList (map (json_of env) xs)"
      using f by (cases s) auto
    then show ?thesis by (simp add: list_items_def py_iter_def)
  qed
  let ?ws = "map (\<lambda>x. read_of env enc n x s) xs"
  have "mapR (\<lambda>x. from_json env enc n x s) (map (json_of env) xs) = Inr ?ws"
    unfolding mapR_Inr_iff list_all2_conv_all_nth using reads_backD(3) [OF el sz] by simp
  then have d: "decode_step env enc (coerce_instance env n) (from_json env enc n)
      (VList (map (json_of env) xs)) (TList s) = Inr (VTuple ?ws)"
    using items by (simp add: decode_step_def decode_body_def Let_def)
  have "coerce_step env (coerce_instance env m) (VTuple ?ws) (TList s) = Inr (Some (VTuple xs))"
    if m: "size (VTuple xs) \<le> m" for m
  proof -
    have sm: "size x < m" if "x \<in> set xs" for x using size_elem [OF that] m by simp
    have "coerce_list (\<lambda>x. coerce_instance env m x s) ?ws = Inr (Some xs)"
      unfolding coerce_list_Some list_all2_conv_all_nth
      using reads_backD(4) [OF el sz sm] by simp
    then show ?thesis by (simp add: coerce_step_def to_str_def coerce_body_def py_iter_def)
  qed
  with d show "\<exists>w. decode_step env enc (coerce_instance env n) (from_json env enc n)
      (VList (map (json_of env) xs)) (TList s) = Inr w \<and>
      (\<forall>m \<ge> size (VTuple xs). coerce_step env (coerce_instance env m) w (TList s) = Inr (Some (VTuple xs))) \<and>
      ((\<exists>a. TList s = TAlt a) \<longrightarrow> w = VTuple xs)" by blast
qed

lemma dict_set_new: "\<forall>p \<in> set d. \<not> py_eq (fst p) k \<Longrightarrow> dict_set k v d = d @ [(k, v)]"
  by (induction d) auto

lemma fold_dict_put:
  assumes "\<And>p e. p \<in> set d \<Longrightarrow> f p e = dict_put (fst p) (g p) e" "\<And>p. p \<in> set d \<Longrightarrow> hashable (fst p)"
    and "keys_differ (e @ d)"
  shows "foldR f d e = Inr (e @ map (\<lambda>p. (fst p, g p)) d)"
  using assms
proof (induction d arbitrary: e)
  case (Cons p d)
  have "\<forall>q \<in> set e. \<not> py_eq (fst q) (fst p)"
    using Cons.prems(3) by (auto simp: keys_differ_def sorted_wrt_append)
  then have "f p e = Inr (e @ [(fst p, g p)])"
    using Cons.prems(1,2) by (simp add: dict_put_def dict_set_new)
  moreover have "keys_differ ((e @ [(fst p, g p)]) @ d)"
    using Cons.prems(3) by (auto simp: keys_differ_def sorted_wrt_append)
  ultimately show ?case using Cons.IH [of "e @ [(fst p, g p)]"] Cons.prems(1,2) by simp
qed simp

lemma size_item:
  assumes "p \<in> set d" shows "size (snd p) < size (VDict d)" "size (fst p) < size (VDict d)"
proof -
  have "size_prod size size p \<le> size_list (size_prod size size) d"
    using assms by (intro size_list_estimation') auto
  then show "size (snd p) < size (VDict d)" "size (fst p) < size (VDict d)" by (cases p; simp)+
qed

lemma reads_back_dict:
  assumes "\<forall>p \<in> set d. reads_back env enc (snd p) vt" "\<forall>p \<in> set d. \<exists>s. fst p = VStr s"
    and "keys_differ d"
  shows "reads_back env enc (VDict d) (TDict TStr vt)"
proof (rule reads_backI)
  have el: "\<And>p. p \<in> set d \<Longrightarrow> reads_back env enc (snd p) vt" using assms(1) by blast
  have h: "\<And>p. p \<in> set d \<Longrightarrow> hashable (fst p)" using assms(2) by fastforce
  have k: "keys_differ ([] @ d)" using assms(3) by simp
  let ?js = "map (\<lambda>p. (fst p, json_of env (snd p))) d"
  have "foldR (\<lambda>(k, v) e. bindR (to_json env v) (\<lambda>v'. bindR (to_json env k) (\<lambda>k'. dict_put k' v' e))) d []
      = Inr ([] @ ?js)"
    by (rule fold_dict_put [OF _ h k]) (use reads_backD(1) [OF el] assms(2) in \<open>fastforce simp: split_def\<close>)+
  then show "to_json env (VDict d) = Inr (VDict ?js)" by simp
  show "json_shape (VDict ?js) (TDict TStr vt)" by (simp add: json_shape_def)
  fix n assume n: "size (VDict d) \<le> n"
  have sz: "size (snd p) < n" if "p \<in> set d" for p using size_item(1) [OF that] n by simp
  have n1: "\<exists>n'. n = Suc n'" using n by (cases n) auto
  let ?ws = "map (\<lambda>p. (fst p, read_of env enc n (snd p) vt)) d"
  have "foldR (\<lambda>(k, v) e. bindR (from_json env enc n v vt) (\<lambda>v'.
      bindR (from_json env enc n k TStr) (\<lambda>k'. dict_put k' v' e))) ?js []
    = Inr ([] @ map (\<lambda>p. (fst p, projr (from_json env enc n (snd p) vt))) ?js)"
  proof (rule fold_dict_put)
    show "keys_differ ([] @ ?js)" using assms(3) by (simp add: keys_differ_def sorted_wrt_map)
    fix p e assume "p \<in> set ?js"
    then obtain q where q: "q \<in> set d" "p = (fst q, json_of env (snd q))" by auto
    obtain s where s: "fst q = VStr s" using assms(2) q(1) by blast
    show "hashable (fst p)" using q s by simp
    have "from_json env enc n (VStr s) TStr = Inr (VStr s)"
      using n1 by (auto simp: decode_step_def decode_body_def decode_primitive_def)
    then show "(case p of (k, v) \<Rightarrow> \<lambda>e. bindR (from_json env enc n v vt) (\<lambda>v'.
      bindR (from_json env enc n k TStr) (\<lambda>k'. dict_put k' v' e))) e
      = dict_put (fst p) (projr (from_json env enc n (snd p) vt)) e"
      using reads_backD(3) [OF el sz] q s by simp
  qed
  also have "[] @ map (\<lambda>p. (fst p, projr (from_json env enc n (snd p) vt))) ?js = ?ws"
    using reads_backD(3) [OF el sz] by (simp add: comp_def)
  finally have d: "decode_step env enc (coerce_instance env n) (from_json env enc n)
      (VDict ?js) (TDict TStr vt) = Inr (VDict ?ws)"
    by (simp add: decode_step_def decode_body_def Let_def decode_dict_type_def decode_items_def)
  have "coerce_step env (coerce_instance env m) (VDict ?ws) (TDict TStr vt) = Inr (Some (VDict d))"
    if m: "size (VDict d) \<le> m" for m
  proof -
    have sm: "size (snd p) < m" if "p \<in> set d" for p using size_item(1) [OF that] m by simp
    have m1: "\<exists>m'. m = Suc m'" using m by (cases m) auto
    let ?c = "\<lambda>p. opt_none (projr (coerce_instance env m (snd p) vt))"
    have "foldR (coerce_item (coerce_instance env m) TStr vt) ?ws [] = Inr ([] @ map (\<lambda>p. (fst p, ?c p)) ?ws)"
    proof (rule fold_dict_put)
      show "keys_differ ([] @ ?ws)" using assms(3) by (simp add: keys_differ_def sorted_wrt_map)
      fix p e assume "p \<in> set ?ws"
      then obtain q where q: "q \<in> set d" "p = (fst q, read_of env enc n (snd q) vt)" by auto
      obtain s where s: "fst q = VStr s" using assms(2) q(1) by blast
      show "hashable (fst p)" using q s by simp
      have "coerce_instance env m (VStr s) TStr = Inr (Some (VStr s))"
        using m1 by (auto simp: coerce_step_def to_str_def coerce_body_def)
      then show "coerce_item (coerce_instance env m) TStr vt p e = dict_put (fst p) (?c p) e"
        using reads_backD(4) [OF el sz sm] q s by (simp add: coerce_item_def opt_none_def)
    qed
    also have "[] @ map (\<lambda>p. (fst p, ?c p)) ?ws = d"
      using reads_backD(4) [OF el sz sm] by (simp add: comp_def opt_none_def map_idI)
    finally show ?thesis by (simp add: coerce_step_def to_str_def coerce_body_def)
  qed
  with d show "\<exists>w. decode_step env enc (coerce_instance env n) (from_json env enc n)
      (VDict ?js) (TDict TStr vt) = Inr w \<and>
      (\<forall>m \<ge> size (VDict d). coerce_step env (coerce_instance env m) w (TDict TStr vt) = Inr (Some (VDict d))) \<and>
      ((\<exists>a. TDict TStr vt = TAlt a) \<longrightarrow> w = VDict d)" by blast
qed

text \<open>The constructor puts back fields whose coercion is the original.\<close>

lemma construct_reads:
  assumes "distinct (map fst td)" "map fst subs = map fst td" "map fst fs = map fst td"
    and "\<And>i. i < length td \<Longrightarrow> c (snd (subs ! i)) (snd (td ! i)) = Inr (Some (snd (fs ! i)))"
  shows "construct env c t w td fill extra subs = Inr (VInst t w fs)"
proof -
  have len: "length subs = length td" "length fs = length td"
    using assms(2,3) by (metis length_map)+
  have keys: "fst f \<in> fst ` set td" if "f \<in> set subs" for f
    using that assms(2) by (metis image_eqI list.set_map)
  then have used: "filter (\<lambda>f. fst f \<in> fst ` set td) subs = subs" by (simp add: filter_True)
  have "init_field env c fill subs (td ! i) = Inr (fs ! i)" if i: "i < length td" for i
  proof -
    have n: "fst (subs ! i) = fst (td ! i)" "fst (fs ! i) = fst (td ! i)"
      using assms(2,3) i len by (metis nth_map)+
    have "map_of subs (fst (td ! i)) = Some (snd (subs ! i))"
      using assms(1,2) n(1) i len
      by (intro map_of_is_SomeI) (auto simp: in_set_conv_nth prod_eq_iff intro!: exI [of _ i])
    with assms(4) [OF i] n(2) show ?thesis
      by (simp add: init_field_def split_def prod_eq_iff)
  qed
  then have "mapR (init_field env c fill subs) td = Inr fs"
    unfolding mapR_Inr_iff list_all2_conv_all_nth using len by simp
  with used keys show ?thesis by (simp add: construct_def Let_def assertR_def)
qed

lemma coerce_same_instance:
  "t = TAlt a \<or> t = TNullable s \<Longrightarrow>
   coerce_step env c (VInst t w fs) t = Inr (Some (VInst t w fs))"
  by (auto simp: coerce_step_def to_str_def coerce_body_def coerce_alt_def)

lemma size_field: "f \<in> set fs \<Longrightarrow> size (snd f) < size (VInst t w fs)"
  using size_list_estimation' [of f fs "size (snd f)" "\<lambda>x. Suc (size (snd x))"]
  by (auto simp: size_prod_simp split_def)

lemma decode_step_body:
  "j \<noteq> VNone \<Longrightarrow> \<forall>s. j \<noteq> VUni s \<Longrightarrow> decode_step env enc c dec j t = decode_body env enc c dec j t"
  by (cases j) (simp_all add: decode_step_def)

lemma json_shape_not_none: "json_shape j s \<Longrightarrow> \<not> is_nullable s \<Longrightarrow> j \<noteq> VNone"
  by (auto simp: json_shape_def)

lemma reads_back_nullable:
  assumes "reads_back env enc v s" "\<not> is_nullable s"
  shows "reads_back env enc (VInst (TNullable s) ''Value'' [(''val'', v)]) (TNullable s)"
    (is "reads_back env enc ?v ?t")
proof (rule reads_backI)
  let ?j = "json_of env v"
  show "to_json env ?v = Inr ?j"
    using reads_backD(1) [OF assms(1)] by (simp add: instance_json_def is_nullable_def assertR_def)
  show "json_shape ?j ?t"
    using reads_backD(2) [OF assms(1)] by (auto simp: json_shape_def is_nullable_def split: pyval.splits)
  fix n assume n: "size ?v \<le> n"
  have sz: "size v < n" using size_field [of "(''val'', v)" "[(''val'', v)]" ?t "''Value''"] n by simp
  let ?x = "read_of env enc n v s"
  have "construct env (coerce_instance env n) ?t ''Value'' [(''val'', s)] False False [(''val'', ?x)]
    = Inr ?v"
    by (rule construct_reads) (use reads_backD(4) [OF assms(1) sz sz] in auto)
  then have "decode_body env enc (coerce_instance env n) (from_json env enc n) ?j ?t = Inr ?v"
    using reads_backD(3) [OF assms(1) sz] by (simp add: decode_body_def)
  moreover have "?j \<noteq> VNone" "\<forall>s. ?j \<noteq> VUni s"
    using reads_backD(2) [OF assms(1)] assms(2) by (auto simp: json_shape_def split: pyval.splits)
  ultimately have "decode_step env enc (coerce_instance env n) (from_json env enc n) ?j ?t = Inr ?v"
    using decode_step_body [of ?j] by simp
  then show "\<exists>w. decode_step env enc (coerce_instance env n) (from_json env enc n) ?j ?t = Inr w \<and>
      (\<forall>m \<ge> size ?v. coerce_step env (coerce_instance env m) w ?t = Inr (Some ?v)) \<and>
      ((\<exists>a. ?t = TAlt a) \<longrightarrow> w = ?v)" using coerce_same_instance by blast
qed

lemma reads_back_null: "reads_back env enc (VInst (TNullable s) ''Null'' []) (TNullable s)"
proof (rule reads_backI)
  show "to_json env (VInst (TNullable s) ''Null'' []) = Inr VNone"
    by (simp add: instance_json_def is_nullable_def assertR_def)
  show "json_shape VNone (TNullable s)" by (simp add: json_shape_def is_nullable_def)
  fix n
  have "coerce_step env c VNone (TNullable s) = Inr (Some (VInst (TNullable s) ''Null'' []))" for c
    by (simp add: coerce_step_def to_str_def coerce_body_def coerce_alt_def alt_call_def
        types_of_def construct_from_def construct_def assertR_def)
  then show "\<exists>w. decode_step env enc (coerce_instance env n) (from_json env enc n) VNone (TNullable s) = Inr w \<and>
      (\<forall>m \<ge> size (VInst (TNullable s) ''Null'' []). coerce_step env (coerce_instance env m) w (TNullable s)
        = Inr (Some (VInst (TNullable s) ''Null'' []))) \<and>
      ((\<exists>a. TNullable s = TAlt a) \<longrightarrow> w = VInst (TNullable s) ''Null'' [])"
    by (simp add: decode_step_def)
qed

text \<open>The fields of an object, with or without the name of the option in front of them.\<close>

lemma decode_fields_objects:
  assumes "map fst js = map fst td'" "set td' \<subseteq> set td" "distinct (map fst td)"
    and "''_type'' \<notin> fst ` set td"
  shows "List.map_filter (field_entry td) (map (\<lambda>(f, j). (VStr f, j)) js)
    = map (\<lambda>p. (fst (fst p), snd (fst p), snd (snd p))) (zip js td')"
  using assms
proof (induction js td' rule: list_induct2')
  case (4 q js p td')
  have "map_of td (fst p) = Some (snd p)" using 4 by (intro map_of_is_SomeI) auto
  moreover have "fst q = fst p" "p \<in> set td" using 4 by auto
  moreover from this have "fst q \<noteq> ''_type''" using 4(5) by (metis image_eqI)
  ultimately have "field_entry td (VStr (fst q), snd q) = Some (fst q, snd q, snd p)"
    by (simp add: field_entry_def key_name_def)
  with 4 show ?case by (simp add: map_filter_simps split_def)
qed (simp_all add: map_filter_simps)

lemma decode_fields_reads:
  assumes names: "map fst fs = map fst td" "distinct (map fst td)" "''_type'' \<notin> fst ` set td"
    and el: "\<And>i. i < length fs \<Longrightarrow> reads_back env enc (snd (fs ! i)) (snd (td ! i))"
    and sz: "\<And>i. i < length fs \<Longrightarrow> size (snd (fs ! i)) < n"
    and d: "d = pre @ map (\<lambda>f. (VStr (fst f), json_of env (snd f))) fs"
    and pre: "pre = [] \<or> pre = [(VStr ''_type'', VStr w)]"
  shows "decode_fields (from_json env enc n) td d =
    Inr (map (\<lambda>p. (fst (fst p), read_of env enc n (snd (fst p)) (snd (snd p)))) (zip fs td))"
proof -
  let ?js = "map (\<lambda>f. (fst f, json_of env (snd f))) fs"
  have len: "length fs = length td" using names(1) by (metis length_map)
  have "map fst ?js = map fst td" using names(1) by (simp add: comp_def)
  note obj = decode_fields_objects [OF this subset_refl names(2,3)]
  have "List.map_filter (field_entry td) d = List.map_filter (field_entry td) (map (\<lambda>(f, j). (VStr f, j)) ?js)"
    using pre by (auto simp: d map_filter_simps field_entry_def [of td] key_name_def comp_def)
  also note obj
  finally have m: "List.map_filter (field_entry td) d = map (\<lambda>p. (fst (fst p), snd (fst p), snd (snd p))) (zip ?js td)" .
  have names': "fst (fs ! i) = fst (td ! i)" if "i < length fs" for i
    using names(1) that len by (metis nth_map)
  show ?thesis
    unfolding decode_fields_def m mapR_Inr_iff list_all2_conv_all_nth
    using len reads_backD(3) [OF el sz] by simp
qed

lemma json_env_option:
  assumes "json_env env" "(w, td) \<in> set (types_of env (TAlt a))"
  shows "w \<notin> set class_attributes" "''_type'' \<notin> fst ` set td" "\<And>p. p \<in> set td \<Longrightarrow> json_type (snd p)"
proof -
  obtain d where "env a = Some d" "(w, td) \<in> set (alt_types d)"
    using assms(2) by (cases "env a") (auto simp: types_of_def)
  with assms(1) have "w \<notin> set class_attributes \<and> (\<forall>(f, s) \<in> set td. f \<noteq> ''_type'' \<and> json_type s)"
    unfolding json_env_def by blast
  then show "w \<notin> set class_attributes" "''_type'' \<notin> fst ` set td"
    "\<And>p. p \<in> set td \<Longrightarrow> json_type (snd p)" by auto
qed

lemma reads_back_instance:
  assumes ok: "env_ok env" "json_env env" and td: "map_of (types_of env (TAlt a)) w = Some td"
    and names: "map fst fs = map fst td"
    and el: "\<And>i. i < length fs \<Longrightarrow> reads_back env enc (snd (fs ! i)) (snd (td ! i))"
  shows "reads_back env enc (VInst (TAlt a) w fs) (TAlt a)" (is "reads_back env enc ?v ?t")
proof (rule reads_backI)
  have mem: "(w, td) \<in> set (types_of env ?t)" using td by (rule map_of_SomeD)
  have dist: "distinct (map fst td)" "distinct (map fst (types_of env ?t))"
    "\<forall>(w', td') \<in> set (types_of env ?t). distinct (map fst td')"
  proof -
    show "distinct (map fst td)" by (rule types_of_distinct(2) [OF ok(1) mem])
    show "distinct (map fst (types_of env ?t))"
      using ok(1) by (auto simp: types_of_def env_ok_def alt_ok_def split: option.splits)
    show "\<forall>(w', td') \<in> set (types_of env ?t). distinct (map fst td')"
      using types_of_distinct(2) [OF ok(1)] by blast
  qed
  note opt = json_env_option [OF ok(2) mem]
  have len: "length fs = length td" using names by (metis length_map)
  have elf: "reads_back env enc (snd f) (snd (td ! i))" if "f = fs ! i" "i < length fs" for f i
    using el that by simp
  have j: "to_json env (snd f) = Inr (json_of env (snd f))" if "f \<in> set fs" for f
    using that el reads_backD(1) by (metis in_set_conv_nth)
  let ?js = "map (\<lambda>f. (fst f, json_of env (snd f))) fs"
  let ?pre = "if fields_are_unique env ?t w then [] else [(VStr ''_type'', VStr w)]"
  let ?d = "?pre @ map (\<lambda>f. (VStr (fst f), json_of env (snd f))) fs"
  let ?j = "if fs = [] then VStr w else VDict ?d"
  have "mapR (\<lambda>(f, v). bindR (to_json env v) (\<lambda>j. Inr (f, j))) fs = Inr ?js"
    by (rule mapR_ok) (use j in \<open>auto simp: split_def\<close>)
  moreover have "''_type'' \<notin> fst ` set fs"
    using opt(2) names by (metis list.set_map)
  ultimately show enc: "to_json env ?v = Inr ?j"
    by (simp add: instance_json_def is_nullable_def assertR_def comp_def)
  show "json_shape ?j ?t" by (simp add: json_shape_def)
  fix n assume n: "size ?v \<le> n"
  have sz: "size (snd (fs ! i)) < n" if "i < length fs" for i
    using size_field [of "fs ! i" fs ?t w] that n by simp
  have "decode_body env enc (coerce_instance env n) (from_json env enc n) ?j ?t = Inr ?v"
  proof (cases "fs = []")
    case True
    then have "td = []" using len by simp
    with td opt(1) mem True show ?thesis
      by (auto simp: decode_body_def decode_name_def Let_def construct_def class_attributes_def
          assertR_def filter_empty_conv)
  next
    case False
    let ?subs = "map (\<lambda>p. (fst (fst p), read_of env enc n (snd (fst p)) (snd (snd p)))) (zip fs td)"
    have "decode_fields (from_json env enc n) td ?d = Inr ?subs"
      by (rule decode_fields_reads [OF names dist(1) opt(2) el sz refl, where w = w]) auto
    moreover have "construct env (coerce_instance env n) ?t w td True (allowExtraFields enc) ?subs = Inr ?v"
    proof (rule construct_reads [OF dist(1) _ names])
      have "fst (fs ! i) = fst (td ! i)" if "i < length td" for i
        using names that len by (metis nth_map)
      then show "map fst ?subs = map fst td" using len by (intro nth_equalityI) auto
    qed (use len reads_backD(4) [OF el sz sz] in simp)
    ultimately have o': "decode_option env enc (coerce_instance env n) (from_json env enc n) ?t w td ?d = Inr ?v"
      by (simp add: decode_option_def)
    show ?thesis
    proof (cases "fields_are_unique env ?t w")
      case True
      have nt: "dict_get ''_type'' ?d = None"
        using True \<open>''_type'' \<notin> fst ` set fs\<close>
        by (auto simp: dict_get_def key_name_def find_None_iff image_iff)
      have u: "w \<in> set (types_with_unique_fields (types_of env ?t))"
        using True by (simp add: fields_are_unique_def)
      have "map (key_name \<circ> fst) ?d = map Some (map fst fs)"
        using True by (simp add: key_name_def comp_def)
      also have "\<dots> = map (Some \<circ> fst) td" using names by simp
      finally have "guess_option enc (types_of env ?t) ?d = Inr (w, td)"
        by (rule guess_option_finds [OF dist(2) mem dist(3) u])
      with nt o' False show ?thesis by (simp add: decode_body_def decode_object_def Let_def)
    next
      case nu: False
      then have "dict_get ''_type'' ?d = Some (VStr w)" by (simp add: dict_get_def key_name_def)
      with o' False td opt(1) show ?thesis by (simp add: decode_body_def decode_object_def Let_def)
    qed
  qed
  then have "decode_step env enc (coerce_instance env n) (from_json env enc n) ?j ?t = Inr ?v"
    using decode_step_body [of ?j] by simp
  then show "\<exists>x. decode_step env enc (coerce_instance env n) (from_json env enc n) ?j ?t = Inr x \<and>
      (\<forall>m \<ge> size ?v. coerce_step env (coerce_instance env m) x ?t = Inr (Some ?v)) \<and>
      ((\<exists>b. ?t = TAlt b) \<longrightarrow> x = ?v)" using coerce_same_instance by blast
qed

lemma reads_back_primitive:
  assumes "isinstance v t"
  shows "reads_back env enc v t"
proof (rule reads_backI)
  let ?j = "case v of VObj c i \<Rightarrow> VStr i | _ \<Rightarrow> v"
  show "to_json env v = Inr ?j" using assms by (cases v) auto
  show "json_shape ?j t" using assms by (cases v) (auto simp: json_shape_def)
  fix n
  have "decode_step env enc (coerce_instance env n) (from_json env enc n) ?j t = Inr v"
    using assms by (cases v) (auto simp: decode_step_def decode_body_def decode_primitive_def)
  moreover have "coerce_step env c v t = Inr (Some v)" for c
    using assms by (cases v) (auto simp: coerce_step_def to_str_def coerce_body_def)
  ultimately show "\<exists>w. decode_step env enc (coerce_instance env n) (from_json env enc n) ?j t = Inr w \<and>
      (\<forall>m \<ge> size v. coerce_step env (coerce_instance env m) w t = Inr (Some v)) \<and>
      ((\<exists>a. t = TAlt a) \<longrightarrow> w = v)" by blast
qed

lemma all_reads_back:
  assumes "env_ok env" "json_env env"
  shows "typed False env v t \<Longrightarrow> json_type t \<Longrightarrow> reads_back env enc v t"
proof (induction v arbitrary: t rule: measure_induct_rule [where f = size])
  case (less v)
  show ?case
  proof (cases v)
    case (VTuple xs)
    have sz: "x \<in> set xs \<Longrightarrow> size x < size v" for x using size_elem [of x xs] VTuple by simp
    show ?thesis
    proof (cases t)
      case (TTuple ts)
      then have t: "length xs = length ts" "\<forall>(x, s) \<in> set (zip xs ts). typed False env x s"
        using less.prems(1) VTuple by auto
      have "reads_back env enc x s" if "(x, s) \<in> set (zip xs ts)" for x s
        using less.IH [OF sz] t(2) less.prems(2) TTuple set_zip_leftD [OF that] set_zip_rightD [OF that]
          that by auto
      then have "\<forall>(x, s) \<in> set (zip xs ts). reads_back env enc x s" by blast
      from reads_back_tuple [OF t(1) this] show ?thesis using VTuple TTuple by simp
    next
      case (TList s)
      then have "\<forall>x \<in> set xs. reads_back env enc x s"
        using less.IH [OF sz] less.prems VTuple by auto
      then show ?thesis using reads_back_list less.prems(2) VTuple TList by auto
    qed (use less.prems(1) VTuple in auto)
  next
    case (VDict d)
    then obtain vt where t: "t = TDict TStr vt" "json_type vt"
      using less.prems by (cases t) auto
    have sz: "p \<in> set d \<Longrightarrow> size (snd p) < size v" for p using size_item(1) [of p d] VDict by simp
    have p: "\<forall>p \<in> set d. typed False env (snd p) vt \<and> typed False env (fst p) TStr" "keys_differ d"
      using less.prems(1) VDict t(1) by auto
    have "\<exists>s. k = VStr s" if "typed False env k TStr" for k
      using that by (cases k) (auto simp: types_of_def)
    then have "\<forall>p \<in> set d. \<exists>s. fst p = VStr s" using p(1) by blast
    moreover have "\<forall>p \<in> set d. reads_back env enc (snd p) vt" using less.IH [OF sz] p(1) t(2) by blast
    ultimately show ?thesis using reads_back_dict p(2) VDict t(1) by blast
  next
    case (VInst t' w fs)
    then obtain td where td: "t' = t" "map_of (types_of env t) w = Some td" "map fst fs = map fst td"
      "\<forall>(f, p) \<in> set (zip fs td). typed False env (snd f) (snd p)"
      using less.prems(1) by (auto split: option.splits)
    have sz: "f \<in> set fs \<Longrightarrow> size (snd f) < size v" for f using size_field [of f fs t' w] VInst by simp
    have len: "length fs = length td" using td(3) by (metis length_map)
    show ?thesis
    proof (cases t)
      case (TAlt a)
      have "reads_back env enc (snd (fs ! i)) (snd (td ! i))" if i: "i < length fs" for i
      proof (rule less.IH [OF sz])
        show "fs ! i \<in> set fs" using i by simp
        show "typed False env (snd (fs ! i)) (snd (td ! i))"
        proof -
          have "(fs ! i, td ! i) \<in> set (zip fs td)" using i len by (auto simp: set_zip)
          with td(4) show ?thesis by blast
        qed
        show "json_type (snd (td ! i))"
          using json_env_option(3) [OF assms(2) map_of_SomeD [OF td(2) [unfolded TAlt]]] i len by simp
      qed
      then show ?thesis
        using reads_back_instance [OF assms td(2) [unfolded TAlt] td(3)] VInst td(1) TAlt by blast
    next
      case (TNullable s)
      then consider "w = ''Null''" "fs = []" | x where "w = ''Value''" "fs = [(''val'', x)]" "typed False env x s"
        using td by (auto simp: types_of_def split: if_splits)
      then show ?thesis
      proof cases
        case 1
        then show ?thesis using reads_back_null VInst td(1) TNullable by simp
      next
        case 2
        have "reads_back env enc x s"
          using less.IH [OF sz [of "(''val'', x)"], of s] 2 less.prems(2) TNullable by simp
        then show ?thesis using reads_back_nullable 2 VInst td(1) less.prems(2) TNullable by simp
      qed
    qed (use td(2) in \<open>auto simp: types_of_def\<close>)
  qed (use less.prems in \<open>auto intro: reads_back_primitive\<close>)
qed


section \<open>The declarations of the encoder's tests\<close>

definition opcode_decl :: "alt_def res" where
  "opcode_decl = bindR (define_option ''Add'' [] empty_alt) (define_option ''Sub'' [])"

definition expr_decl :: "alt_def res" where
  "expr_decl =
     bindR (define_option ''Constant'' [(''value'', TInt)] empty_alt) (\<lambda>d.
     bindR (define_option ''Binop''
       [(''opcode'', TAlt ''Opcode''), (''l'', TAlt ''Expr''), (''r'', TAlt ''Expr'')] d) (\<lambda>d.
     bindR (define_option ''Add'' [(''l'', TAlt ''Expr''), (''r'', TAlt ''Expr'')] d) (\<lambda>d.
     bindR (define_option ''Sub'' [(''l'', TAlt ''Expr''), (''r'', TAlt ''Expr'')] d) (\<lambda>d.
     bindR (define_option ''Many'' [(''vals'', TList (TAlt ''Expr''))] d) (\<lambda>d.
     define_option ''Possibly'' [(''val'', TNullable (TAlt ''Expr''))] d)))))"

definition expr_env :: alt_env where
  "expr_env = map_of [(''Opcode'', projr opcode_decl), (''Expr'', projr expr_decl)]"

abbreviation expr_inst :: "string \<Rightarrow> (string \<times> pyval) list \<Rightarrow> pyval" where
  "expr_inst \<equiv> VInst (TAlt ''Expr'')"

text \<open>\<open>Many([Constant(10), Add(10, 20), Possibly(None), Possibly(20), Binop(Sub, 10, 20)])\<close>.\<close>

definition expr_value :: pyval where
  "expr_value =
     (let c10 = expr_inst ''Constant'' [(''value'', VInt 10)];
          c20 = expr_inst ''Constant'' [(''value'', VInt 20)];
          nul = TNullable (TAlt ''Expr'')
      in expr_inst ''Many'' [(''vals'', VTuple
        [c10, expr_inst ''Add'' [(''l'', c10), (''r'', c20)],
         expr_inst ''Possibly'' [(''val'', VInst nul ''Null'' [])],
         expr_inst ''Possibly'' [(''val'', VInst nul ''Value'' [(''val'', c20)])],
         expr_inst ''Binop'' [(''opcode'', VInst (TAlt ''Opcode'') ''Sub'' []), (''l'', c10),
           (''r'', c20)]])])"

lemmas expr_defs = expr_env_def opcode_decl_def expr_decl_def empty_alt_def define_option_def
  assertR_def valid_fieldname_def alist_update_def

lemma expr_env_ok: "env_ok expr_env" "json_env expr_env"
  unfolding env_ok_def json_env_def alt_ok_def
  by (auto simp: expr_defs class_attributes_def is_nullable_def split: if_splits)

lemma expr_value_typed: "typed False expr_env expr_value (TAlt ''Expr'')"
  by (simp add: expr_value_def Let_def expr_defs types_of_def)



section \<open>Where the checks do not reach\<close>

text \<open>An entry of a dict is not checked: a value that cannot be coerced becomes \<open>None\<close>.\<close>

lemma dict_entries_unchecked:
  "coerce_instance env 2 (VDict [(VStr ''a'', VStr ''x'')]) (TDict TStr TInt) =
   Inr (Some (VDict [(VStr ''a'', VNone)]))"
  by (simp add: numeral_2_eq_2 coerce_step_def coerce_body_def to_str_def coerce_item_def
      opt_none_def dict_put_def)

text \<open>\<open>_withReplacement\<close> replaces the field in the instance it is called on, and leaves a value of
  the wrong type there when the constructor raises.\<close>

lemma with_replacement_changes_original:
  "with_replacement expr_env 2 [(''value'', VStr ''x'')] (expr_inst ''Constant'' [(''value'', VInt 10)])
   = (expr_inst ''Constant'' [(''value'', VStr ''x'')], Inl TypeError)"
  by code_simp

text \<open>The name \<open>define\<close> is decoded as \<open>None\<close>.\<close>

lemma define_decodes_to_none:
  "from_json expr_env enc 1 (VStr ''define'') (TAlt ''Opcode'') = Inr VNone"
  by (simp add: decode_step_def decode_body_def decode_name_def Let_def expr_defs types_of_def)

end
