(* ===== verification/Bitstring_Packing.thy ===== *)
theory Bitstring_Packing
  imports Prelude "HOL-Library.Word"
begin

text \<open>
  \<^verbatim>\<open>test_looper/core/Bitstring.py\<close>: booleans packed six to a character of a base-64 alphabet. The
  test manager stores the outcome of every individual test of a run in this form.
\<close>

unbundle bit_operations_syntax

definition index_to_char :: string where
  "index_to_char = ''abcdefghijklmnopqrstuvwxyzABCDEFGHIJKLMNOPQRSTUVWXYZ0123456789+/''"

definition char_to_index :: "char \<Rightarrow> nat res" where
  "char_to_index c =
     (case find (\<lambda>i. index_to_char ! i = c) [0..<64] of Some i \<Rightarrow> Inr i | None \<Rightarrow> Inl KeyError)"

definition packBitstringToInt :: "bool list \<Rightarrow> nat" where
  "packBitstringToInt bools =
     fst (fold (\<lambda>b (res, bit). (if b then res + bit else res, bit * 2)) bools (0, 1))"

function fromBools :: "bool list \<Rightarrow> string" where
  "fromBools bools =
     (if bools = [] then []
      else index_to_char ! packBitstringToInt (take 6 bools) # fromBools (drop 6 bools))"
  by pat_completeness auto
termination
  by (relation "measure length") auto

declare fromBools.simps [simp del]

definition getitem :: "string \<Rightarrow> nat \<Rightarrow> bool res" where
  "getitem bits ix =
     (if ix div 6 \<ge> length bits then Inr False
      else bindR (char_to_index (bits ! (ix div 6)))
             (\<lambda>v. Inr ((v AND push_bit (ix mod 6) 1) > 0)))"

lemma index_to_char_length: "length index_to_char = 64"
  by code_simp

lemma char_to_index_table: "i < 64 \<Longrightarrow> char_to_index (index_to_char ! i) = Inr i"
proof -
  have "list_all (\<lambda>i. char_to_index (index_to_char ! i) = Inr i) [0..<64]" by code_simp
  then show "i < 64 \<Longrightarrow> ?thesis" by (simp add: list_all_iff)
qed

lemma pack_fold:
  "fst (fold (\<lambda>b (res, bit). (if b then res + bit else res, bit * 2)) bs (r, k)) =
   r + k * horner_sum of_bool (2::nat) bs"
  by (induction bs arbitrary: r k) (auto simp: algebra_simps)

lemma pack_horner: "packBitstringToInt bs = horner_sum of_bool 2 bs"
  by (simp add: packBitstringToInt_def pack_fold)

lemma horner_bound: "horner_sum of_bool (2::nat) bs < 2 ^ length bs"
  by (induction bs) auto

lemma pack_bound: "packBitstringToInt (take 6 bs) < 64"
proof -
  have "packBitstringToInt (take 6 bs) < 2 ^ length (take 6 bs)"
    by (simp only: pack_horner horner_bound)
  also have "\<dots> \<le> 2 ^ 6" by (intro power_increasing) auto
  finally show ?thesis by simp
qed

lemma pack_bit: "(packBitstringToInt bs AND push_bit k 1 > 0) = (k < length bs \<and> bs ! k)"
proof -
  have "(packBitstringToInt bs AND push_bit k 1 > 0) = bit (packBitstringToInt bs) k"
    by (simp add: bit_iff_and_push_bit_not_eq_0)
  also have "\<dots> = (k < length bs \<and> bs ! k)" by (simp add: pack_horner bit_horner_sum_bit_iff)
  finally show ?thesis .
qed

lemma getitem_Nil: "getitem [] ix = Inr False"
  by (simp add: getitem_def)

lemma getitem_Cons:
  "getitem (c # cs) ix =
   (if ix < 6 then bindR (char_to_index c) (\<lambda>v. Inr (v AND push_bit ix 1 > 0)) else getitem cs (ix - 6))"
proof (cases "ix < 6")
  case False
  then have "ix div 6 = Suc ((ix - 6) div 6)" "ix mod 6 = (ix - 6) mod 6"
    by (simp_all add: le_div_geq le_mod_geq)
  with False show ?thesis by (simp add: getitem_def)
qed (simp add: getitem_def)

lemma getitem_fromBools: "getitem (fromBools bs) ix = Inr (ix < length bs \<and> bs ! ix)"
proof (induction bs arbitrary: ix rule: fromBools.induct)
  case (1 bs)
  show ?case
  proof (cases "bs = []")
    case True
    then show ?thesis by (simp add: fromBools.simps [of "[]"] getitem_Nil)
  next
    case False
    have first: "bindR (char_to_index (index_to_char ! packBitstringToInt (take 6 bs)))
        (\<lambda>v. Inr (v AND push_bit ix 1 > 0)) = Inr (ix < length (take 6 bs) \<and> take 6 bs ! ix)"
      by (simp only: char_to_index_table [OF pack_bound] bindR.simps pack_bit)
    have "getitem (fromBools bs) ix =
        (if ix < 6 then Inr (ix < length (take 6 bs) \<and> take 6 bs ! ix)
         else getitem (fromBools (drop 6 bs)) (ix - 6))"
      by (simp only: fromBools.simps [of bs] getitem_Cons False if_False first)
    also have "\<dots> = Inr (ix < length bs \<and> bs ! ix)"
      using 1 [OF False, of "ix - 6"] by (auto simp: min_def)
    finally show ?thesis .
  qed
qed

lemma chunk_count:
  fixes n :: nat
  assumes "n > 0"
  shows "Suc ((n - 6 + 5) div 6) = (n + 5) div 6"
proof (cases "n < 6")
  case True
  with assms have "(n + 5) div 6 = 1" by (intro div_nat_eqI) auto
  with True show ?thesis by simp
next
  case False
  then have "n + 5 = (n - 6 + 5) + 6" by simp
  then show ?thesis by (metis add.commute div_add_self2 plus_1_eq_Suc zero_neq_numeral)
qed

lemma fromBools_length: "length (fromBools bs) = (length bs + 5) div 6"
proof (induction bs rule: fromBools.induct)
  case (1 bs)
  show ?case
  proof (cases "bs = []")
    case False
    then have "length (fromBools bs) = Suc ((length bs - 6 + 5) div 6)"
      using 1 by (simp add: fromBools.simps [of bs])
    then show ?thesis using chunk_count [of "length bs"] False by simp
  qed (simp add: fromBools.simps [of "[]"])
qed

text \<open>Every boolean comes back from the packed string, an index past the end reads \<open>False\<close>, and the
  string has one character for every six booleans begun.\<close>

theorem bitstring_roundtrip:
  "(\<forall>ix. getitem (fromBools bs) ix = Inr (ix < length bs \<and> bs ! ix)) \<and>
   length (fromBools bs) = (length bs + 5) div 6"
  by (simp add: getitem_fromBools fromBools_length)

end
