(* ===== verification/Indexed_Table.thy ===== *)
theory Indexed_Table
  imports Prelude
begin

text \<open>
  The objects of one type inside a transaction, with the indices that
  \<^verbatim>\<open>test_looper/core/object_database.py\<close> keeps for them (\<open>DatabaseView._new\<close>, \<open>_set\<close>, \<open>_delete\<close>,
  \<open>_update_indices\<close>, \<open>indexLookup\<close>, \<open>indexLookupAny\<close>, \<open>indexLookupOne\<close>): \<open>rows\<close> are the fields of each
  identity, \<open>index\<close> the list of identities stored under each index key. An index key is a name
  with a value; the index functions of \<open>addIndex\<close> are one function from a row to its keys, an index
  function that returns \<open>None\<close> contributing none.
\<close>

type_synonym oid = nat

record ('row, 'ix) tbl =
  rows :: "oid \<Rightarrow> 'row option"
  index :: "'ix \<Rightarrow> oid list"

definition empty_tbl :: "('row, 'ix) tbl" where
  "empty_tbl = \<lparr>rows = (\<lambda>_. None), index = (\<lambda>_. [])\<rparr>"

fun index_add :: "oid \<Rightarrow> 'ix list \<Rightarrow> ('ix \<Rightarrow> oid list) \<Rightarrow> ('ix \<Rightarrow> oid list)" where
  "index_add i [] ix = ix"
| "index_add i (k # ks) ix = index_add i ks (ix(k := ix k @ [i]))"

fun index_drop :: "oid \<Rightarrow> 'ix list \<Rightarrow> ('ix \<Rightarrow> oid list) \<Rightarrow> ('ix \<Rightarrow> oid list)" where
  "index_drop i [] ix = ix"
| "index_drop i (k # ks) ix = index_drop i ks (ix(k := filter (\<lambda>x. x \<noteq> i) (ix k)))"

text \<open>\<open>_update_indices\<close>: an index whose value has not changed is left alone, so the identity keeps its
  place in that list.\<close>

definition update_indices ::
  "oid \<Rightarrow> 'ix list \<Rightarrow> 'ix list \<Rightarrow> ('ix \<Rightarrow> oid list) \<Rightarrow> ('ix \<Rightarrow> oid list)" where
  "update_indices i cur new ix =
     index_add i (filter (\<lambda>k. k \<notin> set cur) new) (index_drop i (filter (\<lambda>k. k \<notin> set new) cur) ix)"

definition tbl_new ::
  "('row \<Rightarrow> 'ix list) \<Rightarrow> oid \<Rightarrow> 'row \<Rightarrow> ('row, 'ix) tbl \<Rightarrow> ('row, 'ix) tbl" where
  "tbl_new keys i r t =
     t\<lparr>rows := (rows t)(i \<mapsto> r), index := index_add i (keys r) (index t)\<rparr>"

text \<open>Setting fields of an object that does not exist only writes values that no lookup reaches.\<close>

definition tbl_modify ::
  "('row \<Rightarrow> 'ix list) \<Rightarrow> oid \<Rightarrow> ('row \<Rightarrow> 'row) \<Rightarrow> ('row, 'ix) tbl \<Rightarrow> ('row, 'ix) tbl" where
  "tbl_modify keys i f t =
     (case rows t i of None \<Rightarrow> t
      | Some r \<Rightarrow> t\<lparr>rows := (rows t)(i \<mapsto> f r),
                    index := update_indices i (keys r) (keys (f r)) (index t)\<rparr>)"

definition tbl_delete ::
  "('row \<Rightarrow> 'ix list) \<Rightarrow> oid \<Rightarrow> ('row, 'ix) tbl \<Rightarrow> ('row, 'ix) tbl" where
  "tbl_delete keys i t =
     (case rows t i of None \<Rightarrow> t
      | Some r \<Rightarrow> t\<lparr>rows := (rows t)(i := None), index := update_indices i (keys r) [] (index t)\<rparr>)"

definition lookup_all :: "('row, 'ix) tbl \<Rightarrow> 'ix \<Rightarrow> oid list" where
  "lookup_all t k = index t k"

definition lookup_any :: "('row, 'ix) tbl \<Rightarrow> 'ix \<Rightarrow> oid option" where
  "lookup_any t k = (case index t k of [] \<Rightarrow> None | i # _ \<Rightarrow> Some i)"

definition lookup_one :: "('row, 'ix) tbl \<Rightarrow> 'ix \<Rightarrow> oid res" where
  "lookup_one t k =
     (case index t k of
        [] \<Rightarrow> Inl (UserException ''No instances found'')
      | [i] \<Rightarrow> Inr i
      | _ \<Rightarrow> Inl (UserException ''Multiple instances found''))"

section \<open>Rows\<close>

lemma rows_empty [simp]: "rows empty_tbl i = None"
  by (simp add: empty_tbl_def)

lemma rows_new [simp]: "rows (tbl_new keys i r t) = (rows t)(i \<mapsto> r)"
  by (simp add: tbl_new_def)

lemma rows_modify [simp]:
  "rows (tbl_modify keys i f t) j = (if j = i then map_option f (rows t i) else rows t j)"
  by (simp add: tbl_modify_def split: option.split)

lemma rows_delete [simp]: "rows (tbl_delete keys i t) = (rows t)(i := None)"
  by (auto simp: tbl_delete_def split: option.split)

lemma index_add_apply:
  "distinct ks \<Longrightarrow> index_add i ks ix k = (if k \<in> set ks then ix k @ [i] else ix k)"
  by (induction ks arbitrary: ix) auto

lemma index_drop_apply:
  "index_drop i ks ix k = (if k \<in> set ks then filter (\<lambda>x. x \<noteq> i) (ix k) else ix k)"
  by (induction ks arbitrary: ix) auto

lemma update_indices_apply:
  "distinct new \<Longrightarrow> update_indices i cur new ix k =
    (if k \<in> set cur then (if k \<in> set new then ix k else filter (\<lambda>x. x \<noteq> i) (ix k))
     else (if k \<in> set new then ix k @ [i] else ix k))"
  by (auto simp: update_indices_def index_add_apply index_drop_apply)

lemma lookup_any_Some: "lookup_any t k = Some i \<Longrightarrow> i \<in> set (lookup_all t k)"
  by (auto simp: lookup_any_def lookup_all_def split: list.splits)

lemma lookup_any_None: "lookup_any t k = None \<longleftrightarrow> lookup_all t k = []"
  by (auto simp: lookup_any_def lookup_all_def split: list.splits)

lemma lookup_empty [simp]: "lookup_all empty_tbl k = []" "lookup_any empty_tbl k = None"
  by (simp_all add: lookup_all_def lookup_any_def empty_tbl_def)

lemma lookup_one_ok: "lookup_one t k = Inr i \<longleftrightarrow> lookup_all t k = [i]"
  by (auto simp: lookup_one_def lookup_all_def split: list.splits)

section \<open>The indices agree with the rows\<close>

definition tbl_ok :: "('row \<Rightarrow> 'ix list) \<Rightarrow> ('row, 'ix) tbl \<Rightarrow> bool" where
  "tbl_ok keys t \<longleftrightarrow>
     (\<forall>k. distinct (index t k) \<and> (\<forall>i. i \<in> set (index t k) \<longleftrightarrow> (\<exists>r. rows t i = Some r \<and> k \<in> set (keys r))))"

text \<open>The contract between the database and the types that declare indices: a row never has the same
  key twice, because each index contributes at most one key under its own name.\<close>

locale indexed_type =
  fixes keys :: "'row \<Rightarrow> 'ix list"
  assumes distinct_keys: "distinct (keys r)"
begin

lemma ok_empty: "tbl_ok keys empty_tbl"
  by (simp add: tbl_ok_def empty_tbl_def)

lemma in_lookup_iff:
  "tbl_ok keys t \<Longrightarrow> i \<in> set (lookup_all t k) \<longleftrightarrow> (\<exists>r. rows t i = Some r \<and> k \<in> set (keys r))"
  by (simp add: tbl_ok_def lookup_all_def)

lemma distinct_lookup: "tbl_ok keys t \<Longrightarrow> distinct (lookup_all t k)"
  by (simp add: tbl_ok_def lookup_all_def)

lemma ok_new:
  assumes "tbl_ok keys t" "rows t i = None"
  shows "tbl_ok keys (tbl_new keys i r t)"
  using assms distinct_keys unfolding tbl_ok_def
  by (auto simp: tbl_new_def index_add_apply)

lemma ok_modify:
  assumes "tbl_ok keys t"
  shows "tbl_ok keys (tbl_modify keys i f t)"
proof (cases "rows t i")
  case (Some r)
  have 1: "distinct (index t k)" "j \<in> set (index t k) \<longleftrightarrow> (\<exists>r. rows t j = Some r \<and> k \<in> set (keys r))"
    for j k using assms by (auto simp: tbl_ok_def)
  show ?thesis
    unfolding tbl_ok_def tbl_modify_def Some option.case
    using 1 Some distinct_keys by (auto simp: update_indices_apply)
qed (use assms in \<open>simp add: tbl_modify_def\<close>)

lemma ok_delete:
  assumes "tbl_ok keys t"
  shows "tbl_ok keys (tbl_delete keys i t)"
proof (cases "rows t i")
  case (Some r)
  have 1: "distinct (index t k)" "j \<in> set (index t k) \<longleftrightarrow> (\<exists>r. rows t j = Some r \<and> k \<in> set (keys r))"
    for j k using assms by (auto simp: tbl_ok_def)
  show ?thesis
    unfolding tbl_ok_def tbl_delete_def Some option.case
    using 1 Some by (auto simp: update_indices_apply)
qed (use assms in \<open>simp add: tbl_delete_def\<close>)

lemma lookup_modify_other:
  assumes "tbl_ok keys t" "\<And>r. rows t i = Some r \<Longrightarrow> (k \<in> set (keys (f r))) = (k \<in> set (keys r))"
  shows "lookup_all (tbl_modify keys i f t) k = lookup_all t k"
  using assms distinct_keys
  by (auto simp: tbl_modify_def lookup_all_def update_indices_apply split: option.split)

lemma lookup_new:
  "lookup_all (tbl_new keys i r t) k = (if k \<in> set (keys r) then lookup_all t k @ [i] else lookup_all t k)"
  by (simp add: tbl_new_def lookup_all_def index_add_apply distinct_keys)

lemma lookup_delete:
  assumes "tbl_ok keys t"
  shows "lookup_all (tbl_delete keys i t) k = filter (\<lambda>x. x \<noteq> i) (lookup_all t k)"
proof (cases "rows t i")
  case None
  then have "i \<notin> set (lookup_all t k)" using assms by (simp add: in_lookup_iff)
  then have "filter (\<lambda>x. x \<noteq> i) (lookup_all t k) = lookup_all t k" by (auto intro: filter_True)
  then show ?thesis using None by (simp add: tbl_delete_def)
next
  case (Some r)
  have "k \<notin> set (keys r) \<Longrightarrow> i \<notin> set (lookup_all t k)" using Some in_lookup_iff [OF assms, of i k] by auto
  then have "k \<notin> set (keys r) \<Longrightarrow> filter (\<lambda>x. x \<noteq> i) (lookup_all t k) = lookup_all t k"
    by (auto intro: filter_True)
  then show ?thesis using Some by (auto simp: tbl_delete_def lookup_all_def update_indices_apply)
qed

lemma lookup_anyD:
  "tbl_ok keys t \<Longrightarrow> lookup_any t k = Some i \<Longrightarrow> \<exists>r. rows t i = Some r \<and> k \<in> set (keys r)"
  by (metis in_lookup_iff lookup_any_Some)

lemma lookup_any_NoneD:
  "tbl_ok keys t \<Longrightarrow> lookup_any t k = None \<Longrightarrow> rows t i = Some r \<Longrightarrow> k \<notin> set (keys r)"
  by (metis in_lookup_iff lookup_any_None empty_iff empty_set)

lemma lookup_oneI:
  assumes "tbl_ok keys t" "rows t i = Some r" "k \<in> set (keys r)"
    "\<And>j s. rows t j = Some s \<Longrightarrow> k \<in> set (keys s) \<Longrightarrow> j = i"
  shows "lookup_one t k = Inr i"
proof -
  have "j \<in> set (lookup_all t k) \<longleftrightarrow> j = i" for j
    using in_lookup_iff [OF assms(1)] assms(2-4) by blast
  then have "set (lookup_all t k) = {i}" by blast
  moreover have "distinct (lookup_all t k)" using assms(1) by (rule distinct_lookup)
  ultimately have "lookup_all t k = [i]" by (rule distinct_singleton [rotated])
  then show ?thesis by (simp add: lookup_one_ok)
qed

end

end
