(* ===== verification/Graph_Util.thy ===== *)
theory Graph_Util
  imports Prelude
begin

text \<open>
  \<^verbatim>\<open>test_looper/core/GraphUtil.py\<close>: reachable nodes, cycle detection and levelling of a graph
  given by an edge function. A Python \<open>set\<close> that is iterated over is a list without duplicates
  in the order of insertion. The recursive functions take the remaining recursion depth as their
  first argument and raise \<open>RecursionError\<close> when it is used up, as the interpreter does; the
  theorems say which depth is enough.
\<close>

section \<open>Edges and paths\<close>

definition edges :: "('n \<Rightarrow> 'n list) \<Rightarrow> ('n \<times> 'n) set" where
  "edges f = {(a, b). b \<in> set (f a)}"

definition closed_under :: "('n \<Rightarrow> 'n list) \<Rightarrow> 'n set \<Rightarrow> bool" where
  "closed_under f U \<longleftrightarrow> (\<forall>n\<in>U. set (f n) \<subseteq> U)"

lemma edges_iff [simp]: "(a, b) \<in> edges f \<longleftrightarrow> b \<in> set (f a)"
  by (simp add: edges_def)

lemma closed_reach:
  assumes "closed_under f U" "a \<in> U" "(a, b) \<in> (edges f)\<^sup>*"
  shows "b \<in> U"
  using assms(3) by induction (use assms(1,2) in \<open>auto simp: closed_under_def\<close>)

lemma closed_reach_from: "closed_under f ((edges f)\<^sup>* `` S)"
  by (auto simp: closed_under_def Image_def) (meson edges_iff rtrancl.rtrancl_into_rtrancl)

section \<open>findAllNodes\<close>

fun walk :: "nat \<Rightarrow> ('n \<Rightarrow> 'n list) \<Rightarrow> 'n \<Rightarrow> 'n list \<Rightarrow> 'n list res" where
  "walk 0 edge_function node all_nodes = Inl RecursionError"
| "walk (Suc depth) edge_function node all_nodes =
     (if node \<in> set all_nodes then Inr all_nodes
      else foldR (walk depth edge_function) (edge_function node) (all_nodes @ [node]))"

definition findAllNodes :: "nat \<Rightarrow> ('n \<Rightarrow> 'n list) \<Rightarrow> 'n list \<Rightarrow> 'n list res" where
  "findAllNodes depth edge_function nodes = foldR (walk depth edge_function) nodes []"

text \<open>What one walk adds: the node, and with every node it adds all the successors, unless they
  were there before.\<close>

definition walk_post :: "('n \<Rightarrow> 'n list) \<Rightarrow> 'n set \<Rightarrow> 'n list \<Rightarrow> 'n list \<Rightarrow> bool" where
  "walk_post f targets all all' \<longleftrightarrow>
     distinct all' \<and> set all \<union> targets \<subseteq> set all' \<and>
     (\<forall>n\<in>set all' - set all. set (f n) \<subseteq> set all' \<and> n \<in> (edges f)\<^sup>* `` targets)"

lemma walk_fold_post:
  assumes step: "\<And>n all all'. n \<in> set ns \<Longrightarrow> walk d f n all = Inr all' \<Longrightarrow> distinct all \<Longrightarrow>
      walk_post f {n} all all'"
    and run: "foldR (walk d f) ns all = Inr all'" "distinct all"
  shows "walk_post f (set ns) all all'"
  using assms
proof (induction ns arbitrary: all)
  case Nil
  then show ?case by (simp add: walk_post_def)
next
  case (Cons n ns)
  from Cons.prems(2) obtain mid where m: "walk d f n all = Inr mid"
    "foldR (walk d f) ns mid = Inr all'" by (auto simp: bindR_Inr_conv)
  have p1: "walk_post f {n} all mid" using Cons.prems(1) m(1) Cons.prems(3) by simp
  then have "distinct mid" by (simp add: walk_post_def)
  with Cons.IH [OF _ m(2)] Cons.prems(1) have p2: "walk_post f (set ns) mid all'" by simp
  show ?case
    unfolding walk_post_def
  proof (intro conjI ballI)
    show "distinct all'" "set all \<union> set (n # ns) \<subseteq> set all'"
      using p1 p2 by (auto simp: walk_post_def)
    fix x assume x: "x \<in> set all' - set all"
    show "set (f x) \<subseteq> set all'" "x \<in> (edges f)\<^sup>* `` set (n # ns)"
      using x p1 p2 by (cases "x \<in> set mid"; auto simp: walk_post_def; blast)+
  qed
qed

lemma walk_sound: "walk d f n all = Inr all' \<Longrightarrow> distinct all \<Longrightarrow> walk_post f {n} all all'"
proof (induction d arbitrary: n all all')
  case 0
  then show ?case by simp
next
  case (Suc d)
  show ?case
  proof (cases "n \<in> set all")
    case True
    with Suc.prems show ?thesis by (auto simp: walk_post_def)
  next
    case False
    with Suc.prems have "foldR (walk d f) (f n) (all @ [n]) = Inr all'" "distinct (all @ [n])"
      by auto
    from walk_fold_post [OF Suc.IH this] have p: "walk_post f (set (f n)) (all @ [n]) all'"
      by blast
    show ?thesis
      unfolding walk_post_def
    proof (intro conjI ballI)
      show "distinct all'" "set all \<union> {n} \<subseteq> set all'" using p by (auto simp: walk_post_def)
      fix x assume x: "x \<in> set all' - set all"
      show "set (f x) \<subseteq> set all'" using x p by (cases "x = n") (auto simp: walk_post_def)
      show "x \<in> (edges f)\<^sup>* `` {n}"
      proof (cases "x = n")
        case False
        with x p have "x \<in> (edges f)\<^sup>* `` set (f n)" by (auto simp: walk_post_def)
        then obtain m where "m \<in> set (f n)" "(m, x) \<in> (edges f)\<^sup>*" by blast
        then have "(n, x) \<in> (edges f)\<^sup>*" by (metis edges_iff converse_rtrancl_into_rtrancl)
        then show ?thesis by simp
      qed simp
    qed
  qed
qed

lemma walk_enough:
  "finite U \<Longrightarrow> closed_under f U \<Longrightarrow> n \<in> U \<Longrightarrow> distinct all \<Longrightarrow> card (U - set all) < d \<Longrightarrow>
   \<exists>all'. walk d f n all = Inr all'"
proof (induction d arbitrary: n all)
  case 0
  then show ?case by simp
next
  case (Suc d)
  show ?case
  proof (cases "n \<in> set all")
    case False
    let ?P = "\<lambda>s. distinct s \<and> set (all @ [n]) \<subseteq> set s"
    have "\<exists>s. foldR (walk d f) (f n) (all @ [n]) = Inr s \<and> ?P s"
    proof (rule foldR_ok [where P = ?P])
      show "?P (all @ [n])" using Suc.prems False by simp
    next
      fix x s assume x: "x \<in> set (f n)" and s: "?P s"
      have "card (U - set s) < card (U - set all)"
        using Suc.prems False s by (intro psubset_card_mono) auto
      with Suc.prems x s Suc.IH [of x s] obtain t where t: "walk d f x s = Inr t"
        by (auto simp: closed_under_def)
      with walk_sound [OF t] s show "\<exists>v. walk d f x s = Inr v \<and> ?P v"
        by (auto simp: walk_post_def)
    qed
    with False show ?thesis by auto
  qed simp
qed

lemma findAllNodes_result:
  assumes "findAllNodes d f ns = Inr all"
  shows "distinct all" "set all = (edges f)\<^sup>* `` set ns"
proof -
  from assms have "foldR (walk d f) ns [] = Inr all" by (simp add: findAllNodes_def)
  from walk_fold_post [OF walk_sound this] have p: "walk_post f (set ns) [] all" by simp
  then show "distinct all" by (simp add: walk_post_def)
  from p have "closed_under f (set all)" by (auto simp: walk_post_def closed_under_def)
  with p closed_reach [of f "set all"] show "set all = (edges f)\<^sup>* `` set ns"
    by (auto simp: walk_post_def)
qed

lemma findAllNodes_enough:
  fixes U :: "'n set"
  assumes "finite U" "closed_under f U" "set ns \<subseteq> U" "card U < d"
  shows "\<exists>all. findAllNodes d f ns = Inr all"
proof -
  have "\<exists>s. foldR (walk d f) ns [] = Inr s \<and> distinct s"
  proof (rule foldR_ok)
    fix n and s :: "'n list" assume "n \<in> set ns" and s: "distinct s"
    have "card (U - set s) \<le> card U" using assms(1) by (intro card_mono) auto
    with walk_enough [OF assms(1,2) _ s, of n d] assms(3,4) \<open>n \<in> set ns\<close>
    obtain t where t: "walk d f n s = Inr t" by auto
    with walk_sound [OF t s] show "\<exists>v. walk d f n s = Inr v \<and> distinct v"
      by (auto simp: walk_post_def)
  qed simp
  then show ?thesis by (auto simp: findAllNodes_def)
qed

section \<open>Finding a cycle\<close>

text \<open>\<open>check\<close> returns the path to a node that closes a cycle, if there is one below \<open>node\<close>, and
  the updated set \<open>not_circular\<close>.\<close>

fun check :: "nat \<Rightarrow> ('n \<Rightarrow> 'n list) \<Rightarrow> 'n \<Rightarrow> 'n list \<Rightarrow> 'n list \<Rightarrow> ('n list option \<times> 'n list) res"
and check_children ::
  "nat \<Rightarrow> ('n \<Rightarrow> 'n list) \<Rightarrow> 'n list \<Rightarrow> 'n list \<Rightarrow> 'n list \<Rightarrow> ('n list option \<times> 'n list) res"
where
  "check 0 children node trail not_circular = Inl RecursionError"
| "check (Suc depth) children node trail not_circular =
     (if node \<in> set not_circular then Inr (None, not_circular)
      else bindR (check_children depth children (children node) (trail @ [node]) not_circular)
        (\<lambda>(res, nc). case res of Some p \<Rightarrow> Inr (Some p, nc)
                              | None \<Rightarrow> Inr (None, nc @ [node])))"
| "check_children depth children [] trail not_circular = Inr (None, not_circular)"
| "check_children depth children (child # rest) trail not_circular =
     (if child \<in> set trail then Inr (Some (trail @ [child]), not_circular)
      else bindR (check depth children child trail not_circular)
        (\<lambda>(res, nc). case res of Some p \<Rightarrow> Inr (Some p, nc)
                              | None \<Rightarrow> check_children depth children rest trail nc))"

fun find_cycle_roots ::
  "nat \<Rightarrow> ('n \<Rightarrow> 'n list) \<Rightarrow> 'n list \<Rightarrow> 'n list \<Rightarrow> 'n list option res" where
  "find_cycle_roots depth children [] not_circular = Inr None"
| "find_cycle_roots depth children (root # roots) not_circular =
     bindR (check depth children root [] not_circular)
       (\<lambda>(res, nc). case res of Some p \<Rightarrow> Inr (Some p)
                             | None \<Rightarrow> find_cycle_roots depth children roots nc)"

definition graphFindCycleMultipleRoots ::
  "nat \<Rightarrow> 'n list \<Rightarrow> ('n \<Rightarrow> 'n list) \<Rightarrow> 'n list option res" where
  "graphFindCycleMultipleRoots depth roots children = find_cycle_roots depth children roots []"

definition graphFindCycle :: "nat \<Rightarrow> 'n \<Rightarrow> ('n \<Rightarrow> 'n list) \<Rightarrow> 'n list option res" where
  "graphFindCycle depth root children = graphFindCycleMultipleRoots depth [root] children"

definition assertGraphHasNoCycles :: "nat \<Rightarrow> 'n \<Rightarrow> ('n \<Rightarrow> 'n list) \<Rightarrow> unit res" where
  "assertGraphHasNoCycles depth root children =
     bindR (graphFindCycle depth root children)
       (\<lambda>res. case res of Some p \<Rightarrow> Inl (UserException ''Circular dependencies'')
                        | None \<Rightarrow> Inr ())"

text \<open>Nodes in \<open>not_circular\<close> have all their successors there and lie on no cycle.\<close>

definition safe_nodes :: "('n \<Rightarrow> 'n list) \<Rightarrow> 'n list \<Rightarrow> bool" where
  "safe_nodes f nc \<longleftrightarrow> closed_under f (set nc) \<and> (\<forall>n\<in>set nc. (n, n) \<notin> (edges f)\<^sup>+)"

fun is_path :: "('n \<Rightarrow> 'n list) \<Rightarrow> 'n list \<Rightarrow> bool" where
  "is_path f (a # b # p) \<longleftrightarrow> b \<in> set (f a) \<and> is_path f (b # p)"
| "is_path f _ \<longleftrightarrow> True"

lemma is_path_snoc:
  "p \<noteq> [] \<Longrightarrow> is_path f (p @ [c]) \<longleftrightarrow> is_path f p \<and> c \<in> set (f (last p))"
  by (induction f p rule: is_path.induct) auto

lemma safe_nodes_add:
  assumes "safe_nodes f nc" "n \<notin> set nc" "set (f n) \<subseteq> set nc"
  shows "safe_nodes f (nc @ [n])"
proof -
  from assms have c: "closed_under f (set nc)" by (simp add: safe_nodes_def)
  have "(n, n) \<notin> (edges f)\<^sup>+"
  proof
    assume "(n, n) \<in> (edges f)\<^sup>+"
    then obtain m where m: "m \<in> set (f n)" "(m, n) \<in> (edges f)\<^sup>*"
      by (meson edges_iff tranclD)
    with closed_reach [OF c _ m(2)] assms show False by auto
  qed
  with assms show ?thesis by (auto simp: safe_nodes_def closed_under_def)
qed

definition cycle_post ::
  "('n \<Rightarrow> 'n list) \<Rightarrow> 'n set \<Rightarrow> 'n list \<Rightarrow> 'n list \<Rightarrow> 'n list option \<times> 'n list \<Rightarrow> bool" where
  "cycle_post f targets trail nc r \<longleftrightarrow>
     (case fst r of
        None \<Rightarrow> safe_nodes f (snd r) \<and> set nc \<union> targets \<subseteq> set (snd r) \<and> set (snd r) \<inter> set trail = {}
      | Some p \<Rightarrow> is_path f p \<and> 2 \<le> length p \<and> last p \<in> set (butlast p) \<and>
                  (\<exists>q. p = trail @ q))"

lemma check_sound:
  "check d f n trail nc = Inr r \<Longrightarrow> safe_nodes f nc \<Longrightarrow> set nc \<inter> set trail = {} \<Longrightarrow>
     n \<notin> set trail \<Longrightarrow> is_path f (trail @ [n]) \<Longrightarrow> cycle_post f {n} trail nc r"
  "check_children d f cs trail nc = Inr r \<Longrightarrow> safe_nodes f nc \<Longrightarrow> set nc \<inter> set trail = {} \<Longrightarrow>
     trail \<noteq> [] \<Longrightarrow> is_path f trail \<Longrightarrow> set cs \<subseteq> set (f (last trail)) \<Longrightarrow>
     cycle_post f (set cs) trail nc r"
proof (induction d f n trail nc and d f cs trail nc arbitrary: r and r
    rule: check_check_children.induct)
  case (1 f n trail nc)
  then show ?case by simp
next
  case (2 d f n trail nc)
  show ?case
  proof (cases "n \<in> set nc")
    case True
    with "2.prems" show ?thesis by (auto simp: cycle_post_def)
  next
    case False
    with "2.prems"(1) obtain r1 where
      r1: "check_children d f (f n) (trail @ [n]) nc = Inr r1" by (auto simp: bindR_Inr_conv)
    have post: "cycle_post f (set (f n)) (trail @ [n]) nc r1"
      using "2.prems" False by (intro "2.IH" [OF False r1]) auto
    show ?thesis
    proof (cases "fst r1")
      case None
      from post None have "safe_nodes f (snd r1)" "set (f n) \<subseteq> set (snd r1)" "n \<notin> set (snd r1)"
        by (auto simp: cycle_post_def)
      from safe_nodes_add [OF this(1,3,2)] "2.prems" False r1 None post show ?thesis
        by (auto simp: cycle_post_def split: prod.splits)
    next
      case (Some p)
      with post "2.prems"(1) False r1 show ?thesis
        by (auto simp: cycle_post_def split: prod.splits)
    qed
  qed
next
  case (3 d f trail nc)
  then show ?case by (auto simp: cycle_post_def)
next
  case (4 d f c cs trail nc)
  show ?case
  proof (cases "c \<in> set trail")
    case True
    have "is_path f (trail @ [c])" using "4.prems" by (simp add: is_path_snoc)
    with True "4.prems" show ?thesis
      by (cases trail) (auto simp: cycle_post_def)
  next
    case False
    with "4.prems"(1) obtain r1 where r1: "check d f c trail nc = Inr r1"
      by (auto simp: bindR_Inr_conv)
    have post: "cycle_post f {c} trail nc r1"
      using "4.prems" False by (intro "4.IH"(1) [OF False r1]) (auto simp: is_path_snoc)
    show ?thesis
    proof (cases "fst r1")
      case None
      then obtain nc1 where p: "r1 = (None, nc1)" by (cases r1) auto
      with "4.prems"(1) False r1 have r: "check_children d f cs trail nc1 = Inr r"
        by simp
      have "cycle_post f (set cs) trail nc1 r"
        using "4.prems" post p by (intro "4.IH"(2) [OF False r1 p [symmetric] refl r])
          (auto simp: cycle_post_def)
      with post p show ?thesis
        by (auto simp: cycle_post_def split: option.splits)
    next
      case (Some p)
      with post "4.prems"(1) False r1 show ?thesis
        by (auto simp: cycle_post_def split: prod.splits)
    qed
  qed
qed

lemma check_enough:
  fixes U :: "'n set"
  shows "finite U \<Longrightarrow> closed_under f U \<Longrightarrow> n \<in> U \<Longrightarrow> n \<notin> set trail \<Longrightarrow>
     card (U - set trail) < d \<Longrightarrow> \<exists>r. check d f n trail nc = Inr r"
  "finite U \<Longrightarrow> closed_under f U \<Longrightarrow> set cs \<subseteq> U \<Longrightarrow>
     card (U - set trail) < d \<Longrightarrow> \<exists>r. check_children d f cs trail nc = Inr r"
proof (induction d f n trail nc and d f cs trail nc rule: check_check_children.induct)
  case (1 f n trail nc)
  then show ?case by simp
next
  case (2 d f n trail nc)
  show ?case
  proof (cases "n \<in> set nc")
    case False
    have "card (U - set (trail @ [n])) < card (U - set trail)"
      using "2.prems" by (intro psubset_card_mono) auto
    with "2.prems" "2.IH" [OF False] False show ?thesis
      by (fastforce simp: closed_under_def split: option.splits)
  qed simp
next
  case (3 d f trail nc)
  then show ?case by simp
next
  case (4 d f c cs trail nc)
  show ?case
  proof (cases "c \<in> set trail")
    case False
    with "4.IH"(1) "4.prems" obtain res nc1 where r1: "check d f c trail nc = Inr (res, nc1)"
      by fastforce
    show ?thesis
    proof (cases res)
      case None
      with "4.IH"(2) [OF False r1 refl] "4.prems" False r1 show ?thesis by simp
    qed (simp add: False r1)
  qed simp
qed

lemma find_cycle_roots_spec:
  "find_cycle_roots d f roots nc = Inr res \<Longrightarrow> safe_nodes f nc \<Longrightarrow>
   (case res of
      None \<Rightarrow> \<exists>nc'. safe_nodes f nc' \<and> set nc \<union> set roots \<subseteq> set nc'
    | Some p \<Rightarrow> is_path f p \<and> 2 \<le> length p \<and> last p \<in> set (butlast p))"
proof (induction roots arbitrary: nc)
  case Nil
  then show ?case by auto
next
  case (Cons root roots)
  then obtain r nc1 where r: "check d f root [] nc = Inr (r, nc1)"
    by (auto simp: bindR_Inr_conv)
  have post: "cycle_post f {root} [] nc (r, nc1)"
    using check_sound(1) [OF r Cons.prems(2)] by simp
  show ?case
  proof (cases r)
    case None
    with post have nc1: "safe_nodes f nc1" "insert root (set nc) \<subseteq> set nc1"
      by (auto simp: cycle_post_def)
    from None r Cons.prems(1) have "find_cycle_roots d f roots nc1 = Inr res" by simp
    from Cons.IH [OF this nc1(1)] nc1(2) show ?thesis
      by (fastforce split: option.splits)
  next
    case (Some p)
    with post r Cons.prems(1) show ?thesis by (auto simp: cycle_post_def)
  qed
qed

lemma find_cycle_roots_enough:
  assumes "finite U" "closed_under f U" "set roots \<subseteq> U" "card U < d"
  shows "\<exists>res. find_cycle_roots d f roots nc = Inr res"
  using assms(3)
proof (induction roots arbitrary: nc)
  case (Cons root roots)
  with check_enough(1) [OF assms(1,2), of root "[]" d nc] assms(4)
  obtain r nc1 where "check d f root [] nc = Inr (r, nc1)" by auto
  with Cons show ?case by (cases r) auto
qed simp

lemma safe_nodes_acyclic:
  assumes "safe_nodes f nc" "a \<in> set nc" "(a, n) \<in> (edges f)\<^sup>*"
  shows "(n, n) \<notin> (edges f)\<^sup>+"
  using assms closed_reach [of f "set nc" a n] by (auto simp: safe_nodes_def)


definition demo_edges :: "nat \<Rightarrow> nat list" where
  "demo_edges n = (if n = 0 then [1, 2] else if n = 1 then [2] else if n = 2 then [3] else [])"


section \<open>Placing nodes in levels\<close>

definition add_reverse :: "'n \<Rightarrow> 'n \<Rightarrow> ('n \<times> 'n set) list \<Rightarrow> ('n \<times> 'n set) list res" where
  "add_reverse node child reverse_edges =
     (case map_of reverse_edges child of
        None \<Rightarrow> Inl KeyError
      | Some s \<Rightarrow> Inr (alist_set child (insert node s) reverse_edges))"

definition all_reverse :: "('n \<Rightarrow> 'n list) \<Rightarrow> 'n list \<Rightarrow> ('n \<times> 'n set) list res" where
  "all_reverse edge_function all_nodes =
     foldR (\<lambda>node. foldR (add_reverse node) (edge_function node)) all_nodes
       (map (\<lambda>c. (c, {})) all_nodes)"

definition remove_edge ::
  "'n \<Rightarrow> 'n \<Rightarrow> 'n list \<times> ('n \<times> 'n set) list \<Rightarrow> ('n list \<times> ('n \<times> 'n set) list) res" where
  "remove_edge n child st =
     (case map_of (snd st) child of
        None \<Rightarrow> Inl KeyError
      | Some s \<Rightarrow>
          if n \<notin> s then Inl KeyError
          else if s - {n} = {} then Inr (fst st @ [child], alist_del child (snd st))
          else Inr (fst st, alist_set child (s - {n}) (snd st)))"

definition process_group ::
  "('n \<Rightarrow> 'n list) \<Rightarrow> 'n list \<Rightarrow> ('n \<times> 'n set) list \<Rightarrow> ('n list \<times> ('n \<times> 'n set) list) res" where
  "process_group edge_function grp reverse_edges =
     foldR (\<lambda>n. foldR (remove_edge n) (edge_function n)) grp ([], reverse_edges)"

lemma length_alist_set: "map_of d k \<noteq> None \<Longrightarrow> length (alist_set k v d) = length d"
  by (induction d) auto

lemma length_alist_del: "map_of d k \<noteq> None \<Longrightarrow> length (alist_del k d) < length d"
  unfolding alist_del_def by (rule length_filter_less [of "(k, the (map_of d k))"])
    (auto dest: map_of_SomeD)

lemma remove_edge_length:
  "remove_edge n c st = Inr st' \<Longrightarrow>
   length (fst st') + length (snd st') \<le> length (fst st) + length (snd st)"
  using length_alist_del [of "snd st" c] length_alist_set [of "snd st" c]
  by (auto simp: remove_edge_def split: option.splits if_splits)

lemma process_group_length:
  assumes "process_group f grp rv = Inr (ready, rev')"
  shows "length ready + length rev' \<le> length rv"
proof -
  let ?P = "\<lambda>st. length (fst st) + length (snd st) \<le> length rv"
  have "?P (ready, rev')"
    using assms unfolding process_group_def
  proof (rule foldR_inv)
    fix n u v
    assume u: "?P u" and run: "foldR (remove_edge n) (f n) u = Inr v"
    show "?P v"
      using run u
    proof (rule foldR_inv)
      fix c u v
      assume "?P u" "remove_edge n c u = Inr v"
      with remove_edge_length [of n c u v] show "?P v" by simp
    qed
  qed simp
  then show ?thesis by simp
qed

function level_loop :: "('n \<Rightarrow> 'n list) \<Rightarrow> 'n list \<Rightarrow> ('n \<times> 'n set) list \<Rightarrow> 'n list list res" where
  "level_loop edge_function ready reverse_edges =
     (case process_group edge_function ready reverse_edges of
        Inl e \<Rightarrow> Inl e
      | Inr (ready', rev') \<Rightarrow>
          if ready' = [] then
            (if rev' \<noteq> [] then Inl (UserException ''Cycle found in graph'') else Inr [ready])
          else bindR (level_loop edge_function ready' rev') (\<lambda>groups. Inr (ready # groups)))"
  by pat_completeness auto
termination
proof (relation "measure (\<lambda>(_, _, rv). length rv)")
  fix f :: "'n \<Rightarrow> 'n list" and ready rv p ready' rev'
  assume "process_group f ready rv = Inr p" "(ready', rev') = p" "ready' \<noteq> []"
  with process_group_length [of f ready rv ready' rev']
  show "((f, ready', rev'), (f, ready, rv)) \<in> measure (\<lambda>(_, _, rv). length rv)"
    by (cases ready') auto
qed simp

declare level_loop.simps [simp del]

definition placeNodesInLevels :: "nat \<Rightarrow> 'n list \<Rightarrow> ('n \<Rightarrow> 'n list) \<Rightarrow> 'n list list res" where
  "placeNodesInLevels depth nodes edge_function =
     bindR (findAllNodes depth edge_function nodes) (\<lambda>all_nodes.
     bindR (all_reverse edge_function all_nodes) (\<lambda>reverse_edges.
       let ready = filter (\<lambda>n. map_of reverse_edges n = Some {}) all_nodes
       in level_loop edge_function ready (fold alist_del ready reverse_edges)))"

subsection \<open>Correctness of the levels\<close>

text \<open>\<open>pending f N P c\<close>: the nodes of \<open>N\<close> with an edge to \<open>c\<close> that is not among the processed edges
  \<open>P\<close>. \<open>reverse_edges\<close> holds exactly the non-empty ones.\<close>

definition pending :: "('n \<Rightarrow> 'n list) \<Rightarrow> 'n set \<Rightarrow> ('n \<times> 'n) set \<Rightarrow> 'n \<Rightarrow> 'n set" where
  "pending f N P c = {n \<in> N. c \<in> set (f n) \<and> (n, c) \<notin> P}"

definition describes ::
  "('n \<Rightarrow> 'n list) \<Rightarrow> 'n set \<Rightarrow> ('n \<times> 'n) set \<Rightarrow> ('n \<times> 'n set) list \<Rightarrow> bool" where
  "describes f N P rv \<longleftrightarrow>
     (\<forall>c. map_of rv c = (if pending f N P c = {} then None else Some (pending f N P c)))"

lemma pending_insert:
  "pending f N (insert (n, c) P) c' = (if c' = c then pending f N P c - {n} else pending f N P c')"
  by (auto simp: pending_def)

lemma remove_edge_step:
  assumes "describes f N P rv" "n \<in> N" "c \<in> set (f n)" "(n, c) \<notin> P"
  shows "\<exists>rev'. remove_edge n c (ready, rv) =
      Inr (ready @ (if pending f N P c = {n} then [c] else []), rev') \<and>
    describes f N (insert (n, c) P) rev'"
proof -
  have n: "n \<in> pending f N P c" using assms by (auto simp: pending_def)
  then have "pending f N P c - {n} = {} \<longleftrightarrow> pending f N P c = {n}" by auto
  with assms(1) n show ?thesis
    by (auto simp: remove_edge_def describes_def pending_insert)
qed

lemma remove_edges:
  assumes "describes f N P rv" "distinct ps" "set ps \<inter> P = {}"
    "\<forall>(n, c)\<in>set ps. n \<in> N \<and> c \<in> set (f n)"
  shows "\<exists>new rev'. foldR (\<lambda>(n, c). remove_edge n c) ps (ready, rv) = Inr (ready @ new, rev') \<and>
    describes f N (P \<union> set ps) rev' \<and> distinct new \<and>
    set new = {c. pending f N P c \<noteq> {} \<and> pending f N (P \<union> set ps) c = {}}"
  using assms
proof (induction ps arbitrary: P rv ready)
  case Nil
  then show ?case by auto
next
  case (Cons p ps)
  obtain n c where p: "p = (n, c)" by (cases p)
  from Cons.prems p have nc: "n \<in> N" "c \<in> set (f n)" "(n, c) \<notin> P" by auto
  let ?first = "if pending f N P c = {n} then [c] else []"
  let ?P = "insert (n, c) P"
  from remove_edge_step [OF Cons.prems(1) nc, of ready] obtain rev1 where
    r1: "remove_edge n c (ready, rv) = Inr (ready @ ?first, rev1)" "describes f N ?P rev1"
    by blast
  from Cons.IH [OF r1(2), of "ready @ ?first"] Cons.prems p obtain new rev' where
    r2: "foldR (\<lambda>(n, c). remove_edge n c) ps (ready @ ?first, rev1) = Inr ((ready @ ?first) @ new, rev')"
      "describes f N (?P \<union> set ps) rev'" "distinct new"
      "set new = {c. pending f N ?P c \<noteq> {} \<and> pending f N (?P \<union> set ps) c = {}}"
    by auto
  have U: "P \<union> set (p # ps) = ?P \<union> set ps" using p by auto
  have mono: "pending f N (?P \<union> set ps) c' \<subseteq> pending f N ?P c'" for c'
    by (auto simp: pending_def)
  have ne: "pending f N P c \<noteq> {}" using nc by (auto simp: pending_def)
  have other: "pending f N ?P c' = pending f N P c'" if "c' \<noteq> c" for c'
    using that by (simp add: pending_insert)
  have same: "pending f N ?P c = pending f N P c - {n}" by (simp add: pending_insert)
  have "c' \<in> set (?first @ new) \<longleftrightarrow>
      pending f N P c' \<noteq> {} \<and> pending f N (?P \<union> set ps) c' = {}" for c'
  proof (cases "c' = c")
    case True
    have "n \<in> pending f N P c" using nc by (auto simp: pending_def)
    with True ne same mono [of c] r2(4) show ?thesis by auto
  next
    case False
    with other [of c'] r2(4) show ?thesis by simp
  qed
  then have "set (?first @ new) =
      {c. pending f N P c \<noteq> {} \<and> pending f N (?P \<union> set ps) c = {}}" by blast
  moreover have "distinct (?first @ new)"
    using r2(3,4) by (auto simp: pending_insert)
  ultimately show ?case
    using r1(1) r2(1,2) U p by (intro exI [of _ "?first @ new"] exI [of _ rev']) simp
qed

lemma foldR_nested:
  "foldR (\<lambda>n. foldR (g n) (f n)) ns s =
   foldR (\<lambda>(n, c). g n c) (concat (map (\<lambda>n. map (Pair n) (f n)) ns)) s"
proof (induction ns arbitrary: s)
  case (Cons n ns)
  have "foldR (\<lambda>(n, c). g n c) (map (Pair n) cs) s = foldR (g n) cs s" for cs s
  proof (induction cs arbitrary: s)
    case (Cons c cs)
    then show ?case by (cases "g n c s") auto
  qed simp
  with Cons.IH show ?case
    by (cases "foldR (g n) (f n) s") (simp_all add: foldR_append)
qed simp

definition out_edges :: "('n \<Rightarrow> 'n list) \<Rightarrow> 'n set \<Rightarrow> ('n \<times> 'n) set" where
  "out_edges f D = {(n, c). n \<in> D \<and> c \<in> set (f n)}"

lemma out_edges_Un: "out_edges f (D \<union> F) = out_edges f D \<union> out_edges f F"
  by (auto simp: out_edges_def)

lemma process_group_spec:
  assumes "describes f N (out_edges f D) rv" "distinct F" "set F \<subseteq> N" "set F \<inter> D = {}"
    "\<forall>n\<in>N. distinct (f n)"
  shows "\<exists>new rev'. process_group f F rv = Inr (new, rev') \<and>
    describes f N (out_edges f (D \<union> set F)) rev' \<and> distinct new \<and>
    set new = {c. pending f N (out_edges f D) c \<noteq> {} \<and>
                  pending f N (out_edges f (D \<union> set F)) c = {}}"
proof -
  let ?ps = "concat (map (\<lambda>n. map (Pair n) (f n)) F)"
  have set: "set ?ps = out_edges f (set F)" by (auto simp: out_edges_def)
  have "distinct F \<Longrightarrow> set F \<subseteq> N \<Longrightarrow> distinct (concat (map (\<lambda>n. map (Pair n) (f n)) F))" for F
    by (induction F) (use assms(5) in \<open>auto simp: distinct_map inj_on_def\<close>)
  then have "distinct ?ps" using assms(2,3) by blast
  moreover have "set ?ps \<inter> out_edges f D = {}" "\<forall>(n, c)\<in>set ?ps. n \<in> N \<and> c \<in> set (f n)"
    using assms(3,4) by (auto simp: out_edges_def)
  ultimately show ?thesis
    using remove_edges [OF assms(1), of ?ps "[]"]
    unfolding process_group_def foldR_nested out_edges_Un set by simp
qed

text \<open>A levelling: every edge goes to a strictly later group.\<close>

definition is_levelling :: "('n \<Rightarrow> 'n list) \<Rightarrow> 'n set \<Rightarrow> 'n list list \<Rightarrow> bool" where
  "is_levelling f N gs \<longleftrightarrow> distinct (concat gs) \<and> set (concat gs) = N \<and>
     (\<forall>i<length gs. \<forall>n\<in>set (gs ! i). \<forall>c\<in>set (f n).
        \<exists>j. i < j \<and> j < length gs \<and> c \<in> set (gs ! j))"

lemma is_levelling_Cons:
  assumes "is_levelling f (N - set g) gs" "distinct g" "set g \<subseteq> N"
    "\<forall>n\<in>set g. set (f n) \<subseteq> N - set g"
  shows "is_levelling f N (g # gs)"
  unfolding is_levelling_def
proof (intro conjI allI impI ballI)
  show "distinct (concat (g # gs))" "set (concat (g # gs)) = N"
    using assms by (auto simp: is_levelling_def)
  fix i n c
  assume i: "i < length (g # gs)" and n: "n \<in> set ((g # gs) ! i)" and c: "c \<in> set (f n)"
  show "\<exists>j>i. j < length (g # gs) \<and> c \<in> set ((g # gs) ! j)"
  proof (cases i)
    case 0
    with n c assms(4) have "c \<in> set (concat gs)" using assms(1) by (auto simp: is_levelling_def)
    then obtain g' where "g' \<in> set gs" "c \<in> set g'" by auto
    then obtain j where "j < length gs" "c \<in> set (gs ! j)" by (metis in_set_conv_nth)
    with 0 show ?thesis by (intro exI [of _ "Suc j"]) simp
  next
    case (Suc k)
    with i n c assms(1) have "\<exists>j>k. j < length gs \<and> c \<in> set (gs ! j)"
      unfolding is_levelling_def by simp
    then obtain j where "k < j" "j < length gs" "c \<in> set (gs ! j)" by blast
    with Suc show ?thesis by (intro exI [of _ "Suc j"]) simp
  qed
qed

text \<open>A set in which every node has a predecessor contains a cycle, if it is finite.\<close>

lemma predecessors_cycle:
  assumes "finite R" "R \<noteq> {}" "\<forall>c\<in>R. \<exists>n\<in>R. (n, c) \<in> E"
  shows "\<exists>n\<in>R. (n, n) \<in> E\<^sup>+"
proof (rule ccontr)
  assume no: "\<not> ?thesis"
  let ?E = "E \<inter> R \<times> R"
  have "acyclic ?E"
  proof (rule acyclicI, intro allI notI)
    fix x assume x: "(x, x) \<in> ?E\<^sup>+"
    then have "x \<in> R" by (induction rule: trancl_induct) auto
    moreover have "(x, x) \<in> E\<^sup>+" using x by (rule trancl_mono) auto
    ultimately show False using no by blast
  qed
  moreover have "finite ?E" using assms(1) by auto
  ultimately have "wf ?E" by (intro finite_acyclic_wf)
  from assms(2) obtain r where "r \<in> R" by blast
  have "\<exists>z\<in>R. \<forall>y. (y, z) \<in> ?E \<longrightarrow> y \<notin> R"
    using \<open>wf ?E\<close> \<open>r \<in> R\<close> unfolding wf_eq_minimal by meson
  then obtain z where z: "z \<in> R" "\<forall>y. (y, z) \<in> ?E \<longrightarrow> y \<notin> R" by blast
  from bspec [OF assms(3) z(1)] obtain n where "n \<in> R" "(n, z) \<in> E" by (elim bexE)
  then have "(n, z) \<in> ?E" using z(1) by simp
  with z(2) \<open>n \<in> R\<close> show False by metis
qed

definition level_state ::
  "('n \<Rightarrow> 'n list) \<Rightarrow> 'n set \<Rightarrow> 'n set \<Rightarrow> 'n list \<Rightarrow> ('n \<times> 'n set) list \<Rightarrow> bool" where
  "level_state f N D F rv \<longleftrightarrow>
     describes f N (out_edges f D) rv \<and> distinct F \<and> D \<subseteq> N \<and> set F \<inter> D = {} \<and>
     D \<union> set F = {c \<in> N. pending f N (out_edges f D) c = {}}"

lemma level_loop_spec:
  "finite N \<Longrightarrow> closed_under f N \<Longrightarrow> \<forall>n\<in>N. distinct (f n) \<Longrightarrow> level_state f N D F rv \<Longrightarrow>
    (\<exists>gs. level_loop f F rv = Inr gs \<and> is_levelling f (N - D) gs) \<or>
    (level_loop f F rv = Inl (UserException ''Cycle found in graph'') \<and>
     (\<exists>n\<in>N. (n, n) \<in> (edges f)\<^sup>+))"
proof (induction f F rv arbitrary: D rule: level_loop.induct)
  case (1 f F rv)
  note assms = "1.prems"(1-3) and st = "1.prems"(4)
  let ?P = "out_edges f D" and ?D = "D \<union> set F"
  let ?P' = "out_edges f ?D"
  have F: "set F \<subseteq> N" "set F \<inter> D = {}" "distinct F" and D: "D \<subseteq> N"
    and DF: "D \<union> set F = {c \<in> N. pending f N ?P c = {}}"
    using st by (auto simp: level_state_def)
  have "describes f N ?P rv" using st by (simp add: level_state_def)
  from process_group_spec [OF this F(3,1,2) assms(3)] obtain new rv' where
    pg: "process_group f F rv = Inr (new, rv')" "describes f N ?P' rv'" "distinct new"
      "set new = {c. pending f N ?P c \<noteq> {} \<and> pending f N ?P' c = {}}"
    by blast
  have mono: "pending f N ?P' c \<subseteq> pending f N ?P c" for c
    by (auto simp: pending_def out_edges_def)
  have in_N: "pending f N ?P c \<noteq> {} \<Longrightarrow> c \<in> N" for c
    using assms(2) by (auto simp: pending_def closed_under_def)
  have DFi: "c \<in> ?D \<longleftrightarrow> c \<in> N \<and> pending f N ?P c = {}" for c
    by (simp only: DF mem_Collect_eq)
  have newi: "c \<in> set new \<longleftrightarrow> pending f N ?P c \<noteq> {} \<and> pending f N ?P' c = {}" for c
    unfolding pg(4) by simp
  have "c \<in> ?D \<union> set new \<longleftrightarrow> c \<in> N \<and> pending f N ?P' c = {}" for c
    unfolding Un_iff [of c ?D] DFi newi using mono [of c] in_N [of c] by blast
  then have new1: "?D \<union> set new = {c \<in> N. pending f N ?P' c = {}}" by blast
  have new2: "set new \<inter> ?D = {}" using DFi newi by (metis (no_types, lifting) disjoint_iff)
  note new = new1 new2
  have out: "\<forall>n\<in>set F. set (f n) \<subseteq> (N - D) - set F"
  proof (intro ballI subsetI)
    fix n c assume n: "n \<in> set F" and c: "c \<in> set (f n)"
    then have "c \<in> N" using F(1) assms(2) by (auto simp: closed_under_def)
    moreover have "n \<in> pending f N ?P c" using n c F by (auto simp: pending_def out_edges_def)
    ultimately show "c \<in> (N - D) - set F" using DF by auto
  qed
  show ?case
  proof (cases "new = []")
    case True
    show ?thesis
    proof (cases "rv' = []")
      case nil: True
      have "N \<subseteq> ?D"
      proof
        fix c assume "c \<in> N"
        moreover have "pending f N ?P' c = {}" using pg(2) nil by (auto simp: describes_def split: if_splits)
        ultimately show "c \<in> ?D" using new(1) True by auto
      qed
      then have "is_levelling f ((N - D) - set F) []" by (auto simp: is_levelling_def)
      from is_levelling_Cons [OF this F(3) _ out] F pg(1) True nil show ?thesis
        by (auto simp: level_loop.simps [of f F rv])
    next
      case False
      then obtain c s where "map_of rv' c = Some s"
        by (metis list.exhaust map_of_eq_empty_iff not_None_eq ext)
      then have "pending f N ?P' c \<noteq> {}" using pg(2) by (auto simp: describes_def split: if_splits)
      moreover from this mono have "c \<in> N" using in_N by blast
      ultimately have ne: "N - ?D \<noteq> {}" using new(1) by auto
      have pred: "\<forall>c\<in>N - ?D. \<exists>n\<in>N - ?D. (n, c) \<in> edges f"
      proof
        fix c assume c: "c \<in> N - ?D"
        with new(1) True have "pending f N ?P' c \<noteq> {}" by auto
        then show "\<exists>n\<in>N - ?D. (n, c) \<in> edges f" by (auto simp: pending_def out_edges_def)
      qed
      from predecessors_cycle [OF _ ne pred] assms(1) pg(1) True False show ?thesis
        by (auto simp: level_loop.simps [of f F rv])
    qed
  next
    case False
    have "level_state f N ?D new rv'"
      using pg(2,3) F D new by (auto simp: level_state_def)
    from "1.IH" [OF pg(1) refl False assms this] show ?thesis
    proof (elim disjE exE conjE)
      fix gs assume gs: "level_loop f new rv' = Inr gs" "is_levelling f (N - ?D) gs"
      have "is_levelling f ((N - D) - set F) gs" using gs(2) by (simp add: Diff_eq Int_assoc)
      from is_levelling_Cons [OF this F(3) _ out] F pg(1) gs(1) False show ?thesis
        by (auto simp: level_loop.simps [of f F rv])
    next
      assume "level_loop f new rv' = Inl (UserException ''Cycle found in graph'')"
        "\<exists>n\<in>N. (n, n) \<in> (edges f)\<^sup>+"
      with pg(1) False show ?thesis by (auto simp: level_loop.simps [of f F rv])
    qed
  qed
qed

text \<open>The reverse edges the loop starts from.\<close>

definition reverse_ok :: "'n list \<Rightarrow> ('n \<times> 'n) set \<Rightarrow> ('n \<times> 'n set) list \<Rightarrow> bool" where
  "reverse_ok all Q rv \<longleftrightarrow>
     (\<forall>c. map_of rv c = (if c \<in> set all then Some {n. (n, c) \<in> Q} else None))"

lemma add_reverse_edges:
  "reverse_ok all Q rv \<Longrightarrow> set cs \<subseteq> set all \<Longrightarrow>
   \<exists>rv'. foldR (add_reverse n) cs rv = Inr rv' \<and> reverse_ok all (Q \<union> {n} \<times> set cs) rv'"
proof (induction cs arbitrary: rv Q)
  case (Cons c cs)
  from Cons.prems have a: "add_reverse n c rv = Inr (alist_set c (insert n {m. (m, c) \<in> Q}) rv)"
    by (simp add: add_reverse_def reverse_ok_def)
  have "reverse_ok all (insert (n, c) Q) (alist_set c (insert n {m. (m, c) \<in> Q}) rv)"
    using Cons.prems by (auto simp: reverse_ok_def)
  from Cons.IH [OF this] Cons.prems(2) a show ?case by auto
qed simp

lemma add_reverse_nodes:
  "closed_under f (set all) \<Longrightarrow> reverse_ok all Q rv \<Longrightarrow> set ns \<subseteq> set all \<Longrightarrow>
   \<exists>rv'. foldR (\<lambda>n. foldR (add_reverse n) (f n)) ns rv = Inr rv' \<and>
     reverse_ok all (Q \<union> out_edges f (set ns)) rv'"
proof (induction ns arbitrary: rv Q)
  case Nil
  then show ?case by (simp add: out_edges_def)
next
  case (Cons n ns)
  then have "set (f n) \<subseteq> set all" by (auto simp: closed_under_def)
  from add_reverse_edges [OF Cons.prems(2) this, of n] obtain rv1 where
    rv1: "foldR (add_reverse n) (f n) rv = Inr rv1" "reverse_ok all (Q \<union> {n} \<times> set (f n)) rv1"
    by blast
  have "Q \<union> {n} \<times> set (f n) \<union> out_edges f (set ns) = Q \<union> out_edges f (set (n # ns))"
    by (auto simp: out_edges_def)
  with Cons.IH [OF Cons.prems(1) rv1(2)] Cons.prems(3) rv1(1) show ?case by simp
qed

lemma all_reverse_spec:
  assumes "closed_under f (set all)"
  shows "\<exists>rv. all_reverse f all = Inr rv \<and>
    (\<forall>c. map_of rv c = (if c \<in> set all then Some (pending f (set all) {} c) else None))"
proof -
  have "reverse_ok all {} (map (\<lambda>c. (c, {})) all)"
    by (auto simp: reverse_ok_def map_of_map_restrict restrict_map_def)
  from add_reverse_nodes [OF assms this order_refl] show ?thesis
    by (auto simp: all_reverse_def out_edges_def pending_def reverse_ok_def)
qed

lemma map_of_fold_alist_del:
  "map_of (fold alist_del ks d) k = (if k \<in> set ks then None else map_of d k)"
  by (induction ks arbitrary: d) auto

text \<open>A graph that can be levelled has no cycle: the group number grows along every path.\<close>

lemma levelling_acyclic:
  assumes "is_levelling f N gs" "closed_under f N" "n \<in> N"
  shows "(n, n) \<notin> (edges f)\<^sup>+"
proof
  have uniq: "i = j" if "i < length gs" "j < length gs" "x \<in> set (gs ! i)" "x \<in> set (gs ! j)" for i j x
  proof (rule ccontr)
    assume "i \<noteq> j"
    have "distinct (concat gs)" using assms(1) by (simp add: is_levelling_def)
    then show False
      using that \<open>i \<noteq> j\<close>
    proof (induction gs arbitrary: i j)
      case (Cons g gs)
      show ?case
      proof (cases i; cases j)
        fix i' j' assume "i = Suc i'" "j = Suc j'"
        with Cons show False by (auto dest: Cons.IH)
      qed (use Cons.prems in \<open>fastforce dest: nth_mem\<close>)+
    qed simp
  qed
  have step: "\<exists>i j. i < j \<and> j < length gs \<and> x \<in> set (gs ! i) \<and> y \<in> set (gs ! j)"
    if "(x, y) \<in> (edges f)\<^sup>+" "x \<in> N" for x y
    using that(1)
  proof (induction rule: trancl_induct)
    case (base y)
    from that(2) assms(1) obtain g where "g \<in> set gs" "x \<in> set g"
      by (auto simp: is_levelling_def)
    then obtain i where "i < length gs" "x \<in> set (gs ! i)" by (metis in_set_conv_nth)
    with base assms(1) show ?case by (auto simp: is_levelling_def) blast
  next
    case (step y z)
    then obtain i j where ij: "i < j" "j < length gs" "x \<in> set (gs ! i)" "y \<in> set (gs ! j)"
      by blast
    with step(2) assms(1) obtain k where "j < k" "k < length gs" "z \<in> set (gs ! k)"
      unfolding is_levelling_def by (metis edges_iff)
    with ij show ?case by (meson less_trans)
  qed
  assume "(n, n) \<in> (edges f)\<^sup>+"
  from step [OF this assms(3)] obtain i j where
    "i < j" "j < length gs" "n \<in> set (gs ! i)" "n \<in> set (gs ! j)" by blast
  with uniq [of i j n] show False by simp
qed

text \<open>C12: Levelling is correct. Over a finite graph without parallel edges and with a recursion
  depth above the number of nodes, \<open>placeNodesInLevels\<close> raises exactly when the graph below the
  given nodes has a cycle; otherwise the groups list every reachable node once and every edge goes
  from its group to a strictly later one.\<close>

theorem levels_correct:
  assumes "finite U" "closed_under f U" "set nodes \<subseteq> U" "card U < depth"
    and "\<forall>n\<in>U. distinct (f n)"
  defines "N \<equiv> (edges f)\<^sup>* `` set nodes"
  shows "(\<exists>n\<in>N. (n, n) \<in> (edges f)\<^sup>+) \<and>
      placeNodesInLevels depth nodes f = Inl (UserException ''Cycle found in graph'') \<or>
    \<not> (\<exists>n\<in>N. (n, n) \<in> (edges f)\<^sup>+) \<and>
      (\<exists>gs. placeNodesInLevels depth nodes f = Inr gs \<and> is_levelling f N gs)"
proof -
  have cl: "closed_under f N" unfolding N_def by (rule closed_reach_from)
  have NU: "N \<subseteq> U" unfolding N_def using assms(2,3) closed_reach by fastforce
  then have fin: "finite N" and dist: "\<forall>n\<in>N. distinct (f n)"
    using assms(1,5) by (auto intro: finite_subset)
  from findAllNodes_enough [OF assms(1-4)] obtain all where
    all: "findAllNodes depth f nodes = Inr all" by blast
  from findAllNodes_result [OF all] have a: "distinct all" "set all = N" by (auto simp: N_def)
  from all_reverse_spec [of f all] a cl obtain rv where
    rv: "all_reverse f all = Inr rv"
      "\<forall>c. map_of rv c = (if c \<in> N then Some (pending f N {} c) else None)" by auto
  let ?ready = "filter (\<lambda>n. map_of rv n = Some {}) all"
  let ?rv = "fold alist_del ?ready rv"
  have "pending f N {} c \<noteq> {} \<Longrightarrow> c \<in> N" for c
    using cl by (auto simp: pending_def closed_under_def)
  then have "describes f N (out_edges f {}) ?rv"
    using rv(2) a by (auto simp: describes_def map_of_fold_alist_del out_edges_def)
  then have "level_state f N {} ?ready ?rv"
    using rv(2) a by (auto simp: level_state_def out_edges_def)
  from level_loop_spec [OF fin cl dist this]
  have run: "(\<exists>gs. placeNodesInLevels depth nodes f = Inr gs \<and> is_levelling f N gs) \<or>
    (placeNodesInLevels depth nodes f = Inl (UserException ''Cycle found in graph'') \<and>
     (\<exists>n\<in>N. (n, n) \<in> (edges f)\<^sup>+))"
    by (simp add: placeNodesInLevels_def all rv(1) Let_def)
  then show ?thesis using levelling_acyclic [OF _ cl] by blast
qed

definition diamond :: "nat \<Rightarrow> nat list" where
  "diamond n = (if n = 0 then [1, 2] else if n = 1 then [3] else if n = 2 then [3] else [])"

theorem levels_correct_witness:
  "\<exists>gs. placeNodesInLevels 5 [0] diamond = Inr gs \<and>
     is_levelling diamond ((edges diamond)\<^sup>* `` set [0]) gs \<and> gs = [[0], [1, 2], [3]]"
proof -
  have 1: "placeNodesInLevels 5 [0] diamond = Inr [[0], [1, 2], [3]]"
    by (simp add: placeNodesInLevels_def findAllNodes_def diamond_def all_reverse_def
        add_reverse_def level_loop.simps process_group_def remove_edge_def alist_del_def
        eval_nat_numeral insert_Diff_if)
  have "closed_under diamond {0, 1, 2, 3}" by (auto simp: closed_under_def diamond_def)
  from levels_correct [OF _ this, of "[0]" 5] 1 show ?thesis
    by (simp add: diamond_def)
qed

end
