(* ===== verification/Py_String.thy ===== *)
theory Py_String
  imports Prelude
begin

text \<open>
  The string methods of Python's standard library that the source uses: \<open>str.replace\<close>,
  \<open>str.split\<close>, \<open>str.join\<close>, \<open>str.startswith\<close>, \<open>str.endswith\<close>, \<open>str.lstrip\<close> and \<open>str.strip\<close>
  on byte strings.
\<close>

definition starts_with :: "string \<Rightarrow> string \<Rightarrow> bool" where
  "starts_with p s \<longleftrightarrow> take (length p) s = p"

definition ends_with :: "string \<Rightarrow> string \<Rightarrow> bool" where
  "ends_with p s \<longleftrightarrow> starts_with (rev p) (rev s)"

lemma starts_with_append [simp]: "starts_with p (p @ s)"
  by (simp add: starts_with_def)

lemma starts_withD: "starts_with p s \<Longrightarrow> s = p @ drop (length p) s"
  unfolding starts_with_def by (metis append_take_drop_id)

lemma starts_with_iff: "starts_with p s \<longleftrightarrow> (\<exists>r. s = p @ r)"
  by (metis starts_withD starts_with_append)

section \<open>replace\<close>

text \<open>\<open>text.replace(old, new)\<close> for a non-empty \<open>old\<close>: the occurrences are found from the left and do
  not overlap.\<close>

function py_replace :: "string \<Rightarrow> string \<Rightarrow> string \<Rightarrow> string" where
  "py_replace old new [] = []"
| "py_replace old new (c # cs) =
     (if old \<noteq> [] \<and> starts_with old (c # cs)
      then new @ py_replace old new (drop (length old - 1) cs)
      else c # py_replace old new cs)"
  by pat_completeness auto
termination
  by (relation "measure (\<lambda>(_, _, s). length s)") auto

lemma py_replace_match:
  "old \<noteq> [] \<Longrightarrow> py_replace old new (old @ s) = new @ py_replace old new s"
  by (cases old) (auto simp: starts_with_def)

text \<open>Where no occurrence can straddle the boundary of two parts, they are replaced separately.\<close>

definition no_straddle :: "string \<Rightarrow> string \<Rightarrow> string \<Rightarrow> bool" where
  "no_straddle old x y \<longleftrightarrow>
     (\<forall>u s. x @ y = u @ old @ s \<longrightarrow> length u < length x \<longrightarrow> length u + length old \<le> length x)"

lemma no_straddle_drop:
  assumes "no_straddle old x y"
  shows "no_straddle old (drop n x) y"
  unfolding no_straddle_def
proof (intro allI impI)
  fix u s
  assume e: "drop n x @ y = u @ old @ s" and l: "length u < length (drop n x)"
  have "x @ y = (take n x @ u) @ old @ s"
    using e by (metis append.assoc append_take_drop_id)
  moreover have "length (take n x @ u) < length x" using l by simp
  ultimately have "length (take n x @ u) + length old \<le> length x"
    using assms unfolding no_straddle_def by blast
  then show "length u + length old \<le> length (drop n x)" using l by simp
qed

lemma py_replace_append:
  "old \<noteq> [] \<Longrightarrow> no_straddle old x y \<Longrightarrow>
   py_replace old new (x @ y) = py_replace old new x @ py_replace old new y"
proof (induction "length x" arbitrary: x rule: less_induct)
  case less
  show ?case
  proof (cases x)
    case (Cons c cs)
    show ?thesis
    proof (cases "starts_with old (x @ y)")
      case True
      then obtain s where s: "x @ y = old @ s" by (auto simp: starts_with_iff)
      with less.prems(2) Cons have "length old \<le> length x"
        unfolding no_straddle_def by (metis append_Nil length_greater_0_conv list.distinct(1)
            add_0 list.size(3))
      with s obtain r where r: "x = old @ r"
        by (metis append_eq_append_conv_if append_take_drop_id)
      have "py_replace old new (r @ y) = py_replace old new r @ py_replace old new y"
        using less.hyps [of r] less.prems no_straddle_drop [OF less.prems(2), of "length old"] r
        by simp
      with r less.prems(1) show ?thesis by (simp add: py_replace_match)
    next
      case False
      then have "\<not> starts_with old x"
        by (metis append.assoc starts_with_iff)
      moreover have "py_replace old new (cs @ y) = py_replace old new cs @ py_replace old new y"
        using less.hyps [of cs] less.prems no_straddle_drop [OF less.prems(2), of 1] Cons by simp
      ultimately show ?thesis using False Cons by simp
    qed
  qed simp
qed

text \<open>Two cases without a straddling occurrence.\<close>

lemma no_straddle_hd:
  assumes "y = [] \<or> hd y \<notin> set (tl old)"
  shows "no_straddle old x y"
  unfolding no_straddle_def
proof (intro allI impI, rule ccontr)
  fix u s
  assume e: "x @ y = u @ old @ s" and l: "length u < length x"
    and n: "\<not> length u + length old \<le> length x"
  have "length (x @ y) \<ge> length u + length old" using e by simp
  with n have y: "y \<noteq> []" by auto
  have "hd y = (x @ y) ! length x" using y by (simp add: hd_conv_nth nth_append)
  also have "\<dots> = old ! (length x - length u)"
  proof -
    have lt: "length x - length u < length old" using l n by linarith
    have "(u @ old @ s) ! length x = old ! (length x - length u)"
      using l lt by (simp add: nth_append)
    with e show ?thesis by simp
  qed
  also have "\<dots> = tl old ! (length x - length u - 1)"
    using l n by (simp add: nth_tl Suc_diff_Suc)
  also have "\<dots> \<in> set (tl old)" using l n by (intro nth_mem) auto
  finally show False using assms y by simp
qed

lemma no_straddle_last:
  assumes "x \<noteq> [] \<Longrightarrow> last x \<notin> set (butlast old)"
  shows "no_straddle old x y"
  unfolding no_straddle_def
proof (intro allI impI, rule ccontr)
  fix u s
  assume e: "x @ y = u @ old @ s" and l: "length u < length x"
    and n: "\<not> length u + length old \<le> length x"
  let ?i = "length x - 1 - length u"
  have "x \<noteq> []" using l by auto
  then have "last x = (x @ y) ! (length x - 1)" by (simp add: last_conv_nth nth_append)
  also have "\<dots> = old ! ?i"
  proof -
    have i: "\<not> length x - 1 < length u" "?i < length old" using l n by linarith+
    then have "(u @ old @ s) ! (length x - 1) = old ! ?i" by (simp add: nth_append)
    with e show ?thesis by simp
  qed
  also have "\<dots> = butlast old ! ?i" using l n by (simp add: nth_butlast)
  also have "\<dots> \<in> set (butlast old)" using l n by (intro nth_mem) auto
  finally show False using assms \<open>x \<noteq> []\<close> by blast
qed

section \<open>split and join\<close>

text \<open>\<open>s.split(sep)\<close> for a one-character separator: one more part than there are separators.\<close>

fun py_split :: "char \<Rightarrow> string \<Rightarrow> string list" where
  "py_split sep [] = [[]]"
| "py_split sep (c # cs) =
     (if c = sep then [] # py_split sep cs
      else case py_split sep cs of [] \<Rightarrow> [[c]] | p # ps \<Rightarrow> (c # p) # ps)"

fun py_join :: "string \<Rightarrow> string list \<Rightarrow> string" where
  "py_join sep [] = []"
| "py_join sep [p] = p"
| "py_join sep (p # ps) = p @ sep @ py_join sep ps"

lemma py_split_nonempty [simp]: "py_split sep s \<noteq> []"
  by (cases s) (auto split: list.splits)

lemma py_join_Cons: "ps \<noteq> [] \<Longrightarrow> py_join sep (p # ps) = p @ sep @ py_join sep ps"
  by (cases ps) auto

lemma py_join_split [simp]: "py_join [sep] (py_split sep s) = s"
proof (induction s)
  case (Cons c s)
  show ?case
  proof (cases "c = sep")
    case True
    with Cons show ?thesis by (simp add: py_join_Cons)
  next
    case False
    obtain p ps where p: "py_split sep s = p # ps" by (cases "py_split sep s") auto
    with Cons False show ?thesis by (cases ps) auto
  qed
qed simp

lemma py_split_no_sep: "p \<in> set (py_split sep s) \<Longrightarrow> sep \<notin> set p"
  by (induction s arbitrary: p) (auto split: list.splits if_splits)

lemma py_split_atom: "sep \<notin> set p \<Longrightarrow> py_split sep p = [p]"
  by (induction p) auto

lemma py_split_append: "sep \<notin> set p \<Longrightarrow> py_split sep (p @ sep # s) = p # py_split sep s"
  by (induction p) auto

lemma py_split_join:
  "ps \<noteq> [] \<Longrightarrow> \<forall>p\<in>set ps. sep \<notin> set p \<Longrightarrow> py_split sep (py_join [sep] ps) = ps"
proof (induction "[sep]" ps rule: py_join.induct)
  case (3 p q ps)
  then show ?case by (simp add: py_split_append)
qed (auto simp: py_split_atom)

section \<open>strip\<close>

definition is_space :: "char \<Rightarrow> bool" where
  "is_space c \<longleftrightarrow> c \<in> {CHR '' '', CHR 0x09, CHR 0x0A, CHR 0x0B, CHR 0x0C, CHR 0x0D}"

definition py_lstrip :: "string \<Rightarrow> string" where
  "py_lstrip s = dropWhile is_space s"

definition py_strip :: "string \<Rightarrow> string" where
  "py_strip s = rev (dropWhile is_space (rev (py_lstrip s)))"

end
