(* ===== verification/Variable_Substitution.thy ===== *)
theory Variable_Substitution
  imports Py_String
begin

text \<open>
  \<^verbatim>\<open>test_looper/data_model/VariableSubstitution.py\<close>: substitution of \<^verbatim>\<open>${NAME}\<close> in variable
  definitions. A dict of definitions is an association list in its iteration order. The loops
  whose termination is the question are \<open>partial_function (option)\<close>: \<open>None\<close> is a call that does
  not return.
\<close>

type_synonym vardefs = "(string \<times> string) list"

section \<open>References\<close>

definition ident_char :: "char \<Rightarrow> bool" where
  "ident_char c \<longleftrightarrow>
     (let n = of_char c :: nat in
      97 \<le> n \<and> n \<le> 122 \<or> 65 \<le> n \<and> n \<le> 90 \<or> 48 \<le> n \<and> n \<le> 57 \<or> n = 95 \<or> n = 45)"

text \<open>\<open>identifier_pattern.match\<close>: the \<open>$\<close> of the pattern also matches before a final newline.\<close>

definition is_identifier :: "string \<Rightarrow> bool" where
  "is_identifier v \<longleftrightarrow>
     (let w = (if v \<noteq> [] \<and> last v = CHR 0x0A then butlast v else v)
      in w \<noteq> [] \<and> list_all ident_char w)"

definition match_reference :: "string \<Rightarrow> (string \<times> string) option" where
  "match_reference s =
     (if starts_with ''${'' s then
        (let name = takeWhile ident_char (drop 2 s); rest = dropWhile ident_char (drop 2 s)
         in if name \<noteq> [] \<and> rest \<noteq> [] \<and> hd rest = CHR ''}'' then Some (name, tl rest) else None)
      else None)"

lemma match_reference_shorter:
  "match_reference s = Some (name, rest) \<Longrightarrow> length rest < length s"
proof -
  assume "match_reference s = Some (name, rest)"
  then have r: "rest = tl (dropWhile ident_char (drop 2 s))" and ne: "s \<noteq> []"
    by (auto simp: match_reference_def Let_def starts_with_def split: if_splits)
  have "length rest \<le> length (drop 2 s)"
    unfolding r using length_dropWhile_le [of ident_char "drop 2 s"] by (simp only: length_tl)
  with ne show ?thesis by (cases s) auto
qed

function find_references :: "string \<Rightarrow> string list" where
  "find_references [] = []"
| "find_references (c # cs) =
     (case match_reference (c # cs) of
        Some (name, rest) \<Rightarrow> name # find_references rest
      | None \<Rightarrow> find_references cs)"
  by pat_completeness auto
termination
  by (relation "measure length") (auto dest: match_reference_shorter)

definition variables_referenced :: "string \<Rightarrow> string list" where
  "variables_referenced txt = remdups (find_references txt)"

definition reference :: "string \<Rightarrow> string" where
  "reference v = ''${'' @ v @ ''}''"

definition substitute_variables :: "string \<Rightarrow> vardefs \<Rightarrow> string" where
  "substitute_variables txt vars =
     fold (\<lambda>(varname, vardef) txt. py_replace (reference varname) vardef txt) vars txt"

section \<open>Levels of the dependency graph\<close>

text \<open>\<open>deps\<close> and \<open>uses\<close> map each variable to a set of variables, given as lists.\<close>

type_synonym dep_graph = "(string \<times> string list) list"
type_synonym levels = "string \<rightharpoonup> nat option"

definition graph_get :: "dep_graph \<Rightarrow> string \<Rightarrow> string list" where
  "graph_get g v = (case map_of g v of None \<Rightarrow> [] | Some ds \<Rightarrow> ds)"

definition level_of :: "levels \<Rightarrow> string \<Rightarrow> nat option" where
  "level_of levels v = (case levels v of None \<Rightarrow> None | Some l \<Rightarrow> l)"

definition compute_level :: "dep_graph \<Rightarrow> levels \<Rightarrow> string \<Rightarrow> nat option" where
  "compute_level deps levels var =
     (if graph_get deps var = [] then Some 0
      else if \<exists>d\<in>set (graph_get deps var). level_of levels d = None then None
      else Some (Max (set (map (\<lambda>d. the (level_of levels d)) (graph_get deps var))) + 1))"

definition level_step ::
  "dep_graph \<Rightarrow> dep_graph \<Rightarrow> string \<Rightarrow> string list \<times> levels \<Rightarrow> string list \<times> levels" where
  "level_step deps uses var st =
     (let new_level = compute_level deps (snd st) var
      in if new_level \<noteq> level_of (snd st) var
         then (remdups (fst st @ graph_get uses var), (snd st)(var \<mapsto> new_level))
         else st)"

definition level_round ::
  "dep_graph \<Rightarrow> dep_graph \<Rightarrow> string list \<Rightarrow> levels \<Rightarrow> string list \<times> levels" where
  "level_round deps uses dirty levels = fold (level_step deps uses) dirty ([], levels)"

partial_function (option) dirty_loop ::
  "dep_graph \<Rightarrow> dep_graph \<Rightarrow> string list \<Rightarrow> levels \<Rightarrow> levels option" where
  "dirty_loop deps uses dirty levels =
     (if dirty = [] then Some levels
      else dirty_loop deps uses (fst (level_round deps uses dirty levels))
             (snd (level_round deps uses dirty levels)))"

definition levels_result :: "dep_graph \<Rightarrow> levels \<Rightarrow> (nat \<times> string list) list res" where
  "levels_result deps levels =
     (if \<exists>k\<in>set (map fst deps). level_of levels k = None
      then Inl (UserException ''Cyclic variable dependencies detected'')
      else Inr (map (\<lambda>l. (l, filter (\<lambda>k. level_of levels k = Some l) (map fst deps)))
             (sort (remdups (map (\<lambda>k. the (level_of levels k)) (map fst deps))))))"

definition compute_graph_levels ::
  "dep_graph \<Rightarrow> dep_graph \<Rightarrow> (nat \<times> string list) list res option" where
  "compute_graph_levels deps uses =
     map_option (levels_result deps)
       (dirty_loop deps uses (map fst deps) (map_of (map (\<lambda>(k, _). (k, None)) deps)))"

section \<open>Substituting and merging\<close>

definition merge_deps :: "vardefs \<Rightarrow> dep_graph" where
  "merge_deps vardefs =
     (let deps = map (\<lambda>(v, d). (v, variables_referenced d))
                   (filter (\<lambda>(v, _). is_identifier v) vardefs)
      in map (\<lambda>(v, ds). (v, filter (\<lambda>d. d \<in> set (map fst deps)) ds)) deps)"

definition merge_uses :: "dep_graph \<Rightarrow> dep_graph" where
  "merge_uses deps =
     map (\<lambda>(v, _). (v, map fst (filter (\<lambda>(_, ds). v \<in> set ds) deps))) deps"

definition subst_use :: "string \<Rightarrow> string \<Rightarrow> vardefs \<Rightarrow> vardefs res" where
  "subst_use var use vardefs =
     bindR (lookupR (map_of vardefs) use) (\<lambda>old.
     bindR (lookupR (map_of vardefs) var) (\<lambda>def.
       Inr (alist_set use (substitute_variables old [(var, def)]) vardefs)))"

definition subst_level :: "dep_graph \<Rightarrow> string list \<Rightarrow> vardefs \<Rightarrow> vardefs res" where
  "subst_level uses var_list =
     foldR (\<lambda>var. foldR (subst_use var) (graph_get uses var)) var_list"

definition add_extra :: "string \<times> string \<Rightarrow> vardefs \<Rightarrow> vardefs res" where
  "add_extra ev vardefs =
     (case map_of vardefs (fst ev) of
        None \<Rightarrow> Inr (alist_set (fst ev) (snd ev) vardefs)
      | Some d \<Rightarrow>
          if d = snd ev then Inr (alist_set (fst ev) (snd ev) vardefs) else Inl AssertionError)"

definition apply_variable_substitutions_and_merge ::
  "vardefs \<Rightarrow> vardefs \<Rightarrow> vardefs res option" where
  "apply_variable_substitutions_and_merge vardefs extra =
     (let deps = merge_deps vardefs; uses = merge_uses deps
      in map_option (\<lambda>levels.
           bindR levels (\<lambda>levels.
           bindR (foldR (subst_level uses) (map snd levels) vardefs) (\<lambda>vardefs.
             foldR add_extra extra
               (map (\<lambda>(v, d). (v, substitute_variables d extra)) vardefs))))
         (compute_graph_levels deps uses))"

definition dict_eq :: "vardefs \<Rightarrow> vardefs \<Rightarrow> bool" where
  "dict_eq xs ys \<longleftrightarrow> (\<forall>k\<in>set (map fst xs @ map fst ys). map_of xs k = map_of ys k)"

partial_function (option) apply_variable_substitutions_and_merge_repeatedly ::
  "vardefs \<Rightarrow> vardefs \<Rightarrow> vardefs res option" where
  "apply_variable_substitutions_and_merge_repeatedly vardefs extra =
     (case apply_variable_substitutions_and_merge vardefs extra of
        None \<Rightarrow> None
      | Some (Inl e) \<Rightarrow> Some (Inl e)
      | Some (Inr new_vardefs) \<Rightarrow>
          if dict_eq new_vardefs vardefs then Some (Inr new_vardefs)
          else apply_variable_substitutions_and_merge_repeatedly new_vardefs extra)"

section \<open>The level computation terminates\<close>

text \<open>Every level that has been assigned is final.\<close>

definition levels_final :: "dep_graph \<Rightarrow> levels \<Rightarrow> bool" where
  "levels_final deps lv \<longleftrightarrow>
     (\<forall>v l. level_of lv v = Some l \<longrightarrow>
        v \<in> set (map fst deps) \<and> compute_level deps lv v = Some l \<and>
        (\<forall>d\<in>set (graph_get deps v). level_of lv d \<noteq> None))"

definition well_formed_graph :: "dep_graph \<Rightarrow> dep_graph \<Rightarrow> bool" where
  "well_formed_graph deps uses \<longleftrightarrow>
     (\<forall>v u. u \<in> set (graph_get uses v) \<longleftrightarrow> v \<in> set (graph_get deps u)) \<and>
     (\<forall>v. set (graph_get deps v) \<subseteq> set (map fst deps)) \<and>
     (\<forall>v. v \<notin> set (map fst deps) \<longrightarrow> graph_get deps v = [])"

definition ready_var :: "dep_graph \<Rightarrow> levels \<Rightarrow> string \<Rightarrow> bool" where
  "ready_var deps lv v \<longleftrightarrow> v \<in> set (map fst deps) \<and> level_of lv v = None \<and>
     (\<forall>d\<in>set (graph_get deps v). level_of lv d \<noteq> None)"

lemma level_of_upd: "level_of (lv(v \<mapsto> l)) w = (if w = v then l else level_of lv w)"
  by (simp add: level_of_def)

lemma compute_level_stable:
  assumes "level_of lv v = None" "\<forall>d\<in>set (graph_get deps w). level_of lv d \<noteq> None"
  shows "compute_level deps (lv(v \<mapsto> l)) w = compute_level deps lv w"
proof -
  have "\<forall>d\<in>set (graph_get deps w). d \<noteq> v" using assms by auto
  then have "\<forall>d\<in>set (graph_get deps w). level_of (lv(v \<mapsto> l)) d = level_of lv d"
    by (simp add: level_of_upd)
  then show ?thesis by (auto simp: compute_level_def cong: map_cong)
qed

lemma compute_level_Some:
  "compute_level deps lv v = Some l \<longleftrightarrow>
   (\<forall>d\<in>set (graph_get deps v). level_of lv d \<noteq> None) \<and>
   l = (if graph_get deps v = [] then 0
        else Max (set (map (\<lambda>d. the (level_of lv d)) (graph_get deps v))) + 1)"
  by (auto simp: compute_level_def)

definition unassigned :: "dep_graph \<Rightarrow> levels \<Rightarrow> string set" where
  "unassigned deps lv = {v \<in> set (map fst deps). level_of lv v = None}"

text \<open>What a step keeps, for the variables \<open>W\<close> still to be looked at in this round.\<close>

definition round_inv :: "dep_graph \<Rightarrow> string set \<Rightarrow> string list \<times> levels \<Rightarrow> bool" where
  "round_inv deps W st \<longleftrightarrow> levels_final deps (snd st) \<and>
     (\<forall>v. ready_var deps (snd st) v \<longrightarrow> v \<in> W \<union> set (fst st)) \<and>
     set (fst st) \<subseteq> set (map fst deps)"

lemma level_step_inv:
  assumes wf: "well_formed_graph deps uses" and v: "v \<in> set (map fst deps)"
    and inv: "round_inv deps (insert v W) st"
  shows "round_inv deps W (level_step deps uses v st) \<and>
    (level_step deps uses v st = st \<or>
     unassigned deps (snd (level_step deps uses v st)) \<subset> unassigned deps (snd st))"
proof (cases "compute_level deps (snd st) v = level_of (snd st) v")
  case True
  have "\<not> ready_var deps (snd st) v"
  proof
    assume r: "ready_var deps (snd st) v"
    then have "compute_level deps (snd st) v = None" using True by (simp add: ready_var_def)
    with r show False by (auto simp: ready_var_def compute_level_def split: if_splits)
  qed
  with True inv show ?thesis by (auto simp: level_step_def Let_def round_inv_def)
next
  case False
  let ?lv = "snd st"
  have fin: "levels_final deps ?lv" using inv by (simp add: round_inv_def)
  have none: "level_of ?lv v = None"
    using False fin by (cases "level_of ?lv v") (auto simp: levels_final_def)
  with False obtain l where l: "compute_level deps ?lv v = Some l" by auto
  let ?lv' = "?lv(v \<mapsto> Some l)"
  have st': "level_step deps uses v st = (remdups (fst st @ graph_get uses v), ?lv')"
    using False l by (simp add: level_step_def Let_def)
  have deps_v: "\<forall>d\<in>set (graph_get deps v). level_of ?lv d \<noteq> None"
    using l by (simp add: compute_level_Some)
  have "levels_final deps ?lv'"
    unfolding levels_final_def
  proof (intro allI impI)
    fix w m assume w: "level_of ?lv' w = Some m"
    have dw: "w \<in> set (map fst deps) \<and> compute_level deps ?lv w = Some m \<and>
        (\<forall>d\<in>set (graph_get deps w). level_of ?lv d \<noteq> None)"
      using w fin l v deps_v by (auto simp: level_of_upd levels_final_def split: if_splits)
    with compute_level_stable [OF none, of deps w "Some l"]
    show "w \<in> set (map fst deps) \<and> compute_level deps ?lv' w = Some m \<and>
        (\<forall>d\<in>set (graph_get deps w). level_of ?lv' d \<noteq> None)"
      by (auto simp: level_of_upd)
  qed
  moreover have "w \<in> W \<union> set (remdups (fst st @ graph_get uses v))"
    if "ready_var deps ?lv' w" for w
  proof (cases "v \<in> set (graph_get deps w)")
    case True
    with wf show ?thesis by (simp add: well_formed_graph_def)
  next
    case F: False
    have "w \<noteq> v" using that by (auto simp: ready_var_def level_of_upd)
    with F that have "ready_var deps ?lv w"
      by (auto simp: ready_var_def level_of_upd split: if_splits)
    with inv \<open>w \<noteq> v\<close> show ?thesis by (auto simp: round_inv_def)
  qed
  moreover have "set (graph_get uses v) \<subseteq> set (map fst deps)"
    using wf unfolding well_formed_graph_def by (metis empty_iff empty_set subsetI)
  moreover have "unassigned deps ?lv' \<subset> unassigned deps ?lv"
    using none v by (auto simp: unassigned_def level_of_upd)
  ultimately show ?thesis
    using inv by (auto simp: st' round_inv_def)
qed

lemma level_fold_inv:
  assumes wf: "well_formed_graph deps uses"
  shows "set vs \<subseteq> set (map fst deps) \<Longrightarrow> round_inv deps (set vs) st \<Longrightarrow>
    round_inv deps {} (fold (level_step deps uses) vs st) \<and>
    (fold (level_step deps uses) vs st = st \<or>
     unassigned deps (snd (fold (level_step deps uses) vs st)) \<subset> unassigned deps (snd st))"
proof (induction vs arbitrary: st)
  case (Cons v vs)
  from Cons.prems have v: "v \<in> set (map fst deps)" and vs: "set vs \<subseteq> set (map fst deps)"
    and inv: "round_inv deps (insert v (set vs)) st" by auto
  let ?st = "level_step deps uses v st"
  from level_step_inv [OF wf v inv] have a: "round_inv deps (set vs) ?st"
    "?st = st \<or> unassigned deps (snd ?st) \<subset> unassigned deps (snd st)" by auto
  from Cons.IH [OF vs a(1)] a(2) show ?case by auto
qed simp

lemma dirty_loop_terminates:
  assumes wf: "well_formed_graph deps uses"
  shows "set dirty \<subseteq> set (map fst deps) \<Longrightarrow> round_inv deps (set dirty) ([], lv) \<Longrightarrow>
    \<exists>lv'. dirty_loop deps uses dirty lv = Some lv' \<and> levels_final deps lv' \<and>
      (\<forall>v. \<not> ready_var deps lv' v)"
proof (induction "card (unassigned deps lv)" arbitrary: lv dirty rule: less_induct)
  case less
  show ?case
  proof (cases "dirty = []")
    case True
    with less.prems show ?thesis
      by (auto simp: dirty_loop.simps [of deps uses "[]"] round_inv_def)
  next
    case False
    obtain d1 lv1 where r: "level_round deps uses dirty lv = (d1, lv1)" by force
    from level_fold_inv [OF wf less.prems] r have inv: "round_inv deps {} (d1, lv1)"
      and dec: "(d1, lv1) = ([], lv) \<or> unassigned deps lv1 \<subset> unassigned deps lv"
      by (auto simp: level_round_def)
    have inv1: "round_inv deps (set d1) ([], lv1)" and d1: "set d1 \<subseteq> set (map fst deps)"
      using inv by (auto simp: round_inv_def)
    have step: "dirty_loop deps uses dirty lv = dirty_loop deps uses d1 lv1"
      using False r by (simp add: dirty_loop.simps [of deps uses dirty])
    show ?thesis
    proof (cases "d1 = []")
      case True
      with inv show ?thesis
        by (simp add: step dirty_loop.simps [of deps uses "[]"] round_inv_def)
    next
      case False
      with dec have "card (unassigned deps lv1) < card (unassigned deps lv)"
        by (intro psubset_card_mono) (auto simp: unassigned_def)
      from less.hyps [OF this d1 inv1] show ?thesis by (simp add: step)
    qed
  qed
qed

lemma round_inv_initial:
  assumes "well_formed_graph deps uses"
  shows "round_inv deps (set (map fst deps)) ([], map_of (map (\<lambda>(k, _). (k, None)) deps))"
proof -
  have "level_of (map_of (map (\<lambda>(k, _). (k, None)) deps)) v = None" for v
    by (induction deps) (auto simp: level_of_def)
  then show ?thesis by (simp add: round_inv_def levels_final_def ready_var_def)
qed

lemma graph_getD: "d \<in> set (graph_get g v) \<Longrightarrow> \<exists>ds. (v, ds) \<in> set g \<and> d \<in> set ds"
  by (cases "map_of g v") (auto simp: graph_get_def dest: map_of_SomeD)

lemma graph_get_notin: "v \<notin> set (map fst g) \<Longrightarrow> graph_get g v = []"
  by (metis graph_get_def map_of_eq_None_iff option.case(1) set_map)

lemma merge_deps_keys:
  "map fst (merge_deps vardefs) = map fst (filter (\<lambda>(v, _). is_identifier v) vardefs)"
  by (simp add: merge_deps_def Let_def o_def case_prod_unfold)

lemma graph_get_merge_deps:
  "set (graph_get (merge_deps vardefs) v) \<subseteq> set (map fst (merge_deps vardefs))"
proof
  fix d assume "d \<in> set (graph_get (merge_deps vardefs) v)"
  then obtain ds where "(v, ds) \<in> set (merge_deps vardefs)" "d \<in> set ds"
    by (blast dest: graph_getD)
  then have "d \<in> set (map fst (map (\<lambda>(v, d). (v, variables_referenced d))
      (filter (\<lambda>(v, _). is_identifier v) vardefs)))"
    unfolding merge_deps_def Let_def by auto
  then show "d \<in> set (map fst (merge_deps vardefs))"
    by (simp add: merge_deps_keys o_def case_prod_unfold)
qed

lemma distinct_merge_deps:
  "distinct (map fst vardefs) \<Longrightarrow> distinct (map fst (merge_deps vardefs))"
  by (simp only: merge_deps_keys distinct_map_filter)

lemma graph_get_in:
  "distinct (map fst g) \<Longrightarrow> (v, ds) \<in> set g \<Longrightarrow> graph_get g v = ds"
  by (simp add: graph_get_def)

lemma map_of_keyed:
  "v \<in> set (map fst g) \<Longrightarrow> map_of (map (\<lambda>(k, _). (k, f k)) g) v = Some (f v)"
  by (induction g) auto

lemma merge_uses_iff:
  assumes "distinct (map fst g)" "\<forall>v. set (graph_get g v) \<subseteq> set (map fst g)"
  shows "u \<in> set (graph_get (merge_uses g) v) \<longleftrightarrow> v \<in> set (graph_get g u)"
proof (cases "v \<in> set (map fst g)")
  case True
  have "map_of (merge_uses g) v = Some (map fst (filter (\<lambda>(_, ds). v \<in> set ds) g))"
    unfolding merge_uses_def
    by (rule map_of_keyed [OF True, of "\<lambda>v. map fst (filter (\<lambda>(_, ds). v \<in> set ds) g)"])
  then have "u \<in> set (graph_get (merge_uses g) v) \<longleftrightarrow> (\<exists>ds. (u, ds) \<in> set g \<and> v \<in> set ds)"
    by (auto simp: graph_get_def image_iff)
  also have "\<dots> \<longleftrightarrow> v \<in> set (graph_get g u)"
    using graph_getD graph_get_in [OF assms(1)] by metis
  finally show ?thesis .
next
  case False
  then have "graph_get (merge_uses g) v = []"
    by (intro graph_get_notin) (simp add: merge_uses_def o_def case_prod_unfold)
  moreover have "v \<notin> set (graph_get g u)" using assms(2) False by blast
  ultimately show ?thesis by (metis empty_iff empty_set)
qed

lemma merge_well_formed:
  assumes "distinct (map fst vardefs)"
  shows "well_formed_graph (merge_deps vardefs) (merge_uses (merge_deps vardefs))"
proof -
  let ?g = "merge_deps vardefs"
  have sub: "\<forall>v. set (graph_get ?g v) \<subseteq> set (map fst ?g)"
    using graph_get_merge_deps by blast
  show ?thesis
    unfolding well_formed_graph_def
    using sub merge_uses_iff [OF distinct_merge_deps [OF assms] sub] graph_get_notin [of _ ?g]
    by blast
qed

section \<open>Properties of the level computation\<close>

definition level_in :: "(nat \<times> string list) list \<Rightarrow> string \<Rightarrow> nat \<Rightarrow> bool" where
  "level_in levels v l \<longleftrightarrow> (\<exists>vs. (l, vs) \<in> set levels \<and> v \<in> set vs)"

lemma levels_result_in:
  assumes "levels_result deps lv = Inr levels"
  shows "level_in levels v l \<longleftrightarrow> v \<in> set (map fst deps) \<and> level_of lv v = Some l"
proof -
  have "levels = map (\<lambda>l. (l, filter (\<lambda>k. level_of lv k = Some l) (map fst deps)))
      (sort (remdups (map (\<lambda>k. the (level_of lv k)) (map fst deps))))"
    using assms by (simp add: levels_result_def split: if_splits)
  then show ?thesis by (force simp: level_in_def)
qed

lemma levels_result_sorted:
  "levels_result deps lv = Inr levels \<Longrightarrow> sorted_wrt (<) (map fst levels)"
  by (auto simp: levels_result_def o_def strict_sorted_iff split: if_splits)

lemma compute_level_dep:
  "compute_level deps lv v = Some l \<Longrightarrow> d \<in> set (graph_get deps v) \<Longrightarrow> level_of lv d = Some m \<Longrightarrow>
   m < l"
proof -
  assume a: "compute_level deps lv v = Some l" "d \<in> set (graph_get deps v)"
    "level_of lv d = Some m"
  let ?S = "set (map (\<lambda>d. the (level_of lv d)) (graph_get deps v))"
  have "l = Max ?S + 1" using a(1,2) by (auto simp: compute_level_Some)
  moreover have "m \<in> ?S" using a(2,3) by force
  then have "m \<le> Max ?S" by (intro Max_ge) auto
  ultimately show "m < l" by simp
qed

text \<open>What \<open>compute_graph_levels\<close> returns: it raises on a set of variables that all wait for each
  other, and otherwise puts every variable on one level, above everything it depends on.\<close>

definition levels_answer :: "dep_graph \<Rightarrow> (nat \<times> string list) list res \<Rightarrow> bool" where
  "levels_answer deps r =
     (case r of
        Inl e \<Rightarrow> e = UserException ''Cyclic variable dependencies detected'' \<and>
          (\<exists>S. S \<noteq> {} \<and> S \<subseteq> set (map fst deps) \<and> (\<forall>v\<in>S. \<exists>d\<in>S. d \<in> set (graph_get deps v)))
      | Inr levels \<Rightarrow> sorted_wrt (<) (map fst levels) \<and>
          (\<forall>v. v \<in> set (map fst deps) \<longleftrightarrow> (\<exists>l. level_in levels v l)) \<and>
          (\<forall>v l d. level_in levels v l \<longrightarrow> d \<in> set (graph_get deps v) \<longrightarrow>
             (\<exists>m. level_in levels d m) \<and> (\<forall>m. level_in levels d m \<longrightarrow> m < l)))"

lemma levels_result_answer:
  assumes wf: "well_formed_graph deps uses" and fin: "levels_final deps lv"
    and stable: "\<forall>v. \<not> ready_var deps lv v"
  shows "levels_answer deps (levels_result deps lv)"
proof (cases "levels_result deps lv")
  case (Inl e)
  let ?S = "unassigned deps lv"
  have e: "e = UserException ''Cyclic variable dependencies detected''" and ne: "?S \<noteq> {}"
    using Inl by (auto simp: levels_result_def unassigned_def split: if_splits)
  have "\<forall>v\<in>?S. \<exists>d\<in>?S. d \<in> set (graph_get deps v)"
  proof
    fix v assume "v \<in> ?S"
    with stable obtain d where "d \<in> set (graph_get deps v)" "level_of lv d = None"
      by (auto simp: ready_var_def unassigned_def)
    with wf show "\<exists>d\<in>?S. d \<in> set (graph_get deps v)"
      unfolding well_formed_graph_def unassigned_def by blast
  qed
  moreover have "?S \<subseteq> set (map fst deps)" by (auto simp: unassigned_def)
  ultimately show ?thesis using Inl e ne unfolding levels_answer_def by auto
next
  case (Inr levels)
  note li = levels_result_in [OF Inr]
  have all: "\<forall>k\<in>set (map fst deps). level_of lv k \<noteq> None"
    using Inr by (auto simp: levels_result_def split: if_splits)
  have "(\<exists>m. level_in levels d m) \<and> (\<forall>m. level_in levels d m \<longrightarrow> m < l)"
    if "level_in levels v l" "d \<in> set (graph_get deps v)" for v l d
  proof -
    have "compute_level deps lv v = Some l" using that(1) fin by (auto simp: li levels_final_def)
    moreover have "d \<in> set (map fst deps)" using that(2) wf by (auto simp: well_formed_graph_def)
    ultimately show ?thesis using all that(2) by (auto simp: li dest: compute_level_dep)
  qed
  with all levels_result_sorted [OF Inr] show ?thesis
    unfolding levels_answer_def Inr sum.case li by auto
qed

lemma compute_graph_levels_answer:
  assumes "well_formed_graph deps uses"
  shows "\<exists>r. compute_graph_levels deps uses = Some r \<and> levels_answer deps r"
proof -
  from dirty_loop_terminates [OF assms subset_refl round_inv_initial [OF assms]]
  obtain lv where "dirty_loop deps uses (map fst deps) (map_of (map (\<lambda>(k, _). (k, None)) deps)) = Some lv"
    "levels_final deps lv" "\<forall>v. \<not> ready_var deps lv v" by blast
  with levels_result_answer [OF assms] show ?thesis by (auto simp: compute_graph_levels_def)
qed



section \<open>The repeated substitution need not terminate\<close>

text \<open>A word over the two halves of the reference to \<^verbatim>\<open>X\<close>: \<open>True\<close> is \<^verbatim>\<open>${X\<close>, \<open>False\<close> is \<^verbatim>\<open>}\<close>.\<close>

definition word_string :: "bool list \<Rightarrow> string" where
  "word_string w = concat (map (\<lambda>b. if b then ''${X'' else ''}'') w)"

fun replace_word :: "bool list \<Rightarrow> bool list" where
  "replace_word (True # False # w) = False # False # True # True # replace_word w"
| "replace_word (True # True # w) = True # replace_word (True # w)"
| "replace_word [True] = [True]"
| "replace_word (False # w) = False # replace_word w"
| "replace_word [] = []"

lemma word_string_simps [simp]:
  "word_string [] = []" "word_string (True # w) = ''${X'' @ word_string w"
  "word_string (False # w) = ''}'' @ word_string w"
  by (simp_all add: word_string_def)

lemma replace_word_string:
  "py_replace (reference ''X'') ''}}${X${X'' (word_string w) = word_string (replace_word w)"
proof (induction w rule: replace_word.induct)
  case (1 w)
  have "word_string (True # False # w) = reference ''X'' @ word_string w" by (simp add: reference_def)
  then have "py_replace (reference ''X'') ''}}${X${X'' (word_string (True # False # w)) =
      ''}}${X${X'' @ py_replace (reference ''X'') ''}}${X${X'' (word_string w)"
    by (simp only:) (rule py_replace_match, simp add: reference_def)
  with 1 show ?case by simp
qed (auto simp: reference_def starts_with_def)

lemma replace_word_split: "replace_word (p @ True # w) = replace_word p @ replace_word (True # w)"
  by (induction p rule: replace_word.induct) auto

definition looping :: "bool list \<Rightarrow> bool" where
  "looping w \<longleftrightarrow> (\<exists>p s. w = p @ [True, False, False, True, True, False] @ s) \<or>
     (\<exists>p s. w = p @ [True, True, False, True, False, False] @ s)"

lemma replace_word_looping: "looping w \<Longrightarrow> looping (replace_word w)"
proof -
  assume "looping w"
  then consider p s where "w = p @ [True, False, False, True, True, False] @ s"
    | p s where "w = p @ [True, True, False, True, False, False] @ s"
    unfolding looping_def by blast
  then show ?thesis
  proof cases
    case (1 p s)
    then have "replace_word w = (replace_word p @ [False, False]) @
        [True, True, False, True, False, False] @ [True, True] @ replace_word s"
      using replace_word_split [of p "[False, False, True, True, False] @ s"] by simp
    then show ?thesis unfolding looping_def by blast
  next
    case (2 p s)
    then have "replace_word w = (replace_word p @ [True, False, False, True]) @
        [True, False, False, True, True, False] @ replace_word s"
      using replace_word_split [of p "[True, False, True, False, False] @ s"] by simp
    then show ?thesis unfolding looping_def by blast
  qed
qed

lemma word_string_append [simp]: "word_string (v @ w) = word_string v @ word_string w"
  by (simp add: word_string_def)

lemma replace_word_longer: "length (word_string w) \<le> length (word_string (replace_word w))"
  by (induction w rule: replace_word.induct) auto

lemma replace_word_changes:
  "\<exists>p s. w = p @ True # False # s \<Longrightarrow> word_string (replace_word w) \<noteq> word_string w"
proof -
  assume "\<exists>p s. w = p @ True # False # s"
  then obtain p s where w: "w = p @ True # False # s" by blast
  have "length (word_string w) < length (word_string (replace_word w))"
    using replace_word_longer [of p] replace_word_longer [of s]
    by (simp add: w replace_word_split)
  then show ?thesis by auto
qed

lemma looping_reference: "looping w \<Longrightarrow> \<exists>p s. w = p @ True # False # s"
  unfolding looping_def by (metis append.assoc append_Cons append_Nil)

lemma match_reference_word:
  "match_reference (''${X'' @ ''}'' @ r) = Some (''X'', r)"
  "match_reference (''${X'') = None" "match_reference (''${X'' @ ''${X'' @ r) = None"
  "match_reference (''}'' @ r) = None" "match_reference (''{'' @ r) = None"
  "match_reference (''X'' @ r) = None"
  by (simp_all add: match_reference_def starts_with_def ident_char_def Let_def)

lemma find_references_word:
  "set (find_references (word_string w)) \<subseteq> {''X''} \<and>
   ((\<exists>p s. w = p @ True # False # s) \<longrightarrow> ''X'' \<in> set (find_references (word_string w)))"
proof (induction w rule: replace_word.induct)
  case (1 w)
  then show ?case using match_reference_word(1) [of "word_string w"] by simp
next
  case (2 w)
  then show ?case
    using match_reference_word(3,5,6) [of "word_string w"]
      match_reference_word(5,6) [of "''${X'' @ word_string w"]
      match_reference_word(5) [of "''X'' @ ''${X'' @ word_string w"]
    by (auto simp: Cons_eq_append_conv)
next
  case 3
  then show ?case
    using match_reference_word(2) match_reference_word(5) [of "''X''"] match_reference_word(6) [of "[]"]
    by (auto simp: Cons_eq_append_conv)
next
  case (4 w)
  then show ?case
    using match_reference_word(4) [of "word_string w"] by (auto simp: Cons_eq_append_conv)
qed auto

definition loop_defs :: "bool list \<Rightarrow> vardefs" where
  "loop_defs w = [(''X'', ''}}${X${X''), (''V'', word_string w)]"

lemma variables_referenced_word:
  "\<exists>p s. w = p @ True # False # s \<Longrightarrow> variables_referenced (word_string w) = [''X'']"
proof -
  assume "\<exists>p s. w = p @ True # False # s"
  with find_references_word [of w] have s: "set (find_references (word_string w)) = {''X''}" by blast
  then show ?thesis
    unfolding variables_referenced_def by (intro distinct_singleton) simp_all
qed

lemma merge_deps_loop:
  assumes "\<exists>p s. w = p @ True # False # s"
  shows "merge_deps (loop_defs w) = [(''X'', []), (''V'', [''X''])]"
proof -
  have "variables_referenced ''}}${X${X'' = []" by code_simp
  moreover have "is_identifier ''X''" "is_identifier ''V''" by code_simp+
  ultimately show ?thesis
    using variables_referenced_word [OF assms] by (simp add: merge_deps_def loop_defs_def)
qed

lemma loop_levels:
  "compute_graph_levels [(''X'', []), (''V'', [''X''])] (merge_uses [(''X'', []), (''V'', [''X''])]) =
   Some (Inr [(0, [''X'']), (1, [''V''])])"
proof -
  let ?D = "[(''X'', []), (''V'', [''X''])] :: dep_graph"
  let ?U = "[(''X'', [''V'']), (''V'', [])] :: dep_graph"
  let ?L0 = "map_of [(''X'', None), (''V'', None)] :: levels"
  let ?L1 = "?L0(''X'' \<mapsto> Some 0, ''V'' \<mapsto> Some 1)"
  have u: "merge_uses ?D = ?U" by (simp add: merge_uses_def)
  have "level_round ?D ?U [''X'', ''V''] ?L0 = ([''V''], ?L1)"
    "level_round ?D ?U [''V''] ?L1 = ([], ?L1)"
    by (simp_all add: level_round_def level_step_def Let_def compute_level_def graph_get_def level_of_def)
  then have "dirty_loop ?D ?U [''X'', ''V''] ?L0 = Some ?L1"
    by (simp add: dirty_loop.simps [of _ _ "_ # _"] dirty_loop.simps [of _ _ "[]"])
  moreover have "levels_result ?D ?L1 = Inr [(0, [''X'']), (1, [''V''])]"
    by (simp add: levels_result_def level_of_def)
  ultimately show ?thesis by (simp add: compute_graph_levels_def u)
qed

lemma apply_loop:
  assumes "\<exists>p s. w = p @ True # False # s"
  shows "apply_variable_substitutions_and_merge (loop_defs w) [] =
    Some (Inr (loop_defs (replace_word w)))"
proof -
  have "graph_get (merge_uses [(''X'', []), (''V'', [''X''])]) ''X'' = [''V'']"
    "graph_get (merge_uses [(''X'', []), (''V'', [''X''])]) ''V'' = []" by code_simp+
  then have "foldR (subst_level (merge_uses [(''X'', []), (''V'', [''X''])])) [[''X''], [''V'']] (loop_defs w) =
      Inr (loop_defs (replace_word w))"
    by (simp add: subst_level_def subst_use_def loop_defs_def lookupR_def substitute_variables_def
        replace_word_string)
  then show ?thesis
    unfolding apply_variable_substitutions_and_merge_def Let_def merge_deps_loop [OF assms] loop_levels
    by (simp add: substitute_variables_def loop_defs_def)
qed

lemma loop_defs_differ:
  "\<exists>p s. w = p @ True # False # s \<Longrightarrow> \<not> dict_eq (loop_defs (replace_word w)) (loop_defs w)"
  using replace_word_changes [of w] by (simp add: dict_eq_def loop_defs_def)

lemma repeatedly_unfold:
  assumes "\<exists>p s. w = p @ True # False # s"
  shows "apply_variable_substitutions_and_merge_repeatedly (loop_defs w) [] =
    apply_variable_substitutions_and_merge_repeatedly (loop_defs (replace_word w)) []"
  by (subst apply_variable_substitutions_and_merge_repeatedly.simps)
    (simp add: apply_loop [OF assms] loop_defs_differ [OF assms])

lemma repeatedly_diverges:
  assumes "apply_variable_substitutions_and_merge_repeatedly vardefs extra = Some r"
  shows "\<forall>w. looping w \<longrightarrow> vardefs = loop_defs w \<longrightarrow> extra \<noteq> []"
proof (rule apply_variable_substitutions_and_merge_repeatedly.raw_induct
    [where P = "\<lambda>vardefs extra _. \<forall>w. looping w \<longrightarrow> vardefs = loop_defs w \<longrightarrow> extra \<noteq> []",
      OF _ assms])
  fix rec :: "vardefs \<Rightarrow> vardefs \<Rightarrow> vardefs res option" and vardefs extra r
  assume IH: "\<And>vardefs extra r. rec vardefs extra = Some r \<Longrightarrow>
      \<forall>w. looping w \<longrightarrow> vardefs = loop_defs w \<longrightarrow> extra \<noteq> []"
    and body: "(case apply_variable_substitutions_and_merge vardefs extra of None \<Rightarrow> None
      | Some (Inl e) \<Rightarrow> Some (Inl e)
      | Some (Inr new_vardefs) \<Rightarrow>
          if dict_eq new_vardefs vardefs then Some (Inr new_vardefs) else rec new_vardefs extra) = Some r"
  show "\<forall>w. looping w \<longrightarrow> vardefs = loop_defs w \<longrightarrow> extra \<noteq> []"
  proof (intro allI impI notI)
    fix w assume w: "looping w" "vardefs = loop_defs w" "extra = []"
    note ref = looping_reference [OF w(1)]
    have "rec (loop_defs (replace_word w)) [] = Some r"
      using body unfolding w(2,3) apply_loop [OF ref] by (simp add: loop_defs_differ [OF ref])
    with IH replace_word_looping [OF w(1)] show False by blast
  qed
qed

text \<open>\<open>apply_variable_substitutions_and_merge_repeatedly\<close> is not guaranteed to terminate, although
  its comment says so: it never returns on the two acyclic definitions \<^verbatim>\<open>X = }}${X${X\<close> and
  \<^verbatim>\<open>V = ${X${X}}\<close>, on which every single pass succeeds.\<close>

theorem repeated_substitution_may_not_return:
  "apply_variable_substitutions_and_merge_repeatedly
     [(''X'', ''}}${X${X''), (''V'', ''${X${X}}'')] [] = None"
proof -
  let ?w = "[True, True, False, False]"
  have d: "loop_defs ?w = [(''X'', ''}}${X${X''), (''V'', ''${X${X}}'')]" by (simp add: loop_defs_def)
  have "?w = [True] @ True # False # [False]" by simp
  then have ref: "\<exists>p s. ?w = p @ True # False # s" by blast
  have "replace_word ?w = [] @ [True, False, False, True, True, False] @ []" by simp
  then have "looping (replace_word ?w)" unfolding looping_def by blast
  then have "apply_variable_substitutions_and_merge_repeatedly (loop_defs (replace_word ?w)) [] = None"
    using repeatedly_diverges [of "loop_defs (replace_word ?w)" "[]"] by (metis not_None_eq)
  then show ?thesis using repeatedly_unfold [OF ref] by (simp only: d)
qed

end
