(* ===== verification/Test_Definition.thy ===== *)
theory Test_Definition
  imports Complex_Main Graph_Util Variable_Substitution "HOL-Library.Sublist"
begin

text \<open>
  \<^verbatim>\<open>test_looper/data_model/TestDefinition.py\<close>: the algebraic types of test definitions, environments
  and repository references, the linearization of environment imports (\<open>merge\<close>,
  \<open>method_resolution_order\<close>, \<open>merge_environments\<close>) and the application of variables to
  environments and tests. A dict is an association list. A call that may not return because of the
  repeated variable substitution has an \<open>option\<close> around its result.
\<close>

section \<open>Types\<close>

datatype platform = windows | linux

datatype image =
    DockerfileInline (dockerfile_contents: string)
  | Dockerfile (image_repo: string) (image_commitHash: string) (dockerfile: string)
  | AMI (base_ami: string) (setup_script_contents: string)

datatype test_dependency =
    DepBuild (dep_name: string) (dep_buildHash: string) (dep_artifact: string)
  | DepSource (dep_repo: string) (dep_commitHash: string) (dep_path: string)
  | DepInternalBuild (dep_name: string)
  | DepExternalBuild (dep_repo: string) (dep_commitHash: string) (dep_name: string)
  | DepUnresolvedExternalBuild (dep_repo_name: string) (dep_name: string)
  | DepUnresolvedSource (dep_repo_name: string) (dep_path: string)

datatype environment_reference =
    Reference (ref_repo: string) (ref_commitHash: string) (ref_name: string)
  | UnresolvedReference (ref_repo_name: string) (ref_name: string)

datatype artifact_format = Tar | Zip | Files

record artifact =
  artifact_name :: string
  directory :: string
  include_patterns :: "string list"
  exclude_patterns :: "string list"
  format :: artifact_format

record stage =
  command :: string
  cleanup :: string
  stage_order :: rat
  artifacts :: "artifact list"

datatype repo_reference =
    RepoImport (import_path: string)
  | ImportedReference (reference: string) (import_source: string) (orig_reference: string)
  | RepoReference (reference: string)
  | Pin (reference: string) (pin_branch: string) (pin_auto: bool) (pin_prioritize: bool)

text \<open>\<open>"/".join(s.split("/")[:-1])\<close> and \<open>s.split("/")[-1]\<close>.\<close>

definition path_init :: "string \<Rightarrow> string" where
  "path_init s = py_join ''/'' (butlast (py_split (CHR ''/'') s))"

definition path_last :: "string \<Rightarrow> string" where
  "path_last s = last (py_split (CHR ''/'') s)"

fun is_Import :: "repo_reference \<Rightarrow> bool" where
  "is_Import (RepoImport _) = True"
| "is_Import _ = False"

fun is_Pin :: "repo_reference \<Rightarrow> bool" where
  "is_Pin (Pin _ _ _ _) = True"
| "is_Pin _ = False"

definition RepoReference_reponame :: "repo_reference \<Rightarrow> string option" where
  "RepoReference_reponame ref = (if is_Import ref then None else Some (path_init (reference ref)))"

definition RepoReference_commitHash :: "repo_reference \<Rightarrow> string option" where
  "RepoReference_commitHash ref = (if is_Import ref then None else Some (path_last (reference ref)))"

definition RepoReference_branchname :: "repo_reference \<Rightarrow> string option" where
  "RepoReference_branchname ref = (if is_Pin ref then Some (pin_branch ref) else None)"

text \<open>The fields that both kinds of environment have. The third kind, \<open>Unresolved\<close>, is only the
  environment of a test that has not been given one yet: there it is \<open>None\<close>.\<close>

record environment_fields =
  environment_name :: string
  inheritance :: "string list"
  env_variables :: vardefs
  env_dependencies :: "(string \<times> test_dependency) list"
  test_configuration :: string
  test_stages :: "stage list"
  test_timeout :: int
  test_min_cores :: int
  test_max_cores :: int
  test_min_ram_gb :: int
  test_min_disk_gb :: int
  test_max_retries :: int
  test_retry_wait_seconds :: int

datatype test_environment =
    Environment (env_platform: platform) (env_image: image) (env_fields: environment_fields)
  | Import (env_imports: "environment_reference list") (env_setup: string) (env_fields: environment_fields)

fun is_Environment :: "test_environment \<Rightarrow> bool" where
  "is_Environment (Environment _ _ _) = True"
| "is_Environment _ = False"

record test_fields =
  test_hash :: string
  test_name :: string
  configuration :: string
  project :: string
  test_environment_name :: string
  environment_mixins :: "string list"
  environment :: "test_environment option"
  dependencies :: "(string \<times> test_dependency) list"
  variables :: vardefs
  timeout :: int
  min_cores :: int
  max_cores :: int
  min_ram_gb :: int
  min_disk_gb :: int

datatype test_definition =
    Build (fields: test_fields) (stages: "stage list") (disabled: bool) (max_retries: int)
      (retry_wait_seconds: int)
  | Test (fields: test_fields) (stages: "stage list") (disabled: bool)
  | Deployment (fields: test_fields) (portExpose: "(string \<times> int) list")

section \<open>Linearization\<close>

definition merge_dicts :: "('k \<times> 'v) list \<Rightarrow> ('k \<times> 'v) list \<Rightarrow> ('k \<times> 'v) list" where
  "merge_dicts d1 d2 = fold (\<lambda>(k, v) res. alist_set k v res) d2 d1"

text \<open>The candidate of \<open>merge\<close>: the first head that is in the tail of no sequence.\<close>

definition merge_candidate :: "'a list list \<Rightarrow> 'a option" where
  "merge_candidate seqs =
     find (\<lambda>cand. \<forall>s\<in>set seqs. cand \<notin> set (tl s)) (map hd seqs)"

definition remove_head :: "'a \<Rightarrow> 'a list \<Rightarrow> 'a list" where
  "remove_head cand sq = (if hd sq = cand then tl sq else sq)"

lemma merge_candidate_in: "merge_candidate seqs = Some c \<Longrightarrow> \<exists>s\<in>set seqs. c = hd s"
  by (auto simp: merge_candidate_def find_Some_iff)

lemma remove_head_length: "length (remove_head c s) \<le> length s"
  by (simp add: remove_head_def)

lemma remove_head_total:
  assumes "merge_candidate seqs = Some c" "\<forall>s\<in>set seqs. s \<noteq> []"
  shows "sum_list (map (\<lambda>s. length (remove_head c s)) seqs) < sum_list (map length seqs)"
proof -
  obtain s where s: "s \<in> set seqs" "c = hd s" using merge_candidate_in [OF assms(1)] by blast
  then have "length (remove_head c s) < length s"
    using assms(2) by (cases s) (auto simp: remove_head_def)
  with s(1) show ?thesis by (intro sum_list_less) (auto simp: remove_head_length)
qed

lemma sum_list_nonempty: "sum_list (map length (filter (\<lambda>s. s \<noteq> []) seqs)) = sum_list (map length seqs)"
  by (induction seqs) auto

function merge :: "'a list list \<Rightarrow> 'a list res" where
  "merge seqs =
     (let nonemptyseqs = filter (\<lambda>s. s \<noteq> []) seqs in
      if nonemptyseqs = [] then Inr []
      else case merge_candidate nonemptyseqs of
        None \<Rightarrow> Inl TypeError
      | Some cand \<Rightarrow> bindR (merge (map (remove_head cand) nonemptyseqs)) (\<lambda>res. Inr (cand # res)))"
  by pat_completeness auto

termination
proof (relation "measure (\<lambda>seqs. sum_list (map length seqs))")
  fix seqs nonemptyseqs :: "'a list list" and cand
  assume n: "nonemptyseqs = filter (\<lambda>s. s \<noteq> []) seqs" "merge_candidate nonemptyseqs = Some cand"
  then have "sum_list (map (\<lambda>s. length (remove_head cand s)) nonemptyseqs) < sum_list (map length nonemptyseqs)"
    by (intro remove_head_total) auto
  then show "(map (remove_head cand) nonemptyseqs, seqs) \<in> measure (\<lambda>seqs. sum_list (map length seqs))"
    by (simp add: n(1) sum_list_nonempty o_def)
qed simp

declare merge.simps [simp del]

subsection \<open>The linearization keeps every order\<close>

text \<open>A list that has each sequence as a subsequence and nothing twice.\<close>

definition linearizes :: "'a list list \<Rightarrow> 'a list \<Rightarrow> bool" where
  "linearizes seqs res \<longleftrightarrow> distinct res \<and> (\<forall>s\<in>set seqs. subseq s res)"

lemma remove_head_filter:
  "s \<noteq> [] \<Longrightarrow> c \<notin> set (tl s) \<Longrightarrow> remove_head c s = filter (\<lambda>x. x \<noteq> c) s"
proof -
  assume a: "s \<noteq> []" "c \<notin> set (tl s)"
  then obtain x xs where s: "s = x # xs" by (cases s) auto
  with a(2) have "filter (\<lambda>x. x \<noteq> c) xs = xs" by (auto simp: filter_id_conv)
  with s show ?thesis by (simp add: remove_head_def)
qed

lemma subseq_remove_head: "subseq (remove_head c s) r \<Longrightarrow> s \<noteq> [] \<Longrightarrow> subseq s (c # r)"
  by (cases s) (auto simp: remove_head_def)

lemma merge_sound:
  "merge seqs = Inr res \<Longrightarrow> linearizes seqs res \<and> set res = \<Union> (set (map set seqs))"
proof (induction seqs arbitrary: res rule: merge.induct)
  case (1 seqs)
  let ?ne = "filter (\<lambda>s. s \<noteq> []) seqs"
  show ?case
  proof (cases "?ne = []")
    case True
    then have "\<forall>s\<in>set seqs. s = []" by (simp add: filter_empty_conv)
    moreover have "res = []" using 1(2) True by (simp add: merge.simps [of seqs])
    ultimately show ?thesis by (auto simp: linearizes_def)
  next
    case False
    then obtain c r where c: "merge_candidate ?ne = Some c"
      and r: "merge (map (remove_head c) ?ne) = Inr r" and res: "res = c # r"
      using 1(2) by (auto simp: merge.simps [of seqs] Let_def bindR_Inr_conv split: option.splits)
    from 1(1) [OF refl False c r] have lin: "linearizes (map (remove_head c) ?ne) r"
      and sr: "set r = \<Union> (set (map set (map (remove_head c) ?ne)))" by auto
    have notin: "c \<notin> set (tl s)" if "s \<in> set ?ne" for s
      using c that by (auto simp: merge_candidate_def find_Some_iff)
    have "c \<notin> set (remove_head c s)" if "s \<in> set ?ne" for s
      using that notin [OF that] by (simp add: remove_head_filter)
    then have "c \<notin> set r" unfolding sr by auto
    moreover have "subseq s res" if "s \<in> set seqs" for s
      using lin that by (cases "s = []") (auto simp: linearizes_def res intro: subseq_remove_head)
    moreover have "set res = \<Union> (set (map set seqs))"
    proof -
      obtain s0 where s0: "s0 \<in> set ?ne" "c = hd s0" using merge_candidate_in [OF c] by blast
      have rm: "x \<in> set (remove_head c s) \<longleftrightarrow> x \<in> set s" if "s \<noteq> []" "x \<noteq> c" for s x
        using that by (cases s) (auto simp: remove_head_def)
      have "x \<in> set res \<longleftrightarrow> (\<exists>s\<in>set seqs. x \<in> set s)" for x
      proof (cases "x = c")
        case True
        moreover have "s0 \<in> set seqs" "c \<in> set s0" using s0 by auto
        ultimately show ?thesis by (auto simp: res)
      next
        case False
        have "x \<in> set res \<longleftrightarrow> (\<exists>s\<in>set ?ne. x \<in> set (remove_head c s))"
          using False by (simp add: res sr)
        also have "\<dots> \<longleftrightarrow> (\<exists>s\<in>set ?ne. x \<in> set s)" using rm [OF _ False] by auto
        also have "\<dots> \<longleftrightarrow> (\<exists>s\<in>set seqs. x \<in> set s)" by force
        finally show ?thesis .
      qed
      then show ?thesis by auto
    qed
    ultimately show ?thesis using lin by (simp add: linearizes_def res)
  qed
qed

text \<open>Where \<open>merge\<close> is stuck no order of the remaining elements keeps every sequence.\<close>

lemma subseq_setD: "subseq s r \<Longrightarrow> x \<in> set s \<Longrightarrow> x \<in> set r"
  by (auto dest: list_emb_set)

lemma linearizes_remove:
  assumes "linearizes seqs r" "\<forall>s\<in>set seqs. c \<notin> set (tl s)" "\<forall>s\<in>set seqs. s \<noteq> []"
  shows "linearizes (map (remove_head c) seqs) (filter (\<lambda>x. x \<noteq> c) r)"
  unfolding linearizes_def
proof (intro conjI ballI)
  show "distinct (filter (\<lambda>x. x \<noteq> c) r)" using assms(1) by (simp add: linearizes_def)
  fix t assume "t \<in> set (map (remove_head c) seqs)"
  then obtain s where s: "s \<in> set seqs" "t = remove_head c s" by auto
  have "t = filter (\<lambda>x. x \<noteq> c) s"
    using assms(2,3) s by (simp add: remove_head_filter)
  moreover have "subseq s r" using assms(1) s(1) by (simp add: linearizes_def)
  ultimately show "subseq t (filter (\<lambda>x. x \<noteq> c) r)" by (simp add: subseq_filter)
qed

lemma no_candidate_no_linearization:
  assumes "merge_candidate seqs = None" "seqs \<noteq> []" "\<forall>s\<in>set seqs. s \<noteq> []"
  shows "\<not> linearizes seqs r"
proof
  assume lin: "linearizes seqs r"
  define heads where "heads = {x. \<exists>s\<in>set seqs. x = hd s}"
  have hr: "heads \<subseteq> set r"
  proof
    fix x assume "x \<in> heads"
    then obtain s where "s \<in> set seqs" "x = hd s" by (auto simp: heads_def)
    with assms(3) lin have "x \<in> set s" "subseq s r" by (auto simp: linearizes_def)
    then show "x \<in> set r" by (auto intro: subseq_setD)
  qed
  have "heads \<noteq> {}" using assms(2) by (cases seqs) (auto simp: heads_def)
  with hr have "find (\<lambda>x. x \<in> heads) r \<noteq> None" by (auto simp: find_None_iff)
  then obtain h i where h: "h \<in> heads" "i < length r" "r ! i = h" "\<forall>j<i. r ! j \<notin> heads"
    by (auto simp: find_Some_iff)
  then obtain s where s: "s \<in> set seqs" "h \<in> set (tl s)"
    using assms(1) by (auto simp: merge_candidate_def find_None_iff heads_def)
  have "s \<noteq> []" using assms(3) s(1) by simp
  then have "subseq (hd s # tl s) r" using lin s(1) by (simp add: linearizes_def)
  then obtain a b where ab: "r = a @ hd s # b" "subseq (tl s) b"
    by (auto dest!: list_emb_ConsD)
  have hb: "h \<in> set b" using ab(2) s(2) by (auto intro: subseq_setD)
  have "hd s \<in> heads" using s(1) by (auto simp: heads_def)
  then have "i \<le> length a" using h(4) ab(1) by (metis leI nth_append_length)
  moreover have "distinct r" using lin by (simp add: linearizes_def)
  moreover obtain k where "k < length b" "b ! k = h" using hb by (metis in_set_conv_nth)
  then have "r ! (length a + 1 + k) = h" "length a + 1 + k < length r"
    by (simp_all add: ab(1) nth_append)
  ultimately have "i = length a + 1 + k" using h(2,3) by (metis nth_eq_iff_index_eq)
  with \<open>i \<le> length a\<close> show False by simp
qed

lemma merge_complete: "merge seqs = Inl e \<Longrightarrow> e = TypeError \<and> \<not> linearizes seqs r"
proof (induction seqs arbitrary: r rule: merge.induct)
  case (1 seqs)
  let ?ne = "filter (\<lambda>s. s \<noteq> []) seqs"
  have ne: "?ne \<noteq> []" using 1(2) by (auto simp: merge.simps [of seqs] split: if_splits)
  have lin: "linearizes ?ne r" if "linearizes seqs r" using that by (auto simp: linearizes_def)
  show ?case
  proof (cases "merge_candidate ?ne")
    case None
    then have "e = TypeError" using 1(2) ne by (simp add: merge.simps [of seqs])
    with no_candidate_no_linearization [OF None ne] lin show ?thesis by auto
  next
    case (Some c)
    then have m: "merge (map (remove_head c) ?ne) = Inl e"
      using 1(2) ne by (simp add: merge.simps [of seqs] bindR_Inl_conv)
    have "\<forall>s\<in>set ?ne. c \<notin> set (tl s)"
      using Some by (auto simp: merge_candidate_def find_Some_iff)
    then have "linearizes ?ne r \<Longrightarrow> linearizes (map (remove_head c) ?ne) (filter (\<lambda>x. x \<noteq> c) r)"
      by (intro linearizes_remove) auto
    with 1(1) [OF refl ne Some m] lin show ?thesis by blast
  qed
qed

text \<open>C17: \<open>merge\<close> computes a linearization of its sequences (nothing twice, every sequence in its own
  order, nothing else) whenever there is one, and raises exactly when there is none.\<close>

theorem merge_linearizes:
  "case merge seqs of
     Inr res \<Rightarrow> linearizes seqs res \<and> set res = (\<Union>s\<in>set seqs. set s)
   | Inl e \<Rightarrow> e = TypeError \<and> (\<nexists>res. linearizes seqs res)"
proof (cases "merge seqs")
  case (Inl e)
  with merge_complete [OF Inl] show ?thesis by simp
next
  case (Inr res)
  with merge_sound [OF Inr] show ?thesis by simp
qed

section \<open>Merging environments\<close>

type_synonym env_dict = "(environment_reference \<times> test_environment) list"

fun method_resolution_order ::
  "nat \<Rightarrow> env_dict \<Rightarrow> test_environment \<Rightarrow> test_environment list res" where
  "method_resolution_order 0 underlying env = Inl RecursionError"
| "method_resolution_order (Suc depth) underlying env =
     (case env of
        Environment _ _ _ \<Rightarrow> merge [[env]]
      | Import imps _ _ \<Rightarrow>
          bindR (mapR (\<lambda>d. bindR (lookupR (map_of underlying) d)
                         (method_resolution_order depth underlying)) (rev imps)) (\<lambda>orders.
          bindR (mapR (lookupR (map_of underlying)) (rev imps)) (\<lambda>parents.
            merge ([env] # orders @ map (\<lambda>p. [p]) parents))))"

fun merge_image_and_extra_setup :: "image \<Rightarrow> string \<Rightarrow> image res" where
  "merge_image_and_extra_setup img extra_setup =
     (if extra_setup = '''' then Inr img
      else case img of
        AMI ami script \<Rightarrow> Inr (AMI ami (script @ [CHR 0x0A] @ extra_setup))
      | DockerfileInline contents \<Rightarrow> Inr (DockerfileInline (contents @ [CHR 0x0A] @ extra_setup))
      | Dockerfile _ _ _ \<Rightarrow> Inl AssertionError)"

definition pickFirstNonzero :: "'a list \<Rightarrow> 'a \<Rightarrow> 'a" where
  "pickFirstNonzero xs zero = (case find (\<lambda>x. x \<noteq> zero) xs of Some x \<Rightarrow> x | None \<Rightarrow> zero)"

text \<open>The edges that the circularity check follows. A reference without an environment is a
  \<open>KeyError\<close>, which the linearization raises.\<close>

definition env_children :: "env_dict \<Rightarrow> test_environment \<Rightarrow> test_environment list" where
  "env_children underlying e =
     (case e of Environment _ _ _ \<Rightarrow> [] | Import imps _ _ \<Rightarrow> List.map_filter (map_of underlying) imps)"

definition extra_setups :: "test_environment list \<Rightarrow> string list" where
  "extra_setups order =
     List.map_filter (\<lambda>e. case e of Import _ setup _ \<Rightarrow> if setup \<noteq> '''' then Some setup else None
                            | Environment _ _ _ \<Rightarrow> None) order"

definition merged_fields :: "test_environment list \<Rightarrow> environment_fields" where
  "merged_fields order =
     (let fs = map env_fields order;
          below = rev (butlast fs)
      in \<lparr>environment_name = environment_name (hd fs),
          inheritance = map environment_name (tl fs),
          env_variables = fold (\<lambda>e vs. merge_dicts vs (env_variables e)) below (env_variables (last fs)),
          env_dependencies =
            fold (\<lambda>e ds. merge_dicts ds (env_dependencies e)) below (env_dependencies (last fs)),
          test_configuration = pickFirstNonzero (map test_configuration fs) '''',
          test_stages = concat (map test_stages (rev fs)),
          test_timeout = pickFirstNonzero (map test_timeout fs) 0,
          test_min_cores = pickFirstNonzero (map test_min_cores fs) 0,
          test_max_cores = pickFirstNonzero (map test_max_cores fs) 0,
          test_min_ram_gb = pickFirstNonzero (map test_min_ram_gb fs) 0,
          test_min_disk_gb = pickFirstNonzero (map test_min_disk_gb fs) 0,
          test_max_retries = pickFirstNonzero (map test_max_retries fs) 0,
          test_retry_wait_seconds = pickFirstNonzero (map test_retry_wait_seconds fs) 0\<rparr>)"

definition merge_in_order :: "test_environment list \<Rightarrow> test_environment res" where
  "merge_in_order order =
     (case filter is_Environment order of
        [] \<Rightarrow> Inr (Import [] (py_join [CHR 0x0A] (rev (extra_setups order))) (merged_fields order))
      | [actual] \<Rightarrow>
          bindR (if extra_setups order \<noteq> []
                 then merge_image_and_extra_setup (env_image actual)
                        (py_join [CHR 0x0A] (rev (extra_setups order)))
                 else Inr (env_image actual)) (\<lambda>img.
            Inr (Environment (env_platform actual) img (merged_fields order)))
      | _ \<Rightarrow> Inl AssertionError)"

definition merge_environments ::
  "nat \<Rightarrow> test_environment \<Rightarrow> env_dict \<Rightarrow> test_environment res" where
  "merge_environments depth import_environment underlying =
     bindR (assertR (\<not> is_Environment import_environment) AssertionError) (\<lambda>_.
     bindR (assertGraphHasNoCycles depth import_environment (env_children underlying)) (\<lambda>_.
     bindR (method_resolution_order depth underlying import_environment) merge_in_order))"

section \<open>Applying variables\<close>

fun substitute_variables_in_image :: "image \<Rightarrow> vardefs \<Rightarrow> image" where
  "substitute_variables_in_image (AMI ami script) vars = AMI ami (substitute_variables script vars)"
| "substitute_variables_in_image img vars = img"

fun apply_substitutions_to_dependency :: "test_dependency \<Rightarrow> vardefs \<Rightarrow> test_dependency" where
  "apply_substitutions_to_dependency (DepInternalBuild n) vs = DepInternalBuild (substitute_variables n vs)"
| "apply_substitutions_to_dependency (DepExternalBuild r h n) vs =
     DepExternalBuild r h (substitute_variables n vs)"
| "apply_substitutions_to_dependency (DepUnresolvedSource r p) vs =
     DepUnresolvedSource r (substitute_variables p vs)"
| "apply_substitutions_to_dependency (DepUnresolvedExternalBuild r n) vs =
     DepUnresolvedExternalBuild r (substitute_variables n vs)"
| "apply_substitutions_to_dependency (DepSource r h p) vs = DepSource r h p"
| "apply_substitutions_to_dependency (DepBuild n h a) vs = DepBuild n h a"

definition apply_substitutions_to_dependencies ::
  "(string \<times> test_dependency) list \<Rightarrow> vardefs \<Rightarrow> (string \<times> test_dependency) list" where
  "apply_substitutions_to_dependencies deps vs =
     fold (\<lambda>(k, v). alist_set (substitute_variables k vs) (apply_substitutions_to_dependency v vs))
       deps []"

text \<open>\<open>None\<close> is a call that does not return.\<close>

definition apply_environment_substitutions :: "test_environment \<Rightarrow> test_environment res option" where
  "apply_environment_substitutions env =
     map_option (\<lambda>vardefs.
       bindR vardefs (\<lambda>vardefs.
       let deps = apply_substitutions_to_dependencies (env_dependencies (env_fields env)) vardefs;
           new = (env_fields env)\<lparr>env_variables := vardefs, env_dependencies := deps\<rparr>
       in if \<exists>d\<in>set (map fst deps). CHR ''$'' \<in> set d then Inl AssertionError
          else Inr (case env of
                 Environment p img _ \<Rightarrow> Environment p (substitute_variables_in_image img vardefs) new
               | Import imps setup _ \<Rightarrow> Import imps (substitute_variables setup vardefs) new)))
     (apply_variable_substitutions_and_merge_repeatedly (env_variables (env_fields env)) [])"

definition apply_variable_substitution_to_artifact :: "vardefs \<Rightarrow> artifact \<Rightarrow> artifact" where
  "apply_variable_substitution_to_artifact vs a =
     a\<lparr>artifact_name := substitute_variables (artifact_name a) vs,
       directory := substitute_variables (directory a) vs,
       include_patterns := map (\<lambda>i. substitute_variables i vs) (include_patterns a),
       exclude_patterns := map (\<lambda>i. substitute_variables i vs) (exclude_patterns a)\<rparr>"

definition apply_variable_substitutions_to_stage :: "vardefs \<Rightarrow> stage \<Rightarrow> stage" where
  "apply_variable_substitutions_to_stage vs s =
     s\<lparr>command := substitute_variables (command s) vs,
       cleanup := substitute_variables (cleanup s) vs,
       artifacts := map (apply_variable_substitution_to_artifact vs) (artifacts s)\<rparr>"

definition apply_variable_substitution_to_stages :: "stage list \<Rightarrow> vardefs \<Rightarrow> stage list" where
  "apply_variable_substitution_to_stages ss vs = map (apply_variable_substitutions_to_stage vs) ss"

definition or_else :: "int \<Rightarrow> int \<Rightarrow> int" where
  "or_else x y = (if x \<noteq> 0 then x else y)"

definition test_with_environment ::
  "test_definition \<Rightarrow> test_environment \<Rightarrow> (string \<times> test_dependency) list \<Rightarrow> vardefs \<Rightarrow>
   test_definition" where
  "test_with_environment test env deps vardefs =
     (let t = fields test; e = env_fields env;
          config = (if configuration t \<noteq> '''' then configuration t
                    else if test_configuration e \<noteq> '''' then test_configuration e
                    else test_environment_name t);
          proj = (if project t \<noteq> '''' then project t else hd (py_split (CHR ''/'') (test_name t)));
          made = \<lparr>test_hash = test_hash t, test_name = test_name t,
                  configuration = substitute_variables config vardefs,
                  project = substitute_variables proj vardefs,
                  test_environment_name = test_environment_name t,
                  environment_mixins = environment_mixins t, environment = Some env,
                  dependencies = deps, variables = vardefs,
                  timeout = or_else (timeout t) (test_timeout e),
                  min_cores = or_else (min_cores t) (test_min_cores e),
                  max_cores = or_else (max_cores t) (test_max_cores e),
                  min_ram_gb = or_else (min_ram_gb t) (test_min_ram_gb e),
                  min_disk_gb = or_else (min_disk_gb t) (test_min_disk_gb e)\<rparr>
      in case test of
        Build _ ss dis retries wait \<Rightarrow>
          Build made (apply_variable_substitution_to_stages (test_stages e @ ss) vardefs) dis retries wait
      | Test _ ss dis \<Rightarrow>
          Test made (apply_variable_substitution_to_stages (test_stages e @ ss) vardefs) dis
      | Deployment _ ports \<Rightarrow> Deployment made ports)"

definition bindO :: "'a res option \<Rightarrow> ('a \<Rightarrow> 'b res option) \<Rightarrow> 'b res option" where
  "bindO r f = (case r of None \<Rightarrow> None | Some (Inl e) \<Rightarrow> Some (Inl e) | Some (Inr v) \<Rightarrow> f v)"

definition apply_environment_to_test ::
  "test_definition \<Rightarrow> test_environment \<Rightarrow> vardefs \<Rightarrow> test_definition res option" where
  "apply_environment_to_test test env input_var_defs =
     bindO (apply_variable_substitutions_and_merge_repeatedly
              (merge_dicts (env_variables (env_fields env)) (variables (fields test))) []) (\<lambda>vardefs.
     let deps = apply_substitutions_to_dependencies (dependencies (fields test)) vardefs in
     bindO (apply_variable_substitutions_and_merge_repeatedly vardefs input_var_defs) (\<lambda>vardefs.
       Some (Inr (test_with_environment test env deps vardefs))))"

definition test_with_stages :: "test_definition \<Rightarrow> vardefs \<Rightarrow> test_definition" where
  "test_with_stages test vardefs =
     (case test of
        Build t ss dis retries wait \<Rightarrow>
          Build (t\<lparr>variables := vardefs\<rparr>) (apply_variable_substitution_to_stages ss vardefs) dis retries wait
      | Test t ss dis \<Rightarrow>
          Test (t\<lparr>variables := vardefs\<rparr>) (apply_variable_substitution_to_stages ss vardefs) dis
      | Deployment t ports \<Rightarrow> Deployment (t\<lparr>variables := vardefs\<rparr>) ports)"

text \<open>The code computes the substituted dependencies here too, and does not use them.\<close>

definition apply_variable_substitution_to_test ::
  "test_definition \<Rightarrow> vardefs \<Rightarrow> test_definition res option" where
  "apply_variable_substitution_to_test test input_var_defs =
     bindO (apply_variable_substitutions_and_merge_repeatedly (variables (fields test)) []) (\<lambda>vardefs.
     bindO (apply_variable_substitutions_and_merge_repeatedly vardefs input_var_defs) (\<lambda>vardefs.
       Some (Inr (test_with_stages test vardefs))))"

section \<open>Inheritance\<close>

lemma assertGraphHasNoCycles_acyclic:
  assumes "assertGraphHasNoCycles d start f = Inr u"
  shows "\<forall>n. (start, n) \<in> (edges f)\<^sup>* \<longrightarrow> (n, n) \<notin> (edges f)\<^sup>+"
proof -
  have r: "find_cycle_roots d f [start] [] = Inr None"
    using assms by (auto simp: assertGraphHasNoCycles_def graphFindCycle_def
        graphFindCycleMultipleRoots_def bindR_Inr_conv split: option.splits)
  have "safe_nodes f []" by (simp add: safe_nodes_def closed_under_def)
  from find_cycle_roots_spec [OF r this] show ?thesis by (auto dest: safe_nodes_acyclic)
qed

lemma merge_head:
  assumes "merge ([x] # seqs) = Inr res" "\<forall>s\<in>set seqs. x \<notin> set s"
  shows "\<exists>r. res = x # r"
proof -
  have "\<forall>s\<in>set seqs. x \<notin> set (tl s)" using assms(2) by (metis list.set_sel(2) tl_Nil)
  then have "merge_candidate ([x] # filter (\<lambda>s. s \<noteq> []) seqs) = Some x"
    by (simp add: merge_candidate_def)
  then show ?thesis using assms(1) by (auto simp: merge.simps [of "[x] # seqs"] bindR_Inr_conv)
qed

lemma mapR_set: "mapR f xs = Inr ys \<Longrightarrow> y \<in> set ys \<Longrightarrow> \<exists>x\<in>set xs. f x = Inr y"
  by (auto simp: mapR_Inr_iff list_all2_conv_all_nth in_set_conv_nth [of y]) (metis nth_mem)

lemma map_filter_mem: "y \<in> set (List.map_filter f xs) \<longleftrightarrow> (\<exists>x\<in>set xs. f x = Some y)"
  by (force simp: List.map_filter_def)

lemma mro_reach:
  "method_resolution_order d u e = Inr order \<Longrightarrow> n \<in> set order \<Longrightarrow>
   (e, n) \<in> (edges (env_children u))\<^sup>*"
proof (induction d arbitrary: e order n)
  case (Suc d)
  show ?case
  proof (cases e)
    case (Environment p img fs)
    with Suc.prems merge_sound [of "[[e]]" order] show ?thesis by auto
  next
    case (Import imps scr fs)
    then obtain orders parents where o: "mapR (\<lambda>d'. bindR (lookupR (map_of u) d')
        (method_resolution_order d u)) (rev imps) = Inr orders"
      and p: "mapR (lookupR (map_of u)) (rev imps) = Inr parents"
      and m: "merge ([e] # orders @ map (\<lambda>p. [p]) parents) = Inr order"
      using Suc.prems(1) by (auto simp: bindR_Inr_conv)
    have edge: "(e, f) \<in> edges (env_children u)" if "i \<in> set imps" "map_of u i = Some f" for i f
      using that Import by (auto simp: env_children_def map_filter_mem)
    from merge_sound [OF m] Suc.prems(2) consider "n = e"
      | os where "os \<in> set orders" "n \<in> set os" | "n \<in> set parents" by auto
    then show ?thesis
    proof cases
      case 2
      from mapR_set [OF o 2(1)] obtain i f where i: "i \<in> set imps" "map_of u i = Some f"
        "method_resolution_order d u f = Inr os"
        by (auto simp: bindR_Inr_conv lookupR_def split: option.splits)
      from Suc.IH [OF i(3) 2(2)] edge [OF i(1,2)] show ?thesis
        by (rule converse_rtrancl_into_rtrancl [rotated])
    next
      case 3
      from mapR_set [OF p 3] obtain i where "i \<in> set imps" "map_of u i = Some n"
        by (auto simp: lookupR_def split: option.splits)
      with edge show ?thesis by blast
    qed simp
  qed
qed simp

lemma mro_head:
  assumes "method_resolution_order d u e = Inr order" "(e, e) \<notin> (edges (env_children u))\<^sup>+"
  shows "distinct order \<and> (\<exists>r. order = e # r)"
proof (cases d)
  case (Suc d')
  show ?thesis
  proof (cases e)
    case (Environment p img fs)
    then have m: "merge [[e]] = Inr order" using assms(1) Suc by simp
    from merge_sound [OF m] merge_head [of e "[]" order] m show ?thesis
      by (simp add: linearizes_def)
  next
    case (Import imps scr fs)
    then obtain orders parents where o: "mapR (\<lambda>i. bindR (lookupR (map_of u) i)
        (method_resolution_order d' u)) (rev imps) = Inr orders"
      and p: "mapR (lookupR (map_of u)) (rev imps) = Inr parents"
      and m: "merge ([e] # orders @ map (\<lambda>p. [p]) parents) = Inr order"
      using assms(1) Suc by (auto simp: bindR_Inr_conv)
    have edge: "(e, f) \<in> edges (env_children u)" if "i \<in> set imps" "map_of u i = Some f" for i f
      using that Import by (auto simp: env_children_def map_filter_mem)
    have "e \<notin> set os" if os: "os \<in> set orders" for os
    proof
      assume "e \<in> set os"
      from mapR_set [OF o os] obtain i f where i: "i \<in> set imps" "map_of u i = Some f"
        "method_resolution_order d' u f = Inr os"
        by (auto simp: bindR_Inr_conv lookupR_def split: option.splits)
      from mro_reach [OF i(3) \<open>e \<in> set os\<close>] edge [OF i(1,2)] assms(2) show False
        by (meson rtrancl_into_trancl2)
    qed
    moreover have "e \<notin> set parents"
    proof
      assume "e \<in> set parents"
      from mapR_set [OF p this] obtain i where "i \<in> set imps" "map_of u i = Some e"
        by (auto simp: lookupR_def split: option.splits)
      with edge assms(2) show False by blast
    qed
    ultimately have "\<forall>s\<in>set (orders @ map (\<lambda>p. [p]) parents). e \<notin> set s" by auto
    from merge_head [OF m this] merge_sound [OF m] show ?thesis by (simp add: linearizes_def)
  qed
qed (use assms(1) in simp)

fun first_defined :: "('a \<Rightarrow> 'b option) \<Rightarrow> 'a list \<Rightarrow> 'b option" where
  "first_defined f [] = None"
| "first_defined f (x # xs) = (case f x of Some v \<Rightarrow> Some v | None \<Rightarrow> first_defined f xs)"

lemma map_of_merge_dicts:
  "distinct (map fst d2) \<Longrightarrow> map_of (merge_dicts d1 d2) k =
   (case map_of d2 k of Some v \<Rightarrow> Some v | None \<Rightarrow> map_of d1 k)"
  unfolding merge_dicts_def
proof (induction d2 arbitrary: d1)
  case (Cons a d2)
  then have "map_of d2 (fst a) = None" by (simp add: map_of_eq_None_iff)
  with Cons show ?case by (cases a) (auto split: option.splits)
qed simp

lemma fold_merge_dicts:
  assumes "fs \<noteq> []" "\<forall>e\<in>set fs. distinct (map fst (g e))"
  shows "map_of (fold (\<lambda>e vs. merge_dicts vs (g e)) (rev (butlast fs)) (g (last fs))) k =
    first_defined (\<lambda>e. map_of (g e) k) fs"
  using assms
proof (induction fs)
  case (Cons x xs)
  show ?case
  proof (cases xs)
    case Nil
    then show ?thesis by (simp split: option.split)
  next
    case (Cons y ys)
    then have ne: "xs \<noteq> []" by simp
    with Cons.IH Cons.prems(2) have
      "map_of (fold (\<lambda>e vs. merge_dicts vs (g e)) (rev (butlast xs)) (g (last xs))) k =
        first_defined (\<lambda>e. map_of (g e) k) xs" by simp
    with ne Cons.prems(2) show ?thesis by (simp add: map_of_merge_dicts split: option.split)
  qed
qed simp

lemma first_defined_map: "first_defined f (map g xs) = first_defined (\<lambda>x. f (g x)) xs"
  by (induction xs) (auto split: option.split)

definition proper_dicts :: "test_environment \<Rightarrow> bool" where
  "proper_dicts e \<longleftrightarrow> distinct (map fst (env_variables (env_fields e))) \<and>
     distinct (map fst (env_dependencies (env_fields e)))"

text \<open>What \<open>merge_environments\<close> promises: along a linearization that starts with the importing
  environment, each variable and each dependency is taken from the first environment that defines it.\<close>

definition inherits_along :: "test_environment list \<Rightarrow> environment_fields \<Rightarrow> bool" where
  "inherits_along order fs \<longleftrightarrow>
     (\<forall>k. map_of (env_variables fs) k =
        first_defined (\<lambda>e. map_of (env_variables (env_fields e)) k) order) \<and>
     (\<forall>k. map_of (env_dependencies fs) k =
        first_defined (\<lambda>e. map_of (env_dependencies (env_fields e)) k) order) \<and>
     environment_name fs = environment_name (env_fields (hd order)) \<and>
     inheritance fs = map (\<lambda>e. environment_name (env_fields e)) (tl order)"

lemma merged_fields_inherits:
  assumes "order \<noteq> []" "\<forall>e\<in>set order. proper_dicts e"
  shows "inherits_along order (merged_fields order)"
  using assms fold_merge_dicts [of "map env_fields order" env_variables]
    fold_merge_dicts [of "map env_fields order" env_dependencies]
  by (auto simp: inherits_along_def merged_fields_def Let_def proper_dicts_def first_defined_map
      hd_map map_tl o_def)

lemma mro_members:
  assumes "method_resolution_order d u e = Inr order" "n \<in> set order"
  shows "n = e \<or> n \<in> snd ` set u"
  using mro_reach [OF assms]
proof (cases rule: rtranclE)
  case (step y)
  then have "n \<in> set (env_children u y)" by simp
  then show ?thesis by (cases y) (force simp: env_children_def map_filter_mem dest: map_of_SomeD)+
qed simp


definition demo_fields :: "string \<Rightarrow> vardefs \<Rightarrow> environment_fields" where
  "demo_fields n vs =
     \<lparr>environment_name = n, inheritance = [], env_variables = vs, env_dependencies = [],
      test_configuration = '''', test_stages = [], test_timeout = 0, test_min_cores = 0,
      test_max_cores = 0, test_min_ram_gb = 0, test_min_disk_gb = 0, test_max_retries = 0,
      test_retry_wait_seconds = 0\<rparr>"

definition demo_base :: test_environment where
  "demo_base = Environment linux (DockerfileInline ''FROM x'') (demo_fields ''base'' [(''A'', ''1'')])"

definition demo_import :: test_environment where
  "demo_import = Import [Reference ''r'' ''h'' ''base''] '''' (demo_fields ''top'' [(''A'', ''2''), (''B'', ''3'')])"

definition demo_deps :: env_dict where
  "demo_deps = [(Reference ''r'' ''h'' ''base'', demo_base)]"


end
