(* ===== verification/Machine_Management.thy ===== *)
theory Machine_Management
  imports Py_String
begin

text \<open>
  \<^verbatim>\<open>test_looper/core/machine_management/MachineManagement.py\<close>: the books that the server keeps about
  the worker machines it has booted (\<open>MachineManagement\<close>), and its three implementations. What the
  cloud or the local docker daemon answers is an argument: the id of a new instance, the set of
  instances that are up, the listing of prepared images. A lock around a method is not modelled,
  as every method body is one step.
\<close>

datatype os_config =
    LinuxWithDocker
  | WindowsWithDocker
  | WindowsVM (ami: string) (setupHash: string)
  | LinuxVM (ami: string) (setupHash: string)

record hardware =
  cores :: int
  ram_gb :: int

record mm_config =
  max_ram_gb :: int
  max_cores :: int
  max_workers :: int

text \<open>\<open>runningMachines\<close> maps a machine to a worker object or to \<open>True\<close>; only its keys are kept.
  \<open>windows_oneshots\<close> is the counter of \<open>LocalMachineManagement\<close>.\<close>

record mm_state =
  config :: mm_config
  hardwareConfigs :: "(string \<times> hardware) list"
  osConfigs :: "(string \<times> os_config) list"
  runningMachines :: "(string \<times> unit) list"
  ram_gb_booted :: int
  cores_booted :: int
  windowsOsConfigsAvailable :: "os_config list"
  windowsOsConfigsBeingCreated :: "os_config list"
  invalidWindowsOsConfigs :: "os_config list"
  windows_oneshots :: nat

definition new_machine_management :: "mm_config \<Rightarrow> mm_state" where
  "new_machine_management cfg =
     \<lparr>config = cfg, hardwareConfigs = [], osConfigs = [], runningMachines = [], ram_gb_booted = 0,
      cores_booted = 0, windowsOsConfigsAvailable = [], windowsOsConfigsBeingCreated = [],
      invalidWindowsOsConfigs = [], windows_oneshots = 0\<rparr>"

section \<open>The base class\<close>

definition canBoot :: "mm_state \<Rightarrow> hardware \<Rightarrow> bool" where
  "canBoot s hw =
     (let cfg = config s in
      if \<not> (ram_gb_booted s + ram_gb hw \<le> max_ram_gb cfg \<or> max_ram_gb cfg \<le> 0) then False
      else if \<not> (cores_booted s + cores hw \<le> max_cores cfg \<or> max_cores cfg \<le> 0) then False
      else if \<not> (int (length (runningMachines s)) + 1 \<le> max_workers cfg \<or> max_workers cfg \<le> 0) then False
      else True)"

definition machineBooted ::
  "string \<Rightarrow> hardware \<Rightarrow> os_config \<Rightarrow> bool \<Rightarrow> mm_state \<Rightarrow> mm_state res" where
  "machineBooted machineId hw os nocheck s =
     (if \<not> nocheck \<and> \<not> canBoot s hw then Inl AssertionError
      else Inr (s\<lparr>hardwareConfigs := alist_set machineId hw (hardwareConfigs s),
                  osConfigs := alist_set machineId os (osConfigs s),
                  runningMachines := alist_set machineId () (runningMachines s),
                  ram_gb_booted := ram_gb_booted s + ram_gb hw,
                  cores_booted := cores_booted s + cores hw\<rparr>))"

definition machineRemoved :: "string \<Rightarrow> mm_state \<Rightarrow> mm_state res" where
  "machineRemoved machineId s =
     bindR (lookupR (map_of (hardwareConfigs s)) machineId) (\<lambda>hw.
     bindR (lookupR (map_of (osConfigs s)) machineId) (\<lambda>_.
     bindR (lookupR (map_of (runningMachines s)) machineId) (\<lambda>_.
       Inr (s\<lparr>hardwareConfigs := alist_del machineId (hardwareConfigs s),
              osConfigs := alist_del machineId (osConfigs s),
              runningMachines := alist_del machineId (runningMachines s),
              ram_gb_booted := ram_gb_booted s - ram_gb hw,
              cores_booted := cores_booted s - cores hw\<rparr>))))"

definition worker_alive :: "string \<Rightarrow> mm_state \<Rightarrow> bool" where
  "worker_alive machineId s \<longleftrightarrow> machineId \<in> set (map fst (runningMachines s))"

text \<open>The answer of \<open>boot_worker\<close>: a machine id, the exception \<open>UnbootableWorkerCombination\<close>, or
  another exception.\<close>

datatype boot_result = Booted string | Unbootable | BootFailed py_error

type_synonym known_workers = "(string \<times> (hardware \<times> os_config)) list"

definition remove_unknown :: "known_workers \<Rightarrow> mm_state \<Rightarrow> mm_state res" where
  "remove_unknown machineIds s =
     foldR machineRemoved
       (filter (\<lambda>m. m \<notin> set (map fst machineIds)) (map fst (runningMachines s))) s"

definition appear_dead :: "known_workers \<Rightarrow> mm_state \<Rightarrow> string list" where
  "appear_dead machineIds s = filter (\<lambda>m. \<not> worker_alive m s) (map fst machineIds)"

section \<open>DummyMachineManagement\<close>

definition dummy_hardware_configs :: "hardware list" where
  "dummy_hardware_configs = [\<lparr>cores = 1, ram_gb = 4\<rparr>, \<lparr>cores = 4, ram_gb = 16\<rparr>]"

definition dummy_synchronize_workers ::
  "known_workers \<Rightarrow> mm_state \<Rightarrow> (string list \<times> mm_state) res" where
  "dummy_synchronize_workers machineIds s =
     bindR (remove_unknown machineIds s) (\<lambda>s. Inr (appear_dead machineIds s, s))"

definition dummy_terminate_worker :: "string \<Rightarrow> mm_state \<Rightarrow> mm_state res" where
  "dummy_terminate_worker machineId s =
     (if worker_alive machineId s then machineRemoved machineId s else Inl AssertionError)"

text \<open>\<open>uuid\<close> is the machine id made from \<open>uuid4\<close>.\<close>

definition dummy_boot_worker ::
  "string \<Rightarrow> hardware \<Rightarrow> os_config \<Rightarrow> mm_state \<Rightarrow> boot_result \<times> mm_state" where
  "dummy_boot_worker uuid hw os s =
     (if hw \<notin> set dummy_hardware_configs then (BootFailed AssertionError, s)
      else case os of
        WindowsVM a _ \<Rightarrow>
          if \<not> starts_with ''ami-'' a then (Unbootable, s)
          else (case machineBooted uuid hw os False s of
                  Inl e \<Rightarrow> (BootFailed e, s) | Inr s' \<Rightarrow> (Booted uuid, s'))
      | _ \<Rightarrow> (case machineBooted uuid hw os False s of
                Inl e \<Rightarrow> (BootFailed e, s) | Inr s' \<Rightarrow> (Booted uuid, s')))"

section \<open>LocalMachineManagement\<close>

definition local_hardware_configs :: "hardware list" where
  "local_hardware_configs = [\<lparr>cores = 1, ram_gb = 4\<rparr>]"

definition local_synchronize_workers ::
  "known_workers \<Rightarrow> mm_state \<Rightarrow> (string list \<times> mm_state) res" where
  "local_synchronize_workers machineIds s =
     bindR (remove_unknown machineIds s) (\<lambda>s. Inr (appear_dead machineIds s, s))"

definition local_terminate_worker :: "string \<Rightarrow> mm_state \<Rightarrow> mm_state res" where
  "local_terminate_worker machineId s =
     (if worker_alive machineId s then machineRemoved machineId s else Inr s)"

fun digits :: "nat \<Rightarrow> string" where
  "digits n = (if n < 10 then [char_of (48 + n)] else digits (n div 10) @ [char_of (48 + n mod 10)])"

declare digits.simps [simp del]

definition local_boot_worker ::
  "string \<Rightarrow> hardware \<Rightarrow> os_config \<Rightarrow> mm_state \<Rightarrow> boot_result \<times> mm_state" where
  "local_boot_worker uuid hw os s =
     (if hw \<notin> set local_hardware_configs then (BootFailed AssertionError, s)
      else case os of
        WindowsVM _ _ \<Rightarrow>
          let machineId = ''worker_'' @ digits (windows_oneshots s);
              s1 = s\<lparr>windows_oneshots := windows_oneshots s + 1\<rparr>
          in (case machineBooted machineId hw os False s1 of
                Inl e \<Rightarrow> (BootFailed e, s1) | Inr s' \<Rightarrow> (Booted machineId, s'))
      | LinuxWithDocker \<Rightarrow>
          (case machineBooted uuid hw os False s of
             Inl e \<Rightarrow> (BootFailed e, s) | Inr s' \<Rightarrow> (Booted uuid, s'))
      | _ \<Rightarrow> (Unbootable, s))"

section \<open>AwsMachineManagement\<close>

definition classify_image ::
  "((string \<times> string) \<times> string) \<Rightarrow> mm_state \<Rightarrow> mm_state" where
  "classify_image entry s =
     (case entry of ((a, h), status) \<Rightarrow>
        let os = WindowsVM a h in
        if status \<in> {''In progress'', ''Awaiting snapshot'', ''Snapshotting''}
        then s\<lparr>windowsOsConfigsBeingCreated := List.insert os (windowsOsConfigsBeingCreated s)\<rparr>
        else if status = ''Failed''
        then s\<lparr>invalidWindowsOsConfigs := List.insert os (invalidWindowsOsConfigs s)\<rparr>
        else if status = ''Complete''
        then s\<lparr>windowsOsConfigsAvailable := List.insert os (windowsOsConfigsAvailable s)\<rparr>
        else s)"

definition updateOsConfigsAvailable ::
  "((string \<times> string) \<times> string) list \<Rightarrow> mm_state \<Rightarrow> mm_state" where
  "updateOsConfigsAvailable listing s =
     fold classify_image listing
       (s\<lparr>windowsOsConfigsAvailable := [], windowsOsConfigsBeingCreated := [],
          invalidWindowsOsConfigs := []\<rparr>)"

fun is_WindowsVM :: "os_config \<Rightarrow> bool" where
  "is_WindowsVM (WindowsVM _ _) = True"
| "is_WindowsVM _ = False"

fun is_LinuxVM :: "os_config \<Rightarrow> bool" where
  "is_LinuxVM (LinuxVM _ _) = True"
| "is_LinuxVM _ = False"

text \<open>\<open>instance_types\<close> maps hardware to the instance type of the cloud.\<close>

type_synonym instance_types = "(hardware \<times> string) list"

definition aws_hardware_configs :: "instance_types \<Rightarrow> hardware list" where
  "aws_hardware_configs instance_types = sort_key cores (map fst instance_types)"

definition aws_canBoot :: "instance_types \<Rightarrow> mm_state \<Rightarrow> hardware \<Rightarrow> os_config \<Rightarrow> bool" where
  "aws_canBoot instance_types s hw os =
     (if hw \<notin> set (map fst instance_types) then False
      else if is_WindowsVM os \<and> os \<notin> set (windowsOsConfigsAvailable s) then False
      else canBoot s hw)"

definition wantsToSeeSetupScriptForOsConfig :: "mm_state \<Rightarrow> os_config \<Rightarrow> bool" where
  "wantsToSeeSetupScriptForOsConfig s os =
     (if is_WindowsVM os then
        if os \<in> set (invalidWindowsOsConfigs s) then False
        else if os \<in> set (windowsOsConfigsAvailable s) then False
        else if os \<notin> set (windowsOsConfigsBeingCreated s) then True
        else False
      else False)"

definition isOsConfigInvalid :: "mm_state \<Rightarrow> os_config \<Rightarrow> bool" where
  "isOsConfigInvalid s os \<longleftrightarrow> os \<in> set (invalidWindowsOsConfigs s)"

definition ensureOsConfigAvailable :: "os_config \<Rightarrow> mm_state \<Rightarrow> mm_state res" where
  "ensureOsConfigAvailable os s =
     (if \<not> is_WindowsVM os then Inl AssertionError
      else if os \<in> set (windowsOsConfigsBeingCreated s) then Inr s
      else Inr (s\<lparr>windowsOsConfigsBeingCreated := os # windowsOsConfigsBeingCreated s\<rparr>))"

text \<open>\<open>active\<close> are the instances the cloud reports; terminating the unknown ones changes nothing here.\<close>

definition aws_synchronize_workers ::
  "string list \<Rightarrow> known_workers \<Rightarrow> mm_state \<Rightarrow> (string list \<times> mm_state) res" where
  "aws_synchronize_workers active machineIds s =
     (let machinesThatAppearDead = filter (\<lambda>m. m \<notin> set active) (map fst machineIds) in
      bindR (foldR (\<lambda>m s. if worker_alive m s then machineRemoved m s else Inr s)
               machinesThatAppearDead s) (\<lambda>s.
      bindR (foldR (\<lambda>(m, hw, os) s. if m \<in> set active then machineBooted m hw os True s else Inr s)
               machineIds s) (\<lambda>s.
        Inr (machinesThatAppearDead, s))))"

text \<open>\<open>api_ok\<close>: the call that terminates the instance does not raise.\<close>

definition aws_terminate_worker :: "bool \<Rightarrow> string \<Rightarrow> mm_state \<Rightarrow> mm_state res" where
  "aws_terminate_worker api_ok machineId s =
     (if worker_alive machineId s
      then (if api_ok then machineRemoved machineId s else Inl (UserException ''terminate failed''))
      else Inl (UserException ''not in our list of running instances''))"

text \<open>\<open>instance\<close> is the id of the instance the cloud boots, or the exception of the call.\<close>

definition aws_boot_worker ::
  "instance_types \<Rightarrow> string res \<Rightarrow> hardware \<Rightarrow> os_config \<Rightarrow> mm_state \<Rightarrow> boot_result \<times> mm_state" where
  "aws_boot_worker instance_types new_instance hw os s =
     (if \<not> aws_canBoot instance_types s hw os then (BootFailed AssertionError, s)
      else if os = LinuxWithDocker \<or> is_WindowsVM os then
        (case new_instance of
           Inl e \<Rightarrow> (BootFailed e, s)
         | Inr machineId \<Rightarrow>
             (case machineBooted machineId hw os False s of
                Inl e \<Rightarrow> (BootFailed e, s) | Inr s' \<Rightarrow> (Booted machineId, s')))
      else (Unbootable, s))"

section \<open>The books agree with the machines\<close>

definition mm_ok :: "mm_state \<Rightarrow> bool" where
  "mm_ok s \<longleftrightarrow>
     distinct (map fst (hardwareConfigs s)) \<and> distinct (map fst (osConfigs s)) \<and>
     distinct (map fst (runningMachines s)) \<and>
     set (map fst (osConfigs s)) = set (map fst (hardwareConfigs s)) \<and>
     set (map fst (runningMachines s)) = set (map fst (hardwareConfigs s)) \<and>
     ram_gb_booted s = sum_list (map (\<lambda>p. ram_gb (snd p)) (hardwareConfigs s)) \<and>
     cores_booted s = sum_list (map (\<lambda>p. cores (snd p)) (hardwareConfigs s))"

lemma mm_ok_new: "mm_ok (new_machine_management cfg)"
  by (simp add: mm_ok_def new_machine_management_def)

lemma sum_alist_set:
  fixes g :: "'v \<Rightarrow> int"
  shows "k \<notin> set (map fst d) \<Longrightarrow>
    sum_list (map (\<lambda>p. g (snd p)) (alist_set k v d)) = sum_list (map (\<lambda>p. g (snd p)) d) + g v"
  by (induction d) auto

lemma alist_del_absent: "k \<notin> set (map fst d) \<Longrightarrow> alist_del k d = d"
  by (induction d) (auto simp: alist_del_def)

lemma sum_alist_del:
  fixes g :: "'v \<Rightarrow> int"
  shows "distinct (map fst d) \<Longrightarrow> map_of d k = Some v \<Longrightarrow>
    sum_list (map (\<lambda>p. g (snd p)) (alist_del k d)) = sum_list (map (\<lambda>p. g (snd p)) d) - g v"
proof (induction d)
  case (Cons a d)
  show ?case
  proof (cases "fst a = k")
    case True
    with Cons.prems have "alist_del k d = d" by (intro alist_del_absent) auto
    with True Cons.prems(2) show ?thesis by (auto simp: alist_del_def)
  next
    case False
    with Cons show ?thesis by (cases a) (auto simp: alist_del_def)
  qed
qed simp

lemma machineBooted_ok:
  assumes "machineBooted m hw os nocheck s = Inr s'" "mm_ok s" "\<not> worker_alive m s"
  shows "mm_ok s' \<and> worker_alive m s' \<and> config s' = config s"
proof -
  have s': "s' = s\<lparr>hardwareConfigs := alist_set m hw (hardwareConfigs s),
      osConfigs := alist_set m os (osConfigs s), runningMachines := alist_set m () (runningMachines s),
      ram_gb_booted := ram_gb_booted s + ram_gb hw, cores_booted := cores_booted s + cores hw\<rparr>"
    using assms(1) by (auto simp: machineBooted_def split: if_splits)
  have new: "m \<notin> set (map fst (hardwareConfigs s))"
    using assms(2,3) by (auto simp: mm_ok_def worker_alive_def)
  show ?thesis
    using assms(2) new
    by (simp add: s' mm_ok_def worker_alive_def distinct_alist_set sum_alist_set keys_alist_set
        del: set_map)
qed

lemma machineRemoved_ok:
  assumes "mm_ok s" "worker_alive m s"
  shows "\<exists>s'. machineRemoved m s = Inr s' \<and> mm_ok s' \<and> \<not> worker_alive m s' \<and> config s' = config s \<and>
    (\<forall>m'. m' \<noteq> m \<longrightarrow> worker_alive m' s' = worker_alive m' s)"
proof -
  have "m \<in> set (map fst (hardwareConfigs s))" "m \<in> set (map fst (osConfigs s))"
    "m \<in> set (map fst (runningMachines s))" using assms by (auto simp: mm_ok_def worker_alive_def)
  then obtain hw os u where l: "map_of (hardwareConfigs s) m = Some hw" "map_of (osConfigs s) m = Some os"
    "map_of (runningMachines s) m = Some u"
    by (metis map_of_eq_None_iff not_None_eq set_map)
  have lk: "lookupR (map_of (hardwareConfigs s)) m = Inr hw" "lookupR (map_of (osConfigs s)) m = Inr os"
    "lookupR (map_of (runningMachines s)) m = Inr u" using l by simp_all
  show ?thesis
    using assms l(1) unfolding machineRemoved_def lk
    by (simp add: mm_ok_def worker_alive_def distinct_alist_del sum_alist_del keys_alist_del
        del: set_map)
qed

lemma remove_all_ok:
  "mm_ok s \<Longrightarrow> distinct ms \<Longrightarrow> \<forall>m\<in>set ms. worker_alive m s \<Longrightarrow>
   \<exists>s'. foldR machineRemoved ms s = Inr s' \<and> mm_ok s' \<and> config s' = config s \<and>
     (\<forall>m. worker_alive m s' \<longleftrightarrow> worker_alive m s \<and> m \<notin> set ms)"
proof (induction ms arbitrary: s)
  case (Cons m ms)
  from machineRemoved_ok [OF Cons.prems(1), of m] Cons.prems(3) obtain s1 where
    s1: "machineRemoved m s = Inr s1" "mm_ok s1" "\<not> worker_alive m s1" "config s1 = config s"
      "\<forall>m'. m' \<noteq> m \<longrightarrow> worker_alive m' s1 = worker_alive m' s" by auto
  have "\<forall>m'\<in>set ms. worker_alive m' s1" using Cons.prems(2,3) s1(5) by auto
  from Cons.IH [OF s1(2) _ this] Cons.prems(2) obtain s2 where
    "foldR machineRemoved ms s1 = Inr s2" "mm_ok s2" "config s2 = config s1"
    "\<forall>m. worker_alive m s2 \<longleftrightarrow> worker_alive m s1 \<and> m \<notin> set ms" by auto
  with s1 show ?case by auto
qed simp

lemma remove_unknown_ok:
  assumes "mm_ok s"
  shows "\<exists>s'. remove_unknown known s = Inr s' \<and> mm_ok s' \<and> config s' = config s \<and>
    (\<forall>m. worker_alive m s' \<longleftrightarrow> worker_alive m s \<and> m \<in> set (map fst known))"
proof -
  let ?ms = "filter (\<lambda>m. m \<notin> set (map fst known)) (map fst (runningMachines s))"
  have "distinct ?ms" using assms by (simp add: mm_ok_def)
  moreover have "\<forall>m\<in>set ?ms. worker_alive m s" by (simp add: worker_alive_def)
  ultimately obtain s' where "foldR machineRemoved ?ms s = Inr s'" "mm_ok s'" "config s' = config s"
    "\<forall>m. worker_alive m s' \<longleftrightarrow> worker_alive m s \<and> m \<notin> set ?ms"
    using remove_all_ok [OF assms] by blast
  then show ?thesis by (auto simp: remove_unknown_def worker_alive_def)
qed

section \<open>The capacity limits\<close>

definition within_limits :: "mm_state \<Rightarrow> bool" where
  "within_limits s \<longleftrightarrow>
     (max_ram_gb (config s) \<le> 0 \<or> ram_gb_booted s \<le> max_ram_gb (config s)) \<and>
     (max_cores (config s) \<le> 0 \<or> cores_booted s \<le> max_cores (config s)) \<and>
     (max_workers (config s) \<le> 0 \<or> int (length (runningMachines s)) \<le> max_workers (config s)) \<and>
     (\<forall>p\<in>set (hardwareConfigs s). 0 \<le> cores (snd p) \<and> 0 \<le> ram_gb (snd p))"

lemma length_alist_new: "k \<notin> set (map fst d) \<Longrightarrow> length (alist_set k v d) = length d + 1"
  by (induction d) auto

lemma in_alist_set: "p \<in> set (alist_set k v d) \<Longrightarrow> p = (k, v) \<or> p \<in> set d"
  by (induction d) (auto split: if_splits)

lemma in_alist_del: "p \<in> set (alist_del k d) \<Longrightarrow> p \<in> set d"
  by (simp add: alist_del_def)

lemma within_limitsI:
  assumes "max_ram_gb (config s) \<le> 0 \<or> ram_gb_booted s \<le> max_ram_gb (config s)"
    "max_cores (config s) \<le> 0 \<or> cores_booted s \<le> max_cores (config s)"
    "max_workers (config s) \<le> 0 \<or> int (length (runningMachines s)) \<le> max_workers (config s)"
    "\<And>p. p \<in> set (hardwareConfigs s) \<Longrightarrow> 0 \<le> cores (snd p) \<and> 0 \<le> ram_gb (snd p)"
  shows "within_limits s"
  using assms unfolding within_limits_def by blast

lemma machineBooted_limits:
  assumes "machineBooted m hw os False s = Inr s'" "within_limits s" "\<not> worker_alive m s"
    "0 \<le> cores hw" "0 \<le> ram_gb hw"
  shows "within_limits s'"
proof -
  have s': "s' = s\<lparr>hardwareConfigs := alist_set m hw (hardwareConfigs s),
      osConfigs := alist_set m os (osConfigs s), runningMachines := alist_set m () (runningMachines s),
      ram_gb_booted := ram_gb_booted s + ram_gb hw, cores_booted := cores_booted s + cores hw\<rparr>"
    and "canBoot s hw" using assms(1) by (auto simp: machineBooted_def split: if_splits)
  have len: "length (alist_set m () (runningMachines s)) = length (runningMachines s) + 1"
    using assms(3) by (intro length_alist_new) (simp add: worker_alive_def)
  show ?thesis
  proof (rule within_limitsI)
    fix p assume "p \<in> set (hardwareConfigs s')"
    then have "p = (m, hw) \<or> p \<in> set (hardwareConfigs s)" by (auto simp: s' dest: in_alist_set)
    with assms(2,4,5) show "0 \<le> cores (snd p) \<and> 0 \<le> ram_gb (snd p)"
      by (auto simp: within_limits_def)
  next
    show "max_workers (config s') \<le> 0 \<or> int (length (runningMachines s')) \<le> max_workers (config s')"
      using \<open>canBoot s hw\<close> len by (auto simp: s' canBoot_def Let_def split: if_splits)
  qed (use \<open>canBoot s hw\<close> in \<open>auto simp: s' canBoot_def Let_def split: if_splits\<close>)
qed

lemma machineRemoved_limits:
  assumes "machineRemoved m s = Inr s'" "within_limits s"
  shows "within_limits s'"
proof -
  obtain hw where hw: "map_of (hardwareConfigs s) m = Some hw"
    and s': "s' = s\<lparr>hardwareConfigs := alist_del m (hardwareConfigs s),
      osConfigs := alist_del m (osConfigs s), runningMachines := alist_del m (runningMachines s),
      ram_gb_booted := ram_gb_booted s - ram_gb hw, cores_booted := cores_booted s - cores hw\<rparr>"
    using assms(1) by (auto simp: machineRemoved_def bindR_Inr_conv)
  have hwp: "0 \<le> cores hw" "0 \<le> ram_gb hw"
    using map_of_SomeD [OF hw] assms(2) by (auto simp: within_limits_def)
  have len: "length (alist_del m (runningMachines s)) \<le> length (runningMachines s)"
    by (simp add: alist_del_def)
  show ?thesis
  proof (rule within_limitsI)
    fix p assume "p \<in> set (hardwareConfigs s')"
    then have "p \<in> set (hardwareConfigs s)" by (auto simp: s' dest: in_alist_del)
    with assms(2) show "0 \<le> cores (snd p) \<and> 0 \<le> ram_gb (snd p)" by (simp add: within_limits_def)
  qed (use assms(2) hwp len in \<open>auto simp: s' within_limits_def\<close>)
qed

section \<open>Runs of DummyMachineManagement\<close>

text \<open>One call: the machine ids made from \<open>uuid4\<close> are new.\<close>

inductive dummy_step :: "mm_state \<Rightarrow> mm_state \<Rightarrow> bool" where
  boot: "\<not> worker_alive uuid s \<Longrightarrow> dummy_boot_worker uuid hw os s = (r, s') \<Longrightarrow> dummy_step s s'"
| terminate: "dummy_terminate_worker m s = Inr s' \<Longrightarrow> dummy_step s s'"
| synchronize: "dummy_synchronize_workers known s = Inr (dead, s') \<Longrightarrow> dummy_step s s'"

inductive dummy_reachable :: "mm_config \<Rightarrow> mm_state \<Rightarrow> bool" where
  start: "dummy_reachable cfg (new_machine_management cfg)"
| step: "dummy_reachable cfg s \<Longrightarrow> dummy_step s s' \<Longrightarrow> dummy_reachable cfg s'"

lemma dummy_boot_cases:
  assumes "dummy_boot_worker uuid hw os s = (r, s')"
  shows "s' = s \<or> (hw \<in> set dummy_hardware_configs \<and> machineBooted uuid hw os False s = Inr s')"
  using assms by (auto simp: dummy_boot_worker_def split: if_splits os_config.splits sum.splits)

lemma dummy_step_ok:
  assumes "dummy_step s s'" "mm_ok s \<and> within_limits s"
  shows "mm_ok s' \<and> within_limits s' \<and> config s' = config s"
  using assms
proof (cases rule: dummy_step.cases)
  case (boot uuid hw os r)
  from dummy_boot_cases [OF boot(2)] show ?thesis
  proof
    assume b: "hw \<in> set dummy_hardware_configs \<and> machineBooted uuid hw os False s = Inr s'"
    then have "0 \<le> cores hw" "0 \<le> ram_gb hw" by (auto simp: dummy_hardware_configs_def)
    with b boot(1) assms(2) machineBooted_ok machineBooted_limits show ?thesis by blast
  qed (use assms(2) in simp)
next
  case (terminate m)
  then have "machineRemoved m s = Inr s'" "worker_alive m s"
    by (auto simp: dummy_terminate_worker_def split: if_splits)
  with machineRemoved_ok [of s m] machineRemoved_limits assms(2) show ?thesis by auto
next
  case (synchronize known dead)
  then have r: "remove_unknown known s = Inr s'"
    by (auto simp: dummy_synchronize_workers_def bindR_Inr_conv)
  have "within_limits s'"
    using r assms(2) foldR_inv [of machineRemoved _ s s' within_limits] machineRemoved_limits
    unfolding remove_unknown_def by blast
  with remove_unknown_ok [of s known] r assms(2) show ?thesis by auto
qed


definition demo_config :: mm_config where
  "demo_config = \<lparr>max_ram_gb = 100, max_cores = 4, max_workers = 2\<rparr>"


section \<open>AWS counts a running machine at every synchronization\<close>

definition aws_synchronized :: "string list \<Rightarrow> known_workers \<Rightarrow> mm_state \<Rightarrow> mm_state" where
  "aws_synchronized active known s =
     (case aws_synchronize_workers active known s of Inr (_, s') \<Rightarrow> s' | Inl _ \<Rightarrow> s)"

lemma fold_booted:
  "set (map fst known) \<subseteq> set active \<Longrightarrow>
   \<exists>s'. foldR (\<lambda>(m, hw, os) s. if m \<in> set active then machineBooted m hw os True s else Inr s) known s
      = Inr s' \<and> config s' = config s \<and>
     cores_booted s' = cores_booted s + sum_list (map (\<lambda>(_, hw, _). cores hw) known) \<and>
     ram_gb_booted s' = ram_gb_booted s + sum_list (map (\<lambda>(_, hw, _). ram_gb hw) known)"
proof (induction known arbitrary: s)
  case (Cons k known)
  obtain m hw os where k: "k = (m, hw, os)" by (cases k) auto
  from Cons obtain s1 where s1: "machineBooted m hw os True s = Inr s1" "config s1 = config s"
    "cores_booted s1 = cores_booted s + cores hw" "ram_gb_booted s1 = ram_gb_booted s + ram_gb hw"
    by (auto simp: machineBooted_def)
  from Cons.IH [of s1] Cons.prems s1 k show ?case by auto
qed simp

text \<open>\<open>AwsMachineManagement.synchronize_workers\<close> adds the cores and the ram of every known machine
  that is up, each time it is called, although the machine is already in \<open>runningMachines\<close>: after \<open>n\<close>
  calls that find all known machines up, each has been counted \<open>n\<close> more times, so a server
  with a limit ends up refusing to boot anything.\<close>

theorem aws_synchronize_counts_again:
  assumes "set (map fst known) \<subseteq> set active"
  shows "cores_booted ((aws_synchronized active known ^^ n) s) =
      cores_booted s + int n * sum_list (map (\<lambda>(_, hw, _). cores hw) known) \<and>
    ram_gb_booted ((aws_synchronized active known ^^ n) s) =
      ram_gb_booted s + int n * sum_list (map (\<lambda>(_, hw, _). ram_gb hw) known)"
proof (induction n)
  case (Suc n)
  let ?s = "(aws_synchronized active known ^^ n) s"
  have "filter (\<lambda>m. m \<notin> set active) (map fst known) = []"
    using assms by (simp only: filter_empty_conv) blast
  with fold_booted [OF assms, of ?s] obtain s' where "aws_synchronized active known ?s = s'"
    "cores_booted s' = cores_booted ?s + sum_list (map (\<lambda>(_, hw, _). cores hw) known)"
    "ram_gb_booted s' = ram_gb_booted ?s + sum_list (map (\<lambda>(_, hw, _). ram_gb hw) known)"
    by (auto simp: aws_synchronized_def aws_synchronize_workers_def Let_def)
  with Suc show ?case by (simp add: algebra_simps)
qed simp

theorem aws_synchronize_counts_again_witness:
  "cores_booted ((aws_synchronized [''m''] [(''m'', \<lparr>cores = 4, ram_gb = 16\<rparr>, LinuxWithDocker)] ^^ 10)
     (new_machine_management demo_config)) = 40"
  using aws_synchronize_counts_again [of "[(''m'', \<lparr>cores = 4, ram_gb = 16\<rparr>, LinuxWithDocker)]" "[''m'']"
      10 "new_machine_management demo_config"]
  by (simp add: new_machine_management_def)

end
