(* ===== verification/Manager_State.thy ===== *)
theory Manager_State
  imports Indexed_Table Test_Definition Machine_Management Bitstring_Packing
begin

text \<open>
  \<^verbatim>\<open>test_looper/data_model/Types.py\<close>: the object types of the test manager's database and their
  indices, and the state of \<^verbatim>\<open>TestManager.py\<close> that its transactions read and write. An object is
  an identity; a reference to the null object of its type is \<open>None\<close>. Timestamps, which the code
  only compares and subtracts, are integers. Reading a field of an object that does not exist gives
  \<open>None\<close> in the code; here a missing row reads as the row of defaults of its type.
\<close>

section \<open>Rows\<close>

datatype task_status =
  PendingVeryHigh | PendingHigh | PendingMedium | PendingLow | PendingVeryLow | Running

datatype background_task =
    RefreshRepos
  | BootMachineCheck
  | RefreshBranches (task_repo: oid)
  | UpdateBranchPins (task_branch: oid)
  | UpdateBranchTopCommit (task_branch: oid)
  | UpdateCommitData (task_commit: oid)
  | CommitTestParse (task_commit: oid)
  | UpdateTestPriority (task_test: oid)
  | UpdateCommitPriority (task_commit: oid)
  | CheckBranchAutocreate (task_branch: oid)

record data_task =
  dt_task :: background_task
  dt_status :: task_status
  dt_prior :: "oid option"
  dt_prior_ct :: int
  dt_isHead :: bool

datatype test_priority =
    WaitingToRetry
  | DependencyFailed
  | WaitingOnBuilds
  | UnresolvedDependencies
  | HardwareComboUnbootable
  | NoMoreTests
  | FirstBuild (prio: int)
  | FirstTest (prio: int)
  | WantsMoreTests (prio: int)

record summary =
  sm_name :: string
  sm_machineOs :: os_config
  sm_type :: string
  sm_configuration :: string
  sm_artifacts :: "string list"
  sm_project :: string
  sm_disabled :: bool
  sm_timeout :: int
  sm_min_cores :: int
  sm_max_cores :: int
  sm_min_ram_gb :: int
  sm_min_disk_gb :: int
  sm_max_retries :: int
  sm_retry_wait_seconds :: int

record commit_row =
  cm_hash :: string
  cm_repo :: oid
  cm_data :: "oid option"
  cm_userPriority :: int
  cm_calculatedPriority :: int
  cm_anyBranch :: "oid option"

record commit_data_row =
  cd_commit :: oid
  cd_parents :: "oid list"
  cd_subject :: string
  cd_timestamp :: int
  cd_commitMessage :: string
  cd_author :: string
  cd_authorEmail :: string
  cd_tests :: "(string \<times> oid) list"
  cd_repos :: "(string \<times> repo_reference) list"
  cd_testDefinitionsError :: string
  cd_testsParsed :: bool
  cd_noTestsFound :: bool

record commit_test_row =
  ct_commit :: oid
  ct_test :: oid

record relationship_row =
  rel_child :: oid
  rel_parent :: oid

record test_row =
  ts_hash :: string
  ts_summary :: summary
  ts_machineCategory :: "oid option"
  ts_successes :: int
  ts_totalRuns :: int
  ts_activeRuns :: int
  ts_lastTestEndTimestamp :: int
  ts_totalTestCount :: int
  ts_totalFailedTestCount :: int
  ts_calculatedPriority :: int
  ts_priority :: test_priority
  ts_targetMachineBoot :: int
  ts_runsDesired :: int

record unresolved_test_row =
  ut_test :: oid
  ut_dependsOnHash :: string
  ut_artifact :: string

record unresolved_source_row =
  us_commit :: oid
  us_repo :: oid
  us_commitHash :: string

record unresolved_repo_row =
  ur_commit :: oid
  ur_reponame :: string

record test_dependency_row =
  td_test :: oid
  td_dependsOn :: oid
  td_artifact :: string

record test_run_row =
  run_test :: oid
  run_startedTimestamp :: int
  run_lastHeartbeat :: int
  run_endTimestamp :: int
  run_success :: bool
  run_artifactsCompleted :: "string list"
  run_machine :: "oid option"
  run_canceled :: bool
  run_testNames :: "oid option"
  run_testFailures :: string
  run_testHasLogs :: string
  run_totalTestCount :: int
  run_totalFailedTestCount :: int

record name_set_row =
  ns_shaHash :: string
  ns_test_names :: "string list"

record branch_template =
  bt_globsToInclude :: "string list"
  bt_globsToExclude :: "string list"
  bt_suffix :: string
  bt_branchToCopyFrom :: string
  bt_def_to_replace :: string
  bt_disableOtherAutos :: bool
  bt_autoprioritizeBranch :: bool
  bt_deleteOnUnderlyingRemoval :: bool

record repo_row =
  rp_name :: string
  rp_isActive :: bool
  rp_commits :: int
  rp_commitsWithTests :: int
  rp_branchCreateTemplates :: "branch_template list"
  rp_branchCreateLogs :: "oid option"

record log_row =
  lg_msg :: string
  lg_timestamp :: int
  lg_prior :: "oid option"

text \<open>\<open>br_reponame\<close> is the name of the branch's repository, which never changes; the index
  \<open>reponame_and_branchname\<close> reads it through the repository object.\<close>

record branch_row =
  br_branchname :: string
  br_repo :: oid
  br_reponame :: string
  br_head :: "oid option"
  br_isUnderTest :: bool
  br_autocreateTrackingBranchName :: string

record branch_pin_row =
  bp_branch :: oid
  bp_repo_def :: string
  bp_pinned_to_repo :: string
  bp_pinned_to_branch :: string
  bp_auto :: bool
  bp_prioritize :: bool

record machine_category_row =
  mc_hardware :: hardware
  mc_os :: os_config
  mc_booted :: int
  mc_desired :: int
  mc_hardwareComboUnbootable :: bool
  mc_hardwareComboUnbootableReason :: string

record machine_row =
  ma_machineId :: string
  ma_hardware :: hardware
  ma_os :: os_config
  ma_bootTime :: int
  ma_firstHeartbeat :: int
  ma_lastHeartbeat :: int
  ma_lastTestCompleted :: int
  ma_isAlive :: bool
  ma_lastHeartbeatMsg :: string

record deployment_row =
  de_createdTimestamp :: int
  de_machine :: "oid option"
  de_test :: oid
  de_isAlive :: bool

text \<open>\<open>lk_testOrDeployId\<close>: test runs and deployments are named by identity.\<close>

record git_lock_row =
  lk_requestUniqueId :: string
  lk_testOrDeployId :: "oid option"
  lk_testHash :: string

section \<open>Indices\<close>

definition keyed_if :: "bool \<Rightarrow> 'ix \<Rightarrow> 'ix list" where
  "keyed_if b k = (if b then [k] else [])"

lemma keyed_if_simps [simp]: "keyed_if True k = [k]" "keyed_if False k = []"
  "set (keyed_if b k) = (if b then {k} else {})" "distinct (keyed_if b k)"
  by (simp_all add: keyed_if_def)

text \<open>\<open>prioritized\<close>: the test can be handed to a machine.\<close>

fun prioritized :: "test_priority \<Rightarrow> bool" where
  "prioritized (FirstBuild _) = True"
| "prioritized (FirstTest _) = True"
| "prioritized (WantsMoreTests _) = True"
| "prioritized _ = False"

datatype task_ix =
    Task_status task_status
  | Task_pending_boot_machine_check
  | Task_update_commit_priority oid
  | Task_update_test_priority oid

text \<open>The index \<open>pending_boot_machine_check\<close> asks for the status \<open>Pending\<close>, which no status matches.\<close>

definition task_keys :: "data_task \<Rightarrow> task_ix list" where
  "task_keys d =
     keyed_if (dt_isHead d) (Task_status (dt_status d)) @
     keyed_if (False \<and> dt_task d = BootMachineCheck) Task_pending_boot_machine_check @
     (case dt_task d of
        UpdateCommitPriority c \<Rightarrow> [Task_update_commit_priority c]
      | UpdateTestPriority t \<Rightarrow> [Task_update_test_priority t]
      | _ \<Rightarrow> [])"

datatype ct_ix = CT_test oid | CT_commit oid

definition ct_keys :: "commit_test_row \<Rightarrow> ct_ix list" where
  "ct_keys r = [CT_test (ct_test r), CT_commit (ct_commit r)]"

datatype machine_ix = Machine_machineId string | Machine_isAlive | Machine_hardware_and_os "hardware \<times> os_config"

definition machine_keys :: "machine_row \<Rightarrow> machine_ix list" where
  "machine_keys m =
     [Machine_machineId (ma_machineId m)] @ keyed_if (ma_isAlive m) Machine_isAlive @
     keyed_if (ma_isAlive m) (Machine_hardware_and_os (ma_hardware m, ma_os m))"

datatype category_ix =
  Category_hardware_and_os "hardware \<times> os_config" | Category_want_more | Category_want_less

definition category_keys :: "machine_category_row \<Rightarrow> category_ix list" where
  "category_keys c =
     [Category_hardware_and_os (mc_hardware c, mc_os c)] @
     keyed_if (mc_desired c > mc_booted c) Category_want_more @
     keyed_if (mc_desired c < mc_booted c) Category_want_less"

datatype unresolved_test_ix = UT_dependsOnHash string | UT_test oid | UT_test_and_depends oid string string

definition unresolved_test_keys :: "unresolved_test_row \<Rightarrow> unresolved_test_ix list" where
  "unresolved_test_keys r =
     [UT_dependsOnHash (ut_dependsOnHash r), UT_test (ut_test r),
      UT_test_and_depends (ut_test r) (ut_dependsOnHash r) (ut_artifact r)]"

datatype lock_ix = Lock_alive | Lock_requestUniqueId string | Lock_testOrDeployId "oid option" | Lock_testHash string

definition lock_keys :: "git_lock_row \<Rightarrow> lock_ix list" where
  "lock_keys r =
     [Lock_alive, Lock_requestUniqueId (lk_requestUniqueId r), Lock_testOrDeployId (lk_testOrDeployId r),
      Lock_testHash (lk_testHash r)]"

datatype unresolved_repo_ix = UR_commit oid | UR_reponame string | UR_commit_and_reponame oid string

definition unresolved_repo_keys :: "unresolved_repo_row \<Rightarrow> unresolved_repo_ix list" where
  "unresolved_repo_keys r =
     [UR_commit (ur_commit r), UR_reponame (ur_reponame r), UR_commit_and_reponame (ur_commit r) (ur_reponame r)]"

datatype unresolved_source_ix =
  US_commit oid | US_repo_and_hash oid string | US_commit_and_repo_and_hash oid oid string

definition unresolved_source_keys :: "unresolved_source_row \<Rightarrow> unresolved_source_ix list" where
  "unresolved_source_keys r =
     [US_commit (us_commit r), US_repo_and_hash (us_repo r) (us_commitHash r),
      US_commit_and_repo_and_hash (us_commit r) (us_repo r) (us_commitHash r)]"

datatype dependency_ix = TD_test oid | TD_dependsOn oid | TD_test_and_depends oid oid string

definition dependency_keys :: "test_dependency_row \<Rightarrow> dependency_ix list" where
  "dependency_keys r =
     [TD_test (td_test r), TD_dependsOn (td_dependsOn r),
      TD_test_and_depends (td_test r) (td_dependsOn r) (td_artifact r)]"

datatype repo_ix = Repo_name string | Repo_isActive bool

definition repo_keys :: "repo_row \<Rightarrow> repo_ix list" where
  "repo_keys r = [Repo_name (rp_name r), Repo_isActive (rp_isActive r)]"

datatype branch_ix =
    Branch_repo oid
  | Branch_head "oid option"
  | Branch_reponame_and_branchname string string
  | Branch_autocreateTrackingBranchName string

definition branch_keys :: "branch_row \<Rightarrow> branch_ix list" where
  "branch_keys r =
     [Branch_repo (br_repo r), Branch_head (br_head r),
      Branch_reponame_and_branchname (br_reponame r) (br_branchname r),
      Branch_autocreateTrackingBranchName (br_autocreateTrackingBranchName r)]"

datatype pin_ix = Pin_branch oid | Pin_pinned_to string string

definition pin_keys :: "branch_pin_row \<Rightarrow> pin_ix list" where
  "pin_keys r = [Pin_branch (bp_branch r), Pin_pinned_to (bp_pinned_to_repo r) (bp_pinned_to_branch r)]"

datatype commit_ix = Commit_repo_and_hash oid string

definition commit_keys :: "commit_row \<Rightarrow> commit_ix list" where
  "commit_keys r = [Commit_repo_and_hash (cm_repo r) (cm_hash r)]"

datatype relationship_ix = Rel_parent oid | Rel_child oid

definition relationship_keys :: "relationship_row \<Rightarrow> relationship_ix list" where
  "relationship_keys r = [Rel_parent (rel_parent r), Rel_child (rel_child r)]"

datatype deployment_ix = Deployment_isAlive | Deployment_isAliveAndPending | Deployment_runningOnMachine "oid option"

definition deployment_keys :: "deployment_row \<Rightarrow> deployment_ix list" where
  "deployment_keys d =
     keyed_if (de_isAlive d) Deployment_isAlive @
     keyed_if (de_isAlive d \<and> de_machine d = None) Deployment_isAliveAndPending @
     keyed_if (de_isAlive d) (Deployment_runningOnMachine (de_machine d))"

datatype test_ix =
    Test_hash string
  | Test_machineCategoryAndPrioritized oid
  | Test_waiting_to_retry
  | Test_priority test_priority

definition test_keys :: "test_row \<Rightarrow> test_ix list" where
  "test_keys t =
     [Test_hash (ts_hash t)] @
     (case ts_machineCategory t of
        Some c \<Rightarrow> keyed_if (prioritized (ts_priority t)) (Test_machineCategoryAndPrioritized c)
      | None \<Rightarrow> []) @
     keyed_if (ts_priority t = WaitingToRetry) Test_waiting_to_retry @
     keyed_if (prioritized (ts_priority t)) (Test_priority (ts_priority t))"

definition is_running :: "test_run_row \<Rightarrow> bool" where
  "is_running r \<longleftrightarrow> \<not> run_canceled r \<and> run_endTimestamp r \<le> 0"

datatype run_ix = Run_test oid | Run_isRunning | Run_runningOnMachine "oid option"

definition run_keys :: "test_run_row \<Rightarrow> run_ix list" where
  "run_keys r =
     [Run_test (run_test r)] @ keyed_if (is_running r) Run_isRunning @
     keyed_if (is_running r) (Run_runningOnMachine (run_machine r))"

datatype name_set_ix = Names_shaHash string

definition name_set_keys :: "name_set_row \<Rightarrow> name_set_ix list" where
  "name_set_keys r = [Names_shaHash (ns_shaHash r)]"

definition no_keys :: "'row \<Rightarrow> unit list" where
  "no_keys r = []"

interpretation task_index: indexed_type task_keys
  by unfold_locales (simp add: task_keys_def keyed_if_def split: background_task.split)

interpretation ct_index: indexed_type ct_keys
  by unfold_locales (simp add: ct_keys_def)

interpretation machine_index: indexed_type machine_keys
  by unfold_locales (simp add: machine_keys_def keyed_if_def)

interpretation category_index: indexed_type category_keys
  by unfold_locales (simp add: category_keys_def keyed_if_def)

interpretation unresolved_test_index: indexed_type unresolved_test_keys
  by unfold_locales (simp add: unresolved_test_keys_def)

interpretation lock_index: indexed_type lock_keys
  by unfold_locales (simp add: lock_keys_def)

interpretation unresolved_repo_index: indexed_type unresolved_repo_keys
  by unfold_locales (simp add: unresolved_repo_keys_def)

interpretation unresolved_source_index: indexed_type unresolved_source_keys
  by unfold_locales (simp add: unresolved_source_keys_def)

interpretation dependency_index: indexed_type dependency_keys
  by unfold_locales (simp add: dependency_keys_def)

interpretation repo_index: indexed_type repo_keys
  by unfold_locales (simp add: repo_keys_def)

interpretation branch_index: indexed_type branch_keys
  by unfold_locales (simp add: branch_keys_def)

interpretation pin_index: indexed_type pin_keys
  by unfold_locales (simp add: pin_keys_def)

interpretation commit_index: indexed_type commit_keys
  by unfold_locales (simp add: commit_keys_def)

interpretation relationship_index: indexed_type relationship_keys
  by unfold_locales (simp add: relationship_keys_def)

interpretation deployment_index: indexed_type deployment_keys
  by unfold_locales (simp add: deployment_keys_def keyed_if_def)

interpretation test_index: indexed_type test_keys
  by unfold_locales (simp add: test_keys_def keyed_if_def split: option.split)

interpretation run_index: indexed_type run_keys
  by unfold_locales (simp add: run_keys_def keyed_if_def)

interpretation name_set_index: indexed_type name_set_keys
  by unfold_locales (simp add: name_set_keys_def)

interpretation plain_index: indexed_type no_keys
  by unfold_locales (simp add: no_keys_def)

end
