(* ===== verification/Manager_Core.thy ===== *)
theory Manager_Core
  imports Manager_State
begin

text \<open>
  The state of a \<open>TestManager\<close> inside a transaction: one table for every object type, the source of
  new identities, the machine management it drives, and the fields it keeps outside of the
  database. A call that raises rolls its transaction back, so a raising operation has no state.
\<close>

datatype deployment_message =
    WaitingForHardware string
  | MachineAccepting int string
  | SessionTerminated int
  | FromDeployment "string option"
  | FromClient string

record 'm mgr =
  repos :: "(repo_row, repo_ix) tbl"
  branches :: "(branch_row, branch_ix) tbl"
  branch_pins :: "(branch_pin_row, pin_ix) tbl"
  commits :: "(commit_row, commit_ix) tbl"
  commit_datas :: "(commit_data_row, unit) tbl"
  relationships :: "(relationship_row, relationship_ix) tbl"
  commit_tests :: "(commit_test_row, ct_ix) tbl"
  tests :: "(test_row, test_ix) tbl"
  unresolved_tests :: "(unresolved_test_row, unresolved_test_ix) tbl"
  unresolved_sources :: "(unresolved_source_row, unresolved_source_ix) tbl"
  unresolved_repos :: "(unresolved_repo_row, unresolved_repo_ix) tbl"
  test_deps :: "(test_dependency_row, dependency_ix) tbl"
  runs :: "(test_run_row, run_ix) tbl"
  name_sets :: "(name_set_row, name_set_ix) tbl"
  categories :: "(machine_category_row, category_ix) tbl"
  machines :: "(machine_row, machine_ix) tbl"
  deployments :: "(deployment_row, deployment_ix) tbl"
  locks :: "(git_lock_row, lock_ix) tbl"
  tasks :: "(data_task, task_ix) tbl"
  log_messages :: "(log_row, unit) tbl"
  next_id :: oid
  machine_management :: 'm
  deployment_messages :: "(oid \<times> deployment_message) list"
  repoCommitCalcCache :: "(oid \<times> (oid \<times> (oid option \<times> string)) list) list"
  initialTimestamp :: int
  lastWorkerPruneOperation :: int
  lastAmiCheckTimestamp :: int

definition new_manager :: "'m \<Rightarrow> int \<Rightarrow> 'm mgr" where
  "new_manager m now =
     \<lparr>repos = empty_tbl, branches = empty_tbl, branch_pins = empty_tbl, commits = empty_tbl, commit_datas = empty_tbl, relationships = empty_tbl, commit_tests = empty_tbl, tests = empty_tbl, unresolved_tests = empty_tbl, unresolved_sources = empty_tbl, unresolved_repos = empty_tbl, test_deps = empty_tbl, runs = empty_tbl, name_sets = empty_tbl, categories = empty_tbl, machines = empty_tbl, deployments = empty_tbl, locks = empty_tbl, tasks = empty_tbl, log_messages = empty_tbl,
      next_id = 0, machine_management = m, deployment_messages = [], repoCommitCalcCache = [],
      initialTimestamp = now, lastWorkerPruneOperation = now, lastAmiCheckTimestamp = 0\<rparr>"

section \<open>Default rows\<close>

text \<open>The values with which \<open>New\<close> fills the fields that are not given.\<close>

definition default_repo :: repo_row where
  "default_repo =
     \<lparr>rp_name = '''', rp_isActive = False, rp_commits = 0, rp_commitsWithTests = 0,
      rp_branchCreateTemplates = [], rp_branchCreateLogs = None\<rparr>"

definition default_branch :: branch_row where
  "default_branch =
     \<lparr>br_branchname = '''', br_repo = 0, br_reponame = '''', br_head = None, br_isUnderTest
      = False, br_autocreateTrackingBranchName = ''''\<rparr>"

definition default_commit :: commit_row where
  "default_commit =
     \<lparr>cm_hash = '''', cm_repo = 0, cm_data = None, cm_userPriority = 0,
      cm_calculatedPriority = 0, cm_anyBranch = None\<rparr>"

definition default_commit_data :: commit_data_row where
  "default_commit_data =
     \<lparr>cd_commit = 0, cd_parents = [], cd_subject = '''', cd_timestamp = 0, cd_commitMessage
      = '''', cd_author = '''', cd_authorEmail = '''', cd_tests = [], cd_repos = [],
      cd_testDefinitionsError = '''', cd_testsParsed = False, cd_noTestsFound = False\<rparr>"

definition default_relationship :: relationship_row where
  "default_relationship =
     \<lparr>rel_child = 0, rel_parent = 0\<rparr>"

definition default_commit_test :: commit_test_row where
  "default_commit_test =
     \<lparr>ct_commit = 0, ct_test = 0\<rparr>"

definition default_summary :: summary where
  "default_summary =
     \<lparr>sm_name = '''', sm_machineOs = LinuxWithDocker, sm_type = '''', sm_configuration =
      '''', sm_artifacts = [], sm_project = '''', sm_disabled = False, sm_timeout = 0,
      sm_min_cores = 0, sm_max_cores = 0, sm_min_ram_gb = 0, sm_min_disk_gb = 0,
      sm_max_retries = 0, sm_retry_wait_seconds = 0\<rparr>"

definition default_test :: test_row where
  "default_test =
     \<lparr>ts_hash = '''', ts_summary = default_summary, ts_machineCategory = None, ts_successes
      = 0, ts_totalRuns = 0, ts_activeRuns = 0, ts_lastTestEndTimestamp = 0,
      ts_totalTestCount = 0, ts_totalFailedTestCount = 0, ts_calculatedPriority = 0,
      ts_priority = NoMoreTests, ts_targetMachineBoot = 0, ts_runsDesired = 0\<rparr>"

definition default_unresolved_test :: unresolved_test_row where
  "default_unresolved_test =
     \<lparr>ut_test = 0, ut_dependsOnHash = '''', ut_artifact = ''''\<rparr>"

definition default_unresolved_source :: unresolved_source_row where
  "default_unresolved_source =
     \<lparr>us_commit = 0, us_repo = 0, us_commitHash = ''''\<rparr>"

definition default_unresolved_repo :: unresolved_repo_row where
  "default_unresolved_repo =
     \<lparr>ur_commit = 0, ur_reponame = ''''\<rparr>"

definition default_test_dep :: test_dependency_row where
  "default_test_dep =
     \<lparr>td_test = 0, td_dependsOn = 0, td_artifact = ''''\<rparr>"

definition default_run :: test_run_row where
  "default_run =
     \<lparr>run_test = 0, run_startedTimestamp = 0, run_lastHeartbeat = 0, run_endTimestamp = 0,
      run_success = False, run_artifactsCompleted = [], run_machine = None, run_canceled =
      False, run_testNames = None, run_testFailures = '''', run_testHasLogs = '''',
      run_totalTestCount = 0, run_totalFailedTestCount = 0\<rparr>"

definition default_name_set :: name_set_row where
  "default_name_set =
     \<lparr>ns_shaHash = '''', ns_test_names = []\<rparr>"

definition default_category :: machine_category_row where
  "default_category =
     \<lparr>mc_hardware = \<lparr>cores = 0, ram_gb = 0\<rparr>, mc_os = LinuxWithDocker,
      mc_booted = 0, mc_desired = 0, mc_hardwareComboUnbootable = False,
      mc_hardwareComboUnbootableReason = ''''\<rparr>"

definition default_machine :: machine_row where
  "default_machine =
     \<lparr>ma_machineId = '''', ma_hardware = \<lparr>cores = 0, ram_gb = 0\<rparr>, ma_os =
      LinuxWithDocker, ma_bootTime = 0, ma_firstHeartbeat = 0, ma_lastHeartbeat = 0,
      ma_lastTestCompleted = 0, ma_isAlive = False, ma_lastHeartbeatMsg = ''''\<rparr>"

definition default_deployment :: deployment_row where
  "default_deployment =
     \<lparr>de_createdTimestamp = 0, de_machine = None, de_test = 0, de_isAlive = False\<rparr>"

definition default_lock :: git_lock_row where
  "default_lock =
     \<lparr>lk_requestUniqueId = '''', lk_testOrDeployId = None, lk_testHash = ''''\<rparr>"

definition default_task :: data_task where
  "default_task =
     \<lparr>dt_task = RefreshRepos, dt_status = PendingVeryLow, dt_prior = None, dt_prior_ct = 0,
      dt_isHead = False\<rparr>"

definition default_log :: log_row where
  "default_log =
     \<lparr>lg_msg = '''', lg_timestamp = 0, lg_prior = None\<rparr>"

definition default_pin :: branch_pin_row where
  "default_pin =
     \<lparr>bp_branch = 0, bp_repo_def = '''', bp_pinned_to_repo = '''', bp_pinned_to_branch =
      '''', bp_auto = False, bp_prioritize = False\<rparr>"

section \<open>Reading and writing objects\<close>

text \<open>\<open>get_x s i\<close> reads the object \<open>i\<close>, \<open>upd_x i f\<close> assigns to its fields, \<open>new_x r\<close> is \<open>New\<close> (a new
  identity, the row stored under it) and \<open>del_x i\<close> is \<open>delete\<close>.\<close>

definition get_repo :: "'m mgr \<Rightarrow> oid \<Rightarrow> repo_row" where
  "get_repo s i = (case rows (repos s) i of Some r \<Rightarrow> r | None \<Rightarrow> default_repo)"

definition upd_repo :: "oid \<Rightarrow> (repo_row \<Rightarrow> repo_row) \<Rightarrow> 'm mgr \<Rightarrow> 'm mgr" where
  "upd_repo i f s = s\<lparr>repos := tbl_modify repo_keys i f (repos s)\<rparr>"

definition new_repo :: "repo_row \<Rightarrow> 'm mgr \<Rightarrow> oid \<times> 'm mgr" where
  "new_repo r s = (next_id s, s\<lparr>repos := tbl_new repo_keys (next_id s) r (repos s), next_id := Suc (next_id s)\<rparr>)"

definition get_branch :: "'m mgr \<Rightarrow> oid \<Rightarrow> branch_row" where
  "get_branch s i = (case rows (branches s) i of Some r \<Rightarrow> r | None \<Rightarrow> default_branch)"

definition upd_branch :: "oid \<Rightarrow> (branch_row \<Rightarrow> branch_row) \<Rightarrow> 'm mgr \<Rightarrow> 'm mgr" where
  "upd_branch i f s = s\<lparr>branches := tbl_modify branch_keys i f (branches s)\<rparr>"

definition new_branch :: "branch_row \<Rightarrow> 'm mgr \<Rightarrow> oid \<times> 'm mgr" where
  "new_branch r s = (next_id s, s\<lparr>branches := tbl_new branch_keys (next_id s) r (branches s), next_id := Suc (next_id s)\<rparr>)"

definition get_pin :: "'m mgr \<Rightarrow> oid \<Rightarrow> branch_pin_row" where
  "get_pin s i = (case rows (branch_pins s) i of Some r \<Rightarrow> r | None \<Rightarrow> default_pin)"

definition upd_pin :: "oid \<Rightarrow> (branch_pin_row \<Rightarrow> branch_pin_row) \<Rightarrow> 'm mgr \<Rightarrow> 'm mgr" where
  "upd_pin i f s = s\<lparr>branch_pins := tbl_modify pin_keys i f (branch_pins s)\<rparr>"

definition new_pin :: "branch_pin_row \<Rightarrow> 'm mgr \<Rightarrow> oid \<times> 'm mgr" where
  "new_pin r s = (next_id s, s\<lparr>branch_pins := tbl_new pin_keys (next_id s) r (branch_pins s), next_id := Suc (next_id s)\<rparr>)"

definition get_commit :: "'m mgr \<Rightarrow> oid \<Rightarrow> commit_row" where
  "get_commit s i = (case rows (commits s) i of Some r \<Rightarrow> r | None \<Rightarrow> default_commit)"

definition upd_commit :: "oid \<Rightarrow> (commit_row \<Rightarrow> commit_row) \<Rightarrow> 'm mgr \<Rightarrow> 'm mgr" where
  "upd_commit i f s = s\<lparr>commits := tbl_modify commit_keys i f (commits s)\<rparr>"

definition new_commit :: "commit_row \<Rightarrow> 'm mgr \<Rightarrow> oid \<times> 'm mgr" where
  "new_commit r s = (next_id s, s\<lparr>commits := tbl_new commit_keys (next_id s) r (commits s), next_id := Suc (next_id s)\<rparr>)"

definition get_commit_data :: "'m mgr \<Rightarrow> oid \<Rightarrow> commit_data_row" where
  "get_commit_data s i = (case rows (commit_datas s) i of Some r \<Rightarrow> r | None \<Rightarrow> default_commit_data)"

definition upd_commit_data :: "oid \<Rightarrow> (commit_data_row \<Rightarrow> commit_data_row) \<Rightarrow> 'm mgr \<Rightarrow> 'm mgr" where
  "upd_commit_data i f s = s\<lparr>commit_datas := tbl_modify no_keys i f (commit_datas s)\<rparr>"

definition new_commit_data :: "commit_data_row \<Rightarrow> 'm mgr \<Rightarrow> oid \<times> 'm mgr" where
  "new_commit_data r s = (next_id s, s\<lparr>commit_datas := tbl_new no_keys (next_id s) r (commit_datas s), next_id := Suc (next_id s)\<rparr>)"

definition get_relationship :: "'m mgr \<Rightarrow> oid \<Rightarrow> relationship_row" where
  "get_relationship s i = (case rows (relationships s) i of Some r \<Rightarrow> r | None \<Rightarrow> default_relationship)"

definition upd_relationship :: "oid \<Rightarrow> (relationship_row \<Rightarrow> relationship_row) \<Rightarrow> 'm mgr \<Rightarrow> 'm mgr" where
  "upd_relationship i f s = s\<lparr>relationships := tbl_modify relationship_keys i f (relationships s)\<rparr>"

definition new_relationship :: "relationship_row \<Rightarrow> 'm mgr \<Rightarrow> oid \<times> 'm mgr" where
  "new_relationship r s = (next_id s, s\<lparr>relationships := tbl_new relationship_keys (next_id s) r (relationships s), next_id := Suc (next_id s)\<rparr>)"

definition get_commit_test :: "'m mgr \<Rightarrow> oid \<Rightarrow> commit_test_row" where
  "get_commit_test s i = (case rows (commit_tests s) i of Some r \<Rightarrow> r | None \<Rightarrow> default_commit_test)"

definition upd_commit_test :: "oid \<Rightarrow> (commit_test_row \<Rightarrow> commit_test_row) \<Rightarrow> 'm mgr \<Rightarrow> 'm mgr" where
  "upd_commit_test i f s = s\<lparr>commit_tests := tbl_modify ct_keys i f (commit_tests s)\<rparr>"

definition new_commit_test :: "commit_test_row \<Rightarrow> 'm mgr \<Rightarrow> oid \<times> 'm mgr" where
  "new_commit_test r s = (next_id s, s\<lparr>commit_tests := tbl_new ct_keys (next_id s) r (commit_tests s), next_id := Suc (next_id s)\<rparr>)"

definition get_test :: "'m mgr \<Rightarrow> oid \<Rightarrow> test_row" where
  "get_test s i = (case rows (tests s) i of Some r \<Rightarrow> r | None \<Rightarrow> default_test)"

definition upd_test :: "oid \<Rightarrow> (test_row \<Rightarrow> test_row) \<Rightarrow> 'm mgr \<Rightarrow> 'm mgr" where
  "upd_test i f s = s\<lparr>tests := tbl_modify test_keys i f (tests s)\<rparr>"

definition new_test :: "test_row \<Rightarrow> 'm mgr \<Rightarrow> oid \<times> 'm mgr" where
  "new_test r s = (next_id s, s\<lparr>tests := tbl_new test_keys (next_id s) r (tests s), next_id := Suc (next_id s)\<rparr>)"

definition get_unresolved_test :: "'m mgr \<Rightarrow> oid \<Rightarrow> unresolved_test_row" where
  "get_unresolved_test s i = (case rows (unresolved_tests s) i of Some r \<Rightarrow> r | None \<Rightarrow> default_unresolved_test)"

definition upd_unresolved_test :: "oid \<Rightarrow> (unresolved_test_row \<Rightarrow> unresolved_test_row) \<Rightarrow> 'm mgr \<Rightarrow> 'm mgr" where
  "upd_unresolved_test i f s = s\<lparr>unresolved_tests := tbl_modify unresolved_test_keys i f (unresolved_tests s)\<rparr>"

definition new_unresolved_test :: "unresolved_test_row \<Rightarrow> 'm mgr \<Rightarrow> oid \<times> 'm mgr" where
  "new_unresolved_test r s = (next_id s, s\<lparr>unresolved_tests := tbl_new unresolved_test_keys (next_id s) r (unresolved_tests s), next_id := Suc (next_id s)\<rparr>)"

definition get_unresolved_source :: "'m mgr \<Rightarrow> oid \<Rightarrow> unresolved_source_row" where
  "get_unresolved_source s i = (case rows (unresolved_sources s) i of Some r \<Rightarrow> r | None \<Rightarrow> default_unresolved_source)"

definition upd_unresolved_source :: "oid \<Rightarrow> (unresolved_source_row \<Rightarrow> unresolved_source_row) \<Rightarrow> 'm mgr \<Rightarrow> 'm mgr" where
  "upd_unresolved_source i f s = s\<lparr>unresolved_sources := tbl_modify unresolved_source_keys i f (unresolved_sources s)\<rparr>"

definition new_unresolved_source :: "unresolved_source_row \<Rightarrow> 'm mgr \<Rightarrow> oid \<times> 'm mgr" where
  "new_unresolved_source r s = (next_id s, s\<lparr>unresolved_sources := tbl_new unresolved_source_keys (next_id s) r (unresolved_sources s), next_id := Suc (next_id s)\<rparr>)"

definition get_unresolved_repo :: "'m mgr \<Rightarrow> oid \<Rightarrow> unresolved_repo_row" where
  "get_unresolved_repo s i = (case rows (unresolved_repos s) i of Some r \<Rightarrow> r | None \<Rightarrow> default_unresolved_repo)"

definition upd_unresolved_repo :: "oid \<Rightarrow> (unresolved_repo_row \<Rightarrow> unresolved_repo_row) \<Rightarrow> 'm mgr \<Rightarrow> 'm mgr" where
  "upd_unresolved_repo i f s = s\<lparr>unresolved_repos := tbl_modify unresolved_repo_keys i f (unresolved_repos s)\<rparr>"

definition new_unresolved_repo :: "unresolved_repo_row \<Rightarrow> 'm mgr \<Rightarrow> oid \<times> 'm mgr" where
  "new_unresolved_repo r s = (next_id s, s\<lparr>unresolved_repos := tbl_new unresolved_repo_keys (next_id s) r (unresolved_repos s), next_id := Suc (next_id s)\<rparr>)"

definition get_test_dep :: "'m mgr \<Rightarrow> oid \<Rightarrow> test_dependency_row" where
  "get_test_dep s i = (case rows (test_deps s) i of Some r \<Rightarrow> r | None \<Rightarrow> default_test_dep)"

definition upd_test_dep :: "oid \<Rightarrow> (test_dependency_row \<Rightarrow> test_dependency_row) \<Rightarrow> 'm mgr \<Rightarrow> 'm mgr" where
  "upd_test_dep i f s = s\<lparr>test_deps := tbl_modify dependency_keys i f (test_deps s)\<rparr>"

definition new_test_dep :: "test_dependency_row \<Rightarrow> 'm mgr \<Rightarrow> oid \<times> 'm mgr" where
  "new_test_dep r s = (next_id s, s\<lparr>test_deps := tbl_new dependency_keys (next_id s) r (test_deps s), next_id := Suc (next_id s)\<rparr>)"

definition get_run :: "'m mgr \<Rightarrow> oid \<Rightarrow> test_run_row" where
  "get_run s i = (case rows (runs s) i of Some r \<Rightarrow> r | None \<Rightarrow> default_run)"

definition upd_run :: "oid \<Rightarrow> (test_run_row \<Rightarrow> test_run_row) \<Rightarrow> 'm mgr \<Rightarrow> 'm mgr" where
  "upd_run i f s = s\<lparr>runs := tbl_modify run_keys i f (runs s)\<rparr>"

definition new_run :: "test_run_row \<Rightarrow> 'm mgr \<Rightarrow> oid \<times> 'm mgr" where
  "new_run r s = (next_id s, s\<lparr>runs := tbl_new run_keys (next_id s) r (runs s), next_id := Suc (next_id s)\<rparr>)"

definition get_name_set :: "'m mgr \<Rightarrow> oid \<Rightarrow> name_set_row" where
  "get_name_set s i = (case rows (name_sets s) i of Some r \<Rightarrow> r | None \<Rightarrow> default_name_set)"

definition upd_name_set :: "oid \<Rightarrow> (name_set_row \<Rightarrow> name_set_row) \<Rightarrow> 'm mgr \<Rightarrow> 'm mgr" where
  "upd_name_set i f s = s\<lparr>name_sets := tbl_modify name_set_keys i f (name_sets s)\<rparr>"

definition new_name_set :: "name_set_row \<Rightarrow> 'm mgr \<Rightarrow> oid \<times> 'm mgr" where
  "new_name_set r s = (next_id s, s\<lparr>name_sets := tbl_new name_set_keys (next_id s) r (name_sets s), next_id := Suc (next_id s)\<rparr>)"

definition get_category :: "'m mgr \<Rightarrow> oid \<Rightarrow> machine_category_row" where
  "get_category s i = (case rows (categories s) i of Some r \<Rightarrow> r | None \<Rightarrow> default_category)"

definition upd_category :: "oid \<Rightarrow> (machine_category_row \<Rightarrow> machine_category_row) \<Rightarrow> 'm mgr \<Rightarrow> 'm mgr" where
  "upd_category i f s = s\<lparr>categories := tbl_modify category_keys i f (categories s)\<rparr>"

definition new_category :: "machine_category_row \<Rightarrow> 'm mgr \<Rightarrow> oid \<times> 'm mgr" where
  "new_category r s = (next_id s, s\<lparr>categories := tbl_new category_keys (next_id s) r (categories s), next_id := Suc (next_id s)\<rparr>)"

definition get_machine :: "'m mgr \<Rightarrow> oid \<Rightarrow> machine_row" where
  "get_machine s i = (case rows (machines s) i of Some r \<Rightarrow> r | None \<Rightarrow> default_machine)"

definition upd_machine :: "oid \<Rightarrow> (machine_row \<Rightarrow> machine_row) \<Rightarrow> 'm mgr \<Rightarrow> 'm mgr" where
  "upd_machine i f s = s\<lparr>machines := tbl_modify machine_keys i f (machines s)\<rparr>"

definition new_machine :: "machine_row \<Rightarrow> 'm mgr \<Rightarrow> oid \<times> 'm mgr" where
  "new_machine r s = (next_id s, s\<lparr>machines := tbl_new machine_keys (next_id s) r (machines s), next_id := Suc (next_id s)\<rparr>)"

definition get_deployment :: "'m mgr \<Rightarrow> oid \<Rightarrow> deployment_row" where
  "get_deployment s i = (case rows (deployments s) i of Some r \<Rightarrow> r | None \<Rightarrow> default_deployment)"

definition upd_deployment :: "oid \<Rightarrow> (deployment_row \<Rightarrow> deployment_row) \<Rightarrow> 'm mgr \<Rightarrow> 'm mgr" where
  "upd_deployment i f s = s\<lparr>deployments := tbl_modify deployment_keys i f (deployments s)\<rparr>"

definition new_deployment :: "deployment_row \<Rightarrow> 'm mgr \<Rightarrow> oid \<times> 'm mgr" where
  "new_deployment r s = (next_id s, s\<lparr>deployments := tbl_new deployment_keys (next_id s) r (deployments s), next_id := Suc (next_id s)\<rparr>)"

definition get_lock :: "'m mgr \<Rightarrow> oid \<Rightarrow> git_lock_row" where
  "get_lock s i = (case rows (locks s) i of Some r \<Rightarrow> r | None \<Rightarrow> default_lock)"

definition upd_lock :: "oid \<Rightarrow> (git_lock_row \<Rightarrow> git_lock_row) \<Rightarrow> 'm mgr \<Rightarrow> 'm mgr" where
  "upd_lock i f s = s\<lparr>locks := tbl_modify lock_keys i f (locks s)\<rparr>"

definition new_lock :: "git_lock_row \<Rightarrow> 'm mgr \<Rightarrow> oid \<times> 'm mgr" where
  "new_lock r s = (next_id s, s\<lparr>locks := tbl_new lock_keys (next_id s) r (locks s), next_id := Suc (next_id s)\<rparr>)"

definition get_task :: "'m mgr \<Rightarrow> oid \<Rightarrow> data_task" where
  "get_task s i = (case rows (tasks s) i of Some r \<Rightarrow> r | None \<Rightarrow> default_task)"

definition upd_task :: "oid \<Rightarrow> (data_task \<Rightarrow> data_task) \<Rightarrow> 'm mgr \<Rightarrow> 'm mgr" where
  "upd_task i f s = s\<lparr>tasks := tbl_modify task_keys i f (tasks s)\<rparr>"

definition new_task :: "data_task \<Rightarrow> 'm mgr \<Rightarrow> oid \<times> 'm mgr" where
  "new_task r s = (next_id s, s\<lparr>tasks := tbl_new task_keys (next_id s) r (tasks s), next_id := Suc (next_id s)\<rparr>)"

definition get_log :: "'m mgr \<Rightarrow> oid \<Rightarrow> log_row" where
  "get_log s i = (case rows (log_messages s) i of Some r \<Rightarrow> r | None \<Rightarrow> default_log)"

definition upd_log :: "oid \<Rightarrow> (log_row \<Rightarrow> log_row) \<Rightarrow> 'm mgr \<Rightarrow> 'm mgr" where
  "upd_log i f s = s\<lparr>log_messages := tbl_modify no_keys i f (log_messages s)\<rparr>"

definition new_log :: "log_row \<Rightarrow> 'm mgr \<Rightarrow> oid \<times> 'm mgr" where
  "new_log r s = (next_id s, s\<lparr>log_messages := tbl_new no_keys (next_id s) r (log_messages s), next_id := Suc (next_id s)\<rparr>)"

definition del_branch :: "oid \<Rightarrow> 'm mgr \<Rightarrow> 'm mgr" where
  "del_branch i s = s\<lparr>branches := tbl_delete branch_keys i (branches s)\<rparr>"

definition del_pin :: "oid \<Rightarrow> 'm mgr \<Rightarrow> 'm mgr" where
  "del_pin i s = s\<lparr>branch_pins := tbl_delete pin_keys i (branch_pins s)\<rparr>"

definition del_unresolved_test :: "oid \<Rightarrow> 'm mgr \<Rightarrow> 'm mgr" where
  "del_unresolved_test i s = s\<lparr>unresolved_tests := tbl_delete unresolved_test_keys i (unresolved_tests s)\<rparr>"

definition del_unresolved_source :: "oid \<Rightarrow> 'm mgr \<Rightarrow> 'm mgr" where
  "del_unresolved_source i s = s\<lparr>unresolved_sources := tbl_delete unresolved_source_keys i (unresolved_sources s)\<rparr>"

definition del_unresolved_repo :: "oid \<Rightarrow> 'm mgr \<Rightarrow> 'm mgr" where
  "del_unresolved_repo i s = s\<lparr>unresolved_repos := tbl_delete unresolved_repo_keys i (unresolved_repos s)\<rparr>"

definition del_lock :: "oid \<Rightarrow> 'm mgr \<Rightarrow> 'm mgr" where
  "del_lock i s = s\<lparr>locks := tbl_delete lock_keys i (locks s)\<rparr>"

definition del_task :: "oid \<Rightarrow> 'm mgr \<Rightarrow> 'm mgr" where
  "del_task i s = s\<lparr>tasks := tbl_delete task_keys i (tasks s)\<rparr>"

text \<open>Each operation changes one table (and \<open>New\<close> the source of identities).\<close>

lemmas upd_defs = upd_repo_def upd_branch_def upd_pin_def upd_commit_def upd_commit_data_def upd_relationship_def
  upd_commit_test_def upd_test_def upd_unresolved_test_def upd_unresolved_source_def
  upd_unresolved_repo_def upd_test_dep_def upd_run_def upd_name_set_def upd_category_def
  upd_machine_def upd_deployment_def upd_lock_def upd_task_def upd_log_def

lemmas new_defs = new_repo_def new_branch_def new_pin_def new_commit_def new_commit_data_def new_relationship_def
  new_commit_test_def new_test_def new_unresolved_test_def new_unresolved_source_def
  new_unresolved_repo_def new_test_dep_def new_run_def new_name_set_def new_category_def
  new_machine_def new_deployment_def new_lock_def new_task_def new_log_def

lemmas del_defs = del_branch_def del_pin_def del_unresolved_test_def del_unresolved_source_def
  del_unresolved_repo_def del_lock_def del_task_def

lemmas get_defs = get_repo_def get_branch_def get_pin_def get_commit_def get_commit_data_def get_relationship_def
  get_commit_test_def get_test_def get_unresolved_test_def get_unresolved_source_def
  get_unresolved_repo_def get_test_dep_def get_run_def get_name_set_def get_category_def
  get_machine_def get_deployment_def get_lock_def get_task_def get_log_def

section \<open>The tables are consistent\<close>

definition db_ok :: "'m mgr \<Rightarrow> bool" where
  "db_ok s \<longleftrightarrow>
     tbl_ok repo_keys (repos s) \<and> (\<forall>i\<ge>next_id s. rows (repos s) i = None) \<and>
     tbl_ok branch_keys (branches s) \<and> (\<forall>i\<ge>next_id s. rows (branches s) i = None) \<and>
     tbl_ok pin_keys (branch_pins s) \<and> (\<forall>i\<ge>next_id s. rows (branch_pins s) i = None) \<and>
     tbl_ok commit_keys (commits s) \<and> (\<forall>i\<ge>next_id s. rows (commits s) i = None) \<and>
     tbl_ok no_keys (commit_datas s) \<and> (\<forall>i\<ge>next_id s. rows (commit_datas s) i = None) \<and>
     tbl_ok relationship_keys (relationships s) \<and> (\<forall>i\<ge>next_id s. rows (relationships s) i = None) \<and>
     tbl_ok ct_keys (commit_tests s) \<and> (\<forall>i\<ge>next_id s. rows (commit_tests s) i = None) \<and>
     tbl_ok test_keys (tests s) \<and> (\<forall>i\<ge>next_id s. rows (tests s) i = None) \<and>
     tbl_ok unresolved_test_keys (unresolved_tests s) \<and> (\<forall>i\<ge>next_id s. rows (unresolved_tests s) i = None) \<and>
     tbl_ok unresolved_source_keys (unresolved_sources s) \<and> (\<forall>i\<ge>next_id s. rows (unresolved_sources s) i = None) \<and>
     tbl_ok unresolved_repo_keys (unresolved_repos s) \<and> (\<forall>i\<ge>next_id s. rows (unresolved_repos s) i = None) \<and>
     tbl_ok dependency_keys (test_deps s) \<and> (\<forall>i\<ge>next_id s. rows (test_deps s) i = None) \<and>
     tbl_ok run_keys (runs s) \<and> (\<forall>i\<ge>next_id s. rows (runs s) i = None) \<and>
     tbl_ok name_set_keys (name_sets s) \<and> (\<forall>i\<ge>next_id s. rows (name_sets s) i = None) \<and>
     tbl_ok category_keys (categories s) \<and> (\<forall>i\<ge>next_id s. rows (categories s) i = None) \<and>
     tbl_ok machine_keys (machines s) \<and> (\<forall>i\<ge>next_id s. rows (machines s) i = None) \<and>
     tbl_ok deployment_keys (deployments s) \<and> (\<forall>i\<ge>next_id s. rows (deployments s) i = None) \<and>
     tbl_ok lock_keys (locks s) \<and> (\<forall>i\<ge>next_id s. rows (locks s) i = None) \<and>
     tbl_ok task_keys (tasks s) \<and> (\<forall>i\<ge>next_id s. rows (tasks s) i = None) \<and>
     tbl_ok no_keys (log_messages s) \<and> (\<forall>i\<ge>next_id s. rows (log_messages s) i = None)"

lemma db_ok_new_manager: "db_ok (new_manager m now)"
  unfolding db_ok_def new_manager_def
  by (simp add: branch_index.ok_empty category_index.ok_empty commit_index.ok_empty ct_index.ok_empty dependency_index.ok_empty deployment_index.ok_empty lock_index.ok_empty machine_index.ok_empty name_set_index.ok_empty pin_index.ok_empty plain_index.ok_empty relationship_index.ok_empty repo_index.ok_empty run_index.ok_empty task_index.ok_empty test_index.ok_empty unresolved_repo_index.ok_empty unresolved_source_index.ok_empty unresolved_test_index.ok_empty)

lemma db_ok_upd [intro]:
  assumes "db_ok s"
  shows "db_ok (upd_repo i f0 s)"
    "db_ok (upd_branch i f1 s)"
    "db_ok (upd_pin i f2 s)"
    "db_ok (upd_commit i f3 s)"
    "db_ok (upd_commit_data i f4 s)"
    "db_ok (upd_relationship i f5 s)"
    "db_ok (upd_commit_test i f6 s)"
    "db_ok (upd_test i f7 s)"
    "db_ok (upd_unresolved_test i f8 s)"
    "db_ok (upd_unresolved_source i f9 s)"
    "db_ok (upd_unresolved_repo i f10 s)"
    "db_ok (upd_test_dep i f11 s)"
    "db_ok (upd_run i f12 s)"
    "db_ok (upd_name_set i f13 s)"
    "db_ok (upd_category i f14 s)"
    "db_ok (upd_machine i f15 s)"
    "db_ok (upd_deployment i f16 s)"
    "db_ok (upd_lock i f17 s)"
    "db_ok (upd_task i f18 s)"
    "db_ok (upd_log i f19 s)"
  using assms unfolding db_ok_def upd_defs
  by (simp_all add: branch_index.ok_modify category_index.ok_modify commit_index.ok_modify ct_index.ok_modify dependency_index.ok_modify deployment_index.ok_modify lock_index.ok_modify machine_index.ok_modify name_set_index.ok_modify pin_index.ok_modify plain_index.ok_modify relationship_index.ok_modify repo_index.ok_modify run_index.ok_modify task_index.ok_modify test_index.ok_modify unresolved_repo_index.ok_modify unresolved_source_index.ok_modify unresolved_test_index.ok_modify)

lemma db_ok_new [intro]:
  assumes "db_ok s"
  shows "db_ok (snd (new_repo r0 s))"
    "db_ok (snd (new_branch r1 s))"
    "db_ok (snd (new_pin r2 s))"
    "db_ok (snd (new_commit r3 s))"
    "db_ok (snd (new_commit_data r4 s))"
    "db_ok (snd (new_relationship r5 s))"
    "db_ok (snd (new_commit_test r6 s))"
    "db_ok (snd (new_test r7 s))"
    "db_ok (snd (new_unresolved_test r8 s))"
    "db_ok (snd (new_unresolved_source r9 s))"
    "db_ok (snd (new_unresolved_repo r10 s))"
    "db_ok (snd (new_test_dep r11 s))"
    "db_ok (snd (new_run r12 s))"
    "db_ok (snd (new_name_set r13 s))"
    "db_ok (snd (new_category r14 s))"
    "db_ok (snd (new_machine r15 s))"
    "db_ok (snd (new_deployment r16 s))"
    "db_ok (snd (new_lock r17 s))"
    "db_ok (snd (new_task r18 s))"
    "db_ok (snd (new_log r19 s))"
  using assms unfolding db_ok_def new_defs
  by (simp_all add: branch_index.ok_new category_index.ok_new commit_index.ok_new ct_index.ok_new dependency_index.ok_new deployment_index.ok_new lock_index.ok_new machine_index.ok_new name_set_index.ok_new pin_index.ok_new plain_index.ok_new relationship_index.ok_new repo_index.ok_new run_index.ok_new task_index.ok_new test_index.ok_new unresolved_repo_index.ok_new unresolved_source_index.ok_new unresolved_test_index.ok_new)

lemma db_ok_del [intro]:
  assumes "db_ok s"
  shows "db_ok (del_branch i s)"
    "db_ok (del_pin i s)"
    "db_ok (del_unresolved_test i s)"
    "db_ok (del_unresolved_source i s)"
    "db_ok (del_unresolved_repo i s)"
    "db_ok (del_lock i s)"
    "db_ok (del_task i s)"
  using assms unfolding db_ok_def del_defs
  by (simp_all add: branch_index.ok_delete lock_index.ok_delete pin_index.ok_delete task_index.ok_delete unresolved_repo_index.ok_delete unresolved_source_index.ok_delete unresolved_test_index.ok_delete)

end
