(* ===== verification/Task_Queue.thy ===== *)
theory Task_Queue
  imports Manager_Core
begin

text \<open>
  The background tasks of \<^verbatim>\<open>TestManager.py\<close>: \<open>_queueTask\<close> and the methods that queue a task, and
  \<open>performBackgroundWork\<close>, which works one task off in three transactions (mark it running, process
  it, remove it). The waiting tasks of a priority are linked through \<open>prior\<close>, newest first; only the
  head of a chain is in the index.
\<close>

section \<open>Queueing\<close>

definition queueTask :: "background_task \<Rightarrow> task_status \<Rightarrow> 'm mgr \<Rightarrow> 'm mgr" where
  "queueTask task status s0 =
     (case new_task (default_task\<lparr>dt_task := task, dt_status := status\<rparr>) s0 of (t, s1) \<Rightarrow>
      (let existing = lookup_any (tasks s1) (Task_status status);
           s2 = upd_task t (\<lambda>d. d\<lparr>dt_isHead := True\<rparr>) s1
       in case existing of
            None \<Rightarrow> s2
          | Some e \<Rightarrow>
              let s3 = upd_task e (\<lambda>d. d\<lparr>dt_isHead := False\<rparr>) s2;
                  s4 = upd_task t (\<lambda>d. d\<lparr>dt_prior := Some e\<rparr>) s3
              in upd_task t (\<lambda>d. d\<lparr>dt_prior_ct := dt_prior_ct (get_task s4 e) + 1\<rparr>) s4))"

definition triggerCommitPriorityUpdate :: "oid \<Rightarrow> 'm mgr \<Rightarrow> 'm mgr" where
  "triggerCommitPriorityUpdate commit s =
     (if lookup_any (tasks s) (Task_update_commit_priority commit) = None
      then queueTask (UpdateCommitPriority commit) PendingMedium s else s)"

definition triggerTestPriorityUpdate :: "oid \<Rightarrow> 'm mgr \<Rightarrow> 'm mgr" where
  "triggerTestPriorityUpdate test s =
     (if lookup_any (tasks s) (Task_update_test_priority test) = None
      then queueTask (UpdateTestPriority test) PendingLow s else s)"

definition triggerCommitTestParse :: "oid \<Rightarrow> 'm mgr \<Rightarrow> 'm mgr" where
  "triggerCommitTestParse commit s =
     (if lookup_all (unresolved_repos s) (UR_commit commit) @
         lookup_all (unresolved_sources s) (US_commit commit) = []
      then queueTask (CommitTestParse commit) PendingHigh s else s)"

definition triggerCommitDataUpdate :: "oid \<Rightarrow> 'm mgr \<Rightarrow> 'm mgr" where
  "triggerCommitDataUpdate commit s =
     (if cm_data (get_commit s commit) = None
      then queueTask (UpdateCommitData commit) PendingHigh s else s)"

definition scheduleBootCheck :: "'m mgr \<Rightarrow> 'm mgr" where
  "scheduleBootCheck s =
     (if lookup_any (tasks s) Task_pending_boot_machine_check = None
      then queueTask BootMachineCheck PendingVeryHigh s else s)"

definition scheduleUpdateBranchTopCommit :: "oid \<Rightarrow> 'm mgr \<Rightarrow> 'm mgr" where
  "scheduleUpdateBranchTopCommit branch = queueTask (UpdateBranchTopCommit branch) PendingVeryHigh"

definition scheduleBranchPinNeedsUpdating :: "oid \<Rightarrow> 'm mgr \<Rightarrow> 'm mgr" where
  "scheduleBranchPinNeedsUpdating branch = queueTask (UpdateBranchPins branch) PendingLow"

definition markRepoListDirty :: "'m mgr \<Rightarrow> 'm mgr" where
  "markRepoListDirty = queueTask RefreshRepos PendingVeryHigh"

definition markBranchListDirty :: "string \<Rightarrow> 'm mgr \<Rightarrow> 'm mgr res" where
  "markBranchListDirty reponame s =
     (case lookup_any (repos s) (Repo_name reponame) of
        None \<Rightarrow> Inl AssertionError
      | Some r \<Rightarrow> Inr (queueTask (RefreshBranches r) PendingVeryHigh s))"

definition checkRetryTests :: "'m mgr \<Rightarrow> 'm mgr" where
  "checkRetryTests s =
     fold triggerTestPriorityUpdate (lookup_all (tests s) Test_waiting_to_retry) s"

definition taskCount :: "'m mgr \<Rightarrow> int" where
  "taskCount s =
     sum_list (map (\<lambda>t. dt_prior_ct (get_task s t))
       (lookup_all (tasks s) (Task_status PendingVeryHigh) @
        lookup_all (tasks s) (Task_status PendingHigh) @
        lookup_all (tasks s) (Task_status PendingMedium) @
        lookup_all (tasks s) (Task_status PendingLow)))"

section \<open>Working tasks off\<close>

fun first_some :: "'a option list \<Rightarrow> 'a option" where
  "first_some [] = None"
| "first_some (None # xs) = first_some xs"
| "first_some (Some x # xs) = Some x"

definition nextTask :: "'m mgr \<Rightarrow> oid option" where
  "nextTask s =
     first_some (map (\<lambda>st. lookup_any (tasks s) (Task_status st))
       [PendingVeryHigh, PendingHigh, PendingMedium, PendingLow, PendingVeryLow])"

definition startTask :: "oid \<Rightarrow> 'm mgr \<Rightarrow> 'm mgr" where
  "startTask t = upd_task t (\<lambda>d. d\<lparr>dt_status := Running\<rparr>)"

definition finishTask :: "oid \<Rightarrow> 'm mgr \<Rightarrow> 'm mgr" where
  "finishTask t s =
     (let s1 = (case dt_prior (get_task s t) of
                  Some p \<Rightarrow> upd_task p (\<lambda>d. d\<lparr>dt_isHead := True\<rparr>) s
                | None \<Rightarrow> s)
      in del_task t s1)"

text \<open>\<open>process\<close> is \<open>_processTask\<close> in a transaction of its own, which a raising task rolls back.\<close>

definition performBackgroundWork ::
  "(background_task \<Rightarrow> 'm mgr \<Rightarrow> 'm mgr res) \<Rightarrow> 'm mgr \<Rightarrow> background_task option \<times> 'm mgr" where
  "performBackgroundWork process s =
     (case nextTask s of
        None \<Rightarrow> (None, s)
      | Some t \<Rightarrow>
          let task = dt_task (get_task s t);
              s1 = startTask t s;
              s2 = (case process task s1 of Inr s' \<Rightarrow> s' | Inl e \<Rightarrow> s1)
          in (Some task, finishTask t s2))"

text \<open>\<open>performBackgroundWorkSynchronously\<close> calls \<open>_processTask\<close> without its last argument, so the call
  raises before it does anything; the exception is logged and the task removed.\<close>

definition processTaskTwoArguments :: "background_task \<Rightarrow> 'm mgr \<Rightarrow> 'm mgr res" where
  "processTaskTwoArguments task s = Inl TypeError"

fun performBackgroundWorkSynchronously :: "nat \<Rightarrow> 'm mgr \<Rightarrow> background_task option \<times> 'm mgr" where
  "performBackgroundWorkSynchronously 0 s = (None, s)"
| "performBackgroundWorkSynchronously (Suc count) s =
     (case nextTask s of
        None \<Rightarrow> (None, s)
      | Some t \<Rightarrow>
          let task = dt_task (get_task s t);
              s1 = startTask t s;
              s2 = (case processTaskTwoArguments task s1 of Inr s' \<Rightarrow> s' | Inl e \<Rightarrow> s1);
              s3 = finishTask t s2
          in case performBackgroundWorkSynchronously count s3 of
               (None, s4) \<Rightarrow> ((if count = 0 then Some task else None), s4)
             | (Some d, s4) \<Rightarrow> (Some d, s4))"

section \<open>The chains\<close>

type_synonym task_rows = "oid \<Rightarrow> data_task option"

definition linked :: "task_rows \<Rightarrow> bool" where
  "linked T \<longleftrightarrow> (\<forall>i r j. T i = Some r \<longrightarrow> dt_prior r = Some j \<longrightarrow>
     j < i \<and> (\<exists>q. T j = Some q \<and> \<not> dt_isHead q \<and> dt_status q \<noteq> Running \<and>
       (dt_status r \<noteq> Running \<longrightarrow> dt_status q = dt_status r)))"

definition unshared :: "task_rows \<Rightarrow> bool" where
  "unshared T \<longleftrightarrow> (\<forall>i r i' r' j. T i = Some r \<longrightarrow> T i' = Some r' \<longrightarrow>
     dt_prior r = Some j \<longrightarrow> dt_prior r' = Some j \<longrightarrow> i = i')"

definition anchored :: "task_rows \<Rightarrow> bool" where
  "anchored T \<longleftrightarrow> (\<forall>i r. T i = Some r \<longrightarrow> \<not> dt_isHead r \<longrightarrow> (\<exists>k q. T k = Some q \<and> dt_prior q = Some i))"

definition chains_ok :: "task_rows \<Rightarrow> bool" where
  "chains_ok T \<longleftrightarrow> linked T \<and> unshared T \<and> anchored T \<and>
     (\<forall>i r. T i = Some r \<longrightarrow> dt_status r = Running \<longrightarrow> dt_isHead r)"

definition tasks_inv :: "'m mgr \<Rightarrow> bool" where
  "tasks_inv s \<longleftrightarrow> tbl_ok task_keys (tasks s) \<and> (\<forall>i\<ge>next_id s. rows (tasks s) i = None) \<and>
     chains_ok (rows (tasks s))"

text \<open>Every operation on other tables keeps the invariant.\<close>

lemma tasks_inv_frame:
  "tasks_inv s \<Longrightarrow> tasks s' = tasks s \<Longrightarrow> next_id s \<le> next_id s' \<Longrightarrow> tasks_inv s'"
  by (auto simp: tasks_inv_def)

lemma tasks_inv_new_manager: "tasks_inv (new_manager m now)"
  by (simp add: tasks_inv_def new_manager_def chains_ok_def linked_def unshared_def anchored_def
      task_index.ok_empty)

lemma linkedD:
  assumes "linked T" "T i = Some r" "dt_prior r = Some j"
  shows "j < i" "\<exists>q. T j = Some q \<and> \<not> dt_isHead q \<and> dt_status q \<noteq> Running \<and>
    (dt_status r \<noteq> Running \<longrightarrow> dt_status q = dt_status r)"
  using assms unfolding linked_def by blast+

lemma head_key: "Task_status st \<in> set (task_keys d) \<longleftrightarrow> dt_isHead d \<and> dt_status d = st"
  by (auto simp: task_keys_def split: background_task.splits)

definition fresh_task :: "background_task \<Rightarrow> task_status \<Rightarrow> oid option \<Rightarrow> int \<Rightarrow> data_task" where
  "fresh_task task st p ct =
     \<lparr>dt_task = task, dt_status = st, dt_prior = p, dt_prior_ct = ct, dt_isHead = True\<rparr>"

lemma rows_upd_task:
  "rows (tasks (upd_task i f s)) j = (if j = i then map_option f (rows (tasks s) i) else rows (tasks s) j)"
  by (simp add: upd_task_def)

lemma next_id_upd_task [simp]: "next_id (upd_task i f s) = next_id s"
  by (simp add: upd_task_def)

lemma rows_queueTask:
  assumes "tasks_inv s"
  shows "rows (tasks (queueTask task st s)) =
    (case lookup_any (tasks s) (Task_status st) of
       None \<Rightarrow> (rows (tasks s))(next_id s \<mapsto> fresh_task task st None 0)
     | Some e \<Rightarrow> (rows (tasks s))(e := map_option (\<lambda>d. d\<lparr>dt_isHead := False\<rparr>) (rows (tasks s) e),
         next_id s \<mapsto> fresh_task task st (Some e) (dt_prior_ct (get_task s e) + 1)))"
    and "next_id (queueTask task st s) = Suc (next_id s)"
proof -
  have ok: "tbl_ok task_keys (tasks s)" and free: "rows (tasks s) (next_id s) = None"
    using assms by (auto simp: tasks_inv_def)
  have same: "lookup_any (tasks (snd (new_task (default_task\<lparr>dt_task := task, dt_status := st\<rparr>) s)))
      (Task_status st) = lookup_any (tasks s) (Task_status st)"
    using task_index.lookup_new
    by (simp add: new_task_def lookup_any_def lookup_all_def head_key default_task_def)
  have e: "lookup_any (tasks s) (Task_status st) = Some e \<Longrightarrow> e \<noteq> next_id s" for e
    using task_index.lookup_anyD [OF ok] free by fastforce
  let ?n = "next_id s"
  let ?r = "default_task\<lparr>dt_task := task, dt_status := st\<rparr>"
  let ?s1 = "snd (new_task ?r s)"
  let ?s2 = "upd_task ?n (\<lambda>d. d\<lparr>dt_isHead := True\<rparr>) ?s1"
  have new: "fst (new_task ?r s) = ?n" by (simp add: new_task_def)
  have r1: "rows (tasks ?s1) = (rows (tasks s))(?n \<mapsto> ?r)" by (simp add: new_task_def)
  have r2: "rows (tasks ?s2) = (rows (tasks s))(?n \<mapsto> ?r\<lparr>dt_isHead := True\<rparr>)"
    by (simp add: rows_upd_task r1 fun_eq_iff)
  show "rows (tasks (queueTask task st s)) =
    (case lookup_any (tasks s) (Task_status st) of
       None \<Rightarrow> (rows (tasks s))(next_id s \<mapsto> fresh_task task st None 0)
     | Some e \<Rightarrow> (rows (tasks s))(e := map_option (\<lambda>d. d\<lparr>dt_isHead := False\<rparr>) (rows (tasks s) e),
         next_id s \<mapsto> fresh_task task st (Some e) (dt_prior_ct (get_task s e) + 1)))"
  proof (cases "lookup_any (tasks s) (Task_status st)")
    case None
    then have "queueTask task st s = ?s2" using same
      by (simp add: queueTask_def new case_prod_beta Let_def)
    then show ?thesis
      by (simp only: None option.case r2) (simp add: fresh_task_def default_task_def)
  next
    case (Some e')
    then obtain d where d: "rows (tasks s) e' = Some d"
      using task_index.lookup_anyD [OF ok] by blast
    have ne: "e' \<noteq> ?n" using e [OF Some] by auto
    let ?s3 = "upd_task e' (\<lambda>d. d\<lparr>dt_isHead := False\<rparr>) ?s2"
    let ?s4 = "upd_task ?n (\<lambda>d. d\<lparr>dt_prior := Some e'\<rparr>) ?s3"
    have r3: "rows (tasks ?s3) = (rows (tasks s))(?n \<mapsto> ?r\<lparr>dt_isHead := True\<rparr>, e' \<mapsto> d\<lparr>dt_isHead := False\<rparr>)"
      using ne by (auto simp: rows_upd_task r2 d fun_eq_iff)
    have r4: "rows (tasks ?s4) = (rows (tasks s))(?n \<mapsto> ?r\<lparr>dt_isHead := True, dt_prior := Some e'\<rparr>,
        e' \<mapsto> d\<lparr>dt_isHead := False\<rparr>)"
      using ne by (auto simp: rows_upd_task r3 fun_eq_iff)
    have "queueTask task st s =
        upd_task ?n (\<lambda>d. d\<lparr>dt_prior_ct := dt_prior_ct (get_task ?s4 e') + 1\<rparr>) ?s4"
      using same Some by (simp add: queueTask_def new case_prod_beta Let_def)
    moreover have "dt_prior_ct (get_task ?s4 e') = dt_prior_ct (get_task s e')"
      by (simp add: get_task_def r4 d)
    ultimately have "rows (tasks (queueTask task st s)) =
        (rows (tasks s))(?n \<mapsto> ?r\<lparr>dt_isHead := True, dt_prior := Some e', dt_prior_ct := dt_prior_ct (get_task s e') + 1\<rparr>,
        e' \<mapsto> d\<lparr>dt_isHead := False\<rparr>)"
      using ne by (auto simp: rows_upd_task r4 fun_eq_iff)
    with Some d ne show ?thesis by (auto simp: fresh_task_def default_task_def fun_eq_iff)
  qed
  show "next_id (queueTask task st s) = Suc (next_id s)"
    by (simp add: queueTask_def new_task_def Let_def split: option.split)
qed

lemma queueTask_tbl_ok:
  assumes "tasks_inv s"
  shows "tbl_ok task_keys (tasks (queueTask task st s))"
  using assms
  by (auto simp: tasks_inv_def queueTask_def new_task_def upd_task_def Let_def
      intro!: task_index.ok_modify task_index.ok_new split: option.split)

lemma queueTask_inv:
  assumes inv: "tasks_inv s" and st: "st \<noteq> Running"
  shows "tasks_inv (queueTask task st s)"
proof -
  let ?T = "rows (tasks s)" let ?n = "next_id s"
  let ?T' = "rows (tasks (queueTask task st s))"
  have ok: "tbl_ok task_keys (tasks s)" and free: "\<And>i. i \<ge> ?n \<Longrightarrow> ?T i = None"
    and ch: "linked ?T" "unshared ?T" "anchored ?T"
      "\<And>i r. ?T i = Some r \<Longrightarrow> dt_status r = Running \<Longrightarrow> dt_isHead r"
    using inv by (auto simp: tasks_inv_def chains_ok_def)
  have "chains_ok ?T' \<and> (\<forall>i\<ge>Suc ?n. ?T' i = None)"
  proof (cases "lookup_any (tasks s) (Task_status st)")
    case None
    then have T': "?T' = ?T(?n \<mapsto> fresh_task task st None 0)"
      using rows_queueTask(1) [OF inv] by simp
    have lt: "?T i = Some r \<Longrightarrow> i \<noteq> ?n" for i r using free [of ?n] by auto
    have nop: "?T i = Some r \<Longrightarrow> dt_prior r = Some j \<Longrightarrow> j \<noteq> ?n" for i r j
      using linkedD(2) [OF ch(1), of i r j] free [of ?n] by auto
    have "linked ?T'" unfolding linked_def T'
    proof (intro allI impI)
      fix i r j assume a: "(?T(?n \<mapsto> fresh_task task st None 0)) i = Some r" "dt_prior r = Some j"
      then have "?T i = Some r" "i \<noteq> ?n" by (auto simp: fresh_task_def split: if_splits)
      with linkedD [OF ch(1) _ a(2)] nop [OF _ a(2)]
      show "j < i \<and> (\<exists>q. (?T(?n \<mapsto> fresh_task task st None 0)) j = Some q \<and>
          \<not> dt_isHead q \<and> dt_status q \<noteq> Running \<and> (dt_status r \<noteq> Running \<longrightarrow> dt_status q = dt_status r))"
        by auto
    qed
    moreover have "unshared ?T'"
      using ch(2) unfolding unshared_def T' by (auto simp: fresh_task_def)
    moreover have "anchored ?T'" unfolding anchored_def T'
    proof (intro allI impI)
      fix i r assume a: "(?T(?n \<mapsto> fresh_task task st None 0)) i = Some r" "\<not> dt_isHead r"
      then have "?T i = Some r" by (auto simp: fresh_task_def split: if_splits)
      then obtain k q where "?T k = Some q" "dt_prior q = Some i"
        using ch(3) a(2) unfolding anchored_def by blast
      with lt [of k] show "\<exists>k q. (?T(?n \<mapsto> fresh_task task st None 0)) k = Some q \<and> dt_prior q = Some i"
        by (intro exI [of _ k] exI [of _ q]) auto
    qed
    ultimately show ?thesis
      using ch(4) free by (auto simp: chains_ok_def T' fresh_task_def)
  next
    case (Some e)
    then obtain d where d: "?T e = Some d" "dt_isHead d" "dt_status d = st"
      using task_index.lookup_anyD [OF ok] head_key by blast
    define ct where "ct = dt_prior_ct (get_task s e) + 1"
    have T': "?T' = ?T(e \<mapsto> d\<lparr>dt_isHead := False\<rparr>, ?n \<mapsto> fresh_task task st (Some e) ct)"
      using rows_queueTask(1) [OF inv, of task st] Some d(1) by (simp add: ct_def)
    have en: "e < ?n" using d(1) free [of e] by (metis leI option.distinct(1))
    have lt: "?T i = Some r \<Longrightarrow> i \<noteq> ?n" for i r using free [of ?n] by auto
    have nop: "?T i = Some r \<Longrightarrow> dt_prior r = Some j \<Longrightarrow> j \<noteq> ?n \<and> j \<noteq> e" for i r j
      using linkedD(2) [OF ch(1), of i r j] free [of ?n] d(1,2) by auto
    have split: "?T' i = Some r \<longleftrightarrow> (i = ?n \<and> r = fresh_task task st (Some e) ct) \<or>
        (i = e \<and> i \<noteq> ?n \<and> r = d\<lparr>dt_isHead := False\<rparr>) \<or> (i \<noteq> ?n \<and> i \<noteq> e \<and> ?T i = Some r)" for i r
      unfolding T' by auto
    have "linked ?T'" unfolding linked_def
    proof (intro allI impI)
      fix i r j assume a: "?T' i = Some r" "dt_prior r = Some j"
      show "j < i \<and> (\<exists>q. ?T' j = Some q \<and> \<not> dt_isHead q \<and> dt_status q \<noteq> Running \<and>
          (dt_status r \<noteq> Running \<longrightarrow> dt_status q = dt_status r))"
      proof (cases "i = ?n")
        case True
        with a split have "r = fresh_task task st (Some e) ct" by blast
        with a(2) have "j = e" "dt_status r = st" by (auto simp: fresh_task_def)
        with True en d st show ?thesis by (auto simp: T')
      next
        case False
        with a(1) split obtain r0 where "?T i = Some r0" "dt_prior r0 = dt_prior r"
          "dt_status r0 = dt_status r" using d(1) by fastforce
        with linkedD [OF ch(1), of i r0 j] a(2) nop [of i r0 j] show ?thesis
          by (auto simp: T')
      qed
    qed
    moreover have "unshared ?T'" unfolding unshared_def
    proof (intro allI impI)
      fix i r i' r' j
      assume a: "?T' i = Some r" "?T' i' = Some r'" "dt_prior r = Some j" "dt_prior r' = Some j"
      have old: "k \<noteq> ?n \<Longrightarrow> ?T' k = Some q \<Longrightarrow> \<exists>q0. ?T k = Some q0 \<and> dt_prior q0 = dt_prior q" for k q
        using split [of k q] d(1) by auto
      have new: "?T' ?n = Some q \<Longrightarrow> dt_prior q = Some e" for q
        by (auto simp: T' fresh_task_def)
      show "i = i'"
      proof (cases "i = ?n \<or> i' = ?n")
        case True
        then show ?thesis using a old nop new by (metis option.inject)
      next
        case False
        with old [OF _ a(1)] old [OF _ a(2)] a(3,4) ch(2) show ?thesis
          unfolding unshared_def by force
      qed
    qed
    moreover have "anchored ?T'" unfolding anchored_def
    proof (intro allI impI)
      fix i r assume a: "?T' i = Some r" "\<not> dt_isHead r"
      show "\<exists>k q. ?T' k = Some q \<and> dt_prior q = Some i"
      proof (cases "i = e")
        case True
        then show ?thesis by (intro exI [of _ ?n]) (simp add: T' fresh_task_def)
      next
        case False
        with a split have "?T i = Some r" by (auto simp: fresh_task_def)
        then obtain k q where kq: "?T k = Some q" "dt_prior q = Some i"
          using ch(3) a(2) unfolding anchored_def by blast
        show ?thesis
        proof (cases "k = e")
          case True
          with kq d(1) en show ?thesis by (intro exI [of _ e]) (auto simp: T')
        next
          case False
          with kq lt [OF kq(1)] show ?thesis by (intro exI [of _ k]) (auto simp: T')
        qed
      qed
    qed
    moreover have "dt_status r = Running \<Longrightarrow> dt_isHead r" if "?T' i = Some r" for i r
      using that split [of i r] ch(4) st d(3) by (auto simp: fresh_task_def)
    moreover have "\<forall>i\<ge>Suc ?n. ?T' i = None" using free en by (auto simp: T')
    ultimately show ?thesis by (auto simp: chains_ok_def)
  qed
  then show ?thesis
    using queueTask_tbl_ok [OF inv] rows_queueTask(2) [OF inv] by (auto simp: tasks_inv_def)
qed

section \<open>Starting and finishing keep the chains\<close>

lemma chains_okD:
  assumes "chains_ok T"
  shows "linked T" "unshared T" "anchored T"
    "T i = Some r \<Longrightarrow> dt_status r = Running \<Longrightarrow> dt_isHead r"
  using assms by (auto simp: chains_ok_def)

lemma head_not_prior:
  assumes "linked T" "T t = Some d" "dt_isHead d" "T i = Some r"
  shows "dt_prior r \<noteq> Some t"
  using linkedD(2) [OF assms(1,4)] assms(2,3) by auto

lemma start_chains:
  assumes ch: "chains_ok T" and t: "T t = Some d" "dt_isHead d"
  shows "chains_ok (T(t \<mapsto> d\<lparr>dt_status := Running\<rparr>))" (is "chains_ok ?T'")
proof -
  note c = chains_okD [OF ch]
  have old: "\<exists>r0. T i = Some r0 \<and> dt_prior r0 = dt_prior r \<and> dt_isHead r0 = dt_isHead r \<and>
      (i \<noteq> t \<longrightarrow> r0 = r)" if "?T' i = Some r" for i r
    using that t(1) by (auto split: if_splits)
  have "linked ?T'" unfolding linked_def
  proof (intro allI impI)
    fix i r j assume a: "?T' i = Some r" "dt_prior r = Some j"
    from old [OF a(1)] obtain r0 where r0: "T i = Some r0" "dt_prior r0 = Some j" "i \<noteq> t \<longrightarrow> r0 = r"
      using a(2) by auto
    have "j \<noteq> t" using head_not_prior [OF c(1) t r0(1)] r0(2) by auto
    with linkedD [OF c(1) r0(1,2)] r0(3) a(1)
    show "j < i \<and> (\<exists>q. ?T' j = Some q \<and> \<not> dt_isHead q \<and> dt_status q \<noteq> Running \<and>
        (dt_status r \<noteq> Running \<longrightarrow> dt_status q = dt_status r))" by (auto split: if_splits)
  qed
  moreover have "unshared ?T'" unfolding unshared_def
  proof (intro allI impI)
    fix i r i' r' j
    assume "?T' i = Some r" "?T' i' = Some r'" "dt_prior r = Some j" "dt_prior r' = Some j"
    with old [of i r] old [of i' r'] c(2) show "i = i'" unfolding unshared_def by (metis (no_types))
  qed
  moreover have "anchored ?T'" unfolding anchored_def
  proof (intro allI impI)
    fix i r assume a: "?T' i = Some r" "\<not> dt_isHead r"
    with old [OF a(1)] c(3) obtain k q where "T k = Some q" "dt_prior q = Some i"
      unfolding anchored_def by metis
    then show "\<exists>k q. ?T' k = Some q \<and> dt_prior q = Some i"
      using t(1) by (intro exI [of _ k] exI [of _ "if k = t then d\<lparr>dt_status := Running\<rparr> else q"]) auto
  qed
  ultimately show ?thesis using c(4) t by (auto simp: chains_ok_def)
qed

definition finish_rows :: "oid \<Rightarrow> task_rows \<Rightarrow> task_rows" where
  "finish_rows t T =
     (case T t of None \<Rightarrow> T
      | Some d \<Rightarrow> (case dt_prior d of None \<Rightarrow> T(t := None)
          | Some p \<Rightarrow> T(p := map_option (\<lambda>q. q\<lparr>dt_isHead := True\<rparr>) (T p), t := None)))"

lemma finish_chains:
  assumes ch: "chains_ok T" and t: "T t = Some d" "dt_status d = Running"
  shows "chains_ok (finish_rows t T)"
proof -
  note c = chains_okD [OF ch]
  have hd: "dt_isHead d" using c(4) [OF t] .
  let ?T' = "finish_rows t T"
  have p: "dt_prior d = Some p \<Longrightarrow> p < t \<and> (\<exists>q. T p = Some q \<and> \<not> dt_isHead q \<and> dt_status q \<noteq> Running)" for p
    using linkedD [OF c(1) t(1), of p] by blast
  have old: "\<exists>r0. T i = Some r0 \<and> i \<noteq> t \<and> dt_prior r0 = dt_prior r \<and> dt_status r0 = dt_status r \<and>
      (if dt_prior d = Some i then dt_isHead r else r0 = r)" if "?T' i = Some r" for i r
    using that t(1) p by (auto simp: finish_rows_def split: option.splits if_splits)
  have new: "?T' i = Some (if dt_prior d = Some i then r\<lparr>dt_isHead := True\<rparr> else r)"
    if "T i = Some r" "i \<noteq> t" for i r
    using that t(1) p by (auto simp: finish_rows_def split: option.splits if_splits)
  have "linked ?T'" unfolding linked_def
  proof (intro allI impI)
    fix i r j assume a: "?T' i = Some r" "dt_prior r = Some j"
    from old [OF a(1)] obtain r0 where r0: "T i = Some r0" "i \<noteq> t" "dt_prior r0 = Some j"
      "dt_status r0 = dt_status r" using a(2) by auto
    have "j \<noteq> t" using head_not_prior [OF c(1) t(1) hd r0(1)] r0(3) by auto
    have "dt_prior d \<noteq> Some j" using c(2) r0(1-3) t(1) unfolding unshared_def by blast
    with linkedD [OF c(1) r0(1,3)] new [of j] \<open>j \<noteq> t\<close> r0(4)
    show "j < i \<and> (\<exists>q. ?T' j = Some q \<and> \<not> dt_isHead q \<and> dt_status q \<noteq> Running \<and>
        (dt_status r \<noteq> Running \<longrightarrow> dt_status q = dt_status r))" by auto
  qed
  moreover have "unshared ?T'" unfolding unshared_def
  proof (intro allI impI)
    fix i r i' r' j
    assume "?T' i = Some r" "?T' i' = Some r'" "dt_prior r = Some j" "dt_prior r' = Some j"
    with old [of i r] old [of i' r'] c(2) show "i = i'" unfolding unshared_def by (metis (no_types))
  qed
  moreover have "anchored ?T'" unfolding anchored_def
  proof (intro allI impI)
    fix i r assume a: "?T' i = Some r" "\<not> dt_isHead r"
    from old [OF a(1)] a(2) have i: "T i = Some r" "i \<noteq> t" "dt_prior d \<noteq> Some i"
      by (auto split: if_splits)
    then obtain k q where k: "T k = Some q" "dt_prior q = Some i"
      using c(3) a(2) unfolding anchored_def by blast
    then have "k \<noteq> t" using i(3) t(1) by auto
    from new [OF k(1) this] k(2) show "\<exists>k q. ?T' k = Some q \<and> dt_prior q = Some i"
      by (intro exI [of _ k]) auto
  qed
  moreover have "dt_isHead r" if r: "?T' i = Some r" "dt_status r = Running" for i r
    using old [OF r(1)] c(4) [of i] r(2) by (auto split: if_splits)
  ultimately show ?thesis by (auto simp: chains_ok_def)
qed

lemma startTask_inv:
  assumes "tasks_inv s" "rows (tasks s) t = Some d" "dt_isHead d"
  shows "tasks_inv (startTask t s)"
proof -
  have "rows (tasks (startTask t s)) = (rows (tasks s))(t \<mapsto> d\<lparr>dt_status := Running\<rparr>)"
    by (rule ext) (simp add: startTask_def rows_upd_task assms(2))
  moreover have "tbl_ok task_keys (tasks (startTask t s))"
    using assms(1) by (auto simp: tasks_inv_def startTask_def upd_task_def intro: task_index.ok_modify)
  moreover have "next_id (startTask t s) = next_id s" by (simp add: startTask_def)
  ultimately show ?thesis
    using assms start_chains [of "rows (tasks s)" t d] by (auto simp: tasks_inv_def)
qed

lemma rows_finishTask:
  assumes "rows (tasks s) t = Some d" "dt_prior d \<noteq> Some t"
  shows "rows (tasks (finishTask t s)) = finish_rows t (rows (tasks s))"
  using assms
  by (auto simp: finishTask_def get_task_def del_task_def finish_rows_def rows_upd_task fun_eq_iff
      Let_def split: option.split)

lemma finishTask_inv:
  assumes inv: "tasks_inv s" and t: "rows (tasks s) t = Some d" "dt_status d = Running"
  shows "tasks_inv (finishTask t s)"
proof -
  have ch: "chains_ok (rows (tasks s))" using inv by (simp add: tasks_inv_def)
  have "dt_prior d \<noteq> Some t" using linkedD(1) [OF chains_okD(1) [OF ch] t(1)] by auto
  note r = rows_finishTask [OF t(1) this]
  have "tbl_ok task_keys (tasks (finishTask t s))"
    using inv by (auto simp: tasks_inv_def finishTask_def del_task_def upd_task_def Let_def
        intro!: task_index.ok_modify task_index.ok_delete split: option.split)
  moreover have "next_id (finishTask t s) = next_id s"
    by (simp add: finishTask_def del_task_def Let_def split: option.split)
  moreover have "finish_rows t (rows (tasks s)) i = None" if "i \<ge> next_id s" for i
    using that inv by (auto simp: tasks_inv_def finish_rows_def split: option.split)
  ultimately show ?thesis using finish_chains [OF ch t] by (simp add: tasks_inv_def r)
qed

lemma first_some_Some: "first_some xs = Some x \<Longrightarrow> Some x \<in> set xs"
  by (induction xs rule: first_some.induct) auto

lemma nextTask_head:
  assumes "tasks_inv s" "nextTask s = Some t"
  shows "\<exists>d. rows (tasks s) t = Some d \<and> dt_isHead d \<and> dt_status d \<noteq> Running"
proof -
  from first_some_Some [OF assms(2) [unfolded nextTask_def]] obtain st where
    st: "st \<noteq> Running" "lookup_any (tasks s) (Task_status st) = Some t"
    by (auto intro: that [of PendingVeryHigh] that [of PendingHigh] that [of PendingMedium]
        that [of PendingLow] that [of PendingVeryLow])
  have "tbl_ok task_keys (tasks s)" using assms(1) by (simp add: tasks_inv_def)
  from task_index.lookup_anyD [OF this st(2)] st(1) show ?thesis by (auto simp: head_key)
qed

section \<open>Interleaved background work\<close>

text \<open>Several threads queue, start and finish tasks; every other transaction leaves the tasks alone.\<close>

inductive queue_step :: "'m mgr \<Rightarrow> 'm mgr \<Rightarrow> bool" where
  queue: "st \<noteq> Running \<Longrightarrow> queue_step s (queueTask task st s)"
| start: "nextTask s = Some t \<Longrightarrow> queue_step s (startTask t s)"
| finish: "rows (tasks s) t = Some d \<Longrightarrow> dt_status d = Running \<Longrightarrow> queue_step s (finishTask t s)"
| other: "tasks s' = tasks s \<Longrightarrow> next_id s \<le> next_id s' \<Longrightarrow> queue_step s s'"

inductive queue_reachable :: "'m mgr \<Rightarrow> bool" where
  initial: "queue_reachable (new_manager m now)"
| step: "queue_reachable s \<Longrightarrow> queue_step s s' \<Longrightarrow> queue_reachable s'"

lemma queue_step_inv: "queue_step s s' \<Longrightarrow> tasks_inv s \<Longrightarrow> tasks_inv s'"
proof (induction rule: queue_step.induct)
  case (start s t)
  with nextTask_head [OF start(2,1)] startTask_inv show ?case by blast
qed (auto intro: queueTask_inv finishTask_inv tasks_inv_frame)

lemma queue_reachable_inv: "queue_reachable s \<Longrightarrow> tasks_inv s"
  by (induction rule: queue_reachable.induct) (auto intro: tasks_inv_new_manager queue_step_inv)

fun task_rank :: "task_status \<Rightarrow> nat" where
  "task_rank PendingVeryHigh = 0"
| "task_rank PendingHigh = 1"
| "task_rank PendingMedium = 2"
| "task_rank PendingLow = 3"
| "task_rank PendingVeryLow = 4"
| "task_rank Running = 5"

definition behind :: "task_rows \<Rightarrow> (oid \<times> oid) set" where
  "behind T = {(i, j). \<exists>r. T i = Some r \<and> dt_prior r = Some j}"

lemma reachable_from_head:
  assumes "chains_ok T" "\<forall>i\<ge>n. T i = None" "T i = Some r"
  shows "\<exists>h q. (h, i) \<in> (behind T)\<^sup>* \<and> T h = Some q \<and> dt_isHead q \<and>
    (dt_status q \<noteq> Running \<longrightarrow> dt_status q = dt_status r)"
  using assms(3)
proof (induction "n - i" arbitrary: i r rule: less_induct)
  case less
  show ?case
  proof (cases "dt_isHead r")
    case True
    with less.prems show ?thesis by blast
  next
    case False
    with less.prems obtain k d where k: "T k = Some d" "dt_prior d = Some i"
      using chains_okD(3) [OF assms(1)] unfolding anchored_def by blast
    have "i < k" and st: "dt_status d \<noteq> Running \<Longrightarrow> dt_status r = dt_status d"
      using linkedD [OF chains_okD(1) [OF assms(1)] k] less.prems by auto
    moreover have "k < n" using assms(2) k(1) by (metis leI option.distinct(1))
    ultimately have "n - k < n - i" by simp
    from less.hyps [OF this k(1)] obtain h q where
      h: "(h, k) \<in> (behind T)\<^sup>*" "T h = Some q" "dt_isHead q" "dt_status q \<noteq> Running \<longrightarrow> dt_status q = dt_status d"
      by blast
    have "(k, i) \<in> behind T" using k by (auto simp: behind_def)
    with h(1) have "(h, i) \<in> (behind T)\<^sup>*" by (rule rtrancl_into_rtrancl)
    with h st show ?thesis by metis
  qed
qed

lemma first_some_least:
  "first_some (map f xs) = Some t \<Longrightarrow> f x = Some u \<Longrightarrow> x \<in> set xs \<Longrightarrow> sorted_wrt R xs \<Longrightarrow>
   \<exists>y\<in>set xs. f y = Some t \<and> (y = x \<or> R y x)"
proof (induction xs)
  case (Cons a xs)
  show ?case
  proof (cases "f a")
    case None
    with Cons show ?thesis by auto
  next
    case (Some v)
    with Cons.prems show ?thesis by auto
  qed
qed simp

lemma first_some_None: "first_some xs = None \<longleftrightarrow> set xs \<subseteq> {None}"
  by (induction xs rule: first_some.induct) auto

definition pending_statuses :: "task_status list" where
  "pending_statuses = [PendingVeryHigh, PendingHigh, PendingMedium, PendingLow, PendingVeryLow]"

lemma pending_statuses_all: "st \<noteq> Running \<longleftrightarrow> st \<in> set pending_statuses"
  by (cases st) (auto simp: pending_statuses_def)

lemma nextTask_highest:
  assumes inv: "tasks_inv s" and idle: "\<forall>i r. rows (tasks s) i = Some r \<longrightarrow> dt_status r \<noteq> Running"
    and i: "rows (tasks s) i = Some r"
  shows "\<exists>t d. nextTask s = Some t \<and> rows (tasks s) t = Some d \<and> task_rank (dt_status d) \<le> task_rank (dt_status r)"
proof -
  have ok: "tbl_ok task_keys (tasks s)" and ch: "chains_ok (rows (tasks s))"
    and free: "\<forall>i\<ge>next_id s. rows (tasks s) i = None" using inv by (auto simp: tasks_inv_def)
  from reachable_from_head [OF ch free i] obtain h q where
    h: "rows (tasks s) h = Some q" "dt_isHead q" "dt_status q = dt_status r" using idle by blast
  then have "Task_status (dt_status r) \<in> set (task_keys q)" by (simp add: head_key)
  then have "lookup_any (tasks s) (Task_status (dt_status r)) \<noteq> None"
    using task_index.lookup_any_NoneD [OF ok _ h(1)] by blast
  then obtain u where u: "lookup_any (tasks s) (Task_status (dt_status r)) = Some u" by blast
  have st: "dt_status r \<in> set pending_statuses" using idle i pending_statuses_all by blast
  let ?f = "\<lambda>st. lookup_any (tasks s) (Task_status st)"
  have nt: "nextTask s = first_some (map ?f pending_statuses)"
    by (simp add: nextTask_def pending_statuses_def)
  have "nextTask s \<noteq> None" unfolding nt first_some_None using u st by force
  then obtain t where t: "nextTask s = Some t" by blast
  have "sorted_wrt (\<lambda>a b. task_rank a < task_rank b) pending_statuses"
    by (simp add: pending_statuses_def)
  from first_some_least [OF t [unfolded nt] u st this] obtain st' where
    st': "lookup_any (tasks s) (Task_status st') = Some t" "task_rank st' \<le> task_rank (dt_status r)"
    by auto
  from task_index.lookup_anyD [OF ok st'(1)] obtain d where "rows (tasks s) t = Some d" "dt_status d = st'"
    by (auto simp: head_key)
  with t st'(2) show ?thesis by auto
qed

text \<open>C2: In every interleaving of queueing, starting and finishing background tasks, no task is lost:
  every waiting task hangs on a chain whose head is in the index or is being worked on; and whenever
  nothing is being worked on, \<open>performBackgroundWork\<close> finds a task exactly if there is one, and the one it takes
  has the highest priority.\<close>

theorem background_tasks_not_lost:
  assumes "queue_reachable s"
  shows "(\<forall>i r. rows (tasks s) i = Some r \<longrightarrow>
      (\<exists>h q. (h, i) \<in> (behind (rows (tasks s)))\<^sup>* \<and> rows (tasks s) h = Some q \<and> dt_isHead q)) \<and>
    ((\<forall>i r. rows (tasks s) i = Some r \<longrightarrow> dt_status r \<noteq> Running) \<longrightarrow>
      (case nextTask s of
         None \<Rightarrow> \<forall>i. rows (tasks s) i = None
       | Some t \<Rightarrow> \<exists>d. rows (tasks s) t = Some d \<and>
           (\<forall>i r. rows (tasks s) i = Some r \<longrightarrow> task_rank (dt_status d) \<le> task_rank (dt_status r))))"
proof -
  have inv: "tasks_inv s" by (rule queue_reachable_inv [OF assms])
  then have ch: "chains_ok (rows (tasks s))" and free: "\<forall>i\<ge>next_id s. rows (tasks s) i = None"
    by (auto simp: tasks_inv_def)
  have "\<exists>h q. (h, i) \<in> (behind (rows (tasks s)))\<^sup>* \<and> rows (tasks s) h = Some q \<and> dt_isHead q"
    if "rows (tasks s) i = Some r" for i r using reachable_from_head [OF ch free that] by blast
  moreover have "case nextTask s of None \<Rightarrow> \<forall>i. rows (tasks s) i = None
       | Some t \<Rightarrow> \<exists>d. rows (tasks s) t = Some d \<and>
           (\<forall>i r. rows (tasks s) i = Some r \<longrightarrow> task_rank (dt_status d) \<le> task_rank (dt_status r))"
    if idle: "\<forall>i r. rows (tasks s) i = Some r \<longrightarrow> dt_status r \<noteq> Running"
  proof (cases "nextTask s")
    case None
    have "rows (tasks s) i = None" for i
      using nextTask_highest [OF inv idle, of i] None by (cases "rows (tasks s) i") auto
    with None show ?thesis by simp
  next
    case (Some t)
    from nextTask_head [OF inv Some] obtain d where d: "rows (tasks s) t = Some d" by blast
    have "task_rank (dt_status d) \<le> task_rank (dt_status r)" if "rows (tasks s) i = Some r" for i r
      using nextTask_highest [OF inv idle that] Some d by auto
    with Some d show ?thesis by simp
  qed
  ultimately show ?thesis by blast
qed

definition demo_queue :: "unit mgr" where
  "demo_queue = queueTask RefreshRepos PendingLow (queueTask BootMachineCheck PendingHigh (new_manager () 0))"

lemma demo_queue_reachable: "queue_reachable demo_queue"
  unfolding demo_queue_def
proof (rule queue_reachable.step [OF _ queue_step.queue])
  show "queue_reachable (queueTask BootMachineCheck PendingHigh (new_manager () 0))"
    by (rule queue_reachable.step [OF queue_reachable.initial queue_step.queue]) simp
qed simp

theorem background_tasks_not_lost_witness:
  "rows (tasks demo_queue) 1 \<noteq> None \<and>
   (\<exists>h q. (h, 1) \<in> (behind (rows (tasks demo_queue)))\<^sup>* \<and> rows (tasks demo_queue) h = Some q \<and> dt_isHead q)"
proof -
  have "rows (tasks demo_queue) 1 \<noteq> None" by code_simp
  with background_tasks_not_lost [OF demo_queue_reachable] show ?thesis by blast
qed

section \<open>A crash during background work\<close>

definition crashed_queue :: "background_task \<Rightarrow> background_task \<Rightarrow> task_status \<Rightarrow> unit mgr" where
  "crashed_queue a b st =
     (let s = queueTask b st (queueTask a st (new_manager () 0))
      in case nextTask s of None \<Rightarrow> s | Some t \<Rightarrow> startTask t s)"

text \<open>the chain behind a task is out of reach while the task is running. If the server stops between the
  transaction that marks a task running and the one that removes it, the tasks behind it stay in
  the database and are never found again: here the task \<open>a\<close> waits and there is nothing to do.\<close>

theorem crash_orphans_waiting_tasks:
  assumes "st \<noteq> Running"
  shows "nextTask (crashed_queue a b st) = None \<and>
    (\<exists>d. rows (tasks (crashed_queue a b st)) 0 = Some d \<and> dt_task d = a \<and> dt_status d = st)"
proof -
  define s1 where "s1 = queueTask a st (new_manager () 0)"
  define s2 where "s2 = queueTask b st s1"
  have i0: "tasks_inv (new_manager () 0)" by (rule tasks_inv_new_manager)
  have i1: "tasks_inv s1" unfolding s1_def using queueTask_inv [OF i0 assms] .
  have i2: "tasks_inv s2" unfolding s2_def using queueTask_inv [OF i1 assms] .
  have e0: "rows (tasks (new_manager () 0)) = (\<lambda>_. None)" "next_id (new_manager () 0) = 0"
    "lookup_any (tasks (new_manager () 0)) k = None" for k
    by (simp_all add: new_manager_def fun_eq_iff lookup_any_def empty_tbl_def)
  have r1: "rows (tasks s1) = [0 \<mapsto> fresh_task a st None 0]" "next_id s1 = 1"
    using rows_queueTask [OF i0, of a st] e0 by (simp_all add: s1_def)
  have ok1: "tbl_ok task_keys (tasks s1)" using i1 by (simp add: tasks_inv_def)
  have "rows (tasks s1) 0 = Some (fresh_task a st None 0)" by (simp add: r1)
  from task_index.lookup_any_NoneD [OF ok1 _ this, of "Task_status st"]
  have "lookup_any (tasks s1) (Task_status st) \<noteq> None" by (auto simp: head_key fresh_task_def)
  then obtain x where x: "lookup_any (tasks s1) (Task_status st) = Some x" by blast
  with task_index.lookup_anyD [OF ok1 x] r1 have "x = 0" by (auto split: if_splits)
  then have r2: "\<exists>n. rows (tasks s2) = [0 \<mapsto> (fresh_task a st None 0)\<lparr>dt_isHead := False\<rparr>,
      1 \<mapsto> fresh_task b st (Some 0) n]"
    using rows_queueTask [OF i1, of b st] x r1
    by (auto simp: s2_def fun_eq_iff intro!: exI)
  then obtain n where r2: "rows (tasks s2) = [0 \<mapsto> (fresh_task a st None 0)\<lparr>dt_isHead := False\<rparr>,
      1 \<mapsto> fresh_task b st (Some 0) n]" by blast
  have "dt_status r \<noteq> Running" if "rows (tasks s2) i = Some r" for i r
    using that assms by (auto simp: r2 fresh_task_def split: if_splits)
  with nextTask_highest [OF i2, of 0] obtain t where t: "nextTask s2 = Some t"
    by (auto simp: r2)
  from nextTask_head [OF i2 t] have "t = 1" by (auto simp: r2 split: if_splits)
  let ?s = "startTask 1 s2"
  have c: "crashed_queue a b st = ?s"
    using t \<open>t = 1\<close> by (simp add: crashed_queue_def s1_def s2_def Let_def)
  have r3: "rows (tasks ?s) = [0 \<mapsto> (fresh_task a st None 0)\<lparr>dt_isHead := False\<rparr>,
      1 \<mapsto> (fresh_task b st (Some 0) n)\<lparr>dt_status := Running\<rparr>]"
    by (rule ext) (simp add: startTask_def rows_upd_task r2)
  have i3: "tasks_inv ?s" using startTask_inv [OF i2, of 1] by (simp add: r2 fresh_task_def)
  have "nextTask ?s = None"
  proof (rule ccontr)
    assume "nextTask ?s \<noteq> None"
    then obtain u where "nextTask ?s = Some u" by blast
    from nextTask_head [OF i3 this] show False
      unfolding r3 by (auto simp: fresh_task_def split: if_splits)
  qed
  moreover have "rows (tasks ?s) 0 = Some ((fresh_task a st None 0)\<lparr>dt_isHead := False\<rparr>)"
    unfolding r3 by simp
  ultimately show ?thesis unfolding c by (simp add: fresh_task_def)
qed

theorem crash_orphans_waiting_tasks_witness:
  "nextTask (crashed_queue RefreshRepos BootMachineCheck PendingVeryHigh) = None"
  using crash_orphans_waiting_tasks [of PendingVeryHigh RefreshRepos BootMachineCheck] by simp

section \<open>Work at server start\<close>

definition waiting_tasks :: "'m mgr \<Rightarrow> oid set" where
  "waiting_tasks s = {i. rows (tasks s) i \<noteq> None}"

definition idle_tasks :: "'m mgr \<Rightarrow> bool" where
  "idle_tasks s \<longleftrightarrow> (\<forall>i r. rows (tasks s) i = Some r \<longrightarrow> dt_status r \<noteq> Running)"

lemma finite_waiting: "tasks_inv s \<Longrightarrow> finite (waiting_tasks s)"
  by (rule finite_subset [of _ "{..<next_id s}"])
    (auto simp: tasks_inv_def waiting_tasks_def not_less [symmetric])

lemma start_finish:
  assumes inv: "tasks_inv s" and idle: "idle_tasks s" and t: "nextTask s = Some t"
  shows "tasks_inv (finishTask t (startTask t s))" "idle_tasks (finishTask t (startTask t s))"
    "waiting_tasks (finishTask t (startTask t s)) = waiting_tasks s - {t}" "t \<in> waiting_tasks s"
    "finishTask t (startTask t s) = s\<lparr>tasks := tasks (finishTask t (startTask t s))\<rparr>"
proof -
  from nextTask_head [OF inv t] obtain d where
    d: "rows (tasks s) t = Some d" "dt_isHead d" "dt_status d \<noteq> Running" by blast
  let ?s1 = "startTask t s"
  have r1: "rows (tasks ?s1) = (rows (tasks s))(t \<mapsto> d\<lparr>dt_status := Running\<rparr>)"
    by (rule ext) (simp add: startTask_def rows_upd_task d(1))
  have i1: "tasks_inv ?s1" by (rule startTask_inv [OF inv d(1,2)])
  have t1: "rows (tasks ?s1) t = Some (d\<lparr>dt_status := Running\<rparr>)" by (simp add: r1)
  show "tasks_inv (finishTask t ?s1)" by (rule finishTask_inv [OF i1 t1]) simp
  have np: "dt_prior d \<noteq> Some t"
    using linkedD(1) [OF chains_okD(1), of "rows (tasks s)" t d t] inv d(1) by (auto simp: tasks_inv_def)
  have r2: "rows (tasks (finishTask t ?s1)) = finish_rows t (rows (tasks ?s1))"
    using rows_finishTask [OF t1] np by simp
  show "idle_tasks (finishTask t ?s1)" unfolding idle_tasks_def
  proof (intro allI impI)
    fix i r assume "rows (tasks (finishTask t ?s1)) i = Some r"
    then have "\<exists>r0. rows (tasks s) i = Some r0 \<and> dt_status r0 = dt_status r"
      using np by (auto simp: r2 finish_rows_def r1 split: option.splits if_splits)
    with idle show "dt_status r \<noteq> Running" unfolding idle_tasks_def by metis
  qed
  show "waiting_tasks (finishTask t ?s1) = waiting_tasks s - {t}"
    using np by (auto simp: waiting_tasks_def r2 finish_rows_def r1 split: option.splits if_splits)
  show "t \<in> waiting_tasks s" using d(1) by (simp add: waiting_tasks_def)
  show "finishTask t ?s1 = s\<lparr>tasks := tasks (finishTask t ?s1)\<rparr>"
    by (simp add: finishTask_def startTask_def upd_task_def del_task_def Let_def split: option.split)
qed

text \<open>\<open>performBackgroundWorkSynchronously\<close>, which the server runs before it starts to serve, works
  nothing off: the missing argument makes every task raise, and the effect of working \<open>n\<close> tasks is that
  they are gone and nothing else in the database has changed.\<close>

theorem synchronous_work_drops_tasks:
  assumes "tasks_inv s" "idle_tasks s"
  shows "\<exists>T. snd (performBackgroundWorkSynchronously n s) = s\<lparr>tasks := T\<rparr> \<and>
    card (waiting_tasks (s\<lparr>tasks := T\<rparr>)) = card (waiting_tasks s) - n"
  using assms
proof (induction n arbitrary: s)
  case 0
  show ?case by (rule exI [of _ "tasks s"]) simp
next
  case (Suc n)
  show ?case
  proof (cases "nextTask s")
    case None
    have "rows (tasks s) i = None" for i
      using nextTask_highest [OF Suc.prems(1), of i] Suc.prems(2) None
      by (cases "rows (tasks s) i") (auto simp: idle_tasks_def)
    then have "waiting_tasks s = {}" by (simp add: waiting_tasks_def)
    with None show ?thesis by (intro exI [of _ "tasks s"]) simp
  next
    case (Some t)
    let ?s3 = "finishTask t (startTask t s)"
    note sf = start_finish [OF Suc.prems Some]
    from Suc.IH [OF sf(1,2)] obtain T where
      T: "snd (performBackgroundWorkSynchronously n ?s3) = ?s3\<lparr>tasks := T\<rparr>"
      "card (waiting_tasks (?s3\<lparr>tasks := T\<rparr>)) = card (waiting_tasks ?s3) - n" by blast
    have "?s3\<lparr>tasks := T\<rparr> = s\<lparr>tasks := T\<rparr>" by (subst sf(5)) simp
    moreover have "snd (performBackgroundWorkSynchronously (Suc n) s) =
        snd (performBackgroundWorkSynchronously n ?s3)"
      using Some by (simp add: processTaskTwoArguments_def Let_def split: prod.split option.split)
    moreover have "card (waiting_tasks ?s3) = card (waiting_tasks s) - 1"
      using sf(3,4) finite_waiting [OF Suc.prems(1)] by simp
    ultimately show ?thesis using T by (intro exI [of _ T]) simp
  qed
qed

theorem synchronous_work_drops_tasks_witness:
  "\<exists>T. snd (performBackgroundWorkSynchronously 100 demo_queue) = demo_queue\<lparr>tasks := T\<rparr> \<and>
     card (waiting_tasks (demo_queue\<lparr>tasks := T\<rparr>)) = card (waiting_tasks demo_queue) - 100"
proof (rule synchronous_work_drops_tasks)
  show "tasks_inv demo_queue" by (rule queue_reachable_inv [OF demo_queue_reachable])
  have "case rows (tasks demo_queue) 0 of None \<Rightarrow> True | Some r \<Rightarrow> dt_status r \<noteq> Running"
    "case rows (tasks demo_queue) 1 of None \<Rightarrow> True | Some r \<Rightarrow> dt_status r \<noteq> Running"
    "next_id demo_queue = 2" by code_simp+
  moreover have "i < 2" if "rows (tasks demo_queue) i = Some r" for i r
    using that queue_reachable_inv [OF demo_queue_reachable] \<open>next_id demo_queue = 2\<close>
    by (auto simp: tasks_inv_def not_less [symmetric])
  ultimately show "idle_tasks demo_queue"
    unfolding idle_tasks_def
  proof (intro allI impI)
    fix i r assume r: "rows (tasks demo_queue) i = Some r"
    then have "i = 0 \<or> i = 1" using \<open>\<And>r i. rows (tasks demo_queue) i = Some r \<Longrightarrow> i < 2\<close> by force
    with r \<open>case rows (tasks demo_queue) 0 of None \<Rightarrow> True | Some r \<Rightarrow> dt_status r \<noteq> Running\<close>
      \<open>case rows (tasks demo_queue) 1 of None \<Rightarrow> True | Some r \<Rightarrow> dt_status r \<noteq> Running\<close>
    show "dt_status r \<noteq> Running" by (elim disjE) simp_all
  qed
qed

end
