(* ===== verification/Commit_Graph.thy ===== *)
theory Commit_Graph
  imports Task_Queue "HOL-Library.Char_ord" "HOL-Library.List_Lexorder"
begin

text \<open>
  Walks over the graph of commits in \<^verbatim>\<open>TestManager.py\<close>: the commits around a commit
  (\<open>getNCommits\<close>), the commits of a branch (\<open>commitsToDisplayForBranch\<close>,
  \<open>topNPrioritizedCommitsForBranch\<close>, \<open>prioritizeAllCommitsUnderBranch\<close>), the commits that may have
  tests (\<open>_allCommitsWithPossibilityOfTests\<close>), and the names of a commit relative to the branches
  above it (\<open>commitFindAllBranches\<close>, \<open>bestCommitBranchAndName\<close>).
\<close>

section \<open>Reading the graph\<close>

definition commit_data :: "'m mgr \<Rightarrow> oid \<Rightarrow> commit_data_row option" where
  "commit_data s c = map_option (get_commit_data s) (cm_data (get_commit s c))"

definition parents_of :: "'m mgr \<Rightarrow> oid \<Rightarrow> oid list" where
  "parents_of s c = (case commit_data s c of None \<Rightarrow> [] | Some d \<Rightarrow> cd_parents d)"

definition children_of :: "'m mgr \<Rightarrow> oid \<Rightarrow> oid list" where
  "children_of s c = map (\<lambda>r. rel_child (get_relationship s r)) (lookup_all (relationships s) (Rel_parent c))"

definition allTestsForCommit :: "'m mgr \<Rightarrow> oid \<Rightarrow> oid list" where
  "allTestsForCommit s c = (case commit_data s c of None \<Rightarrow> [] | Some d \<Rightarrow> map snd (cd_tests d))"

definition allTestsDependedOnByTest :: "'m mgr \<Rightarrow> oid \<Rightarrow> oid list" where
  "allTestsDependedOnByTest s t = map (\<lambda>d. td_dependsOn (get_test_dep s d)) (lookup_all (test_deps s) (TD_test t))"

definition totalRunningCountForCommit :: "'m mgr \<Rightarrow> oid \<Rightarrow> int" where
  "totalRunningCountForCommit s c = fold (\<lambda>t res. res + max 0 (ts_activeRuns (get_test s t))) (allTestsForCommit s c) 0"

section \<open>Breadth-first search\<close>

text \<open>The loop of \<open>getNCommits\<close>: \<open>commits\<close> is also the set \<open>seen\<close>.\<close>

function bfs :: "nat \<Rightarrow> (oid \<Rightarrow> bool) \<Rightarrow> (oid \<Rightarrow> oid list) \<Rightarrow> oid list \<Rightarrow> oid list \<Rightarrow> oid list" where
  "bfs N allowed succs frontier seen =
     (case frontier of
        [] \<Rightarrow> seen
      | c # rest \<Rightarrow>
          if length seen \<ge> N then seen
          else if c \<notin> set seen \<and> allowed c then bfs N allowed succs (rest @ succs c) (seen @ [c])
          else bfs N allowed succs rest seen)"
  by pat_completeness auto
termination
  by (relation "measures [\<lambda>(N, _, _, frontier, seen). N - length seen,
        \<lambda>(N, _, _, frontier, seen). length frontier]") auto

declare bfs.simps [simp del]

lemma bfs_simps:
  "bfs N A f [] seen = seen"
  "N \<le> length seen \<Longrightarrow> bfs N A f (c # rest) seen = seen"
  "\<not> N \<le> length seen \<Longrightarrow> c \<notin> set seen \<and> A c \<Longrightarrow> bfs N A f (c # rest) seen = bfs N A f (rest @ f c) (seen @ [c])"
  "\<not> N \<le> length seen \<Longrightarrow> \<not> (c \<notin> set seen \<and> A c) \<Longrightarrow> bfs N A f (c # rest) seen = bfs N A f rest seen"
  by (auto simp: bfs.simps [of N A f "[]"] bfs.simps [of N A f "c # rest"])

definition getNCommits :: "oid \<Rightarrow> nat \<Rightarrow> string \<Rightarrow> oid list option \<Rightarrow> 'm mgr \<Rightarrow> oid list res" where
  "getNCommits commit N direction restrictTo s =
     (if direction \<notin> {''above'', ''below''} then Inl AssertionError
      else
        let allowed = (\<lambda>c. case restrictTo of None \<Rightarrow> True | Some R \<Rightarrow> R = [] \<or> c \<in> set R);
            succs = (if direction = ''below'' then parents_of s else children_of s)
        in Inr (tl (bfs N allowed succs [commit] [])))"

text \<open>With a limit the loop of \<open>commitsToDisplayForBranch\<close> returns from inside; without one it ends when
  the commits are exhausted.\<close>

partial_function (option) display_loop ::
  "nat option \<Rightarrow> (oid \<Rightarrow> oid list) \<Rightarrow> oid list \<Rightarrow> oid list \<Rightarrow> oid list option" where
  "display_loop max_commits parents new ordered =
     (case new of
        [] \<Rightarrow> Some ordered
      | n # rest \<Rightarrow>
          if n \<in> set ordered then display_loop max_commits parents rest ordered
          else if max_commits \<noteq> None \<and> length (ordered @ [n]) \<ge> the max_commits then Some (ordered @ [n])
          else display_loop max_commits parents (rest @ parents n) (ordered @ [n]))"

definition commitsToDisplayForBranch :: "oid \<Rightarrow> nat option \<Rightarrow> 'm mgr \<Rightarrow> oid list option" where
  "commitsToDisplayForBranch branch max_commits s =
     display_loop max_commits (parents_of s)
       (case br_head (get_branch s branch) of None \<Rightarrow> [] | Some h \<Rightarrow> [h]) []"

fun top_prioritized :: "'m mgr \<Rightarrow> nat \<Rightarrow> nat \<Rightarrow> oid option \<Rightarrow> oid list \<Rightarrow> oid list" where
  "top_prioritized s commitCount 0 head res = res"
| "top_prioritized s commitCount (Suc maxLookback) head res =
     (case head of
        None \<Rightarrow> res
      | Some h \<Rightarrow>
          if length res \<ge> commitCount then res
          else
            let res' = (if cm_userPriority (get_commit s h) \<noteq> 0 then res @ [h] else res)
            in top_prioritized s commitCount maxLookback
                 (case parents_of s h of [] \<Rightarrow> None | p # _ \<Rightarrow> Some p) res')"

definition topNPrioritizedCommitsForBranch :: "oid \<Rightarrow> nat \<Rightarrow> nat \<Rightarrow> 'm mgr \<Rightarrow> oid list" where
  "topNPrioritizedCommitsForBranch branch commitCount maxLookback s =
     top_prioritized s commitCount maxLookback (br_head (get_branch s branch)) []"

section \<open>Commits that may have tests\<close>

definition OLDEST_TIMESTAMP_WITH_TESTS :: int where
  "OLDEST_TIMESTAMP_WITH_TESTS = 1500000000"

definition commitMightHaveTests :: "'m mgr \<Rightarrow> oid \<Rightarrow> bool" where
  "commitMightHaveTests s c \<longleftrightarrow>
     (case commit_data s c of None \<Rightarrow> False | Some d \<Rightarrow> cd_timestamp d > OLDEST_TIMESTAMP_WITH_TESTS)"

text \<open>The two sets are lists without duplicates; \<open>pop\<close> takes any element, here the first.\<close>

partial_function (option) possible_loop :: "'m mgr \<Rightarrow> oid list \<Rightarrow> oid list \<Rightarrow> oid list option" where
  "possible_loop s to_check seen =
     (case to_check of
        [] \<Rightarrow> Some seen
      | c # rest \<Rightarrow>
          if c \<in> set seen then possible_loop s rest seen
          else if commitMightHaveTests s c then
            possible_loop s
              (rest @ filter (\<lambda>p. p \<notin> set rest) (remdups (filter (\<lambda>p. p \<notin> set (seen @ [c])) (parents_of s c))))
              (seen @ [c])
          else possible_loop s rest (seen @ [c]))"

definition active_heads :: "'m mgr \<Rightarrow> oid list" where
  "active_heads s =
     remdups (concat (map (\<lambda>repo. concat (map (\<lambda>b. case br_head (get_branch s b) of None \<Rightarrow> [] | Some h \<Rightarrow> [h])
         (lookup_all (branches s) (Branch_repo repo)))) (lookup_all (repos s) (Repo_isActive True))))"

definition allCommitsWithPossibilityOfTests :: "'m mgr \<Rightarrow> oid list option" where
  "allCommitsWithPossibilityOfTests s = possible_loop s (active_heads s) []"

section \<open>Priorities of commits\<close>

definition setCommitUserPriority :: "oid \<Rightarrow> int \<Rightarrow> 'm mgr \<Rightarrow> 'm mgr" where
  "setCommitUserPriority commit priority s =
     (if priority \<noteq> cm_userPriority (get_commit s commit)
      then triggerCommitPriorityUpdate commit (upd_commit commit (\<lambda>c. c\<lparr>cm_userPriority := priority\<rparr>) s)
      else s)"

fun prioritize_check :: "nat \<Rightarrow> nat \<Rightarrow> int \<Rightarrow> oid \<Rightarrow> oid list \<times> 'm mgr \<Rightarrow> (oid list \<times> 'm mgr) res" where
  "prioritize_check 0 depth priority c st = Inl RecursionError"
| "prioritize_check (Suc n) depth priority c (seen, s) =
     (if c \<in> set seen \<or> length seen \<ge> depth then Inr (seen, s)
      else
        let s1 = setCommitUserPriority c priority s
        in foldR (\<lambda>r. prioritize_check n depth priority (rel_parent (get_relationship s1 r)))
             (lookup_all (relationships s1) (Rel_child c)) (seen @ [c], s1))"

definition prioritizeAllCommitsUnderBranch :: "nat \<Rightarrow> oid \<Rightarrow> int \<Rightarrow> nat \<Rightarrow> 'm mgr \<Rightarrow> 'm mgr res" where
  "prioritizeAllCommitsUnderBranch n branch priority depth s =
     (case br_head (get_branch s branch) of
        None \<Rightarrow> Inr s
      | Some head \<Rightarrow> bindR (prioritize_check n depth priority head ([], s)) (\<lambda>(commits, s'). Inr s'))"

definition toggleBranchUnderTest :: "oid \<Rightarrow> 'm mgr \<Rightarrow> 'm mgr" where
  "toggleBranchUnderTest branch s =
     (let s1 = upd_branch branch (\<lambda>b. b\<lparr>br_isUnderTest := \<not> br_isUnderTest b\<rparr>) s;
          b = get_branch s1 branch
      in case br_head b of
           None \<Rightarrow> s1
         | Some h \<Rightarrow>
             if cm_userPriority (get_commit s1 h) = 0 \<and> br_isUnderTest b
             then setCommitUserPriority h 1 s1 else s1)"

section \<open>Names of a commit\<close>

lemma digits_no_tilde: "CHR ''~'' \<notin> set (digits n)"
proof (induction n rule: digits.induct)
  case (1 n)
  have no: "False" if "k < 10" "CHR ''~'' = char_of (48 + k)" for k :: nat
  proof -
    have "(of_char CHR ''~'' :: nat) = of_char (char_of (48 + k) :: char)" using that(2) by (rule arg_cong)
    with that(1) show False by simp
  qed
  show ?case
  proof (cases "n < 10")
    case True
    then have "digits n = [char_of (48 + n)]" by (simp add: digits.simps)
    moreover have "CHR ''~'' \<noteq> char_of (48 + n)" using no [OF True] by blast
    ultimately show ?thesis by simp
  next
    case False
    have "n mod 10 < 10" by simp
    from no [OF this] have "CHR ''~'' \<noteq> char_of (48 + n mod 10)" by blast
    moreover have "digits n = digits (n div 10) @ [char_of (48 + n mod 10)]" using False by (subst digits.simps) simp
    ultimately show ?thesis using 1 False by simp
  qed
qed

text \<open>\<open>compress_pathback\<close>: \<open>start\<close> is where the current run of tildes began.\<close>

function compress_loop :: "string \<Rightarrow> nat option \<Rightarrow> nat \<Rightarrow> string" where
  "compress_loop path start i =
     (if i > length path then path
      else if i < length path \<and> path ! i = CHR ''~'' then
        compress_loop path (if start = None then Some i else start) (i + 1)
      else case start of
        None \<Rightarrow> compress_loop path start (i + 1)
      | Some st \<Rightarrow>
          if i - st > 1
          then compress_loop (take st path @ ''~'' @ digits (i - st) @ drop i path) None (st + 1)
          else compress_loop path start (i + 1))"
  by pat_completeness auto
termination
proof (relation "measures [\<lambda>(path, start, i). length (filter (\<lambda>c. c = CHR ''~'') (drop i path)) +
      (if start = None then 0 else 1), \<lambda>(path, start, i). length path + 1 - i]", goal_cases)
  case (2 path start i)
  then have "drop i path = CHR ''~'' # drop (Suc i) path" by (metis Cons_nth_drop_Suc)
  then show ?case using 2 by auto
next
  case (3 path start i)
  show ?case
  proof (cases "i < length path")
    case True
    then have "drop i path = path ! i # drop (Suc i) path" by (metis Cons_nth_drop_Suc)
    then show ?thesis using 3 True by auto
  qed (use 3 in auto)
next
  case (4 path start i st)
  have "filter (\<lambda>c. c = CHR ''~'') (digits (i - st)) = []"
    using digits_no_tilde by (auto simp: filter_empty_conv)
  moreover have "drop (st + 1) (take st path @ ''~'' @ digits (i - st) @ drop i path) = digits (i - st) @ drop i path"
    using 4 by simp
  ultimately show ?case using 4 by simp
next
  case (5 path start i st)
  show ?case
  proof (cases "i < length path")
    case True
    then have "drop i path = path ! i # drop (Suc i) path" by (metis Cons_nth_drop_Suc)
    then show ?thesis using 5 True by auto
  qed (use 5 in auto)
qed simp

declare compress_loop.simps [simp del]

definition compress_pathback :: "string \<Rightarrow> string" where
  "compress_pathback path = compress_loop path None 0"

text \<open>How to get from a child to the commit: the first parent is \<open>~\<close>, the others \<open>^2\<close>, \<open>^3\<close> and so on.\<close>

definition step_name :: "nat \<Rightarrow> string" where
  "step_name ix = (if ix > 0 then ''^'' @ digits (ix + 1) else ''~'')"

fun list_index :: "'a list \<Rightarrow> 'a \<Rightarrow> nat option" where
  "list_index [] y = None"
| "list_index (x # xs) y = (if x = y then Some 0 else map_option Suc (list_index xs y))"

text \<open>The dict of children: a child that is found twice keeps its place.\<close>

definition named_children :: "'m mgr \<Rightarrow> oid \<Rightarrow> (oid \<times> string) list res" where
  "named_children s c =
     foldR (\<lambda>child toCheck.
        case commit_data s child of
          None \<Rightarrow> Inl AttributeError
        | Some d \<Rightarrow>
            (case list_index (cd_parents d) c of
               None \<Rightarrow> Inl ValueError
             | Some ix \<Rightarrow> Inr (alist_set child (step_name ix) toCheck)))
       (children_of s c) []"

fun branch_check :: "nat \<Rightarrow> 'm mgr \<Rightarrow> oid \<Rightarrow> string \<Rightarrow>
    (oid \<times> string) list \<times> (oid \<times> string) list \<Rightarrow> ((oid \<times> string) list \<times> (oid \<times> string) list) res" where
  "branch_check 0 s c path_back st = Inl RecursionError"
| "branch_check (Suc n) s c path_back (childCommits, brs) =
     (if (case map_of childCommits c of None \<Rightarrow> True | Some p \<Rightarrow> length path_back < length p) then
        let brs' = fold (\<lambda>b. alist_set b (compress_pathback path_back))
                     (lookup_all (branches s) (Branch_head (Some c))) brs
        in bindR (named_children s c) (\<lambda>ch.
             foldR (\<lambda>(child, to_add). branch_check n s child (to_add @ path_back)) ch
               (alist_set c path_back childCommits, brs'))
      else Inr (childCommits, brs))"

definition commitFindAllBranches :: "nat \<Rightarrow> 'm mgr \<Rightarrow> oid \<Rightarrow> (oid \<times> string) list res" where
  "commitFindAllBranches n s commit =
     bindR (branch_check n s commit '''' ([], [])) (\<lambda>(childCommits, brs). Inr brs)"

text \<open>The sort key of a branch name. Values of different types are ordered by type: numbers, lists,
  strings.\<close>

datatype key_field = KNumber nat | KList "string list" | KString string

fun key_rank :: "key_field \<Rightarrow> nat" where
  "key_rank (KNumber _) = 0"
| "key_rank (KList _) = 1"
| "key_rank (KString _) = 2"

instantiation key_field :: linorder
begin

definition less_eq_key_field :: "key_field \<Rightarrow> key_field \<Rightarrow> bool" where
  "less_eq_key_field x y \<longleftrightarrow> key_rank x < key_rank y \<or> (case (x, y) of
     (KNumber a, KNumber b) \<Rightarrow> a \<le> b | (KList a, KList b) \<Rightarrow> a \<le> b | (KString a, KString b) \<Rightarrow> a \<le> b | _ \<Rightarrow> False)"

definition less_key_field :: "key_field \<Rightarrow> key_field \<Rightarrow> bool" where
  "less_key_field x y \<longleftrightarrow> x \<le> y \<and> \<not> y \<le> x"

instance
proof
  fix x y z :: key_field
  show "x < y \<longleftrightarrow> x \<le> y \<and> \<not> y \<le> x" by (rule less_key_field_def)
  show "x \<le> x" by (cases x) (auto simp: less_eq_key_field_def)
  show "x \<le> y \<Longrightarrow> y \<le> z \<Longrightarrow> x \<le> z"
    by (cases x; cases y; cases z) (auto simp: less_eq_key_field_def)
  show "x \<le> y \<Longrightarrow> y \<le> x \<Longrightarrow> x = y"
    by (cases x; cases y) (auto simp: less_eq_key_field_def)
  show "x \<le> y \<or> y \<le> x"
    by (cases x; cases y) (auto simp: less_eq_key_field_def)
qed

end

text \<open>\<open>version_pattern\<close> matches a name with a digit, a dash, a dot or an underscore; the group is the last
  such character.\<close>

definition version_group :: "string \<Rightarrow> string option" where
  "version_group name =
     (case filter (\<lambda>c. CHR ''0'' \<le> c \<and> c \<le> CHR ''9'' \<or> c \<in> set ''-._'') name of
        [] \<Rightarrow> None
      | cs \<Rightarrow> Some [last cs])"

definition contains :: "string \<Rightarrow> string \<Rightarrow> bool" where
  "contains needle name \<longleftrightarrow> (\<exists>i\<in>{0..length name}. take (length needle) (drop i name) = needle)"

definition masteryness :: "string \<Rightarrow> string \<Rightarrow> key_field list" where
  "masteryness name path =
     (if name = ''master'' then [KNumber 0]
      else if name = ''svn-master'' then [KNumber 1]
      else if contains ''master'' name then [KNumber 2]
      else if contains ''trunk'' name then [KNumber 3] else []) @
     [case version_group name of
        None \<Rightarrow> KString ''XXX''
      | Some v \<Rightarrow> KList (py_split (CHR '' '') (map (\<lambda>c. if c \<in> set ''-._'' then CHR '' '' else c) v))] @
     [KNumber (length name + length path)]"

definition branch_key :: "'m mgr \<Rightarrow> (oid \<times> string) list \<Rightarrow> oid \<Rightarrow> key_field list" where
  "branch_key s brs b =
     (let name = br_branchname (get_branch s b);
          by_name = map (\<lambda>(b, v). (br_branchname (get_branch s b), v)) (rev brs)
      in masteryness name (the (map_of by_name name)))"

definition cached_name :: "'m mgr \<Rightarrow> oid \<Rightarrow> oid \<Rightarrow> (oid option \<times> string) option" where
  "cached_name s repo commit =
     (case map_of (repoCommitCalcCache s) repo of None \<Rightarrow> None | Some d \<Rightarrow> map_of d commit)"

definition bestCommitBranchAndName :: "nat \<Rightarrow> oid \<Rightarrow> 'm mgr \<Rightarrow> ((oid option \<times> string) \<times> 'm mgr) res" where
  "bestCommitBranchAndName n commit s =
     (let repo = cm_repo (get_commit s commit) in
      case cached_name s repo commit of
        Some r \<Rightarrow> Inr (r, s)
      | None \<Rightarrow>
          bindR (commitFindAllBranches n s commit) (\<lambda>brs.
            if brs = [] then Inr ((None, take 10 (cm_hash (get_commit s commit))), s)
            else
              let best = hd (sort_key (branch_key s brs) (map fst brs));
                  r = (Some best, the (map_of brs best));
                  old = (case map_of (repoCommitCalcCache s) repo of None \<Rightarrow> [] | Some d \<Rightarrow> d)
              in Inr (r, s\<lparr>repoCommitCalcCache := alist_set repo (alist_set commit r old) (repoCommitCalcCache s)\<rparr>)))"

definition bestCommitName :: "nat \<Rightarrow> oid \<Rightarrow> 'm mgr \<Rightarrow> (string \<times> 'm mgr) res" where
  "bestCommitName n commit s =
     bindR (bestCommitBranchAndName n commit s) (\<lambda>((branch, name), s'). case branch of
       None \<Rightarrow> Inr (name, s')
     | Some b \<Rightarrow> Inr (br_branchname (get_branch s' b) @ name, s'))"

definition repoTouched :: "oid \<Rightarrow> 'm mgr \<Rightarrow> 'm mgr" where
  "repoTouched repo s = s\<lparr>repoCommitCalcCache := alist_del repo (repoCommitCalcCache s)\<rparr>"

end
