(* ===== verification/Py_Regex.thy ===== *)
theory Py_Regex
  imports Py_String
begin

text \<open>
  The part of Python's \<open>re\<close> that the pin updates use: patterns made of single characters, \<open>\s*\<close>,
  the word boundary and the start of a line, matched with backtracking, and \<open>search\<close> and \<open>sub\<close> with
  them. A name that the source puts into a pattern is not escaped there: a dot matches any
  character, and a name with another special character is no pattern of this kind (\<open>None\<close>).
\<close>

datatype re = RChar "char \<Rightarrow> bool" | RSpaces | RBoundary | RLineStart

definition newline :: char where
  "newline = CHR 0x0A"

definition word_char :: "char \<Rightarrow> bool" where
  "word_char c \<longleftrightarrow> c \<in> set ''abcdefghijklmnopqrstuvwxyzABCDEFGHIJKLMNOPQRSTUVWXYZ0123456789_''"

definition at_word :: "char option \<Rightarrow> bool" where
  "at_word c = (case c of None \<Rightarrow> False | Some d \<Rightarrow> word_char d)"

definition next_char :: "string \<Rightarrow> char option" where
  "next_char s = (case s of [] \<Rightarrow> None | c # cs \<Rightarrow> Some c)"

text \<open>The length of the match that the engine finds at this place; \<open>p\<close> is the character before
  it.\<close>

fun rmatch :: "re list \<Rightarrow> char option \<Rightarrow> string \<Rightarrow> nat option" where
  "rmatch [] p s = Some 0"
| "rmatch (RChar f # r) p [] = None"
| "rmatch (RChar f # r) p (c # cs) = (if f c then map_option Suc (rmatch r (Some c) cs) else None)"
| "rmatch (RSpaces # r) p [] = rmatch r p []"
| "rmatch (RSpaces # r) p (c # cs) =
     (if is_space c then
        (case rmatch (RSpaces # r) (Some c) cs of Some n \<Rightarrow> Some (Suc n) | None \<Rightarrow> rmatch r p (c # cs))
      else rmatch r p (c # cs))"
| "rmatch (RBoundary # r) p s =
     (if at_word p \<noteq> at_word (next_char s) then rmatch r p s else None)"
| "rmatch (RLineStart # r) p s = (if p = None \<or> p = Some newline then rmatch r p s else None)"

lemma rmatch_length: "rmatch r p s = Some n \<Longrightarrow> n \<le> length s"
  by (induction r p s arbitrary: n rule: rmatch.induct)
    (auto split: if_splits option.splits intro: le_SucI)

definition special_chars :: string where
  "special_chars = [CHR 0x5C] @ ''^$*+?{}[]|()''"

definition regex_name :: "string \<Rightarrow> re list option" where
  "regex_name s =
     (if set s \<inter> set special_chars \<noteq> {} then None
      else Some (map (\<lambda>c. RChar (if c = CHR ''.'' then (\<lambda>x. x \<noteq> newline) else (\<lambda>x. x = c))) s))"

definition re_literal :: "string \<Rightarrow> re list" where
  "re_literal s = map (\<lambda>c. RChar (\<lambda>x. x = c)) s"

text \<open>\<open>re.search(...).start()\<close>.\<close>

fun re_search :: "re list \<Rightarrow> char option \<Rightarrow> string \<Rightarrow> nat option" where
  "re_search r p [] = (if rmatch r p [] = None then None else Some 0)"
| "re_search r p (c # cs) =
     (if rmatch r p (c # cs) \<noteq> None then Some 0 else map_option Suc (re_search r (Some c) cs))"

text \<open>\<open>re.sub\<close> for a pattern that never matches the empty string.\<close>

function re_sub :: "re list \<Rightarrow> (string \<Rightarrow> string) \<Rightarrow> char option \<Rightarrow> string \<Rightarrow> string" where
  "re_sub r f p [] = []"
| "re_sub r f p (c # cs) = (case rmatch r p (c # cs) of
     None \<Rightarrow> c # re_sub r f (Some c) cs
   | Some n \<Rightarrow>
       if n = 0 then c # re_sub r f (Some c) cs
       else f (take n (c # cs)) @ re_sub r f (Some ((c # cs) ! (n - 1))) (drop n (c # cs)))"
  by pat_completeness auto
termination
  by (relation "measure (\<lambda>(r, f, p, s). length s)") auto

lemma re_sub_none:
  "re_search r p s = None \<Longrightarrow> re_sub r f p s = s"
  by (induction s arbitrary: p) (auto split: if_splits)

lemma rmatch_literal:
  "rmatch (re_literal t @ r) p (t @ s) =
   map_option (\<lambda>n. length t + n) (rmatch r (if t = [] then p else Some (last t)) s)"
proof (induction t arbitrary: p)
  case (Cons c t)
  show ?case
    using Cons [of "Some c"] by (auto simp: re_literal_def option.map_comp o_def map_option_case split: option.split)
qed (simp add: re_literal_def map_option_case split: option.split)

end
