(* ===== verification/Branch_Pinning.thy ===== *)
theory Branch_Pinning
  imports Commit_Graph Py_Regex
begin

text \<open>
  \<open>data_model/BranchPinning.py\<close>: finding the branches whose pins are out of date, planning the
  commits that update them, writing those commits level by level and pushing them. The database is
  only read here. The git repositories are the state of a call; what git answers is a parameter.
\<close>

section \<open>What a pin update needs of git\<close>

record 'g pin_git =
  pg_testDefinitionsPath :: "string \<Rightarrow> string \<Rightarrow> 'g \<Rightarrow> string option"
  pg_fileContents :: "string \<Rightarrow> string \<Rightarrow> string \<Rightarrow> 'g \<Rightarrow> string option"
  pg_standardCommitMessage :: "string \<Rightarrow> string \<Rightarrow> 'g \<Rightarrow> string"
  pg_createCommit :: "string \<Rightarrow> string \<Rightarrow> string \<times> string \<Rightarrow> string \<Rightarrow> 'g \<Rightarrow> string res \<times> 'g"
  pg_pushCommit :: "string \<Rightarrow> string \<Rightarrow> string \<Rightarrow> bool \<Rightarrow> 'g \<Rightarrow> bool \<times> 'g"

text \<open>A call that works on the repositories; what it did to them stays when it raises.\<close>

type_synonym ('a, 'g) git_call = "'g \<Rightarrow> 'a res \<times> 'g"

definition retG :: "'a \<Rightarrow> ('a, 'g) git_call" where
  "retG v g = (Inr v, g)"

definition liftG :: "'a res \<Rightarrow> ('a, 'g) git_call" where
  "liftG r g = (r, g)"

definition bindG :: "('a, 'g) git_call \<Rightarrow> ('a \<Rightarrow> ('b, 'g) git_call) \<Rightarrow> ('b, 'g) git_call" where
  "bindG m f g = (case m g of (Inl e, h) \<Rightarrow> (Inl e, h) | (Inr v, h) \<Rightarrow> f v h)"

fun foldG :: "('a \<Rightarrow> 'b \<Rightarrow> ('b, 'g) git_call) \<Rightarrow> 'a list \<Rightarrow> 'b \<Rightarrow> ('b, 'g) git_call" where
  "foldG f [] b = retG b"
| "foldG f (x # xs) b = bindG (f x b) (foldG f xs)"

section \<open>The messages of pin updates\<close>

definition lines_of :: "string \<Rightarrow> string list" where
  "lines_of = py_split newline"

definition unpackCommitPinUpdateMessage :: "string \<Rightarrow> (string \<times> string \<times> string \<times> string) option" where
  "unpackCommitPinUpdateMessage msg =
     (let ls = lines_of msg;
          firstline = ''Updating pin '';
          secondline = ''New commit in pinned branch '';
          thirdline = ''    commit ''
      in if length ls < 4 then None
         else if \<not> starts_with firstline (ls ! 0) then None
         else if py_strip (ls ! 1) \<noteq> '''' then None
         else if \<not> starts_with secondline (ls ! 2) then None
         else if \<not> starts_with thirdline (ls ! 3) then None
         else
           let hash = py_strip (drop (length thirdline) (ls ! 3));
               ref_name = hd (py_split (CHR '':'') (drop (length firstline) (ls ! 0)));
               repoAndBranch = butlast (py_strip (drop (length secondline) (ls ! 2)))
           in Some (path_init repoAndBranch, path_last repoAndBranch, hash, ref_name))"

text \<open>\<open>commitMessageFor\<close> and the message of the commit itself.\<close>

definition pinned_commit_message :: "string \<Rightarrow> string \<Rightarrow> string \<Rightarrow> string" where
  "pinned_commit_message repo branch standard =
     ''New commit in pinned branch '' @ repo @ ''/'' @ branch @ '':'' @ [newline] @
     py_join [newline] (map (\<lambda>x. ''    '' @ x) (lines_of standard))"

definition pin_update_message :: "string list \<Rightarrow> string \<Rightarrow> string" where
  "pin_update_message repo_defs root_message =
     ''Updating pin'' @ (if length repo_defs > 1 then ''s'' else '''') @ '' '' @
     py_join '', '' (sort repo_defs) @ '':'' @ [newline, newline] @ root_message"

section \<open>Reading pins\<close>

definition null_error :: py_error where
  "null_error = UserException ''Null object has no fields''"

definition branch_reponame :: "'m mgr \<Rightarrow> oid \<Rightarrow> string" where
  "branch_reponame s b = rp_name (get_repo s (br_repo (get_branch s b)))"

definition repo_reference_text :: "repo_reference \<Rightarrow> string res" where
  "repo_reference_text r = (if is_Import r then Inl AttributeError else Inr (reference r))"

text \<open>\<open>pin.branch.head.data.repos[pin.repo_def].reference\<close>.\<close>

definition pin_reference :: "'m mgr \<Rightarrow> oid \<Rightarrow> string res" where
  "pin_reference s pin =
     (case br_head (get_branch s (bp_branch (get_pin s pin))) of
        None \<Rightarrow> Inl null_error
      | Some h \<Rightarrow> (case commit_data s h of
          None \<Rightarrow> Inl null_error
        | Some d \<Rightarrow> bindR (lookupR (map_of (cd_repos d)) (bp_repo_def (get_pin s pin))) repo_reference_text))"

definition pinGetPinnedToBranchAndCommit :: "'m mgr \<Rightarrow> oid \<Rightarrow> (oid option \<times> oid option) res" where
  "pinGetPinnedToBranchAndCommit s pin =
     bindR (pin_reference s pin) (\<lambda>curCommitRef.
     let repoName = path_init curCommitRef; commitHash = path_last curCommitRef; p = get_pin s pin in
     bindR (assertR (repoName = bp_pinned_to_repo p) AssertionError) (\<lambda>_.
     Inr (case lookup_any (repos s) (Repo_name repoName) of
        None \<Rightarrow> (None, None)
      | Some r \<Rightarrow>
          (lookup_any (branches s) (Branch_reponame_and_branchname (bp_pinned_to_repo p) (bp_pinned_to_branch p)),
           lookup_any (commits s) (Commit_repo_and_hash r commitHash)))))"

definition branchGetAllPins :: "'m mgr \<Rightarrow> oid \<Rightarrow> oid list" where
  "branchGetAllPins s branch = lookup_all (branch_pins s) (Pin_branch branch)"

definition branchGetAllAutopins :: "'m mgr \<Rightarrow> oid \<Rightarrow> oid list" where
  "branchGetAllAutopins s branch = filter (\<lambda>p. bp_auto (get_pin s p)) (branchGetAllPins s branch)"

definition pinGetAllBranchPinsWatching :: "'m mgr \<Rightarrow> oid \<Rightarrow> oid list res" where
  "pinGetAllBranchPinsWatching s pin =
     bindR (pinGetPinnedToBranchAndCommit s pin) (\<lambda>(branch, _).
     Inr (case branch of None \<Rightarrow> [] | Some b \<Rightarrow> branchGetAllAutopins s b))"

definition branchGetPinByRefname :: "'m mgr \<Rightarrow> oid \<Rightarrow> string \<Rightarrow> oid option" where
  "branchGetPinByRefname s branch refname =
     find (\<lambda>p. bp_repo_def (get_pin s p) = refname) (branchGetAllPins s branch)"

definition branchGetAllPinsAutopinnedToSelf :: "'m mgr \<Rightarrow> oid \<Rightarrow> oid list" where
  "branchGetAllPinsAutopinnedToSelf s branch =
     remdups (filter (\<lambda>p. bp_auto (get_pin s p))
       (lookup_all (branch_pins s) (Pin_pinned_to (branch_reponame s branch) (br_branchname (get_branch s branch)))))"

definition branchGetAllBranchesAutopinnedToSelf :: "'m mgr \<Rightarrow> oid \<Rightarrow> oid list" where
  "branchGetAllBranchesAutopinnedToSelf s branch =
     remdups (map (\<lambda>p. bp_branch (get_pin s p)) (branchGetAllPinsAutopinnedToSelf s branch))"

definition branchPinsAreCyclic :: "nat \<Rightarrow> 'm mgr \<Rightarrow> oid \<Rightarrow> oid list option res" where
  "branchPinsAreCyclic depth s branch = graphFindCycle depth branch (branchGetAllBranchesAutopinnedToSelf s)"

text \<open>The commit a pin refers to and the head of its branch; a missing head is \<open>None\<close>.\<close>

definition pinGetCurrentAndDesiredCommit :: "'m mgr \<Rightarrow> oid \<Rightarrow> (oid option \<times> oid option) res" where
  "pinGetCurrentAndDesiredCommit s pin =
     bindR (pinGetPinnedToBranchAndCommit s pin) (\<lambda>(branch, commit).
     Inr (case branch of None \<Rightarrow> (None, None) | Some b \<Rightarrow> (commit, br_head (get_branch s b))))"

section \<open>Planning an update\<close>

text \<open>The walk from \<open>cur\<close> to \<open>old\<close>, which may still pass \<open>n\<close> commits.\<close>

primrec ff_chain :: "'m mgr \<Rightarrow> oid \<Rightarrow> nat \<Rightarrow> oid \<Rightarrow> oid list option" where
  "ff_chain s old 0 = (\<lambda>cur. if cur = old then Some [cur] else None)"
| "ff_chain s old (Suc n) = (\<lambda>cur.
     if cur = old then Some [cur]
     else case commit_data s cur of
       None \<Rightarrow> None
     | Some d \<Rightarrow> (case cd_parents d of [p] \<Rightarrow> map_option ((#) cur) (ff_chain s old n p) | _ \<Rightarrow> None))"

definition getFastForwardChain :: "'m mgr \<Rightarrow> oid \<Rightarrow> oid \<Rightarrow> nat \<Rightarrow> oid list option res" where
  "getFastForwardChain s oldCommit newCommit max_commits =
     bindR (assertR (newCommit \<noteq> oldCommit) AssertionError) (\<lambda>_.
     Inr (ff_chain s oldCommit (max_commits - 1) newCommit))"

type_synonym pin_plan = "(oid \<times> (oid \<times> oid) list) list"

definition add_to_plan :: "oid \<Rightarrow> oid \<Rightarrow> oid \<Rightarrow> pin_plan \<Rightarrow> pin_plan" where
  "add_to_plan branch pin commit plan =
     alist_set branch (alist_set pin commit (case map_of plan branch of None \<Rightarrow> [] | Some ps \<Rightarrow> ps)) plan"

text \<open>With one source for all pins the update takes a single step along the branch.\<close>

definition next_commit :: "'m mgr \<Rightarrow> bool \<Rightarrow> oid option list \<Rightarrow> oid \<Rightarrow> oid res" where
  "next_commit s intermediateCommits sources head = (case sources of
     Some source # rest \<Rightarrow>
       if intermediateCommits \<and> (\<forall>c \<in> set rest. c = Some source) \<and> head \<noteq> source then
         bindR (getFastForwardChain s source head 100) (\<lambda>chain.
         Inr (case chain of None \<Rightarrow> head | Some cs \<Rightarrow> cs ! (length cs - 2)))
       else Inr head
   | _ \<Rightarrow> Inr head)"

definition downstream_plan :: "'m mgr \<Rightarrow> oid \<Rightarrow> bool \<Rightarrow> pin_plan res" where
  "downstream_plan s branch intermediateCommits =
     (let pins = branchGetAllPinsAutopinnedToSelf s branch in
      bindR (mapR (\<lambda>p. bindR (pinGetCurrentAndDesiredCommit s p) (\<lambda>r. Inr (fst r))) pins) (\<lambda>sources.
      if pins = [] then Inr []
      else case br_head (get_branch s branch) of
        None \<Rightarrow> Inl null_error
      | Some head \<Rightarrow>
          bindR (next_commit s intermediateCommits sources head) (\<lambda>desiredCommit.
          Inr (fold (\<lambda>p. add_to_plan (bp_branch (get_pin s p)) p desiredCommit) pins []))))"

definition upstream_plan :: "'m mgr \<Rightarrow> oid \<Rightarrow> string option \<Rightarrow> bool \<Rightarrow> pin_plan res" where
  "upstream_plan s branch specific_ref intermediateCommits =
     (let pins = (case specific_ref of
          None \<Rightarrow> branchGetAllPins s branch
        | Some r \<Rightarrow> (case branchGetPinByRefname s branch r of None \<Rightarrow> [] | Some p \<Rightarrow> [p]))
      in if pins = [] then Inr []
         else bindR (assertR (\<not> intermediateCommits) AssertionError) (\<lambda>_.
           bindR (mapR (\<lambda>p. bindR (pinGetCurrentAndDesiredCommit s p) (\<lambda>r. Inr (p, snd r))) pins) (\<lambda>ps.
           let wanted = List.map_filter (\<lambda>(p, c). map_option (\<lambda>c. (p, c)) c) ps in
           Inr (if wanted = [] then [] else [(branch, wanted)]))))"

text \<open>The code returns \<open>None\<close> or an empty dict where nothing is to be done, and its caller does not
  tell them apart.\<close>

definition computePinUpdate :: "'m mgr \<Rightarrow> oid \<Rightarrow> string option \<Rightarrow> bool \<Rightarrow> bool \<Rightarrow> pin_plan res" where
  "computePinUpdate s branch specific_ref intermediateCommits isDownstream =
     (if isDownstream then downstream_plan s branch intermediateCommits
      else upstream_plan s branch specific_ref intermediateCommits)"

primrec findDownstreamBranchThatChanged_in :: "'m mgr \<Rightarrow> oid list \<Rightarrow> oid option res" where
  "findDownstreamBranchThatChanged_in s [] = Inr None"
| "findDownstreamBranchThatChanged_in s (pin # pins) =
     bindR (pinGetPinnedToBranchAndCommit s pin) (\<lambda>(branch, commit).
     case branch of
       Some b \<Rightarrow>
         (case br_head (get_branch s b) of
            Some h \<Rightarrow> if commit \<noteq> Some h then Inr (Some b) else findDownstreamBranchThatChanged_in s pins
          | None \<Rightarrow> findDownstreamBranchThatChanged_in s pins)
     | None \<Rightarrow> findDownstreamBranchThatChanged_in s pins)"

definition findDownstreamBranchThatChanged :: "'m mgr \<Rightarrow> oid \<Rightarrow> oid option res" where
  "findDownstreamBranchThatChanged s initBranch =
     findDownstreamBranchThatChanged_in s (branchGetAllAutopins s initBranch)"

section \<open>Rewriting a reference\<close>

definition spaces_colon :: "re list" where
  "spaces_colon = [RSpaces, RChar (\<lambda>c. c = CHR '':''), RSpaces]"

text \<open>\<open>\b(name)(\s*:\s*reference\s*:\s*)(target/hash)\b\<close>; \<open>None\<close> where a name is no plain pattern.\<close>

definition pin_pattern :: "string \<Rightarrow> string \<Rightarrow> string \<Rightarrow> re list option" where
  "pin_pattern name target hash = (case (regex_name name, regex_name (target @ ''/'' @ hash)) of
     (Some n, Some t) \<Rightarrow>
       Some ([RBoundary] @ n @ spaces_colon @ re_literal ''reference'' @ spaces_colon @ t @ [RBoundary])
   | _ \<Rightarrow> None)"

definition is_digit :: "char \<Rightarrow> bool" where
  "is_digit c \<longleftrightarrow> c \<in> set ''0123456789''"

definition is_octal :: "char \<Rightarrow> bool" where
  "is_octal c \<longleftrightarrow> c \<in> set ''01234567''"

text \<open>The replacement is the template \<open>\1\2\<close> followed by the new target. A digit after \<open>\2\<close> belongs
  to the number: two octal digits make it a character code, anything else a group that does not
  exist. A backslash in the target would start another escape and is not modelled.\<close>

definition replacement_template :: "string \<Rightarrow> (string \<Rightarrow> string \<Rightarrow> string) res" where
  "replacement_template target = (case target of
     a # b # rest \<Rightarrow>
       if \<not> is_digit a then Inr (\<lambda>g1 g2. g1 @ g2 @ target)
       else if is_octal a \<and> is_octal b then
         Inr (\<lambda>g1 g2. g1 @ [char_of (128 + 8 * (of_char a - 48) + (of_char b - 48) :: nat)] @ rest)
       else Inl (UserException ''invalid group reference'')
   | _ \<Rightarrow> Inr (\<lambda>g1 g2. g1 @ g2 @ target))"

definition replace_reference :: "string \<Rightarrow> string \<Rightarrow> string \<Rightarrow> string \<Rightarrow> string \<Rightarrow> string res" where
  "replace_reference name target curHash newHash contents =
     (case pin_pattern name target curHash of
        None \<Rightarrow> Inl (UserException ''not a plain pattern'')
      | Some r \<Rightarrow>
          bindR (replacement_template (target @ ''/'' @ newHash)) (\<lambda>make.
          let tail_length = length target + 1 + length curHash in
          Inr (re_sub r (\<lambda>m. make (take (length name) m)
            (take (length m - length name - tail_length) (drop (length name) m))) None contents)))"

section \<open>Writing and pushing commits\<close>

definition null_if :: "'a option \<Rightarrow> 'a res" where
  "null_if x = (case x of None \<Rightarrow> Inl null_error | Some v \<Rightarrow> Inr v)"

definition commitMessageFor :: "'g pin_git \<Rightarrow> 'm mgr \<Rightarrow> oid \<Rightarrow> oid \<Rightarrow> (string, 'g) git_call" where
  "commitMessageFor w s pin commit g =
     (let p = get_pin s pin; c = get_commit s commit in
      retG (pinned_commit_message (bp_pinned_to_repo p) (bp_pinned_to_branch p)
        (pg_standardCommitMessage w (rp_name (get_repo s (cm_repo c))) (cm_hash c) g)) g)"

text \<open>One pin in the text of the definitions; the flag tells whether any pin has changed.\<close>

definition apply_pin :: "'m mgr \<Rightarrow> oid \<times> string \<Rightarrow> string option \<times> bool \<Rightarrow> (string option \<times> bool) res" where
  "apply_pin s = (\<lambda>(pin, newCommitHash) (contents, applied).
     bindR (pin_reference s pin) (\<lambda>ref.
     let p = get_pin s pin; curCommitHash = path_last ref in
     if curCommitHash = newCommitHash then Inr (contents, applied)
     else case contents of
       None \<Rightarrow> Inl TypeError
     | Some text \<Rightarrow>
         bindR (replace_reference (bp_repo_def p) (bp_pinned_to_repo p) curCommitHash newCommitHash text)
         (\<lambda>new_text.
         if text = new_text then Inl (UserException ''Failed to update the pin'')
         else Inr (Some new_text, True))))"

definition updatePinsInCommitAndReturnHash ::
    "'g pin_git \<Rightarrow> 'm mgr \<Rightarrow> oid \<Rightarrow> (oid \<times> string) list \<Rightarrow> string \<Rightarrow> (string option, 'g) git_call" where
  "updatePinsInCommitAndReturnHash w s branch pins root_message g =
     (bindG (liftG (assertR (pins \<noteq> []) AssertionError)) (\<lambda>_.
      bindG (liftG (null_if (br_head (get_branch s branch)))) (\<lambda>head.
      let reponame = branch_reponame s branch; hash = cm_hash (get_commit s head) in
      case pg_testDefinitionsPath w reponame hash g of
        None \<Rightarrow> liftG (Inl (UserException ''Could not update pin''))
      | Some path \<Rightarrow>
          bindG (liftG (foldR (apply_pin s) pins (pg_fileContents w reponame hash path g, False)))
          (\<lambda>(contents, applied).
          if \<not> applied then retG None
          else bindG (pg_createCommit w reponame hash (path, the contents)
              (pin_update_message (map (\<lambda>(p, h). bp_repo_def (get_pin s p)) pins) root_message)) (\<lambda>new_hash.
            bindG (liftG (assertR (new_hash \<noteq> '''') AssertionError)) (\<lambda>_. retG (Some new_hash)))))) g)"

definition plan_hashes :: "'m mgr \<Rightarrow> pin_plan \<Rightarrow> oid \<Rightarrow> (oid \<times> string) list" where
  "plan_hashes s plan branch =
     (case map_of plan branch of None \<Rightarrow> [] | Some ps \<Rightarrow> map (\<lambda>(p, c). (p, cm_hash (get_commit s c))) ps)"

type_synonym new_hashes = "(oid \<times> string) list"

definition update_branch ::
    "'g pin_git \<Rightarrow> 'm mgr \<Rightarrow> string \<Rightarrow> oid \<Rightarrow> (oid \<times> string) list \<Rightarrow> new_hashes \<Rightarrow> (new_hashes, 'g) git_call"
where
  "update_branch w s message branch pins hashes =
     bindG (updatePinsInCommitAndReturnHash w s branch pins message) (\<lambda>h.
     retG (case h of None \<Rightarrow> hashes | Some new_hash \<Rightarrow> alist_set branch new_hash hashes))"

definition update_root ::
    "'g pin_git \<Rightarrow> 'm mgr \<Rightarrow> pin_plan \<Rightarrow> string \<Rightarrow> oid \<Rightarrow> new_hashes \<Rightarrow> (new_hashes, 'g) git_call" where
  "update_root w s plan message branch hashes =
     bindG (liftG (assertR (map_of plan branch \<noteq> None \<and>
       (\<forall>(p, h) \<in> set (plan_hashes s plan branch). bp_branch (get_pin s p) = branch)) AssertionError)) (\<lambda>_.
     update_branch w s message branch (plan_hashes s plan branch) hashes)"

text \<open>The pins of a branch that follow a branch which has just got a new commit.\<close>

definition add_new_hash :: "'m mgr \<Rightarrow> new_hashes \<Rightarrow> oid \<Rightarrow> (oid \<times> string) list \<Rightarrow> (oid \<times> string) list res" where
  "add_new_hash s hashes pin pins =
     bindR (pinGetPinnedToBranchAndCommit s pin) (\<lambda>(branch, _).
     Inr (case branch of
       None \<Rightarrow> pins
     | Some b \<Rightarrow> (case map_of hashes b of None \<Rightarrow> pins | Some h \<Rightarrow> alist_set pin h pins)))"

definition update_later ::
    "'g pin_git \<Rightarrow> 'm mgr \<Rightarrow> pin_plan \<Rightarrow> string \<Rightarrow> oid \<Rightarrow> new_hashes \<Rightarrow> (new_hashes, 'g) git_call" where
  "update_later w s plan message branch hashes =
     bindG (liftG (foldR (add_new_hash s hashes) (branchGetAllAutopins s branch) (plan_hashes s plan branch)))
     (\<lambda>pins. if pins = [] then retG hashes else update_branch w s message branch pins hashes)"

definition root_message ::
    "'g pin_git \<Rightarrow> 'm mgr \<Rightarrow> pin_plan \<Rightarrow> bool \<Rightarrow> (string, 'g) git_call" where
  "root_message w s plan isDownstream =
     (case plan of
        [] \<Rightarrow> retG ''''
      | (branch, pins) # rest \<Rightarrow>
          if isDownstream then commitMessageFor w s (fst (hd pins)) (snd (hd pins))
          else bindG (liftG (assertR (rest = []) AssertionError)) (\<lambda>_.
            bindG (foldG (\<lambda>(p, c) ms. bindG (commitMessageFor w s p c) (\<lambda>m. retG (ms @ [m])))
              (sort_key (\<lambda>(p, c). bp_repo_def (get_pin s p)) pins) []) (\<lambda>ms.
            retG (py_join [newline, newline] ms))))"

definition result_levels :: "oid list list \<Rightarrow> new_hashes \<Rightarrow> (oid \<times> string) list list" where
  "result_levels levels hashes =
     map (List.map_filter (\<lambda>b. map_option (\<lambda>h. (b, h)) (map_of hashes b))) levels"

definition executeSinglePinUpdate ::
    "'g pin_git \<Rightarrow> nat \<Rightarrow> 'm mgr \<Rightarrow> pin_plan \<Rightarrow> bool \<Rightarrow> ((oid \<times> string) list list, 'g) git_call" where
  "executeSinglePinUpdate w depth s plan isDownstream =
     (if plan = [] then retG []
      else bindG (liftG (placeNodesInLevels depth (map fst plan) (branchGetAllBranchesAutopinnedToSelf s)))
        (\<lambda>levels.
        bindG (root_message w s plan isDownstream) (\<lambda>message.
        bindG (foldG (update_root w s plan message) (hd levels) []) (\<lambda>hashes.
        bindG (foldG (update_later w s plan message) (concat (tl levels)) hashes) (\<lambda>hashes.
        retG (result_levels levels hashes))))))"

text \<open>The pushes stop at the first one that is refused.\<close>

fun push_all :: "'g pin_git \<Rightarrow> 'm mgr \<Rightarrow> (oid \<times> string) list \<Rightarrow> 'g \<Rightarrow> bool \<times> 'g" where
  "push_all w s [] g = (True, g)"
| "push_all w s ((branch, hash) # rest) g =
     (case pg_pushCommit w (branch_reponame s branch) hash (br_branchname (get_branch s branch)) False g of
        (pushed, h) \<Rightarrow> if pushed then push_all w s rest h else (False, h))"

definition applyPinUpdates ::
    "'g pin_git \<Rightarrow> nat \<Rightarrow> 'm mgr \<Rightarrow> pin_plan \<Rightarrow> bool \<Rightarrow> (bool \<times> oid list, 'g) git_call" where
  "applyPinUpdates w depth s plan isDownstream =
     (if plan = [] then retG (False, [])
      else bindG (executeSinglePinUpdate w depth s plan isDownstream) (\<lambda>levels.
        \<lambda>g. (case push_all w s (concat levels) g of (ok, h) \<Rightarrow> (Inr (ok, map fst (concat levels)), h))))"

text \<open>Returns whether everything was pushed, and the branches that were updated.\<close>

definition updateBranchPin ::
    "'g pin_git \<Rightarrow> nat \<Rightarrow> 'm mgr \<Rightarrow> oid \<Rightarrow> string option \<Rightarrow> bool \<Rightarrow> bool \<Rightarrow> (bool \<times> oid list, 'g) git_call"
where
  "updateBranchPin w depth s branch specific_ref intermediateCommits lookDownstream =
     bindG (liftG (if lookDownstream then findDownstreamBranchThatChanged s branch else Inr (Some branch)))
     (\<lambda>start. case start of
        None \<Rightarrow> retG (False, [])
      | Some b \<Rightarrow>
          bindG (liftG (branchPinsAreCyclic depth s b)) (\<lambda>cycle.
          if cycle \<noteq> None then retG (False, [])
          else bindG (liftG (computePinUpdate s b specific_ref intermediateCommits lookDownstream)) (\<lambda>plan.
            applyPinUpdates w depth s plan lookDownstream)))"

section \<open>Rewriting the whole definition of a pin\<close>

definition indentLevel :: "string \<Rightarrow> nat" where
  "indentLevel line = length line - length (py_lstrip line)"

definition ident_char :: "char \<Rightarrow> bool" where
  "ident_char c \<longleftrightarrow> word_char c \<or> c = CHR ''/'' \<or> c = CHR ''-''"

text \<open>The end of the pattern \<open>^[a-zA-Z0-9_/-]*$\<close> also matches before a final newline. A quote inside the value
  is replaced by itself, since the escape in the source stands for a quote alone.\<close>

definition yaml_identifier :: "string \<Rightarrow> bool" where
  "yaml_identifier val \<longleftrightarrow>
     (\<forall>c \<in> set (if val \<noteq> [] \<and> last val = newline then butlast val else val). ident_char c)"

definition yamlQuoteIfNeeded :: "string \<Rightarrow> string" where
  "yamlQuoteIfNeeded val =
     (if yaml_identifier val then val
      else [CHR 0x22] @ py_replace [CHR 0x5C] [CHR 0x5C, CHR 0x5C] val @ [CHR 0x22])"

text \<open>\<open>^\s*\b(pin)(\s*:\s*reference\s*:\s*)(repo/hash)\b\<close>.\<close>

definition pin_line_pattern :: "string \<Rightarrow> string \<Rightarrow> re list option" where
  "pin_line_pattern pin ref = map_option (\<lambda>r. [RLineStart, RSpaces] @ r) (pin_pattern pin (path_init ref) (path_last ref))"

definition pin_lines :: "string \<Rightarrow> repo_reference \<Rightarrow> string list res" where
  "pin_lines pin newPinVal = (case newPinVal of
     Pin ref branch auto prioritize \<Rightarrow>
       Inr ([yamlQuoteIfNeeded pin @ '':'',
             ''  reference: '' @ yamlQuoteIfNeeded ref,
             ''  branch: '' @ yamlQuoteIfNeeded branch] @
            (if auto then [''  auto: true''] else []) @
            (if prioritize then [''  prioritize: true''] else []))
   | _ \<Rightarrow> Inl AttributeError)"

text \<open>The block of the pin ends at the first later line that is indented no deeper than the line at
  which the match starts.\<close>

definition updatePinInContents ::
    "string \<Rightarrow> string \<Rightarrow> repo_reference \<Rightarrow> repo_reference \<Rightarrow> string res" where
  "updatePinInContents contents pin curPinVal newPinVal =
     bindR (repo_reference_text curPinVal) (\<lambda>ref.
     case pin_line_pattern pin ref of
       None \<Rightarrow> Inl (UserException ''not a plain pattern'')
     | Some pattern \<Rightarrow> (case re_search pattern None contents of
         None \<Rightarrow> Inl (UserException ''Failed to find the text location for the pin'')
       | Some start \<Rightarrow>
           let subsequentLines = lines_of (drop start contents);
               level = indentLevel (hd subsequentLines);
               rest = dropWhile (\<lambda>line. level < indentLevel line) (tl subsequentLines)
           in bindR (pin_lines pin newPinVal) (\<lambda>newVal.
              Inr (take start contents @
                py_join [newline] (map (\<lambda>line. replicate level (CHR '' '') @ line) newVal @ rest)))))"

definition updatePinsByDefInCommitAndReturnHash ::
    "'g pin_git \<Rightarrow> 'm mgr \<Rightarrow> oid \<Rightarrow> (string \<times> repo_reference) list \<Rightarrow> (string \<times> repo_reference) list \<Rightarrow>
     string \<Rightarrow> (string, 'g) git_call"
where
  "updatePinsByDefInCommitAndReturnHash w s branch origPins pinRewrite message g =
     (bindG (liftG (assertR (pinRewrite \<noteq> []) AssertionError)) (\<lambda>_.
      bindG (liftG (null_if (br_head (get_branch s branch)))) (\<lambda>head.
      let reponame = branch_reponame s branch; hash = cm_hash (get_commit s head) in
      case pg_testDefinitionsPath w reponame hash g of
        None \<Rightarrow> liftG (Inl (UserException ''Could not update pin''))
      | Some path \<Rightarrow> (case pg_fileContents w reponame hash path g of
          None \<Rightarrow> liftG (Inl TypeError)
        | Some text \<Rightarrow>
            bindG (liftG (foldR (\<lambda>(pin, newPinVal) contents.
              bindR (lookupR (map_of origPins) pin) (\<lambda>cur. updatePinInContents contents pin cur newPinVal))
              pinRewrite text)) (\<lambda>contents.
            bindG (pg_createCommit w reponame hash (path, contents) message) (\<lambda>new_hash.
            bindG (liftG (assertR (new_hash \<noteq> '''') AssertionError)) (\<lambda>_. retG new_hash)))))) g)"

text \<open>A blank line before a pin is taken for its first line: the match starts there, with no
  indentation, and the rest of the indented block is replaced as well.\<close>

lemma blank_line_swallows_block:
  "updatePinInContents
     (''repos:'' @ [newline, newline] @ ''  a:'' @ [newline] @ ''    reference: r/1'' @ [newline] @
      ''  b:'' @ [newline] @ ''    reference: r/2'') ''a'' (RepoReference ''r/1'') (Pin ''r/3'' ''m'' False False)
   = Inr (''repos:'' @ [newline] @ ''a:'' @ [newline] @ ''  reference: r/3'' @ [newline] @ ''  branch: m'')"
  by code_simp

section \<open>The messages are read back\<close>

lemma py_strip_id:
  assumes "s = [] \<or> \<not> is_space (hd s) \<and> \<not> is_space (last s)"
  shows "py_strip s = s"
proof (cases s)
  case (Cons c cs)
  then have c: "\<not> is_space c" "\<not> is_space (last s)" using assms by auto
  have "py_lstrip s = s" using Cons c(1) by (simp add: py_lstrip_def)
  moreover have "rev s = last s # rev (butlast s)" using Cons by (cases s rule: rev_cases) auto
  ultimately show ?thesis using c(2) Cons by (simp add: py_strip_def)
qed (simp add: py_strip_def py_lstrip_def)

lemma py_split_snoc: "sep \<notin> set b \<Longrightarrow> py_split sep (a @ sep # b) = py_split sep a @ [b]"
  by (induction a) (auto simp: py_split_atom split: list.split)

lemma path_parts:
  assumes "CHR ''/'' \<notin> set b"
  shows "path_init (a @ CHR ''/'' # b) = a" and "path_last (a @ CHR ''/'' # b) = b"
  using py_split_snoc [OF assms, of a] by (simp_all add: path_init_def path_last_def)

lemma message_lines:
  assumes "newline \<notin> set ref" and "newline \<notin> set repo" and "newline \<notin> set branch"
    and "\<forall>c \<in> set hash. \<not> is_space c"
  shows "lines_of (pin_update_message [ref] (pinned_commit_message repo branch (''commit '' @ hash @ newline # rest)))
    = (''Updating pin '' @ ref @ '':'') # [] # (''New commit in pinned branch '' @ repo @ ''/'' @ branch @ '':'') #
      (''    commit '' @ hash) # map (\<lambda>x. ''    '' @ x) (lines_of rest)"
proof -
  have hash: "newline \<notin> set (''commit '' @ hash)"
    using assms(4) by (auto simp: newline_def is_space_def)
  have first: "newline \<notin> set (''Updating pin '' @ ref @ '':'')"
    and third: "newline \<notin> set (''New commit in pinned branch '' @ repo @ ''/'' @ branch @ '':'')"
    using assms by (auto simp: newline_def)
  have standard: "lines_of (''commit '' @ hash @ newline # rest) = (''commit '' @ hash) # lines_of rest"
    using py_split_append [OF hash, of rest] by (simp add: lines_of_def)
  have indented: "lines_of (py_join [newline] (map (\<lambda>x. ''    '' @ x) (lines_of t))) = map (\<lambda>x. ''    '' @ x) (lines_of t)" for t
    unfolding lines_of_def by (rule py_split_join) (auto simp: newline_def dest: py_split_no_sep)
  have message: "pin_update_message [ref] (pinned_commit_message repo branch t) =
      (''Updating pin '' @ ref @ '':'') @ newline # [] @ newline #
      (''New commit in pinned branch '' @ repo @ ''/'' @ branch @ '':'') @ newline #
      py_join [newline] (map (\<lambda>x. ''    '' @ x) (lines_of t))" for t
    by (simp add: pin_update_message_def pinned_commit_message_def)
  have split: "lines_of (a @ newline # [] @ newline # c @ newline # d) = a # [] # c # lines_of d"
    if "newline \<notin> set a" "newline \<notin> set c" for a c d
    using that by (simp add: lines_of_def py_split_append)
  show ?thesis
    unfolding message split [OF first third] indented unfolding standard by simp
qed



text \<open>A branch whose name has a slash is not read back, and a message about two pins is not read at all.\<close>

lemma slashed_branch_misread:
  "unpackCommitPinUpdateMessage
      (pin_update_message [''core''] (pinned_commit_message ''org'' ''fix/a'' (''commit '' @ ''a1'' @ newline # ''Author: x'')))
    = Some (''org/fix'', ''a'', ''a1'', ''core'')"
  by code_simp

lemma two_pins_not_unpacked:
  "length refs > 1 \<Longrightarrow> unpackCommitPinUpdateMessage (pin_update_message refs message) = None"
proof -
  assume refs: "length refs > 1"
  let ?m = "pin_update_message refs message"
  obtain t where t: "?m = ''Updating pins'' @ t"
    using refs by (simp add: pin_update_message_def)
  obtain l ls where l: "lines_of ?m = l # ls" by (cases "lines_of ?m") (auto simp: lines_of_def)
  have "py_join [newline] (l # ls) = ?m"
    unfolding l [symmetric] lines_of_def by simp
  then have "\<exists>u. ?m = l @ u" by (cases ls) (auto dest: sym)
  then have "\<not> starts_with ''Updating pin '' l"
    unfolding t starts_with_iff by auto
  then show "unpackCommitPinUpdateMessage ?m = None"
    unfolding unpackCommitPinUpdateMessage_def l Let_def by simp
qed

section \<open>Fast-forward chains\<close>

text \<open>Every commit but the last has the next one as its only parent.\<close>

fun single_parents :: "'m mgr \<Rightarrow> oid list \<Rightarrow> bool" where
  "single_parents s (c # d # cs) \<longleftrightarrow>
     (\<exists>data. commit_data s c = Some data \<and> cd_parents data = [d]) \<and> single_parents s (d # cs)"
| "single_parents s cs \<longleftrightarrow> True"

lemma ff_chain_iff:
  "ff_chain s old n cur = Some cs \<longleftrightarrow>
     cs \<noteq> [] \<and> hd cs = cur \<and> last cs = old \<and> old \<notin> set (butlast cs) \<and> single_parents s cs \<and> length cs \<le> Suc n"
proof (induction n arbitrary: cur cs)
  case 0
  show ?case by (cases cs; cases "tl cs") auto
next
  case (Suc n)
  show ?case
  proof (cases "cur = old")
    case True
    then show ?thesis by (cases cs; cases "tl cs") auto
  next
    case False
    show ?thesis
    proof (cases "\<exists>data p. commit_data s cur = Some data \<and> cd_parents data = [p]")
      case True
      then obtain data p where p: "commit_data s cur = Some data" "cd_parents data = [p]" by blast
      with False have "ff_chain s old (Suc n) cur = map_option ((#) cur) (ff_chain s old n p)" by simp
      moreover have "map_option ((#) cur) (ff_chain s old n p) = Some cs \<longleftrightarrow>
          (\<exists>ds. cs = cur # ds \<and> ff_chain s old n p = Some ds)" by auto
      moreover have "\<dots> \<longleftrightarrow> cs \<noteq> [] \<and> hd cs = cur \<and> last cs = old \<and> old \<notin> set (butlast cs) \<and>
          single_parents s cs \<and> length cs \<le> Suc (Suc n)"
        using p False Suc.IH [of p "tl cs"] by (cases cs; cases "tl cs") auto
      ultimately show ?thesis by simp
    next
      case none: False
      then have "ff_chain s old (Suc n) cur = None"
        using False by (auto split: option.split list.split)
      moreover have "\<not> (cs \<noteq> [] \<and> hd cs = cur \<and> last cs = old \<and> single_parents s cs)"
        using False none by (cases cs; cases "tl cs") auto
      ultimately show ?thesis by auto
    qed
  qed
qed

text \<open>C40: \<open>getFastForwardChain\<close> raises exactly when the two commits are the same, and otherwise returns a list
  exactly when the new commit is a fast-forward of the old one within the limit: the new commit is
  first, the old one last and nowhere before, every other commit has the next as its only parent, and
  there are at most \<open>max_commits\<close> of them.\<close>

theorem fast_forward_chain_correct:
  "\<exists>r. getFastForwardChain s oldCommit newCommit max_commits =
      (if newCommit = oldCommit then Inl AssertionError else Inr r) \<and>
    (\<forall>cs. r = Some cs \<longleftrightarrow> newCommit \<noteq> oldCommit \<and> cs \<noteq> [] \<and> hd cs = newCommit \<and> last cs = oldCommit \<and>
       oldCommit \<notin> set (butlast cs) \<and> single_parents s cs \<and> length cs \<le> max_commits)"
proof (cases "newCommit = oldCommit")
  case True
  then show ?thesis by (intro exI [of _ None]) (simp add: getFastForwardChain_def assertR_def)
next
  case False
  have two: "2 \<le> length cs" if "cs \<noteq> []" "hd cs = newCommit" "last cs = oldCommit" for cs :: "oid list"
    using that False by (cases cs; cases "tl cs") auto
  have "ff_chain s oldCommit (max_commits - 1) newCommit = Some cs \<longleftrightarrow>
      cs \<noteq> [] \<and> hd cs = newCommit \<and> last cs = oldCommit \<and> oldCommit \<notin> set (butlast cs) \<and>
      single_parents s cs \<and> length cs \<le> max_commits" for cs
    unfolding ff_chain_iff using two [of cs] by (cases max_commits) auto
  then show ?thesis using False by (simp add: getFastForwardChain_def assertR_def)
qed

end
