(* ===== verification/Commit_Priority.thy ===== *)
theory Commit_Priority
  imports Commit_Graph
begin

text \<open>
  The priorities of commits in \<^verbatim>\<open>TestManager.py\<close>: \<open>_calcCommitAnybranch\<close>,
  \<open>_computeCommitPriority\<close>, \<open>_updateCommitPriority\<close>, and what \<open>prioritizeAllCommitsUnderBranch\<close> does
  to the commits below a branch.
\<close>

section \<open>Operations\<close>

definition calcCommitAnybranch :: "oid \<Rightarrow> 'm mgr \<Rightarrow> oid option" where
  "calcCommitAnybranch commit s =
     (let heads = lookup_all (branches s) (Branch_head (Some commit));
          above = concat (map (\<lambda>c. case cm_anyBranch (get_commit s c) of None \<Rightarrow> [] | Some b \<Rightarrow> [b]) (children_of s commit));
          brs = remdups (heads @ above)
      in if brs = [] then None
         else Some (hd (sort_key (\<lambda>b. br_branchname (get_branch s b)) brs)))"

definition computeCommitPriority :: "oid \<Rightarrow> 'm mgr \<Rightarrow> int" where
  "computeCommitPriority commit s =
     (if cm_anyBranch (get_commit s commit) \<noteq> None then cm_userPriority (get_commit s commit) else 0)"

definition trigger_commit_tests :: "oid \<Rightarrow> 'm mgr \<Rightarrow> 'm mgr" where
  "trigger_commit_tests commit s =
     fold (\<lambda>test s.
        triggerTestPriorityUpdate test
          (fold (\<lambda>dep s. triggerTestPriorityUpdate (td_dependsOn (get_test_dep s dep)) s)
             (lookup_all (test_deps s) (TD_test test)) s))
       (allTestsForCommit s commit) s"

definition updateCommitPriority :: "oid \<Rightarrow> 'm mgr \<Rightarrow> 'm mgr" where
  "updateCommitPriority commit s =
     (let branch = calcCommitAnybranch commit s;
          changed1 = (branch \<noteq> cm_anyBranch (get_commit s commit));
          s1 = (if changed1 then upd_commit commit (\<lambda>c. c\<lparr>cm_anyBranch := branch\<rparr>) s else s);
          priority = computeCommitPriority commit s1;
          changed2 = (priority \<noteq> cm_calculatedPriority (get_commit s1 commit));
          s2 = (if changed2 then upd_commit commit (\<lambda>c. c\<lparr>cm_calculatedPriority := priority\<rparr>) s1 else s1)
      in if commit_data s2 commit \<noteq> None \<and> (changed1 \<or> changed2)
         then trigger_commit_tests commit (fold triggerCommitPriorityUpdate (parents_of s2 commit) s2)
         else s2)"

section \<open>Queueing a task changes only the queue\<close>

definition same_but_tasks :: "'m mgr \<Rightarrow> 'm mgr \<Rightarrow> bool" where
  "same_but_tasks s s' \<longleftrightarrow> (\<exists>T n. s' = s\<lparr>tasks := T, next_id := n\<rparr>)"

lemma same_but_tasks_refl [simp]: "same_but_tasks s s"
  unfolding same_but_tasks_def by (rule exI [of _ "tasks s"], rule exI [of _ "next_id s"]) simp

lemma same_but_tasksI: "same_but_tasks s (s\<lparr>tasks := T, next_id := n\<rparr>)"
  unfolding same_but_tasks_def by (intro exI) (rule refl)

lemma same_but_tasks_trans:
  assumes "same_but_tasks s t" "same_but_tasks t u"
  shows "same_but_tasks s u"
proof -
  from assms obtain T n T' n' where "t = s\<lparr>tasks := T, next_id := n\<rparr>" "u = t\<lparr>tasks := T', next_id := n'\<rparr>"
    unfolding same_but_tasks_def by blast
  then have "u = s\<lparr>tasks := T', next_id := n'\<rparr>" by simp
  then show ?thesis using same_but_tasksI by metis
qed

lemma same_but_tasks_reads:
  assumes "same_but_tasks s s'"
  shows "get_commit s' = get_commit s" "commits s' = commits s" "branches s' = branches s"
    "relationships s' = relationships s" "commit_datas s' = commit_datas s" "tests s' = tests s"
    "test_deps s' = test_deps s" "runs s' = runs s" "categories s' = categories s"
    "get_test s' = get_test s" "get_branch s' = get_branch s"
  using assms by (auto simp: same_but_tasks_def get_commit_def get_test_def get_branch_def fun_eq_iff)

lemma upd_task_same: "same_but_tasks s (upd_task i f s)"
proof -
  have "upd_task i f s = s\<lparr>tasks := tbl_modify task_keys i f (tasks s), next_id := next_id s\<rparr>"
    by (simp add: upd_task_def)
  then show ?thesis using same_but_tasksI by metis
qed

lemma new_task_same: "same_but_tasks s (snd (new_task r s))"
proof -
  have "snd (new_task r s) = s\<lparr>tasks := tbl_new task_keys (next_id s) r (tasks s), next_id := Suc (next_id s)\<rparr>"
    by (simp add: new_task_def)
  then show ?thesis using same_but_tasksI by metis
qed

lemma same_upd_task: "same_but_tasks s t \<Longrightarrow> same_but_tasks s (upd_task i f t)"
  by (rule same_but_tasks_trans [OF _ upd_task_same])

lemma queueTask_same: "same_but_tasks s (queueTask a st s)"
proof -
  obtain t s1 where new: "new_task (default_task\<lparr>dt_task := a, dt_status := st\<rparr>) s = (t, s1)" by fastforce
  then have s1: "same_but_tasks s s1" by (metis new_task_same snd_conv)
  show ?thesis unfolding queueTask_def Let_def new prod.case
    by (cases "lookup_any (tasks s1) (Task_status st)"; simp only: option.case; intro same_upd_task s1)
qed

lemma trigger_same:
  "same_but_tasks s (triggerCommitPriorityUpdate c s)" "same_but_tasks s (triggerTestPriorityUpdate t s)"
  by (simp_all add: triggerCommitPriorityUpdate_def triggerTestPriorityUpdate_def queueTask_same)

lemma fold_same: "(\<And>x u. same_but_tasks u (f x u)) \<Longrightarrow> same_but_tasks s (fold f xs s)"
  by (induction xs arbitrary: s) (auto intro: same_but_tasks_trans)

lemma trigger_commit_tests_same: "same_but_tasks s (trigger_commit_tests c s)"
  unfolding trigger_commit_tests_def
  by (intro fold_same same_but_tasks_trans [OF fold_same trigger_same(2)] trigger_same)

section \<open>One update\<close>

definition locally_right :: "'m mgr \<Rightarrow> oid \<Rightarrow> bool" where
  "locally_right s c \<longleftrightarrow> cm_anyBranch (get_commit s c) = calcCommitAnybranch c s \<and>
     cm_calculatedPriority (get_commit s c) = computeCommitPriority c s"

lemma updateCommitPriority_row:
  assumes "rows (commits s) c \<noteq> None"
  shows "get_commit (updateCommitPriority c s) =
    (get_commit s)(c := (get_commit s c)\<lparr>cm_anyBranch := calcCommitAnybranch c s,
       cm_calculatedPriority := (if calcCommitAnybranch c s \<noteq> None then cm_userPriority (get_commit s c) else 0)\<rparr>)"
    (is "_ = ?want")
proof -
  define s1 where "s1 = (if calcCommitAnybranch c s \<noteq> cm_anyBranch (get_commit s c)
    then upd_commit c (\<lambda>r. r\<lparr>cm_anyBranch := calcCommitAnybranch c s\<rparr>) s else s)"
  define s2 where "s2 = (if computeCommitPriority c s1 \<noteq> cm_calculatedPriority (get_commit s1 c)
    then upd_commit c (\<lambda>r. r\<lparr>cm_calculatedPriority := computeCommitPriority c s1\<rparr>) s1 else s1)"
  have 1: "get_commit s1 = (get_commit s)(c := (get_commit s c)\<lparr>cm_anyBranch := calcCommitAnybranch c s\<rparr>)"
    using assms by (auto simp: s1_def get_commit_def upd_commit_def fun_eq_iff)
  have r1: "rows (commits s1) c \<noteq> None" using assms by (auto simp: s1_def upd_commit_def)
  then have "get_commit s2 = (get_commit s1)(c := (get_commit s1 c)\<lparr>cm_calculatedPriority := computeCommitPriority c s1\<rparr>)"
    by (auto simp: s2_def get_commit_def upd_commit_def fun_eq_iff)
  then have 2: "get_commit s2 = ?want" by (simp add: 1 computeCommitPriority_def)
  have "same_but_tasks s2 (updateCommitPriority c s)"
    unfolding updateCommitPriority_def Let_def s1_def [symmetric] s2_def [symmetric]
    by (auto intro: same_but_tasks_trans [OF fold_same trigger_commit_tests_same] trigger_same)
  then show ?thesis using 2 by (simp add: same_but_tasks_reads(1))
qed

lemma updateCommitPriority_tables:
  "branches (updateCommitPriority c s) = branches s" "relationships (updateCommitPriority c s) = relationships s"
proof -
  define s1 where "s1 = (if calcCommitAnybranch c s \<noteq> cm_anyBranch (get_commit s c)
    then upd_commit c (\<lambda>r. r\<lparr>cm_anyBranch := calcCommitAnybranch c s\<rparr>) s else s)"
  define s2 where "s2 = (if computeCommitPriority c s1 \<noteq> cm_calculatedPriority (get_commit s1 c)
    then upd_commit c (\<lambda>r. r\<lparr>cm_calculatedPriority := computeCommitPriority c s1\<rparr>) s1 else s1)"
  have "branches s2 = branches s" "relationships s2 = relationships s" by (simp_all add: s2_def s1_def upd_commit_def)
  moreover have "same_but_tasks s2 (updateCommitPriority c s)"
    unfolding updateCommitPriority_def Let_def s1_def [symmetric] s2_def [symmetric]
    by (auto intro: same_but_tasks_trans [OF fold_same trigger_commit_tests_same] trigger_same)
  ultimately show "branches (updateCommitPriority c s) = branches s"
    "relationships (updateCommitPriority c s) = relationships s"
    by (simp_all add: same_but_tasks_reads)
qed

text \<open>Updating the priority of a commit changes nothing about any other commit, gives the commit the
  branch and the priority its definition asks for, and is idempotent: updating again changes nothing
  and queues no task.\<close>

theorem updateCommitPriority_settles:
  assumes "rows (commits s) c \<noteq> None" "c \<notin> set (children_of s c)"
  shows "locally_right (updateCommitPriority c s) c \<and>
    (\<forall>d. d \<noteq> c \<longrightarrow> get_commit (updateCommitPriority c s) d = get_commit s d) \<and>
    updateCommitPriority c (updateCommitPriority c s) = updateCommitPriority c s"
proof -
  let ?s = "updateCommitPriority c s"
  note row = updateCommitPriority_row [OF assms(1)]
  have ch: "children_of ?s = children_of s"
    by (simp add: children_of_def get_relationship_def updateCommitPriority_tables fun_eq_iff)
  have br: "get_branch ?s = get_branch s" by (simp add: get_branch_def updateCommitPriority_tables fun_eq_iff)
  have "map (\<lambda>d. case cm_anyBranch (get_commit ?s d) of None \<Rightarrow> [] | Some b \<Rightarrow> [b]) (children_of s c) =
      map (\<lambda>d. case cm_anyBranch (get_commit s d) of None \<Rightarrow> [] | Some b \<Rightarrow> [b]) (children_of s c)"
    using assms(2) by (auto simp: row)
  then have calc: "calcCommitAnybranch c ?s = calcCommitAnybranch c s"
    by (simp only: calcCommitAnybranch_def ch br updateCommitPriority_tables)
  have right: "locally_right ?s c" by (simp add: locally_right_def calc row computeCommitPriority_def)
  have "updateCommitPriority c u = u" if "locally_right u c" for u :: "'a mgr"
    using that by (simp add: updateCommitPriority_def locally_right_def)
  with right show ?thesis by (simp add: row)
qed

text \<open>A history of a commit and its parent, the commit the head of a branch and prioritized.\<close>

definition demo_priorities :: "oid option \<Rightarrow> int \<Rightarrow> unit mgr" where
  "demo_priorities branch priority =
     (new_manager () 0)\<lparr>commits := empty_tbl\<lparr>rows := [1 \<mapsto> default_commit\<lparr>cm_anyBranch := branch\<rparr>,
         2 \<mapsto> default_commit\<lparr>cm_userPriority := 3, cm_anyBranch := branch, cm_calculatedPriority := priority\<rparr>]\<rparr>,
       relationships := tbl_new relationship_keys 7 \<lparr>rel_child = 2, rel_parent = 1\<rparr> empty_tbl,
       branches := tbl_new branch_keys 9 (default_branch\<lparr>br_head := Some 2\<rparr>) empty_tbl\<rparr>"

lemma demo_priorities_children: "children_of (demo_priorities b p) c = (if c = 1 then [2] else [])"
  by (simp add: children_of_def demo_priorities_def get_relationship_def relationship_index.lookup_new
      relationship_keys_def)

lemma demo_priorities_heads:
  "lookup_all (branches (demo_priorities b p)) (Branch_head (Some k)) = (if k = 2 then [9] else [])"
  by (simp add: demo_priorities_def branch_index.lookup_new branch_keys_def)

lemma demo_priorities_commit:
  "get_commit (demo_priorities b p) c =
     (if c = 1 then default_commit\<lparr>cm_anyBranch := b\<rparr>
      else if c = 2 then default_commit\<lparr>cm_userPriority := 3, cm_anyBranch := b, cm_calculatedPriority := p\<rparr>
      else default_commit)"
  by (simp add: demo_priorities_def get_commit_def)

theorem updateCommitPriority_settles_witness:
  "locally_right (updateCommitPriority 2 (demo_priorities None 0)) 2 \<and>
   calcCommitAnybranch 2 (demo_priorities None 0) = Some 9"
  using updateCommitPriority_settles [of "demo_priorities None 0" 2]
  by (simp add: demo_priorities_children calcCommitAnybranch_def demo_priorities_heads)
    (simp add: demo_priorities_def)

section \<open>When nothing is left to update\<close>

text \<open>C20: When every commit has its local values (as after the queued updates have run), they are globally
  right: a commit has a branch if and only if the head of some branch is the commit or lies above it,
  and its calculated priority is its user priority in that case and zero otherwise.\<close>

theorem settled_priorities_correct:
  assumes "\<forall>c. locally_right s c" "\<forall>c. \<forall>d\<in>set (children_of s c). (height d :: nat) < height c"
  shows "(cm_anyBranch (get_commit s c) \<noteq> None \<longleftrightarrow>
      (\<exists>k. (c, k) \<in> (edges (children_of s))\<^sup>* \<and> lookup_all (branches s) (Branch_head (Some k)) \<noteq> [])) \<and>
    cm_calculatedPriority (get_commit s c) =
      (if \<exists>k. (c, k) \<in> (edges (children_of s))\<^sup>* \<and> lookup_all (branches s) (Branch_head (Some k)) \<noteq> []
       then cm_userPriority (get_commit s c) else 0)"
proof -
  let ?P = "\<lambda>c. \<exists>k. (c, k) \<in> (edges (children_of s))\<^sup>* \<and> lookup_all (branches s) (Branch_head (Some k)) \<noteq> []"
  have local: "cm_anyBranch (get_commit s c) \<noteq> None \<longleftrightarrow> lookup_all (branches s) (Branch_head (Some c)) \<noteq> [] \<or>
      (\<exists>d\<in>set (children_of s c). cm_anyBranch (get_commit s d) \<noteq> None)" for c
  proof -
    have "cm_anyBranch (get_commit s c) = calcCommitAnybranch c s" using assms(1) by (simp add: locally_right_def)
    then show ?thesis by (auto simp: calcCommitAnybranch_def Let_def split: option.splits)
  qed
  have "cm_anyBranch (get_commit s c) \<noteq> None \<longleftrightarrow> ?P c" for c
  proof (induction "height c" arbitrary: c rule: less_induct)
    case less
    have "cm_anyBranch (get_commit s d) \<noteq> None \<longleftrightarrow> ?P d" if "d \<in> set (children_of s c)" for d
      by (rule less) (use assms(2) that in blast)
    then have "cm_anyBranch (get_commit s c) \<noteq> None \<longleftrightarrow> lookup_all (branches s) (Branch_head (Some c)) \<noteq> [] \<or>
      (\<exists>d\<in>set (children_of s c). ?P d)" using local [of c] by auto
    also have "\<dots> \<longleftrightarrow> ?P c"
    proof
      assume "lookup_all (branches s) (Branch_head (Some c)) \<noteq> [] \<or> (\<exists>d\<in>set (children_of s c). ?P d)"
      then show "?P c" by (meson converse_rtrancl_into_rtrancl edges_iff rtrancl.rtrancl_refl)
    next
      assume "?P c"
      then show "lookup_all (branches s) (Branch_head (Some c)) \<noteq> [] \<or> (\<exists>d\<in>set (children_of s c). ?P d)"
        by (metis converse_rtranclE edges_iff)
    qed
    finally show ?case .
  qed
  then show ?thesis using assms(1) by (simp add: locally_right_def computeCommitPriority_def)
qed

theorem settled_priorities_correct_witness:
  "cm_anyBranch (get_commit (demo_priorities (Some 9) 3) 1) \<noteq> None \<and>
   cm_calculatedPriority (get_commit (demo_priorities (Some 9) 3) 2) = 3"
proof -
  let ?s = "demo_priorities (Some 9) 3"
  have right: "\<forall>c. locally_right ?s c"
    by (simp add: locally_right_def calcCommitAnybranch_def computeCommitPriority_def demo_priorities_children
        demo_priorities_heads demo_priorities_commit default_commit_def)
  have height: "\<forall>c. \<forall>d\<in>set (children_of ?s c). (if d = 2 then 0 else 1 :: nat) < (if c = 2 then 0 else 1)"
    by (simp add: demo_priorities_children)
  have "(1, 2) \<in> (edges (children_of ?s))\<^sup>*" by (rule r_into_rtrancl) (simp add: edges_iff demo_priorities_children)
  moreover have "(2, 2) \<in> (edges (children_of ?s))\<^sup>*" by simp
  moreover have "lookup_all (branches ?s) (Branch_head (Some 2)) \<noteq> []" by (simp add: demo_priorities_heads)
  ultimately show ?thesis
    using settled_priorities_correct [OF right height, of 1] settled_priorities_correct [OF right height, of 2]
    by (simp add: demo_priorities_commit default_commit_def)
qed

section \<open>Prioritizing the commits below a branch\<close>

definition rel_parents :: "'m mgr \<Rightarrow> oid \<Rightarrow> oid list" where
  "rel_parents s c = map (\<lambda>r. rel_parent (get_relationship s r)) (lookup_all (relationships s) (Rel_child c))"

definition set_priorities :: "'m mgr \<Rightarrow> int \<Rightarrow> oid list \<Rightarrow> 'm mgr \<Rightarrow> bool" where
  "set_priorities s0 p seen s \<longleftrightarrow> relationships s = relationships s0 \<and>
     (\<forall>d. (rows (commits s) d = None) = (rows (commits s0) d = None)) \<and>
     (\<forall>d. cm_userPriority (get_commit s d) =
        (if d \<in> set seen \<and> rows (commits s0) d \<noteq> None then p else cm_userPriority (get_commit s0 d)))"

lemma setCommitUserPriority_sets:
  assumes "set_priorities s0 p seen s"
  shows "set_priorities s0 p (seen @ [c]) (setCommitUserPriority c p s)"
proof -
  have "same_but_tasks (upd_commit c (\<lambda>r. r\<lparr>cm_userPriority := p\<rparr>) s)
      (triggerCommitPriorityUpdate c (upd_commit c (\<lambda>r. r\<lparr>cm_userPriority := p\<rparr>) s))"
    by (rule trigger_same)
  note reads = same_but_tasks_reads [OF this]
  have exists: "(rows (commits s) c = None) = (rows (commits s0) c = None)" using assms by (simp add: set_priorities_def)
  show ?thesis
  proof (cases "p = cm_userPriority (get_commit s c)")
    case True
    then have "setCommitUserPriority c p s = s" by (simp add: setCommitUserPriority_def)
    moreover have "set_priorities s0 p (seen @ [c]) s"
      unfolding set_priorities_def
    proof (intro conjI allI)
      have sets: "cm_userPriority (get_commit s d) =
        (if d \<in> set seen \<and> rows (commits s0) d \<noteq> None then p else cm_userPriority (get_commit s0 d))" for d
        using assms by (simp add: set_priorities_def)
      show "cm_userPriority (get_commit s d) =
        (if d \<in> set (seen @ [c]) \<and> rows (commits s0) d \<noteq> None then p else cm_userPriority (get_commit s0 d))" for d
      proof (cases "d = c")
        case d: True
        have "rows (commits s0) c = None \<or> cm_userPriority (get_commit s c) = p" using True by (simp only: simp_thms)
        then show ?thesis using sets [of c] d by auto
      qed (use sets [of d] in simp)
    qed (use assms in \<open>simp_all add: set_priorities_def\<close>)
    ultimately show ?thesis by simp
  next
    case False
    have "cm_userPriority (get_commit (upd_commit c (\<lambda>r. r\<lparr>cm_userPriority := p\<rparr>) s) d) =
        (if d \<in> set (seen @ [c]) \<and> rows (commits s0) d \<noteq> None then p else cm_userPriority (get_commit s0 d))" for d
    proof (cases "d = c")
      case True
      have "cm_userPriority (get_commit s0 c) = cm_userPriority default_commit" if "rows (commits s0) c = None"
        using that by (simp add: get_commit_def)
      moreover have "cm_userPriority (get_commit (upd_commit c (\<lambda>r. r\<lparr>cm_userPriority := p\<rparr>) s) c) =
        (if rows (commits s) c = None then cm_userPriority default_commit else p)"
        by (simp add: get_commit_def upd_commit_def split: option.split)
      ultimately show ?thesis using True exists by simp
    next
      case False
      then have "get_commit (upd_commit c (\<lambda>r. r\<lparr>cm_userPriority := p\<rparr>) s) d = get_commit s d"
        by (simp add: get_commit_def upd_commit_def)
      then show ?thesis using False assms by (simp add: set_priorities_def)
    qed
    moreover have "rows (commits (upd_commit c (\<lambda>r. r\<lparr>cm_userPriority := p\<rparr>) s)) d = None \<longleftrightarrow> rows (commits s0) d = None" for d
      using assms by (auto simp: upd_commit_def set_priorities_def)
    moreover have "relationships (upd_commit c (\<lambda>r. r\<lparr>cm_userPriority := p\<rparr>) s) = relationships s0"
      using assms by (simp add: upd_commit_def set_priorities_def)
    ultimately show ?thesis using False by (simp add: setCommitUserPriority_def set_priorities_def reads)
  qed
qed

text \<open>What a call of \<open>check\<close> (or a loop of calls) leaves: the seen commits grow, all with the
  priority set, and below the bound their parents have been seen too.\<close>

definition prio_post ::
  "'m mgr \<Rightarrow> int \<Rightarrow> nat \<Rightarrow> oid set \<Rightarrow> oid list \<Rightarrow> oid list \<times> 'm mgr \<Rightarrow> bool" where
  "prio_post s0 p depth S seen r \<longleftrightarrow> (case r of (seen', s') \<Rightarrow>
     distinct seen' \<and> length seen' \<le> depth \<and> length seen \<le> length seen' \<and> set seen \<subseteq> set seen' \<and> set_priorities s0 p seen' s' \<and>
     set seen' - set seen \<subseteq> (edges (rel_parents s0))\<^sup>* `` S \<and>
     (length seen' < depth \<longrightarrow> S \<subseteq> set seen' \<and> (\<forall>x\<in>set seen' - set seen. set (rel_parents s0 x) \<subseteq> set seen')))"

lemma foldR_map: "foldR (\<lambda>r. f (g r)) rs st = foldR f (map g rs) st"
proof (induction rs arbitrary: st)
  case (Cons r rs)
  show ?case by (cases "f (g r) st") (simp_all add: Cons)
qed simp

lemma prio_loop_post:
  assumes "\<And>c seen s. c \<in> set cs \<Longrightarrow> distinct seen \<Longrightarrow> length seen \<le> depth \<Longrightarrow> k \<le> length seen \<Longrightarrow> set_priorities s0 p seen s \<Longrightarrow>
      \<exists>r. f c (seen, s) = Inr r \<and> prio_post s0 p depth {c} seen r"
    and "distinct seen" "length seen \<le> depth" "k \<le> length seen" "set_priorities s0 p seen s"
  shows "\<exists>r. foldR f cs (seen, s) = Inr r \<and> prio_post s0 p depth (set cs) seen r"
  using assms
proof (induction cs arbitrary: seen s)
  case Nil
  then show ?case by (simp add: prio_post_def)
next
  case (Cons c cs)
  from Cons.prems(1) [of c, OF _ Cons.prems(2-)] obtain mid s1 where
    1: "f c (seen, s) = Inr (mid, s1)" "prio_post s0 p depth {c} seen (mid, s1)" by auto
  note 1 [unfolded prio_post_def prod.case]
  then have "\<exists>r. foldR f cs (mid, s1) = Inr r \<and> prio_post s0 p depth (set cs) mid r"
    using Cons.prems(1,4) by (intro Cons.IH) auto
  then obtain seen' s' where 2: "foldR f cs (mid, s1) = Inr (seen', s')" "prio_post s0 p depth (set cs) mid (seen', s')"
    by auto
  have "prio_post s0 p depth (set (c # cs)) seen (seen', s')"
    unfolding prio_post_def prod.case
  proof (intro conjI impI)
    show "set seen' - set seen \<subseteq> (edges (rel_parents s0))\<^sup>* `` set (c # cs)"
      using 1(2) 2(2) unfolding prio_post_def prod.case by auto blast+
  next
    assume l: "length seen' < depth"
    then have m: "length mid < depth" using 2(2) unfolding prio_post_def prod.case by simp
    show "set (c # cs) \<subseteq> set seen'"
      using 1(2) 2(2) l m unfolding prio_post_def prod.case by auto
    show "\<forall>x\<in>set seen' - set seen. set (rel_parents s0 x) \<subseteq> set seen'"
    proof
      fix x assume "x \<in> set seen' - set seen"
      then show "set (rel_parents s0 x) \<subseteq> set seen'"
        using 1(2) 2(2) l m unfolding prio_post_def prod.case by (cases "x \<in> set mid") (blast+)
    qed
  qed (use 1(2) 2(2) in \<open>auto simp: prio_post_def\<close>)
  with 1 2 show ?case by simp
qed

lemma prio_check_post:
  assumes "distinct seen" "length seen \<le> depth" "depth < n + length seen" "set_priorities s0 p seen s"
  shows "\<exists>r. prioritize_check n depth p c (seen, s) = Inr r \<and> prio_post s0 p depth {c} seen r"
  using assms
proof (induction n arbitrary: c seen s)
  case 0
  then show ?case by simp
next
  case (Suc n)
  show ?case
  proof (cases "c \<in> set seen \<or> length seen \<ge> depth")
    case True
    then show ?thesis using Suc.prems by (auto simp: prio_post_def)
  next
    case False
    define s1 where "s1 = setCommitUserPriority c p s"
    let ?f = "prioritize_check n depth p"
    have inv: "set_priorities s0 p (seen @ [c]) s1"
      unfolding s1_def by (rule setCommitUserPriority_sets [OF Suc.prems(4)])
    then have parents: "map (\<lambda>r. rel_parent (get_relationship s1 r)) (lookup_all (relationships s1) (Rel_child c)) =
        rel_parents s0 c"
      by (simp add: set_priorities_def rel_parents_def get_relationship_def)
    have loop: "\<exists>r. foldR ?f (rel_parents s0 c) (seen @ [c], s1) = Inr r \<and>
        prio_post s0 p depth (set (rel_parents s0 c)) (seen @ [c]) r"
      by (rule prio_loop_post [where k = "Suc (length seen)"]) (use Suc False inv in auto)

    from loop obtain seen' s' where
      run: "foldR ?f (rel_parents s0 c) (seen @ [c], s1) = Inr (seen', s')" and
      post: "prio_post s0 p depth (set (rel_parents s0 c)) (seen @ [c]) (seen', s')" by auto
    have loop_run: "foldR (\<lambda>r. ?f (rel_parent (get_relationship s1 r))) (lookup_all (relationships s1) (Rel_child c))
        (seen @ [c], s1) = Inr (seen', s')"
      by (rule trans [OF foldR_map [where f = ?f and g = "\<lambda>r. rel_parent (get_relationship s1 r)"]])
        (simp only: parents run)
    have "prioritize_check (Suc n) depth p c (seen, s) = Inr (seen', s')"
      using False loop_run by (simp add: Let_def s1_def [symmetric])
    moreover have "prio_post s0 p depth {c} seen (seen', s')"
      unfolding prio_post_def prod.case
    proof (intro conjI impI)
      have "(edges (rel_parents s0))\<^sup>* `` set (rel_parents s0 c) \<subseteq> (edges (rel_parents s0))\<^sup>* `` {c}"
        by (auto intro: converse_rtrancl_into_rtrancl)
      moreover have "set seen' - set (seen @ [c]) \<subseteq> (edges (rel_parents s0))\<^sup>* `` set (rel_parents s0 c)"
        using post unfolding prio_post_def prod.case by (elim conjE)
      moreover have "c \<in> (edges (rel_parents s0))\<^sup>* `` {c}" by simp
      ultimately show "set seen' - set seen \<subseteq> (edges (rel_parents s0))\<^sup>* `` {c}"
        unfolding set_append by fastforce
    next
      assume "length seen' < depth"
      then have "set (rel_parents s0 c) \<subseteq> set seen'"
        "\<forall>x\<in>set seen' - set (seen @ [c]). set (rel_parents s0 x) \<subseteq> set seen'"
        using post unfolding prio_post_def prod.case by simp_all
      then show "\<forall>x\<in>set seen' - set seen. set (rel_parents s0 x) \<subseteq> set seen'" by auto
    next
      have "set (seen @ [c]) \<subseteq> set seen'" "length (seen @ [c]) \<le> length seen'"
        using post unfolding prio_post_def prod.case by blast+
      then show "{c} \<subseteq> set seen'" "set seen \<subseteq> set seen'" "length seen \<le> length seen'" by simp_all
    qed (use post in \<open>simp_all add: prio_post_def\<close>)
    ultimately show ?thesis by blast
  qed
qed

text \<open>C21: Prioritizing the commits under a branch succeeds (a stack one deeper than the bound is enough)
  and sets the user priority of at most \<open>depth\<close> commits, all at or above the head of the branch through
  the parent relationships and no others; when fewer than \<open>depth\<close> are reached, those are all there
  are.\<close>

theorem prioritizeAllCommitsUnderBranch_correct:
  assumes "br_head (get_branch s branch) = Some head" "depth < n"
  shows "\<exists>s' cs. prioritizeAllCommitsUnderBranch n branch priority depth s = Inr s' \<and>
    distinct cs \<and> length cs \<le> depth \<and> set cs \<subseteq> (edges (rel_parents s))\<^sup>* `` {head} \<and>
    (length cs < depth \<longrightarrow> set cs = (edges (rel_parents s))\<^sup>* `` {head}) \<and>
    (\<forall>d. cm_userPriority (get_commit s' d) =
       (if d \<in> set cs \<and> rows (commits s) d \<noteq> None then priority else cm_userPriority (get_commit s d)))"
proof -
  have "set_priorities s priority [] s" by (simp add: set_priorities_def)
  then have "\<exists>r. prioritize_check n depth priority head ([], s) = Inr r \<and> prio_post s priority depth {head} [] r"
    by (intro prio_check_post) (use assms(2) in auto)
  then obtain cs s' where run: "prioritize_check n depth priority head ([], s) = Inr (cs, s')"
    and post: "prio_post s priority depth {head} [] (cs, s')" by auto
  have all: "set cs = (edges (rel_parents s))\<^sup>* `` {head}" if "length cs < depth"
  proof
    have "closed_under (rel_parents s) (set cs)" "head \<in> set cs"
      using post that by (auto simp: prio_post_def closed_under_def)
    then show "(edges (rel_parents s))\<^sup>* `` {head} \<subseteq> set cs" by (auto intro: closed_reach)
  qed (use post in \<open>auto simp: prio_post_def\<close>)
  show ?thesis
  proof (intro exI conjI)
    show "prioritizeAllCommitsUnderBranch n branch priority depth s = Inr s'"
      by (simp add: prioritizeAllCommitsUnderBranch_def assms(1) run)
  qed (use post all in \<open>auto simp: prio_post_def set_priorities_def\<close>)
qed

theorem prioritizeAllCommitsUnderBranch_correct_witness:
  "\<exists>s' cs. prioritizeAllCommitsUnderBranch 6 9 4 5 (demo_priorities None 0) = Inr s' \<and> length cs \<le> 5 \<and>
     (\<forall>d. cm_userPriority (get_commit s' d) = (if d \<in> set cs \<and> rows (commits (demo_priorities None 0)) d \<noteq> None
        then 4 else cm_userPriority (get_commit (demo_priorities None 0) d)))"
proof -
  have "br_head (get_branch (demo_priorities None 0) 9) = Some 2"
    by (simp add: demo_priorities_def get_branch_def)
  then show ?thesis
    using prioritizeAllCommitsUnderBranch_correct [of "demo_priorities None 0" 9 2 5 6 4] by fastforce
qed

end
