(* ===== verification/Manager_World.thy ===== *)
theory Manager_World
  imports Task_Queue
begin

text \<open>
  What a \<open>TestManager\<close> calls outside of itself. The first group is the interface of a machine
  management (\<^verbatim>\<open>MachineManagement.py\<close>), whose state is the field \<open>machine_management\<close> of the
  manager; \<open>w_definitions\<close> is what the definition resolver answers for a commit while machines are compared with
  tests; the last fields are the hashes of a list of test names and of a setup script.
\<close>

record commit_info =
  ci_hash :: string
  ci_parents :: "string list"
  ci_timestamp :: int
  ci_message :: string
  ci_author :: string
  ci_authorEmail :: string

text \<open>The outcome of \<open>testEnvironmentAndRepoDefinitionsFor\<close>.\<close>

datatype resolution =
    Resolved "(string \<times> test_definition) list" "(string \<times> repo_reference) list"
  | DependencyMissing string "string option"
  | ResolutionFailed string

record 'm world =
  w_hardware_configs :: "hardware list"
  w_canBoot :: "'m \<Rightarrow> hardware \<Rightarrow> os_config \<Rightarrow> bool"
  w_wantsToSeeSetupScript :: "'m \<Rightarrow> os_config \<Rightarrow> bool"
  w_isOsConfigInvalid :: "'m \<Rightarrow> os_config \<Rightarrow> bool"
  w_ensureOsConfigAvailable :: "os_config \<Rightarrow> string \<Rightarrow> 'm \<Rightarrow> 'm res"
  w_boot_worker :: "hardware \<Rightarrow> os_config \<Rightarrow> 'm \<Rightarrow> boot_result \<times> 'm"
  w_terminate_worker :: "string \<Rightarrow> 'm \<Rightarrow> 'm"
  w_synchronize_workers :: "known_workers \<Rightarrow> 'm \<Rightarrow> (string list \<times> 'm) res"
  w_amiCollectionCheck :: "'m \<Rightarrow> 'm"
  w_definitions :: "string \<Rightarrow> string \<Rightarrow> resolution"
  w_hashNames :: "string list \<Rightarrow> string"
  w_hashScript :: "string \<Rightarrow> string"

text \<open>A world with two kinds of hardware, in which every machine boots and gets the name that counts the
  machines booted before it, and nothing is known to the source control.\<close>

definition demo_world :: "nat world" where
  "demo_world =
     \<lparr>w_hardware_configs = [\<lparr>cores = 2, ram_gb = 8\<rparr>, \<lparr>cores = 8, ram_gb = 32\<rparr>],
      w_canBoot = (\<lambda>n h os. True), w_wantsToSeeSetupScript = (\<lambda>n os. False),
      w_isOsConfigInvalid = (\<lambda>n os. False), w_ensureOsConfigAvailable = (\<lambda>os script n. Inr n),
      w_boot_worker = (\<lambda>h os n. (Booted (replicate n CHR ''m''), Suc n)),
      w_terminate_worker = (\<lambda>m n. n), w_synchronize_workers = (\<lambda>known n. Inr ([], n)),
      w_amiCollectionCheck = (\<lambda>n. n),
      w_definitions = (\<lambda>r c. Resolved [] []), w_hashNames = concat, w_hashScript = (\<lambda>x. x)\<rparr>"

end
