(* ===== verification/Machine_Lifecycle.thy ===== *)
theory Machine_Lifecycle
  imports Manager_World
begin

text \<open>
  Machines and machine categories in \<^verbatim>\<open>TestManager.py\<close>: which category a test needs, booting,
  heartbeats, shutting down and terminating machines, and what a termination does to the test runs and
  deployments on the machine. Terminating a machine cancels what runs on it, and canceling may
  terminate further machines: the mutually recursive methods take the recursive call
  (\<open>_machineTerminated\<close>) as the argument \<open>mt\<close>, and \<open>machineTerminated\<close> ties the knot with the
  remaining recursion depth.
\<close>

section \<open>Categories\<close>

definition machineCategoryPairForTest :: "'m world \<Rightarrow> test_row \<Rightarrow> (hardware \<times> os_config) res" where
  "machineCategoryPairForTest w test =
     (let sm = ts_summary test; os = sm_machineOs sm;
          viable = filter (\<lambda>hw. cores hw \<ge> sm_min_cores sm \<and> ram_gb hw \<ge> sm_min_ram_gb sm)
                     (w_hardware_configs w)
      in if viable = [] then Inl AttributeError
         else if sm_max_cores sm \<noteq> 0 then
           let smaller = filter (\<lambda>x. cores x \<le> sm_max_cores sm) viable
           in if smaller = [] then Inr (hd viable, os) else Inr (last smaller, os)
         else Inr (hd (sort_key cores viable), os))"

definition machineCategoryForPair :: "hardware \<times> os_config \<Rightarrow> 'm mgr \<Rightarrow> oid \<times> 'm mgr" where
  "machineCategoryForPair hardware_and_os s =
     (case lookup_any (categories s) (Category_hardware_and_os hardware_and_os) of
        Some cat \<Rightarrow> (cat, s)
      | None \<Rightarrow> new_category (default_category\<lparr>mc_hardware := fst hardware_and_os,
                                                mc_os := snd hardware_and_os\<rparr>) s)"

definition machineCategoryForTest :: "'m world \<Rightarrow> oid \<Rightarrow> 'm mgr \<Rightarrow> (oid \<times> 'm mgr) res" where
  "machineCategoryForTest w test s =
     bindR (machineCategoryPairForTest w (get_test s test)) (\<lambda>p. Inr (machineCategoryForPair p s))"

definition is_vm :: "os_config \<Rightarrow> bool" where
  "is_vm os \<longleftrightarrow> is_WindowsVM os \<or> is_LinuxVM os"

section \<open>Heartbeats\<close>

definition machineHeartbeat_row :: "int \<Rightarrow> string \<Rightarrow> machine_row \<Rightarrow> machine_row" where
  "machineHeartbeat_row curTimestamp msg m =
     (let m1 = (if ma_firstHeartbeat m = 0 then m\<lparr>ma_firstHeartbeat := curTimestamp\<rparr> else m);
          m2 = m1\<lparr>ma_lastHeartbeat := curTimestamp\<rparr>
      in if msg \<noteq> '''' then m2\<lparr>ma_lastHeartbeatMsg := msg\<rparr> else m2)"

definition recordHeartbeat :: "oid \<Rightarrow> int \<Rightarrow> string \<Rightarrow> 'm mgr \<Rightarrow> 'm mgr" where
  "recordHeartbeat machine curTimestamp msg = upd_machine machine (machineHeartbeat_row curTimestamp msg)"

definition machineInitialized :: "string \<Rightarrow> int \<Rightarrow> 'm mgr \<Rightarrow> 'm mgr" where
  "machineInitialized machineId curTimestamp s =
     (case lookup_any (machines s) (Machine_machineId machineId) of
        Some m \<Rightarrow> recordHeartbeat m curTimestamp '''' s
      | None \<Rightarrow> s)"

definition machineHeartbeat :: "string \<Rightarrow> int \<Rightarrow> string \<Rightarrow> 'm mgr \<Rightarrow> 'm mgr" where
  "machineHeartbeat machineId curTimestamp msg s =
     (case lookup_any (machines s) (Machine_machineId machineId) of
        Some m \<Rightarrow> recordHeartbeat m curTimestamp msg s
      | None \<Rightarrow> s)"

section \<open>Termination, with the recursive call as an argument\<close>

type_synonym 'm terminator = "string \<Rightarrow> int \<Rightarrow> 'm mgr \<Rightarrow> 'm mgr res"

definition terminateMachine_with ::
  "'m world \<Rightarrow> 'm terminator \<Rightarrow> oid \<Rightarrow> int \<Rightarrow> 'm mgr \<Rightarrow> 'm mgr res" where
  "terminateMachine_with w mt machine curTimestamp s =
     (let machineId = ma_machineId (get_machine s machine)
      in mt machineId curTimestamp
           (s\<lparr>machine_management := w_terminate_worker w machineId (machine_management s)\<rparr>))"

definition cancelTestRun_with ::
  "'m world \<Rightarrow> 'm terminator \<Rightarrow> int \<Rightarrow> oid \<Rightarrow> 'm mgr \<Rightarrow> 'm mgr res" where
  "cancelTestRun_with w mt curTimestamp testRun s =
     (let r = get_run s testRun in
      if run_endTimestamp r \<noteq> 0 then Inl AssertionError
      else if run_canceled r then Inr s
      else
        let s1 = upd_run testRun (\<lambda>r. r\<lparr>run_canceled := True\<rparr>) s;
            s2 = upd_test (run_test r) (\<lambda>t. t\<lparr>ts_activeRuns := ts_activeRuns t - 1\<rparr>) s1
        in bindR (case run_machine r of
                    None \<Rightarrow> Inr s2
                  | Some m \<Rightarrow>
                      if is_vm (ma_os (get_machine s2 m)) then terminateMachine_with w mt m curTimestamp s2
                      else Inr s2) (\<lambda>s3.
             Inr (triggerTestPriorityUpdate (run_test r) s3)))"

definition anythingRunningOnMachine :: "oid \<Rightarrow> 'm mgr \<Rightarrow> bool" where
  "anythingRunningOnMachine machine s \<longleftrightarrow>
     lookup_any (runs s) (Run_runningOnMachine (Some machine)) \<noteq> None \<or>
     lookup_any (deployments s) (Deployment_runningOnMachine (Some machine)) \<noteq> None"

definition machineLooksIdle :: "machine_row \<Rightarrow> int \<Rightarrow> bool" where
  "machineLooksIdle m curTimestamp =
     (if is_WindowsVM (ma_os m) \<and> curTimestamp - ma_bootTime m < 60 * 55 then False
      else curTimestamp - ma_lastTestCompleted m > 180)"

fun shutdown_first ::
  "'m world \<Rightarrow> 'm terminator \<Rightarrow> int \<Rightarrow> bool \<Rightarrow> oid list \<Rightarrow> 'm mgr \<Rightarrow> (bool \<times> 'm mgr) res" where
  "shutdown_first w mt curTimestamp onlyIdle [] s = Inr (False, s)"
| "shutdown_first w mt curTimestamp onlyIdle (machine # rest) s =
     (if \<not> ma_isAlive (get_machine s machine) then Inl AssertionError
      else if \<not> anythingRunningOnMachine machine s \<and>
              (\<not> onlyIdle \<or> machineLooksIdle (get_machine s machine) curTimestamp)
      then bindR (terminateMachine_with w mt machine curTimestamp s) (\<lambda>s'. Inr (True, s'))
      else shutdown_first w mt curTimestamp onlyIdle rest s)"

definition shutdown_with ::
  "'m world \<Rightarrow> 'm terminator \<Rightarrow> oid \<Rightarrow> int \<Rightarrow> bool \<Rightarrow> 'm mgr \<Rightarrow> (bool \<times> 'm mgr) res" where
  "shutdown_with w mt category curTimestamp onlyIdle s =
     (let c = get_category s category
      in shutdown_first w mt curTimestamp onlyIdle
           (lookup_all (machines s) (Machine_hardware_and_os (mc_hardware c, mc_os c))) s)"

definition shutdown_check_with ::
  "'m world \<Rightarrow> 'm terminator \<Rightarrow> int \<Rightarrow> 'm mgr \<Rightarrow> (bool \<times> 'm mgr) res" where
  "shutdown_check_with w mt curTimestamp s =
     foldR (\<lambda>cat (shutDownAny, s).
        if mc_desired (get_category s cat) < mc_booted (get_category s cat)
        then bindR (shutdown_with w mt cat curTimestamp True s) (\<lambda>(b, s'). Inr (shutDownAny \<or> b, s'))
        else Inr (shutDownAny, s))
       (lookup_all (categories s) Category_want_less) (False, s)"

text \<open>\<open>while check(): pass\<close>, with a bound on the iterations.\<close>

fun shutdownMachinesIfNecessary_with ::
  "'m world \<Rightarrow> 'm terminator \<Rightarrow> nat \<Rightarrow> int \<Rightarrow> 'm mgr \<Rightarrow> 'm mgr res" where
  "shutdownMachinesIfNecessary_with w mt 0 curTimestamp s = Inl RecursionError"
| "shutdownMachinesIfNecessary_with w mt (Suc n) curTimestamp s =
     bindR (shutdown_check_with w mt curTimestamp s) (\<lambda>(shutDownAny, s').
       if shutDownAny then shutdownMachinesIfNecessary_with w mt n curTimestamp s' else Inr s')"

definition addDeploymentMessage :: "oid \<Rightarrow> deployment_message \<Rightarrow> 'm mgr \<Rightarrow> 'm mgr" where
  "addDeploymentMessage d msg s = s\<lparr>deployment_messages := deployment_messages s @ [(d, msg)]\<rparr>"

definition cancelDeployment_with ::
  "'m world \<Rightarrow> 'm terminator \<Rightarrow> nat \<Rightarrow> int \<Rightarrow> oid \<Rightarrow> 'm mgr \<Rightarrow> 'm mgr res" where
  "cancelDeployment_with w mt n timestamp deployment s =
     (let d = get_deployment s deployment in
      if \<not> de_isAlive d then Inr s
      else
        bindR (machineCategoryForTest w (de_test d) s) (\<lambda>(cat, s1).
        let s2 = upd_category cat (\<lambda>c. c\<lparr>mc_desired := mc_desired c - 1\<rparr>) s1;
            s3 = addDeploymentMessage deployment (SessionTerminated timestamp) s2;
            s4 = upd_deployment deployment (\<lambda>d. d\<lparr>de_isAlive := False\<rparr>) s3
        in bindR (case de_machine d of
                    None \<Rightarrow> Inr s4
                  | Some m \<Rightarrow>
                      let s5 = upd_machine m (\<lambda>r. r\<lparr>ma_lastTestCompleted := timestamp\<rparr>) s4
                      in if is_vm (ma_os (get_machine s5 m)) then terminateMachine_with w mt m timestamp s5
                         else Inr s5) (\<lambda>s6.
             shutdownMachinesIfNecessary_with w mt n timestamp (scheduleBootCheck s6))))"

section \<open>The knot\<close>

fun machineTerminated :: "'m world \<Rightarrow> nat \<Rightarrow> string \<Rightarrow> int \<Rightarrow> 'm mgr \<Rightarrow> 'm mgr res" where
  "machineTerminated w 0 machineId timestamp s = Inl RecursionError"
| "machineTerminated w (Suc depth) machineId timestamp s =
     bindR (lookup_one (machines s) (Machine_machineId machineId)) (\<lambda>machine.
     let m = get_machine s machine in
     if \<not> ma_isAlive m then Inr s
     else
       let s1 = upd_machine machine (\<lambda>m. m\<lparr>ma_isAlive := False\<rparr>) s in
       case machineCategoryForPair (ma_hardware m, ma_os m) s1 of (mc, s2) \<Rightarrow>
       let s3 = upd_category mc (\<lambda>c. c\<lparr>mc_booted := mc_booted c - 1\<rparr>) s2 in
       if mc_booted (get_category s3 mc) < 0 then Inl AssertionError
       else
         bindR (foldR (cancelTestRun_with w (machineTerminated w depth) timestamp)
                  (lookup_all (runs s3) (Run_runningOnMachine (Some machine))) s3) (\<lambda>s4.
         bindR (foldR (cancelDeployment_with w (machineTerminated w depth) (Suc depth) timestamp)
                  (lookup_all (deployments s4) (Deployment_runningOnMachine (Some machine))) s4) (\<lambda>s5.
           Inr (scheduleBootCheck s5))))"

definition terminateMachine :: "'m world \<Rightarrow> nat \<Rightarrow> oid \<Rightarrow> int \<Rightarrow> 'm mgr \<Rightarrow> 'm mgr res" where
  "terminateMachine w depth = terminateMachine_with w (machineTerminated w depth)"

definition cancelTestRun :: "'m world \<Rightarrow> nat \<Rightarrow> int \<Rightarrow> oid \<Rightarrow> 'm mgr \<Rightarrow> 'm mgr res" where
  "cancelTestRun w depth = cancelTestRun_with w (machineTerminated w depth)"

definition shutdown :: "'m world \<Rightarrow> nat \<Rightarrow> oid \<Rightarrow> int \<Rightarrow> bool \<Rightarrow> 'm mgr \<Rightarrow> (bool \<times> 'm mgr) res" where
  "shutdown w depth = shutdown_with w (machineTerminated w depth)"

definition shutdownMachinesIfNecessary :: "'m world \<Rightarrow> nat \<Rightarrow> int \<Rightarrow> 'm mgr \<Rightarrow> 'm mgr res" where
  "shutdownMachinesIfNecessary w depth = shutdownMachinesIfNecessary_with w (machineTerminated w depth) (Suc depth)"

definition cancelDeployment :: "'m world \<Rightarrow> nat \<Rightarrow> int \<Rightarrow> oid \<Rightarrow> 'm mgr \<Rightarrow> 'm mgr res" where
  "cancelDeployment w depth = cancelDeployment_with w (machineTerminated w depth) (Suc depth)"

definition shutdownDeployment :: "'m world \<Rightarrow> nat \<Rightarrow> oid \<Rightarrow> int \<Rightarrow> 'm mgr \<Rightarrow> 'm mgr res" where
  "shutdownDeployment w depth deployment timestamp s =
     (if rows (deployments s) deployment = None then Inl (UserException ''Deployment does not exist'')
      else cancelDeployment w depth timestamp deployment s)"

definition createDeployment :: "'m world \<Rightarrow> string \<Rightarrow> int \<Rightarrow> 'm mgr \<Rightarrow> (oid \<times> 'm mgr) res" where
  "createDeployment w hash timestamp s =
     (case lookup_any (tests s) (Test_hash hash) of
        None \<Rightarrow> Inl (UserException ''Cannot find test'')
      | Some test \<Rightarrow>
          bindR (machineCategoryForTest w test s) (\<lambda>(cat, s1).
          if mc_hardwareComboUnbootable (get_category s1 cat) then Inl (UserException ''Cannot boot'')
          else
            case new_deployment (default_deployment\<lparr>de_test := test, de_createdTimestamp := timestamp,
                                                      de_isAlive := True\<rparr>) s1 of (d, s2) \<Rightarrow>
            let s3 = upd_category cat (\<lambda>c. c\<lparr>mc_desired := mc_desired c + 1\<rparr>) s2;
                s4 = addDeploymentMessage d (WaitingForHardware hash) s3
            in Inr (d, scheduleBootCheck s4)))"

section \<open>Booting\<close>

definition boot :: "'m world \<Rightarrow> oid \<Rightarrow> int \<Rightarrow> 'm mgr \<Rightarrow> bool \<times> 'm mgr" where
  "boot w category curTimestamp s =
     (let c = get_category s category in
      case w_boot_worker w (mc_hardware c) (mc_os c) (machine_management s) of (result, mm) \<Rightarrow>
      let s1 = s\<lparr>machine_management := mm\<rparr> in
      case result of
        Unbootable \<Rightarrow>
          let s2 = upd_category category (\<lambda>c. c\<lparr>mc_hardwareComboUnbootable := True,
                     mc_hardwareComboUnbootableReason := ''Invalid hardware/os combination'',
                     mc_desired := 0\<rparr>) s1
          in (False, fold triggerTestPriorityUpdate
                       (lookup_all (tests s2) (Test_machineCategoryAndPrioritized category)) s2)
      | BootFailed e \<Rightarrow> (False, s1)
      | Booted machineId \<Rightarrow>
          let s2 = snd (new_machine (default_machine\<lparr>ma_machineId := machineId,
                     ma_hardware := mc_hardware c, ma_bootTime := curTimestamp, ma_os := mc_os c,
                     ma_isAlive := True\<rparr>) s1)
          in (True, upd_category category (\<lambda>c. c\<lparr>mc_booted := mc_booted c + 1\<rparr>) s2))"

text \<open>The definition of a test is read from the test file of a commit that references it. The resolver
  is the field \<open>w_definitions\<close> of the world; a commit without data has no test file to unpack.\<close>

definition testsForCommit :: "'m world \<Rightarrow> oid \<Rightarrow> 'm mgr \<Rightarrow> (string \<times> test_definition) list res" where
  "testsForCommit w commit s =
     (let c = get_commit s commit in
      if cm_data c = None then Inl TypeError
      else case w_definitions w (rp_name (get_repo s (cm_repo c))) (cm_hash c) of
             Resolved ts rs \<Rightarrow> Inr ts
           | DependencyMissing r h \<Rightarrow> Inl (UserException ''Missing dependency'')
           | ResolutionFailed msg \<Rightarrow> Inl (UserException msg))"

definition definitionForTest :: "'m world \<Rightarrow> oid \<Rightarrow> 'm mgr \<Rightarrow> test_definition option res" where
  "definitionForTest w test s =
     (case lookup_any (commit_tests s) (CT_test test) of
        None \<Rightarrow> Inl AssertionError
      | Some d \<Rightarrow>
          bindR (testsForCommit w (ct_commit (get_commit_test s d)) s) (\<lambda>ts.
            Inr (map_of ts (sm_name (ts_summary (get_test s test))))))"

definition environmentForTest :: "'m world \<Rightarrow> oid \<Rightarrow> 'm mgr \<Rightarrow> test_environment option res" where
  "environmentForTest w test s =
     bindR (definitionForTest w test s) (\<lambda>d. case d of
       None \<Rightarrow> Inl AttributeError
     | Some def \<Rightarrow> Inr (environment (test_definition.fields def)))"

fun setup_script_of :: "test_environment option \<Rightarrow> string res" where
  "setup_script_of (Some (Environment platform (AMI base script) envf)) = Inr script"
| "setup_script_of _ = Inl AttributeError"

text \<open>The handler of a failure reads a field of the summary that does not exist, so it raises itself and
  only the first test of the category is ever looked at.\<close>

definition setupContentsForMachineCategory :: "'m world \<Rightarrow> oid \<Rightarrow> 'm mgr \<Rightarrow> string option res" where
  "setupContentsForMachineCategory w category s =
     (case lookup_all (tests s) (Test_machineCategoryAndPrioritized category) of
        [] \<Rightarrow> Inr None
      | test # _ \<Rightarrow>
          (case bindR (environmentForTest w test s) setup_script_of of
             Inr contents \<Rightarrow> Inr (Some contents)
           | Inl _ \<Rightarrow> Inl AttributeError))"

fun canBoot_any ::
  "'m world \<Rightarrow> oid list \<Rightarrow> 'm mgr \<Rightarrow> (oid option \<times> 'm mgr) res" where
  "canBoot_any w [] s = Inr (None, s)"
| "canBoot_any w (c # cs) s =
     (let os = mc_os (get_category s c) in
      if w_canBoot w (machine_management s) (mc_hardware (get_category s c)) os then Inr (Some c, s)
      else if w_wantsToSeeSetupScript w (machine_management s) os then
        bindR (setupContentsForMachineCategory w c s) (\<lambda>contents.
          if contents \<noteq> None \<and> contents \<noteq> Some [] then
            bindR (w_ensureOsConfigAvailable w os (the contents) (machine_management s)) (\<lambda>mm.
              canBoot_any w cs (s\<lparr>machine_management := mm\<rparr>))
          else canBoot_any w cs s)
      else if w_isOsConfigInvalid w (machine_management s) os then
        canBoot_any w cs
          (upd_category c (\<lambda>r. r\<lparr>mc_hardwareComboUnbootable := True,
             mc_hardwareComboUnbootableReason := ''Ami creation failed'', mc_desired := 0\<rparr>) s)
      else canBoot_any w cs s)"

text \<open>One pass over the categories that have too many machines, until one machine has been shut down.\<close>

fun shutdown_any ::
  "'m world \<Rightarrow> nat \<Rightarrow> int \<Rightarrow> oid list \<Rightarrow> 'm mgr \<Rightarrow> (bool \<times> 'm mgr) res" where
  "shutdown_any w depth curTimestamp [] s = Inr (False, s)"
| "shutdown_any w depth curTimestamp (c # cs) s =
     bindR (shutdown w depth c curTimestamp False s) (\<lambda>(b, s').
       if b then Inr (True, s') else shutdown_any w depth curTimestamp cs s')"

fun make_room ::
  "'m world \<Rightarrow> nat \<Rightarrow> nat \<Rightarrow> int \<Rightarrow> oid list \<Rightarrow> oid list \<Rightarrow>
   'm mgr \<Rightarrow> 'm mgr res" where
  "make_room w depth 0 curTimestamp wantingBoot wantingShutdown s = Inl RecursionError"
| "make_room w depth (Suc n) curTimestamp wantingBoot wantingShutdown s =
     (if wantingBoot = [] then Inr s
      else bindR (canBoot_any w wantingBoot s) (\<lambda>(c, s1).
        if c \<noteq> None \<or> wantingShutdown = [] then Inr s1
        else bindR (shutdown_any w depth curTimestamp wantingShutdown s1) (\<lambda>(shutAnyDown, s2).
          if shutAnyDown
          then make_room w depth n curTimestamp wantingBoot wantingShutdown s2
          else Inr s2)))"

definition boot_check ::
  "'m world \<Rightarrow> nat \<Rightarrow> int \<Rightarrow> 'm mgr \<Rightarrow> (bool \<times> 'm mgr) res" where
  "boot_check w depth curTimestamp s =
     (let wantingBoot = lookup_all (categories s) Category_want_more;
          wantingShutdown = lookup_all (categories s) Category_want_less
      in bindR (make_room w depth (Suc depth) curTimestamp wantingBoot wantingShutdown s) (\<lambda>s1.
         bindR (canBoot_any w wantingBoot s1) (\<lambda>(c, s2).
           case c of
             Some cat \<Rightarrow> Inr (boot w cat curTimestamp s2)
           | None \<Rightarrow> Inr (False, s2))))"

fun boot_loop ::
  "'m world \<Rightarrow> nat \<Rightarrow> nat \<Rightarrow> int \<Rightarrow> 'm mgr \<Rightarrow> 'm mgr res" where
  "boot_loop w depth 0 curTimestamp s = Inl RecursionError"
| "boot_loop w depth (Suc n) curTimestamp s =
     bindR (boot_check w depth curTimestamp s) (\<lambda>(again, s').
       if again then boot_loop w depth n curTimestamp s' else Inr s')"

definition bootMachinesIfNecessary ::
  "'m world \<Rightarrow> nat \<Rightarrow> nat \<Rightarrow> int \<Rightarrow> 'm mgr \<Rightarrow> 'm mgr res" where
  "bootMachinesIfNecessary w depth n curTimestamp s =
     (let s1 = (if curTimestamp - lastAmiCheckTimestamp s > 30
                then s\<lparr>lastAmiCheckTimestamp := curTimestamp,
                        machine_management := w_amiCollectionCheck w (machine_management s)\<rparr>
                else s)
      in boot_loop w depth n curTimestamp s1)"

section \<open>The books of the test manager\<close>

type_synonym machine_tbl = "(machine_row, machine_ix) tbl"

definition alive_ids :: "'m mgr \<Rightarrow> oid set" where
  "alive_ids s = {i. \<exists>m. rows (machines s) i = Some m \<and> ma_isAlive m}"

definition machine_count :: "machine_tbl \<Rightarrow> hardware \<times> os_config \<Rightarrow> nat" where
  "machine_count M p =
     card {i. \<exists>m. rows M i = Some m \<and> ma_isAlive m \<and> (ma_hardware m, ma_os m) = p}"

definition machines_ok :: "machine_tbl \<Rightarrow> oid \<Rightarrow> bool" where
  "machines_ok M n \<longleftrightarrow> tbl_ok machine_keys M \<and> (\<forall>i\<ge>n. rows M i = None) \<and>
     (\<forall>i j m m'. rows M i = Some m \<longrightarrow> rows M j = Some m' \<longrightarrow> ma_machineId m = ma_machineId m' \<longrightarrow> i = j)"

definition categories_ok :: "(machine_category_row, category_ix) tbl \<Rightarrow> machine_tbl \<Rightarrow> oid \<Rightarrow> bool" where
  "categories_ok C M n \<longleftrightarrow> tbl_ok category_keys C \<and> (\<forall>i\<ge>n. rows C i = None) \<and>
     (\<forall>i j c d. rows C i = Some c \<longrightarrow> rows C j = Some d \<longrightarrow>
        (mc_hardware c, mc_os c) = (mc_hardware d, mc_os d) \<longrightarrow> i = j) \<and>
     (\<forall>i c. rows C i = Some c \<longrightarrow> mc_booted c = int (machine_count M (mc_hardware c, mc_os c))) \<and>
     (\<forall>i m. rows M i = Some m \<longrightarrow> ma_isAlive m \<longrightarrow>
        (\<exists>k c. rows C k = Some c \<and> (mc_hardware c, mc_os c) = (ma_hardware m, ma_os m)))"

definition runs_ok :: "(test_run_row, run_ix) tbl \<Rightarrow> machine_tbl \<Rightarrow> bool" where
  "runs_ok R M \<longleftrightarrow> tbl_ok run_keys R \<and>
     (\<forall>i r. rows R i = Some r \<longrightarrow>
        (is_running r \<longrightarrow> run_endTimestamp r = 0) \<and> (\<forall>m. run_machine r = Some m \<longrightarrow> rows M m \<noteq> None))"

definition deployments_ok ::
  "'m world \<Rightarrow> (deployment_row, deployment_ix) tbl \<Rightarrow> machine_tbl \<Rightarrow> (oid \<Rightarrow> test_row) \<Rightarrow> bool" where
  "deployments_ok w D M test \<longleftrightarrow> tbl_ok deployment_keys D \<and>
     (\<forall>i d. rows D i = Some d \<longrightarrow>
        (\<forall>m. de_machine d = Some m \<longrightarrow> rows M m \<noteq> None) \<and>
        (de_isAlive d \<longrightarrow> (\<exists>p. machineCategoryPairForTest w (test (de_test d)) = Inr p)))"

definition books :: "'m world \<Rightarrow> 'm mgr \<Rightarrow> bool" where
  "books w s \<longleftrightarrow> machines_ok (machines s) (next_id s) \<and>
     categories_ok (categories s) (machines s) (next_id s) \<and> runs_ok (runs s) (machines s) \<and>
     deployments_ok w (deployments s) (machines s) (get_test s) \<and> tasks_inv s"

text \<open>How a termination may change the state.\<close>

definition machine_le :: "machine_row \<Rightarrow> machine_row \<Rightarrow> bool" where
  "machine_le m m' \<longleftrightarrow> ma_machineId m' = ma_machineId m \<and> ma_hardware m' = ma_hardware m \<and>
     ma_os m' = ma_os m \<and> ma_bootTime m' = ma_bootTime m \<and> ma_lastHeartbeat m' = ma_lastHeartbeat m \<and>
     (ma_isAlive m' \<longrightarrow> ma_isAlive m)"

definition run_le :: "test_run_row \<Rightarrow> test_run_row \<Rightarrow> bool" where
  "run_le r r' \<longleftrightarrow> run_test r' = run_test r \<and> run_machine r' = run_machine r \<and>
     run_endTimestamp r' = run_endTimestamp r \<and> run_lastHeartbeat r' = run_lastHeartbeat r \<and>
     (run_canceled r \<longrightarrow> run_canceled r')"

definition deployment_le :: "deployment_row \<Rightarrow> deployment_row \<Rightarrow> bool" where
  "deployment_le d d' \<longleftrightarrow> de_test d' = de_test d \<and> de_machine d' = de_machine d \<and>
     (de_isAlive d' \<longrightarrow> de_isAlive d)"

definition test_le :: "test_row \<Rightarrow> test_row \<Rightarrow> bool" where
  "test_le t t' \<longleftrightarrow> ts_summary t' = ts_summary t \<and> ts_hash t' = ts_hash t"

definition evolves :: "'m mgr \<Rightarrow> 'm mgr \<Rightarrow> bool" where
  "evolves s s' \<longleftrightarrow> next_id s \<le> next_id s' \<and>
     (\<forall>i. rel_option machine_le (rows (machines s) i) (rows (machines s') i)) \<and>
     (\<forall>i. rel_option run_le (rows (runs s) i) (rows (runs s') i)) \<and>
     (\<forall>i. rel_option deployment_le (rows (deployments s) i) (rows (deployments s') i)) \<and>
     (\<forall>i. rel_option test_le (rows (tests s) i) (rows (tests s') i))"

lemma le_refl [simp]: "machine_le m m" "run_le r r" "deployment_le d d" "test_le t t"
  by (simp_all add: machine_le_def run_le_def deployment_le_def test_le_def)

lemma rel_option_same [simp]: "(\<And>x. R x x) \<Longrightarrow> rel_option R a a"
  by (cases a) auto

lemma evolves_refl [simp]: "evolves s s"
  by (simp add: evolves_def)

lemma rel_option_trans:
  assumes "rel_option R a b" "rel_option R b c" "\<And>x y z. R x y \<Longrightarrow> R y z \<Longrightarrow> R x z"
  shows "rel_option R a c"
  using assms(1,2) by (cases a; cases b; cases c) (auto intro: assms(3))

lemma evolves_trans:
  assumes "evolves s t" "evolves t u"
  shows "evolves s u"
  unfolding evolves_def
proof (intro conjI allI)
  show "next_id s \<le> next_id u" using assms by (simp add: evolves_def)
  fix i
  show "rel_option machine_le (rows (machines s) i) (rows (machines u) i)"
    by (rule rel_option_trans [of _ _ "rows (machines t) i"])
      (use assms in \<open>auto simp: evolves_def machine_le_def\<close>)
  show "rel_option run_le (rows (runs s) i) (rows (runs u) i)"
    by (rule rel_option_trans [of _ _ "rows (runs t) i"])
      (use assms in \<open>auto simp: evolves_def run_le_def\<close>)
  show "rel_option deployment_le (rows (deployments s) i) (rows (deployments u) i)"
    by (rule rel_option_trans [of _ _ "rows (deployments t) i"])
      (use assms in \<open>auto simp: evolves_def deployment_le_def\<close>)
  show "rel_option test_le (rows (tests s) i) (rows (tests u) i)"
    by (rule rel_option_trans [of _ _ "rows (tests t) i"])
      (use assms in \<open>auto simp: evolves_def test_le_def\<close>)
qed

lemma evolves_rows:
  assumes "evolves s s'"
  shows "rows (machines s) i = Some m \<Longrightarrow> \<exists>m'. rows (machines s') i = Some m' \<and> machine_le m m'"
    "rows (runs s) i = Some r \<Longrightarrow> \<exists>r'. rows (runs s') i = Some r' \<and> run_le r r'"
    "rows (deployments s) i = Some d \<Longrightarrow> \<exists>d'. rows (deployments s') i = Some d' \<and> deployment_le d d'"
    "rows (tests s) i = Some t \<Longrightarrow> \<exists>t'. rows (tests s') i = Some t' \<and> test_le t t'"
  using assms unfolding evolves_def by (metis option_rel_Some1)+

lemma evolves_rows_back:
  assumes "evolves s s'"
  shows "rows (machines s') i = Some m' \<Longrightarrow> \<exists>m. rows (machines s) i = Some m \<and> machine_le m m'"
    "rows (runs s') i = Some r' \<Longrightarrow> \<exists>r. rows (runs s) i = Some r \<and> run_le r r'"
    "rows (deployments s') i = Some d' \<Longrightarrow> \<exists>d. rows (deployments s) i = Some d \<and> deployment_le d d'"
  using assms unfolding evolves_def by (metis option_rel_Some2)+

lemma evolves_alive: "evolves s s' \<Longrightarrow> alive_ids s' \<subseteq> alive_ids s"
  using evolves_rows_back(1) by (fastforce simp: alive_ids_def machine_le_def)

lemma finite_alive: "machines_ok (machines s) n \<Longrightarrow> finite (alive_ids s)"
  by (rule finite_subset [of _ "{..<n}"])
    (auto simp: alive_ids_def machines_ok_def not_less [symmetric])

lemma card_alive_le: "books w s \<Longrightarrow> evolves s s' \<Longrightarrow> card (alive_ids s') \<le> card (alive_ids s)"
  by (intro card_mono evolves_alive) (auto simp: books_def intro: finite_alive)

lemma card_alive_less:
  "books w s \<Longrightarrow> evolves s s' \<Longrightarrow> i \<in> alive_ids s \<Longrightarrow> i \<notin> alive_ids s' \<Longrightarrow>
   card (alive_ids s') < card (alive_ids s)"
  by (rule psubset_card_mono) (use evolves_alive in \<open>auto simp: books_def intro: finite_alive\<close>)

section \<open>What the single updates keep\<close>

lemma evolves_frame:
  assumes "machines s' = machines s" "runs s' = runs s" "deployments s' = deployments s"
    "tests s' = tests s" "next_id s \<le> next_id s'"
  shows "evolves s s'"
  using assms by (simp add: evolves_def)

lemma books_frame:
  assumes "books w s" "machines s' = machines s" "runs s' = runs s" "deployments s' = deployments s"
    "tests s' = tests s" "categories s' = categories s" "next_id s \<le> next_id s'" "tasks_inv s'"
  shows "books w s'"
proof -
  have "get_test s' = get_test s" using assms(5) by (simp add: get_test_def fun_eq_iff)
  then show ?thesis using assms by (auto simp: books_def machines_ok_def categories_ok_def)
qed

lemma books_frame_same:
  assumes "books w s" "machines s' = machines s" "runs s' = runs s" "deployments s' = deployments s"
    "tests s' = tests s" "categories s' = categories s" "next_id s' = next_id s" "tasks s' = tasks s"
  shows "books w s' \<and> evolves s s'"
proof
  have "tasks_inv s'" using assms(1,7,8) tasks_inv_frame [of s s'] by (simp add: books_def)
  then show "books w s'" using books_frame [OF assms(1-6)] assms(7) by simp
  show "evolves s s'" using assms by (intro evolves_frame) simp_all
qed

lemma queueTask_tables:
  "machines (queueTask a st s) = machines s" "runs (queueTask a st s) = runs s"
  "deployments (queueTask a st s) = deployments s" "tests (queueTask a st s) = tests s"
  "categories (queueTask a st s) = categories s" "next_id (queueTask a st s) = Suc (next_id s)"
  by (simp_all add: queueTask_def new_task_def upd_task_def Let_def split: option.split)

lemma queueTask_books:
  assumes "books w s" "st \<noteq> Running"
  shows "books w (queueTask a st s) \<and> evolves s (queueTask a st s)"
proof
  have "tasks_inv (queueTask a st s)"
    using assms queueTask_inv by (auto simp: books_def)
  then show "books w (queueTask a st s)"
    by (intro books_frame [OF assms(1)]) (simp_all add: queueTask_tables)
  show "evolves s (queueTask a st s)" by (rule evolves_frame) (simp_all add: queueTask_tables)
qed

lemma trigger_books:
  "books w s \<Longrightarrow> books w (triggerTestPriorityUpdate t s) \<and> evolves s (triggerTestPriorityUpdate t s)"
  by (simp add: triggerTestPriorityUpdate_def queueTask_books)

lemma bootCheck_books: "books w s \<Longrightarrow> books w (scheduleBootCheck s) \<and> evolves s (scheduleBootCheck s)"
  by (simp add: scheduleBootCheck_def queueTask_books)

lemma rel_option_modify:
  "(\<And>r. R r r) \<Longrightarrow> (\<And>r. rows t i = Some r \<Longrightarrow> R r (f r)) \<Longrightarrow>
   rel_option R (rows t j) (rows (tbl_modify keys i f t) j)"
  by (cases "rows t i") auto

lemma get_test_summary: "rel_option test_le (rows (tests s) i) (rows (tests s') i) \<Longrightarrow>
  ts_summary (get_test s' i) = ts_summary (get_test s i)"
  by (auto simp: get_test_def test_le_def split: option.splits elim: option.rel_cases)

lemma pairForTest_summary:
  "ts_summary t = ts_summary t' \<Longrightarrow> machineCategoryPairForTest w t = machineCategoryPairForTest w t'"
  by (simp add: machineCategoryPairForTest_def)

text \<open>Machines whose rows keep identity, hardware and liveness.\<close>

lemma machine_count_cong:
  assumes "\<And>i. rel_option (\<lambda>m m'. ma_isAlive m' = ma_isAlive m \<and> ma_hardware m' = ma_hardware m \<and>
      ma_os m' = ma_os m) (rows M i) (rows M' i)"
  shows "machine_count M p = machine_count M' p"
proof -
  have "(\<exists>m. rows M i = Some m \<and> ma_isAlive m \<and> (ma_hardware m, ma_os m) = p) =
      (\<exists>m. rows M' i = Some m \<and> ma_isAlive m \<and> (ma_hardware m, ma_os m) = p)" for i
    using assms [of i] by (cases "rows M i"; cases "rows M' i") auto
  then show ?thesis by (simp add: machine_count_def)
qed

lemma upd_test_books:
  assumes "books w s" "\<And>t. ts_summary (f t) = ts_summary t" "\<And>t. ts_hash (f t) = ts_hash t"
  shows "books w (upd_test i f s) \<and> evolves s (upd_test i f s)"
proof
  let ?s = "upd_test i f s"
  have M: "tests ?s = tbl_modify test_keys i f (tests s)" by (simp add: upd_test_def)
  have r: "rel_option test_le (rows (tests s) j) (rows (tests ?s) j)" for j
    unfolding M by (rule rel_option_modify; simp add: test_le_def assms(2,3))
  have "deployments_ok w (deployments s) (machines s) (get_test ?s)"
  proof -
    have eq: "machineCategoryPairForTest w (get_test ?s k) = machineCategoryPairForTest w (get_test s k)" for k
      by (rule pairForTest_summary [OF get_test_summary [OF r]])
    show ?thesis using assms(1) by (simp only: deployments_ok_def eq books_def) blast
  qed
  moreover have "tasks_inv ?s"
    using assms(1) by (auto simp: books_def upd_test_def intro: tasks_inv_frame)
  ultimately show "books w ?s" using assms(1) by (auto simp: books_def upd_test_def)
  show "evolves s ?s" using r by (simp add: evolves_def) (simp add: upd_test_def)
qed

lemma upd_run_books:
  assumes "books w s" "\<And>r. run_le r (f r)" "\<And>r. is_running (f r) \<Longrightarrow> is_running r"
  shows "books w (upd_run i f s) \<and> evolves s (upd_run i f s)"
proof
  let ?s = "upd_run i f s"
  have "runs_ok (runs ?s) (machines s)"
    using assms unfolding books_def runs_ok_def upd_run_def
    by (auto simp: run_index.ok_modify run_le_def split: if_splits)
  moreover have "tasks_inv ?s"
    using assms(1) by (auto simp: books_def upd_run_def intro: tasks_inv_frame)
  moreover have "get_test ?s = get_test s" by (simp add: get_test_def upd_run_def fun_eq_iff)
  ultimately show "books w ?s" using assms(1) by (auto simp: books_def upd_run_def)
  have M: "runs ?s = tbl_modify run_keys i f (runs s)" by (simp add: upd_run_def)
  have "rel_option run_le (rows (runs s) j) (rows (runs ?s) j)" for j
    unfolding M by (rule rel_option_modify; simp add: assms(2))
  then show "evolves s ?s" by (simp add: evolves_def) (simp add: upd_run_def)
qed

lemma upd_deployment_books:
  assumes "books w s" "\<And>d. deployment_le d (f d)"
  shows "books w (upd_deployment i f s) \<and> evolves s (upd_deployment i f s)"
proof
  let ?s = "upd_deployment i f s"
  have "deployments_ok w (deployments ?s) (machines s) (get_test s)"
    using assms unfolding books_def deployments_ok_def upd_deployment_def
    by (auto simp: deployment_index.ok_modify deployment_le_def split: if_splits)
  moreover have "tasks_inv ?s"
    using assms(1) by (auto simp: books_def upd_deployment_def intro: tasks_inv_frame)
  moreover have "get_test ?s = get_test s" by (simp add: get_test_def upd_deployment_def fun_eq_iff)
  ultimately show "books w ?s" using assms(1) by (auto simp: books_def upd_deployment_def)
  have M: "deployments ?s = tbl_modify deployment_keys i f (deployments s)" by (simp add: upd_deployment_def)
  have "rel_option deployment_le (rows (deployments s) j) (rows (deployments ?s) j)" for j
    unfolding M by (rule rel_option_modify; simp add: assms(2))
  then show "evolves s ?s" by (simp add: evolves_def) (simp add: upd_deployment_def)
qed

lemma upd_category_books:
  assumes "books w s" "\<And>c. mc_hardware (f c) = mc_hardware c" "\<And>c. mc_os (f c) = mc_os c"
    "\<And>c. mc_booted (f c) = mc_booted c"
  shows "books w (upd_category i f s) \<and> evolves s (upd_category i f s)"
proof
  let ?s = "upd_category i f s"
  have old: "rows (categories ?s) j = Some c \<Longrightarrow> \<exists>c0. rows (categories s) j = Some c0 \<and>
      mc_hardware c = mc_hardware c0 \<and> mc_os c = mc_os c0 \<and> mc_booted c = mc_booted c0" for j c
    using assms(2-4) by (auto simp: upd_category_def split: if_splits)
  have new: "rows (categories s) j = Some c0 \<Longrightarrow> \<exists>c. rows (categories ?s) j = Some c \<and>
      mc_hardware c = mc_hardware c0 \<and> mc_os c = mc_os c0" for j c0
    using assms(2,3) by (auto simp: upd_category_def)
  have ok: "categories_ok (categories s) (machines s) (next_id s)" using assms(1) by (simp add: books_def)
  have "categories_ok (categories ?s) (machines s) (next_id s)"
    unfolding categories_ok_def
  proof (intro conjI allI impI)
    show "tbl_ok category_keys (categories ?s)"
      using ok by (simp add: categories_ok_def upd_category_def category_index.ok_modify)
    show "rows (categories ?s) j = None" if "next_id s \<le> j" for j
      using ok that by (simp add: categories_ok_def upd_category_def)
    show "j = k" if "rows (categories ?s) j = Some c" "rows (categories ?s) k = Some d"
      "(mc_hardware c, mc_os c) = (mc_hardware d, mc_os d)" for j k c d
      using old [OF that(1)] old [OF that(2)] that(3) ok unfolding categories_ok_def by (metis prod.inject)
    show "mc_booted c = int (machine_count (machines s) (mc_hardware c, mc_os c))"
      if "rows (categories ?s) j = Some c" for j c
      using old [OF that] ok unfolding categories_ok_def by metis
    show "\<exists>k c. rows (categories ?s) k = Some c \<and> (mc_hardware c, mc_os c) = (ma_hardware m, ma_os m)"
      if "rows (machines s) j = Some m" "ma_isAlive m" for j m
      using that ok new unfolding categories_ok_def by (metis prod.inject)
  qed
  moreover have "tasks_inv ?s"
    using assms(1) by (auto simp: books_def upd_category_def intro: tasks_inv_frame)
  moreover have "get_test ?s = get_test s" by (simp add: get_test_def upd_category_def fun_eq_iff)
  ultimately show "books w ?s" using assms(1) by (auto simp: books_def upd_category_def)
  show "evolves s ?s" by (rule evolves_frame) (simp_all add: upd_category_def)
qed

lemma machines_ok_modify:
  assumes "machines_ok M n" "\<And>m. ma_machineId (f m) = ma_machineId m"
  shows "machines_ok (tbl_modify machine_keys i f M) n"
  using assms unfolding machines_ok_def
  by (auto simp: machine_index.ok_modify split: if_splits)

lemma refs_modify:
  "runs_ok R M \<Longrightarrow> runs_ok R (tbl_modify machine_keys i f M)"
  "deployments_ok w D M t \<Longrightarrow> deployments_ok w D (tbl_modify machine_keys i f M) t"
  by (fastforce simp: runs_ok_def deployments_ok_def split: if_splits)+

lemma upd_machine_books:
  assumes "books w s" "\<And>m. ma_machineId (f m) = ma_machineId m" "\<And>m. ma_hardware (f m) = ma_hardware m"
    "\<And>m. ma_os (f m) = ma_os m" "\<And>m. ma_isAlive (f m) = ma_isAlive m"
  shows "books w (upd_machine i f s) \<and>
    ((\<forall>m. ma_bootTime (f m) = ma_bootTime m \<and> ma_lastHeartbeat (f m) = ma_lastHeartbeat m) \<longrightarrow>
      evolves s (upd_machine i f s)) \<and>
    alive_ids (upd_machine i f s) = alive_ids s"
proof (intro conjI impI)
  let ?s = "upd_machine i f s"
  let ?M = "tbl_modify machine_keys i f (machines s)"
  have M: "machines ?s = ?M" by (simp add: upd_machine_def)
  have cnt: "machine_count ?M p = machine_count (machines s) p" for p
    by (rule machine_count_cong [symmetric]) (rule rel_option_modify; simp add: assms(3-5))
  have "categories_ok (categories s) ?M (next_id s)"
    using assms(1,3-5) unfolding books_def categories_ok_def cnt by (auto split: if_splits; metis)
  moreover have "tasks_inv ?s"
    using assms(1) by (auto simp: books_def upd_machine_def intro: tasks_inv_frame)
  moreover have "get_test ?s = get_test s" by (simp add: get_test_def upd_machine_def fun_eq_iff)
  ultimately show "books w ?s"
    using assms(1,2) machines_ok_modify [of "machines s" "next_id s" f i] refs_modify
    by (auto simp: books_def M) (auto simp: upd_machine_def)
  show "evolves s ?s" if "\<forall>m. ma_bootTime (f m) = ma_bootTime m \<and> ma_lastHeartbeat (f m) = ma_lastHeartbeat m"
  proof -
    have "rel_option machine_le (rows (machines s) j) (rows (machines ?s) j)" for j
      unfolding M by (rule rel_option_modify; simp add: machine_le_def assms(2-5) that)
    then show ?thesis by (simp add: evolves_def) (simp add: upd_machine_def)
  qed
  show "alive_ids ?s = alive_ids s" using assms(5) by (auto simp: alive_ids_def M split: if_splits)
qed

lemma categoryForPair_books:
  assumes "books w s" "machineCategoryForPair p s = (c, s')"
  shows "books w s' \<and> evolves s s' \<and>
    (\<exists>r. rows (categories s') c = Some r \<and> (mc_hardware r, mc_os r) = p)"
proof (cases "lookup_any (categories s) (Category_hardware_and_os p)")
  case (Some d)
  have "tbl_ok category_keys (categories s)" using assms(1) by (simp add: books_def categories_ok_def)
  from category_index.lookup_anyD [OF this Some] show ?thesis
    using Some assms by (auto simp: machineCategoryForPair_def category_keys_def split: if_splits)
next
  case None
  have ok: "categories_ok (categories s) (machines s) (next_id s)" using assms(1) by (simp add: books_def)
  let ?r = "default_category\<lparr>mc_hardware := fst p, mc_os := snd p\<rparr>"
  have c: "c = next_id s" and s': "s' = snd (new_category ?r s)"
    using None assms(2) by (auto simp: machineCategoryForPair_def new_category_def)
  have r: "rows (categories s') = (rows (categories s))(c \<mapsto> ?r)" by (simp add: s' c new_category_def)
  have fresh: "\<And>j. next_id s \<le> j \<Longrightarrow> rows (categories s) j = None" and t: "tbl_ok category_keys (categories s)"
    using ok by (auto simp: categories_ok_def)
  have nop: "rows (categories s) j = Some d \<Longrightarrow> (mc_hardware d, mc_os d) \<noteq> p" for j d
    using category_index.lookup_any_NoneD [OF t None, of j d] by (auto simp: category_keys_def)
  have "machine_count (machines s) p = 0"
  proof -
    have "\<not> (\<exists>m. rows (machines s) i = Some m \<and> ma_isAlive m \<and> (ma_hardware m, ma_os m) = p)" for i
      using ok nop unfolding categories_ok_def by metis
    then have "{i. \<exists>m. rows (machines s) i = Some m \<and> ma_isAlive m \<and> (ma_hardware m, ma_os m) = p} = {}"
      by blast
    then show ?thesis by (simp only: machine_count_def card.empty)
  qed
  then have "categories_ok (categories s') (machines s) (Suc (next_id s))"
    unfolding categories_ok_def r
  proof (intro conjI allI impI)
    show "tbl_ok category_keys (categories s')"
      using t fresh by (simp add: s' new_category_def category_index.ok_new)
    show "((rows (categories s))(c \<mapsto> ?r)) j = None" if "Suc (next_id s) \<le> j" for j
      using that fresh by (simp add: c)
    show "j = k" if "((rows (categories s))(c \<mapsto> ?r)) j = Some x" "((rows (categories s))(c \<mapsto> ?r)) k = Some y"
      "(mc_hardware x, mc_os x) = (mc_hardware y, mc_os y)" for j k x y
    proof (cases "j = c \<or> k = c")
      case True
      have p: "(mc_hardware ?r, mc_os ?r) = p" by simp
      show ?thesis
      proof (rule ccontr)
        assume "j \<noteq> k"
        with True that have "rows (categories s) j = Some x \<and> y = ?r \<or> rows (categories s) k = Some y \<and> x = ?r"
          by (auto split: if_splits)
        with that(3) p nop show False by metis
      qed
    next
      case False
      with that ok show ?thesis unfolding categories_ok_def by (metis fun_upd_apply)
    qed
    show "mc_booted x = int (machine_count (machines s) (mc_hardware x, mc_os x))"
      if "((rows (categories s))(c \<mapsto> ?r)) j = Some x" for j x
      using that ok \<open>machine_count (machines s) p = 0\<close>
      by (auto simp: categories_ok_def default_category_def split: if_splits)
    show "\<exists>k x. ((rows (categories s))(c \<mapsto> ?r)) k = Some x \<and> (mc_hardware x, mc_os x) = (ma_hardware m, ma_os m)"
      if m: "rows (machines s) j = Some m" "ma_isAlive m" for j m
    proof -
      from ok m obtain k x where "rows (categories s) k = Some x" "(mc_hardware x, mc_os x) = (ma_hardware m, ma_os m)"
        unfolding categories_ok_def by metis
      moreover from this fresh c have "k \<noteq> c" by auto
      ultimately show ?thesis by (intro exI [of _ k] exI [of _ x]) simp
    qed
  qed
  moreover have "tasks_inv s'"
    using assms(1) by (auto simp: books_def s' new_category_def intro: tasks_inv_frame)
  moreover have "get_test s' = get_test s" by (simp add: get_test_def s' new_category_def fun_eq_iff)
  ultimately have "books w s'"
    using assms(1) by (auto simp: books_def s' new_category_def machines_ok_def)
  moreover have "evolves s s'" by (rule evolves_frame) (simp_all add: s' new_category_def)
  ultimately show ?thesis using r by auto
qed

section \<open>Terminating a machine always succeeds\<close>

lemma management_books:
  "books w s \<Longrightarrow> books w (s\<lparr>machine_management := x\<rparr>) \<and> evolves s (s\<lparr>machine_management := x\<rparr>)"
  by (simp add: books_frame_same)

lemma message_books:
  "books w s \<Longrightarrow> books w (addDeploymentMessage d x s) \<and> evolves s (addDeploymentMessage d x s)"
  by (simp add: books_frame_same addDeploymentMessage_def)

text \<open>What is asked of the recursive call: it terminates any machine of the table, whatever it is
  asked to, as long as at most \<open>k\<close> machines are alive.\<close>

definition term_good :: "'m world \<Rightarrow> nat \<Rightarrow> 'm terminator \<Rightarrow> bool" where
  "term_good w k mt \<longleftrightarrow> (\<forall>s i ts. books w s \<longrightarrow> rows (machines s) i \<noteq> None \<longrightarrow> card (alive_ids s) \<le> k \<longrightarrow>
     (\<exists>s'. mt (ma_machineId (get_machine s i)) ts s = Inr s' \<and> books w s' \<and> evolves s s' \<and> i \<notin> alive_ids s'))"

lemma terminate_good:
  assumes "term_good w k mt" "books w s" "rows (machines s) i \<noteq> None" "card (alive_ids s) \<le> k"
  shows "\<exists>s'. terminateMachine_with w mt i ts s = Inr s' \<and> books w s' \<and> evolves s s' \<and> i \<notin> alive_ids s'"
proof -
  define s1 where "s1 = s\<lparr>machine_management :=
    w_terminate_worker w (ma_machineId (get_machine s i)) (machine_management s)\<rparr>"
  have b: "books w s1" "evolves s s1" using management_books [OF assms(2)] by (auto simp: s1_def)
  have "rows (machines s1) i \<noteq> None" "card (alive_ids s1) \<le> k"
    "get_machine s1 i = get_machine s i"
    using assms(3,4) by (auto simp: s1_def alive_ids_def get_machine_def)
  with assms(1) b(1) obtain s' where "mt (ma_machineId (get_machine s i)) ts s1 = Inr s'" "books w s'"
    "evolves s1 s'" "i \<notin> alive_ids s'" unfolding term_good_def by metis
  then show ?thesis using b(2) evolves_trans
    by (auto simp: terminateMachine_with_def Let_def s1_def)
qed

lemma cancelRun_good:
  assumes "term_good w k mt" "books w s" "card (alive_ids s) \<le> k"
    "rows (runs s) i = Some r" "run_endTimestamp r = 0"
  shows "\<exists>s'. cancelTestRun_with w mt ts i s = Inr s' \<and> books w s' \<and> evolves s s' \<and>
    (\<exists>r'. rows (runs s') i = Some r' \<and> run_canceled r')"
proof (cases "run_canceled r")
  case True
  then show ?thesis using assms by (auto simp: cancelTestRun_with_def get_run_def Let_def)
next
  case False
  define s1 where "s1 = upd_run i (\<lambda>r. r\<lparr>run_canceled := True\<rparr>) s"
  define s2 where "s2 = upd_test (run_test r) (\<lambda>t. t\<lparr>ts_activeRuns := ts_activeRuns t - 1\<rparr>) s1"
  have b1: "books w s1" "evolves s s1"
    using upd_run_books [OF assms(2), of "\<lambda>r. r\<lparr>run_canceled := True\<rparr>" i]
    by (auto simp: s1_def run_le_def is_running_def)
  have b2: "books w s2" "evolves s1 s2"
    using upd_test_books [OF b1(1), of "\<lambda>t. t\<lparr>ts_activeRuns := ts_activeRuns t - 1\<rparr>" "run_test r"]
    by (auto simp: s2_def)
  have e2: "evolves s s2" using b1(2) b2(2) by (rule evolves_trans)
  have "\<exists>s3. (case run_machine r of None \<Rightarrow> Inr s2
      | Some m \<Rightarrow> if is_vm (ma_os (get_machine s2 m)) then terminateMachine_with w mt m ts s2 else Inr s2) =
      Inr s3 \<and> books w s3 \<and> evolves s2 s3"
  proof (cases "run_machine r")
    case (Some m)
    have "rows (machines s) m \<noteq> None" using assms(2,4) Some by (auto simp: books_def runs_ok_def)
    then have "rows (machines s2) m \<noteq> None" using evolves_rows(1) [OF e2] by blast
    moreover have "card (alive_ids s2) \<le> k" using card_alive_le [OF assms(2) e2] assms(3) by simp
    ultimately show ?thesis using terminate_good [OF assms(1) b2(1), of m ts] b2(1) Some by auto
  qed (use b2(1) in simp)
  then obtain s3 where s3: "(case run_machine r of None \<Rightarrow> Inr s2
      | Some m \<Rightarrow> if is_vm (ma_os (get_machine s2 m)) then terminateMachine_with w mt m ts s2 else Inr s2) =
      Inr s3" "books w s3" "evolves s2 s3" by blast
  let ?s = "triggerTestPriorityUpdate (run_test r) s3"
  have "cancelTestRun_with w mt ts i s = Inr ?s"
    by (simp only: cancelTestRun_with_def get_run_def Let_def assms(4,5) option.case False if_False
      simp_thms s1_def [symmetric] s2_def [symmetric] s3(1) bindR.simps)
  moreover have "books w ?s" "evolves s3 ?s" using trigger_books [OF s3(2)] by auto
  moreover have "rows (runs s1) i = Some (r\<lparr>run_canceled := True\<rparr>)"
    using assms(4) by (simp add: s1_def upd_run_def)
  moreover have e: "evolves s1 ?s" using b2(2) s3(3) calculation(3) evolves_trans by blast
  moreover have "evolves s ?s" using b1(2) e by (rule evolves_trans)
  moreover have "\<exists>r'. rows (runs ?s) i = Some r' \<and> run_canceled r'"
    using evolves_rows(2) [OF e calculation(4)] by (auto simp: run_le_def)
  ultimately show ?thesis by blast
qed

lemma shutdown_first_good:
  assumes "term_good w k mt" "books w s" "card (alive_ids s) \<le> k" "set L \<subseteq> alive_ids s"
  shows "\<exists>b s'. shutdown_first w mt ts onlyIdle L s = Inr (b, s') \<and> books w s' \<and> evolves s s' \<and>
    (b \<longrightarrow> card (alive_ids s') < card (alive_ids s))"
  using assms(4)
proof (induction L)
  case (Cons i L)
  then have i: "i \<in> alive_ids s" by simp
  then have "rows (machines s) i \<noteq> None" and al: "ma_isAlive (get_machine s i)"
    by (auto simp: alive_ids_def get_machine_def)
  then obtain s' where s': "terminateMachine_with w mt i ts s = Inr s'" "books w s'" "evolves s s'" "i \<notin> alive_ids s'"
    using terminate_good [OF assms(1,2) _ assms(3)] by blast
  show ?case
  proof (cases "\<not> anythingRunningOnMachine i s \<and> (\<not> onlyIdle \<or> machineLooksIdle (get_machine s i) ts)")
    case True
    then have "shutdown_first w mt ts onlyIdle (i # L) s = Inr (True, s')" using al s'(1) by simp
    then show ?thesis using s'(2,3) card_alive_less [OF assms(2) s'(3) i s'(4)] by blast
  next
    case False
    then have "shutdown_first w mt ts onlyIdle (i # L) s = shutdown_first w mt ts onlyIdle L s" using al by auto
    then show ?thesis using Cons by simp
  qed
qed (use assms in \<open>auto intro: exI [of _ False]\<close>)

lemma shutdown_good:
  assumes "term_good w k mt" "books w s" "card (alive_ids s) \<le> k"
  shows "\<exists>b s'. shutdown_with w mt cat ts onlyIdle s = Inr (b, s') \<and> books w s' \<and> evolves s s' \<and>
    (b \<longrightarrow> card (alive_ids s') < card (alive_ids s))"
proof -
  have "tbl_ok machine_keys (machines s)" using assms(2) by (simp add: books_def machines_ok_def)
  then have "set (lookup_all (machines s) (Machine_hardware_and_os p)) \<subseteq> alive_ids s" for p
    by (auto simp: machine_index.in_lookup_iff machine_keys_def alive_ids_def split: if_splits)
  from shutdown_first_good [OF assms this] show ?thesis by (simp add: shutdown_with_def Let_def)
qed

lemma shutdown_check_fold_good:
  assumes "term_good w k mt" "books w s" "card (alive_ids s) \<le> k"
  shows "\<exists>b s'. foldR (\<lambda>cat (shutDownAny, s).
        if mc_desired (get_category s cat) < mc_booted (get_category s cat)
        then bindR (shutdown_with w mt cat ts True s) (\<lambda>(b, s'). Inr (shutDownAny \<or> b, s'))
        else Inr (shutDownAny, s)) L (a, s) = Inr (b, s') \<and> books w s' \<and> evolves s s' \<and>
     (b \<and> \<not> a \<longrightarrow> card (alive_ids s') < card (alive_ids s))"
  using assms(2,3)
proof (induction L arbitrary: a s)
  case (Cons c L)
  obtain b s1 where sh: "shutdown_with w mt c ts True s = Inr (b, s1)" "books w s1" "evolves s s1"
      "b \<longrightarrow> card (alive_ids s1) < card (alive_ids s)"
    using shutdown_good [OF assms(1) Cons.prems] by metis
  define go where "go \<longleftrightarrow> mc_desired (get_category s c) < mc_booted (get_category s c)"
  define a2 where "a2 = (if go then a \<or> b else a)"
  define s2 where "s2 = (if go then s1 else s)"
  have 2: "books w s2" "evolves s s2" "a2 \<and> \<not> a \<longrightarrow> card (alive_ids s2) < card (alive_ids s)"
    using sh Cons.prems by (auto simp: s2_def a2_def)
  have le: "card (alive_ids s2) \<le> card (alive_ids s)" using card_alive_le [OF Cons.prems(1) 2(2)] .
  then have "card (alive_ids s2) \<le> k" using Cons.prems(2) by simp
  from Cons.IH [OF 2(1) this, of a2] obtain b' s' where
    3: "foldR (\<lambda>cat (shutDownAny, s).
        if mc_desired (get_category s cat) < mc_booted (get_category s cat)
        then bindR (shutdown_with w mt cat ts True s) (\<lambda>(b, s'). Inr (shutDownAny \<or> b, s'))
        else Inr (shutDownAny, s)) L (a2, s2) = Inr (b', s')"
      "books w s'" "evolves s2 s'" "b' \<and> \<not> a2 \<longrightarrow> card (alive_ids s') < card (alive_ids s2)" by blast
  have "card (alive_ids s') \<le> card (alive_ids s2)" using card_alive_le [OF 2(1) 3(3)] .
  then have "b' \<and> \<not> a \<longrightarrow> card (alive_ids s') < card (alive_ids s)" using 2(3) 3(4) le by linarith
  moreover have "evolves s s'" using 2(2) 3(3) by (rule evolves_trans)
  ultimately show ?case using 3(1,2) sh(1) by (auto simp: go_def a2_def s2_def)
qed simp

lemma shutdown_loop_good:
  assumes "term_good w k mt"
  shows "books w s \<Longrightarrow> card (alive_ids s) \<le> k \<Longrightarrow> card (alive_ids s) < n \<Longrightarrow>
    \<exists>s'. shutdownMachinesIfNecessary_with w mt n ts s = Inr s' \<and> books w s' \<and> evolves s s'"
proof (induction n arbitrary: s)
  case (Suc n)
  obtain b s1 where c: "shutdown_check_with w mt ts s = Inr (b, s1)" "books w s1" "evolves s s1"
      "b \<longrightarrow> card (alive_ids s1) < card (alive_ids s)"
    using shutdown_check_fold_good [OF assms Suc.prems(1,2)] unfolding shutdown_check_with_def by blast
  show ?case
  proof (cases b)
    case True
    with c Suc.prems have "card (alive_ids s1) \<le> k" "card (alive_ids s1) < n" by auto
    from Suc.IH [OF c(2) this] c True show ?thesis using evolves_trans by auto
  qed (use c in simp)
qed simp

lemma cancelDeployment_good:
  assumes "term_good w k mt" "books w s" "card (alive_ids s) \<le> k" "card (alive_ids s) < n"
    "rows (deployments s) i = Some d"
  shows "\<exists>s'. cancelDeployment_with w mt n ts i s = Inr s' \<and> books w s' \<and> evolves s s' \<and>
    (\<exists>d'. rows (deployments s') i = Some d' \<and> \<not> de_isAlive d')"
proof (cases "de_isAlive d")
  case False
  then show ?thesis using assms by (auto simp: cancelDeployment_with_def get_deployment_def Let_def)
next
  case True
  then obtain p where p: "machineCategoryPairForTest w (get_test s (de_test d)) = Inr p"
    using assms(2,5) unfolding books_def deployments_ok_def by blast
  obtain cat s1 where cat: "machineCategoryForPair p s = (cat, s1)" by fastforce
  define s2 where "s2 = upd_category cat (\<lambda>c. c\<lparr>mc_desired := mc_desired c - 1\<rparr>) s1"
  define s3 where "s3 = addDeploymentMessage i (SessionTerminated ts) s2"
  define s4 where "s4 = upd_deployment i (\<lambda>d. d\<lparr>de_isAlive := False\<rparr>) s3"
  have 1: "books w s1" "evolves s s1" using categoryForPair_books [OF assms(2) cat] by auto
  have 2: "books w s2" "evolves s1 s2"
    using upd_category_books [OF 1(1), of "\<lambda>c. c\<lparr>mc_desired := mc_desired c - 1\<rparr>" cat] by (auto simp: s2_def)
  have 3: "books w s3" "evolves s2 s3" using message_books [OF 2(1)] by (auto simp: s3_def)
  have 4: "books w s4" "evolves s3 s4"
    using upd_deployment_books [OF 3(1), of "\<lambda>d. d\<lparr>de_isAlive := False\<rparr>" i]
    by (auto simp: s4_def deployment_le_def)
  have e4: "evolves s s4" using 1 2 3 4 evolves_trans by blast
  define stop where "stop = (\<lambda>s4. case de_machine d of None \<Rightarrow> Inr s4
      | Some m \<Rightarrow> let s5 = upd_machine m (\<lambda>r. r\<lparr>ma_lastTestCompleted := ts\<rparr>) s4
          in if is_vm (ma_os (get_machine s5 m)) then terminateMachine_with w mt m ts s5 else Inr s5)"
  have "\<exists>s6. stop s4 = Inr s6 \<and> books w s6 \<and> evolves s4 s6"
  proof (cases "de_machine d")
    case (Some m)
    define s5 where "s5 = upd_machine m (\<lambda>r. r\<lparr>ma_lastTestCompleted := ts\<rparr>) s4"
    have 5: "books w s5" "evolves s4 s5"
      using upd_machine_books [OF 4(1), of "\<lambda>r. r\<lparr>ma_lastTestCompleted := ts\<rparr>" m] by (auto simp: s5_def)
    have e5: "evolves s s5" using e4 5(2) by (rule evolves_trans)
    have "rows (machines s) m \<noteq> None" using assms(2,5) Some by (auto simp: books_def deployments_ok_def)
    then have "rows (machines s5) m \<noteq> None" using evolves_rows(1) [OF e5] by blast
    moreover have "card (alive_ids s5) \<le> k" using card_alive_le [OF assms(2) e5] assms(3) by simp
    ultimately obtain s6 where "terminateMachine_with w mt m ts s5 = Inr s6" "books w s6" "evolves s5 s6"
      using terminate_good [OF assms(1) 5(1), of m ts] by blast
    then show ?thesis using 5 Some evolves_trans by (auto simp: stop_def Let_def s5_def [symmetric])
  qed (use 4(1) in \<open>simp add: stop_def\<close>)
  then obtain s6 where 6: "stop s4 = Inr s6" "books w s6" "evolves s4 s6" by blast
  define s7 where "s7 = scheduleBootCheck s6"
  have 7: "books w s7" "evolves s6 s7" using bootCheck_books [OF 6(2)] by (auto simp: s7_def)
  have e7: "evolves s s7" using e4 6(3) 7(2) evolves_trans by blast
  have "card (alive_ids s7) \<le> card (alive_ids s)" by (rule card_alive_le [OF assms(2) e7])
  then obtain s' where s': "shutdownMachinesIfNecessary_with w mt n ts s7 = Inr s'" "books w s'" "evolves s7 s'"
    using shutdown_loop_good [OF assms(1) 7(1), of n ts] assms(3,4) by auto
  have "cancelDeployment_with w mt n ts i s = Inr s'"
    by (simp only: cancelDeployment_with_def get_deployment_def machineCategoryForTest_def Let_def
      assms(5) option.case True p cat bindR.simps prod.case simp_thms if_False
      s2_def [symmetric] s3_def [symmetric] s4_def [symmetric])
     (simp only: 6(1) [unfolded stop_def Let_def] s7_def [symmetric] s'(1) bindR.simps)
  moreover have "evolves s s'" using e7 s'(3) by (rule evolves_trans)
  moreover have "\<exists>d'. rows (deployments s') i = Some d' \<and> \<not> de_isAlive d'"
  proof -
    obtain d3 where "rows (deployments s3) i = Some d3"
      using evolves_rows(3) [OF _ assms(5)] 1 2 3 evolves_trans by blast
    then have r: "rows (deployments s4) i = Some (d3\<lparr>de_isAlive := False\<rparr>)" by (simp add: s4_def upd_deployment_def)
    have "evolves s4 s'" using 6(3) 7(2) s'(3) evolves_trans by blast
    from evolves_rows(3) [OF this r] show ?thesis by (auto simp: deployment_le_def)
  qed
  ultimately show ?thesis using s'(2) by blast
qed

lemma kill_books:
  assumes "books w s" "rows (machines s) i = Some m" "ma_isAlive m"
  defines "s1 \<equiv> upd_machine i (\<lambda>m. m\<lparr>ma_isAlive := False\<rparr>) s"
  shows "\<exists>c. machineCategoryForPair (ma_hardware m, ma_os m) s1 = (c, s1) \<and>
    (let s3 = upd_category c (\<lambda>c. c\<lparr>mc_booted := mc_booted c - 1\<rparr>) s1 in
       books w s3 \<and> evolves s s3 \<and> i \<notin> alive_ids s3 \<and> 0 \<le> mc_booted (get_category s3 c))"
proof -
  let ?p = "(ma_hardware m, ma_os m)"
  let ?M = "tbl_modify machine_keys i (\<lambda>m. m\<lparr>ma_isAlive := False\<rparr>) (machines s)"
  have ok: "categories_ok (categories s) (machines s) (next_id s)" and mok: "machines_ok (machines s) (next_id s)"
    using assms(1) by (auto simp: books_def)
  have C: "categories s1 = categories s" and M1: "machines s1 = ?M" by (auto simp: s1_def upd_machine_def)
  obtain c r where c: "rows (categories s) c = Some r" "(mc_hardware r, mc_os r) = ?p"
    using ok assms(2,3) unfolding categories_ok_def by metis
  have t: "tbl_ok category_keys (categories s)" using ok by (simp add: categories_ok_def)
  have "lookup_any (categories s) (Category_hardware_and_os ?p) = Some c"
  proof (cases "lookup_any (categories s) (Category_hardware_and_os ?p)")
    case None
    from category_index.lookup_any_NoneD [OF t None c(1)] c(2) show ?thesis by (simp add: category_keys_def)
  next
    case (Some d)
    from category_index.lookup_anyD [OF t this] obtain r' where
      "rows (categories s) d = Some r'" "(mc_hardware r', mc_os r') = ?p"
      by (auto simp: category_keys_def split: if_splits)
    with c ok have "d = c" unfolding categories_ok_def by metis
    with Some show ?thesis by simp
  qed
  then have look: "machineCategoryForPair ?p s1 = (c, s1)" by (simp add: machineCategoryForPair_def C)
  define s3 where "s3 = upd_category c (\<lambda>c. c\<lparr>mc_booted := mc_booted c - 1\<rparr>) s1"
  let ?S = "\<lambda>M q. {j. \<exists>m. rows M j = Some m \<and> ma_isAlive m \<and> (ma_hardware m, ma_os m) = q}"
  have S: "?S ?M q = (if q = ?p then ?S (machines s) q - {i} else ?S (machines s) q)" for q
    using assms(2) by (auto split: if_splits)
  have fin: "finite (?S (machines s) q)" for q
    by (rule finite_subset [OF _ finite_alive [OF mok]]) (auto simp: alive_ids_def)
  have "i \<in> ?S (machines s) ?p" using assms(2,3) by blast
  then have one: "card (?S (machines s) ?p - {i}) = card (?S (machines s) ?p) - 1" "0 < card (?S (machines s) ?p)"
    using fin [of ?p] by (simp_all only: card_Diff_singleton) (simp only: card_gt_0_iff, blast)
  have cnt: "int (machine_count ?M q) = int (machine_count (machines s) q) - (if q = ?p then 1 else 0)" for q
  proof (cases "q = ?p")
    case True
    have "int (card (?S (machines s) ?p) - 1) = int (card (?S (machines s) ?p)) - 1" using one(2) by linarith
    then show ?thesis by (simp only: machine_count_def S True refl if_True one(1))
  qed (simp only: machine_count_def S if_False diff_zero)
  have M3: "machines s3 = ?M" and R3: "runs s3 = runs s" and D3: "deployments s3 = deployments s"
    and n3: "next_id s3 = next_id s" and T3: "tests s3 = tests s" "tasks s3 = tasks s"
    by (auto simp: s3_def upd_category_def M1) (auto simp: s1_def upd_machine_def)
  have g3: "get_test s3 = get_test s" by (simp add: get_test_def T3 fun_eq_iff)
  have C3: "rows (categories s3) j = (if j = c then Some (r\<lparr>mc_booted := mc_booted r - 1\<rparr>) else rows (categories s) j)" for j
    using c(1) by (simp add: s3_def upd_category_def C)
  have old: "rows (categories s3) j = Some x \<Longrightarrow> \<exists>x0. rows (categories s) j = Some x0 \<and>
      mc_hardware x = mc_hardware x0 \<and> mc_os x = mc_os x0 \<and>
      mc_booted x = mc_booted x0 - (if j = c then 1 else 0)" for j x
    using c(1) by (auto simp: C3 split: if_splits)
  have isc: "(mc_hardware x0, mc_os x0) = ?p \<longleftrightarrow> j = c" if "rows (categories s) j = Some x0" for j x0
    using that c ok unfolding categories_ok_def by (metis option.inject)
  have "categories_ok (categories s3) ?M (next_id s)"
    unfolding categories_ok_def
  proof (intro conjI allI impI)
    show "tbl_ok category_keys (categories s3)"
      using t by (simp add: s3_def upd_category_def C category_index.ok_modify)
    show "rows (categories s3) j = None" if "next_id s \<le> j" for j
      using ok that c(1) by (auto simp: categories_ok_def C3)
    show "j = k" if "rows (categories s3) j = Some x" "rows (categories s3) k = Some y"
      "(mc_hardware x, mc_os x) = (mc_hardware y, mc_os y)" for j k x y
      using old [OF that(1)] old [OF that(2)] that(3) ok unfolding categories_ok_def by (metis prod.inject)
    show "mc_booted x = int (machine_count ?M (mc_hardware x, mc_os x))"
      if "rows (categories s3) j = Some x" for j x
    proof -
      from old [OF that] obtain x0 where x0: "rows (categories s) j = Some x0"
        "mc_hardware x = mc_hardware x0" "mc_os x = mc_os x0"
        "mc_booted x = mc_booted x0 - (if j = c then 1 else 0)" by blast
      have "mc_booted x0 = int (machine_count (machines s) (mc_hardware x0, mc_os x0))"
        using ok x0(1) unfolding categories_ok_def by blast
      then show ?thesis using isc [OF x0(1)] by (simp only: x0(2-4) cnt)
    qed
    show "\<exists>k x. rows (categories s3) k = Some x \<and> (mc_hardware x, mc_os x) = (ma_hardware m', ma_os m')"
      if m': "rows ?M j = Some m'" "ma_isAlive m'" for j m'
    proof -
      have "rows (machines s) j = Some m'" using m' by (auto split: if_splits)
      then obtain k x where k: "rows (categories s) k = Some x" "(mc_hardware x, mc_os x) = (ma_hardware m', ma_os m')"
        using ok m'(2) unfolding categories_ok_def by metis
      show ?thesis
        by (rule exI [of _ k], cases "k = c") (use k c(1) in \<open>auto simp: C3\<close>)
    qed
  qed
  moreover have "tasks_inv s3" using assms(1) tasks_inv_frame [of s s3] by (simp add: books_def T3 n3)
  ultimately have b3: "books w s3"
    using assms(1) machines_ok_modify [OF mok] by (simp add: books_def M3 R3 D3 n3 g3 refs_modify)
  have "rel_option machine_le (rows (machines s) j) (rows ?M j)" for j
    by (rule rel_option_modify; simp add: machine_le_def)
  then have e3: "evolves s s3" by (simp add: evolves_def M3 R3 D3 n3 T3)
  have "i \<notin> alive_ids s3" using assms(2) by (auto simp: alive_ids_def M3)
  moreover have "0 \<le> mc_booted (get_category s3 c)"
    using b3 C3 [of c] by (simp add: books_def categories_ok_def get_category_def)
  ultimately show ?thesis using look b3 e3 by (auto simp: s3_def Let_def)
qed

definition quiet :: "oid \<Rightarrow> 'm mgr \<Rightarrow> bool" where
  "quiet i s \<longleftrightarrow> (\<forall>j r. rows (runs s) j = Some r \<longrightarrow> run_machine r = Some i \<longrightarrow> \<not> is_running r) \<and>
     (\<forall>j d. rows (deployments s) j = Some d \<longrightarrow> de_machine d = Some i \<longrightarrow> \<not> de_isAlive d)"

lemma foldR_evolves:
  assumes step: "\<And>x u. x \<in> set xs \<Longrightarrow> books w u \<Longrightarrow> evolves s u \<Longrightarrow>
      \<exists>v. f x u = Inr v \<and> books w v \<and> evolves u v \<and> Q x v"
    and stable: "\<And>x u v. Q x u \<Longrightarrow> evolves u v \<Longrightarrow> Q x v"
    and "books w s"
  shows "\<exists>t. foldR f xs s = Inr t \<and> books w t \<and> evolves s t \<and> (\<forall>x\<in>set xs. Q x t)"
proof -
  have "\<exists>t. foldR f ys u = Inr t \<and> books w t \<and> evolves u t \<and> (\<forall>x\<in>set ys. Q x t)"
    if "set ys \<subseteq> set xs" "books w u" "evolves s u" for ys u
    using that
  proof (induction ys arbitrary: u)
    case (Cons x ys)
    from step [OF _ Cons.prems(2,3)] Cons.prems(1) obtain v where
      v: "f x u = Inr v" "books w v" "evolves u v" "Q x v" by auto
    have "evolves s v" using Cons.prems(3) v(3) by (rule evolves_trans)
    from Cons.IH [OF _ v(2) this] Cons.prems(1) obtain t where
      t: "foldR f ys v = Inr t" "books w t" "evolves v t" "\<forall>x\<in>set ys. Q x t" by auto
    have "evolves u t" "Q x t" using v(3,4) t(3) evolves_trans stable by blast+
    then show ?case using v(1) t by auto
  qed simp
  from this [of xs s] show ?thesis using assms(3) by simp
qed

lemma machineTerminated_good:
  assumes "books w s" "rows (machines s) i = Some m" "card (alive_ids s) \<le> k" "k < depth"
  shows "\<exists>s'. machineTerminated w depth (ma_machineId m) ts s = Inr s' \<and> books w s' \<and> evolves s s' \<and>
    i \<notin> alive_ids s' \<and> (ma_isAlive m \<longrightarrow> quiet i s')"
  using assms
proof (induction depth arbitrary: s i m ts k)
  case (Suc depth)
  have mok: "machines_ok (machines s) (next_id s)" using Suc.prems(1) by (simp add: books_def)
  have one: "lookup_one (machines s) (Machine_machineId (ma_machineId m)) = Inr i"
    by (rule machine_index.lookup_oneI [of _ _ m])
      (use mok Suc.prems(2) in \<open>auto simp: machines_ok_def machine_keys_def split: if_splits\<close>)
  have gm: "get_machine s i = m" using Suc.prems(2) by (simp add: get_machine_def)
  show ?case
  proof (cases "ma_isAlive m")
    case False
    then have "machineTerminated w (Suc depth) (ma_machineId m) ts s = Inr s" by (simp add: one gm)
    then show ?thesis using Suc.prems(1,2) False by (auto simp: alive_ids_def)
  next
    case True
    define s1 where "s1 = upd_machine i (\<lambda>m. m\<lparr>ma_isAlive := False\<rparr>) s"
    from kill_books [OF Suc.prems(1,2) True] obtain c where
      c: "machineCategoryForPair (ma_hardware m, ma_os m) s1 = (c, s1)"
      and k3: "let s3 = upd_category c (\<lambda>c. c\<lparr>mc_booted := mc_booted c - 1\<rparr>) s1 in
       books w s3 \<and> evolves s s3 \<and> i \<notin> alive_ids s3 \<and> 0 \<le> mc_booted (get_category s3 c)"
      unfolding s1_def by blast
    define s3 where "s3 = upd_category c (\<lambda>c. c\<lparr>mc_booted := mc_booted c - 1\<rparr>) s1"
    have 3: "books w s3" "evolves s s3" "i \<notin> alive_ids s3" "\<not> mc_booted (get_category s3 c) < 0"
      using k3 by (auto simp: s3_def Let_def)
    have "i \<in> alive_ids s" using True Suc.prems(2) by (simp add: alive_ids_def)
    then have "card (alive_ids s3) < card (alive_ids s)"
      using card_alive_less [OF Suc.prems(1) 3(2)] 3(3) by blast
    then have "card (alive_ids s3) < depth" using Suc.prems(3,4) by linarith
    then obtain k' where k': "card (alive_ids s3) \<le> k'" "k' < depth" by blast
    have good: "term_good w k' (machineTerminated w depth)"
      unfolding term_good_def
    proof (intro allI impI)
      fix u j ts' assume u: "books w u" "rows (machines u) j \<noteq> None" "card (alive_ids u) \<le> k'"
      then obtain mj where mj: "rows (machines u) j = Some mj" by blast
      then have "get_machine u j = mj" by (simp add: get_machine_def)
      with Suc.IH [OF u(1) mj u(3) k'(2), of ts']
      show "\<exists>s'. machineTerminated w depth (ma_machineId (get_machine u j)) ts' u = Inr s' \<and>
        books w s' \<and> evolves u s' \<and> j \<notin> alive_ids s'" by blast
    qed
    let ?R = "lookup_all (runs s3) (Run_runningOnMachine (Some i))"
    have rok: "runs_ok (runs s3) (machines s3)" using 3(1) by (simp add: books_def)
    have inR: "j \<in> set ?R \<longleftrightarrow> (\<exists>r. rows (runs s3) j = Some r \<and> is_running r \<and> run_machine r = Some i)" for j
      using rok by (auto simp: runs_ok_def run_index.in_lookup_iff run_keys_def split: if_splits)
    have "\<exists>s4. foldR (cancelTestRun_with w (machineTerminated w depth) ts) ?R s3 = Inr s4 \<and> books w s4 \<and>
      evolves s3 s4 \<and> (\<forall>j\<in>set ?R. \<exists>r. rows (runs s4) j = Some r \<and> run_canceled r)"
    proof (rule foldR_evolves)
      fix j u assume j: "j \<in> set ?R" and u: "books w u" "evolves s3 u"
      from j obtain r where r: "rows (runs s3) j = Some r" "is_running r" using inR by blast
      then have "run_endTimestamp r = 0" using rok by (auto simp: runs_ok_def)
      moreover obtain r' where "rows (runs u) j = Some r'" "run_le r r'" using evolves_rows(2) [OF u(2) r(1)] by blast
      moreover have "card (alive_ids u) \<le> k'" using card_alive_le [OF 3(1) u(2)] k'(1) by simp
      ultimately show "\<exists>v. cancelTestRun_with w (machineTerminated w depth) ts j u = Inr v \<and> books w v \<and>
          evolves u v \<and> (\<exists>r. rows (runs v) j = Some r \<and> run_canceled r)"
        using cancelRun_good [OF good u(1)] by (simp add: run_le_def)
    next
      fix j and u v :: "'m mgr"
      assume "\<exists>r. rows (runs u) j = Some r \<and> run_canceled r" "evolves u v"
      then show "\<exists>r. rows (runs v) j = Some r \<and> run_canceled r"
        using evolves_rows(2) [of u v j] unfolding run_le_def by blast
    qed (rule 3(1))
    then obtain s4 where 4: "foldR (cancelTestRun_with w (machineTerminated w depth) ts) ?R s3 = Inr s4"
      "books w s4" "evolves s3 s4" "\<forall>j\<in>set ?R. \<exists>r. rows (runs s4) j = Some r \<and> run_canceled r" by blast
    have c4: "card (alive_ids s4) \<le> k'" using card_alive_le [OF 3(1) 4(3)] k'(1) by simp
    let ?D = "lookup_all (deployments s4) (Deployment_runningOnMachine (Some i))"
    have inD: "j \<in> set ?D \<longleftrightarrow> (\<exists>d. rows (deployments s4) j = Some d \<and> de_isAlive d \<and> de_machine d = Some i)" for j
      using 4(2) by (auto simp: books_def deployments_ok_def deployment_index.in_lookup_iff deployment_keys_def
        split: if_splits)
    have "\<exists>s5. foldR (cancelDeployment_with w (machineTerminated w depth) (Suc depth) ts) ?D s4 = Inr s5 \<and>
      books w s5 \<and> evolves s4 s5 \<and> (\<forall>j\<in>set ?D. \<exists>d. rows (deployments s5) j = Some d \<and> \<not> de_isAlive d)"
    proof (rule foldR_evolves)
      fix j u assume j: "j \<in> set ?D" and u: "books w u" "evolves s4 u"
      from j obtain d where "rows (deployments s4) j = Some d" using inD by blast
      then obtain d' where d': "rows (deployments u) j = Some d'" using evolves_rows(3) [OF u(2)] by blast
      have cu: "card (alive_ids u) \<le> k'" using card_alive_le [OF 4(2) u(2)] c4 by simp
      show "\<exists>v. cancelDeployment_with w (machineTerminated w depth) (Suc depth) ts j u = Inr v \<and> books w v \<and>
          evolves u v \<and> (\<exists>d. rows (deployments v) j = Some d \<and> \<not> de_isAlive d)"
        by (rule cancelDeployment_good [OF good u(1) cu _ d']) (use cu k'(2) in simp)
    next
      fix j and u v :: "'m mgr"
      assume "\<exists>d. rows (deployments u) j = Some d \<and> \<not> de_isAlive d" "evolves u v"
      then show "\<exists>d. rows (deployments v) j = Some d \<and> \<not> de_isAlive d"
        using evolves_rows(3) [of u v j] unfolding deployment_le_def by blast
    qed (rule 4(2))
    then obtain s5 where 5: "foldR (cancelDeployment_with w (machineTerminated w depth) (Suc depth) ts) ?D s4 = Inr s5"
      "books w s5" "evolves s4 s5" "\<forall>j\<in>set ?D. \<exists>d. rows (deployments s5) j = Some d \<and> \<not> de_isAlive d" by blast
    define s6 where "s6 = scheduleBootCheck s5"
    have 6: "books w s6" "evolves s5 s6" using bootCheck_books [OF 5(2)] by (auto simp: s6_def)
    have run: "machineTerminated w (Suc depth) (ma_machineId m) ts s = Inr s6"
      by (simp only: machineTerminated.simps one bindR.simps Let_def gm True simp_thms if_False c prod.case
        s1_def [symmetric] s3_def [symmetric] 3(4) 4(1) 5(1) s6_def)
    have e36: "evolves s3 s6" and e46: "evolves s4 s6" using 4(3) 5(3) 6(2) evolves_trans by blast+
    have e6: "evolves s s6" using 3(2) e36 by (rule evolves_trans)
    have "quiet i s6"
      unfolding quiet_def
    proof (intro conjI allI impI)
      fix j r assume r: "rows (runs s6) j = Some r" "run_machine r = Some i"
      obtain r3 where r3: "rows (runs s3) j = Some r3" "run_le r3 r" using evolves_rows_back(2) [OF e36 r(1)] by blast
      show "\<not> is_running r"
      proof (cases "is_running r3")
        case True
        then have "j \<in> set ?R" using r3 r(2) inR by (auto simp: run_le_def)
        then obtain r4 where "rows (runs s4) j = Some r4" "run_canceled r4" using 4(4) by blast
        then have "run_canceled r" using evolves_rows(2) [OF e46, of j r4] r(1) by (auto simp: run_le_def)
        then show ?thesis by (simp add: is_running_def)
      qed (use r3(2) in \<open>auto simp: is_running_def run_le_def\<close>)
    next
      fix j d assume d: "rows (deployments s6) j = Some d" "de_machine d = Some i"
      obtain d4 where d4: "rows (deployments s4) j = Some d4" "deployment_le d4 d" using evolves_rows_back(3) [OF e46 d(1)] by blast
      show "\<not> de_isAlive d"
      proof
        assume al: "de_isAlive d"
        then have "j \<in> set ?D" using d4 d(2) inD by (auto simp: deployment_le_def)
        then obtain d5 where "rows (deployments s5) j = Some d5" "\<not> de_isAlive d5" using 5(4) by blast
        then show False using evolves_rows(3) [OF 6(2), of j d5] d(1) al by (auto simp: deployment_le_def)
      qed
    qed
    moreover have "i \<notin> alive_ids s6" using evolves_alive [OF e36] 3(3) by blast
    ultimately show ?thesis using run 6(1) e6 by blast
  qed
qed simp

section \<open>Booting keeps the books\<close>

lemma boot_success_books:
  assumes "books w s" "rows (categories s) c = Some r" "ma_isAlive m"
    "(ma_hardware m, ma_os m) = (mc_hardware r, mc_os r)"
    "\<And>j m'. rows (machines s) j = Some m' \<Longrightarrow> ma_machineId m' \<noteq> ma_machineId m"
  shows "books w (upd_category c (\<lambda>c. c\<lparr>mc_booted := mc_booted c + 1\<rparr>) (snd (new_machine m s)))"
proof -
  let ?i = "next_id s" and ?p = "(mc_hardware r, mc_os r)"
  let ?M = "tbl_new machine_keys ?i m (machines s)"
  define s3 where "s3 = upd_category c (\<lambda>c. c\<lparr>mc_booted := mc_booted c + 1\<rparr>) (snd (new_machine m s))"
  have ok: "categories_ok (categories s) (machines s) ?i" and mok: "machines_ok (machines s) ?i"
    using assms(1) by (auto simp: books_def)
  have fresh: "rows (machines s) ?i = None" using mok by (simp add: machines_ok_def)
  let ?S = "\<lambda>M q. {j. \<exists>m. rows M j = Some m \<and> ma_isAlive m \<and> (ma_hardware m, ma_os m) = q}"
  have S: "?S ?M q = (if q = ?p then insert ?i (?S (machines s) q) else ?S (machines s) q)" for q
    using fresh assms(3,4) by (auto split: if_splits)
  have fin: "finite (?S (machines s) q)" for q
    by (rule finite_subset [OF _ finite_alive [OF mok]]) (auto simp: alive_ids_def)
  have one: "card (insert ?i (?S (machines s) ?p)) = Suc (card (?S (machines s) ?p))"
    using fin [of ?p] fresh by (intro card_insert_disjoint) simp_all
  have cnt: "int (machine_count ?M q) = int (machine_count (machines s) q) + (if q = ?p then 1 else 0)" for q
    by (cases "q = ?p") (simp_all only: machine_count_def S refl if_True if_False one of_nat_Suc add_0_right add.commute)
  have M3: "machines s3 = ?M" and R3: "runs s3 = runs s" and D3: "deployments s3 = deployments s"
    and n3: "next_id s3 = Suc ?i" and T3: "tests s3 = tests s" "tasks s3 = tasks s"
    and C3: "categories s3 = tbl_modify category_keys c (\<lambda>c. c\<lparr>mc_booted := mc_booted c + 1\<rparr>) (categories s)"
    by (auto simp: s3_def upd_category_def new_machine_def)
  have g3: "get_test s3 = get_test s" by (simp add: get_test_def T3 fun_eq_iff)
  have old: "rows (categories s3) j = Some x \<Longrightarrow> \<exists>x0. rows (categories s) j = Some x0 \<and>
      mc_hardware x = mc_hardware x0 \<and> mc_os x = mc_os x0 \<and>
      mc_booted x = mc_booted x0 + (if j = c then 1 else 0)" for j x
    by (auto simp: C3 split: if_splits)
  have new: "rows (categories s) j = Some x0 \<Longrightarrow> \<exists>x. rows (categories s3) j = Some x \<and>
      (mc_hardware x, mc_os x) = (mc_hardware x0, mc_os x0)" for j x0
    by (auto simp: C3)
  have isc: "(mc_hardware x0, mc_os x0) = ?p \<longleftrightarrow> j = c" if "rows (categories s) j = Some x0" for j x0
    using that assms(2) ok unfolding categories_ok_def by (metis option.inject)
  have "categories_ok (categories s3) ?M (Suc ?i)"
    unfolding categories_ok_def
  proof (intro conjI allI impI)
    show "tbl_ok category_keys (categories s3)"
      using ok by (simp add: C3 categories_ok_def category_index.ok_modify)
    show "rows (categories s3) j = None" if "Suc ?i \<le> j" for j
      using ok that by (auto simp: categories_ok_def C3)
    show "j = k" if "rows (categories s3) j = Some x" "rows (categories s3) k = Some y"
      "(mc_hardware x, mc_os x) = (mc_hardware y, mc_os y)" for j k x y
      using old [OF that(1)] old [OF that(2)] that(3) ok unfolding categories_ok_def by (metis prod.inject)
    show "mc_booted x = int (machine_count ?M (mc_hardware x, mc_os x))"
      if "rows (categories s3) j = Some x" for j x
    proof -
      from old [OF that] obtain x0 where x0: "rows (categories s) j = Some x0"
        "mc_hardware x = mc_hardware x0" "mc_os x = mc_os x0"
        "mc_booted x = mc_booted x0 + (if j = c then 1 else 0)" by blast
      have "mc_booted x0 = int (machine_count (machines s) (mc_hardware x0, mc_os x0))"
        using ok x0(1) unfolding categories_ok_def by blast
      then show ?thesis using isc [OF x0(1)] by (simp only: x0(2-4) cnt)
    qed
    show "\<exists>k x. rows (categories s3) k = Some x \<and> (mc_hardware x, mc_os x) = (ma_hardware m', ma_os m')"
      if m': "rows ?M j = Some m'" "ma_isAlive m'" for j m'
    proof (cases "j = ?i")
      case True
      then show ?thesis using new [OF assms(2)] m'(1) assms(4) by auto
    next
      case False
      then have "rows (machines s) j = Some m'" using m'(1) by simp
      then obtain k x0 where "rows (categories s) k = Some x0" "(mc_hardware x0, mc_os x0) = (ma_hardware m', ma_os m')"
        using ok m'(2) unfolding categories_ok_def by metis
      then show ?thesis using new by metis
    qed
  qed
  moreover have "tasks_inv s3" using assms(1) tasks_inv_frame [of s s3] by (simp add: books_def T3 n3)
  moreover have "machines_ok ?M (Suc ?i)"
    using mok fresh
    by (auto simp: machines_ok_def machine_index.ok_new split: if_splits dest: assms(5) assms(5) [THEN not_sym])
  moreover have "runs_ok (runs s) ?M" using assms(1) by (auto simp: books_def runs_ok_def)
  moreover have "deployments_ok w (deployments s) ?M (get_test s)"
    using assms(1) by (auto simp: books_def deployments_ok_def)
  ultimately have "books w s3" by (simp add: books_def M3 R3 D3 n3 g3)
  then show ?thesis by (simp only: s3_def)
qed

lemma triggers_books: "books w s \<Longrightarrow> books w (fold triggerTestPriorityUpdate ts s)"
  by (induction ts arbitrary: s) (simp_all add: trigger_books)

lemma boot_books:
  assumes "books w s" "rows (categories s) c = Some r"
    "\<And>h os x id x' j m'. w_boot_worker w h os x = (Booted id, x') \<Longrightarrow> rows (machines s) j = Some m' \<Longrightarrow>
       ma_machineId m' \<noteq> id"
  shows "books w (snd (boot w c ts s))"
proof -
  obtain res mm where b: "w_boot_worker w (mc_hardware r) (mc_os r) (machine_management s) = (res, mm)" by fastforce
  have gc: "get_category s c = r" using assms(2) by (simp add: get_category_def)
  let ?s1 = "s\<lparr>machine_management := mm\<rparr>"
  have 1: "books w ?s1" using management_books [OF assms(1)] by blast
  show ?thesis
  proof (cases res)
    case (Booted mid)
    let ?m = "default_machine\<lparr>ma_machineId := mid, ma_hardware := mc_hardware r, ma_bootTime := ts,
      ma_os := mc_os r, ma_isAlive := True\<rparr>"
    have "books w (upd_category c (\<lambda>c. c\<lparr>mc_booted := mc_booted c + 1\<rparr>) (snd (new_machine ?m ?s1)))"
      by (rule boot_success_books [OF 1, of c r]) (use assms(2,3) b Booted in auto)
    then show ?thesis using b Booted by (simp add: boot_def gc Let_def)
  next
    case Unbootable
    then show ?thesis using b upd_category_books [OF 1] by (simp add: boot_def gc Let_def triggers_books)
  next
    case (BootFailed e)
    then show ?thesis using b 1 by (simp add: boot_def gc Let_def)
  qed
qed

definition fresh_rows :: "'m mgr \<Rightarrow> bool" where
  "fresh_rows s \<longleftrightarrow> (\<forall>i\<ge>next_id s. rows (runs s) i = None \<and> rows (deployments s) i = None)"

lemma evolves_fresh:
  assumes "evolves s s'" "fresh_rows s"
  shows "fresh_rows s'"
proof -
  have "next_id s \<le> next_id s'" using assms(1) by (simp add: evolves_def)
  then show ?thesis
    using assms(2) evolves_rows_back(2,3) [OF assms(1)] unfolding fresh_rows_def
    by (metis le_trans not_None_eq)
qed

lemma new_deployment_books:
  assumes "books w s" "de_machine d = None" "machineCategoryPairForTest w (get_test s (de_test d)) = Inr p"
    "fresh_rows s"
  shows "books w (snd (new_deployment d s))"
proof -
  let ?s = "snd (new_deployment d s)"
  have f: "machines ?s = machines s" "runs ?s = runs s" "tests ?s = tests s" "categories ?s = categories s"
    "tasks ?s = tasks s" "next_id ?s = Suc (next_id s)"
    "deployments ?s = tbl_new deployment_keys (next_id s) d (deployments s)"
    by (simp_all add: new_deployment_def)
  have "get_test ?s = get_test s" by (simp add: get_test_def f fun_eq_iff)
  moreover have "deployments_ok w (deployments ?s) (machines s) (get_test s)"
    using assms unfolding books_def deployments_ok_def f fresh_rows_def
    by (auto simp: deployment_index.ok_new split: if_splits)
  moreover have "tasks_inv ?s" using assms(1) tasks_inv_frame [of s ?s] by (simp add: books_def f)
  ultimately show ?thesis using assms(1) by (simp add: books_def f machines_ok_def categories_ok_def)
qed

lemma createDeployment_books:
  assumes "books w s" "fresh_rows s" "createDeployment w hash ts s = Inr (d, s')"
  shows "books w s' \<and> fresh_rows s'"
proof -
  obtain t cat s1 where t: "lookup_any (tests s) (Test_hash hash) = Some t"
    and c: "machineCategoryForTest w t s = Inr (cat, s1)"
    and r: "d = fst (new_deployment (default_deployment\<lparr>de_test := t, de_createdTimestamp := ts, de_isAlive := True\<rparr>) s1)"
    and s': "s' = scheduleBootCheck (addDeploymentMessage d (WaitingForHardware hash)
       (upd_category cat (\<lambda>c. c\<lparr>mc_desired := mc_desired c + 1\<rparr>)
         (snd (new_deployment (default_deployment\<lparr>de_test := t, de_createdTimestamp := ts, de_isAlive := True\<rparr>) s1))))"
    using assms(3) by (auto simp: createDeployment_def bindR_Inr_conv Let_def split: option.splits if_splits prod.splits)
  obtain p where p: "machineCategoryPairForTest w (get_test s t) = Inr p" "machineCategoryForPair p s = (cat, s1)"
    using c by (auto simp: machineCategoryForTest_def bindR_Inr_conv)
  have 1: "books w s1" "evolves s s1" using categoryForPair_books [OF assms(1) p(2)] by auto
  have "tests s1 = tests s" using p(2) by (auto simp: machineCategoryForPair_def new_category_def split: option.splits)
  then have "get_test s1 t = get_test s t" by (simp add: get_test_def)
  define s2 where "s2 = snd (new_deployment (default_deployment\<lparr>de_test := t, de_createdTimestamp := ts, de_isAlive := True\<rparr>) s1)"
  have f1: "fresh_rows s1" using evolves_fresh [OF 1(2) assms(2)] .
  have 2: "books w s2"
    unfolding s2_def by (rule new_deployment_books [OF 1(1)])
      (use p(1) f1 \<open>get_test s1 t = get_test s t\<close> in \<open>auto simp: default_deployment_def\<close>)
  have f2: "fresh_rows s2" using f1 by (auto simp: s2_def fresh_rows_def new_deployment_def)
  define s3 where "s3 = upd_category cat (\<lambda>c. c\<lparr>mc_desired := mc_desired c + 1\<rparr>) s2"
  have 3: "books w s3" "evolves s2 s3"
    using upd_category_books [OF 2, of "\<lambda>c. c\<lparr>mc_desired := mc_desired c + 1\<rparr>" cat] by (auto simp: s3_def)
  define s4 where "s4 = addDeploymentMessage d (WaitingForHardware hash) s3"
  have 4: "books w s4" "evolves s3 s4" using message_books [OF 3(1)] by (auto simp: s4_def)
  have 5: "books w s'" "evolves s4 s'" using bootCheck_books [OF 4(1)] by (auto simp: s' s4_def s3_def s2_def)
  show ?thesis using 5(1) evolves_fresh [OF 5(2) evolves_fresh [OF 4(2) evolves_fresh [OF 3(2) f2]]] by blast
qed

section \<open>Every reachable state\<close>

inductive machine_reachable :: "'m world \<Rightarrow> 'm mgr \<Rightarrow> bool" for w where
  start: "rows (machines s) = Map.empty \<Longrightarrow> rows (categories s) = Map.empty \<Longrightarrow> rows (runs s) = Map.empty \<Longrightarrow>
    rows (deployments s) = Map.empty \<Longrightarrow> db_ok s \<Longrightarrow> tasks_inv s \<Longrightarrow> machine_reachable w s"
| category: "machine_reachable w s \<Longrightarrow> machineCategoryForTest w t s = Inr (c, s') \<Longrightarrow> machine_reachable w s'"
| desire: "machine_reachable w s \<Longrightarrow> machine_reachable w (upd_category c (\<lambda>c. c\<lparr>mc_desired := n\<rparr>) s)"
| boot: "machine_reachable w s \<Longrightarrow> rows (categories s) c = Some r \<Longrightarrow>
    (\<And>h os x id x' j m'. w_boot_worker w h os x = (Booted id, x') \<Longrightarrow> rows (machines s) j = Some m' \<Longrightarrow>
       ma_machineId m' \<noteq> id) \<Longrightarrow> machine_reachable w (snd (boot w c ts s))"
| heartbeat: "machine_reachable w s \<Longrightarrow> machine_reachable w (machineHeartbeat mid ts msg s)"
| terminated: "machine_reachable w s \<Longrightarrow> rows (machines s) i = Some m \<Longrightarrow> card (alive_ids s) < depth \<Longrightarrow>
    machineTerminated w depth (ma_machineId m) ts s = Inr s' \<Longrightarrow> machine_reachable w s'"
| shut_down: "machine_reachable w s \<Longrightarrow> card (alive_ids s) < depth \<Longrightarrow>
    shutdownMachinesIfNecessary w depth ts s = Inr s' \<Longrightarrow> machine_reachable w s'"
| deploy: "machine_reachable w s \<Longrightarrow> createDeployment w h ts s = Inr (d, s') \<Longrightarrow> machine_reachable w s'"
| undeploy: "machine_reachable w s \<Longrightarrow> card (alive_ids s) < depth \<Longrightarrow>
    cancelDeployment w depth ts d s = Inr s' \<Longrightarrow> machine_reachable w s'"

lemma machineTerminated_term_good: "k < depth \<Longrightarrow> term_good w k (machineTerminated w depth)"
  unfolding term_good_def using machineTerminated_good by (fastforce simp: get_machine_def)

lemma recordHeartbeat_books:
  assumes "books w s"
  shows "books w (recordHeartbeat m ts msg s)" "alive_ids (recordHeartbeat m ts msg s) = alive_ids s"
    "runs (recordHeartbeat m ts msg s) = runs s" "deployments (recordHeartbeat m ts msg s) = deployments s"
    "next_id (recordHeartbeat m ts msg s) = next_id s" "tests (recordHeartbeat m ts msg s) = tests s"
proof -
  have "ma_machineId (machineHeartbeat_row ts msg r) = ma_machineId r" "ma_hardware (machineHeartbeat_row ts msg r) = ma_hardware r"
    "ma_os (machineHeartbeat_row ts msg r) = ma_os r" "ma_isAlive (machineHeartbeat_row ts msg r) = ma_isAlive r" for r
    by (simp_all add: machineHeartbeat_row_def Let_def)
  from upd_machine_books [OF assms this, of m]
  show "books w (recordHeartbeat m ts msg s)" "alive_ids (recordHeartbeat m ts msg s) = alive_ids s"
    unfolding recordHeartbeat_def by blast+
qed (simp_all add: recordHeartbeat_def upd_machine_def)

lemma heartbeat_books:
  "books w s \<Longrightarrow> books w (machineHeartbeat mid ts msg s)"
  "fresh_rows s \<Longrightarrow> fresh_rows (machineHeartbeat mid ts msg s)"
  by (auto simp: machineHeartbeat_def recordHeartbeat_books(1) split: option.split)
    (auto simp: fresh_rows_def recordHeartbeat_def upd_machine_def)

lemma start_books:
  assumes "rows (machines s) = Map.empty" "rows (categories s) = Map.empty" "rows (runs s) = Map.empty"
    "rows (deployments s) = Map.empty" "db_ok s" "tasks_inv s"
  shows "books w s" "fresh_rows s"
  using assms by (auto simp: books_def fresh_rows_def machines_ok_def categories_ok_def runs_ok_def
      deployments_ok_def db_ok_def)

lemma triggers_rows:
  "runs (fold triggerTestPriorityUpdate ts s) = runs s"
  "deployments (fold triggerTestPriorityUpdate ts s) = deployments s"
  "next_id s \<le> next_id (fold triggerTestPriorityUpdate ts s)"
proof (induction ts arbitrary: s)
  case (Cons t ts)
  {
    case 1 show ?case using Cons(1) by (simp add: triggerTestPriorityUpdate_def queueTask_tables)
  next
    case 2 show ?case using Cons(2) by (simp add: triggerTestPriorityUpdate_def queueTask_tables)
  next
    case 3
    have "next_id s \<le> next_id (triggerTestPriorityUpdate t s)"
      by (simp add: triggerTestPriorityUpdate_def queueTask_tables)
    also have "\<dots> \<le> next_id (fold triggerTestPriorityUpdate ts (triggerTestPriorityUpdate t s))" by (rule Cons(3))
    finally show ?case by simp
  }
qed simp_all

lemma boot_rows:
  "runs (snd (boot w c ts s)) = runs s" "deployments (snd (boot w c ts s)) = deployments s"
  "next_id s \<le> next_id (snd (boot w c ts s))"
  by (auto simp: boot_def Let_def triggers_rows(1,2) upd_category_def new_machine_def
      split: boot_result.split prod.split intro: order_trans [OF _ triggers_rows(3)])

lemma machine_reachable_books: "machine_reachable w s \<Longrightarrow> books w s \<and> fresh_rows s"
proof (induction rule: machine_reachable.induct)
  case (start s)
  then show ?case using start_books by blast
next
  case (category s t c s')
  then obtain p where "machineCategoryForPair p s = (c, s')"
    by (auto simp: machineCategoryForTest_def bindR_Inr_conv)
  with categoryForPair_books category.IH evolves_fresh show ?case by blast
next
  case (desire s c n)
  then show ?case using upd_category_books [of w s "\<lambda>c. c\<lparr>mc_desired := n\<rparr>" c] evolves_fresh by auto
next
  case (boot s c r ts)
  then have "fresh_rows (snd (boot w c ts s))"
    using boot_rows [where w = w and c = c and ts = ts and s = s] by (simp add: fresh_rows_def)
  with boot boot_books [of w s c r ts] show ?case by blast
next
  case (heartbeat s mid ts msg)
  then show ?case using heartbeat_books by blast
next
  case (terminated s i m depth ts s')
  then obtain t where "machineTerminated w depth (ma_machineId m) ts s = Inr t" "books w t" "evolves s t"
    using machineTerminated_good [of w s i m "card (alive_ids s)" depth ts] by auto
  with terminated evolves_fresh show ?case by auto
next
  case (shut_down s depth ts s')
  then obtain t where "shutdownMachinesIfNecessary w depth ts s = Inr t" "books w t" "evolves s t"
    using shutdown_loop_good [OF machineTerminated_term_good [of "card (alive_ids s)" depth w], of s "Suc depth" ts]
    by (auto simp: shutdownMachinesIfNecessary_def)
  with shut_down evolves_fresh show ?case by auto
next
  case (deploy s h ts d s')
  then show ?case using createDeployment_books by blast
next
  case (undeploy s depth ts d s')
  show ?case
  proof (cases "rows (deployments s) d")
    case None
    then have "s' = s" using undeploy.hyps by (simp add: cancelDeployment_def cancelDeployment_with_def
        get_deployment_def default_deployment_def)
    then show ?thesis using undeploy.IH by simp
  next
    case (Some r)
    then obtain t where "cancelDeployment w depth ts d s = Inr t" "books w t" "evolves s t"
      using cancelDeployment_good [OF machineTerminated_term_good [of "card (alive_ids s)" depth w], of s "Suc depth" d r ts]
        undeploy by (auto simp: cancelDeployment_def)
    with undeploy evolves_fresh show ?thesis by auto
  qed
qed

section \<open>Properties\<close>

text \<open>C1: Terminating a machine always succeeds. Whatever runs on it, and however many other machines
  the cancellations take down with it, \<open>_machineTerminated\<close> raises no assertion, does not recurse
  deeper than the number of machines alive, leaves the machine dead and revives no other, leaves
  nothing running on it, and the numbers of booted machines of all categories stay exact.\<close>

theorem terminating_a_machine_succeeds:
  assumes "books w s" "rows (machines s) i = Some m" "card (alive_ids s) < depth"
  shows "\<exists>s'. machineTerminated w depth (ma_machineId m) ts s = Inr s' \<and> books w s' \<and>
    i \<notin> alive_ids s' \<and> alive_ids s' \<subseteq> alive_ids s \<and> (ma_isAlive m \<longrightarrow> quiet i s') \<and>
    (\<forall>c r. rows (categories s') c = Some r \<longrightarrow>
       mc_booted r = int (machine_count (machines s') (mc_hardware r, mc_os r)))"
proof -
  obtain s' where s': "machineTerminated w depth (ma_machineId m) ts s = Inr s'" "books w s'" "evolves s s'"
    "i \<notin> alive_ids s'" "ma_isAlive m \<longrightarrow> quiet i s'"
    using machineTerminated_good [OF assms(1,2) order_refl assms(3)] by blast
  then show ?thesis using evolves_alive [OF s'(3)]
    by (intro exI [of _ s']) (auto simp: books_def categories_ok_def)
qed

definition demo_hardware :: "hardware \<times> os_config" where
  "demo_hardware = (\<lparr>cores = 2, ram_gb = 8\<rparr>, LinuxWithDocker)"

definition demo_fleet :: "nat mgr" where
  "demo_fleet = snd (boot demo_world 0 5 (snd (machineCategoryForPair demo_hardware (new_manager 1 0))))"

lemma demo_fleet_reachable: "machine_reachable demo_world demo_fleet"
proof -
  let ?s = "snd (machineCategoryForPair demo_hardware (new_manager 1 0)) :: nat mgr"
  have 0: "machine_reachable demo_world (new_manager 1 0)"
    by (rule machine_reachable.start)
      (simp_all add: db_ok_new_manager tasks_inv_new_manager, simp_all add: new_manager_def empty_tbl_def)
  have "machineCategoryPairForTest demo_world (get_test (new_manager 1 0 :: nat mgr) 0) = Inr demo_hardware"
    by code_simp
  then have "machineCategoryForTest demo_world 0 (new_manager 1 0) = Inr (machineCategoryForPair demo_hardware (new_manager 1 0))"
    by (simp add: machineCategoryForTest_def)
  then have 1: "machine_reachable demo_world ?s"
    using machine_reachable.category [OF 0] by (metis prod.collapse)
  have no: "rows (machines ?s) j = None" for j
    by (simp add: machineCategoryForPair_def new_category_def new_manager_def lookup_any_def empty_tbl_def)
  show ?thesis
    unfolding demo_fleet_def
  proof (rule machine_reachable.boot [OF 1])
    show "rows (categories ?s) 0 = Some (get_category ?s 0)" by code_simp
  qed (use no in \<open>simp only: option.distinct\<close>)
qed

theorem terminating_a_machine_succeeds_witness:
  "\<exists>s'. machineTerminated demo_world 2 ''m'' 9 demo_fleet = Inr s' \<and> alive_ids s' = {}"
proof -
  define m where "m = get_machine demo_fleet 1"
  have m: "rows (machines demo_fleet) 1 = Some m" "ma_machineId m = ''m''"
    unfolding m_def by code_simp+
  have only: "alive_ids demo_fleet \<subseteq> {1}"
    by (auto simp: alive_ids_def demo_fleet_def boot_def machineCategoryForPair_def new_category_def
      new_manager_def new_machine_def upd_category_def Let_def lookup_any_def empty_tbl_def demo_world_def
      split: if_splits)
  then have "card (alive_ids demo_fleet) < 2"
    using card_mono [OF _ only] by simp
  from terminating_a_machine_succeeds [OF machine_reachable_books [OF demo_fleet_reachable, THEN conjunct1] m(1) this, of 9]
  obtain s' where "machineTerminated demo_world 2 ''m'' 9 demo_fleet = Inr s'" "1 \<notin> alive_ids s'"
    "alive_ids s' \<subseteq> alive_ids demo_fleet" unfolding m(2) by blast
  then show ?thesis using only by blast
qed



text \<open>C15: The hardware chosen for a test is one of the configured ones and has the cores and the memory
  the test asks for. With a limit on the cores it stays within the limit if any suitable hardware does;
  without a limit it has the fewest cores possible. When no hardware is suitable the code raises an
  \<open>AttributeError\<close>, and that is the only case in which it raises.\<close>

theorem hardware_chosen_for_test:
  "case machineCategoryPairForTest w t of
     Inl e \<Rightarrow> e = AttributeError \<and>
       (\<forall>hw\<in>set (w_hardware_configs w). cores hw < sm_min_cores (ts_summary t) \<or> ram_gb hw < sm_min_ram_gb (ts_summary t))
   | Inr (hw, os) \<Rightarrow> os = sm_machineOs (ts_summary t) \<and> hw \<in> set (w_hardware_configs w) \<and>
       sm_min_cores (ts_summary t) \<le> cores hw \<and> sm_min_ram_gb (ts_summary t) \<le> ram_gb hw \<and>
       (\<forall>hw'\<in>set (w_hardware_configs w). sm_min_cores (ts_summary t) \<le> cores hw' \<longrightarrow>
          sm_min_ram_gb (ts_summary t) \<le> ram_gb hw' \<longrightarrow>
          (if sm_max_cores (ts_summary t) = 0 then cores hw \<le> cores hw'
           else cores hw' \<le> sm_max_cores (ts_summary t) \<longrightarrow> cores hw \<le> sm_max_cores (ts_summary t)))"
proof -
  let ?sm = "ts_summary t"
  define V where "V = filter (\<lambda>hw. cores hw \<ge> sm_min_cores ?sm \<and> ram_gb hw \<ge> sm_min_ram_gb ?sm) (w_hardware_configs w)"
  have inV: "hw \<in> set V \<longleftrightarrow> hw \<in> set (w_hardware_configs w) \<and> sm_min_cores ?sm \<le> cores hw \<and> sm_min_ram_gb ?sm \<le> ram_gb hw" for hw
    by (auto simp: V_def)
  show ?thesis
  proof (cases "V = []")
    case True
    then have "machineCategoryPairForTest w t = Inl AttributeError" by (simp add: machineCategoryPairForTest_def Let_def V_def)
    then show ?thesis using True by (auto simp: V_def filter_empty_conv not_le)
  next
    case False
    then have hd: "hd V \<in> set V" by simp
    show ?thesis
    proof (cases "sm_max_cores ?sm = 0")
      case True
      have "sort_key cores V \<noteq> []" using False by (metis set_empty set_sort)
      then obtain h hs where e: "sort_key cores V = h # hs" by (cases "sort_key cores V") auto
      have "set V = set (h # hs)" by (simp only: e [symmetric] set_sort)
      moreover have "sorted (map cores (h # hs))" by (simp only: e [symmetric] sorted_sort_key)
      ultimately have "hd (sort_key cores V) \<in> set V" "\<forall>h\<in>set V. cores (hd (sort_key cores V)) \<le> cores h"
        by (auto simp: e)
      then show ?thesis using True False
        by (simp add: machineCategoryPairForTest_def Let_def flip: V_def) (auto simp: inV)
    next
      case nz: False
      define S where "S = filter (\<lambda>x. cores x \<le> sm_max_cores ?sm) V"
      have "S \<noteq> [] \<Longrightarrow> last S \<in> set S" by simp
      then have l: "S \<noteq> [] \<Longrightarrow> last S \<in> set V \<and> cores (last S) \<le> sm_max_cores ?sm" by (auto simp: S_def)
      show ?thesis using nz False hd l inV [of "hd V"]
        by (cases "S = []") (simp_all add: machineCategoryPairForTest_def Let_def flip: V_def S_def, auto simp: inV S_def filter_empty_conv)
    qed
  qed
qed

definition demo_test :: "int \<Rightarrow> test_row" where
  "demo_test n = default_test\<lparr>ts_summary := default_summary\<lparr>sm_min_cores := n\<rparr>\<rparr>"

theorem hardware_chosen_for_test_witness:
  "machineCategoryPairForTest demo_world (demo_test 100) = Inl AttributeError"
proof -
  have "machineCategoryPairForTest demo_world (demo_test 100) \<noteq> Inr p" for p
  proof
    assume "machineCategoryPairForTest demo_world (demo_test 100) = Inr p"
    with hardware_chosen_for_test [of demo_world "demo_test 100"]
    show False by (cases p) (auto simp: demo_world_def demo_test_def)
  qed
  with hardware_chosen_for_test [of demo_world "demo_test 100"] show ?thesis
    by (cases "machineCategoryPairForTest demo_world (demo_test 100)") auto
qed

end
