(* ===== verification/Macro_Expansion.thy ===== *)
theory Macro_Expansion
  imports Algebraic_Json Variable_Substitution "HOL-Library.List_Lexorder" "HOL-Library.Char_ord"
begin

text \<open>
  The macro language of test definition files: \<open>MacroExpander\<close> and \<open>IncludesMacroExpander\<close> of
  \<open>data_model/TestDefinitionScript.py\<close> and the processing of the \<open>define\<close> clauses at the top of
  a file. The expander is given the depth of recursion the interpreter allows; \<open>expansion_ends\<close>
  shows that a depth of twice the size of the document is enough.
\<close>

type_synonym pydict = "(pyval \<times> pyval) list"

section \<open>Text of numbers\<close>

text \<open>\<open>str(x)\<close> of a float: twelve significant digits, trailing zeros dropped.\<close>

definition round_half_even :: "rat \<Rightarrow> int" where
  "round_half_even r =
     (let f = \<lfloor>r\<rfloor>; d = r - of_int f in
      if d < 1 / 2 \<or> d = 1 / 2 \<and> even f then f else f + 1)"

definition decimal_exponent :: "rat \<Rightarrow> int" where
  "decimal_exponent r =
     (let (p, q) = quotient_of r;
          e = int (length (digits (nat p))) - int (length (digits (nat q)))
      in if r \<ge> (if e \<ge> 0 then 10 ^ nat e else 1 / 10 ^ nat (- e)) then e else e - 1)"

definition scale10 :: "rat \<Rightarrow> int \<Rightarrow> rat" where
  "scale10 r e = (if e \<ge> 0 then r * 10 ^ nat e else r / 10 ^ nat (- e))"

definition strip_zeros :: "string \<Rightarrow> string" where
  "strip_zeros s = rev (dropWhile (\<lambda>c. c = CHR ''0'') (rev s))"

definition str_positive :: "rat \<Rightarrow> string" where
  "str_positive r =
     (let e0 = decimal_exponent r;
          m0 = round_half_even (scale10 r (11 - e0));
          (e, m) = (if m0 \<ge> 10 ^ 12 then (e0 + 1, m0 div 10) else (e0, m0));
          ds = digits (nat m);
          point = (\<lambda>whole frac. let f = strip_zeros frac in
            if f = '''' then whole @ ''.0'' else whole @ ''.'' @ f)
      in if e < - 4 \<or> e \<ge> 12 then
           (let f = strip_zeros (drop 1 ds); x = digits (nat \<bar>e\<bar>) in
            take 1 ds @ (if f = '''' then '''' else ''.'' @ f) @ ''e'' @
            (if e < 0 then ''-'' else ''+'') @ (if length x < 2 then ''0'' @ x else x))
         else if e \<ge> 0 then point (take (Suc (nat e)) ds) (drop (Suc (nat e)) ds)
         else point ''0'' (replicate (nat (- e) - 1) (CHR ''0'') @ ds))"

definition str_float :: "rat \<Rightarrow> string" where
  "str_float r = (if r = 0 then ''0.0'' else if r < 0 then ''-'' @ str_positive (- r)
     else str_positive r)"

section \<open>Helpers\<close>

fun flatten :: "pyval \<Rightarrow> pyval list" where
  "flatten (VList xs) = concat (map flatten xs)"
| "flatten v = [v]"

text \<open>Every choice of a value for each key; a value is anything that can be iterated over.\<close>

fun dictionary_cross_product :: "pydict \<Rightarrow> pydict list res" where
  "dictionary_cross_product [] = Inr [[]]"
| "dictionary_cross_product ((key, vs) # kv_pairs) =
     bindR (dictionary_cross_product kv_pairs) (\<lambda>subs.
     case py_iter vs of
       None \<Rightarrow> Inl TypeError
     | Some values \<Rightarrow> Inr (concat (map (\<lambda>v. map (\<lambda>s. dict_set key v s) subs) values)))"

definition has_key :: "pyval \<Rightarrow> pydict \<Rightarrow> bool" where
  "has_key k d \<longleftrightarrow> (\<exists>p \<in> set d. py_eq (fst p) k)"

text \<open>Adding a binding that must be new.\<close>

definition put_new :: "pyval \<times> pyval \<Rightarrow> pydict \<Rightarrow> pydict res" where
  "put_new = (\<lambda>(k, v) d. if has_key k d then Inl (UserException ''defined twice'')
     else dict_put k v d)"

definition dict_item :: "string \<Rightarrow> pydict \<Rightarrow> pyval" where
  "dict_item name d = (case dict_get name d of None \<Rightarrow> VNone | Some v \<Rightarrow> v)"

text \<open>\<open>sorted(json.keys()) == [...]\<close>.\<close>

definition keys_are :: "string list \<Rightarrow> pydict \<Rightarrow> bool" where
  "keys_are ks d \<longleftrightarrow> length d = length ks \<and> (\<forall>k \<in> set ks. dict_get k d \<noteq> None)"

fun contains :: "string \<Rightarrow> string \<Rightarrow> bool" where
  "contains p [] = (p = [])"
| "contains p (c # cs) = (starts_with p (c # cs) \<or> contains p cs)"

section \<open>The expander\<close>

text \<open>The text that replaces a variable, unless its value is a list, an object or nothing.\<close>

definition replacement_text :: "pyval \<Rightarrow> string option" where
  "replacement_text v = (case v of
     VInt i \<Rightarrow> Some (str_int i)
   | VBool b \<Rightarrow> Some (if b then ''True'' else ''False'')
   | VFloat r \<Rightarrow> Some (str_float r)
   | VStr s \<Rightarrow> Some s
   | _ \<Rightarrow> None)"

fun expand_string :: "(string \<times> pyval) list \<Rightarrow> string \<Rightarrow> pyval res" where
  "expand_string [] s = Inr (VStr s)"
| "expand_string ((k, v) # vs) s = (case replacement_text v of
     Some t \<Rightarrow> expand_string vs (py_replace (reference k) t s)
   | None \<Rightarrow>
       if contains (reference k) s then
         (if s = reference k then Inr v else Inl (UserException ''non-string value''))
       else expand_string vs s)"

definition sorted_variables :: "pydict \<Rightarrow> (string \<times> pyval) list res" where
  "sorted_variables d =
     (if \<exists>p \<in> set d. key_name (fst p) = None then Inl TypeError
      else Inr (sort_key fst (map (\<lambda>(k, v). (the (key_name k), v)) d)))"

type_synonym expander = "pyval \<Rightarrow> pydict \<Rightarrow> bool \<Rightarrow> pyval res"

definition expand_define :: "expander \<Rightarrow> pydict \<Rightarrow> pydict \<Rightarrow> bool \<Rightarrow> pyval res" where
  "expand_define ex d vars isVarDef =
     bindR (ex (dict_item ''define'' d) vars True) (\<lambda>defs. case defs of
       VDict items \<Rightarrow> bindR (foldR put_new items vars) (\<lambda>to_use.
         ex (dict_item ''in'' d) to_use isVarDef)
     | _ \<Rightarrow> Inl AttributeError)"

definition squash :: "pydict \<Rightarrow> pyval \<Rightarrow> pyval res" where
  "squash squashover child = (case child of
     VDict c \<Rightarrow> bindR (foldR put_new squashover c) (\<lambda>c'. Inr (VDict c'))
   | _ \<Rightarrow> Inl (UserException ''not a dict''))"

text \<open>\<open>flatten\<close> makes a list of a single child too, so the result is always a list.\<close>

definition expand_squash :: "expander \<Rightarrow> pydict \<Rightarrow> pydict \<Rightarrow> bool \<Rightarrow> pyval res" where
  "expand_squash ex d vars isVarDef =
     bindR (ex (dict_item ''squash'' d) vars True) (\<lambda>so. case so of
       VDict squashover \<Rightarrow> bindR (ex (dict_item ''over'' d) vars isVarDef) (\<lambda>over.
         bindR (mapR (squash squashover) (flatten over)) (\<lambda>cs. Inr (VList cs)))
     | _ \<Rightarrow> Inl (UserException ''not a dict''))"

definition int_of :: "pyval \<Rightarrow> int option" where
  "int_of v = (case v of VInt i \<Rightarrow> Some i | VBool b \<Rightarrow> Some (if b then 1 else 0) | _ \<Rightarrow> None)"

text \<open>\<open>lookup_in[to_lookup]\<close> guarded by \<open>to_lookup in lookup_in\<close>.\<close>

definition case_lookup :: "pyval \<Rightarrow> pyval \<Rightarrow> pyval res" where
  "case_lookup to_lookup lookup_in = (case lookup_in of
     VDict d \<Rightarrow>
       if \<not> hashable to_lookup then Inl TypeError
       else (case find (\<lambda>p. py_eq (fst p) to_lookup) d of
         None \<Rightarrow> Inl (UserException ''lookup key'') | Some p \<Rightarrow> Inr (snd p))
   | VList xs \<Rightarrow>
       if \<not> (\<exists>x \<in> set xs. py_eq x to_lookup) then Inl (UserException ''lookup key'')
       else (case int_of to_lookup of
         None \<Rightarrow> Inl TypeError
       | Some i \<Rightarrow> if 0 \<le> i then nthR xs (nat i)
                  else if - i \<le> int (length xs) then nthR xs (nat (int (length xs) + i))
                  else Inl IndexError)
   | VStr s \<Rightarrow> (case key_name to_lookup of
         None \<Rightarrow> Inl TypeError
       | Some t \<Rightarrow> Inl (if contains t s then TypeError else UserException ''lookup key''))
   | _ \<Rightarrow> Inl TypeError)"

definition expand_case :: "expander \<Rightarrow> pydict \<Rightarrow> pydict \<Rightarrow> bool \<Rightarrow> pyval res" where
  "expand_case ex d vars isVarDef =
     bindR (ex (dict_item ''case'' d) vars isVarDef) (\<lambda>to_lookup.
     bindR (ex (dict_item ''in'' d) vars isVarDef) (\<lambda>lookup_in.
     case_lookup to_lookup lookup_in))"

definition merge_lists :: "pyval list \<Rightarrow> pyval res" where
  "merge_lists ms = bindR (foldR (\<lambda>m res. case m of
       VList xs \<Rightarrow> Inr (res @ xs) | _ \<Rightarrow> Inl (UserException ''not a list'')) ms [])
     (\<lambda>res. Inr (VList res))"

definition merge_objects :: "pyval list \<Rightarrow> pyval res" where
  "merge_objects ms = bindR (foldR (\<lambda>m res. case m of
       VDict d \<Rightarrow> foldR put_new d res | _ \<Rightarrow> Inl (UserException ''not a dict'')) ms [])
     (\<lambda>res. Inr (VDict res))"

definition expand_merge :: "expander \<Rightarrow> pydict \<Rightarrow> pydict \<Rightarrow> bool \<Rightarrow> pyval res" where
  "expand_merge ex d vars isVarDef = (case dict_item ''merge'' d of
     VList items \<Rightarrow> bindR (mapR (\<lambda>i. ex i vars isVarDef) items) (\<lambda>ms.
       case ms of
         [] \<Rightarrow> Inl AssertionError
       | VList _ # _ \<Rightarrow> merge_lists ms
       | VDict _ # _ \<Rightarrow> merge_objects ms
       | _ \<Rightarrow> Inl (UserException ''merge''))
   | _ \<Rightarrow> Inl AssertionError)"

text \<open>One round of a \<open>foreach\<close>: \<open>res\<close> is \<open>None\<close>, an object or a list.\<close>

definition add_expanded :: "pyval \<Rightarrow> pyval \<Rightarrow> pyval res" where
  "add_expanded expanded res = (case expanded of
     VDict d \<Rightarrow> (case (if res = VNone then VDict [] else res) of
         VDict r \<Rightarrow> bindR (foldR put_new d r) (\<lambda>r'. Inr (VDict r'))
       | VList xs \<Rightarrow> (if d = [] then Inr (VList xs)
           else if \<exists>x \<in> set xs. py_eq x (fst (hd d)) then Inl (UserException ''defined twice'')
           else Inl TypeError)
       | _ \<Rightarrow> Inl TypeError)
   | VList ys \<Rightarrow> (case (if res = VNone then VList [] else res) of
         VList xs \<Rightarrow> Inr (VList (xs @ ys))
       | _ \<Rightarrow> Inl AttributeError)
   | _ \<Rightarrow> Inr res)"

definition repeat_step ::
    "expander \<Rightarrow> pyval \<Rightarrow> pydict \<Rightarrow> bool \<Rightarrow> pyval \<Rightarrow> pyval \<Rightarrow> pyval res" where
  "repeat_step ex body vars isVarDef item res = (case item of
     VStr _ \<Rightarrow> Inl (UserException ''repeat a string'')
   | VDict subs \<Rightarrow> bindR (foldR put_new subs vars) (\<lambda>to_use.
       bindR (ex body to_use isVarDef) (\<lambda>expanded. add_expanded expanded res))
   | _ \<Rightarrow> Inl AttributeError)"

definition repeat_items :: "pyval \<Rightarrow> pyval list res" where
  "repeat_items over = (case over of
     VDict d \<Rightarrow> bindR (dictionary_cross_product d) (\<lambda>ds. Inr (map VDict ds))
   | _ \<Rightarrow> Inr (flatten over))"

definition is_container :: "pyval \<Rightarrow> bool" where
  "is_container v = (case v of VDict _ \<Rightarrow> True | VList _ \<Rightarrow> True | _ \<Rightarrow> False)"

definition expand_repeat :: "expander \<Rightarrow> pydict \<Rightarrow> pydict \<Rightarrow> bool \<Rightarrow> pyval res" where
  "expand_repeat ex d vars isVarDef =
     (let body = dict_item ''repeat'' d in
      bindR (assertR (is_container body) AssertionError) (\<lambda>_.
      bindR (ex (dict_item ''foreach'' d) vars True) (\<lambda>over.
      bindR (repeat_items over) (\<lambda>items.
      foldR (repeat_step ex body vars isVarDef) items VNone))))"

definition expand_items :: "expander \<Rightarrow> pydict \<Rightarrow> pydict \<Rightarrow> bool \<Rightarrow> pyval res" where
  "expand_items ex d vars isVarDef =
     bindR (foldR (\<lambda>(k, v) e. bindR (ex v vars isVarDef) (\<lambda>v'.
       bindR (ex k vars isVarDef) (\<lambda>k'. dict_put k' v' e))) d []) (\<lambda>e. Inr (VDict e))"

definition macro_step :: "expander \<Rightarrow> expander" where
  "macro_step ex json0 vars isVarDef = bindR (to_str json0) (\<lambda>json. case json of
     VStr s \<Rightarrow> bindR (sorted_variables vars) (\<lambda>vs. expand_string vs s)
   | VList xs \<Rightarrow> bindR (mapR (\<lambda>x. ex x vars isVarDef) xs) (\<lambda>ys. Inr (VList ys))
   | VDict d \<Rightarrow>
       if keys_are [''define'', ''in''] d then expand_define ex d vars isVarDef
       else if keys_are [''over'', ''squash''] d then expand_squash ex d vars isVarDef
       else if keys_are [''case'', ''in''] d then expand_case ex d vars isVarDef
       else if keys_are [''merge''] d then expand_merge ex d vars isVarDef
       else if keys_are [''foreach'', ''repeat''] d then expand_repeat ex d vars isVarDef
       else expand_items ex d vars isVarDef
   | _ \<Rightarrow> Inr json)"

definition dict_update :: "pydict \<Rightarrow> pyval \<Rightarrow> pydict res" where
  "dict_update d v = (case v of
     VDict e \<Rightarrow> foldR (\<lambda>(k, x). dict_put k x) e d
   | _ \<Rightarrow> (case py_iter v of
       None \<Rightarrow> Inl TypeError
     | Some xs \<Rightarrow> bindR (mapR unpack2 xs) (\<lambda>ps. foldR (\<lambda>(k, x). dict_put k x) ps d)))"

text \<open>\<open>IncludesMacroExpander.expand_macros\<close>: \<open>plain\<close> is a \<open>MacroExpander\<close>.\<close>

definition includes_step :: "expander \<Rightarrow> expander \<Rightarrow> expander" where
  "includes_step plain ex json0 vars isVarDef = bindR (to_str json0) (\<lambda>json. case json of
     VStr s \<Rightarrow>
       if isVarDef then macro_step ex json vars isVarDef
       else bindR (plain json vars False) (\<lambda>path.
         Inr (VDict [(VStr ''path'', path), (VStr ''variables'', VDict vars)]))
   | VDict d \<Rightarrow>
       if keys_are [''path'', ''variables''] d then
         bindR (plain (dict_item ''variables'' d) vars False) (\<lambda>user_variables.
         bindR (dict_update vars user_variables) (\<lambda>final_variables.
         bindR (plain (dict_item ''path'' d) vars False) (\<lambda>path.
         Inr (VDict [(VStr ''path'', path), (VStr ''variables'', VDict final_variables)]))))
       else macro_step ex json vars isVarDef
   | _ \<Rightarrow> macro_step ex json vars isVarDef)"

primrec expand_macros :: "nat \<Rightarrow> expander" where
  "expand_macros 0 = (\<lambda>json vars isVarDef. Inl RecursionError)"
| "expand_macros (Suc n) = macro_step (expand_macros n)"

primrec expand_includes :: "nat \<Rightarrow> expander" where
  "expand_includes 0 = (\<lambda>json vars isVarDef. Inl RecursionError)"
| "expand_includes (Suc n) = includes_step (expand_macros n) (expand_includes n)"

section \<open>A whole file\<close>

text \<open>The \<open>define\<close> clauses at the top; the loop follows the document inwards.\<close>

fun strip_defines :: "nat \<Rightarrow> pyval \<Rightarrow> pydict \<Rightarrow> (pyval \<times> pydict) res" where
  "strip_defines 0 json defs = Inl RecursionError"
| "strip_defines (Suc n) json defs = (case json of
     VDict d \<Rightarrow>
       if keys_are [''define'', ''in''] d then
         bindR (expand_macros n (dict_item ''define'' d) defs True) (\<lambda>new. case new of
           VDict items \<Rightarrow> bindR (foldR put_new items defs) (\<lambda>defs'.
             strip_defines n (dict_item ''in'' d) defs')
         | _ \<Rightarrow> Inl AttributeError)
       else Inr (json, defs)
   | _ \<Rightarrow> Inr (json, defs))"

definition expand_key :: "nat \<Rightarrow> pydict \<Rightarrow> pyval \<times> pyval \<Rightarrow> (pyval \<times> pyval) res" where
  "expand_key n defs = (\<lambda>(k, v).
     bindR (if key_name k \<in> Some ` {''environments'', ''builds'', ''tests'', ''deployments'', ''repos''}
            then expand_macros n v defs False
            else if key_name k = Some ''includes'' then expand_includes n v defs False
            else Inr v) (\<lambda>v'. Inr (k, v')))"

text \<open>The YAML and JSON parsers are libraries: \<open>yaml\<close> and \<open>json\<close> are what they make of a text.\<close>

definition extract_postprocessed_test_definitions ::
    "(string \<Rightarrow> pyval res) \<Rightarrow> (string \<Rightarrow> pyval res) \<Rightarrow> nat \<Rightarrow> string \<Rightarrow> string \<Rightarrow> pydict \<Rightarrow> pyval res" where
  "extract_postprocessed_test_definitions yaml json n extension text defs =
     bindR (if extension = ''.yml'' then yaml text
            else if extension = ''.json'' then json text
            else Inl (UserException ''extension'')) (\<lambda>doc.
     bindR (strip_defines n doc defs) (\<lambda>(doc', defs').
     case doc' of
       VDict d \<Rightarrow> bindR (mapR (expand_key n defs') d) (\<lambda>d'. Inr (VDict d'))
     | _ \<Rightarrow> Inl TypeError))"

section \<open>The expansion ends\<close>

definition no_overflow :: "'a res \<Rightarrow> bool" where
  "no_overflow r \<longleftrightarrow> r \<noteq> Inl RecursionError"

named_theorems no_overflow_intros "calls that do not exceed the depth of recursion"

lemma no_overflow_simps [simp]:
  "no_overflow (Inr v)" "no_overflow (Inl e) \<longleftrightarrow> e \<noteq> RecursionError"
  by (simp_all add: no_overflow_def)

lemma no_overflow_bindR [no_overflow_intros]:
  "no_overflow r \<Longrightarrow> (\<And>v. r = Inr v \<Longrightarrow> no_overflow (f v)) \<Longrightarrow> no_overflow (bindR r f)"
  by (cases r) auto

lemma no_overflow_foldR [no_overflow_intros]:
  "(\<And>x s. x \<in> set xs \<Longrightarrow> no_overflow (f x s)) \<Longrightarrow> no_overflow (foldR f xs s)"
  by (induction xs arbitrary: s) (auto intro: no_overflow_bindR)

lemma no_overflow_mapR [no_overflow_intros]:
  "(\<And>x. x \<in> set xs \<Longrightarrow> no_overflow (f x)) \<Longrightarrow> no_overflow (mapR f xs)"
  by (induction xs) (auto intro!: no_overflow_bindR)

lemma no_overflow_assertR [no_overflow_intros]: "e \<noteq> RecursionError \<Longrightarrow> no_overflow (assertR b e)"
  by (simp add: assertR_def)

lemma no_overflow_put [no_overflow_intros]:
  "no_overflow (dict_put k v d)" "no_overflow (put_new p d)"
  by (auto simp: dict_put_def put_new_def split: prod.splits)

lemma no_overflow_cross_product [no_overflow_intros]: "no_overflow (dictionary_cross_product d)"
  by (induction d rule: dictionary_cross_product.induct)
    (auto intro!: no_overflow_intros split: option.splits)

lemma no_overflow_expand_string [no_overflow_intros]: "no_overflow (expand_string vs s)"
  by (induction vs s rule: expand_string.induct) (auto split: option.splits)

lemma no_overflow_helpers [no_overflow_intros]:
  "no_overflow (to_str v)" "no_overflow (sorted_variables d)" "no_overflow (case_lookup a b)"
  "no_overflow (squash so v)" "no_overflow (merge_lists ms)" "no_overflow (merge_objects ms)"
  "no_overflow (add_expanded e r)" "no_overflow (repeat_items v)" "no_overflow (unpack2 v)"
  "no_overflow (dict_update d v)"
  by (auto simp: to_str_def sorted_variables_def case_lookup_def squash_def merge_lists_def
      merge_objects_def add_expanded_def repeat_items_def unpack2_def dict_update_def nthR_def
      intro!: no_overflow_intros split: pyval.splits option.splits list.splits prod.splits)

text \<open>The expander is called on parts of the document only.\<close>

lemma size_dict_get:
  assumes "dict_get name d = Some v" shows "size v < size (VDict d)"
proof -
  obtain p where "p \<in> set d" "v = snd p"
    using assms unfolding dict_get_def by (metis (no_types, lifting) find_Some_iff map_option_eq_Some nth_mem)
  then show ?thesis using size_item(1) by simp
qed

lemma size_dict_item: "size (dict_item name d) < size (VDict d)"
  using size_dict_get by (auto simp: dict_item_def split: option.splits)

lemma size_to_str: "to_str j = Inr j' \<Longrightarrow> size j' = size j"
  by (auto simp: to_str_def split: pyval.splits if_splits)

definition parts_ok :: "expander \<Rightarrow> nat \<Rightarrow> bool" where
  "parts_ok ex k \<longleftrightarrow> (\<forall>j vars b. size j < k \<longrightarrow> no_overflow (ex j vars b))"

lemma parts_okD: "parts_ok ex k \<Longrightarrow> size j < k \<Longrightarrow> no_overflow (ex j vars b)"
  by (simp add: parts_ok_def)

lemma no_overflow_macro_step:
  assumes "parts_ok ex (size json)"
  shows "no_overflow (macro_step ex json vars b)"
  unfolding macro_step_def
proof (rule no_overflow_bindR)
  fix j assume "to_str json = Inr j"
  then have ok: "parts_ok ex (size j)" using assms size_to_str by simp
  show "no_overflow (case j of VStr s \<Rightarrow> bindR (sorted_variables vars) (\<lambda>vs. expand_string vs s)
   | VList xs \<Rightarrow> bindR (mapR (\<lambda>x. ex x vars b) xs) (\<lambda>ys. Inr (VList ys))
   | VDict d \<Rightarrow>
       if keys_are [''define'', ''in''] d then expand_define ex d vars b
       else if keys_are [''over'', ''squash''] d then expand_squash ex d vars b
       else if keys_are [''case'', ''in''] d then expand_case ex d vars b
       else if keys_are [''merge''] d then expand_merge ex d vars b
       else if keys_are [''foreach'', ''repeat''] d then expand_repeat ex d vars b
       else expand_items ex d vars b
   | _ \<Rightarrow> Inr j)"
  proof (cases j)
    case (VList xs)
    have "size x < size j" if "x \<in> set xs" for x
      using VList that size_elem [of x xs] by simp
    with VList ok show ?thesis by (auto intro!: no_overflow_intros parts_okD [OF ok])
  next
    case (VDict d)
    have item: "size (dict_item name d) < size j" for name using size_dict_item VDict by simp
    have el: "p \<in> set d \<Longrightarrow> size (snd p) < size j \<and> size (fst p) < size j" for p
      using size_item VDict by simp
    have sub: "size x < size j" if "dict_item ''merge'' d = VList xs" "x \<in> set xs" for x xs
      using size_elem [OF that(2)] item [of "''merge''"] that(1) by simp
    note parts = parts_okD [OF ok item] no_overflow_intros
    have 1: "no_overflow (expand_define ex d vars b)" "no_overflow (expand_squash ex d vars b)"
      "no_overflow (expand_case ex d vars b)"
      by (auto simp: expand_define_def expand_squash_def expand_case_def intro!: parts split: pyval.splits)
    have 2: "no_overflow (expand_merge ex d vars b)"
      unfolding expand_merge_def
      by (cases "dict_item ''merge'' d")
        (auto intro!: no_overflow_intros parts_okD [OF ok] sub split: list.splits pyval.splits)
    have 3: "no_overflow (expand_repeat ex d vars b)"
      unfolding expand_repeat_def repeat_step_def Let_def
      by (auto intro!: parts split: pyval.splits)
    have 4: "no_overflow (expand_items ex d vars b)"
      unfolding expand_items_def using el by (auto intro!: no_overflow_intros parts_okD [OF ok])
    show ?thesis using VDict 1 2 3 4 by simp
  qed (auto intro!: no_overflow_intros)
qed (rule no_overflow_intros)

lemma expand_macros_ends: "size json < n \<Longrightarrow> no_overflow (expand_macros n json vars b)"
proof (induction n arbitrary: json vars b)
  case (Suc n)
  then have "parts_ok (expand_macros n) (size json)" by (simp add: parts_ok_def)
  then show ?case by (simp add: no_overflow_macro_step)
qed simp

text \<open>What the expander returns depends on its calls for the parts of the document only.\<close>

definition same_parts :: "expander \<Rightarrow> expander \<Rightarrow> nat \<Rightarrow> bool" where
  "same_parts ex ex' k \<longleftrightarrow> (\<forall>j vars b. size j < k \<longrightarrow> ex j vars b = ex' j vars b)"

lemma same_partsD: "same_parts ex ex' k \<Longrightarrow> size j < k \<Longrightarrow> ex j vars b = ex' j vars b"
  by (simp add: same_parts_def)

lemma repeat_step_same:
  assumes "\<And>vars. ex body vars b = ex' body vars b"
  shows "repeat_step ex body vars b = repeat_step ex' body vars b"
  unfolding repeat_step_def using assms by (auto simp: fun_eq_iff split: pyval.split)

lemma macro_step_same:
  assumes "same_parts ex ex' (size json)"
  shows "macro_step ex json vars b = macro_step ex' json vars b"
  unfolding macro_step_def
proof (rule bindR_cong [OF refl])
  fix j assume "to_str json = Inr j"
  then have ok: "same_parts ex ex' (size j)" using assms size_to_str by simp
  show "(case j of VStr s \<Rightarrow> bindR (sorted_variables vars) (\<lambda>vs. expand_string vs s)
   | VList xs \<Rightarrow> bindR (mapR (\<lambda>x. ex x vars b) xs) (\<lambda>ys. Inr (VList ys))
   | VDict d \<Rightarrow>
       if keys_are [''define'', ''in''] d then expand_define ex d vars b
       else if keys_are [''over'', ''squash''] d then expand_squash ex d vars b
       else if keys_are [''case'', ''in''] d then expand_case ex d vars b
       else if keys_are [''merge''] d then expand_merge ex d vars b
       else if keys_are [''foreach'', ''repeat''] d then expand_repeat ex d vars b
       else expand_items ex d vars b
   | _ \<Rightarrow> Inr j) =
   (case j of VStr s \<Rightarrow> bindR (sorted_variables vars) (\<lambda>vs. expand_string vs s)
   | VList xs \<Rightarrow> bindR (mapR (\<lambda>x. ex' x vars b) xs) (\<lambda>ys. Inr (VList ys))
   | VDict d \<Rightarrow>
       if keys_are [''define'', ''in''] d then expand_define ex' d vars b
       else if keys_are [''over'', ''squash''] d then expand_squash ex' d vars b
       else if keys_are [''case'', ''in''] d then expand_case ex' d vars b
       else if keys_are [''merge''] d then expand_merge ex' d vars b
       else if keys_are [''foreach'', ''repeat''] d then expand_repeat ex' d vars b
       else expand_items ex' d vars b
   | _ \<Rightarrow> Inr j)"
  proof (cases j)
    case (VList xs)
    have "size x < size j" if "x \<in> set xs" for x
      using VList that size_elem [of x xs] by simp
    then have "mapR (\<lambda>x. ex x vars b) xs = mapR (\<lambda>x. ex' x vars b) xs"
      by (intro mapR_cong refl same_partsD [OF ok])
    with VList show ?thesis by simp
  next
    case (VDict d)
    have item: "ex (dict_item name d) = ex' (dict_item name d)" for name
      using same_partsD [OF ok] size_dict_item [of name d] VDict by (simp add: fun_eq_iff)
    have el: "ex (fst p) vars b = ex' (fst p) vars b" "ex (snd p) vars b = ex' (snd p) vars b"
      if "p \<in> set d" for p
      using size_item [OF that] VDict by (auto intro: same_partsD [OF ok])
    have 1: "expand_define ex d vars b = expand_define ex' d vars b"
      "expand_squash ex d vars b = expand_squash ex' d vars b"
      "expand_case ex d vars b = expand_case ex' d vars b"
      by (simp_all only: expand_define_def expand_squash_def expand_case_def item)
    have "mapR (\<lambda>i. ex i vars b) xs = mapR (\<lambda>i. ex' i vars b) xs"
      if "dict_item ''merge'' d = VList xs" for xs
    proof (intro mapR_cong refl same_partsD [OF ok])
      fix x assume "x \<in> set xs"
      then show "size x < size j"
        using size_elem [of x xs] size_dict_item [of "''merge''" d] that VDict by simp
    qed
    then have 2: "expand_merge ex d vars b = expand_merge ex' d vars b"
      unfolding expand_merge_def by (cases "dict_item ''merge'' d") simp_all
    have "repeat_step ex (dict_item ''repeat'' d) vars b = repeat_step ex' (dict_item ''repeat'' d) vars b"
      by (rule repeat_step_same) (simp only: item)
    then have 3: "expand_repeat ex d vars b = expand_repeat ex' d vars b"
      by (simp only: expand_repeat_def Let_def item)
    have 4: "expand_items ex d vars b = expand_items ex' d vars b"
      unfolding expand_items_def
      by (intro bindR_cong foldR_cong refl) (use el in \<open>auto simp: split_def\<close>)
    show ?thesis using VDict 1 2 3 4 by simp
  qed simp_all
qed

lemma expand_macros_same:
  "size json < n \<Longrightarrow> size json < m \<Longrightarrow> expand_macros n json vars b = expand_macros m json vars b"
proof (induction n arbitrary: m json vars b)
  case (Suc n)
  then obtain m' where m: "m = Suc m'" by (cases m) auto
  have "same_parts (expand_macros n) (expand_macros m') (size json)"
    unfolding same_parts_def
  proof (intro allI impI)
    fix j :: pyval and vars b assume "size j < size json"
    then show "expand_macros n j vars b = expand_macros m' j vars b"
      using Suc.prems m by (intro Suc.IH) simp_all
  qed
  from macro_step_same [OF this] show ?case using m by simp
qed simp

text \<open>C35: Expanding the macros of a document always ends: there is one answer, a value or an
  exception other than exceeding the depth of recursion, that every depth above the size of the
  document gives, whatever the variables are bound to.\<close>

theorem expansion_ends:
  "\<exists>r. r \<noteq> Inl RecursionError \<and> (\<forall>n > size json. expand_macros n json vars isVarDef = r)"
proof (intro exI conjI allI impI)
  let ?r = "expand_macros (Suc (size json)) json vars isVarDef"
  show "?r \<noteq> Inl RecursionError"
    using expand_macros_ends [of json "Suc (size json)" vars isVarDef] by (simp add: no_overflow_def)
  show "expand_macros n json vars isVarDef = ?r" if "size json < n" for n
    using expand_macros_same [OF that lessI] .
qed

section \<open>The cross product\<close>

lemma py_eq_sym: "py_eq a b \<longleftrightarrow> py_eq b a"
proof (induction a b rule: py_eq.induct)
  case (1 xs ys)
  have eq: "py_eq (xs ! i) (ys ! i) \<longleftrightarrow> py_eq (ys ! i) (xs ! i)"
    if "length xs = length ys" "i < length xs" for i
    by (rule 1 [of "(xs ! i, ys ! i)"]) (use that in \<open>auto simp: set_zip\<close>)
  have "py_eq (VTuple xs) (VTuple ys) \<longleftrightarrow>
      length xs = length ys \<and> (\<forall>i < length xs. py_eq (xs ! i) (ys ! i))" for xs ys
  proof -
    have "py_eq (VTuple xs) (VTuple ys) \<longleftrightarrow> list_all2 py_eq xs ys" by (simp add: list_all2_iff)
    then show ?thesis by (simp add: list_all2_conv_all_nth)
  qed
  with eq show ?case by metis
qed (auto split: option.splits)

text \<open>C36: The cross product of a dictionary of lists has exactly one dictionary for every way of
  choosing one value per key, in lexicographic order of the choices.\<close>

theorem cross_product_correct:
  assumes "list_all2 (\<lambda>p vals. py_iter (snd p) = Some vals) kv vss" "keys_differ kv"
  shows "dictionary_cross_product kv =
    Inr (map (\<lambda>choice. rev (zip (map fst kv) choice)) (product_lists vss))"
  using assms
proof (induction kv vss rule: list_all2_induct)
  case (Cons p kv vals vss)
  obtain key vs where p: "p = (key, vs)" by (cases p)
  have IH: "dictionary_cross_product kv = Inr (map (\<lambda>c. rev (zip (map fst kv) c)) (product_lists vss))"
    using Cons by (auto simp: keys_differ_def)
  have new: "\<not> py_eq k' key" if "k' \<in> set (map fst kv)" for k'
  proof -
    have "\<not> py_eq key k'" using Cons.prems that by (auto simp: keys_differ_def p)
    then show ?thesis using py_eq_sym by blast
  qed
  have "dict_set key v (rev (zip (map fst kv) c)) = rev (zip (map fst kv) c) @ [(key, v)]" for v c
  proof (rule dict_set_new)
    show "\<forall>p \<in> set (rev (zip (map fst kv) c)). \<not> py_eq (fst p) key"
      using new by (metis in_set_zipE prod.collapse set_rev)
  qed
  then show ?case using IH Cons.hyps p by (simp add: map_concat comp_def)
qed simp

text \<open>A document without macros and variables is unchanged.\<close>

fun macro_free :: "pyval \<Rightarrow> bool" where
  "macro_free (VUni s) = False"
| "macro_free (VList xs) = (\<forall>x \<in> set xs. macro_free x)"
| "macro_free (VDict d) = (keys_differ d \<and> (\<forall>p \<in> set d. (\<exists>s. fst p = VStr s) \<and> macro_free (snd p)) \<and>
     (\<forall>ks \<in> {[''define'', ''in''], [''over'', ''squash''], [''case'', ''in''], [''merge''],
             [''foreach'', ''repeat'']}. \<not> keys_are ks d))"
| "macro_free v = True"

lemma expand_plain_string: "expand_macros (Suc n) (VStr s) [] b = Inr (VStr s)"
  by (simp add: macro_step_def to_str_def sorted_variables_def)

lemma macro_free_unchanged:
  "macro_free json \<Longrightarrow> size json < n \<Longrightarrow> expand_macros n json [] b = Inr json"
proof (induction json arbitrary: n b rule: measure_induct_rule [where f = size])
  case (less json)
  then obtain m where n: "n = Suc m" by (cases n) auto
  show ?case
  proof (cases json)
    case (VList xs)
    have "expand_macros m x [] b = Inr x" if "x \<in> set xs" for x
      using less.IH [of x] less.prems size_elem [OF that] VList that n by simp
    then have "mapR (\<lambda>x. expand_macros m x [] b) xs = Inr xs"
      using mapR_ok [of xs "\<lambda>x. expand_macros m x [] b" id] by simp
    with VList n show ?thesis by (simp add: macro_step_def to_str_def)
  next
    case (VDict d)
    have "foldR (\<lambda>(k, v) e. bindR (expand_macros m v [] b) (\<lambda>v'.
        bindR (expand_macros m k [] b) (\<lambda>k'. dict_put k' v' e))) d []
      = Inr ([] @ map (\<lambda>p. (fst p, snd p)) d)"
    proof (rule fold_dict_put)
      fix p e assume p: "p \<in> set d"
      obtain s where s: "fst p = VStr s" using less.prems(1) VDict p by auto
      have "0 < m" using size_item [OF p] less.prems(2) VDict n by simp
      then have k: "expand_macros m (fst p) [] b = Inr (fst p)"
        using expand_plain_string s by (cases m) auto
      have "expand_macros m (snd p) [] b = Inr (snd p)"
        using less.IH [of "snd p"] less.prems size_item [OF p] VDict p n by simp
      with k show "(case p of (k, v) \<Rightarrow> \<lambda>e. bindR (expand_macros m v [] b) (\<lambda>v'.
        bindR (expand_macros m k [] b) (\<lambda>k'. dict_put k' v' e))) e = dict_put (fst p) (snd p) e"
        by (simp add: split_def)
      show "hashable (fst p)" using s by simp
    qed (use less.prems(1) VDict in simp)
    then have "expand_items (expand_macros m) d [] b = Inr (VDict d)" by (simp add: expand_items_def)
    with less.prems(1) VDict n show ?thesis by (simp add: macro_step_def to_str_def)
  qed (use less.prems(1) n in \<open>auto simp: macro_step_def to_str_def sorted_variables_def\<close>)
qed

lemma cross_product_correct_witness:
  "dictionary_cross_product
     [(VStr ''A'', VList [VInt 1, VInt 2]), (VStr ''B'', VStr ''xy'')] =
   Inr (map (\<lambda>choice. rev (zip (map fst
          [(VStr ''A'', VList [VInt 1, VInt 2]), (VStr ''B'', VStr ''xy'')]) choice))
     (product_lists [[VInt 1, VInt 2], [VStr ''x'', VStr ''y'']]))"
  by (rule cross_product_correct) (simp_all add: py_iter_def keys_differ_def num_of_def)

lemma expansion_ends_witness:
  "expand_macros 4 (VList [VInt 1]) [] False \<noteq> Inl RecursionError"
proof -
  have "size (VList [VInt 1]) < 4" by simp
  with expansion_ends [of "VList [VInt 1]" "[]" False] show ?thesis by metis
qed

end
