(* ===== verification/Test_Script.thy ===== *)
theory Test_Script
  imports Test_Definition Macro_Expansion
begin

text \<open>
  \<open>data_model/TestDefinitionScript.py\<close>: the definitions a test definition file declares, and
  \<open>extract_tests\<close>, which turns them into the environments and tests of \<open>Test_Definition\<close> with
  their dependencies still unresolved. The decoder of the typed union \<open>TestDefinitionScript\<close>
  is a parameter of \<open>extract_tests_from_str\<close>; its two overrides are modelled here.
\<close>

section \<open>What a file declares\<close>

datatype script_image =
    ScriptDockerfileInline string
  | ScriptDockerfile string
  | ScriptAMI string string

record define_env_fields =
  de_variables :: vardefs
  de_dependencies :: "(string \<times> string) list"
  de_test_configuration :: string
  de_test_stages :: "stage list"
  de_test_timeout :: int
  de_test_min_cores :: int
  de_test_max_cores :: int
  de_test_min_ram_gb :: int
  de_test_min_disk_gb :: int
  de_test_max_retries :: int
  de_test_retry_wait_seconds :: int

datatype define_environment =
    DefineImport (import_base: "string list") (import_setup: string) (de_fields: define_env_fields)
  | DefineEnvironment (define_platform: platform) (define_image: script_image)
      (de_fields: define_env_fields)

record define_fields =
  df_environment :: string
  df_mixins :: "string list"
  df_configuration :: string
  df_project :: string
  df_dependencies :: "(string \<times> string) list"
  df_variables :: vardefs
  df_timeout :: int
  df_min_cores :: int
  df_max_cores :: int
  df_min_ram_gb :: int
  df_min_disk_gb :: int

datatype define_test =
    DefineBuild (df_fields: define_fields) (df_stages: "stage list") (df_command: string)
      (df_cleanup: string) (df_disabled: bool) (df_max_retries: int) (df_retry_wait: int)
  | DefineTest (df_fields: define_fields) (df_stages: "stage list") (df_command: string)
      (df_cleanup: string) (df_disabled: bool)
  | DefineDeployment (df_fields: define_fields) (df_portExpose: "(string \<times> int) list")

record define_include =
  include_path :: string
  include_variables :: vardefs

record test_script =
  script_repos :: "(string \<times> repo_reference) list"
  script_includes :: "define_include list"
  script_environments :: "(string \<times> define_environment) list"
  script_builds :: "(string \<times> define_test) list"
  script_tests :: "(string \<times> define_test) list"
  script_deployments :: "(string \<times> define_test) list"
  script_prioritize :: "string list"

section \<open>Repositories and dependencies\<close>

definition reservedNames :: "string list" where
  "reservedNames = [''data'', ''source'', ''HEAD'']"

abbreviation slash :: char where
  "slash \<equiv> CHR ''/''"

abbreviation join_slash :: "string list \<Rightarrow> string" where
  "join_slash \<equiv> py_join ''/''"

definition map_image :: "string \<Rightarrow> string \<Rightarrow> script_image \<Rightarrow> image" where
  "map_image reponame commitHash image_def = (case image_def of
     ScriptDockerfile f \<Rightarrow> Dockerfile reponame commitHash f
   | ScriptDockerfileInline c \<Rightarrow> DockerfileInline c
   | ScriptAMI ami setup \<Rightarrow> AMI ami setup)"

definition check_repo :: "string \<times> repo_reference \<Rightarrow> unit res" where
  "check_repo = (\<lambda>(name, ref).
     if name \<in> set reservedNames then Inl (UserException ''reserved name'')
     else if is_Import ref then Inr ()
     else let parts = py_split slash (reference ref) in
       bindR (assertR (length parts \<ge> 2) AssertionError) (\<lambda>_.
       if last parts = '''' then Inl (UserException ''empty commitHash'') else Inr ()))"

definition is_source :: "string list \<Rightarrow> bool" where
  "is_source deps \<longleftrightarrow> length deps = 1 \<or> deps ! 1 = ''source''"

definition map_environment_dep ::
    "string \<Rightarrow> string \<Rightarrow> string set \<Rightarrow> string \<Rightarrow> test_dependency res" where
  "map_environment_dep curRepoName curCommitHash all_repos dep =
     (let deps = py_split slash dep in
      if CHR ''$'' \<in> set (hd deps) then Inl (UserException ''substitution'')
      else if hd deps = ''HEAD'' then
        (if is_source deps then Inr (DepSource curRepoName curCommitHash (join_slash (drop 2 deps)))
         else if length deps < 3 then Inl (UserException ''malformed'')
         else Inr (DepInternalBuild (join_slash (drop 1 deps))))
      else if hd deps \<notin> all_repos then Inl (UserException ''unknown repo'')
      else if is_source deps then Inr (DepUnresolvedSource (hd deps) (join_slash (drop 2 deps)))
      else if length deps < 3 then Inl (UserException ''malformed'')
      else Inr (DepUnresolvedExternalBuild (hd deps) (join_slash (drop 1 deps))))"

definition convert_build_dep ::
    "string \<Rightarrow> string \<Rightarrow> string set \<Rightarrow> string \<Rightarrow> test_dependency res" where
  "convert_build_dep curRepoName curCommitHash all_repos dep =
     (let deps = py_split slash dep in
      if CHR ''$'' \<in> set (hd deps) then Inl (UserException ''substitution'')
      else if hd deps = ''HEAD'' then
        (if is_source deps then Inr (DepSource curRepoName curCommitHash (join_slash (drop 2 deps)))
         else Inr (DepInternalBuild (join_slash (drop 1 deps))))
      else if hd deps \<in> all_repos then
        (if is_source deps then Inr (DepUnresolvedSource (hd deps) (join_slash (drop 2 deps)))
         else if length deps < 3 then Inl (UserException ''malformed'')
         else Inr (DepUnresolvedExternalBuild (hd deps) (join_slash (drop 1 deps))))
      else Inr (DepInternalBuild (join_slash deps)))"

text \<open>The dependencies of a definition: \<open>{"test_inputs/" + name: convert(dep)}\<close>.\<close>

definition convert_deps ::
    "(string \<Rightarrow> test_dependency res) \<Rightarrow> (string \<times> string) list \<Rightarrow>
     (string \<times> test_dependency) list res" where
  "convert_deps convert deps =
     mapR (\<lambda>(name, dep). bindR (convert dep) (\<lambda>d. Inr (''test_inputs/'' @ name, d))) deps"

section \<open>Environments\<close>

definition parse_import :: "string \<Rightarrow> string \<Rightarrow> string \<Rightarrow> environment_reference res" where
  "parse_import curRepoName curCommitHash import_string =
     (case py_split slash import_string of
        [name] \<Rightarrow> Inr (Reference curRepoName curCommitHash name)
      | [repo, name] \<Rightarrow> Inr (UnresolvedReference repo name)
      | _ \<Rightarrow> Inl AssertionError)"

definition env_fields_of ::
    "string \<Rightarrow> (string \<times> test_dependency) list \<Rightarrow> define_env_fields \<Rightarrow> environment_fields" where
  "env_fields_of envName deps d = \<lparr>environment_name = envName, inheritance = [],
     env_variables = de_variables d, env_dependencies = deps,
     test_configuration = de_test_configuration d, test_stages = de_test_stages d,
     test_timeout = de_test_timeout d, test_min_cores = de_test_min_cores d,
     test_max_cores = de_test_max_cores d, test_min_ram_gb = de_test_min_ram_gb d,
     test_min_disk_gb = de_test_min_disk_gb d, test_max_retries = de_test_max_retries d,
     test_retry_wait_seconds = de_test_retry_wait_seconds d\<rparr>"

definition parseEnvironment ::
    "string \<Rightarrow> string \<Rightarrow> string set \<Rightarrow> string \<times> define_environment \<Rightarrow>
     (string \<times> test_environment) res" where
  "parseEnvironment curRepoName curCommitHash all_repos = (\<lambda>(envName, envDef).
     let deps = convert_deps (map_environment_dep curRepoName curCommitHash all_repos)
                  (de_dependencies (de_fields envDef))
     in case envDef of
       DefineImport base setup d \<Rightarrow>
         bindR (mapR (parse_import curRepoName curCommitHash) base) (\<lambda>imports.
         bindR deps (\<lambda>ds. Inr (envName, Import imports setup (env_fields_of envName ds d))))
     | DefineEnvironment p img d \<Rightarrow>
         bindR deps (\<lambda>ds. Inr (envName,
           Environment p (map_image curRepoName curCommitHash img) (env_fields_of envName ds d))))"

section \<open>Builds, tests and deployments\<close>

text \<open>The stage that a bare \<open>command\<close> or \<open>cleanup\<close> stands for, after all others.\<close>

definition default_stage :: "string \<Rightarrow> string \<Rightarrow> string \<Rightarrow> stage" where
  "default_stage cmd cl output_dir =
     \<lparr>command = cmd, cleanup = cl, stage_order = 10 ^ 9,
      artifacts = [\<lparr>artifact_name = '''', directory = output_dir, include_patterns = [],
        exclude_patterns = [], format = Tar\<rparr>]\<rparr>"

definition stages_of :: "stage list \<Rightarrow> string \<Rightarrow> string \<Rightarrow> string \<Rightarrow> stage list" where
  "stages_of ss cmd cl output_dir =
     (if cmd \<noteq> '''' \<or> cl \<noteq> '''' then ss @ [default_stage cmd cl output_dir]
      else ss)"

definition curEnv_of :: "string \<Rightarrow> define_fields \<Rightarrow> string" where
  "curEnv_of name d = (if df_environment d \<noteq> '''' then df_environment d else path_last name)"

definition test_fields_of ::
    "string \<Rightarrow> (string \<times> test_dependency) list \<Rightarrow> define_fields \<Rightarrow> test_fields" where
  "test_fields_of name deps d = \<lparr>test_hash = '''', test_name = name,
     configuration = df_configuration d, project = df_project d,
     test_environment_name = curEnv_of name d,
     environment_mixins = filter (\<lambda>x. x \<noteq> '''') (df_mixins d), environment = None,
     dependencies = deps, variables = df_variables d, timeout = df_timeout d,
     min_cores = df_min_cores d, max_cores = df_max_cores d, min_ram_gb = df_min_ram_gb d,
     min_disk_gb = df_min_disk_gb d\<rparr>"

definition convert_def ::
    "string \<Rightarrow> string \<Rightarrow> string set \<Rightarrow> string \<Rightarrow> define_test \<Rightarrow> test_definition res" where
  "convert_def curRepoName curCommitHash all_repos name d =
     (let f = df_fields d in
      bindR (assertR (CHR ''$'' \<notin> set (curEnv_of name f)) AssertionError) (\<lambda>_.
      bindR (convert_deps (convert_build_dep curRepoName curCommitHash all_repos) (df_dependencies f))
        (\<lambda>deps.
      let t = test_fields_of name deps f in
      Inr (case d of
        DefineBuild _ ss cmd cl dis retries wait \<Rightarrow>
          Build t (stages_of ss cmd cl ''${TEST_BUILD_OUTPUT_DIR}'') dis retries wait
      | DefineTest _ ss cmd cl dis \<Rightarrow> Test t (stages_of ss cmd cl ''${TEST_OUTPUT_DIR}'') dis
      | DefineDeployment _ ports \<Rightarrow> Deployment t ports))))"

definition extract_def ::
    "string \<Rightarrow> string \<Rightarrow> string set \<Rightarrow> string \<times> define_test \<Rightarrow> (string \<times> test_definition) list \<Rightarrow>
     (string \<times> test_definition) list res" where
  "extract_def curRepoName curCommitHash all_repos = (\<lambda>(name, d) allTests.
     if hd (py_split slash name) \<in> all_repos then Inl (UserException ''already a repo name'')
     else bindR (convert_def curRepoName curCommitHash all_repos name d) (\<lambda>t.
       Inr (alist_set name t allTests)))"

record extracted =
  ex_tests :: "(string \<times> test_definition) list"
  ex_envs :: "(string \<times> test_environment) list"
  ex_repos :: "(string \<times> repo_reference) list"
  ex_includes :: "define_include list"
  ex_prioritize :: "string list"

definition extract_tests ::
    "string \<Rightarrow> string \<Rightarrow> test_script \<Rightarrow> string set \<Rightarrow> extracted res" where
  "extract_tests curRepoName curCommitHash script external =
     bindR (mapR check_repo (script_repos script)) (\<lambda>_.
     let all_repos = external \<union> fst ` set (script_repos script) in
     bindR (mapR (parseEnvironment curRepoName curCommitHash all_repos) (script_environments script))
       (\<lambda>envs.
     bindR (foldR (extract_def curRepoName curCommitHash all_repos)
       (script_builds script @ script_tests script @ script_deployments script) []) (\<lambda>tests.
     Inr \<lparr>ex_tests = tests, ex_envs = envs, ex_repos = script_repos script,
          ex_includes = script_includes script, ex_prioritize = script_prioritize script\<rparr>)))"

section \<open>From the text of a file\<close>

definition parseRepoReference :: "alt_env \<Rightarrow> nat \<Rightarrow> pyval \<Rightarrow> pyval res" where
  "parseRepoReference env n v = (case v of
     VStr s \<Rightarrow> Inr (VInst (TAlt ''RepoReference'') ''Reference'' [(''reference'', VStr s)])
   | VUni s \<Rightarrow> (if is_ascii s
       then Inr (VInst (TAlt ''RepoReference'') ''Reference'' [(''reference'', VStr s)])
       else Inl ValueError)
   | _ \<Rightarrow> from_json env \<lparr>mergeListsIntoDicts = True, allowExtraFields = False\<rparr> n v
       (TAlt ''RepoReference''))"

definition variable_text :: "pyval \<Rightarrow> string res" where
  "variable_text k = (case k of
     VStr s \<Rightarrow> Inr s
   | VBool b \<Rightarrow> Inr (if b then ''true'' else ''false'')
   | VFloat r \<Rightarrow> Inr (str_float r)
   | VInt i \<Rightarrow> Inr (str_int i)
   | _ \<Rightarrow> Inl AssertionError)"

definition parseVariableDict :: "pyval \<Rightarrow> vardefs res" where
  "parseVariableDict v = (case v of
     VNone \<Rightarrow> Inr []
   | VDict d \<Rightarrow> foldR (\<lambda>(k, x) vs. bindR (variable_text x) (\<lambda>x'. bindR (variable_text k) (\<lambda>k'.
       Inr (alist_set k' x' vs)))) d []
   | _ \<Rightarrow> Inl AttributeError)"

definition extract_tests_from_str ::
    "(string \<Rightarrow> pyval res) \<Rightarrow> (string \<Rightarrow> pyval res) \<Rightarrow> nat \<Rightarrow> (pyval \<Rightarrow> test_script res) \<Rightarrow>
     string \<Rightarrow> string \<Rightarrow> string \<Rightarrow> string \<Rightarrow> pydict \<Rightarrow> string set \<Rightarrow> extracted res" where
  "extract_tests_from_str yaml json n decode repoName commitHash extension text defs external =
     bindR (extract_postprocessed_test_definitions yaml json n extension text defs) (\<lambda>doc.
     case doc of
       VDict d \<Rightarrow> (case dict_get ''looper_version'' d of
         None \<Rightarrow> Inl (UserException ''No looper version specified'')
       | Some version \<Rightarrow>
           if \<not> py_eq version (VInt 4) then Inl (UserException ''looper version'')
           else bindR (decode (VDict (filter (\<lambda>p. key_name (fst p) \<noteq> Some ''looper_version'') d)))
             (\<lambda>script. extract_tests repoName commitHash script external))
     | _ \<Rightarrow> Inl TypeError)"

section \<open>What is extracted is in scope\<close>

text \<open>The dependencies a file can declare: sources of its own commit, builds named within the
  commit, and sources and builds of the repositories it names.\<close>

fun scoped_dep :: "string \<Rightarrow> string \<Rightarrow> string set \<Rightarrow> test_dependency \<Rightarrow> bool" where
  "scoped_dep repo hash repos (DepSource r h p) = (r = repo \<and> h = hash)"
| "scoped_dep repo hash repos (DepInternalBuild n) = True"
| "scoped_dep repo hash repos (DepUnresolvedSource r p) = (r \<in> repos)"
| "scoped_dep repo hash repos (DepUnresolvedExternalBuild r n) = (r \<in> repos)"
| "scoped_dep repo hash repos d = False"

definition scoped_deps :: "string \<Rightarrow> string \<Rightarrow> string set \<Rightarrow> (string \<times> test_dependency) list \<Rightarrow> bool" where
  "scoped_deps repo hash repos deps \<longleftrightarrow>
     (\<forall>(k, d) \<in> set deps. starts_with ''test_inputs/'' k \<and> scoped_dep repo hash repos d)"

definition scoped_test ::
    "string \<Rightarrow> string \<Rightarrow> string set \<Rightarrow> string \<times> test_definition \<Rightarrow> bool" where
  "scoped_test repo hash repos = (\<lambda>(name, t).
     test_name (test_definition.fields t) = name \<and> hd (py_split slash name) \<notin> repos \<and>
     environment (test_definition.fields t) = None \<and> '''' \<notin> set (environment_mixins (test_definition.fields t)) \<and>
     scoped_deps repo hash repos (dependencies (test_definition.fields t)))"

lemma map_environment_dep_scoped:
  "map_environment_dep repo hash repos dep = Inr d \<Longrightarrow> scoped_dep repo hash repos d"
  by (auto simp: map_environment_dep_def Let_def split: if_splits)

lemma convert_build_dep_scoped:
  "convert_build_dep repo hash repos dep = Inr d \<Longrightarrow> scoped_dep repo hash repos d"
  by (auto simp: convert_build_dep_def Let_def split: if_splits)

lemma convert_deps_scoped:
  assumes "convert_deps convert deps = Inr ds"
    and "\<And>dep d. convert dep = Inr d \<Longrightarrow> scoped_dep repo hash repos d"
  shows "scoped_deps repo hash repos ds"
proof -
  have "\<forall>p \<in> set ds. starts_with ''test_inputs/'' (fst p) \<and> scoped_dep repo hash repos (snd p)"
    by (rule mapR_instances [OF assms(1) [unfolded convert_deps_def]])
      (auto simp: bindR_Inr_conv assms(2) simp del: append.simps(2))
  then show ?thesis by (auto simp: scoped_deps_def)
qed

lemma convert_def_scoped:
  assumes "convert_def repo hash repos name d = Inr t" "hd (py_split slash name) \<notin> repos"
  shows "scoped_test repo hash repos (name, t)"
proof -
  obtain deps where deps: "convert_deps (convert_build_dep repo hash repos)
      (df_dependencies (df_fields d)) = Inr deps"
    "test_definition.fields t = test_fields_of name deps (df_fields d)"
    using assms(1) by (cases d) (auto simp: convert_def_def bindR_Inr_conv Let_def)
  have "scoped_deps repo hash repos deps"
    by (rule convert_deps_scoped [OF deps(1)]) (rule convert_build_dep_scoped)
  with deps(2) assms(2) show ?thesis by (simp add: scoped_test_def test_fields_of_def)
qed

lemma set_alist_set: "p \<in> set (alist_set k v d) \<Longrightarrow> p = (k, v) \<or> p \<in> set d"
  by (induction d) (auto split: if_splits)

lemma extract_defs_scoped:
  assumes "foldR (extract_def repo hash repos) defs acc = Inr ts"
    and "\<forall>p \<in> set acc. scoped_test repo hash repos p"
  shows "(\<forall>p \<in> set ts. scoped_test repo hash repos p) \<and>
    fst ` set ts = fst ` set acc \<union> fst ` set defs"
  using assms
proof (induction defs arbitrary: acc)
  case (Cons nd defs)
  obtain name d where nd: "nd = (name, d)" by (cases nd)
  from Cons.prems(1) nd obtain t where t: "hd (py_split slash name) \<notin> repos"
    "convert_def repo hash repos name d = Inr t"
    "foldR (extract_def repo hash repos) defs (alist_set name t acc) = Inr ts"
    by (auto simp: extract_def_def bindR_Inr_conv split: if_splits)
  have "\<forall>p \<in> set (alist_set name t acc). scoped_test repo hash repos p"
  proof
    fix p assume "p \<in> set (alist_set name t acc)"
    then show "scoped_test repo hash repos p"
      using Cons.prems(2) convert_def_scoped [OF t(2,1)] set_alist_set [of p name t acc] by metis
  qed
  from Cons.IH [OF t(3) this] have "(\<forall>p \<in> set ts. scoped_test repo hash repos p) \<and>
    fst ` set ts = fst ` set (alist_set name t acc) \<union> fst ` set defs" .
  moreover have "fst ` set (alist_set name t acc) = insert name (fst ` set acc)"
    using keys_alist_set [of name t acc] by simp
  ultimately show ?case by (simp add: nd)
qed simp

lemma parseEnvironment_scoped:
  assumes "parseEnvironment repo hash repos p = Inr q"
  shows "fst q = fst p \<and> scoped_deps repo hash repos (env_dependencies (env_fields (snd q)))"
proof -
  obtain envName envDef where p: "p = (envName, envDef)" by (cases p)
  obtain deps where d: "convert_deps (map_environment_dep repo hash repos)
      (de_dependencies (de_fields envDef)) = Inr deps"
    "fst q = envName" "env_dependencies (env_fields (snd q)) = deps"
    using assms by (auto simp: p parseEnvironment_def Let_def bindR_Inr_conv env_fields_of_def
        split: define_environment.splits)
  have "scoped_deps repo hash repos deps"
    by (rule convert_deps_scoped [OF d(1)]) (rule map_environment_dep_scoped)
  with d p show ?thesis by simp
qed


text \<open>Within one file a later definition silently replaces an earlier one of the same name: the
  test below, and not the build, is what is extracted.\<close>

definition demo_def_fields :: define_fields where
  "demo_def_fields = \<lparr>df_environment = ''linux'', df_mixins = [], df_configuration = '''',
     df_project = '''', df_dependencies = [(''lib'', ''dep/build/linux''), (''src'', ''HEAD'')],
     df_variables = [], df_timeout = 0, df_min_cores = 0, df_max_cores = 0, df_min_ram_gb = 0,
     df_min_disk_gb = 0\<rparr>"

definition demo_script :: test_script where
  "demo_script = \<lparr>script_repos = [(''dep'', RepoReference ''dep/0123'')], script_includes = [],
     script_environments = [],
     script_builds = [(''x/linux'', DefineBuild demo_def_fields [] ''make'' '''' False 0 0)],
     script_tests = [(''x/linux'', DefineTest demo_def_fields [] ''check'' '''' False)],
     script_deployments = [], script_prioritize = []\<rparr>"

definition demo_test :: test_definition where
  "demo_test = Test (test_fields_of ''x/linux''
     [(''test_inputs/lib'', DepUnresolvedExternalBuild ''dep'' ''build/linux''),
      (''test_inputs/src'', DepSource ''r'' ''h'' '''')] demo_def_fields)
     (stages_of [] ''check'' '''' ''${TEST_OUTPUT_DIR}'') False"

lemma same_name_replaces:
  "extract_tests ''r'' ''h'' demo_script {} =
   Inr \<lparr>ex_tests = [(''x/linux'', demo_test)], ex_envs = [],
        ex_repos = [(''dep'', RepoReference ''dep/0123'')], ex_includes = [], ex_prioritize = []\<rparr>"
  by code_simp


end
