(* ===== verification/Resolver_Monad.thy ===== *)
theory Resolver_Monad
  imports Test_Script
begin

text \<open>
  The state of a \<open>TestDefinitionResolver\<close>, its five caches, and calls of its methods. A call
  returns or raises, and leaves caches behind in both cases; \<open>None\<close> is a call that does not
  return. \<open>keeps\<close> is the specification of a call: from caches that satisfy an invariant it
  only reaches caches that satisfy it, and a value it returns satisfies a predicate.
\<close>

section \<open>The caches\<close>

type_synonym repo_dict = "(string \<times> repo_reference) list"
type_synonym test_dict = "(string \<times> test_definition) list"
type_synonym environments = "(string \<times> test_environment) list"
type_synonym commit_key = "string \<times> string"

record post_include =
  post_tests :: test_dict
  post_envs :: environments
  post_repos :: repo_dict

record resolver =
  rawDefinitionsCache :: "commit_key \<rightharpoonup> extracted"
  rawDefinitionsPath :: "commit_key \<rightharpoonup> string"
  postIncludeDefinitionsCache :: "commit_key \<rightharpoonup> post_include"
  environmentCache :: "commit_key \<rightharpoonup> environments"
  testDefinitionCache :: "commit_key \<rightharpoonup> test_dict"

definition new_resolver :: resolver where
  "new_resolver = \<lparr>rawDefinitionsCache = Map.empty, rawDefinitionsPath = Map.empty,
     postIncludeDefinitionsCache = Map.empty, environmentCache = Map.empty,
     testDefinitionCache = Map.empty\<rparr>"

section \<open>Calls\<close>

type_synonym 'a call = "resolver \<Rightarrow> ('a res \<times> resolver) option"

definition retS :: "'a \<Rightarrow> 'a call" where
  "retS v s = Some (Inr v, s)"

definition raiseS :: "py_error \<Rightarrow> 'a call" where
  "raiseS e s = Some (Inl e, s)"

definition bindS :: "'a call \<Rightarrow> ('a \<Rightarrow> 'b call) \<Rightarrow> 'b call" where
  "bindS m f s = (case m s of
     None \<Rightarrow> None | Some (Inl e, t) \<Rightarrow> Some (Inl e, t) | Some (Inr v, t) \<Rightarrow> f v t)"

definition liftS :: "'a res \<Rightarrow> 'a call" where
  "liftS r s = Some (r, s)"

definition liftO :: "'a res option \<Rightarrow> 'a call" where
  "liftO r s = map_option (\<lambda>v. (v, s)) r"

definition getS :: "(resolver \<Rightarrow> 'a) \<Rightarrow> 'a call" where
  "getS f s = Some (Inr (f s), s)"

definition modS :: "(resolver \<Rightarrow> resolver) \<Rightarrow> unit call" where
  "modS f s = Some (Inr (), f s)"

fun foldS :: "('a \<Rightarrow> 'b \<Rightarrow> 'b call) \<Rightarrow> 'a list \<Rightarrow> 'b \<Rightarrow> 'b call" where
  "foldS f [] b = retS b"
| "foldS f (x # xs) b = bindS (f x b) (foldS f xs)"

lemma bindS_cong [fundef_cong]:
  "m s = m' s' \<Longrightarrow> (\<And>v t. m' s' = Some (Inr v, t) \<Longrightarrow> f v t = g v t) \<Longrightarrow> bindS m f s = bindS m' g s'"
  by (auto simp: bindS_def split: option.splits sum.splits)

lemma bindS_Some_Inr:
  "bindS m f s = Some (Inr v, t) \<longleftrightarrow> (\<exists>u s'. m s = Some (Inr u, s') \<and> f u s' = Some (Inr v, t))"
  by (auto simp: bindS_def split: option.splits sum.splits)

lemma call_simps [simp]:
  "bindS (retS v) f = f v" "bindS (raiseS e) f = raiseS e" "bindS (liftS (Inr v)) f = f v"
  "bindS (liftS (Inl e)) f = raiseS e" "bindS (getS g) f s = f (g s) s" "bindS (modS h) k s = k () (h s)"
  by (auto simp: fun_eq_iff bindS_def retS_def raiseS_def liftS_def getS_def modS_def)

section \<open>Specifications of calls\<close>

definition keeps :: "(resolver \<Rightarrow> bool) \<Rightarrow> 'a call \<Rightarrow> ('a \<Rightarrow> bool) \<Rightarrow> bool" where
  "keeps I m Q \<longleftrightarrow>
     (\<forall>s r t. I s \<longrightarrow> m s = Some (r, t) \<longrightarrow> I t \<and> (case r of Inl e \<Rightarrow> True | Inr v \<Rightarrow> Q v))"

lemma keepsD: "keeps I m Q \<Longrightarrow> I s \<Longrightarrow> m s = Some (r, t) \<Longrightarrow> I t"
  unfolding keeps_def by blast

lemma keeps_value: "keeps I m Q \<Longrightarrow> I s \<Longrightarrow> m s = Some (Inr v, t) \<Longrightarrow> Q v"
  unfolding keeps_def by force

lemma keeps_ret: "Q v \<Longrightarrow> keeps I (retS v) Q"
  by (simp add: keeps_def retS_def)

lemma keeps_raise: "keeps I (raiseS e) Q"
  by (simp add: keeps_def raiseS_def)

lemma keeps_lift: "(\<And>v. r = Inr v \<Longrightarrow> Q v) \<Longrightarrow> keeps I (liftS r) Q"
  by (auto simp: keeps_def liftS_def split: sum.splits)

lemma keeps_liftO: "(\<And>v. r = Some (Inr v) \<Longrightarrow> Q v) \<Longrightarrow> keeps I (liftO r) Q"
  by (auto simp: keeps_def liftO_def split: sum.splits)

lemma keeps_mod: "(\<And>s. I s \<Longrightarrow> I (f s)) \<Longrightarrow> keeps I (modS f) (\<lambda>_. True)"
  by (simp add: keeps_def modS_def)

lemma keeps_weaken: "keeps I m P \<Longrightarrow> (\<And>v. P v \<Longrightarrow> Q v) \<Longrightarrow> keeps I m Q"
  unfolding keeps_def by (fastforce split: sum.splits)

lemma keeps_bind:
  assumes "keeps I m P" "\<And>v. P v \<Longrightarrow> keeps I (f v) Q"
  shows "keeps I (bindS m f) Q"
  unfolding keeps_def
proof (intro allI impI)
  fix s r t assume s: "I s" "bindS m f s = Some (r, t)"
  show "I t \<and> (case r of Inl e \<Rightarrow> True | Inr v \<Rightarrow> Q v)"
  proof (cases "m s")
    case None
    with s show ?thesis by (simp add: bindS_def)
  next
    case (Some p)
    obtain x u where p: "p = (x, u)" by (cases p)
    then have u: "I u" using assms(1) s(1) Some by (auto simp: keeps_def)
    show ?thesis
    proof (cases x)
      case (Inl e)
      with s(2) Some p u show ?thesis by (auto simp: bindS_def)
    next
      case (Inr v)
      then have "P v" using assms(1) s(1) Some p by (auto simp: keeps_def)
      moreover have "f v u = Some (r, t)" using s(2) Some p Inr by (simp add: bindS_def)
      ultimately show ?thesis using assms(2) [of v] u unfolding keeps_def by blast
    qed
  qed
qed

lemma keeps_get:
  assumes "\<And>s. I s \<Longrightarrow> keeps I (f (g s)) Q"
  shows "keeps I (bindS (getS g) f) Q"
  unfolding keeps_def
proof (intro allI impI)
  fix s r t assume s: "I s" "bindS (getS g) f s = Some (r, t)"
  then have "f (g s) s = Some (r, t)" by simp
  with assms [OF s(1)] s(1) show "I t \<and> (case r of Inl e \<Rightarrow> True | Inr v \<Rightarrow> Q v)"
    unfolding keeps_def by blast
qed

lemma keeps_foldS:
  assumes "P b" "\<And>x b. x \<in> set xs \<Longrightarrow> P b \<Longrightarrow> keeps I (f x b) P"
  shows "keeps I (foldS f xs b) P"
  using assms
proof (induction xs arbitrary: b)
  case Nil
  then show ?case by (simp add: keeps_ret)
next
  case (Cons x xs)
  show ?case
    unfolding foldS.simps by (rule keeps_bind [OF Cons.prems(2)]) (use Cons in auto)
qed

lemma keeps_if: "(b \<Longrightarrow> keeps I m Q) \<Longrightarrow> (\<not> b \<Longrightarrow> keeps I n Q) \<Longrightarrow> keeps I (if b then m else n) Q"
  by simp

text \<open>A value that is computed once per key and kept in a cache.\<close>

definition cached ::
    "(resolver \<Rightarrow> commit_key \<rightharpoonup> 'a) \<Rightarrow> (commit_key \<Rightarrow> 'a \<Rightarrow> resolver \<Rightarrow> resolver) \<Rightarrow> commit_key \<Rightarrow> 'a call \<Rightarrow>
     'a call" where
  "cached cache store key compute =
     bindS (getS cache) (\<lambda>c. case c key of
       Some v \<Rightarrow> retS v
     | None \<Rightarrow> bindS compute (\<lambda>v. bindS (modS (store key v)) (\<lambda>_. retS v)))"

lemma keeps_cached:
  assumes "\<And>s v. I s \<Longrightarrow> cache s key = Some v \<Longrightarrow> Q v" "keeps I compute Q"
    and "\<And>s v. I s \<Longrightarrow> Q v \<Longrightarrow> I (store key v s)"
  shows "keeps I (cached cache store key compute) Q"
  unfolding cached_def
proof (rule keeps_get)
  fix s assume s: "I s"
  show "keeps I (case cache s key of None \<Rightarrow>
      bindS compute (\<lambda>v. bindS (modS (store key v)) (\<lambda>_. retS v)) | Some v \<Rightarrow> retS v) Q"
  proof (cases "cache s key")
    case None
    have "keeps I (bindS compute (\<lambda>v. bindS (modS (store key v)) (\<lambda>_. retS v))) Q"
      by (rule keeps_bind [OF assms(2)])
        (auto intro!: keeps_bind [OF keeps_mod] keeps_ret assms(3))
    with None show ?thesis by simp
  qed (use assms(1) s in \<open>simp add: keeps_ret\<close>)
qed

end
