(* ===== verification/Resolver_Rules.thy ===== *)
theory Resolver_Rules
  imports Test_Script "HOL-Library.Multiset"
begin

text \<open>
  The rules of \<open>data_model/TestDefinitionResolver.py\<close> that look at one set of definitions only:
  commit hashes, include paths, names of tests and artifacts, the order of stages, the artifacts a
  test may define, circular dependencies and the tests that an enabled test enables.
  \<open>Definition_Resolver\<close> composes them across repositories.
\<close>

abbreviation test_fields_of_def :: "test_definition \<Rightarrow> test_fields" where
  "test_fields_of_def \<equiv> test_definition.fields"

definition resolution_error :: py_error where
  "resolution_error = UserException ''TestResolutionException''"

definition user_warning :: py_error where
  "user_warning = UserException ''UserWarning''"

section \<open>Commit hashes and paths\<close>

text \<open>The pattern \<open>^[a-f0-9]{40}$\<close>; a dollar sign also matches before a final line feed.\<close>

definition hex_char :: "char \<Rightarrow> bool" where
  "hex_char c \<longleftrightarrow> c \<in> set ''abcdef0123456789''"

definition isValidCommitRef :: "string \<Rightarrow> bool" where
  "isValidCommitRef s \<longleftrightarrow> length (takeWhile hex_char (take 40 s)) = 40 \<and>
     (drop 40 s = [] \<or> drop 40 s = [CHR 0x0A])"

text \<open>\<open>items.pop(i)\<close>.\<close>

definition pop :: "nat \<Rightarrow> 'a list \<Rightarrow> 'a list" where
  "pop i xs = take i xs @ drop (Suc i) xs"

function path_loop :: "string list \<Rightarrow> nat \<Rightarrow> string list" where
  "path_loop items i =
     (if i < length items then
        if items ! i = ''.'' then path_loop (pop i items) i
        else if items ! i = ''..'' \<and> i > 0 then path_loop (pop (i - 1) (pop (i - 1) items)) (i - 1)
        else path_loop items (i + 1)
      else items)"
  by pat_completeness auto
termination
  by (relation "measure (\<lambda>(items, i). length items - i)") (auto simp: pop_def)

declare path_loop.simps [simp del]

definition resolvePath :: "string \<Rightarrow> string" where
  "resolvePath path = join_slash (path_loop (py_split slash path) 0)"

text \<open>The path as a walk with a stack of directories: \<open>..\<close> leaves the last one, if there is one.\<close>

fun walk_path :: "string list \<Rightarrow> string list \<Rightarrow> string list" where
  "walk_path dirs [] = rev dirs"
| "walk_path dirs (x # xs) =
     (if x = ''.'' then walk_path dirs xs
      else if x = ''..'' \<and> dirs \<noteq> [] then walk_path (tl dirs) xs
      else walk_path (x # dirs) xs)"

lemma path_loop_walk: "path_loop (rev dirs @ xs) (length dirs) = walk_path dirs xs"
proof (induction dirs xs rule: walk_path.induct)
  case (1 dirs)
  show ?case by (subst path_loop.simps) simp
next
  case (2 dirs x xs)
  have nth: "(rev dirs @ x # xs) ! length dirs = x" by (metis length_rev nth_append_length)
  show ?case
  proof (cases "x = ''.''")
    case True
    have "pop (length dirs) (rev dirs @ x # xs) = rev dirs @ xs" by (simp add: pop_def)
    with True 2 nth show ?thesis by (subst path_loop.simps) simp
  next
    case dot: False
    show ?thesis
    proof (cases "x = ''..'' \<and> dirs \<noteq> []")
      case True
      then obtain d ds where d: "dirs = d # ds" by (cases dirs) auto
      have "pop (length ds) (rev dirs @ x # xs) = rev ds @ x # xs" by (simp add: pop_def d)
      moreover have "pop (length ds) (rev ds @ x # xs) = rev ds @ xs" by (simp add: pop_def)
      ultimately show ?thesis using 2(2) dot True nth d by (subst path_loop.simps) simp
    next
      case False
      with 2(3) dot nth show ?thesis by (subst path_loop.simps) auto
    qed
  qed
qed

text \<open>The path climbs above its start at some point.\<close>

fun climbs :: "nat \<Rightarrow> string list \<Rightarrow> bool" where
  "climbs depth [] = False"
| "climbs depth (x # xs) =
     (if x = ''.'' then climbs depth xs
      else if x = ''..'' then depth = 0 \<or> climbs (depth - 1) xs
      else climbs (Suc depth) xs)"

lemma walk_path_plain:
  assumes "\<not> climbs (length dirs) xs" "\<forall>d \<in> set dirs. d \<noteq> ''.'' \<and> d \<noteq> ''..''"
  shows "\<forall>d \<in> set (walk_path dirs xs). d \<noteq> ''.'' \<and> d \<noteq> ''..''"
  using assms
proof (induction dirs xs rule: walk_path.induct)
  case (2 dirs x xs)
  show ?case
  proof (cases "x = ''.''")
    case False
    show ?thesis
    proof (cases "x = ''..''")
      case True
      with 2(4) have c: "dirs \<noteq> []" "\<not> climbs (length (tl dirs)) xs" by (auto split: if_splits)
      then have d: "\<forall>d \<in> set (tl dirs). d \<noteq> ''.'' \<and> d \<noteq> ''..''"
        using 2(5) by (meson list.set_sel(2))
      have "walk_path dirs (x # xs) = walk_path (tl dirs) xs" using True c(1) by simp
      with 2(2) [OF False conjI [OF True c(1)] c(2) d] show ?thesis by metis
    next
      case nd: False
      with 2(3) [OF False] 2(4,5) False show ?thesis by simp
    qed
  next
    case True
    then have "\<not> climbs (length dirs) xs" using 2(4) by simp
    from 2(1) [OF True this 2(5)] True show ?thesis by simp
  qed
next
  case (1 dirs)
  then show ?case by simp
qed

text \<open>resolving a path by removing its dots in place, for a path that never climbs above its
  start, gives the directories in which a walk along the path ends, and none of them is a dot.\<close>

theorem resolvePath_correct:
  assumes "\<not> climbs 0 (py_split slash path)"
  shows "resolvePath path = join_slash (walk_path [] (py_split slash path)) \<and>
    set (walk_path [] (py_split slash path)) \<inter> {''.'', ''..''} = {}"
  using path_loop_walk [of "[]"] walk_path_plain [of "[]"] assms by (auto simp: resolvePath_def)

lemma resolvePath_correct_witness: "resolvePath ''a/b/../c/./d'' = ''a/c/d''"
  using resolvePath_correct [of "''a/b/../c/./d''"] by simp

text \<open>Where a path climbs twice above its start, the second step cancels the first.\<close>

lemma two_steps_up_cancel: "resolvePath ''../../x'' = ''x''"
  using path_loop_walk [of "[]" "py_split slash ''../../x''"] by (simp add: resolvePath_def)

section \<open>Stages and artifacts\<close>

definition group_stage :: "stage \<Rightarrow> (rat \<times> stage list) list \<Rightarrow> (rat \<times> stage list) list" where
  "group_stage s orders =
     alist_set (stage_order s)
       ((case map_of orders (stage_order s) of None \<Rightarrow> [] | Some ss \<Rightarrow> ss) @ [s]) orders"

definition sortTestStages :: "stage list \<Rightarrow> stage list" where
  "sortTestStages sts =
     (let orders = fold group_stage sts [] in
      concat (map (\<lambda>k. the (map_of orders k)) (sort (map fst orders))))"

definition stages_of_test :: "test_definition \<Rightarrow> stage list res" where
  "stages_of_test t = (case t of
     Build _ ss _ _ _ \<Rightarrow> Inr ss | Test _ ss _ \<Rightarrow> Inr ss | Deployment _ _ \<Rightarrow> Inl AttributeError)"

definition disabled_of_test :: "test_definition \<Rightarrow> bool res" where
  "disabled_of_test t = (case t of
     Build _ _ d _ _ \<Rightarrow> Inr d | Test _ _ d \<Rightarrow> Inr d | Deployment _ _ \<Rightarrow> Inl AttributeError)"

definition artifact_names :: "stage list \<Rightarrow> string list" where
  "artifact_names ss = concat (map (\<lambda>s. map artifact_name (artifacts s)) ss)"

definition add_artifact :: "string \<Rightarrow> string set \<Rightarrow> string set res" where
  "add_artifact a valid = (if a \<in> valid then Inl user_warning else Inr (insert a valid))"

definition assertArtifactSetValid :: "test_definition \<Rightarrow> unit res" where
  "assertArtifactSetValid t =
     bindR (stages_of_test t) (\<lambda>ss.
     bindR (foldR add_artifact (artifact_names ss) {}) (\<lambda>valid.
     if '''' \<in> valid \<and> card valid > 1 then Inl user_warning else Inr ()))"

section \<open>Names of tests\<close>

definition find_split :: "string list \<Rightarrow> string set \<Rightarrow> (string \<times> string) option" where
  "find_split parts names =
     map_option (\<lambda>i. (join_slash (take i parts), join_slash (drop i parts)))
       (find (\<lambda>i. join_slash (take i parts) \<in> names) [0..<Suc (length parts)])"

definition resolveTestNameToTestAndArtifact ::
    "string \<Rightarrow> (string \<times> test_definition) list \<Rightarrow> bool \<Rightarrow> (string \<times> string) res" where
  "resolveTestNameToTestAndArtifact testName tests ignoreArtifacts =
     (case find_split (py_split slash testName) (fst ` set tests) of
        None \<Rightarrow> Inl user_warning
      | Some (name, artifact) \<Rightarrow>
          if ignoreArtifacts then Inr (name, artifact)
          else bindR (stages_of_test (the (map_of tests name))) (\<lambda>ss.
            if artifact \<notin> set (artifact_names ss) then Inl user_warning
            else Inr (name, artifact)))"

section \<open>The search for circular dependencies\<close>

definition internal_names :: "test_definition \<Rightarrow> string list" where
  "internal_names t = List.map_filter (\<lambda>(k, d). case d of DepInternalBuild n \<Rightarrow> Some n | _ \<Rightarrow> None)
     (dependencies (test_fields_of_def t))"

definition test_children :: "(string \<times> test_definition) list \<Rightarrow> string \<Rightarrow> string list res" where
  "test_children tests t = (case map_of tests t of
     None \<Rightarrow> Inr []
   | Some d \<Rightarrow> mapR (\<lambda>n. bindR (resolveTestNameToTestAndArtifact n tests False) (\<lambda>r. Inr (fst r)))
       (internal_names d))"

text \<open>\<open>graphFindCycleMultipleRoots\<close> with a function for the children that may raise.\<close>

fun check_raising ::
    "nat \<Rightarrow> ('n \<Rightarrow> 'n list res) \<Rightarrow> 'n \<Rightarrow> 'n list \<Rightarrow> 'n list \<Rightarrow> ('n list option \<times> 'n list) res"
and check_children_raising ::
    "nat \<Rightarrow> ('n \<Rightarrow> 'n list res) \<Rightarrow> 'n list \<Rightarrow> 'n list \<Rightarrow> 'n list \<Rightarrow> ('n list option \<times> 'n list) res"
where
  "check_raising 0 children node trail not_circular = Inl RecursionError"
| "check_raising (Suc depth) children node trail not_circular =
     (if node \<in> set not_circular then Inr (None, not_circular)
      else bindR (children node) (\<lambda>cs.
        bindR (check_children_raising depth children cs (trail @ [node]) not_circular)
        (\<lambda>(res, nc). case res of Some p \<Rightarrow> Inr (Some p, nc)
                              | None \<Rightarrow> Inr (None, nc @ [node]))))"
| "check_children_raising depth children [] trail not_circular = Inr (None, not_circular)"
| "check_children_raising depth children (child # rest) trail not_circular =
     (if child \<in> set trail then Inr (Some (trail @ [child]), not_circular)
      else bindR (check_raising depth children child trail not_circular)
        (\<lambda>(res, nc). case res of Some p \<Rightarrow> Inr (Some p, nc)
                              | None \<Rightarrow> check_children_raising depth children rest trail nc))"

fun find_cycle_roots_raising ::
    "nat \<Rightarrow> ('n \<Rightarrow> 'n list res) \<Rightarrow> 'n list \<Rightarrow> 'n list \<Rightarrow> 'n list option res" where
  "find_cycle_roots_raising depth children [] not_circular = Inr None"
| "find_cycle_roots_raising depth children (start # roots) not_circular =
     bindR (check_raising depth children start [] not_circular)
       (\<lambda>(res, nc). case res of Some p \<Rightarrow> Inr (Some p)
                             | None \<Rightarrow> find_cycle_roots_raising depth children roots nc)"

definition assertTestsNoncircular :: "nat \<Rightarrow> (string \<times> test_definition) list \<Rightarrow> unit res" where
  "assertTestsNoncircular depth tests =
     bindR (find_cycle_roots_raising depth (test_children tests) (map fst tests) []) (\<lambda>cycle.
     case cycle of None \<Rightarrow> Inr () | Some p \<Rightarrow> Inl resolution_error)"

text \<open>Where no name is unresolvable it is the search of \<open>Graph_Util\<close>.\<close>

lemma check_raising_total:
  "check_raising depth (\<lambda>n. Inr (f n)) node trail nc = check depth f node trail nc"
  "check_children_raising depth (\<lambda>n. Inr (f n)) cs trail nc = check_children depth f cs trail nc"
  by (induction depth f node trail nc and depth f cs trail nc rule: check_check_children.induct)
    (auto intro!: bindR_cong split: option.splits)

lemma find_cycle_roots_raising_total:
  "find_cycle_roots_raising depth (\<lambda>n. Inr (f n)) roots nc = find_cycle_roots depth f roots nc"
  by (induction depth f roots nc rule: find_cycle_roots.induct)
    (auto simp: check_raising_total intro!: bindR_cong split: option.splits)

section \<open>Enabling the tests an enabled test needs\<close>

definition enable_test :: "test_definition \<Rightarrow> test_definition" where
  "enable_test t = (case t of
     Build f ss d m w \<Rightarrow> Build f ss False m w | Test f ss d \<Rightarrow> Test f ss False | Deployment f p \<Rightarrow> t)"

definition enable_child ::
    "(string \<Rightarrow> (string \<times> test_definition) list \<Rightarrow> (string \<times> test_definition) list res) \<Rightarrow>
     string \<Rightarrow> (string \<times> test_definition) list \<Rightarrow> (string \<times> test_definition) list res" where
  "enable_child ensure dep tests =
     bindR (resolveTestNameToTestAndArtifact dep tests True) (\<lambda>r.
     let child = fst r; t = the (map_of tests child) in
     bindR (disabled_of_test t) (\<lambda>dis.
     if dis then ensure child (alist_set child (enable_test t) tests) else Inr tests))"

primrec ensureChildrenNotDisabled ::
    "nat \<Rightarrow> string \<Rightarrow> (string \<times> test_definition) list \<Rightarrow> (string \<times> test_definition) list res" where
  "ensureChildrenNotDisabled 0 = (\<lambda>testname tests. Inl RecursionError)"
| "ensureChildrenNotDisabled (Suc n) = (\<lambda>testname tests.
     foldR (enable_child (ensureChildrenNotDisabled n))
       (internal_names (the (map_of tests testname))) tests)"

definition ensure_root ::
    "nat \<Rightarrow> string \<Rightarrow> (string \<times> test_definition) list \<Rightarrow> (string \<times> test_definition) list res" where
  "ensure_root n t tests =
     bindR (disabled_of_test (the (map_of tests t))) (\<lambda>dis.
     if \<not> dis then ensureChildrenNotDisabled n t tests else Inr tests)"

definition ensureAllAppropriateChildrenEnabled ::
    "nat \<Rightarrow> (string \<times> test_definition) list \<Rightarrow> (string \<times> test_definition) list res" where
  "ensureAllAppropriateChildrenEnabled n tests = foldR (ensure_root n) (map fst tests) tests"

section \<open>Stages are sorted stably\<close>

definition bucket :: "(rat \<times> stage list) list \<Rightarrow> rat \<Rightarrow> stage list" where
  "bucket orders k = (case map_of orders k of None \<Rightarrow> [] | Some xs \<Rightarrow> xs)"

lemma bucket_group_stage:
  "bucket (group_stage s orders) k = bucket orders k @ (if stage_order s = k then [s] else [])"
  by (simp add: bucket_def group_stage_def)

lemma bucket_fold: "bucket (fold group_stage ss orders) k = bucket orders k @ filter (\<lambda>s. stage_order s = k) ss"
  by (induction ss arbitrary: orders) (simp_all add: bucket_group_stage)

lemma keys_group_stage:
  "set (map fst (fold group_stage ss orders)) = set (map fst orders) \<union> stage_order ` set ss"
proof (induction ss arbitrary: orders)
  case (Cons s ss)
  have "set (map fst (group_stage s orders)) = insert (stage_order s) (set (map fst orders))"
    unfolding group_stage_def by (rule keys_alist_set)
  with Cons.IH [of "group_stage s orders"] show ?case by simp
qed simp

lemma distinct_group_stage:
  "distinct (map fst orders) \<Longrightarrow> distinct (map fst (fold group_stage ss orders))"
proof (induction ss arbitrary: orders)
  case (Cons s ss)
  have "distinct (map fst (group_stage s orders))"
    unfolding group_stage_def by (rule distinct_alist_set [OF Cons.prems])
  with Cons.IH show ?case by simp
qed simp

lemma filter_bucket_concat:
  "distinct ls \<Longrightarrow> filter (\<lambda>s. f s = k) (concat (map (\<lambda>k. filter (\<lambda>s. f s = k) xs) ls)) =
   (if k \<in> set ls then filter (\<lambda>s. f s = k) xs else [])"
proof (induction ls)
  case (Cons l ls)
  have "filter (\<lambda>s. f s = k) (filter (\<lambda>s. f s = l) xs) = (if l = k then filter (\<lambda>s. f s = k) xs else [])"
    by (induction xs) auto
  with Cons show ?case by (cases "l = k") auto
qed simp

lemma sorted_bucket_concat:
  "sorted ls \<Longrightarrow> sorted (map f (concat (map (\<lambda>k. filter (\<lambda>s. f s = k) xs) ls)))"
proof (induction ls)
  case (Cons l ls)
  have "sorted (map f (filter (\<lambda>s. f s = l) xs))" by (induction xs) auto
  with Cons show ?case by (auto simp: sorted_append)
qed simp

lemma sort_stages: "sortTestStages sts = sort_key stage_order sts"
proof -
  let ?orders = "fold group_stage sts []"
  let ?ks = "sort (map fst ?orders)"
  have ks: "distinct ?ks" "set ?ks = stage_order ` set sts" "sorted ?ks"
    using distinct_group_stage [of "[]" sts] keys_group_stage [of sts "[]"] by simp_all
  have "the (map_of ?orders k) = filter (\<lambda>s. stage_order s = k) sts" if "k \<in> set ?ks" for k
  proof -
    have "map_of ?orders k \<noteq> None" using that by (simp add: map_of_eq_None_iff)
    then show ?thesis using bucket_fold [of sts "[]" k] by (auto simp: bucket_def)
  qed
  then have "map (\<lambda>k. the (map_of ?orders k)) ?ks =
      map (\<lambda>k. filter (\<lambda>s. stage_order s = k) sts) ?ks" by (intro map_cong refl)
  then have res: "sortTestStages sts = concat (map (\<lambda>k. filter (\<lambda>s. stage_order s = k) sts) ?ks)"
    unfolding sortTestStages_def Let_def by (rule arg_cong)
  have all: "filter (\<lambda>x. stage_order x = k) (sortTestStages sts) = filter (\<lambda>x. stage_order x = k) sts" for k
  proof (cases "k \<in> set ?ks")
    case True
    with filter_bucket_concat [OF ks(1), of stage_order k sts] show ?thesis unfolding res by simp
  next
    case False
    then have "filter (\<lambda>x. stage_order x = k) sts = []"
      unfolding ks(2) by (intro filter_False) blast
    with filter_bucket_concat [OF ks(1), of stage_order k sts] False show ?thesis unfolding res by simp
  qed
  have "sort_key stage_order sts = sortTestStages sts"
  proof (rule properties_for_sort_key)
    show "mset (sortTestStages sts) = mset sts"
    proof (rule multiset_eqI)
      fix s :: stage
      have "count (mset xs) s = count (mset (filter (\<lambda>x. stage_order x = stage_order s) xs)) s" for xs :: "stage list"
        by simp
      then show "count (mset (sortTestStages sts)) s = count (mset sts) s" using all by metis
    qed
    show "filter (\<lambda>x. stage_order s = stage_order x) (sortTestStages sts) =
        filter (\<lambda>x. stage_order s = stage_order x) sts" for s
      using all [of "stage_order s"] by (simp add: eq_commute [of "stage_order s"])
    show "sorted (map stage_order (sortTestStages sts))"
      unfolding res by (rule sorted_bucket_concat [OF ks(3)])
  qed
  then show ?thesis by simp
qed

text \<open>sorting the stages of a test by grouping them by their order is the stable sort by the
  order.\<close>

theorem sortTestStages_stable: "sortTestStages sts = sort_key stage_order sts"
  by (rule sort_stages)

section \<open>The artifacts a test may define\<close>

lemma add_artifacts:
  "foldR add_artifact names valid =
   (if distinct names \<and> set names \<inter> valid = {} then Inr (valid \<union> set names) else Inl user_warning)"
  by (induction names arbitrary: valid) (auto simp: add_artifact_def)

lemma distinct_member_singleton:
  assumes "distinct xs" "x \<in> set xs"
  shows "card (set xs) > 1 \<longleftrightarrow> xs \<noteq> [x]"
proof (cases xs)
  case (Cons y ys)
  with assms show ?thesis by (cases ys) (auto simp: distinct_card [OF assms(1), unfolded Cons])
qed (use assms in simp)

lemma assertArtifactSetValid_iff:
  assumes "stages_of_test t = Inr ss"
  shows "assertArtifactSetValid t = Inr () \<longleftrightarrow> distinct (artifact_names ss) \<and>
    ('''' \<in> set (artifact_names ss) \<longrightarrow> artifact_names ss = [''''])"
  using assms distinct_member_singleton [of "artifact_names ss" "''''"]
  by (auto simp: assertArtifactSetValid_def add_artifacts)

section \<open>The enabled tests are closed under dependencies\<close>

type_synonym test_dict = "(string \<times> test_definition) list"

text \<open>\<open>c\<close> is the test an internal dependency of \<open>x\<close> names.\<close>

definition child_of :: "test_dict \<Rightarrow> (string \<times> string) set" where
  "child_of tests = {(x, c). \<exists>t n a. map_of tests x = Some t \<and> n \<in> set (internal_names t) \<and>
     resolveTestNameToTestAndArtifact n tests True = Inr (c, a)}"

definition enabled_tests :: "test_dict \<Rightarrow> string set" where
  "enabled_tests tests = {x. \<exists>t. map_of tests x = Some t \<and> disabled_of_test t = Inr False}"

text \<open>The same tests, some of them enabled.\<close>

definition enables :: "test_dict \<Rightarrow> test_dict \<Rightarrow> bool" where
  "enables ts us \<longleftrightarrow> fst ` set us = fst ` set ts \<and>
     (\<forall>x t. map_of ts x = Some t \<longrightarrow> map_of us x \<in> {Some t, Some (enable_test t)})"

lemma enable_test_simps [simp]:
  "internal_names (enable_test t) = internal_names t"
  "enable_test (enable_test t) = enable_test t"
  "disabled_of_test t = Inr b \<Longrightarrow> disabled_of_test (enable_test t) = Inr False"
  by (cases t; simp add: enable_test_def internal_names_def disabled_of_test_def)+

lemma enables_refl [simp]: "enables ts ts"
  by (simp add: enables_def)

lemma map_of_in_keys: "map_of ts x = Some t \<Longrightarrow> x \<in> fst ` set ts"
  by (metis map_of_eq_None_iff option.distinct(1))

lemma enablesD:
  "enables ts us \<Longrightarrow> map_of ts x = Some t \<Longrightarrow> map_of us x = Some t \<or> map_of us x = Some (enable_test t)"
  by (simp add: enables_def)

lemma enables_trans:
  assumes "enables ts us" "enables us vs"
  shows "enables ts vs"
  unfolding enables_def
proof (intro conjI allI impI)
  show "fst ` set vs = fst ` set ts" using assms by (simp add: enables_def)
  have step: "map_of vs x = Some t \<or> map_of vs x = Some (enable_test t)" if "map_of us x = Some t" for x t
    using assms(2) that by (simp add: enables_def)
  fix x t assume "map_of ts x = Some t"
  then have "map_of us x = Some t \<or> map_of us x = Some (enable_test t)"
    using assms(1) by (simp add: enables_def)
  then show "map_of vs x \<in> {Some t, Some (enable_test t)}"
    using step [of x t] step [of x "enable_test t"] by auto
qed

lemma enables_mono: "enables ts us \<Longrightarrow> enabled_tests ts \<subseteq> enabled_tests us"
proof
  fix x assume e: "enables ts us" and "x \<in> enabled_tests ts"
  then obtain t where t: "map_of ts x = Some t" "disabled_of_test t = Inr False"
    by (auto simp: enabled_tests_def)
  then have "map_of us x = Some t \<or> map_of us x = Some (enable_test t)"
    using e by (simp add: enables_def)
  then show "x \<in> enabled_tests us" using t(2) enable_test_simps(3) [OF t(2)]
    by (auto simp: enabled_tests_def)
qed

lemma resolve_name_ignoring:
  assumes "fst ` set us = fst ` set ts"
  shows "resolveTestNameToTestAndArtifact n us True = resolveTestNameToTestAndArtifact n ts True"
  using assms by (simp add: resolveTestNameToTestAndArtifact_def split: option.splits)

lemma enables_children:
  assumes "enables ts us"
  shows "child_of us = child_of ts"
proof -
  have f: "fst ` set us = fst ` set ts" using assms by (simp add: enables_def)
  have "map_option internal_names (map_of us x) = map_option internal_names (map_of ts x)" for x
  proof (cases "map_of ts x")
    case None
    then have "map_of us x = None" using f by (simp add: map_of_eq_None_iff)
    with None show ?thesis by simp
  next
    case (Some t)
    with assms have "map_of us x = Some t \<or> map_of us x = Some (enable_test t)"
      unfolding enables_def by blast
    with Some show ?thesis by auto
  qed
  then have "(\<exists>t. map_of us x = Some t \<and> n \<in> set (internal_names t)) \<longleftrightarrow>
      (\<exists>t. map_of ts x = Some t \<and> n \<in> set (internal_names t))" for x n
    by (metis (no_types, opaque_lifting) map_option_eq_Some)
  then show ?thesis unfolding child_of_def resolve_name_ignoring [OF f] by blast
qed

lemma resolve_name_in:
  assumes "resolveTestNameToTestAndArtifact n ts True = Inr (c, a)"
  shows "c \<in> fst ` set ts"
proof -
  have "find_split (py_split slash n) (fst ` set ts) = Some (c, a)"
    using assms by (auto simp: resolveTestNameToTestAndArtifact_def split: option.splits prod.splits)
  then show ?thesis unfolding find_split_def by (auto simp: find_Some_iff)
qed

lemma enable_one:
  assumes "map_of ts c = Some t" "disabled_of_test t = Inr True"
  shows "enables ts (alist_set c (enable_test t) ts)"
    and "enabled_tests (alist_set c (enable_test t) ts) = insert c (enabled_tests ts)"
    and "c \<notin> enabled_tests ts"
proof -
  have "c \<in> fst ` set ts" using assms(1) by (metis map_of_eq_None_iff option.distinct(1))
  moreover have "fst ` set (alist_set c (enable_test t) ts) = insert c (fst ` set ts)"
    using keys_alist_set [of c "enable_test t" ts] by simp
  ultimately show "enables ts (alist_set c (enable_test t) ts)"
    using assms(1) by (auto simp: enables_def)
  show "enabled_tests (alist_set c (enable_test t) ts) = insert c (enabled_tests ts)"
    using assms by (auto simp: enabled_tests_def)
  show "c \<notin> enabled_tests ts" using assms by (simp add: enabled_tests_def)
qed

text \<open>What a call for \<open>x\<close> achieves: every test it enables, and \<open>x\<close> itself, has all its
  children enabled.\<close>

definition ensured :: "test_dict \<Rightarrow> string set \<Rightarrow> test_dict \<Rightarrow> bool" where
  "ensured ts xs us \<longleftrightarrow> enables ts us \<and>
     (\<forall>y \<in> enabled_tests us - enabled_tests ts. child_of ts `` {y} \<subseteq> enabled_tests us) \<and>
     enabled_tests us \<subseteq> enabled_tests ts \<union> (child_of ts)\<^sup>+ `` xs"

lemma ensured_refl: "ensured ts xs ts"
  by (simp add: ensured_def)

lemma ensured_trans:
  assumes "ensured ts xs us" "ensured us xs vs"
  shows "ensured ts xs vs"
proof -
  have e: "enables ts us" "enables us vs" using assms by (simp_all add: ensured_def)
  note c = enables_children [OF e(1)]
  have m: "enabled_tests us \<subseteq> enabled_tests vs" using enables_mono [OF e(2)] .
  show ?thesis
    unfolding ensured_def
  proof (intro conjI ballI)
    show "enables ts vs" using enables_trans [OF e] .
    show "enabled_tests vs \<subseteq> enabled_tests ts \<union> (child_of ts)\<^sup>+ `` xs"
      using assms unfolding ensured_def c by blast
    fix y assume "y \<in> enabled_tests vs - enabled_tests ts"
    then show "child_of ts `` {y} \<subseteq> enabled_tests vs"
      using assms m unfolding ensured_def c by blast
  qed
qed

lemma foldR_ensured:
  assumes "foldR f ns ts = Inr us"
    and "\<And>n u v. n \<in> set ns \<Longrightarrow> enables ts u \<Longrightarrow> f n u = Inr v \<Longrightarrow> ensured u xs v \<and> Q n v"
    and "\<And>n u v. Q n u \<Longrightarrow> enables u v \<Longrightarrow> Q n v"
  shows "ensured ts xs us \<and> (\<forall>n \<in> set ns. Q n us)"
  using assms(1,2)
proof (induction ns arbitrary: ts)
  case (Cons n ns)
  obtain u where u: "f n ts = Inr u" "foldR f ns u = Inr us"
    using Cons.prems(1) by (auto simp: bindR_Inr_conv)
  have s: "ensured ts xs u" "Q n u" using Cons.prems(2) [OF _ _ u(1)] by simp_all
  then have e: "enables ts u" by (simp add: ensured_def)
  have r: "ensured u xs us \<and> (\<forall>n \<in> set ns. Q n us)"
    by (rule Cons.IH [OF u(2)]) (use Cons.prems(2) enables_trans [OF e] in auto)
  have "Q n us" using s(2) r assms(3) by (auto simp: ensured_def)
  with r s(1) show ?case using ensured_trans by auto
qed (simp add: ensured_refl)

lemma enable_child_InrE:
  assumes "enable_child ensure d u = Inr v"
  obtains c a dis where "resolveTestNameToTestAndArtifact d u True = Inr (c, a)"
    "disabled_of_test (the (map_of u c)) = Inr dis"
    "(if dis then ensure c (alist_set c (enable_test (the (map_of u c))) u) else Inr u) = Inr v"
proof (cases "resolveTestNameToTestAndArtifact d u True")
  case (Inr r)
  obtain c a where r: "r = (c, a)" by (cases r)
  with assms Inr have "bindR (disabled_of_test (the (map_of u c))) (\<lambda>dis.
      if dis then ensure c (alist_set c (enable_test (the (map_of u c))) u) else Inr u) = Inr v"
    unfolding enable_child_def Let_def by (simp only: bindR.simps fst_conv)
  then show ?thesis by (rule bindR_InrE) (use that Inr r in blast)
qed (use assms in \<open>simp add: enable_child_def\<close>)

lemma ensureChildren_ensured:
  assumes "ensureChildrenNotDisabled n x ts = Inr us" "x \<in> fst ` set ts"
  shows "ensured ts {x} us \<and> child_of ts `` {x} \<subseteq> enabled_tests us"
  using assms
proof (induction n arbitrary: x ts us)
  case (Suc n)
  obtain t where t: "map_of ts x = Some t" using Suc.prems(2) by (metis map_of_eq_None_iff not_Some_eq)
  let ?Q = "\<lambda>d u. \<forall>c a. resolveTestNameToTestAndArtifact d ts True = Inr (c, a) \<longrightarrow> c \<in> enabled_tests u"
  have "ensured ts {x} us \<and> (\<forall>d \<in> set (internal_names t). ?Q d us)"
  proof (rule foldR_ensured)
    show "foldR (enable_child (ensureChildrenNotDisabled n)) (internal_names t) ts = Inr us"
      using Suc.prems(1) t by simp
    show "?Q d v" if "?Q d u" "enables u v" for d u v using that enables_mono by blast
    fix d u v assume d: "d \<in> set (internal_names t)" and e: "enables ts u"
      and v: "enable_child (ensureChildrenNotDisabled n) d u = Inr v"
    have f: "fst ` set u = fst ` set ts" using e by (simp add: enables_def)
    obtain c a dis where r: "resolveTestNameToTestAndArtifact d u True = Inr (c, a)"
      "disabled_of_test (the (map_of u c)) = Inr dis"
      "(if dis then ensureChildrenNotDisabled n c (alist_set c (enable_test (the (map_of u c))) u)
        else Inr u) = Inr v"
      using enable_child_InrE [OF v] by blast
    obtain tc where tc: "map_of u c = Some tc"
      using resolve_name_in [OF r(1)] by (metis map_of_eq_None_iff not_Some_eq)
    have xc: "(x, c) \<in> child_of u"
      using t d r(1) enables_children [OF e] resolve_name_ignoring [OF f]
      unfolding child_of_def by auto
    have "ensured u {x} v \<and> c \<in> enabled_tests v"
    proof (cases dis)
      case False
      then show ?thesis using r tc by (auto simp: ensured_refl enabled_tests_def)
    next
      case True
      let ?u1 = "alist_set c (enable_test tc) u"
      have one: "enables u ?u1" "enabled_tests ?u1 = insert c (enabled_tests u)"
        using enable_one [OF tc] r(2) tc True by simp_all
      have "c \<in> fst ` set ?u1" using keys_alist_set [of c "enable_test tc" u] by simp
      then have IH: "ensured ?u1 {c} v \<and> child_of ?u1 `` {c} \<subseteq> enabled_tests v"
        using Suc.IH r(3) tc True by simp
      note ch = enables_children [OF one(1)]
      have ev: "enables ?u1 v" using IH by (simp add: ensured_def)
      have "(child_of u)\<^sup>+ `` {c} \<subseteq> (child_of u)\<^sup>+ `` {x}" using xc by (auto intro: trancl_into_trancl2)
      then have "enabled_tests v \<subseteq> enabled_tests u \<union> (child_of u)\<^sup>+ `` {x}"
        using IH xc unfolding ensured_def ch one(2) by blast
      moreover have "\<forall>y \<in> enabled_tests v - enabled_tests u. child_of u `` {y} \<subseteq> enabled_tests v"
        using IH unfolding ensured_def ch one(2) by blast
      moreover have "c \<in> enabled_tests v" using enables_mono [OF ev] one(2) by blast
      ultimately show ?thesis using enables_trans [OF one(1) ev] by (simp add: ensured_def)
    qed
    with r(1) show "ensured u {x} v \<and> ?Q d v" using resolve_name_ignoring [OF f] by auto
  qed
  moreover have "child_of ts `` {x} \<subseteq> enabled_tests us"
    using calculation t unfolding child_of_def by auto
  ultimately show ?case by blast
qed simp

lemma ensure_root_ensured:
  assumes "ensure_root n x ts = Inr us" "x \<in> fst ` set ts"
  shows "enables ts us"
    and "\<forall>y \<in> enabled_tests us - enabled_tests ts. child_of ts `` {y} \<subseteq> enabled_tests us"
    and "enabled_tests us \<subseteq> (child_of ts)\<^sup>* `` enabled_tests ts"
    and "x \<in> enabled_tests ts \<Longrightarrow> child_of ts `` {x} \<subseteq> enabled_tests us"
proof -
  obtain t where t: "map_of ts x = Some t" using assms(2) by (metis map_of_eq_None_iff not_Some_eq)
  obtain dis where d: "disabled_of_test t = Inr dis"
      "(if \<not> dis then ensureChildrenNotDisabled n x ts else Inr ts) = Inr us"
    using assms(1) t unfolding ensure_root_def bindR_Inr_conv by auto
  have "enables ts us \<and>
    (\<forall>y \<in> enabled_tests us - enabled_tests ts. child_of ts `` {y} \<subseteq> enabled_tests us) \<and>
    enabled_tests us \<subseteq> (child_of ts)\<^sup>* `` enabled_tests ts \<and>
    (x \<in> enabled_tests ts \<longrightarrow> child_of ts `` {x} \<subseteq> enabled_tests us)"
  proof (cases dis)
    case True
    then show ?thesis using d t by (auto simp: enabled_tests_def)
  next
    case False
    then have e: "ensured ts {x} us \<and> child_of ts `` {x} \<subseteq> enabled_tests us"
      using ensureChildren_ensured assms(2) d(2) by simp
    have "x \<in> enabled_tests ts" using False d(1) t by (simp add: enabled_tests_def)
    then have "(child_of ts)\<^sup>+ `` {x} \<subseteq> (child_of ts)\<^sup>* `` enabled_tests ts" by auto
    moreover have "enabled_tests ts \<subseteq> (child_of ts)\<^sup>* `` enabled_tests ts" by auto
    ultimately show ?thesis using e unfolding ensured_def by blast
  qed
  then show "enables ts us"
    and "\<forall>y \<in> enabled_tests us - enabled_tests ts. child_of ts `` {y} \<subseteq> enabled_tests us"
    and "enabled_tests us \<subseteq> (child_of ts)\<^sup>* `` enabled_tests ts"
    and "x \<in> enabled_tests ts \<Longrightarrow> child_of ts `` {x} \<subseteq> enabled_tests us"
    by blast+
qed

lemma foldR_ensure_root:
  assumes "foldR (ensure_root n) ns ts = Inr us" "set ns \<subseteq> fst ` set ts"
  shows "enables ts us \<and>
    (\<forall>y \<in> enabled_tests us - enabled_tests ts. child_of ts `` {y} \<subseteq> enabled_tests us) \<and>
    enabled_tests us \<subseteq> (child_of ts)\<^sup>* `` enabled_tests ts \<and>
    (\<forall>x \<in> set ns \<inter> enabled_tests ts. child_of ts `` {x} \<subseteq> enabled_tests us)"
  using assms
proof (induction ns arbitrary: ts)
  case (Cons x ns)
  obtain u where u: "ensure_root n x ts = Inr u" "foldR (ensure_root n) ns u = Inr us"
    using Cons.prems(1) by (auto simp: bindR_Inr_conv)
  have "x \<in> fst ` set ts" using Cons.prems(2) by simp
  note r = ensure_root_ensured [OF u(1) this]
  have "set ns \<subseteq> fst ` set u" using Cons.prems(2) r(1) by (simp add: enables_def)
  note IH = Cons.IH [OF u(2) this, unfolded enables_children [OF r(1)]]
  have m: "enabled_tests ts \<subseteq> enabled_tests u" "enabled_tests u \<subseteq> enabled_tests us"
    using enables_mono r(1) IH by blast+
  have "(child_of ts)\<^sup>* `` enabled_tests u \<subseteq> (child_of ts)\<^sup>* `` enabled_tests ts"
    using r(3) by (auto intro: rtrancl_trans)
  then have "enabled_tests us \<subseteq> (child_of ts)\<^sup>* `` enabled_tests ts" using IH by blast
  moreover have "\<forall>y \<in> enabled_tests us - enabled_tests ts. child_of ts `` {y} \<subseteq> enabled_tests us"
    using IH r(2) m by blast
  moreover have "\<forall>y \<in> set (x # ns) \<inter> enabled_tests ts. child_of ts `` {y} \<subseteq> enabled_tests us"
    using IH r(4) m by auto
  ultimately show ?case using enables_trans [OF r(1)] IH by blast
qed auto

text \<open>The search for tests to enable ends: each level of recursion has enabled one more test.\<close>

definition disabled_tests :: "test_dict \<Rightarrow> string set" where
  "disabled_tests tests = {x. \<exists>t. map_of tests x = Some t \<and> disabled_of_test t = Inr True}"

lemma finite_disabled: "finite (disabled_tests ts)" "card (disabled_tests ts) \<le> length ts"
proof -
  have "disabled_tests ts \<subseteq> set (map fst ts)"
    by (auto simp: disabled_tests_def dest: map_of_in_keys)
  then show "finite (disabled_tests ts)" using finite_subset by blast
  have "card (disabled_tests ts) \<le> card (set (map fst ts))"
    using \<open>disabled_tests ts \<subseteq> set (map fst ts)\<close> by (simp add: card_mono)
  also have "\<dots> \<le> length ts" using card_length [of "map fst ts"] by simp
  finally show "card (disabled_tests ts) \<le> length ts" .
qed

lemma enables_disabled:
  assumes "enables ts us"
  shows "disabled_tests us \<subseteq> disabled_tests ts"
proof
  fix x assume "x \<in> disabled_tests us"
  then obtain t where t: "map_of us x = Some t" "disabled_of_test t = Inr True"
    by (auto simp: disabled_tests_def)
  then obtain s where s: "map_of ts x = Some s"
    using assms unfolding enables_def by (metis map_of_eq_None_iff not_Some_eq option.distinct(1))
  then have "t = s \<or> t = enable_test s" using enablesD [OF assms s] t(1) by auto
  then have "t = s" using t(2) by (auto simp: enable_test_def disabled_of_test_def split: test_definition.splits)
  then show "x \<in> disabled_tests ts" using s t(2) by (simp add: disabled_tests_def)
qed

lemma enable_child_enables:
  assumes "enable_child (ensureChildrenNotDisabled n) d u = Inr v"
  shows "enables u v"
proof -
  obtain c a dis where r: "resolveTestNameToTestAndArtifact d u True = Inr (c, a)"
    "disabled_of_test (the (map_of u c)) = Inr dis"
    "(if dis then ensureChildrenNotDisabled n c (alist_set c (enable_test (the (map_of u c))) u)
      else Inr u) = Inr v"
    using enable_child_InrE [OF assms] by blast
  obtain t where t: "map_of u c = Some t"
    using resolve_name_in [OF r(1)] by (metis map_of_eq_None_iff not_Some_eq)
  show ?thesis
  proof (cases dis)
    case True
    let ?u1 = "alist_set c (enable_test t) u"
    have "c \<in> fst ` set ?u1" using keys_alist_set [of c "enable_test t" u] by simp
    then have "enables ?u1 v" using ensureChildren_ensured r(3) True t by (simp add: ensured_def)
    moreover have "enables u ?u1" using enable_one(1) [OF t] r(2) t True by simp
    ultimately show ?thesis using enables_trans by blast
  qed (use r in simp)
qed

lemma ensureChildren_ends:
  "card (disabled_tests ts) < n \<Longrightarrow> x \<in> fst ` set ts \<Longrightarrow>
   ensureChildrenNotDisabled n x ts \<noteq> Inl RecursionError"
proof (induction n arbitrary: x ts)
  case (Suc n)
  have step: "enable_child (ensureChildrenNotDisabled n) d u \<noteq> Inl RecursionError"
    if e: "enables ts u" for d u
  proof
    assume v: "enable_child (ensureChildrenNotDisabled n) d u = Inl RecursionError"
    then obtain r where r: "resolveTestNameToTestAndArtifact d u True = Inr r"
      by (cases "resolveTestNameToTestAndArtifact d u True")
        (auto simp: enable_child_def resolveTestNameToTestAndArtifact_def user_warning_def
          split: option.splits prod.splits)
    obtain t where t: "map_of u (fst r) = Some t"
      using resolve_name_in [of d u "fst r" "snd r"] r by (metis map_of_eq_None_iff not_Some_eq prod.collapse)
    with v r obtain dis where dis: "disabled_of_test t = Inr dis"
      by (cases t) (auto simp: enable_child_def disabled_of_test_def)
    with v r t have dis: "disabled_of_test t = Inr True" by (cases dis) (auto simp: enable_child_def)
    let ?u1 = "alist_set (fst r) (enable_test t) u"
    have rec: "ensureChildrenNotDisabled n (fst r) ?u1 = Inl RecursionError"
      using v r t dis by (simp add: enable_child_def Let_def)
    have "disabled_tests ?u1 = disabled_tests u - {fst r}"
      using t dis by (auto simp: disabled_tests_def)
    moreover have "fst r \<in> disabled_tests u" using t dis by (simp add: disabled_tests_def)
    moreover have "disabled_tests u \<subseteq> disabled_tests ts" using enables_disabled [OF e] .
    ultimately have "card (disabled_tests ?u1) < card (disabled_tests ts)"
      using finite_disabled by (metis card_Diff1_less card_mono order_less_le_trans)
    then have "card (disabled_tests ?u1) < n" using Suc.prems(1) by simp
    moreover have "fst r \<in> fst ` set ?u1" using keys_alist_set [of "fst r" "enable_test t" u] by simp
    ultimately show False using Suc.IH rec by blast
  qed
  have loop: "foldR (enable_child (ensureChildrenNotDisabled n)) ns u \<noteq> Inl RecursionError"
    if "enables ts u" for ns u using that
  proof (induction ns arbitrary: u)
    case (Cons d ns)
    show ?case
    proof
      assume "foldR (enable_child (ensureChildrenNotDisabled n)) (d # ns) u = Inl RecursionError"
      then obtain v where v: "enable_child (ensureChildrenNotDisabled n) d u = Inr v"
          "foldR (enable_child (ensureChildrenNotDisabled n)) ns v = Inl RecursionError"
        using step [OF Cons.prems] by (auto simp: bindR_Inl_conv)
      then have "enables u v" using enable_child_enables by blast
      then show False using Cons.IH v(2) enables_trans [OF Cons.prems] by blast
    qed
  qed simp
  show ?case using loop [of ts] by simp
qed simp

lemma ensure_all_ends:
  assumes "length ts < n" "set ns \<subseteq> fst ` set us" "card (disabled_tests us) \<le> length ts"
  shows "foldR (ensure_root n) ns us \<noteq> Inl RecursionError"
  using assms(2,3)
proof (induction ns arbitrary: us)
  case (Cons x ns)
  show ?case
  proof
    assume e: "foldR (ensure_root n) (x # ns) us = Inl RecursionError"
    have x: "x \<in> fst ` set us" using Cons.prems(1) by simp
    have "ensure_root n x us \<noteq> Inl RecursionError"
      using ensureChildren_ends [of us n x] x Cons.prems(2) assms(1)
      by (cases "the (map_of us x)") (auto simp: ensure_root_def disabled_of_test_def)
    then obtain v where v: "ensure_root n x us = Inr v" "foldR (ensure_root n) ns v = Inl RecursionError"
      using e by (auto simp: bindR_Inl_conv)
    have en: "enables us v" using ensure_root_ensured(1) [OF v(1) x] .
    then have "card (disabled_tests v) \<le> length ts"
      using enables_disabled [OF en] Cons.prems(2) card_mono [OF finite_disabled(1)] order_trans by blast
    moreover have "set ns \<subseteq> fst ` set v" using en Cons.prems(1) by (simp add: enables_def)
    ultimately show False using Cons.IH v(2) by blast
  qed
qed simp

text \<open>C33: Enabling the tests that enabled tests need: given more levels of recursion than there
  are tests, the code never exhausts them, and when it returns, the tests are the same, some of
  them enabled, and the enabled ones are exactly those an initially enabled test reaches through
  its internal dependencies.\<close>

theorem enabled_tests_are_closed:
  assumes "length tests < n"
  shows "case ensureAllAppropriateChildrenEnabled n tests of
      Inl e \<Rightarrow> e \<noteq> RecursionError
    | Inr ts \<Rightarrow> enables tests ts \<and> enabled_tests ts = (child_of tests)\<^sup>* `` enabled_tests tests"
proof (cases "ensureAllAppropriateChildrenEnabled n tests")
  case (Inl e)
  have "ensureAllAppropriateChildrenEnabled n tests \<noteq> Inl RecursionError"
    unfolding ensureAllAppropriateChildrenEnabled_def
    using ensure_all_ends [OF assms _ finite_disabled(2)] by simp
  with Inl show ?thesis by auto
next
  case (Inr ts)
  have r: "enables tests ts \<and>
    (\<forall>y \<in> enabled_tests ts - enabled_tests tests. child_of tests `` {y} \<subseteq> enabled_tests ts) \<and>
    enabled_tests ts \<subseteq> (child_of tests)\<^sup>* `` enabled_tests tests \<and>
    (\<forall>x \<in> set (map fst tests) \<inter> enabled_tests tests. child_of tests `` {x} \<subseteq> enabled_tests ts)"
    by (rule foldR_ensure_root) (use Inr in \<open>simp_all add: ensureAllAppropriateChildrenEnabled_def\<close>)
  have "enabled_tests tests \<subseteq> set (map fst tests)"
    by (auto simp: enabled_tests_def dest: map_of_in_keys)
  then have closed: "child_of tests `` {y} \<subseteq> enabled_tests ts" if "y \<in> enabled_tests ts" for y
    using r that by blast
  have "y \<in> enabled_tests ts" if "(x, y) \<in> (child_of tests)\<^sup>*" "x \<in> enabled_tests tests" for x y
    using that
  proof (induction rule: rtrancl_induct)
    case base
    then show ?case using r enables_mono by blast
  next
    case (step y z)
    then show ?case using closed by blast
  qed
  then have "(child_of tests)\<^sup>* `` enabled_tests tests \<subseteq> enabled_tests ts" by blast
  with r Inr show ?thesis by auto
qed

text \<open>Two tests: an enabled one, and a disabled build that it depends on.\<close>

definition plain_fields :: "string \<Rightarrow> (string \<times> test_dependency) list \<Rightarrow> test_fields" where
  "plain_fields name deps = \<lparr>test_hash = '''', test_name = name, configuration = '''',
     project = '''', test_environment_name = ''linux'', environment_mixins = [],
     environment = None, dependencies = deps, variables = [], timeout = 0, min_cores = 1,
     max_cores = 1, min_ram_gb = 0, min_disk_gb = 0\<rparr>"

definition demo_build :: "bool \<Rightarrow> test_definition" where
  "demo_build dis = Build (plain_fields ''b/linux'' []) [] dis 0 0"

definition demo_user :: test_definition where
  "demo_user = Test (plain_fields ''t/linux'' [(''test_inputs/b'', DepInternalBuild ''b/linux'')]) [] False"

lemma enabled_tests_are_closed_witness:
  "ensureAllAppropriateChildrenEnabled 3 [(''t/linux'', demo_user), (''b/linux'', demo_build True)] =
     Inr [(''t/linux'', demo_user), (''b/linux'', demo_build False)] \<and>
   enabled_tests [(''t/linux'', demo_user), (''b/linux'', demo_build False)] =
     (child_of [(''t/linux'', demo_user), (''b/linux'', demo_build True)])\<^sup>* ``
       enabled_tests [(''t/linux'', demo_user), (''b/linux'', demo_build True)]"
proof -
  have "find_split (py_split slash ''b/linux'') {''t/linux'', ''b/linux''} = Some (''b/linux'', '''')"
    by (simp add: find_split_def upt_rec)
  then have e: "ensureAllAppropriateChildrenEnabled 3 [(''t/linux'', demo_user), (''b/linux'', demo_build True)]
      = Inr [(''t/linux'', demo_user), (''b/linux'', demo_build False)]"
    by (simp add: ensureAllAppropriateChildrenEnabled_def ensure_root_def demo_user_def demo_build_def
        disabled_of_test_def internal_names_def plain_fields_def enable_child_def enable_test_def
        resolveTestNameToTestAndArtifact_def eval_nat_numeral List.map_filter_simps Let_def)
  show ?thesis
    using enabled_tests_are_closed [of "[(''t/linux'', demo_user), (''b/linux'', demo_build True)]" 3] e
    by simp
qed

end
