(* ===== verification/Py_Fnmatch.thy ===== *)
theory Py_Fnmatch
  imports Py_String
begin

text \<open>
  \<open>fnmatch.fnmatchcase\<close> of Python's standard library: shell patterns over byte strings, with the
  character classes that the regular expressions they are translated to have. A range whose end is
  before its start is an error of the regular expression.
\<close>

datatype glob = GAny | GOne | GLit char | GClass bool "(char \<times> char) list"

abbreviation char_code :: "char \<Rightarrow> nat" where
  "char_code \<equiv> of_char"

fun class_items :: "string \<Rightarrow> (char \<times> char) list res" where
  "class_items [] = Inr []"
| "class_items [a] = Inr [(a, a)]"
| "class_items [a, b] = Inr [(a, a), (b, b)]"
| "class_items (a # b # c # r) =
     (if b = CHR ''-'' then
        if char_code c < char_code a then Inl (UserException ''bad character range'')
        else bindR (class_items r) (\<lambda>is. Inr ((a, c) # is))
      else bindR (class_items (b # c # r)) (\<lambda>is. Inr ((a, a) # is)))"

text \<open>The body of a class that starts here, and what follows it.\<close>

definition class_body :: "string \<Rightarrow> (string \<times> string) option" where
  "class_body s =
     (let n1 = (if starts_with ''!'' s then 1 else 0);
          n2 = (if starts_with '']'' (drop n1 s) then n1 + 1 else n1);
          n3 = n2 + length (takeWhile (\<lambda>c. c \<noteq> CHR '']'') (drop n2 s))
      in if n3 \<ge> length s then None else Some (take n3 s, drop (Suc n3) s))"

lemma class_body_shorter: "class_body s = Some (b, r) \<Longrightarrow> length r < length s"
  by (auto simp: class_body_def Let_def split: if_splits)

function glob_parse :: "string \<Rightarrow> glob list res" where
  "glob_parse [] = Inr []"
| "glob_parse (c # s) =
     (if c = CHR ''*'' then bindR (glob_parse s) (\<lambda>gs. Inr (GAny # gs))
      else if c = CHR ''?'' then bindR (glob_parse s) (\<lambda>gs. Inr (GOne # gs))
      else if c = CHR ''['' then
        (case class_body s of
           None \<Rightarrow> bindR (glob_parse s) (\<lambda>gs. Inr (GLit c # gs))
         | Some (body, r) \<Rightarrow>
             let neg = starts_with ''!'' body in
             bindR (class_items (if neg then tl body else body)) (\<lambda>is.
             bindR (glob_parse r) (\<lambda>gs. Inr (GClass neg is # gs))))
      else bindR (glob_parse s) (\<lambda>gs. Inr (GLit c # gs)))"
  by pat_completeness auto
termination
  by (relation "measure length") (auto dest: class_body_shorter)

fun glob_char :: "glob \<Rightarrow> char \<Rightarrow> bool" where
  "glob_char GAny c = True"
| "glob_char GOne c = True"
| "glob_char (GLit d) c = (c = d)"
| "glob_char (GClass neg is) c =
     (neg \<noteq> (\<exists>(a, b) \<in> set is. char_code a \<le> char_code c \<and> char_code c \<le> char_code b))"

fun glob_match :: "glob list \<Rightarrow> string \<Rightarrow> bool" where
  "glob_match [] s = (s = [])"
| "glob_match (g # gs) [] = (g = GAny \<and> glob_match gs [])"
| "glob_match (g # gs) (c # s) =
     (if g = GAny then glob_match gs (c # s) \<or> glob_match (g # gs) s
      else glob_char g c \<and> glob_match gs s)"

definition fnmatchcase :: "string \<Rightarrow> string \<Rightarrow> bool res" where
  "fnmatchcase name pat = bindR (glob_parse pat) (\<lambda>gs. Inr (glob_match gs name))"

text \<open>A pattern without a special character matches itself only.\<close>

lemma fnmatch_plain:
  assumes "set pat \<inter> {CHR ''*'', CHR ''?'', CHR ''[''} = {}"
  shows "fnmatchcase name pat = Inr (name = pat)"
proof -
  have "glob_parse pat = Inr (map GLit pat)" using assms by (induction pat) auto
  moreover have "glob_match (map GLit pat) name \<longleftrightarrow> name = pat"
  proof (induction pat arbitrary: name)
    case (Cons c pat)
    then show ?case by (cases name) auto
  qed simp
  ultimately show ?thesis by (simp add: fnmatchcase_def)
qed

lemma fnmatch_star: "fnmatchcase name ''*'' = Inr True"
proof -
  have "glob_match [GAny] name" by (induction name) auto
  then show ?thesis by (simp add: fnmatchcase_def)
qed

end
