(* ===== verification/Definition_Resolver.thy ===== *)
theory Definition_Resolver
  imports Resolver_Monad Resolver_Rules Py_Fnmatch
begin

text \<open>
  \<open>TestDefinitionResolver\<close> across repositories: reading the definitions of a commit, resolving its
  references to repositories, following its includes, and resolving its environments and tests.
  Calls that recurse (through the imports of other commits or through the tests of this one) take
  the number of levels the interpreter has left. What git answers is a parameter, and so are the
  YAML and JSON parsers, the decoder of the script's typed union and the hash of a test.

  The code's \<open>_withReplacement\<close> also changes the instance it is called on. Where that instance is
  used again it is modelled: an environment with its variables applied replaces the one that other
  environments import.
\<close>

section \<open>What the resolver calls\<close>

record git_repo =
  commitExists :: "string \<Rightarrow> bool"
  getTestDefinitionsPath :: "string \<Rightarrow> string option"
  getFileContents :: "string \<Rightarrow> string \<Rightarrow> string option"
  mostRecentHashForSubpath :: "string \<Rightarrow> string \<Rightarrow> string option"

record services =
  git_repo_lookup :: "string \<Rightarrow> git_repo option"
  parse_yaml :: "string \<Rightarrow> pyval res"
  parse_json :: "string \<Rightarrow> pyval res"
  decode_script :: "pyval \<Rightarrow> test_script res"
  nesting :: nat
  sha_hash :: "test_definition \<Rightarrow> string"

section \<open>The file of a commit\<close>

text \<open>The extension that \<open>os.path.splitext\<close> splits off.\<close>

definition path_extension :: "string \<Rightarrow> string" where
  "path_extension path =
     (let base = path_last path;
          ext = rev (takeWhile (\<lambda>c. c \<noteq> CHR ''.'') (rev base));
          stem = take (length base - length ext - 1) base
      in if length ext = length base \<or> (\<forall>c \<in> set stem. c = CHR ''.'') then ''''
         else CHR ''.'' # ext)"

definition testDefinitionTextAndExtensionFor ::
    "services \<Rightarrow> string \<Rightarrow> string \<Rightarrow> (string option \<times> string \<times> string) option res" where
  "testDefinitionTextAndExtensionFor x repoName commitHash =
     (if \<not> isValidCommitRef commitHash then Inr None
      else case git_repo_lookup x repoName of
        None \<Rightarrow> Inl (MissingDependency repoName None)
      | Some repo \<Rightarrow>
          if \<not> commitExists repo commitHash then Inl (MissingDependency repoName (Some commitHash))
          else (case getTestDefinitionsPath repo commitHash of
            None \<Rightarrow> Inr None
          | Some path \<Rightarrow> Inr (Some (getFileContents repo commitHash path, path_extension path, path))))"

definition getRepoContentsAtPath :: "services \<Rightarrow> string \<Rightarrow> string \<Rightarrow> string \<Rightarrow> string option res" where
  "getRepoContentsAtPath x repoName commitHash path =
     (if \<not> isValidCommitRef commitHash then Inr None
      else case git_repo_lookup x repoName of
        None \<Rightarrow> Inl AttributeError
      | Some repo \<Rightarrow> Inr (getFileContents repo commitHash path))"

definition variable_dict :: "vardefs \<Rightarrow> pydict" where
  "variable_dict vs = map (\<lambda>(k, v). (VStr k, VStr v)) vs"

text \<open>A parser given no text at all raises.\<close>

definition extract_file ::
    "services \<Rightarrow> string \<Rightarrow> string \<Rightarrow> string \<Rightarrow> string option \<Rightarrow> vardefs \<Rightarrow> string set \<Rightarrow> extracted res" where
  "extract_file x repoName commitHash extension text defs external = (case text of
     Some s \<Rightarrow> extract_tests_from_str (parse_yaml x) (parse_json x) (nesting x) (decode_script x)
       repoName commitHash extension s (variable_dict defs) external
   | None \<Rightarrow> Inl (if extension = ''.yml'' then AttributeError else if extension = ''.json'' then TypeError
       else UserException ''extension''))"

definition store_raw :: "commit_key \<Rightarrow> extracted \<Rightarrow> resolver \<Rightarrow> resolver" where
  "store_raw key r s = s\<lparr>rawDefinitionsCache := (rawDefinitionsCache s)(key \<mapsto> r)\<rparr>"

definition unprocessedTestsEnvsAndReposFor :: "services \<Rightarrow> string \<Rightarrow> string \<Rightarrow> extracted call" where
  "unprocessedTestsEnvsAndReposFor x repoName commitHash =
     cached rawDefinitionsCache store_raw (repoName, commitHash)
       (bindS (liftS (testDefinitionTextAndExtensionFor x repoName commitHash)) (\<lambda>found.
        case found of
          None \<Rightarrow> retS \<lparr>ex_tests = [], ex_envs = [], ex_repos = [], ex_includes = [], ex_prioritize = []\<rparr>
        | Some (text, extension, path) \<Rightarrow>
            bindS (liftS (extract_file x repoName commitHash extension text [] {})) (\<lambda>r.
            bindS (modS (\<lambda>s. s\<lparr>rawDefinitionsPath :=
              (rawDefinitionsPath s)((repoName, commitHash) \<mapsto> path)\<rparr>)) (\<lambda>_. retS r))))"

definition unprocessedRepoPinsFor :: "services \<Rightarrow> string \<Rightarrow> string \<Rightarrow> repo_dict call" where
  "unprocessedRepoPinsFor x repoName commitHash =
     bindS (unprocessedTestsEnvsAndReposFor x repoName commitHash) (\<lambda>r.
     retS (filter (\<lambda>(k, v). is_Pin v) (ex_repos r)))"

section \<open>References to repositories\<close>

text \<open>\<open>reponame()\<close> and \<open>commitHash()\<close> of a reference that is not an import.\<close>

definition repo_of :: "repo_reference \<Rightarrow> string" where
  "repo_of ref = path_init (reference ref)"

definition hash_of :: "repo_reference \<Rightarrow> string" where
  "hash_of ref = path_last (reference ref)"

definition is_head :: "repo_reference \<Rightarrow> bool" where
  "is_head ref \<longleftrightarrow> RepoReference_commitHash ref = Some ''HEAD''"

fun is_plain :: "repo_reference \<Rightarrow> bool" where
  "is_plain (RepoReference _) = True"
| "is_plain _ = False"

definition original_reference :: "string \<Rightarrow> repo_reference \<Rightarrow> string" where
  "original_reference parent ref = (case ref of
     ImportedReference _ _ orig \<Rightarrow> orig
   | Pin _ branch _ _ \<Rightarrow> parent @ ''/'' @ branch
   | _ \<Rightarrow> '''')"

text \<open>One step of the path of an import: from a reference to one that its commit declares.\<close>

definition import_step ::
    "(string \<Rightarrow> string \<Rightarrow> repo_dict call) \<Rightarrow> string \<Rightarrow> string \<times> repo_reference \<Rightarrow>
     (string \<times> repo_reference) call" where
  "import_step repoReferencesFor s = (\<lambda>(parent, subref).
     bindS (repoReferencesFor (repo_of subref) (hash_of subref)) (\<lambda>repos_for_subref.
     case map_of repos_for_subref s of
       None \<Rightarrow> raiseS resolution_error
     | Some r \<Rightarrow> if is_Import r then raiseS AssertionError else retS (repo_of subref, r)))"

text \<open>The code looks for the name of the reference among the references it has passed through,
  where a name never is: a circular import ends when the interpreter has no levels left.\<close>

primrec resolveRepoRef ::
    "nat \<Rightarrow> (string \<Rightarrow> string \<Rightarrow> repo_dict call) \<Rightarrow> string \<Rightarrow> repo_dict \<Rightarrow> string \<times> repo_reference \<Rightarrow> repo_dict \<Rightarrow>
     (repo_reference \<times> repo_dict) call" where
  "resolveRepoRef 0 refsFor cur repos = (\<lambda>_ _. raiseS RecursionError)"
| "resolveRepoRef (Suc n) refsFor cur repos = (\<lambda>(refName, ref) resolved. case ref of
     RepoImport imp \<Rightarrow>
       (case map_of resolved refName of
          Some r \<Rightarrow> retS (r, resolved)
        | None \<Rightarrow>
            let importSeq = py_split slash imp in
            case map_of repos (hd importSeq) of
              None \<Rightarrow> raiseS resolution_error
            | Some target \<Rightarrow>
                bindS (resolveRepoRef n refsFor cur repos (hd importSeq, target) resolved)
                  (\<lambda>(subref, resolved).
                bindS (foldS (import_step refsFor) (tl importSeq) (cur, subref)) (\<lambda>(parent, subref).
                let r = ImportedReference (reference subref) imp (original_reference parent subref)
                in retS (r, alist_set refName r resolved))))
   | _ \<Rightarrow> retS (ref, resolved))"

definition resolveRepoDefinitions ::
    "nat \<Rightarrow> (string \<Rightarrow> string \<Rightarrow> repo_dict call) \<Rightarrow> string \<Rightarrow> repo_dict \<Rightarrow> repo_dict call" where
  "resolveRepoDefinitions n refsFor cur repos =
     (if \<exists>r \<in> snd ` set repos. is_head r
      then retS (filter (\<lambda>(k, v). is_Pin v \<or> is_plain v) repos)
      else foldS (\<lambda>(r, ref) resolved.
        bindS (resolveRepoRef n refsFor cur repos (r, ref) resolved) (\<lambda>(res, resolved).
        retS (alist_set r res resolved))) repos [])"

text \<open>The error for a path that starts with nothing known is not the intended one: its message
  uses a variable that does not exist there.\<close>

definition resolveIncludeString ::
    "repo_dict \<Rightarrow> string \<Rightarrow> string \<Rightarrow> string option \<Rightarrow> string \<Rightarrow> (string \<times> string \<times> string) res" where
  "resolveIncludeString repos repoName commitHash raw_path path =
     (let items = py_split slash path; h = hd items in
      if h = '''' then Inr (repoName, commitHash, join_slash (tl items))
      else if h = ''.'' \<or> h = ''..'' then
        (case raw_path of
           None \<Rightarrow> Inl KeyError
         | Some p \<Rightarrow> Inr (repoName, commitHash, resolvePath (p @ ''/../'' @ path)))
      else case map_of repos h of
        None \<Rightarrow> Inl NameError
      | Some r \<Rightarrow> Inr (repo_of r, hash_of r, join_slash (tl items)))"

section \<open>Includes\<close>

definition MAX_INCLUDE_ATTEMPTS :: nat where
  "MAX_INCLUDE_ATTEMPTS = 128"

type_synonym include_key = "(string \<times> string \<times> string) \<times> vardefs"

record include_state =
  inc_tests :: test_dict
  inc_envs :: environments
  inc_repos :: repo_dict
  inc_pending :: "define_include list"
  everIncluded :: "include_key list"
  attempts :: nat

text \<open>The dicts of tests and environments are those of the cached definitions: what is added to
  them stays there when a later step raises.\<close>

definition add_raw_envs :: "commit_key \<Rightarrow> environments \<Rightarrow> resolver \<Rightarrow> resolver" where
  "add_raw_envs key envs s = s\<lparr>rawDefinitionsCache := (rawDefinitionsCache s)(key :=
     map_option (\<lambda>r. r\<lparr>ex_envs := envs\<rparr>) (rawDefinitionsCache s key))\<rparr>"

definition add_raw_tests :: "commit_key \<Rightarrow> test_dict \<Rightarrow> resolver \<Rightarrow> resolver" where
  "add_raw_tests key tests s = s\<lparr>rawDefinitionsCache := (rawDefinitionsCache s)(key :=
     map_option (\<lambda>r. r\<lparr>ex_tests := tests\<rparr>) (rawDefinitionsCache s key))\<rparr>"

definition refuse :: "bool \<Rightarrow> unit call" where
  "refuse b = (if b then raiseS resolution_error else retS ())"

definition bad_new_repo :: "repo_dict \<Rightarrow> string \<times> repo_reference \<Rightarrow> bool" where
  "bad_new_repo repos = (\<lambda>(name, r). name \<in> fst ` set repos \<or> (is_Pin r \<and> pin_auto r))"

text \<open>What a file that has been read adds.\<close>

definition merge_included ::
    "nat \<Rightarrow> (string \<Rightarrow> string \<Rightarrow> repo_dict call) \<Rightarrow> string \<Rightarrow> string \<Rightarrow> include_state \<Rightarrow> extracted \<Rightarrow> include_state call" where
  "merge_included n refsFor repoName commitHash st new =
     bindS (refuse (ex_prioritize new \<noteq> [])) (\<lambda>_.
     bindS (refuse (\<exists>r \<in> set (ex_repos new). bad_new_repo (inc_repos st) r)) (\<lambda>_.
     bindS (resolveRepoDefinitions n refsFor repoName (alist_update (inc_repos st) (ex_repos new)))
       (\<lambda>repos.
     bindS (refuse (\<exists>e \<in> fst ` set (ex_envs new). e \<in> fst ` set (inc_envs st) \<union> fst ` set repos)) (\<lambda>_.
     let envs = alist_update (inc_envs st) (ex_envs new) in
     bindS (modS (add_raw_envs (repoName, commitHash) envs)) (\<lambda>_.
     bindS (refuse (\<exists>t \<in> fst ` set (ex_tests new).
       t \<in> fst ` set (inc_tests st) \<union> fst ` set envs \<union> fst ` set repos)) (\<lambda>_.
     let tests = alist_update (inc_tests st) (ex_tests new) in
     bindS (modS (add_raw_tests (repoName, commitHash) tests)) (\<lambda>_.
     retS (st\<lparr>inc_tests := tests, inc_envs := envs, inc_repos := repos,
       inc_pending := inc_pending st @ ex_includes new\<rparr>))))))))"

definition include_step ::
    "services \<Rightarrow> nat \<Rightarrow> (string \<Rightarrow> string \<Rightarrow> repo_dict call) \<Rightarrow> string \<Rightarrow> string \<Rightarrow> include_state \<Rightarrow> include_state call" where
  "include_step x n refsFor repoName commitHash st = (case inc_pending st of
     [] \<Rightarrow> retS st
   | i # rest \<Rightarrow>
       let st = st\<lparr>inc_pending := rest\<rparr> in
       bindS (getS rawDefinitionsPath) (\<lambda>paths.
       bindS (liftS (resolveIncludeString (inc_repos st) repoName commitHash
         (paths (repoName, commitHash)) (include_path i))) (\<lambda>(r, h, p).
       let key = ((r, h, p), include_variables i) in
       if key \<in> set (everIncluded st) then retS st
       else if attempts st + 1 > MAX_INCLUDE_ATTEMPTS then raiseS resolution_error
       else bindS (liftS (getRepoContentsAtPath x r h p)) (\<lambda>contents.
         case contents of
           None \<Rightarrow> raiseS resolution_error
         | Some text \<Rightarrow>
             bindS (liftS (extract_file x repoName commitHash (path_extension p) (Some text)
               (include_variables i) (fst ` set (inc_repos st)))) (\<lambda>new.
             merge_included n refsFor repoName commitHash
               (st\<lparr>everIncluded := everIncluded st @ [key], attempts := attempts st + 1\<rparr>) new)))))"

text \<open>Each round reads one more file, or has one include less to look at.\<close>

lemma merge_included_counts:
  "merge_included n refsFor r h st new s = Some (Inr st', t) \<Longrightarrow>
   attempts st' = attempts st \<and> everIncluded st' = everIncluded st"
  by (auto simp: merge_included_def bindS_Some_Inr Let_def retS_def)

lemma include_step_counts:
  assumes "include_step x n refsFor r h st s = Some (Inr st', t)" "inc_pending st = i # rest"
  shows "(attempts st' = attempts st \<and> everIncluded st' = everIncluded st \<and> inc_pending st' = rest) \<or>
    (attempts st' = attempts st + 1 \<and> attempts st' \<le> MAX_INCLUDE_ATTEMPTS \<and>
     (\<exists>key. everIncluded st' = everIncluded st @ [key] \<and> key \<notin> set (everIncluded st)))"
proof -
  obtain rr hh p where res: "resolveIncludeString (inc_repos st) r h (rawDefinitionsPath s (r, h))
      (include_path i) = Inr (rr, hh, p)"
    using assms by (auto simp: include_step_def Let_def bindS_Some_Inr liftS_def)
  let ?key = "((rr, hh, p), include_variables i)"
  show ?thesis
  proof (cases "?key \<in> set (everIncluded st)")
    case True
    with assms res show ?thesis by (auto simp: include_step_def Let_def retS_def)
  next
    case False
    let ?st = "st\<lparr>inc_pending := rest, everIncluded := everIncluded st @ [?key],
      attempts := attempts st + 1\<rparr>"
    from False assms res have a: "attempts st + 1 \<le> MAX_INCLUDE_ATTEMPTS"
      by (auto simp: include_step_def Let_def raiseS_def split: if_splits)
    with False assms res obtain new u where
        "merge_included n refsFor r h ?st new u = Some (Inr st', t)"
      by (auto simp: include_step_def Let_def bindS_Some_Inr liftS_def raiseS_def
          split: if_splits option.splits)
    from merge_included_counts [OF this] a False show ?thesis by auto
  qed
qed

function include_loop ::
    "services \<Rightarrow> nat \<Rightarrow> (string \<Rightarrow> string \<Rightarrow> repo_dict call) \<Rightarrow> string \<Rightarrow> string \<Rightarrow> include_state \<Rightarrow> include_state call" where
  "include_loop x n refsFor repoName commitHash st s =
     (if inc_pending st = [] then retS st s
      else bindS (include_step x n refsFor repoName commitHash st)
        (include_loop x n refsFor repoName commitHash) s)"
  by pat_completeness auto
termination
proof (relation "measures [\<lambda>(x, n, f, r, h, st, s). MAX_INCLUDE_ATTEMPTS - attempts st,
    \<lambda>(x, n, f, r, h, st, s). length (inc_pending st)]")
  fix x n refsFor r h st s st' t
  assume "inc_pending st \<noteq> []" "include_step x n refsFor r h st s = Some (Inr st', t)"
  then show "((x, n, refsFor, r, h, st', t), x, n, refsFor, r, h, st, s) \<in>
      measures [\<lambda>(x, n, f, r, h, st, s). MAX_INCLUDE_ATTEMPTS - attempts st,
        \<lambda>(x, n, f, r, h, st, s). length (inc_pending st)]"
    using include_step_counts by (cases "inc_pending st") fastforce+
qed simp

declare include_loop.simps [simp del]

text \<open>A test stays enabled if the file prioritizes nothing, or something that matches its name.\<close>

definition prioritized :: "string list \<Rightarrow> string \<Rightarrow> test_definition \<Rightarrow> bool res" where
  "prioritized globs name t =
     bindR (disabled_of_test t) (\<lambda>dis.
     if dis then Inr True
     else bindR (mapR (fnmatchcase name) globs) (\<lambda>ms. Inr (\<not> (True \<in> set ms \<or> globs = []))))"

definition set_disabled :: "bool \<Rightarrow> test_definition \<Rightarrow> test_definition" where
  "set_disabled dis t = (case t of
     Build f ss d m w \<Rightarrow> Build f ss dis m w | Test f ss d \<Rightarrow> Test f ss dis | Deployment f p \<Rightarrow> t)"

definition prioritize_test ::
    "commit_key \<Rightarrow> string list \<Rightarrow> string \<Rightarrow> test_dict \<Rightarrow> test_dict call" where
  "prioritize_test key globs name tests =
     (let t = the (map_of tests name) in
      bindS (liftS (prioritized globs name t)) (\<lambda>dis.
      let tests = alist_set name (set_disabled dis t) tests in
      bindS (modS (add_raw_tests key tests)) (\<lambda>_. retS tests)))"

definition store_post :: "commit_key \<Rightarrow> post_include \<Rightarrow> resolver \<Rightarrow> resolver" where
  "store_post key p s =
     s\<lparr>postIncludeDefinitionsCache := (postIncludeDefinitionsCache s)(key \<mapsto> p)\<rparr>"

definition post_include_with ::
    "services \<Rightarrow> nat \<Rightarrow> (string \<Rightarrow> string \<Rightarrow> post_include call) \<Rightarrow> string \<Rightarrow> string \<Rightarrow> post_include call" where
  "post_include_with x n post repoName commitHash =
     (let refsFor = (\<lambda>r h. bindS (post r h) (\<lambda>p. retS (post_repos p))) in
      cached postIncludeDefinitionsCache store_post (repoName, commitHash)
        (bindS (unprocessedTestsEnvsAndReposFor x repoName commitHash) (\<lambda>raw.
         bindS (resolveRepoDefinitions n refsFor repoName (ex_repos raw)) (\<lambda>repos.
         if \<exists>r \<in> snd ` set repos. is_head r
         then retS \<lparr>post_tests = [], post_envs = [], post_repos = repos\<rparr>
         else bindS (include_loop x n refsFor repoName commitHash
             \<lparr>inc_tests = ex_tests raw, inc_envs = ex_envs raw, inc_repos = repos,
              inc_pending = ex_includes raw, everIncluded = [], attempts = 0\<rparr>) (\<lambda>st.
           bindS (foldS (prioritize_test (repoName, commitHash) (ex_prioritize raw))
             (map fst (inc_tests st)) (inc_tests st)) (\<lambda>tests.
           retS \<lparr>post_tests = tests, post_envs = inc_envs st, post_repos = inc_repos st\<rparr>))))))"

primrec postIncludeDefinitions ::
    "services \<Rightarrow> nat \<Rightarrow> string \<Rightarrow> string \<Rightarrow> post_include call" where
  "postIncludeDefinitions x 0 = (\<lambda>_ _. raiseS RecursionError)"
| "postIncludeDefinitions x (Suc n) = post_include_with x n (postIncludeDefinitions x n)"

definition repoReferencesFor :: "services \<Rightarrow> nat \<Rightarrow> string \<Rightarrow> string \<Rightarrow> repo_dict call" where
  "repoReferencesFor x n repoName commitHash =
     bindS (postIncludeDefinitions x n repoName commitHash) (\<lambda>p. retS (post_repos p))"

section \<open>Environments\<close>

text \<open>The hash of a source dependency: the last commit that changed its path.\<close>

definition source_hash :: "services \<Rightarrow> string \<Rightarrow> string \<Rightarrow> string \<Rightarrow> string res" where
  "source_hash x repo commitHash path =
     (if path = '''' then Inr commitHash
      else case git_repo_lookup x repo of
        None \<Rightarrow> Inl AttributeError
      | Some r \<Rightarrow> (case mostRecentHashForSubpath r commitHash path of
          None \<Rightarrow> Inl TypeError | Some h \<Rightarrow> Inr h))"

text \<open>For a path in another repository the code leaves out the argument for the commit.\<close>

definition unresolved_source :: "services \<Rightarrow> repo_dict \<Rightarrow> string \<Rightarrow> string \<Rightarrow> test_dependency res" where
  "unresolved_source x repos repo_name path = (case map_of repos repo_name of
     None \<Rightarrow> Inl resolution_error
   | Some ref \<Rightarrow>
       if path \<noteq> '''' then
         (case git_repo_lookup x (repo_of ref) of None \<Rightarrow> Inl AttributeError | Some r \<Rightarrow> Inl TypeError)
       else Inr (DepSource (repo_of ref) (hash_of ref) path))"

definition resolve_env_dep :: "services \<Rightarrow> repo_dict \<Rightarrow> test_dependency \<Rightarrow> test_dependency res" where
  "resolve_env_dep x repos d = (case d of
     DepSource r h p \<Rightarrow> bindR (source_hash x r h p) (\<lambda>h'. Inr (DepSource r h' p))
   | DepUnresolvedSource r p \<Rightarrow> unresolved_source x repos r p
   | _ \<Rightarrow> Inr d)"

definition resolve_env_ref :: "repo_dict \<Rightarrow> environment_reference \<Rightarrow> environment_reference res" where
  "resolve_env_ref repos e = (case e of
     Reference _ _ _ \<Rightarrow> Inr e
   | UnresolvedReference repo_name name \<Rightarrow> (case map_of repos repo_name of
       None \<Rightarrow> Inl resolution_error
     | Some ref \<Rightarrow> Inr (Reference (repo_of ref) (hash_of ref) name)))"

definition resolve_image :: "services \<Rightarrow> image \<Rightarrow> image res" where
  "resolve_image x img = (case img of
     Dockerfile repo commitHash path \<Rightarrow> (case git_repo_lookup x repo of
       None \<Rightarrow> Inl (MissingDependency repo None)
     | Some r \<Rightarrow>
         if \<not> commitExists r commitHash then Inl (MissingDependency repo (Some commitHash))
         else (case getFileContents r commitHash path of
           None \<Rightarrow> Inl resolution_error
         | Some contents \<Rightarrow> Inr (DockerfileInline contents)))
   | _ \<Rightarrow> Inr img)"

definition resolveEnvironmentPreMerge ::
    "services \<Rightarrow> repo_dict \<Rightarrow> test_environment \<Rightarrow> test_environment res" where
  "resolveEnvironmentPreMerge x repos env =
     bindR (mapR (\<lambda>(k, d). bindR (resolve_env_dep x repos d) (\<lambda>d'. Inr (k, d')))
       (env_dependencies (env_fields env))) (\<lambda>deps.
     let f = (env_fields env)\<lparr>env_dependencies := deps\<rparr> in
     case env of
       Environment p img _ \<Rightarrow> bindR (resolve_image x img) (\<lambda>img'. Inr (Environment p img' f))
     | Import imps setup _ \<Rightarrow> bindR (mapR (resolve_env_ref repos) imps) (\<lambda>imps'.
         Inr (Import imps' setup f)))"

definition actualEnvironmentNameForTest :: "test_definition \<Rightarrow> string" where
  "actualEnvironmentNameForTest t =
     (let f = test_fields_of_def t in
      if environment_mixins f = [] then test_environment_name f
      else py_join ''+'' (test_environment_name f # environment_mixins f))"

definition mixin_environment :: "string \<Rightarrow> string \<Rightarrow> test_definition \<Rightarrow> test_environment" where
  "mixin_environment repoName commitHash t =
     (let f = test_fields_of_def t in
      Import (map (Reference repoName commitHash) (test_environment_name f # environment_mixins f)) ''''
        \<lparr>environment_name = test_environment_name f, inheritance = [], env_variables = [],
         env_dependencies = [], test_configuration = '''', test_stages = [], test_timeout = 0,
         test_min_cores = 0, test_max_cores = 0, test_min_ram_gb = 0, test_min_disk_gb = 0,
         test_max_retries = 0, test_retry_wait_seconds = 0\<rparr>)"

definition add_mixin ::
    "string \<Rightarrow> string \<Rightarrow> test_definition \<Rightarrow> environments \<Rightarrow> environments" where
  "add_mixin repoName commitHash t envs =
     (if environment_mixins (test_fields_of_def t) = [] then envs
      else alist_set (actualEnvironmentNameForTest t) (mixin_environment repoName commitHash t) envs)"

text \<open>The made environments are added to the cached dict.\<close>

definition add_post_envs :: "commit_key \<Rightarrow> environments \<Rightarrow> resolver \<Rightarrow> resolver" where
  "add_post_envs key envs s =
     (add_raw_envs key envs s)\<lparr>postIncludeDefinitionsCache := (postIncludeDefinitionsCache s)(key :=
        map_option (\<lambda>p. p\<lparr>post_envs := envs\<rparr>) (postIncludeDefinitionsCache s key))\<rparr>"

text \<open>An environment and everything it imports, in the order of a depth-first walk.\<close>

primrec import_dep ::
    "nat \<Rightarrow> (string \<Rightarrow> string \<Rightarrow> environments call) \<Rightarrow> commit_key \<Rightarrow> environments \<Rightarrow>
     environment_reference \<Rightarrow> env_dict \<Rightarrow> env_dict call" where
  "import_dep 0 envsFor key environments = (\<lambda>_ _. raiseS RecursionError)"
| "import_dep (Suc n) envsFor key environments = (\<lambda>dep found.
     if dep \<in> fst ` set found then retS found
     else case dep of
       UnresolvedReference _ _ \<Rightarrow> raiseS AssertionError
     | Reference repo hash name \<Rightarrow>
         bindS (if (repo, hash) = key then retS environments else envsFor repo hash) (\<lambda>env_set.
         case map_of env_set name of
           None \<Rightarrow> raiseS resolution_error
         | Some env \<Rightarrow>
             let found = found @ [(dep, env)] in
             (case env of
                Environment _ _ _ \<Rightarrow> retS found
              | Import imps _ _ \<Rightarrow>
                  foldS (import_dep n envsFor key environments) imps found)))"

text \<open>The variables of an environment that imports nothing are applied in place: the environments
  resolved after it import the result.\<close>

definition resolveEnvironment ::
    "nat \<Rightarrow> (string \<Rightarrow> string \<Rightarrow> environments call) \<Rightarrow> commit_key \<Rightarrow> string \<Rightarrow>
     environments \<times> environments \<Rightarrow> (environments \<times> environments) call" where
  "resolveEnvironment n envsFor key e = (\<lambda>(environments, resolved).
     let env = the (map_of environments e) in
     case env of
       Environment _ _ _ \<Rightarrow>
         bindS (liftO (apply_environment_substitutions env)) (\<lambda>r.
         retS (alist_set e r environments, resolved @ [(e, r)]))
     | Import imps _ _ \<Rightarrow>
         bindS (foldS (import_dep n envsFor key environments) imps []) (\<lambda>found.
         bindS (liftS (merge_environments n env found)) (\<lambda>merged.
         bindS (liftO (apply_environment_substitutions merged)) (\<lambda>r.
         retS (environments, resolved @ [(e, r)])))))"

definition store_envs :: "commit_key \<Rightarrow> environments \<Rightarrow> resolver \<Rightarrow> resolver" where
  "store_envs key envs s = s\<lparr>environmentCache := (environmentCache s)(key \<mapsto> envs)\<rparr>"

definition resolve_environments ::
    "services \<Rightarrow> nat \<Rightarrow> (string \<Rightarrow> string \<Rightarrow> environments call) \<Rightarrow> commit_key \<Rightarrow> repo_dict \<Rightarrow> environments \<Rightarrow>
     environments call" where
  "resolve_environments x n envsFor key repos envs =
     bindS (liftS (mapR (\<lambda>(e, env). bindR (resolveEnvironmentPreMerge x repos env)
       (\<lambda>env'. Inr (e, env'))) envs)) (\<lambda>environments.
     bindS (foldS (resolveEnvironment n envsFor key) (map fst environments) (environments, []))
       (\<lambda>(_, resolved). retS resolved))"

definition environments_with ::
    "services \<Rightarrow> nat \<Rightarrow> (string \<Rightarrow> string \<Rightarrow> environments call) \<Rightarrow> string \<Rightarrow> string \<Rightarrow> environments call" where
  "environments_with x n envsFor repoName commitHash =
     cached environmentCache store_envs (repoName, commitHash)
       (bindS (repoReferencesFor x n repoName commitHash) (\<lambda>repos.
        bindS (postIncludeDefinitions x n repoName commitHash) (\<lambda>p.
        let envs = fold (add_mixin repoName commitHash) (map snd (post_tests p)) (post_envs p) in
        bindS (if envs = post_envs p then retS ()
               else modS (add_post_envs (repoName, commitHash) envs)) (\<lambda>_.
        resolve_environments x n envsFor (repoName, commitHash) repos envs))))"

primrec environmentsFor :: "services \<Rightarrow> nat \<Rightarrow> string \<Rightarrow> string \<Rightarrow> environments call" where
  "environmentsFor x 0 = (\<lambda>_ _. raiseS RecursionError)"
| "environmentsFor x (Suc n) = environments_with x n (environmentsFor x n)"

section \<open>Tests\<close>

definition apply_test_environment ::
    "environments \<Rightarrow> string \<times> test_definition \<Rightarrow> test_dict \<Rightarrow> test_dict call" where
  "apply_test_environment envs = (\<lambda>(name, t) tests.
     case map_of envs (actualEnvironmentNameForTest t) of
       None \<Rightarrow> raiseS resolution_error
     | Some env \<Rightarrow> bindS (liftO (apply_environment_to_test t env [])) (\<lambda>t'. retS (tests @ [(name, t')])))"

definition external_build ::
    "(string \<Rightarrow> string \<Rightarrow> test_dict call) \<Rightarrow> commit_key \<Rightarrow> string \<Rightarrow> string \<Rightarrow> string \<Rightarrow> test_dependency call" where
  "external_build testsFor key repo hash name =
     (if (repo, hash) = key then raiseS AssertionError
      else bindS (testsFor repo hash) (\<lambda>externalTests.
      bindS (liftS (resolveTestNameToTestAndArtifact name externalTests False)) (\<lambda>(t, artifact).
      retS (DepBuild t (test_hash (test_fields_of_def (the (map_of externalTests t)))) artifact))))"

definition resolveTestDep ::
    "services \<Rightarrow> (string \<Rightarrow> string \<Rightarrow> test_dict call) \<Rightarrow> commit_key \<Rightarrow> repo_dict \<Rightarrow> test_dict \<Rightarrow>
     (string \<Rightarrow> test_dict \<Rightarrow> (test_definition \<times> test_dict) call) \<Rightarrow>
     test_dependency \<Rightarrow> test_dict \<Rightarrow> (test_dependency \<times> test_dict) call" where
  "resolveTestDep x testsFor key repos tests resolve d resolved = (case d of
     DepSource r h p \<Rightarrow> bindS (liftS (source_hash x r h p)) (\<lambda>h'. retS (DepSource r h' p, resolved))
   | DepInternalBuild n \<Rightarrow>
       bindS (liftS (resolveTestNameToTestAndArtifact n tests False)) (\<lambda>(name, artifact).
       bindS (resolve name resolved) (\<lambda>(t, resolved).
       retS (DepBuild name (test_hash (test_fields_of_def t)) artifact, resolved)))
   | DepExternalBuild r h n \<Rightarrow>
       bindS (external_build testsFor key r h n) (\<lambda>d'. retS (d', resolved))
   | DepUnresolvedExternalBuild r n \<Rightarrow>
       (case map_of repos r of
          None \<Rightarrow> raiseS resolution_error
        | Some ref \<Rightarrow> bindS (external_build testsFor key (repo_of ref) (hash_of ref) n)
            (\<lambda>d'. retS (d', resolved)))
   | DepUnresolvedSource r p \<Rightarrow>
       bindS (liftS (unresolved_source x repos r p)) (\<lambda>d'. retS (d', resolved))
   | DepBuild _ _ _ \<Rightarrow> retS (d, resolved))"

definition resolve_deps ::
    "(test_dependency \<Rightarrow> test_dict \<Rightarrow> (test_dependency \<times> test_dict) call) \<Rightarrow>
     (string \<times> test_dependency) list \<Rightarrow> test_dict \<Rightarrow>
     ((string \<times> test_dependency) list \<times> test_dict) call" where
  "resolve_deps resolveDep deps resolved =
     foldS (\<lambda>(k, d) (done_deps, resolved).
       bindS (resolveDep d resolved) (\<lambda>(d', resolved). retS (done_deps @ [(k, d')], resolved)))
       deps ([], resolved)"

definition resolved_test ::
    "services \<Rightarrow> test_definition \<Rightarrow> (string \<times> test_dependency) list \<Rightarrow> test_definition" where
  "resolved_test x t deps =
     (let with_fields = (\<lambda>f. case t of
            Build _ ss d m w \<Rightarrow> Build f (sortTestStages ss) d m w
          | Test _ ss d \<Rightarrow> Test f (sortTestStages ss) d
          | Deployment _ p \<Rightarrow> t);
          f = (test_fields_of_def t)\<lparr>dependencies := deps\<rparr>
      in with_fields (f\<lparr>test_hash := sha_hash x (with_fields f)\<rparr>))"

primrec resolveTest ::
    "nat \<Rightarrow> services \<Rightarrow> (string \<Rightarrow> string \<Rightarrow> test_dict call) \<Rightarrow> commit_key \<Rightarrow> repo_dict \<Rightarrow> test_dict \<Rightarrow>
     string \<Rightarrow> test_dict \<Rightarrow> (test_definition \<times> test_dict) call" where
  "resolveTest 0 x testsFor key repos tests = (\<lambda>_ _. raiseS RecursionError)"
| "resolveTest (Suc n) x testsFor key repos tests = (\<lambda>name resolved.
     case map_of resolved name of
       Some t \<Rightarrow> retS (t, resolved)
     | None \<Rightarrow> (case map_of tests name of
         None \<Rightarrow> raiseS resolution_error
       | Some testDef \<Rightarrow>
           bindS (liftS (assertArtifactSetValid testDef)) (\<lambda>_.
           bindS (resolve_deps
             (resolveTestDep x testsFor key repos tests (resolveTest n x testsFor key repos tests))
             (dependencies (test_fields_of_def testDef)) resolved) (\<lambda>(deps, resolved).
           let t = resolved_test x testDef deps in retS (t, alist_set name t resolved)))))"

definition store_tests :: "commit_key \<Rightarrow> test_dict \<Rightarrow> resolver \<Rightarrow> resolver" where
  "store_tests key tests s = s\<lparr>testDefinitionCache := (testDefinitionCache s)(key \<mapsto> tests)\<rparr>"

definition tests_with ::
    "services \<Rightarrow> nat \<Rightarrow> (string \<Rightarrow> string \<Rightarrow> test_dict call) \<Rightarrow> string \<Rightarrow> string \<Rightarrow> test_dict call" where
  "tests_with x n testsFor repoName commitHash =
     cached testDefinitionCache store_tests (repoName, commitHash)
       (bindS (postIncludeDefinitions x n repoName commitHash) (\<lambda>p.
        bindS (repoReferencesFor x n repoName commitHash) (\<lambda>repos.
        bindS (environmentsFor x n repoName commitHash) (\<lambda>envs.
        bindS (foldS (apply_test_environment envs) (post_tests p) []) (\<lambda>tests.
        bindS (liftS (assertTestsNoncircular n tests)) (\<lambda>_.
        bindS (liftS (ensureAllAppropriateChildrenEnabled n tests)) (\<lambda>tests.
        foldS (\<lambda>t resolved. bindS (resolveTest n x testsFor (repoName, commitHash) repos tests t resolved)
          (\<lambda>(_, resolved). retS resolved)) (map fst tests) [])))))))"

primrec testDefinitionsFor :: "services \<Rightarrow> nat \<Rightarrow> string \<Rightarrow> string \<Rightarrow> test_dict call" where
  "testDefinitionsFor x 0 = (\<lambda>_ _. raiseS RecursionError)"
| "testDefinitionsFor x (Suc n) = tests_with x n (testDefinitionsFor x n)"

definition testEnvironmentAndRepoDefinitionsFor ::
    "services \<Rightarrow> nat \<Rightarrow> string \<Rightarrow> string \<Rightarrow> (test_dict \<times> environments \<times> repo_dict) call" where
  "testEnvironmentAndRepoDefinitionsFor x n repoName commitHash =
     bindS (testDefinitionsFor x n repoName commitHash) (\<lambda>tests.
     bindS (environmentsFor x n repoName commitHash) (\<lambda>envs.
     bindS (repoReferencesFor x n repoName commitHash) (\<lambda>repos. retS (tests, envs, repos))))"

end
