(* ===== verification/Commit_Intake.thy ===== *)
theory Commit_Intake
  imports Commit_Priority Branch_Pinning Machine_Lifecycle Definition_Resolver
begin

text \<open>
  How commits get into the database of \<^verbatim>\<open>TestManager.py\<close>: looking a commit up by its hash, storing
  what git knows about it, reading its test definitions with the definition resolver and
  creating the tests, and keeping track of what a commit or a test still waits for (a repository, a
  commit of another repository, a test of another commit). Where an exception is caught inside a
  transaction the changes made before it stay, so the operations that can raise are calls that
  return a state in both cases.
\<close>

section \<open>Calls on the database\<close>

type_synonym ('a, 'm) db_call = "('a, 'm mgr) git_call"

definition readD :: "('s \<Rightarrow> 'a) \<Rightarrow> ('a, 's) git_call" where
  "readD f s = (Inr (f s), s)"

definition modD :: "('s \<Rightarrow> 's) \<Rightarrow> (unit, 's) git_call" where
  "modD f s = (Inr (), f s)"

definition newD :: "('s \<Rightarrow> 'a \<times> 's) \<Rightarrow> ('a, 's) git_call" where
  "newD f s = (case f s of (v, t) \<Rightarrow> (Inr v, t))"

text \<open>An operation that raises before it changes anything.\<close>

definition rollD :: "('s \<Rightarrow> ('a \<times> 's) res) \<Rightarrow> ('a, 's) git_call" where
  "rollD f s = (case f s of Inl e \<Rightarrow> (Inl e, s) | Inr (v, t) \<Rightarrow> (Inr v, t))"

definition tryG :: "('a, 's) git_call \<Rightarrow> (py_error \<Rightarrow> ('a, 's) git_call) \<Rightarrow> ('a, 's) git_call" where
  "tryG m h s = (case m s of (Inl e, t) \<Rightarrow> h e t | (Inr v, t) \<Rightarrow> (Inr v, t))"

definition eachG :: "('a \<Rightarrow> (unit, 's) git_call) \<Rightarrow> 'a list \<Rightarrow> (unit, 's) git_call" where
  "eachG f xs = foldG (\<lambda>x _. f x) xs ()"

section \<open>Commits and what they wait for\<close>

definition lookupCommitByHash :: "oid \<Rightarrow> string \<Rightarrow> bool \<Rightarrow> 'm mgr \<Rightarrow> oid option \<times> 'm mgr" where
  "lookupCommitByHash repo commitHash create s =
     (case lookup_any (commits s) (Commit_repo_and_hash repo commitHash) of
        Some c \<Rightarrow> (Some c, triggerCommitDataUpdate c s)
      | None \<Rightarrow>
          if \<not> create then (None, s)
          else case new_commit (default_commit\<lparr>cm_repo := repo, cm_hash := commitHash\<rparr>) s of
            (c, s1) \<Rightarrow>
              let s2 = repoTouched repo (upd_repo repo (\<lambda>r. r\<lparr>rp_commits := rp_commits r + 1\<rparr>) s1)
              in (Some c, triggerCommitDataUpdate c s2))"

text \<open>With a name instead of a repository.\<close>

definition lookupCommitByName :: "string \<Rightarrow> string \<Rightarrow> bool \<Rightarrow> 'm mgr \<Rightarrow> oid option \<times> 'm mgr" where
  "lookupCommitByName repoName commitHash create s =
     (case lookup_any (repos s) (Repo_name repoName) of
        None \<Rightarrow> (None, s)
      | Some repo \<Rightarrow> lookupCommitByHash repo commitHash create s)"

text \<open>The lookup that creates what it does not find always finds something.\<close>

definition commit_by_hash :: "oid \<Rightarrow> string \<Rightarrow> 'm mgr \<Rightarrow> oid \<times> 'm mgr" where
  "commit_by_hash repo commitHash s =
     (case lookupCommitByHash repo commitHash True s of (c, t) \<Rightarrow> (the c, t))"

definition createSourceDep :: "oid \<Rightarrow> string \<Rightarrow> string option \<Rightarrow> 'm mgr \<Rightarrow> bool \<times> 'm mgr" where
  "createSourceDep commit reponame commitHash s =
     (case lookup_any (repos s) (Repo_name reponame) of
        None \<Rightarrow>
          (True, if lookup_any (unresolved_repos s) (UR_commit_and_reponame commit reponame) = None
                 then snd (new_unresolved_repo \<lparr>ur_commit = commit, ur_reponame = reponame\<rparr> s) else s)
      | Some repo \<Rightarrow> (case commitHash of
          None \<Rightarrow> (False, s)
        | Some h \<Rightarrow>
            if h = '''' then (False, s)
            else if (case lookup_any (commits s) (Commit_repo_and_hash repo h) of
                       None \<Rightarrow> True | Some c \<Rightarrow> cm_data (get_commit s c) = None)
            then (True, if lookup_any (unresolved_sources s) (US_commit_and_repo_and_hash commit repo h) = None
                        then snd (new_unresolved_source \<lparr>us_commit = commit, us_repo = repo, us_commitHash = h\<rparr> s)
                        else s)
            else (False, s)))"

definition createRepo :: "string \<Rightarrow> 'm mgr \<Rightarrow> oid \<times> 'm mgr" where
  "createRepo new_repo_name s =
     (case new_repo (default_repo\<lparr>rp_name := new_repo_name, rp_isActive := True\<rparr>) s of (r, s1) \<Rightarrow>
        (r, fold (\<lambda>dep s.
               let commit = ur_commit (get_unresolved_repo s dep);
                   s' = snd (createSourceDep commit new_repo_name None s)
               in triggerCommitTestParse commit (del_unresolved_repo dep s'))
             (lookup_all (unresolved_repos s1) (UR_reponame new_repo_name)) s1))"

section \<open>Tests and what they wait for\<close>

definition createTestDep :: "oid \<Rightarrow> string \<Rightarrow> string \<Rightarrow> 'm mgr \<Rightarrow> 'm mgr res" where
  "createTestDep test childHash artifact s =
     (case lookup_any (tests s) (Test_hash childHash) of
        None \<Rightarrow>
          Inr (if lookup_any (unresolved_tests s) (UT_test_and_depends test childHash artifact) = None
               then snd (new_unresolved_test \<lparr>ut_test = test, ut_dependsOnHash = childHash, ut_artifact = artifact\<rparr> s)
               else s)
      | Some dep_test \<Rightarrow>
          if dep_test = test then Inl AssertionError
          else Inr (if lookup_any (test_deps s) (TD_test_and_depends test dep_test artifact) = None
                    then snd (new_test_dep \<lparr>td_test = test, td_dependsOn = dep_test, td_artifact = artifact\<rparr> s)
                    else s))"

definition markTestCreated :: "oid \<Rightarrow> 'm mgr \<Rightarrow> 'm mgr" where
  "markTestCreated test s =
     fold (\<lambda>dep s.
         let d = get_unresolved_test s dep;
             s1 = snd (new_test_dep \<lparr>td_test = ut_test d, td_dependsOn = test, td_artifact = ut_artifact d\<rparr> s)
         in del_unresolved_test dep (triggerTestPriorityUpdate (ut_test d) s1))
       (lookup_all (unresolved_tests s) (UT_dependsOnHash (ts_hash (get_test s test)))) s"

definition machineOsForEnv :: "'m world \<Rightarrow> test_environment option \<Rightarrow> os_config res" where
  "machineOsForEnv w env = (case env of
     Some (Environment pf img envf) \<Rightarrow> (case (pf, img) of
         (linux, AMI base script) \<Rightarrow> Inr (LinuxVM base (w_hashScript w script))
       | (linux, _) \<Rightarrow> Inr LinuxWithDocker
       | (windows, AMI base script) \<Rightarrow> Inr (WindowsVM base (w_hashScript w script))
       | (windows, _) \<Rightarrow> Inr WindowsWithDocker)
   | _ \<Rightarrow> Inl AttributeError)"

fun which_test :: "test_definition \<Rightarrow> string" where
  "which_test (Build _ _ _ _ _) = ''Build''"
| "which_test (Test _ _ _) = ''Test''"
| "which_test (Deployment _ _) = ''Deployment''"

fun stages_of_test :: "test_definition \<Rightarrow> stage list res" where
  "stages_of_test (Build _ ss _ _ _) = Inr ss"
| "stages_of_test (Test _ ss _) = Inr ss"
| "stages_of_test (Deployment _ _) = Inl AttributeError"

definition test_summary :: "'m world \<Rightarrow> test_definition \<Rightarrow> summary res" where
  "test_summary w testDefinition =
     (let f = test_definition.fields testDefinition in
      bindR (machineOsForEnv w (environment f)) (\<lambda>os.
      bindR (stages_of_test testDefinition) (\<lambda>stages.
      bindR (disabled_of_test testDefinition) (\<lambda>dis.
      Inr \<lparr>sm_name = test_name f, sm_machineOs = os, sm_type = which_test testDefinition,
           sm_configuration = test_fields.configuration f, sm_artifacts = artifact_names stages,
           sm_project = test_fields.project f, sm_disabled = dis, sm_timeout = test_fields.timeout f,
           sm_min_cores = test_fields.min_cores f, sm_max_cores = test_fields.max_cores f, sm_min_ram_gb = test_fields.min_ram_gb f,
           sm_min_disk_gb = test_fields.min_disk_gb f,
           sm_max_retries = (case testDefinition of Build _ _ _ m _ \<Rightarrow> m | _ \<Rightarrow> 0),
           sm_retry_wait_seconds = (case testDefinition of Build _ _ _ _ r \<Rightarrow> r | _ \<Rightarrow> 0)\<rparr>))))"

definition check_dependency :: "oid \<Rightarrow> test_dependency \<Rightarrow> (unit, 'm) db_call" where
  "check_dependency test dep = (case dep of
     DepExternalBuild _ _ _ \<Rightarrow> liftG (Inl AssertionError)
   | DepInternalBuild _ \<Rightarrow> liftG (Inl AssertionError)
   | DepBuild _ buildHash artifact \<Rightarrow>
       rollD (\<lambda>s. bindR (createTestDep test buildHash artifact s) (\<lambda>t. Inr ((), t)))
   | _ \<Rightarrow> retG ())"

definition checkAllTestDependencies ::
    "'m world \<Rightarrow> oid \<Rightarrow> test_definition \<Rightarrow> (unit, 'm) db_call" where
  "checkAllTestDependencies w test testDefinition =
     (let f = test_definition.fields testDefinition in
      case environment f of
        Some (Environment pf img envf) \<Rightarrow>
          bindG (rollD (machineCategoryForTest w test)) (\<lambda>cat.
          bindG (modD (upd_test test (\<lambda>t. t\<lparr>ts_machineCategory := Some cat\<rparr>))) (\<lambda>_.
          eachG (\<lambda>(depname, dep). check_dependency test dep)
            (alist_update (env_dependencies envf) (dependencies f))))
      | _ \<Rightarrow> liftG (Inl AssertionError))"

definition createTest :: "'m world \<Rightarrow> oid \<Rightarrow> test_definition \<Rightarrow> (oid, 'm) db_call" where
  "createTest w commit testDefinition =
     (let h = test_hash (test_definition.fields testDefinition) in
      bindG (readD (\<lambda>s. lookup_any (tests s) (Test_hash h))) (\<lambda>found.
      bindG (case found of
          Some test \<Rightarrow> retG test
        | None \<Rightarrow>
            bindG (liftG (test_summary w testDefinition)) (\<lambda>summary.
            bindG (newD (new_test (default_test\<lparr>ts_hash := h, ts_summary := summary, ts_priority := NoMoreTests\<rparr>)))
              (\<lambda>test.
            bindG (checkAllTestDependencies w test testDefinition) (\<lambda>_.
            bindG (modD (\<lambda>s. triggerTestPriorityUpdate test (markTestCreated test s))) (\<lambda>_. retG test)))))
        (\<lambda>test.
      bindG (newD (new_commit_test \<lparr>ct_commit = commit, ct_test = test\<rparr>)) (\<lambda>_. retG test))))"

section \<open>The test definitions of a commit\<close>

text \<open>What reading definitions needs beside the database: git and the parsers, the levels of recursion
  the interpreter allows, and the text of a traceback.\<close>

record reader =
  rd_services :: services
  rd_levels :: nat
  rd_traceback :: "py_error \<Rightarrow> string"

text \<open>\<open>getRepo\<close>: the resolver only sees repositories that the database knows.\<close>

definition known_services :: "services \<Rightarrow> 'm mgr \<Rightarrow> services" where
  "known_services x s = x\<lparr>git_repo_lookup := (\<lambda>reponame.
     if lookup_any (repos s) (Repo_name reponame) = None then None else git_repo_lookup x reponame)\<rparr>"

definition getRawTestFileForCommit :: "services \<Rightarrow> string \<Rightarrow> string \<Rightarrow> string option res" where
  "getRawTestFileForCommit x reponame hash = (case git_repo_lookup x reponame of
     None \<Rightarrow> Inl AttributeError
   | Some repo \<Rightarrow> Inr (case getTestDefinitionsPath repo hash of
       None \<Rightarrow> None | Some path \<Rightarrow> getFileContents repo hash path))"

definition upd_data :: "oid \<Rightarrow> (commit_data_row \<Rightarrow> commit_data_row) \<Rightarrow> 'm mgr \<Rightarrow> 'm mgr" where
  "upd_data commit f s =
     (case cm_data (get_commit s commit) of None \<Rightarrow> s | Some d \<Rightarrow> upd_commit_data d f s)"

definition store_tests_of_commit ::
    "'m world \<Rightarrow> oid \<Rightarrow> test_dict \<times> environments \<times> repo_dict \<Rightarrow> (unit, 'm) db_call" where
  "store_tests_of_commit w commit = (\<lambda>(all_tests, all_environments, all_repo_defs).
     bindG (modD (upd_data commit (\<lambda>d. d\<lparr>cd_repos := all_repo_defs\<rparr>))) (\<lambda>_.
     bindG (foldG (\<lambda>(_, e) tests_by_name. bindG (createTest w commit e) (\<lambda>test.
         retG (alist_set (test_name (test_definition.fields e)) test tests_by_name))) all_tests [])
       (\<lambda>tests_by_name.
     modD (\<lambda>s. upd_data commit (\<lambda>d. d\<lparr>cd_testsParsed := True\<rparr>)
       (upd_repo (cm_repo (get_commit s commit)) (\<lambda>r. r\<lparr>rp_commitsWithTests := rp_commitsWithTests r + 1\<rparr>)
         (upd_data commit (\<lambda>d. d\<lparr>cd_tests := tests_by_name\<rparr>) s))))))"

definition parse_definitions :: "'m world \<Rightarrow> reader \<Rightarrow> oid \<Rightarrow> (unit, 'm) db_call" where
  "parse_definitions w rd commit s =
     (let c = get_commit s commit; reponame = rp_name (get_repo s (cm_repo c));
          x = known_services (rd_services rd) s
      in case unprocessedRepoPinsFor x reponame (cm_hash c) new_resolver of
           None \<Rightarrow> (Inl RecursionError, s)
         | Some (Inl e, _) \<Rightarrow> (Inl e, s)
         | Some (Inr pins, resolver) \<Rightarrow>
             let s1 = upd_data commit (\<lambda>d. d\<lparr>cd_repos := pins\<rparr>) s
             in case testEnvironmentAndRepoDefinitionsFor x (rd_levels rd) reponame (cm_hash c) resolver of
                  None \<Rightarrow> (Inl RecursionError, s1)
                | Some (Inl (MissingDependency r h), _) \<Rightarrow> (Inr (), snd (createSourceDep commit r h s1))
                | Some (Inl e, _) \<Rightarrow> (Inl e, s1)
                | Some (Inr defs, _) \<Rightarrow> store_tests_of_commit w commit defs s1)"

definition parse_body :: "'m world \<Rightarrow> reader \<Rightarrow> oid \<Rightarrow> (unit, 'm) db_call" where
  "parse_body w rd commit s =
     (let c = get_commit s commit in
      if cd_testsParsed (get_commit_data s (the (cm_data c))) then (Inr (), s)
      else case getRawTestFileForCommit (rd_services rd) (rp_name (get_repo s (cm_repo c))) (cm_hash c) of
        Inl e \<Rightarrow> (Inl e, s)
      | Inr raw_text \<Rightarrow>
          if raw_text = None \<or> raw_text = Some '''' then
            (Inr (), upd_data commit (\<lambda>d. d\<lparr>cd_noTestsFound := True, cd_testsParsed := True\<rparr>) s)
          else parse_definitions w rd commit s)"

text \<open>Everything that is raised is recorded in the commit. A commit without data has nowhere to record it.\<close>

definition parseCommitTests :: "'m world \<Rightarrow> reader \<Rightarrow> oid \<Rightarrow> (unit, 'm) db_call" where
  "parseCommitTests w rd commit s =
     (if cm_data (get_commit s commit) = None then (Inl null_error, s)
      else tryG (parse_body w rd commit) (\<lambda>e.
        modD (upd_data commit (\<lambda>d. d\<lparr>cd_testDefinitionsError := rd_traceback rd e, cd_testsParsed := True\<rparr>))) s)"

section \<open>The pins of a branch\<close>

definition recalculate_pin :: "oid \<Rightarrow> string \<times> repo_reference \<Rightarrow> (unit, 'm) db_call" where
  "recalculate_pin branch = (\<lambda>(repo_def, target).
     bindG (liftG (repo_reference_text target)) (\<lambda>ref. case target of
       Pin r target_branch auto prioritize \<Rightarrow>
         bindG (newD (new_pin \<lparr>bp_branch = branch, bp_repo_def = repo_def, bp_pinned_to_repo = path_init ref,
           bp_pinned_to_branch = target_branch, bp_auto = auto, bp_prioritize = prioritize\<rparr>)) (\<lambda>_. retG ())
     | _ \<Rightarrow> retG ()))"

definition recalculateBranchPins :: "oid \<Rightarrow> (unit, 'm) db_call" where
  "recalculateBranchPins branch =
     bindG (modD (\<lambda>s. fold del_pin (lookup_all (branch_pins s) (Pin_branch branch)) s)) (\<lambda>_.
     bindG (readD (\<lambda>s. case br_head (get_branch s branch) of
         None \<Rightarrow> [] | Some h \<Rightarrow> (case commit_data s h of None \<Rightarrow> [] | Some d \<Rightarrow> cd_repos d))) (\<lambda>targets.
     bindG (eachG (recalculate_pin branch) targets) (\<lambda>_.
     modD (scheduleBranchPinNeedsUpdating branch))))"

definition recalculate_heads :: "oid \<Rightarrow> (unit, 'm) db_call" where
  "recalculate_heads commit =
     bindG (readD (\<lambda>s. lookup_all (branches s) (Branch_head (Some commit)))) (eachG recalculateBranchPins)"

definition forceTriggerCommitTestParse :: "'m world \<Rightarrow> reader \<Rightarrow> oid \<Rightarrow> (unit, 'm) db_call" where
  "forceTriggerCommitTestParse w rd commit s =
     (if cm_data (get_commit s commit) = None then (Inl null_error, s)
      else bindG (parseCommitTests w rd commit) (\<lambda>_. recalculate_heads commit)
        (upd_data commit (\<lambda>d. d\<lparr>cd_testsParsed := False, cd_noTestsFound := False\<rparr>) s))"

section \<open>What git knows about a commit\<close>

text \<open>A commit made by a pin update is only prioritized if the pin asks for it; a reference that is
  not a pin has no such field.\<close>

definition pin_priority :: "'m mgr \<Rightarrow> string \<Rightarrow> oid list \<Rightarrow> int \<Rightarrow> int res" where
  "pin_priority s message parents priority =
     (case (unpackCommitPinUpdateMessage message, parents) of
        (Some (_, _, _, refname_updated), [p]) \<Rightarrow> (case commit_data s p of
            None \<Rightarrow> Inr priority
          | Some d \<Rightarrow> (case map_of (cd_repos d) refname_updated of
              None \<Rightarrow> Inr priority
            | Some (Pin _ _ _ prioritize) \<Rightarrow> Inr (if prioritize then priority else 0)
            | Some _ \<Rightarrow> Inl AttributeError))
      | _ \<Rightarrow> Inr priority)"

definition lookup_parents :: "oid \<Rightarrow> string list \<Rightarrow> 'm mgr \<Rightarrow> oid list \<times> 'm mgr" where
  "lookup_parents repo hashes s =
     fold (\<lambda>p (ps, s). case commit_by_hash repo p s of (c, t) \<Rightarrow> (ps @ [c], t)) hashes ([], s)"

definition release_source_deps :: "oid \<Rightarrow> string \<Rightarrow> 'm mgr \<Rightarrow> 'm mgr" where
  "release_source_deps repo hash s =
     fold (\<lambda>dep s. triggerCommitTestParse (us_commit (get_unresolved_source s dep)) (del_unresolved_source dep s))
       (lookup_all (unresolved_sources s) (US_repo_and_hash repo hash)) s"

definition commit_data_of :: "oid \<Rightarrow> commit_info \<Rightarrow> oid list \<Rightarrow> commit_data_row" where
  "commit_data_of commit info parents =
     default_commit_data\<lparr>cd_commit := commit, cd_subject := hd (lines_of (ci_message info)),
       cd_timestamp := ci_timestamp info, cd_commitMessage := ci_message info, cd_parents := parents,
       cd_author := ci_author info, cd_authorEmail := ci_authorEmail info\<rparr>"

text \<open>The part that cannot raise: the data, the commits that waited for it, and the edges to the
  parents.\<close>

definition store_commit_data :: "oid \<Rightarrow> oid \<Rightarrow> commit_info \<Rightarrow> oid list \<Rightarrow> 'm mgr \<Rightarrow> 'm mgr" where
  "store_commit_data repo commit info parents s =
     (case new_commit_data (commit_data_of commit info parents) (repoTouched repo s) of (d, s1) \<Rightarrow>
        let s2 = upd_commit commit (\<lambda>c. c\<lparr>cm_data := Some d\<rparr>) s1;
            s3 = release_source_deps repo (ci_hash info) s2
        in fold (\<lambda>p s. snd (new_relationship \<lparr>rel_child = commit, rel_parent = p\<rparr> s)) parents s3)"

definition first_priority :: "'m mgr \<Rightarrow> oid \<Rightarrow> int" where
  "first_priority s commit =
     (if \<exists>b \<in> set (lookup_all (branches s) (Branch_head (Some commit))). br_isUnderTest (get_branch s b)
      then 1 else 0)"

definition load_commit :: "'m world \<Rightarrow> reader \<Rightarrow> bool \<Rightarrow> oid \<Rightarrow> int \<Rightarrow> (unit, 'm) db_call" where
  "load_commit w rd knownNoTestFile commit timestamp =
     (if knownNoTestFile then modD (upd_data commit (\<lambda>d. d\<lparr>cd_noTestsFound := True\<rparr>))
      else if timestamp > OLDEST_TIMESTAMP_WITH_TESTS then
        bindG (modD (triggerCommitPriorityUpdate commit)) (\<lambda>_. parseCommitTests w rd commit)
      else modD (upd_data commit (\<lambda>d. d\<lparr>cd_noTestsFound := True,
        cd_testDefinitionsError := ''Commit old enough that we won'' @ [CHR 0x27] @
          ''t check for test definitions.''\<rparr>)))"

text \<open>A commit that is already known is left alone; otherwise its parents are looked up and what git knows
  about it is stored.\<close>

definition learn_commit :: "oid \<Rightarrow> commit_info \<Rightarrow> 'm mgr \<Rightarrow> (oid \<times> oid list) option \<times> 'm mgr" where
  "learn_commit repo info s =
     (case commit_by_hash repo (ci_hash info) s of (commit, s1) \<Rightarrow>
        if cm_data (get_commit s1 commit) \<noteq> None then (None, s1)
        else case lookup_parents (cm_repo (get_commit s1 commit)) (ci_parents info) s1 of (parents, s2) \<Rightarrow>
          (Some (commit, parents), store_commit_data repo commit info parents s2))"

definition updateCommitDataForHash ::
    "'m world \<Rightarrow> reader \<Rightarrow> oid \<Rightarrow> bool \<Rightarrow> commit_info \<Rightarrow> (unit, 'm) db_call" where
  "updateCommitDataForHash w rd repo knownNoTestFile info =
     bindG (newD (learn_commit repo info)) (\<lambda>learned. case learned of
       None \<Rightarrow> retG ()
     | Some (commit, parents) \<Rightarrow>
         bindG (rollD (\<lambda>s. bindR (pin_priority s (ci_message info) parents (first_priority s commit))
           (\<lambda>priority. Inr ((), upd_commit commit (\<lambda>c. c\<lparr>cm_userPriority := max (cm_userPriority c) priority\<rparr>) s))))
           (\<lambda>_.
         bindG (load_commit w rd knownNoTestFile commit (ci_timestamp info)) (\<lambda>_.
         recalculate_heads commit)))"

text \<open>\<open>lookingBack\<close> is \<open>commitsLookingBack\<close>.\<close>

definition commit_known :: "services \<Rightarrow> string \<Rightarrow> string \<Rightarrow> bool res" where
  "commit_known x reponame hash = (case git_repo_lookup x reponame of
     None \<Rightarrow> Inl AttributeError | Some repo \<Rightarrow> Inr (commitExists repo hash))"

definition updateCommitData ::
    "'m world \<Rightarrow> reader \<Rightarrow> (string \<Rightarrow> string \<Rightarrow> nat \<Rightarrow> commit_info list) \<Rightarrow> oid \<Rightarrow> (unit, 'm) db_call" where
  "updateCommitData w rd lookingBack commit s =
     (let c = get_commit s commit; reponame = rp_name (get_repo s (cm_repo c)) in
      case git_repo_lookup (rd_services rd) reponame of
        None \<Rightarrow> if cm_data c = None then (Inl AttributeError, s) else (Inr (), s)
      | Some repo \<Rightarrow>
          if cm_data c \<noteq> None \<or> \<not> commitExists repo (cm_hash c) then (Inr (), s)
          else eachG (updateCommitDataForHash w rd (cm_repo c) False) (lookingBack reponame (cm_hash c) 10) s)"

text \<open>The importer passes a cache of what git has answered so far.\<close>

definition fill_cache :: "commit_info list \<Rightarrow> (string \<times> commit_info) list \<Rightarrow> (string \<times> commit_info) list" where
  "fill_cache infos cache =
     fold (\<lambda>i cache. if map_of cache (ci_hash i) = None then alist_set (ci_hash i) i cache else cache) infos cache"

definition updateSingleCommitData ::
    "'m world \<Rightarrow> reader \<Rightarrow> (string \<Rightarrow> string \<Rightarrow> nat \<Rightarrow> commit_info list) \<Rightarrow> (string \<Rightarrow> string \<Rightarrow> commit_info) \<Rightarrow>
     bool \<Rightarrow> oid \<Rightarrow> (string \<times> commit_info) list option \<Rightarrow> ((string \<times> commit_info) list option, 'm) db_call"
where
  "updateSingleCommitData w rd lookingBack gitCommitData knownNoTestFile commit commitInfoCache s =
     (let c = get_commit s commit; reponame = rp_name (get_repo s (cm_repo c)) in
      if cm_data c \<noteq> None then (Inr commitInfoCache, s)
      else case commit_known (rd_services rd) reponame (cm_hash c) of
        Inl e \<Rightarrow> (Inl e, s)
      | Inr False \<Rightarrow> (Inr commitInfoCache, s)
      | Inr True \<Rightarrow>
          let cache = map_option (\<lambda>m. if map_of m (cm_hash c) = None
                then fill_cache (lookingBack reponame (cm_hash c) 50) m else m) commitInfoCache;
              info = (case cache of None \<Rightarrow> Inr (gitCommitData reponame (cm_hash c))
                      | Some m \<Rightarrow> lookupR (map_of m) (cm_hash c))
          in bindG (liftG info) (\<lambda>info. bindG (updateCommitDataForHash w rd (cm_repo c) knownNoTestFile info)
               (\<lambda>_. retG cache)) s)"

end
