(* ===== verification/Test_Priority.thy ===== *)
theory Test_Priority
  imports Machine_Lifecycle Commit_Priority
begin

text \<open>
  The priorities of tests in \<^verbatim>\<open>TestManager.py\<close>: when a test is ready to run
  (\<open>_testHasUnresolvedDependencies\<close>, \<open>_testHasFailedDeps\<close>, \<open>_testHasUnfinishedDeps\<close>,
  \<open>_testWantsRetries\<close>), \<open>_updateTestPriority\<close>, which classifies a test and books the machine it needs,
  \<open>_lookupHighestPriorityTest\<close>, which hands a test to a machine, and the periodic repairs
  \<open>checkAllTestPriorities\<close>, \<open>_checkMachineCategoryCounts\<close> and \<open>pruneDeadWorkers\<close>.
\<close>

section \<open>Dependencies and retries\<close>

definition commitsReferencingTest :: "'m mgr \<Rightarrow> oid \<Rightarrow> oid list" where
  "commitsReferencingTest s test =
     map (\<lambda>d. ct_commit (get_commit_test s d)) (lookup_all (commit_tests s) (CT_test test))"

text \<open>Reading the data of a commit that has none raises.\<close>

definition oldestCommitForTest :: "'m mgr \<Rightarrow> oid \<Rightarrow> oid option res" where
  "oldestCommitForTest s test =
     (let cs = commitsReferencingTest s test in
      if cs = [] then Inr None
      else if \<exists>c\<in>set cs. commit_data s c = None then Inl (UserException ''Null object'')
      else Inr (Some (hd (sort_key (\<lambda>c. cd_timestamp (the (commit_data s c))) cs))))"

definition testHasArtifactAnywhere :: "'m mgr \<Rightarrow> oid \<Rightarrow> string \<Rightarrow> bool" where
  "testHasArtifactAnywhere s test artifact \<longleftrightarrow>
     (\<exists>run\<in>set (lookup_all (runs s) (Run_test test)).
        \<not> run_canceled (get_run s run) \<and> artifact \<in> set (run_artifactsCompleted (get_run s run)))"

definition testWantsRetries :: "test_row \<Rightarrow> bool" where
  "testWantsRetries t =
     (if ts_calculatedPriority t = 0 then False
      else if sm_type (ts_summary t) \<noteq> ''Build'' then False
      else if sm_max_retries (ts_summary t) = 0 then False
      else if ts_successes t \<noteq> 0 then False
      else ts_totalRuns t < sm_max_retries (ts_summary t))"

definition readyToRetryTest :: "test_row \<Rightarrow> int \<Rightarrow> bool" where
  "readyToRetryTest t curTimestamp =
     (if ts_totalRuns t = 0 then True
      else curTimestamp - ts_lastTestEndTimestamp t > sm_retry_wait_seconds (ts_summary t))"

definition testHasUnresolvedDependencies :: "'m mgr \<Rightarrow> oid \<Rightarrow> bool" where
  "testHasUnresolvedDependencies s test \<longleftrightarrow> lookup_all (unresolved_tests s) (UT_test test) \<noteq> []"

definition testHasUnfinishedDeps :: "'m mgr \<Rightarrow> oid \<Rightarrow> bool" where
  "testHasUnfinishedDeps s test \<longleftrightarrow>
     (\<exists>dep\<in>set (lookup_all (test_deps s) (TD_test test)).
        let d = get_test_dep s dep; on = get_test s (td_dependsOn d)
        in \<not> testHasArtifactAnywhere s (td_dependsOn d) (td_artifact d) \<and>
           (ts_totalRuns on = 0 \<or> testWantsRetries on))"

definition testHasFailedDeps :: "'m mgr \<Rightarrow> oid \<Rightarrow> bool" where
  "testHasFailedDeps s test \<longleftrightarrow>
     (\<exists>dep\<in>set (lookup_all (test_deps s) (TD_test test)).
        let d = get_test_dep s dep; on = get_test s (td_dependsOn d)
        in \<not> testHasArtifactAnywhere s (td_dependsOn d) (td_artifact d) \<and>
           ((ts_totalRuns on > 0 \<and> ts_successes on = 0 \<and> \<not> testWantsRetries on) \<or>
            ts_priority on = DependencyFailed))"

definition runs_needed :: "test_row \<Rightarrow> int \<Rightarrow> int" where
  "runs_needed t curTimestamp =
     (if sm_type (ts_summary t) = ''Deployment'' then 0
      else if sm_type (ts_summary t) = ''Build'' then
        (if testWantsRetries t then
           (if readyToRetryTest t curTimestamp then ts_totalRuns t + 1 else ts_totalRuns t)
         else 1)
      else max (ts_runsDesired t) 1)"

text \<open>The first component tells whether enough runs are finished or under way, the second is the test with
  the number of machines it asks for.\<close>

definition updateTestTargetMachineCountAndReturnIsDone :: "test_row \<Rightarrow> int \<Rightarrow> bool \<times> test_row" where
  "updateTestTargetMachineCountAndReturnIsDone t curTimestamp =
     (if ts_calculatedPriority t = 0 then (True, t\<lparr>ts_targetMachineBoot := 0\<rparr>)
      else let needed = runs_needed t curTimestamp
           in (ts_totalRuns t + ts_activeRuns t \<ge> needed,
               t\<lparr>ts_targetMachineBoot := max (needed - ts_totalRuns t) 0\<rparr>))"

section \<open>Updating the priority of a test\<close>

text \<open>\<open>max\<close> of no values raises a \<open>ValueError\<close>: a test must be referenced by a commit.\<close>

definition commit_priority :: "'m mgr \<Rightarrow> oid \<Rightarrow> int res" where
  "commit_priority s test =
     (case map (\<lambda>c. cm_calculatedPriority (get_commit s c)) (commitsReferencingTest s test) of
        [] \<Rightarrow> Inl ValueError
      | p # ps \<Rightarrow> Inr (fold max ps p))"

definition raise_to_dependents :: "oid \<Rightarrow> 'm mgr \<Rightarrow> bool \<times> 'm mgr" where
  "raise_to_dependents test s =
     fold (\<lambda>dep (anyTestsReferencingUs, s).
        let p = ts_calculatedPriority (get_test s (td_test (get_test_dep s dep)))
        in (anyTestsReferencingUs \<or> p \<noteq> 0,
            upd_test test (\<lambda>t. t\<lparr>ts_calculatedPriority := max p (ts_calculatedPriority t)\<rparr>) s))
       (lookup_all (test_deps s) (TD_dependsOn test)) (False, s)"

definition cancel_runs :: "'m world \<Rightarrow> nat \<Rightarrow> oid \<Rightarrow> int \<Rightarrow> 'm mgr \<Rightarrow> 'm mgr res" where
  "cancel_runs w depth test curTimestamp s =
     foldR (\<lambda>run s.
        if run_endTimestamp (get_run s run) = 0 \<and> \<not> run_canceled (get_run s run)
        then cancelTestRun w depth curTimestamp run s else Inr s)
       (lookup_all (runs s) (Run_test test)) s"

text \<open>The class of a test: the row it gets when \<open>t\<close> is its row in the state \<open>s\<close>.\<close>

definition classify :: "'m mgr \<Rightarrow> oid \<Rightarrow> bool \<Rightarrow> bool \<Rightarrow> int \<Rightarrow> test_row \<Rightarrow> test_row" where
  "classify s test unbootable anyTestsReferencingUs curTimestamp t =
     (if unbootable
      then t\<lparr>ts_priority := HardwareComboUnbootable, ts_targetMachineBoot := 0, ts_calculatedPriority := 0\<rparr>
      else if sm_type (ts_summary t) \<noteq> ''Deployment'' \<and> sm_disabled (ts_summary t) \<and> \<not> anyTestsReferencingUs
      then t\<lparr>ts_priority := NoMoreTests, ts_calculatedPriority := 0\<rparr>
      else if testHasUnresolvedDependencies s test
      then t\<lparr>ts_priority := UnresolvedDependencies, ts_targetMachineBoot := 0\<rparr>
      else if testHasFailedDeps s test
      then t\<lparr>ts_priority := DependencyFailed, ts_targetMachineBoot := 0\<rparr>
      else if testHasUnfinishedDeps s test
      then t\<lparr>ts_priority := WaitingOnBuilds, ts_targetMachineBoot := 0\<rparr>
      else case updateTestTargetMachineCountAndReturnIsDone t curTimestamp of (isDone, t') \<Rightarrow>
        t'\<lparr>ts_priority :=
          (if isDone then
             (if testWantsRetries t' then (if ts_activeRuns t' \<noteq> 0 then NoMoreTests else WaitingToRetry)
              else NoMoreTests)
           else if sm_type (ts_summary t') = ''Build'' then FirstBuild (ts_calculatedPriority t')
           else if ts_totalRuns t' + ts_activeRuns t' = 0 then FirstTest (ts_calculatedPriority t')
           else WantsMoreTests (ts_calculatedPriority t'))\<rparr>)"

definition trigger_neighbours :: "oid \<Rightarrow> 'm mgr \<Rightarrow> 'm mgr" where
  "trigger_neighbours test s =
     fold (\<lambda>dep s. triggerTestPriorityUpdate (td_test (get_test_dep s dep)) s)
       (lookup_all (test_deps s) (TD_dependsOn test))
       (fold (\<lambda>dep s. triggerTestPriorityUpdate (td_dependsOn (get_test_dep s dep)) s)
          (lookup_all (test_deps s) (TD_test test)) s)"

definition updateTestPriority :: "'m world \<Rightarrow> nat \<Rightarrow> oid \<Rightarrow> int \<Rightarrow> 'm mgr \<Rightarrow> 'm mgr res" where
  "updateTestPriority w depth test curTimestamp s0 =
     (let oldCalcPri = ts_calculatedPriority (get_test s0 test) in
      bindR (commit_priority s0 test) (\<lambda>p.
      case raise_to_dependents test (upd_test test (\<lambda>t. t\<lparr>ts_calculatedPriority := p\<rparr>) s0) of
        (anyTestsReferencingUs, s1) \<Rightarrow>
      bindR (if ts_calculatedPriority (get_test s1 test) = 0 then cancel_runs w depth test curTimestamp s1
             else Inr s1) (\<lambda>s2.
      let oldPriority = ts_priority (get_test s2 test);
          oldTargetMachineBoot = ts_targetMachineBoot (get_test s2 test)
      in bindR (machineCategoryForTest w test s2) (\<lambda>(category, s3).
      let s4 = upd_test test (\<lambda>t. t\<lparr>ts_machineCategory := Some category\<rparr>) s3;
          s5 = upd_test test (\<lambda>t. classify s4 test (mc_hardwareComboUnbootable (get_category s4 category))
                 anyTestsReferencingUs curTimestamp t) s4;
          net_change = ts_targetMachineBoot (get_test s5 test) - oldTargetMachineBoot;
          s6 = (if net_change \<noteq> 0
                then scheduleBootCheck (upd_category category (\<lambda>c. c\<lparr>mc_desired := mc_desired c + net_change\<rparr>) s5)
                else s5)
      in Inr (if ts_priority (get_test s6 test) \<noteq> oldPriority \<or> ts_calculatedPriority (get_test s6 test) \<noteq> oldCalcPri
              then trigger_neighbours test s6 else s6)))))"

section \<open>Choosing a test\<close>

text \<open>The order in which the priorities are tried: \<open>MAX_TEST_PRIORITY\<close> is 2.\<close>

definition priority_order :: "test_priority list" where
  "priority_order =
     concat (map (\<lambda>priorityType. map priorityType (rev [1..2])) [FirstBuild, FirstTest, WantsMoreTests])"

fun first_matching :: "'m world \<Rightarrow> machine_row \<Rightarrow> 'm mgr \<Rightarrow> oid list \<Rightarrow> oid option res" where
  "first_matching w machine s [] = Inr None"
| "first_matching w machine s (test # rest) =
     bindR (machineCategoryPairForTest w (get_test s test)) (\<lambda>p.
       if p = (ma_hardware machine, ma_os machine) then Inr (Some test)
       else first_matching w machine s rest)"

definition lookupHighestPriorityTest :: "'m world \<Rightarrow> oid \<Rightarrow> 'm mgr \<Rightarrow> oid option res" where
  "lookupHighestPriorityTest w machine s =
     first_matching w (get_machine s machine) s
       (concat (map (\<lambda>p. lookup_all (tests s) (Test_priority p)) priority_order))"

section \<open>A test is runnable exactly when it is ready\<close>

definition dep_satisfied :: "'m mgr \<Rightarrow> oid \<Rightarrow> bool" where
  "dep_satisfied s dep \<longleftrightarrow>
     (let d = get_test_dep s dep; on = get_test s (td_dependsOn d)
      in testHasArtifactAnywhere s (td_dependsOn d) (td_artifact d) \<or>
         (ts_totalRuns on \<noteq> 0 \<and> (ts_totalRuns on > 0 \<longrightarrow> ts_successes on \<noteq> 0) \<and>
          \<not> testWantsRetries on \<and> ts_priority on \<noteq> DependencyFailed))"

definition test_ready :: "'m mgr \<Rightarrow> oid \<Rightarrow> int \<Rightarrow> bool" where
  "test_ready s test now \<longleftrightarrow>
     ts_calculatedPriority (get_test s test) \<noteq> 0 \<and>
     (\<exists>c. ts_machineCategory (get_test s test) = Some c \<and> \<not> mc_hardwareComboUnbootable (get_category s c)) \<and>
     lookup_all (unresolved_tests s) (UT_test test) = [] \<and>
     (\<forall>dep\<in>set (lookup_all (test_deps s) (TD_test test)). dep_satisfied s dep) \<and>
     ts_totalRuns (get_test s test) + ts_activeRuns (get_test s test) < runs_needed (get_test s test) now"

lemma deps_satisfied:
  "(\<forall>dep\<in>set (lookup_all (test_deps s) (TD_test test)). dep_satisfied s dep) \<longleftrightarrow>
   \<not> testHasFailedDeps s test \<and> \<not> testHasUnfinishedDeps s test"
  by (auto simp: dep_satisfied_def testHasFailedDeps_def testHasUnfinishedDeps_def Let_def)

lemma test_ready_cong:
  assumes "get_test s' = get_test s" "unresolved_tests s' = unresolved_tests s" "test_deps s' = test_deps s"
    "runs s' = runs s" "\<And>c. mc_hardwareComboUnbootable (get_category s' c) = mc_hardwareComboUnbootable (get_category s c)"
  shows "test_ready s' test now = test_ready s test now"
  using assms by (simp add: test_ready_def dep_satisfied_def testHasArtifactAnywhere_def get_test_dep_def get_run_def)

lemma classify_keeps:
  "ts_totalRuns (classify s test u any now t) = ts_totalRuns t"
  "ts_activeRuns (classify s test u any now t) = ts_activeRuns t"
  "ts_successes (classify s test u any now t) = ts_successes t"
  "ts_summary (classify s test u any now t) = ts_summary t"
  "ts_machineCategory (classify s test u any now t) = ts_machineCategory t"
  "ts_runsDesired (classify s test u any now t) = ts_runsDesired t"
  "ts_lastTestEndTimestamp (classify s test u any now t) = ts_lastTestEndTimestamp t"
  "ts_hash (classify s test u any now t) = ts_hash t"
  by (simp_all add: classify_def updateTestTargetMachineCountAndReturnIsDone_def Let_def)

lemma get_upd_test:
  "rows (tests s) test = Some t \<Longrightarrow> get_test (upd_test test f s) d = (if d = test then f t else get_test s d)"
  by (simp add: get_test_def upd_test_def)

text \<open>The dependencies seen before and after the new class is stored.\<close>

lemma deps_after_classify:
  assumes t: "rows (tests s) test = Some t" and "ts_calculatedPriority t' = ts_calculatedPriority t"
    "ts_totalRuns t' = ts_totalRuns t" "ts_successes t' = ts_successes t" "ts_summary t' = ts_summary t"
    "ts_priority t' \<noteq> DependencyFailed \<or> testHasFailedDeps s test"
  shows "testHasFailedDeps s test \<Longrightarrow> ts_priority t' = DependencyFailed \<Longrightarrow> testHasFailedDeps (upd_test test (\<lambda>_. t') s) test"
    "testHasUnfinishedDeps (upd_test test (\<lambda>_. t') s) test = testHasUnfinishedDeps s test"
    "\<not> testHasFailedDeps s test \<Longrightarrow> \<not> testHasFailedDeps (upd_test test (\<lambda>_. t') s) test"
proof -
  let ?s = "upd_test test (\<lambda>_. t') s"
  have same: "test_deps ?s = test_deps s" "runs ?s = runs s" by (simp_all add: upd_test_def)
  have get: "get_test ?s d = (if d = test then t' else get_test s d)" for d
    using get_upd_test [OF t] by simp
  have self: "get_test s test = t" using t by (simp add: get_test_def)
  have retries: "testWantsRetries t' = testWantsRetries t" using assms(2-5) by (simp add: testWantsRetries_def)
  have art: "testHasArtifactAnywhere ?s = testHasArtifactAnywhere s"
    by (simp add: testHasArtifactAnywhere_def get_run_def same fun_eq_iff)
  have dep: "get_test_dep ?s = get_test_dep s" by (simp add: get_test_dep_def same fun_eq_iff)
  show "testHasUnfinishedDeps ?s test = testHasUnfinishedDeps s test"
    unfolding testHasUnfinishedDeps_def Let_def same art dep get
    by (rule bex_cong) (auto simp: self retries assms(3))
  show "testHasFailedDeps s test \<Longrightarrow> ts_priority t' = DependencyFailed \<Longrightarrow> testHasFailedDeps ?s test"
    unfolding testHasFailedDeps_def Let_def same art dep get
    by (erule bexE, rule bexI) (auto simp: self retries assms(3,4) split: if_splits)
  assume no: "\<not> testHasFailedDeps s test"
  show "\<not> testHasFailedDeps ?s test"
  proof
    assume "testHasFailedDeps ?s test"
    then obtain d where "d \<in> set (lookup_all (test_deps s) (TD_test test))"
      "\<not> testHasArtifactAnywhere s (td_dependsOn (get_test_dep s d)) (td_artifact (get_test_dep s d))"
      "(let on = (if td_dependsOn (get_test_dep s d) = test then t' else get_test s (td_dependsOn (get_test_dep s d)))
        in (ts_totalRuns on > 0 \<and> ts_successes on = 0 \<and> \<not> testWantsRetries on) \<or> ts_priority on = DependencyFailed)"
      unfolding testHasFailedDeps_def Let_def same art dep get by blast
    moreover have "ts_priority t' \<noteq> DependencyFailed" using no assms(6) by simp
    ultimately have "testHasFailedDeps s test"
      unfolding testHasFailedDeps_def Let_def
      by (intro bexI [of _ d]) (auto simp: self retries assms(3,4) split: if_splits)
    with no show False by simp
  qed
qed

definition priority_class :: "test_row \<Rightarrow> test_priority" where
  "priority_class t =
     (if sm_type (ts_summary t) = ''Build'' then FirstBuild (ts_calculatedPriority t)
      else if ts_totalRuns t + ts_activeRuns t = 0 then FirstTest (ts_calculatedPriority t)
      else WantsMoreTests (ts_calculatedPriority t))"

text \<open>The class of a test that is stored on top of the state in which it was computed.\<close>

lemma classify_ready:
  fixes any :: bool and now :: int
  assumes t: "rows (tests s) test = Some t" and cat: "ts_machineCategory t = Some c"
  defines "t' \<equiv> classify s test (mc_hardwareComboUnbootable (get_category s c)) any now t"
  shows "prioritized (ts_priority t') \<longleftrightarrow> test_ready (upd_test test (\<lambda>_. t') s) test now"
    "prioritized (ts_priority t') \<Longrightarrow> ts_priority t' = priority_class t'"
proof -
  let ?s = "upd_test test (\<lambda>_. t') s" and ?u = "mc_hardwareComboUnbootable (get_category s c)"
  have get: "get_test ?s test = t'" using get_upd_test [OF t] by simp
  have keeps: "ts_totalRuns t' = ts_totalRuns t" "ts_activeRuns t' = ts_activeRuns t" "ts_successes t' = ts_successes t"
    "ts_summary t' = ts_summary t" "ts_machineCategory t' = Some c" "ts_runsDesired t' = ts_runsDesired t"
    "ts_lastTestEndTimestamp t' = ts_lastTestEndTimestamp t"
    unfolding t'_def by (simp_all add: classify_keeps cat)
  have cats: "get_category ?s = get_category s" and unres: "unresolved_tests ?s = unresolved_tests s"
    by (simp_all add: get_category_def upd_test_def fun_eq_iff)
  have ready: "test_ready ?s test now \<longleftrightarrow> ts_calculatedPriority t' \<noteq> 0 \<and> \<not> ?u \<and> \<not> testHasUnresolvedDependencies s test \<and>
      \<not> testHasFailedDeps ?s test \<and> \<not> testHasUnfinishedDeps ?s test \<and>
      ts_totalRuns t + ts_activeRuns t < runs_needed t' now"
    unfolding test_ready_def deps_satisfied get by (simp add: keeps cats unres testHasUnresolvedDependencies_def)
  define gate where "gate \<longleftrightarrow> \<not> ?u \<and>
    \<not> (sm_type (ts_summary t) \<noteq> ''Deployment'' \<and> sm_disabled (ts_summary t) \<and> \<not> any)"
  note after = deps_after_classify [OF t _ keeps(1,3,4)]
  have both: "(prioritized (ts_priority t') \<longleftrightarrow> test_ready ?s test now) \<and>
    (prioritized (ts_priority t') \<longrightarrow> ts_priority t' = priority_class t')"
  proof (cases "gate \<and> \<not> testHasUnresolvedDependencies s test \<and> \<not> testHasFailedDeps s test \<and> \<not> testHasUnfinishedDeps s test")
    case False
    have "\<not> prioritized (ts_priority t')"
      using False by (auto simp: t'_def classify_def gate_def)
    moreover have "\<not> test_ready ?s test now"
    proof (cases "gate \<and> \<not> testHasUnresolvedDependencies s test")
      case False
      then show ?thesis unfolding ready gate_def by (auto simp: t'_def classify_def)
    next
      case here: True
      show ?thesis
      proof (cases "testHasFailedDeps s test")
        case True
        with here have "t' = t\<lparr>ts_priority := DependencyFailed, ts_targetMachineBoot := 0\<rparr>"
          by (auto simp: t'_def classify_def gate_def)
        then have "testHasFailedDeps ?s test" using after(1) True by simp
        then show ?thesis unfolding ready by simp
      next
        case no: False
        with here False have "testHasUnfinishedDeps s test" by blast
        with here no have "t' = t\<lparr>ts_priority := WaitingOnBuilds, ts_targetMachineBoot := 0\<rparr>"
          by (auto simp: t'_def classify_def gate_def)
        then have "testHasUnfinishedDeps ?s test" using after(2) \<open>testHasUnfinishedDeps s test\<close> by simp
        then show ?thesis unfolding ready by simp
      qed
    qed
    ultimately show ?thesis by simp
  next
    case True
    define r where "r = updateTestTargetMachineCountAndReturnIsDone t now"
    define pc where "pc = (if fst r then
        (if testWantsRetries (snd r) then (if ts_activeRuns (snd r) \<noteq> 0 then NoMoreTests else WaitingToRetry) else NoMoreTests)
        else priority_class (snd r))"
    have t': "t' = (snd r)\<lparr>ts_priority := pc\<rparr>"
    proof -
      have g: "(sm_type (ts_summary t) \<noteq> ''Deployment'' \<and> sm_disabled (ts_summary t) \<and> \<not> any) = False" "?u = False"
        "testHasUnresolvedDependencies s test = False" "testHasFailedDeps s test = False"
        "testHasUnfinishedDeps s test = False"
        using True unfolding gate_def by blast+
      show ?thesis unfolding t'_def classify_def g if_False r_def pc_def priority_class_def split_beta
        by (rule refl)
    qed
    have calc: "ts_calculatedPriority t' = ts_calculatedPriority t"
      by (simp add: t' r_def updateTestTargetMachineCountAndReturnIsDone_def Let_def)
    have not_failed: "ts_priority t' \<noteq> DependencyFailed"
      by (simp add: t' pc_def priority_class_def)
    have deps: "\<not> testHasFailedDeps ?s test" "\<not> testHasUnfinishedDeps ?s test"
      using after(2,3) calc not_failed True by simp_all
    have "testWantsRetries t' = testWantsRetries t" "readyToRetryTest t' now = readyToRetryTest t now"
      by (simp_all add: testWantsRetries_def readyToRetryTest_def calc keeps)
    then have needed: "runs_needed t' now = runs_needed t now"
      by (simp add: runs_needed_def keeps)
    have finished: "fst r \<longleftrightarrow> ts_calculatedPriority t = 0 \<or> ts_totalRuns t + ts_activeRuns t \<ge> runs_needed t now"
      by (simp add: r_def updateTestTargetMachineCountAndReturnIsDone_def Let_def)
    have run: "prioritized (ts_priority t') \<longleftrightarrow> \<not> fst r"
      by (simp add: t' pc_def priority_class_def)
    have "test_ready ?s test now \<longleftrightarrow> \<not> fst r"
      unfolding ready needed calc using True deps finished by (auto simp: gate_def)
    moreover have "ts_priority t' = priority_class t'" if "\<not> fst r"
      using that by (simp add: t' pc_def priority_class_def)
    ultimately show ?thesis using run by simp
  qed
  then show "prioritized (ts_priority t') \<longleftrightarrow> test_ready ?s test now"
    "prioritized (ts_priority t') \<Longrightarrow> ts_priority t' = priority_class t'" by simp_all
qed

lemma trigger_neighbours_same: "same_but_tasks s (trigger_neighbours test s)"
  unfolding trigger_neighbours_def
  by (intro same_but_tasks_trans [OF fold_same fold_same] trigger_same)

lemma scheduleBootCheck_same: "same_but_tasks s (scheduleBootCheck s)"
  by (simp add: scheduleBootCheck_def queueTask_same)

section \<open>The update succeeds\<close>

lemma upd_test_books_and_row:
  assumes "books w s" "rows (tests s) i \<noteq> None" "\<And>t. ts_summary (f t) = ts_summary t" "\<And>t. ts_hash (f t) = ts_hash t"
  shows "books w (upd_test i f s)" "evolves s (upd_test i f s)"
  using upd_test_books [OF assms(1,3,4)] by blast+

lemma raise_to_dependents_good:
  assumes "books w s"
  shows "books w (snd (raise_to_dependents test s)) \<and> evolves s (snd (raise_to_dependents test s))"
proof -
  have "books w (snd (fold g xs (b, u))) \<and> evolves s (snd (fold g xs (b, u)))"
    if "books w u" "evolves s u" and g: "g = (\<lambda>dep (anyTestsReferencingUs, s).
        let p = ts_calculatedPriority (get_test s (td_test (get_test_dep s dep)))
        in (anyTestsReferencingUs \<or> p \<noteq> 0,
            upd_test test (\<lambda>t. t\<lparr>ts_calculatedPriority := max p (ts_calculatedPriority t)\<rparr>) s))" for xs b u g
    using that(1,2)
  proof (induction xs arbitrary: b u)
    case (Cons x xs)
    obtain b' u' where step: "g x (b, u) = (b', u')" by fastforce
    then have "books w u' \<and> evolves u u'"
      using upd_test_books [OF Cons.prems(1), of "\<lambda>t. t\<lparr>ts_calculatedPriority := max p (ts_calculatedPriority t)\<rparr>" test for p]
      by (auto simp: g Let_def)
    then have u': "books w u'" "evolves u u'" by simp_all
    have "evolves s u'" using Cons.prems(2) u'(2) by (rule evolves_trans)
    from Cons.IH [OF u'(1) this] show ?case by (simp add: step)
  qed simp
  then show ?thesis using assms unfolding raise_to_dependents_def by simp
qed

lemma cancel_runs_good:
  assumes "books w s" "card (alive_ids s) < depth"
  shows "\<exists>s'. cancel_runs w depth test now s = Inr s' \<and> books w s' \<and> evolves s s'"
proof -
  let ?f = "\<lambda>run s. if run_endTimestamp (get_run s run) = 0 \<and> \<not> run_canceled (get_run s run)
    then cancelTestRun w depth now run s else Inr s"
  have "\<exists>t. foldR ?f (lookup_all (runs s) (Run_test test)) s = Inr t \<and> books w t \<and> evolves s t \<and>
      (\<forall>x\<in>set (lookup_all (runs s) (Run_test test)). True)"
  proof (rule foldR_evolves [where Q = "\<lambda>_ _. True"])
    fix x u assume x: "x \<in> set (lookup_all (runs s) (Run_test test))" and u: "books w u" "evolves s u"
    have "tbl_ok run_keys (runs s)" using assms(1) by (simp add: books_def runs_ok_def)
    then obtain r where "rows (runs s) x = Some r" using x run_index.in_lookup_iff by blast
    then obtain r' where r: "rows (runs u) x = Some r'" using evolves_rows(2) [OF u(2)] by blast
    have "card (alive_ids u) < depth" using card_alive_le [OF assms(1) u(2)] assms(2) by simp
    then have "term_good w (card (alive_ids u)) (machineTerminated w depth)" by (rule machineTerminated_term_good)
    from cancelRun_good [OF this u(1) order_refl r]
    show "\<exists>v. ?f x u = Inr v \<and> books w v \<and> evolves u v \<and> True"
      using u(1) r by (auto simp: cancelTestRun_def get_run_def)
  qed (use assms(1) in simp_all)
  then show ?thesis unfolding cancel_runs_def by blast
qed

lemma upd_test_const:
  "rows (tests s) i = Some t \<Longrightarrow> upd_test i f s = upd_test i (\<lambda>_. f t) s"
  by (simp add: upd_test_def tbl_modify_def)

lemma trigger_neighbours_books:
  assumes "books w s"
  shows "books w (trigger_neighbours test s)"
proof -
  have one: "books w (fold (\<lambda>dep s. triggerTestPriorityUpdate (td_test (get_test_dep s dep)) s) xs u)"
    "books w (fold (\<lambda>dep s. triggerTestPriorityUpdate (td_dependsOn (get_test_dep s dep)) s) xs u)"
    if "books w u" for xs u
    using that by (induction xs arbitrary: u) (auto simp: trigger_books)
  show ?thesis unfolding trigger_neighbours_def by (intro one assms)
qed

lemma commit_priority_ok: "commitsReferencingTest s test \<noteq> [] \<Longrightarrow> \<exists>p. commit_priority s test = Inr p"
  by (cases "commitsReferencingTest s test") (simp_all add: commit_priority_def)

text \<open>The last steps: the class is stored, the category told, the neighbours triggered.\<close>

definition store_class :: "oid \<Rightarrow> oid \<Rightarrow> bool \<Rightarrow> int \<Rightarrow> test_priority \<Rightarrow> int \<Rightarrow> int \<Rightarrow> 'm mgr \<Rightarrow> 'm mgr" where
  "store_class test category any now oldPriority oldCalcPri oldTarget s3 =
     (let s4 = upd_test test (\<lambda>t. t\<lparr>ts_machineCategory := Some category\<rparr>) s3;
          s5 = upd_test test (\<lambda>t. classify s4 test (mc_hardwareComboUnbootable (get_category s4 category)) any now t) s4;
          net_change = ts_targetMachineBoot (get_test s5 test) - oldTarget;
          s6 = (if net_change \<noteq> 0
                then scheduleBootCheck (upd_category category (\<lambda>c. c\<lparr>mc_desired := mc_desired c + net_change\<rparr>) s5)
                else s5)
      in if ts_priority (get_test s6 test) \<noteq> oldPriority \<or> ts_calculatedPriority (get_test s6 test) \<noteq> oldCalcPri
         then trigger_neighbours test s6 else s6)"

lemma store_class_correct:
  fixes any :: bool and now oldCalcPri oldTarget :: int and oldPriority :: test_priority and category :: oid
  assumes "books w s3" "rows (tests s3) test = Some t"
  defines "s' \<equiv> store_class test category any now oldPriority oldCalcPri oldTarget s3"
  shows "books w s' \<and> (prioritized (ts_priority (get_test s' test)) \<longleftrightarrow> test_ready s' test now) \<and>
    (prioritized (ts_priority (get_test s' test)) \<longrightarrow> ts_priority (get_test s' test) = priority_class (get_test s' test)) \<and>
    (rows (categories s3) category \<noteq> None \<longrightarrow>
      mc_desired (get_category s' category) - ts_targetMachineBoot (get_test s' test) =
      mc_desired (get_category s3 category) - oldTarget)"
proof -
  define s4 where "s4 = upd_test test (\<lambda>t. t\<lparr>ts_machineCategory := Some category\<rparr>) s3"
  define u where "u = mc_hardwareComboUnbootable (get_category s4 category)"
  define s5 where "s5 = upd_test test (\<lambda>t. classify s4 test u any now t) s4"
  define net where "net = ts_targetMachineBoot (get_test s5 test) - oldTarget"
  define s6 where "s6 = (if net \<noteq> 0
    then scheduleBootCheck (upd_category category (\<lambda>c. c\<lparr>mc_desired := mc_desired c + net\<rparr>) s5) else s5)"
  define t4 where "t4 = t\<lparr>ts_machineCategory := Some category\<rparr>"
  define t5 where "t5 = classify s4 test u any now t4"
  have s': "s' = (if ts_priority (get_test s6 test) \<noteq> oldPriority \<or> ts_calculatedPriority (get_test s6 test) \<noteq> oldCalcPri
      then trigger_neighbours test s6 else s6)"
    unfolding s'_def store_class_def Let_def s4_def [symmetric] u_def [symmetric] s5_def [symmetric]
      net_def [symmetric] s6_def [symmetric] by (rule refl)
  have r4: "rows (tests s4) test = Some t4" by (simp add: s4_def t4_def upd_test_def assms(2))
  have s5: "s5 = upd_test test (\<lambda>_. t5) s4" unfolding s5_def t5_def by (rule upd_test_const [OF r4])
  have g5: "get_test s5 test = t5" unfolding s5 using get_upd_test [OF r4] by simp
  have ready5: "prioritized (ts_priority t5) \<longleftrightarrow> test_ready s5 test now"
    "prioritized (ts_priority t5) \<Longrightarrow> ts_priority t5 = priority_class t5"
    unfolding s5 t5_def u_def using classify_ready [OF r4] by (simp_all add: t4_def)
  have b4: "books w s4" unfolding s4_def using upd_test_books [OF assms(1)] by simp
  have b5: "books w s5" unfolding s5_def using upd_test_books [OF b4] by (simp add: classify_keeps)
  have b6: "books w s6"
    using b5 upd_category_books [OF b5, of "\<lambda>c. c\<lparr>mc_desired := mc_desired c + net\<rparr>" category] bootCheck_books
    by (auto simp: s6_def)
  have books: "books w s'" using b6 by (simp add: s' trigger_neighbours_books)
  have same: "same_but_tasks s6 s'" by (simp add: s' trigger_neighbours_same)
  have up: "tests (upd_category category f s5) = tests s5" "unresolved_tests (upd_category category f s5) = unresolved_tests s5"
    "test_deps (upd_category category f s5) = test_deps s5" "runs (upd_category category f s5) = runs s5" for f
    by (simp_all add: upd_category_def)
  define s6' where "s6' = (if net \<noteq> 0
      then upd_category category (\<lambda>c. c\<lparr>mc_desired := mc_desired c + net\<rparr>) s5 else s5)"
  have "same_but_tasks s6' s6" by (simp add: s6_def s6'_def scheduleBootCheck_same)
  note s6' = this s6'_def
  have all: "same_but_tasks s6' s'" using s6'(1) same by (rule same_but_tasks_trans)
  have unres: "unresolved_tests s' = unresolved_tests s6'" using all by (auto simp: same_but_tasks_def)
  note reads = same_but_tasks_reads [OF all] unres
  have gt: "get_test s' = get_test s5"
    by (simp add: get_test_def fun_eq_iff reads s6'(2) up)
  have "test_ready s' test now = test_ready s5 test now"
    by (rule test_ready_cong) (auto simp: gt reads s6'(2) up get_category_def upd_category_def split: option.splits)
  moreover have "mc_desired (get_category s' category) - ts_targetMachineBoot (get_test s' test) =
      mc_desired (get_category s3 category) - oldTarget" if "rows (categories s3) category \<noteq> None"
  proof -
    have "categories s5 = categories s3" by (simp add: s5_def s4_def upd_test_def)
    then have "mc_desired (get_category s' category) = mc_desired (get_category s3 category) + net"
      using that by (auto simp: get_category_def reads(9) s6'(2) upd_category_def)
    then show ?thesis by (simp add: gt net_def)
  qed
  ultimately show ?thesis using books ready5 unfolding gt g5 by blast
qed

lemma updateTestPriority_good:
  assumes b: "books w s" and t: "rows (tests s) test = Some t" and ref: "commitsReferencingTest s test \<noteq> []"
    and hw: "machineCategoryPairForTest w t = Inr p" and depth: "card (alive_ids s) < depth"
  shows "\<exists>s'. updateTestPriority w depth test now s = Inr s' \<and> books w s' \<and>
    (prioritized (ts_priority (get_test s' test)) \<longleftrightarrow> test_ready s' test now) \<and>
    (prioritized (ts_priority (get_test s' test)) \<longrightarrow> ts_priority (get_test s' test) = priority_class (get_test s' test))"
proof -
  obtain pr where pr: "commit_priority s test = Inr pr" using commit_priority_ok [OF ref] by blast
  define s0 where "s0 = upd_test test (\<lambda>t. t\<lparr>ts_calculatedPriority := pr\<rparr>) s"
  have b0: "books w s0" "evolves s s0" using upd_test_books [OF b] by (simp_all add: s0_def)
  obtain any s1 where s1: "raise_to_dependents test s0 = (any, s1)" by fastforce
  have b1: "books w s1" "evolves s0 s1" using raise_to_dependents_good [OF b0(1), of test] by (simp_all add: s1)
  have e1: "evolves s s1" using b0(2) b1(2) by (rule evolves_trans)
  have "card (alive_ids s1) < depth" using card_alive_le [OF b e1] depth by simp
  then obtain c where c: "cancel_runs w depth test now s1 = Inr c" "books w c" "evolves s1 c"
    using cancel_runs_good [OF b1(1)] by blast
  define s2 where "s2 = (if ts_calculatedPriority (get_test s1 test) = 0 then c else s1)"
  have s2: "(if ts_calculatedPriority (get_test s1 test) = 0 then cancel_runs w depth test now s1
      else Inr s1) = Inr s2" and b2: "books w s2" "evolves s1 s2"
    using c b1(1) by (simp_all add: s2_def)
  have e2: "evolves s s2" using e1 b2(2) by (rule evolves_trans)
  have "ts_summary (get_test s2 test) = ts_summary t"
    using evolves_rows(4) [OF e2 t] by (auto simp: get_test_def test_le_def)
  then have pair: "machineCategoryPairForTest w (get_test s2 test) = Inr p"
    using pairForTest_summary hw by metis
  obtain category s3 where s3: "machineCategoryForPair p s2 = (category, s3)" by fastforce
  have b3: "books w s3" "evolves s2 s3" using categoryForPair_books [OF b2(1) s3] by simp_all
  obtain t3 where "rows (tests s3) test = Some t3"
    using evolves_rows(4) [OF evolves_trans [OF e2 b3(2)] t] by blast
  note final = store_class_correct [OF b3(1) this, where category = category and any = any and now = now and
      oldPriority = "ts_priority (get_test s2 test)" and oldCalcPri = "ts_calculatedPriority (get_test s test)" and
      oldTarget = "ts_targetMachineBoot (get_test s2 test)"]
  have "updateTestPriority w depth test now s = Inr (store_class test category any now (ts_priority (get_test s2 test))
      (ts_calculatedPriority (get_test s test)) (ts_targetMachineBoot (get_test s2 test)) s3)"
    unfolding updateTestPriority_def Let_def pr bindR.simps s0_def [symmetric] s1 prod.case s2
      machineCategoryForTest_def pair s3 store_class_def by (rule refl)
  then show ?thesis using final by blast
qed


text \<open>A build with one commit of priority one.\<close>

definition demo_build :: "nat mgr" where
  "demo_build = (new_manager 0 0)\<lparr>
     tests := empty_tbl\<lparr>rows := [2 \<mapsto> default_test\<lparr>ts_summary := default_summary\<lparr>sm_type := ''Build''\<rparr>\<rparr>]\<rparr>,
     commits := empty_tbl\<lparr>rows := [1 \<mapsto> default_commit\<lparr>cm_calculatedPriority := 1\<rparr>]\<rparr>,
     commit_tests := tbl_new ct_keys 3 \<lparr>ct_commit = 1, ct_test = 2\<rparr> empty_tbl\<rparr>"

lemma demo_build_books: "books demo_world demo_build"
proof -
  have "tasks_inv demo_build"
    by (rule tasks_inv_frame [OF tasks_inv_new_manager [of 0 0]]) (simp_all add: demo_build_def new_manager_def)
  moreover have "machines demo_build = empty_tbl" "categories demo_build = empty_tbl" "runs demo_build = empty_tbl"
    "deployments demo_build = empty_tbl" by (simp_all add: demo_build_def new_manager_def)
  ultimately show ?thesis
    by (simp add: books_def machines_ok_def categories_ok_def runs_ok_def deployments_ok_def machine_index.ok_empty
        category_index.ok_empty run_index.ok_empty deployment_index.ok_empty)
qed


section \<open>The test handed to a machine\<close>

lemma first_matching_find:
  assumes "\<And>t. t \<in> set ts \<Longrightarrow> \<exists>p. machineCategoryPairForTest w (get_test s t) = Inr p"
  shows "first_matching w machine s ts =
    Inr (List.find (\<lambda>t. machineCategoryPairForTest w (get_test s t) = Inr (ma_hardware machine, ma_os machine)) ts)"
  using assms
proof (induction ts)
  case (Cons t ts)
  from Cons.prems obtain p where "machineCategoryPairForTest w (get_test s t) = Inr p" by (meson list.set_intros(1))
  then show ?case using Cons by simp
qed simp

lemma find_concat_Some:
  "List.find P (concat (map L ps)) = Some x \<Longrightarrow>
   \<exists>ps1 p ps2. ps = ps1 @ p # ps2 \<and> x \<in> set (L p) \<and> P x \<and> (\<forall>q\<in>set ps1. \<forall>y\<in>set (L q). \<not> P y)"
proof (induction ps)
  case (Cons p ps)
  show ?case
  proof (cases "List.find P (L p)")
    case None
    then have none: "\<forall>y\<in>set (L p). \<not> P y" by (simp add: find_None_iff)
    have "List.find P (xs @ zs) = List.find P zs" if "\<forall>y\<in>set xs. \<not> P y" for xs zs
      using that by (induction xs) simp_all
    from this [OF none]
    have "List.find P (concat (map L ps)) = Some x" using Cons.prems by simp
    from Cons.IH [OF this] obtain ps1 q ps2 where "ps = ps1 @ q # ps2" "x \<in> set (L q)" "P x"
      "\<forall>q\<in>set ps1. \<forall>y\<in>set (L q). \<not> P y" by blast
    then show ?thesis using none by (intro exI [of _ "p # ps1"] exI [of _ q] exI [of _ ps2]) simp
  next
    case (Some y)
    have "List.find P (xs @ zs) = Some y" if "List.find P xs = Some y" for xs zs
      using that by (induction xs) (simp_all split: if_splits)
    then have "x = y" using Cons.prems Some by simp
    then have "x \<in> set (L p)" "P x" using Some by (auto simp: find_Some_iff)
    then show ?thesis by (intro exI [of _ "[]"] exI [of _ p] exI [of _ ps]) simp
  qed
qed simp

lemma priority_key: "prioritized p \<Longrightarrow> Test_priority p \<in> set (test_keys t) \<longleftrightarrow> ts_priority t = p"
  by (auto simp: test_keys_def split: option.splits)

definition suits :: "'m world \<Rightarrow> machine_row \<Rightarrow> test_row \<Rightarrow> bool" where
  "suits w machine t \<longleftrightarrow> machineCategoryPairForTest w t = Inr (ma_hardware machine, ma_os machine)"



text \<open>The update, with its last steps as one.\<close>

lemma updateTestPriority_steps:
  "updateTestPriority w depth test now s =
     bindR (commit_priority s test) (\<lambda>p.
     case raise_to_dependents test (upd_test test (\<lambda>t. t\<lparr>ts_calculatedPriority := p\<rparr>) s) of (any, s1) \<Rightarrow>
     bindR (if ts_calculatedPriority (get_test s1 test) = 0 then cancel_runs w depth test now s1 else Inr s1) (\<lambda>s2.
     bindR (machineCategoryForTest w test s2) (\<lambda>(category, s3).
       Inr (store_class test category any now (ts_priority (get_test s2 test)) (ts_calculatedPriority (get_test s test))
         (ts_targetMachineBoot (get_test s2 test)) s3))))"
  unfolding updateTestPriority_def Let_def store_class_def by (rule refl)

end
