(* ===== verification/Branch_Updates.thy ===== *)
theory Branch_Updates
  imports Commit_Intake Test_Priority Py_Fnmatch
begin

text \<open>
  The repositories and branches of \<^verbatim>\<open>TestManager.py\<close>: comparing them with what git lists, moving the
  head of a branch, deleting branches, creating branches from templates, updating pins, and
  \<open>_processTask\<close>, which dispatches the background tasks to all of these. A call works on the
  database and on the git repositories; what it did to either stays when it raises, and rolling
  the database back is the business of the transaction around it.
\<close>

section \<open>Git\<close>

record 'g source_control =
  sc_reader :: "'g \<Rightarrow> reader"
  sc_pins :: "'g pin_git"
  sc_listRepos :: "'g \<Rightarrow> string list"
  sc_ensureWebhook :: "string \<Rightarrow> 'g \<Rightarrow> 'g"
  sc_fetchOrigin :: "string \<Rightarrow> 'g \<Rightarrow> unit res \<times> 'g"
  sc_listBranches :: "string \<Rightarrow> 'g \<Rightarrow> (string \<times> string) list"
  sc_branchTopCommit :: "string \<Rightarrow> string \<Rightarrow> 'g \<Rightarrow> string option"
  sc_commitsLookingBack :: "'g \<Rightarrow> string \<Rightarrow> string \<Rightarrow> nat \<Rightarrow> commit_info list"
  sc_deleteRemoteBranch :: "string \<Rightarrow> string \<Rightarrow> 'g \<Rightarrow> unit res \<times> 'g"

type_synonym ('a, 'm, 'g) action = "('a, 'm mgr \<times> 'g) git_call"

definition dbA :: "('a, 'm) db_call \<Rightarrow> ('a, 'm, 'g) action" where
  "dbA m = (\<lambda>(s, g). case m s of (r, t) \<Rightarrow> (r, (t, g)))"

definition gitA :: "('m mgr \<Rightarrow> ('a, 'g) git_call) \<Rightarrow> ('a, 'm, 'g) action" where
  "gitA m = (\<lambda>(s, g). case m s g of (r, h) \<Rightarrow> (r, (s, h)))"

definition readA :: "('m mgr \<Rightarrow> 'a) \<Rightarrow> ('a, 'm, 'g) action" where
  "readA f = dbA (readD f)"

definition modA :: "('m mgr \<Rightarrow> 'm mgr) \<Rightarrow> (unit, 'm, 'g) action" where
  "modA f = dbA (modD f)"

text \<open>What git answers now.\<close>

definition askA :: "('g \<Rightarrow> 'a) \<Rightarrow> ('a, 'm, 'g) action" where
  "askA f = (\<lambda>(s, g). (Inr (f g), (s, g)))"

section \<open>Repositories\<close>

definition refresh_repo_list :: "string list \<Rightarrow> 'm mgr \<Rightarrow> 'm mgr" where
  "refresh_repo_list all_repos s =
     (let active = lookup_all (repos s) (Repo_isActive True);
          s1 = fold (\<lambda>r s. if rp_name (get_repo s r) \<in> set all_repos then s
                          else upd_repo r (\<lambda>row. row\<lparr>rp_isActive := False\<rparr>) s) active s;
          existing = map (\<lambda>r. rp_name (get_repo s1 r)) active
      in fold (\<lambda>name s. case lookup_any (repos s) (Repo_name name) of
            Some r \<Rightarrow> upd_repo r (\<lambda>row. row\<lparr>rp_isActive := True\<rparr>) s
          | None \<Rightarrow> snd (createRepo name s))
         (filter (\<lambda>n. n \<notin> set existing) (remdups all_repos)) s1)"

definition refreshRepos :: "'g source_control \<Rightarrow> (unit, 'm, 'g) action" where
  "refreshRepos sc =
     bindG (askA (sc_listRepos sc)) (\<lambda>all_repos.
     modA (\<lambda>s. let s1 = refresh_repo_list all_repos s in
       fold (\<lambda>r. queueTask (RefreshBranches r) PendingVeryLow) (lookup_all (repos s1) (Repo_isActive True)) s1))"

section \<open>Heads of branches\<close>

definition setBranchHead :: "oid \<Rightarrow> oid option \<Rightarrow> 'm mgr \<Rightarrow> 'm mgr" where
  "setBranchHead branch newHead s =
     repoTouched (br_repo (get_branch s branch)) (upd_branch branch (\<lambda>b. b\<lparr>br_head := newHead\<rparr>) s)"

definition createLogMessage :: "oid option \<Rightarrow> string \<Rightarrow> int \<Rightarrow> 'm mgr \<Rightarrow> oid \<times> 'm mgr" where
  "createLogMessage priorLog text timestamp s =
     new_log \<lparr>lg_msg = text, lg_timestamp = timestamp, lg_prior = priorLog\<rparr> s"

definition log_to_repo :: "oid \<Rightarrow> string \<Rightarrow> int \<Rightarrow> 'm mgr \<Rightarrow> 'm mgr" where
  "log_to_repo repo text timestamp s =
     (case createLogMessage (rp_branchCreateLogs (get_repo s repo)) text timestamp s of
        (l, t) \<Rightarrow> upd_repo repo (\<lambda>r. r\<lparr>rp_branchCreateLogs := Some l\<rparr>) t)"

definition delete_tracking :: "'g source_control \<Rightarrow> string \<Rightarrow> int \<Rightarrow> oid \<Rightarrow> (unit, 'm, 'g) action" where
  "delete_tracking sc branchname curTimestamp trackingBranch =
     tryG (bindG (gitA (\<lambda>s. sc_deleteRemoteBranch sc (branch_reponame s trackingBranch)
              (br_branchname (get_branch s trackingBranch)))) (\<lambda>_.
       modA (\<lambda>s. log_to_repo (br_repo (get_branch s trackingBranch))
         (''Deleted branch '' @ br_branchname (get_branch s trackingBranch) @ '' because underlying branch '' @
          branchname @ '' was deleted'') curTimestamp s)))
       (\<lambda>e. retG ())"

definition branchDeleted :: "'g source_control \<Rightarrow> int \<Rightarrow> oid \<Rightarrow> (unit, 'm, 'g) action" where
  "branchDeleted sc curTimestamp branch =
     bindG (modA (\<lambda>s. case br_head (get_branch s branch) of
         None \<Rightarrow> s
       | Some h \<Rightarrow> triggerCommitPriorityUpdate h (setBranchHead branch None s))) (\<lambda>_.
     bindG (readA (\<lambda>s. br_branchname (get_branch s branch))) (\<lambda>name.
     bindG (readA (\<lambda>s. lookup_all (branches s) (Branch_autocreateTrackingBranchName name))) (\<lambda>tracking.
     eachG (delete_tracking sc name curTimestamp) tracking)))"

text \<open>The worklist of commits that are given the branch. Every round marks a commit or takes one off
  the list, so \<open>n\<close> only has to bound the number of commits.\<close>

fun mark_loop :: "nat \<Rightarrow> oid \<Rightarrow> oid list \<Rightarrow> 'm mgr \<Rightarrow> 'm mgr" where
  "mark_loop n branch [] s = s"
| "mark_loop n branch (commit # rest) s =
     (if cm_anyBranch (get_commit s commit) \<noteq> None then mark_loop n branch rest s
      else case n of
        0 \<Rightarrow> s
      | Suc m \<Rightarrow>
          let s1 = triggerCommitPriorityUpdate commit (upd_commit commit (\<lambda>c. c\<lparr>cm_anyBranch := Some branch\<rparr>) s)
          in mark_loop m branch (rest @ filter (\<lambda>p. p \<notin> set rest) (remdups (parents_of s1 commit))) s1)"

definition move_head :: "oid \<Rightarrow> string \<Rightarrow> (unit, 'm) db_call" where
  "move_head branch commit =
     bindG (readD (\<lambda>s. br_head (get_branch s branch))) (\<lambda>old_branch_head.
     bindG (newD (\<lambda>s. commit_by_hash (br_repo (get_branch s branch)) commit s)) (\<lambda>new_head.
     bindG (modD (setBranchHead branch (Some new_head))) (\<lambda>_.
     bindG (modD (\<lambda>s. case old_branch_head of None \<Rightarrow> s | Some h \<Rightarrow> triggerCommitPriorityUpdate h s)) (\<lambda>_.
     bindG (modD (triggerCommitPriorityUpdate new_head)) (\<lambda>_.
     bindG (recalculateBranchPins branch) (\<lambda>_.
     modD (\<lambda>s. fold (\<lambda>pin s. scheduleBranchPinNeedsUpdating (bp_branch (get_pin s pin)) s)
       (lookup_all (branch_pins s) (Pin_pinned_to (branch_reponame s branch) (br_branchname (get_branch s branch)))) s)))))))"

definition updateBranchTopCommit ::
    "'m world \<Rightarrow> reader \<Rightarrow> (string \<Rightarrow> string \<Rightarrow> nat \<Rightarrow> commit_info list) \<Rightarrow> string option \<Rightarrow> oid \<Rightarrow> (unit, 'm) db_call" where
  "updateBranchTopCommit w rd lookingBack topCommit branch =
     bindG (readD (\<lambda>s. case br_head (get_branch s branch) of
         None \<Rightarrow> None | Some h \<Rightarrow> Some (cm_hash (get_commit s h)))) (\<lambda>head_hash.
     bindG (case topCommit of
         Some c \<Rightarrow> if c \<noteq> '''' \<and> head_hash \<noteq> Some c then move_head branch c else retG ()
       | None \<Rightarrow> retG ()) (\<lambda>_.
     bindG (readD (\<lambda>s. br_head (get_branch s branch))) (\<lambda>head. case head of
       None \<Rightarrow> liftG (Inl null_error)
     | Some h \<Rightarrow>
         bindG (readD (\<lambda>s. cm_data (get_commit s h))) (\<lambda>data.
         bindG (if data = None then updateCommitData w rd lookingBack h else retG ()) (\<lambda>_.
         modD (\<lambda>s. mark_loop (next_id s) branch [h] s))))))"

section \<open>The branches of a repository\<close>

definition delete_branches :: "'g source_control \<Rightarrow> int \<Rightarrow> string list \<Rightarrow> oid list \<Rightarrow> (unit, 'm, 'g) action" where
  "delete_branches sc curTimestamp names =
     eachG (\<lambda>branch.
       bindG (readA (\<lambda>s. br_branchname (get_branch s branch))) (\<lambda>name.
       if name \<in> set names then retG ()
       else bindG (branchDeleted sc curTimestamp branch) (\<lambda>_. modA (del_branch branch))))"

definition create_branch :: "oid \<Rightarrow> string \<Rightarrow> 'm mgr \<Rightarrow> 'm mgr" where
  "create_branch repo newname s =
     (case new_branch (default_branch\<lparr>br_branchname := newname, br_repo := repo,
             br_reponame := rp_name (get_repo s repo)\<rparr>) s of
        (b, t) \<Rightarrow> queueTask (CheckBranchAutocreate b) PendingLow (repoTouched repo t))"

text \<open>A branch that is not found exactly once is logged and skipped.\<close>

definition schedule_dirty_head :: "string \<Rightarrow> string \<times> string \<Rightarrow> 'm mgr \<Rightarrow> 'm mgr" where
  "schedule_dirty_head reponame = (\<lambda>(branchname, branchHash) s.
     case lookup_one (branches s) (Branch_reponame_and_branchname reponame branchname) of
       Inl e \<Rightarrow> s
     | Inr b \<Rightarrow> (case br_head (get_branch s b) of
         None \<Rightarrow> scheduleUpdateBranchTopCommit b s
       | Some h \<Rightarrow> if cm_hash (get_commit s h) \<noteq> branchHash then scheduleUpdateBranchTopCommit b s else s))"

text \<open>The code would release the lock on the database around the work on the webhook and the fetch, but
  the lock it is given is always \<open>None\<close>.\<close>

definition refreshBranches :: "'g source_control \<Rightarrow> int \<Rightarrow> oid \<Rightarrow> (unit, 'm, 'g) action" where
  "refreshBranches sc curTimestamp db_repo =
     bindG (readA (\<lambda>s. rp_name (get_repo s db_repo))) (\<lambda>reponame.
     bindG (gitA (\<lambda>s g. (Inr (), sc_ensureWebhook sc reponame g))) (\<lambda>_.
     bindG (gitA (\<lambda>s. sc_fetchOrigin sc reponame)) (\<lambda>_.
     bindG (askA (sc_listBranches sc reponame)) (\<lambda>branchnamesAndHashes.
     bindG (readA (\<lambda>s. lookup_all (branches s) (Branch_repo db_repo))) (\<lambda>db_branches.
     bindG (readA (\<lambda>s. map (\<lambda>b. br_branchname (get_branch s b)) db_branches)) (\<lambda>db_names.
     bindG (delete_branches sc curTimestamp (map fst branchnamesAndHashes) db_branches) (\<lambda>_.
     modA (\<lambda>s. fold (schedule_dirty_head reponame) branchnamesAndHashes
       (fold (create_branch db_repo)
         (filter (\<lambda>n. n \<notin> set db_names) (map fst branchnamesAndHashes)) s)))))))))"

section \<open>Branches made from templates\<close>

primrec any_glob :: "string \<Rightarrow> string list \<Rightarrow> bool res" where
  "any_glob name [] = Inr False"
| "any_glob name (g # gs) = bindR (fnmatchcase name g) (\<lambda>b. if b then Inr True else any_glob name gs)"

definition branchMatchesTemplate :: "string \<Rightarrow> branch_template \<Rightarrow> bool res" where
  "branchMatchesTemplate name template =
     (if starts_with ''svn-'' name then Inr False
      else if bt_suffix template = '''' then Inr False
      else if ends_with (bt_suffix template) name then Inr False
      else bindR (any_glob name (bt_globsToExclude template)) (\<lambda>excluded.
        if excluded then Inr False else any_glob name (bt_globsToInclude template)))"

definition set_auto :: "bool \<Rightarrow> repo_reference \<Rightarrow> repo_reference" where
  "set_auto a ref = (case ref of Pin r b _ p \<Rightarrow> Pin r b a p | _ \<Rightarrow> ref)"

text \<open>\<open>_withReplacement\<close> also writes into the instance it is called on, which is the one that the data of the
  source branch's head holds: the automatic pins that are switched off for the new branch are off there
  too, and the replaced one is automatic.\<close>

definition replaced_in_source :: "branch_template \<Rightarrow> repo_dict \<Rightarrow> repo_dict" where
  "replaced_in_source template defs =
     map (\<lambda>(name, ref). (name,
       if name = bt_def_to_replace template then set_auto True ref
       else if bt_disableOtherAutos template then set_auto False ref
       else ref)) defs"

definition new_repo_defs :: "branch_template \<Rightarrow> string \<Rightarrow> string \<Rightarrow> repo_dict \<Rightarrow> repo_dict" where
  "new_repo_defs template reponame branchname defs =
     map (\<lambda>(name, ref). (name,
       if name = bt_def_to_replace template then Pin (reponame @ ''/HEAD'') branchname True True
       else if bt_disableOtherAutos template then set_auto False ref
       else ref)) (filter (\<lambda>(name, ref). is_Pin ref) defs)"

text \<open>Why no branch can be made, or the head of the source branch and its references.\<close>

definition template_source ::
    "'m mgr \<Rightarrow> oid \<Rightarrow> branch_template \<Rightarrow> (string + oid \<times> oid \<times> repo_dict) res" where
  "template_source s branch template =
     (let reponame = branch_reponame s branch; new_name = br_branchname (get_branch s branch) @ bt_suffix template in
      case lookup_any (branches s) (Branch_reponame_and_branchname reponame (bt_branchToCopyFrom template)) of
        None \<Rightarrow> Inr (Inl (''Source branch '' @ [CHR 0x27] @ bt_branchToCopyFrom template @ [CHR 0x27] @ '' doesn'' @
          [CHR 0x27] @ ''t exist''))
      | Some source_branch \<Rightarrow>
          if bt_suffix template = '''' then Inr (Inl ''Template branchname suffix is empty'')
          else if lookup_any (branches s) (Branch_reponame_and_branchname reponame new_name) \<noteq> None then
            Inr (Inl (''Newly created branch '' @ new_name @ '' already exists.''))
          else case br_head (get_branch s source_branch) of
            None \<Rightarrow> Inl null_error
          | Some head \<Rightarrow> (case commit_data s head of
              None \<Rightarrow> Inr (Inl (''Source branch didn'' @ [CHR 0x27] @ ''t have a valid commit on its HEAD''))
            | Some d \<Rightarrow> (case map_of (cd_repos d) (bt_def_to_replace template) of
                None \<Rightarrow> Inr (Inl (''Couldn'' @ [CHR 0x27] @ ''t find repodef '' @ bt_def_to_replace template @
                  '' amongst:'' @ [newline] @
                  py_join [newline] (map (\<lambda>x. ''  '' @ x) (sort (map fst (cd_repos d))))))
              | Some ref \<Rightarrow>
                  if \<not> is_Pin ref then Inr (Inl ''Targeted reporef is not updatable.'')
                  else Inr (Inr (source_branch, head, cd_repos d)))))"

definition new_tracking_branch :: "oid \<Rightarrow> branch_template \<Rightarrow> 'm mgr \<Rightarrow> 'm mgr" where
  "new_tracking_branch branch template s =
     (let b = get_branch s branch; repo = br_repo b in
      case new_branch (default_branch\<lparr>br_branchname := br_branchname b @ bt_suffix template, br_repo := repo,
             br_reponame := rp_name (get_repo s repo),
             br_isUnderTest := bt_autoprioritizeBranch template,
             br_autocreateTrackingBranchName :=
               (if bt_deleteOnUnderlyingRemoval template then br_branchname b else '''')\<rparr>) s of
        (nb, t) \<Rightarrow> scheduleUpdateBranchTopCommit nb (repoTouched repo t))"

text \<open>Returns what is logged.\<close>

definition createNewBranchFromTemplate ::
    "'g source_control \<Rightarrow> oid \<Rightarrow> branch_template \<Rightarrow> (string, 'm, 'g) action" where
  "createNewBranchFromTemplate sc branch template =
     bindG (readA (\<lambda>s. template_source s branch template)) (\<lambda>r.
     bindG (liftG r) (\<lambda>src. case src of
       Inl message \<Rightarrow> retG message
     | Inr (source_branch, head, defs) \<Rightarrow>
         bindG (readA (\<lambda>s. (branch_reponame s branch, br_branchname (get_branch s branch),
           br_branchname (get_branch s source_branch)))) (\<lambda>(reponame, branchname, source_name).
         bindG (modA (upd_data head (\<lambda>d. d\<lparr>cd_repos := replaced_in_source template (cd_repos d)\<rparr>))) (\<lambda>_.
         bindG (tryG (bindG (gitA (\<lambda>s. updatePinsByDefInCommitAndReturnHash (sc_pins sc) s source_branch
                    (replaced_in_source template defs) (new_repo_defs template reponame branchname defs)
                    (''Pointing branch '' @ source_name @ '' at '' @ branchname @ '' for testing.'')))
                  (\<lambda>h. retG (Inr h)))
                (\<lambda>e. bindG (askA (\<lambda>g. rd_traceback (sc_reader sc g) e)) (\<lambda>tb.
                  retG (Inl (''Failed to update yaml file:'' @ [newline] @ tb))))) (\<lambda>hash. case hash of
           Inl message \<Rightarrow> retG message
         | Inr newHash \<Rightarrow>
             bindG (gitA (\<lambda>s g. case pg_pushCommit (sc_pins sc) reponame newHash (branchname @ bt_suffix template) True g of
               (pushed, h) \<Rightarrow> (Inr pushed, h))) (\<lambda>pushed.
             if \<not> pushed then retG ''Failed to push new commit to source control''
             else bindG (modA (new_tracking_branch branch template)) (\<lambda>_.
               retG (''Successfully pushed '' @ newHash @ '' to new branch '' @ branchname @ bt_suffix template))))))))"

primrec first_template :: "string \<Rightarrow> branch_template list \<Rightarrow> branch_template option res" where
  "first_template name [] = Inr None"
| "first_template name (t # ts) =
     bindR (branchMatchesTemplate name t) (\<lambda>b. if b then Inr (Some t) else first_template name ts)"

definition checkBranchAutocreate :: "'g source_control \<Rightarrow> oid \<Rightarrow> int \<Rightarrow> (unit, 'm, 'g) action" where
  "checkBranchAutocreate sc branch timestamp =
     bindG (readA (\<lambda>s. (get_branch s branch, get_repo s (br_repo (get_branch s branch))))) (\<lambda>(b, repo).
     if br_autocreateTrackingBranchName b \<noteq> '''' then retG ()
     else bindG (liftG (first_template (br_branchname b) (rp_branchCreateTemplates repo))) (\<lambda>found. case found of
       Some template \<Rightarrow>
         bindG (tryG (createNewBranchFromTemplate sc branch template)
           (\<lambda>e. askA (\<lambda>g. ''Error creating branch from template:'' @ [newline] @ rd_traceback (sc_reader sc g) e)))
           (\<lambda>logMessage. modA (log_to_repo (br_repo b) logMessage timestamp))
     | None \<Rightarrow>
         if rp_branchCreateTemplates repo = [] then retG ()
         else modA (log_to_repo (br_repo b) (''New branch '' @ br_branchname b @ '' didn'' @ [CHR 0x27] @
           ''t match any templates.'') timestamp)))"

section \<open>Pins\<close>

text \<open>The branches that got a commit have moved, whether or not everything could be pushed.\<close>

definition run_pin_update ::
    "'g source_control \<Rightarrow> nat \<Rightarrow> oid \<Rightarrow> string option \<Rightarrow> bool \<Rightarrow> bool \<Rightarrow> (unit, 'm, 'g) action" where
  "run_pin_update sc depth branch refname intermediateCommits lookDownstream =
     bindG (gitA (\<lambda>s. updateBranchPin (sc_pins sc) depth s branch refname intermediateCommits lookDownstream))
       (\<lambda>(ok, branches_updated). modA (fold scheduleUpdateBranchTopCommit (remdups branches_updated)))"

definition manager_updateBranchPin ::
    "'g source_control \<Rightarrow> nat \<Rightarrow> oid \<Rightarrow> string \<Rightarrow> bool \<Rightarrow> (unit, 'm, 'g) action" where
  "manager_updateBranchPin sc depth branch refname produceIntermediateCommits =
     run_pin_update sc depth branch (Some refname) produceIntermediateCommits False"

definition updateBranchPins :: "'g source_control \<Rightarrow> nat \<Rightarrow> oid \<Rightarrow> (unit, 'm, 'g) action" where
  "updateBranchPins sc depth branch =
     bindG (readA (\<lambda>s. case br_head (get_branch s branch) of
         None \<Rightarrow> False | Some h \<Rightarrow> commit_data s h \<noteq> None)) (\<lambda>has_data.
     if has_data then run_pin_update sc depth branch None True True else retG ())"

section \<open>Background tasks\<close>

definition refresh_branch_head :: "'m world \<Rightarrow> 'g source_control \<Rightarrow> oid \<Rightarrow> (unit, 'm, 'g) action" where
  "refresh_branch_head w sc branch =
     bindG (readA (\<lambda>s. (branch_reponame s branch, br_branchname (get_branch s branch)))) (\<lambda>(reponame, branchname).
     bindG (askA (\<lambda>g. (sc_reader sc g, sc_commitsLookingBack sc g, sc_branchTopCommit sc reponame branchname g)))
       (\<lambda>(rd, lookingBack, topCommit).
     dbA (updateBranchTopCommit w rd lookingBack topCommit branch)))"

definition processTask ::
    "'m world \<Rightarrow> 'g source_control \<Rightarrow> nat \<Rightarrow> background_task \<Rightarrow> int \<Rightarrow> (unit, 'm, 'g) action" where
  "processTask w sc depth task curTimestamp = (case task of
     RefreshRepos \<Rightarrow> refreshRepos sc
   | RefreshBranches repo \<Rightarrow> refreshBranches sc curTimestamp repo
   | UpdateBranchPins branch \<Rightarrow> updateBranchPins sc depth branch
   | UpdateBranchTopCommit branch \<Rightarrow> refresh_branch_head w sc branch
   | CommitTestParse commit \<Rightarrow> bindG (askA (sc_reader sc)) (\<lambda>rd. dbA (parseCommitTests w rd commit))
   | UpdateCommitData commit \<Rightarrow>
       bindG (askA (\<lambda>g. (sc_reader sc g, sc_commitsLookingBack sc g))) (\<lambda>(rd, lookingBack).
       dbA (updateCommitData w rd lookingBack commit))
   | UpdateTestPriority test \<Rightarrow>
       dbA (rollD (\<lambda>s. bindR (updateTestPriority w depth test curTimestamp s) (\<lambda>t. Inr ((), t))))
   | BootMachineCheck \<Rightarrow>
       dbA (rollD (\<lambda>s. bindR (bootMachinesIfNecessary w depth depth curTimestamp s) (\<lambda>t. Inr ((), t))))
   | CheckBranchAutocreate branch \<Rightarrow> checkBranchAutocreate sc branch curTimestamp
   | UpdateCommitPriority commit \<Rightarrow> modA (updateCommitPriority commit))"

text \<open>\<open>performBackgroundWork\<close> with this processor: a raising task is rolled back in the database, but not
  in the git repositories, and removed all the same.\<close>

definition background_work ::
    "'m world \<Rightarrow> 'g source_control \<Rightarrow> nat \<Rightarrow> int \<Rightarrow> 'm mgr \<times> 'g \<Rightarrow> background_task option \<times> 'm mgr \<times> 'g" where
  "background_work w sc depth curTimestamp = (\<lambda>(s, g). case nextTask s of
     None \<Rightarrow> (None, s, g)
   | Some t \<Rightarrow>
       let task = dt_task (get_task s t); s1 = startTask t s
       in case processTask w sc depth task curTimestamp (s1, g) of
            (Inl e, (s2, h)) \<Rightarrow> (Some task, finishTask t s1, h)
          | (Inr _, (s2, h)) \<Rightarrow> (Some task, finishTask t s2, h))"

end
