(* ===== verification/Call_Relations.thy ===== *)
theory Call_Relations
  imports Branch_Updates
begin

text \<open>
  What the operations of the test manager do to its state, as relations between the state before and
  after. A locale names the relations that contain every write outside of the commit tables and every
  queued task; in it each operation on machines and priorities, and then every background task, is
  shown to be in such a relation, whatever way the call ends. The interpretations are in
  \<open>Intake_Invariants\<close>.
\<close>

section \<open>Calls\<close>

definition keepsR :: "('s \<Rightarrow> 's \<Rightarrow> bool) \<Rightarrow> ('a, 's) git_call \<Rightarrow> bool" where
  "keepsR R m \<longleftrightarrow> (\<forall>s. R s (snd (m s)))"

locale call_relation =
  fixes R :: "'s \<Rightarrow> 's \<Rightarrow> bool"
  assumes same [simp]: "R s s"
    and trans: "R s t \<Longrightarrow> R t u \<Longrightarrow> R s u"
begin

lemma call_ret [intro]: "keepsR R (retG v)"
  by (simp add: keepsR_def retG_def)

lemma call_lift [intro]: "keepsR R (liftG r)"
  by (simp add: keepsR_def liftG_def)

lemma call_read [intro]: "keepsR R (readD f)"
  by (simp add: keepsR_def readD_def)

lemma call_mod: "(\<And>s. R s (f s)) \<Longrightarrow> keepsR R (modD f)"
  by (simp add: keepsR_def modD_def)

lemma call_new: "(\<And>s. R s (snd (f s))) \<Longrightarrow> keepsR R (newD f)"
  by (simp add: keepsR_def newD_def case_prod_beta)

lemma call_roll: "(\<And>s v t. f s = Inr (v, t) \<Longrightarrow> R s t) \<Longrightarrow> keepsR R (rollD f)"
  by (auto simp: keepsR_def rollD_def split: sum.split)

lemma call_bind [intro]: "keepsR R m \<Longrightarrow> (\<And>v. keepsR R (f v)) \<Longrightarrow> keepsR R (bindG m f)"
  unfolding keepsR_def bindG_def case_prod_beta by (auto split: sum.split intro: trans)

lemma call_try [intro]: "keepsR R m \<Longrightarrow> (\<And>e. keepsR R (h e)) \<Longrightarrow> keepsR R (tryG m h)"
  unfolding keepsR_def tryG_def case_prod_beta by (auto split: sum.split intro: trans)

lemma call_foldG: "(\<And>x b. keepsR R (f x b)) \<Longrightarrow> keepsR R (foldG f xs b)"
  by (induction xs arbitrary: b) auto

lemma call_each [intro]: "(\<And>x. keepsR R (f x)) \<Longrightarrow> keepsR R (eachG f xs)"
  unfolding eachG_def by (rule call_foldG)

lemma in_fold: "(\<And>x s. R s (f x s)) \<Longrightarrow> R s (fold f xs s)"
  by (induction xs arbitrary: s) (auto intro: trans)

lemma in_foldR: "(\<And>x s t. f x s = Inr t \<Longrightarrow> R s t) \<Longrightarrow> foldR f xs s = Inr s' \<Longrightarrow> R s s'"
proof (induction xs arbitrary: s)
  case (Cons x xs)
  then obtain v where "f x s = Inr v" "foldR f xs v = Inr s'" by (auto simp: bindR_Inr_conv)
  with Cons show ?case using trans by blast
qed simp

end

section \<open>Writes outside of the commit tables\<close>

definition commit_tables where
  "commit_tables s = (repos s, commits s, commit_datas s, relationships s, unresolved_sources s, unresolved_repos s)"

definition harmless :: "'m mgr \<Rightarrow> 'm mgr \<Rightarrow> bool" where
  "harmless s s' \<longleftrightarrow> commit_tables s' = commit_tables s \<and> tasks s' = tasks s \<and> next_id s \<le> next_id s' \<and>
     (db_ok s \<longrightarrow> db_ok s')"

named_theorems harmless_writes

lemma harmless_upd [harmless_writes]:
  "harmless s (upd_test i f1 s)" "harmless s (upd_run i f2 s)" "harmless s (upd_machine i f3 s)"
  "harmless s (upd_category i f4 s)" "harmless s (upd_deployment i f5 s)" "harmless s (upd_branch i f6 s)"
  unfolding harmless_def by (intro conjI impI db_ok_upd; simp add: commit_tables_def upd_defs)+

lemma harmless_new [harmless_writes]:
  "harmless s (snd (new_category r1 s))" "harmless s (snd (new_machine r2 s))" "harmless s (snd (new_test r3 s))"
  "harmless s (snd (new_commit_test r4 s))" "harmless s (snd (new_test_dep r5 s))"
  "harmless s (snd (new_unresolved_test r6 s))" "harmless s (snd (new_pin r7 s))"
  "harmless s (snd (new_branch r8 s))" "harmless s (snd (new_log r9 s))"
  unfolding harmless_def by (intro conjI impI db_ok_new; simp add: commit_tables_def new_defs)+

lemma harmless_del [harmless_writes]:
  "harmless s (del_unresolved_test i s)" "harmless s (del_pin i s)" "harmless s (del_branch i s)"
  unfolding harmless_def by (intro conjI impI db_ok_del; simp add: commit_tables_def del_defs)+

lemma harmless_fields [harmless_writes]:
  "harmless s (s\<lparr>machine_management := m\<rparr>)" "harmless s (s\<lparr>lastAmiCheckTimestamp := t\<rparr>)"
  "harmless s (s\<lparr>lastAmiCheckTimestamp := t, machine_management := m\<rparr>)"
  "harmless s (addDeploymentMessage d msg s)" "harmless s (repoTouched r s)"
  by (simp_all add: harmless_def commit_tables_def db_ok_def addDeploymentMessage_def repoTouched_def)

lemma harmless_category [harmless_writes]:
  "harmless s (snd (machineCategoryForPair p s))"
  unfolding machineCategoryForPair_def by (auto split: option.split intro: harmless_new) (simp add: harmless_def)

locale machine_relation = call_relation R for R :: "'m mgr \<Rightarrow> 'm mgr \<Rightarrow> bool" +
  assumes outside: "harmless s s' \<Longrightarrow> R s s'"
    and queue: "st \<noteq> Running \<Longrightarrow> R s (queueTask task st s)"
begin

lemmas writes = harmless_writes [THEN outside]

lemma triggers [simp]:
  "R s (triggerTestPriorityUpdate t s)" "R s (triggerCommitPriorityUpdate c s)" "R s (triggerCommitTestParse c s)"
  "R s (triggerCommitDataUpdate c s)" "R s (scheduleBootCheck s)" "R s (scheduleUpdateBranchTopCommit b s)"
  "R s (scheduleBranchPinNeedsUpdating b s)"
  by (simp_all add: triggerTestPriorityUpdate_def triggerCommitPriorityUpdate_def triggerCommitTestParse_def
      triggerCommitDataUpdate_def scheduleBootCheck_def scheduleUpdateBranchTopCommit_def
      scheduleBranchPinNeedsUpdating_def queue)

lemma category_for_test: "machineCategoryForTest w t s = Inr (c, s') \<Longrightarrow> R s s'"
  using harmless_category [THEN outside] by (auto simp: machineCategoryForTest_def bindR_Inr_conv) (metis snd_conv)

definition good :: "'m terminator \<Rightarrow> bool" where
  "good mt \<longleftrightarrow> (\<forall>id ts s s'. mt id ts s = Inr s' \<longrightarrow> R s s')"

lemma terminate_in: "good mt \<Longrightarrow> terminateMachine_with w mt m ts s = Inr s' \<Longrightarrow> R s s'"
  unfolding terminateMachine_with_def good_def Let_def
  by (rule trans [OF outside [OF harmless_fields(1)]]) blast

lemma cancel_in:
  assumes "good mt" "cancelTestRun_with w mt ts i s = Inr s'"
  shows "R s s'"
proof -
  let ?r = "get_run s i"
  define s2 where "s2 = upd_test (run_test ?r) (\<lambda>t. t\<lparr>ts_activeRuns := ts_activeRuns t - 1\<rparr>)
    (upd_run i (\<lambda>r. r\<lparr>run_canceled := True\<rparr>) s)"
  have 2: "R s s2"
    unfolding s2_def by (rule trans [OF outside outside]) (rule harmless_writes)+
  show ?thesis
  proof (cases "run_endTimestamp ?r = 0 \<and> \<not> run_canceled ?r")
    case True
    then obtain s3 where s3: "(case run_machine ?r of None \<Rightarrow> Inr s2
          | Some m \<Rightarrow> if is_vm (ma_os (get_machine s2 m)) then terminateMachine_with w mt m ts s2 else Inr s2) = Inr s3"
        "s' = triggerTestPriorityUpdate (run_test ?r) s3"
      using assms(2) unfolding cancelTestRun_with_def Let_def s2_def [symmetric] by (auto elim: bindR_InrE)
    have "R s2 s3" using s3(1) terminate_in [OF assms(1)] by (auto split: option.splits if_splits)
    with 2 s3(2) show ?thesis using trans triggers(1) by blast
  qed (use assms(2) in \<open>auto simp: cancelTestRun_with_def Let_def split: if_splits\<close>)
qed

lemma shutdown_first_in:
  "good mt \<Longrightarrow> shutdown_first w mt ts onlyIdle ms s = Inr (b, s') \<Longrightarrow> R s s'"
  by (induction ms) (auto simp: bindR_Inr_conv split: if_splits intro: terminate_in)

lemma shutdown_in: "good mt \<Longrightarrow> shutdown_with w mt c ts onlyIdle s = Inr (b, s') \<Longrightarrow> R s s'"
  by (auto simp: shutdown_with_def Let_def intro: shutdown_first_in)

lemma shutdown_check_in:
  assumes "good mt" "shutdown_check_with w mt ts s = Inr (b, s')"
  shows "R s s'"
proof -
  have "R (snd st) (snd st')" if "foldR (\<lambda>cat (shutDownAny, s).
        if mc_desired (get_category s cat) < mc_booted (get_category s cat)
        then bindR (shutdown_with w mt cat ts True s) (\<lambda>(b, s'). Inr (shutDownAny \<or> b, s'))
        else Inr (shutDownAny, s)) cs st = Inr st'" for cs st st'
    using that
  proof (induction cs arbitrary: st)
    case (Cons c cs)
    obtain a t where st: "st = (a, t)" by fastforce
    show ?case
    proof (cases "mc_desired (get_category t c) < mc_booted (get_category t c)")
      case True
      with Cons.prems st obtain r where r: "shutdown_with w mt c ts True t = Inr r"
        and rest: "foldR (\<lambda>cat (shutDownAny, s).
        if mc_desired (get_category s cat) < mc_booted (get_category s cat)
        then bindR (shutdown_with w mt cat ts True s) (\<lambda>(b, s'). Inr (shutDownAny \<or> b, s'))
        else Inr (shutDownAny, s)) cs (a \<or> fst r, snd r) = Inr st'"
        by (auto simp: bindR_Inr_conv)
      have "R t (snd r)" using r shutdown_in [OF assms(1)] by (cases r) auto
      with Cons.IH [OF rest] st show ?thesis by (auto intro: trans)
    qed (use Cons st in auto)
  qed simp
  from this [OF assms(2) [unfolded shutdown_check_with_def]] show ?thesis by simp
qed

lemma shutdown_loop_in:
  assumes "good mt"
  shows "shutdownMachinesIfNecessary_with w mt n ts s = Inr s' \<Longrightarrow> R s s'"
proof (induction n arbitrary: s)
  case (Suc n)
  then obtain b s1 where "shutdown_check_with w mt ts s = Inr (b, s1)"
    "(if b then shutdownMachinesIfNecessary_with w mt n ts s1 else Inr s1) = Inr s'"
    by (auto simp: bindR_Inr_conv)
  moreover from this have "R s s1" using shutdown_check_in [OF assms] by blast
  ultimately show ?case using Suc.IH trans by (cases b) auto
qed simp

lemma cancelDeployment_in:
  assumes "good mt" "cancelDeployment_with w mt n ts d s = Inr s'"
  shows "R s s'"
proof (cases "de_isAlive (get_deployment s d)")
  case True
  with assms(2) obtain c where c: "machineCategoryForTest w (de_test (get_deployment s d)) s = Inr c"
    and rest: "(case c of (cat, s1) \<Rightarrow>
      let s4 = upd_deployment d (\<lambda>d. d\<lparr>de_isAlive := False\<rparr>)
        (addDeploymentMessage d (SessionTerminated ts) (upd_category cat (\<lambda>c. c\<lparr>mc_desired := mc_desired c - 1\<rparr>) s1))
      in bindR (case de_machine (get_deployment s d) of None \<Rightarrow> Inr s4
                | Some m \<Rightarrow> let s5 = upd_machine m (\<lambda>r. r\<lparr>ma_lastTestCompleted := ts\<rparr>) s4
                  in if is_vm (ma_os (get_machine s5 m)) then terminateMachine_with w mt m ts s5 else Inr s5)
           (\<lambda>s6. shutdownMachinesIfNecessary_with w mt n ts (scheduleBootCheck s6))) = Inr s'"
    unfolding cancelDeployment_with_def Let_def by (auto elim: bindR_InrE)
  obtain cat s1 where cs: "c = (cat, s1)" by fastforce
  define s4 where "s4 = upd_deployment d (\<lambda>d. d\<lparr>de_isAlive := False\<rparr>)
    (addDeploymentMessage d (SessionTerminated ts) (upd_category cat (\<lambda>c. c\<lparr>mc_desired := mc_desired c - 1\<rparr>) s1))"
  have "R s s1" using c category_for_test unfolding cs by blast
  moreover have "R s1 s4"
    unfolding s4_def by (rule trans [OF outside trans [OF outside outside]]) (rule harmless_writes)+
  moreover obtain s6 where s6: "(case de_machine (get_deployment s d) of None \<Rightarrow> Inr s4
      | Some m \<Rightarrow> let s5 = upd_machine m (\<lambda>r. r\<lparr>ma_lastTestCompleted := ts\<rparr>) s4
          in if is_vm (ma_os (get_machine s5 m)) then terminateMachine_with w mt m ts s5 else Inr s5) = Inr s6"
    and last: "shutdownMachinesIfNecessary_with w mt n ts (scheduleBootCheck s6) = Inr s'"
    using rest unfolding cs prod.case s4_def [symmetric] Let_def [of s4] by (rule bindR_InrE)
  have "R s4 s6"
  proof (cases "de_machine (get_deployment s d)")
    case (Some m)
    have "R s4 (upd_machine m (\<lambda>r. r\<lparr>ma_lastTestCompleted := ts\<rparr>) s4)" by (rule outside) (rule harmless_writes)
    then show ?thesis
      using s6 Some terminate_in [OF assms(1)] trans by (auto simp: Let_def split: if_splits)
  qed (use s6 in simp)
  moreover have "R s6 s'" using shutdown_loop_in [OF assms(1) last] trans triggers(5) by blast
  ultimately show ?thesis using trans by blast
qed (use assms(2) in \<open>simp add: cancelDeployment_with_def Let_def\<close>)

lemma good_machineTerminated: "good (machineTerminated w depth)"
proof (induction depth)
  case (Suc depth)
  have "R s s'" if run: "machineTerminated w (Suc depth) id ts s = Inr s'" for id ts s s'
  proof -
    from run obtain machine where m: "lookup_one (machines s) (Machine_machineId id) = Inr machine"
      by (auto simp: bindR_Inr_conv)
    define r where "r = get_machine s machine"
    show ?thesis
    proof (cases "ma_isAlive r")
      case True
      define s1 where "s1 = upd_machine machine (\<lambda>m. m\<lparr>ma_isAlive := False\<rparr>) s"
      obtain mc s2 where s2: "machineCategoryForPair (ma_hardware r, ma_os r) s1 = (mc, s2)" by fastforce
      define s3 where "s3 = upd_category mc (\<lambda>c. c\<lparr>mc_booted := mc_booted c - 1\<rparr>) s2"
      have "(if mc_booted (get_category s3 mc) < 0 then Inl AssertionError
        else bindR (foldR (cancelTestRun_with w (machineTerminated w depth) ts)
                  (lookup_all (runs s3) (Run_runningOnMachine (Some machine))) s3) (\<lambda>s4.
         bindR (foldR (cancelDeployment_with w (machineTerminated w depth) (Suc depth) ts)
                  (lookup_all (deployments s4) (Deployment_runningOnMachine (Some machine))) s4) (\<lambda>s5.
           Inr (scheduleBootCheck s5)))) = Inr s'"
        using run True unfolding machineTerminated.simps m bindR.simps Let_def r_def [symmetric] s1_def [symmetric] s2
          prod.case s3_def [symmetric] by simp
      then obtain s4 s5 where 4: "foldR (cancelTestRun_with w (machineTerminated w depth) ts)
          (lookup_all (runs s3) (Run_runningOnMachine (Some machine))) s3 = Inr s4"
        and 5: "foldR (cancelDeployment_with w (machineTerminated w depth) (Suc depth) ts)
          (lookup_all (deployments s4) (Deployment_runningOnMachine (Some machine))) s4 = Inr s5"
        and 6: "s' = scheduleBootCheck s5"
        by (auto simp: bindR_Inr_conv split: if_splits)
      have "R s s1" unfolding s1_def by (rule outside) (rule harmless_writes)
      moreover have "R s1 s2" using outside [OF harmless_category] s2 by (metis snd_conv)
      moreover have "R s2 s3" unfolding s3_def by (rule outside) (rule harmless_writes)
      moreover have "R s3 s4" by (rule in_foldR [OF cancel_in [OF Suc.IH] 4])
      moreover have "R s4 s5" by (rule in_foldR [OF cancelDeployment_in [OF Suc.IH] 5])
      ultimately show ?thesis unfolding 6 using trans triggers(5) by meson
    qed (use run m in \<open>simp add: r_def Let_def\<close>)
  qed
  then show ?case by (simp only: good_def) blast
qed (simp add: good_def)

lemma raise_in: "R s (snd (raise_to_dependents test s))"
proof -
  have "R s (snd (fold (\<lambda>dep (anyTestsReferencingUs, s).
        let p = ts_calculatedPriority (get_test s (td_test (get_test_dep s dep)))
        in (anyTestsReferencingUs \<or> p \<noteq> 0,
            upd_test test (\<lambda>t. t\<lparr>ts_calculatedPriority := max p (ts_calculatedPriority t)\<rparr>) s)) xs (b, s)))" for xs b s
  proof (induction xs arbitrary: b s)
    case (Cons x xs)
    let ?p = "ts_calculatedPriority (get_test s (td_test (get_test_dep s x)))"
    have "R s (upd_test test (\<lambda>t. t\<lparr>ts_calculatedPriority := max ?p (ts_calculatedPriority t)\<rparr>) s)"
      by (rule outside) (rule harmless_writes)
    from trans [OF this Cons.IH] show ?case by (simp add: Let_def)
  qed simp
  then show ?thesis by (simp add: raise_to_dependents_def)
qed

lemma neighbours_in: "R s (trigger_neighbours test s)"
  unfolding trigger_neighbours_def by (rule trans [OF in_fold in_fold]) simp_all

lemma store_class_in: "R s (store_class test category any now oldPriority oldCalcPri oldTarget s)"
proof -
  define s4 where "s4 = upd_test test (\<lambda>t. t\<lparr>ts_machineCategory := Some category\<rparr>) s"
  define s5 where "s5 = upd_test test (\<lambda>t. classify s4 test (mc_hardwareComboUnbootable (get_category s4 category)) any now t) s4"
  define net where "net = ts_targetMachineBoot (get_test s5 test) - oldTarget"
  define s6 where "s6 = (if net \<noteq> 0
    then scheduleBootCheck (upd_category category (\<lambda>c. c\<lparr>mc_desired := mc_desired c + net\<rparr>) s5) else s5)"
  have "R s s5" unfolding s4_def s5_def by (rule trans [OF outside outside]) (rule harmless_writes)+
  moreover have "R s5 (upd_category category (\<lambda>c. c\<lparr>mc_desired := mc_desired c + net\<rparr>) s5)"
    by (rule outside) (rule harmless_writes)
  then have "R s5 s6" unfolding s6_def using trans triggers(5) by auto
  moreover have "R s6 (store_class test category any now oldPriority oldCalcPri oldTarget s)"
    unfolding store_class_def Let_def s4_def [symmetric] s5_def [symmetric] net_def [symmetric] s6_def [symmetric]
    by (simp add: neighbours_in)
  ultimately show ?thesis using trans by blast
qed

lemma updateTestPriority_in:
  assumes "updateTestPriority w depth test now s = Inr s'"
  shows "R s s'"
proof -
  obtain p where p: "commit_priority s test = Inr p"
    using assms unfolding updateTestPriority_steps by (rule bindR_InrE)
  define u0 where "u0 = upd_test test (\<lambda>t. t\<lparr>ts_calculatedPriority := p\<rparr>) s"
  obtain any s1 where s1: "raise_to_dependents test u0 = (any, s1)" by fastforce
  note run = assms [unfolded updateTestPriority_steps p bindR.simps u0_def [symmetric] s1 prod.case]
  obtain s2 where s2: "(if ts_calculatedPriority (get_test s1 test) = 0 then cancel_runs w depth test now s1
      else Inr s1) = Inr s2"
    and rest: "bindR (machineCategoryForTest w test s2) (\<lambda>(category, s3). Inr (store_class test category any now
      (ts_priority (get_test s2 test)) (ts_calculatedPriority (get_test s test)) (ts_targetMachineBoot (get_test s2 test)) s3)) = Inr s'"
    using run by (rule bindR_InrE) (rule that)
  obtain category s3 where c: "machineCategoryForTest w test s2 = Inr (category, s3)"
    "s' = store_class test category any now (ts_priority (get_test s2 test)) (ts_calculatedPriority (get_test s test))
       (ts_targetMachineBoot (get_test s2 test)) s3"
    using rest by (auto simp: bindR_Inr_conv)
  have "R s u0" unfolding u0_def by (rule outside) (rule harmless_writes)
  moreover have "R u0 s1" using raise_in [of u0 test] by (simp add: s1)
  moreover have "R s1 s2"
  proof (cases "ts_calculatedPriority (get_test s1 test) = 0")
    case True
    with s2 have "cancel_runs w depth test now s1 = Inr s2" by simp
    then show ?thesis unfolding cancel_runs_def
      by (rule in_foldR [rotated]) (auto simp: cancelTestRun_def split: if_splits intro: cancel_in [OF good_machineTerminated])
  qed (use s2 in simp)
  moreover have "R s2 s3" using c(1) by (rule category_for_test)
  moreover have "R s3 s'" unfolding c(2) by (rule store_class_in)
  ultimately show ?thesis using trans by meson
qed

lemma canBoot_in: "canBoot_any w cs s = Inr (c, s') \<Longrightarrow> R s s'"
proof (induction cs arbitrary: s)
  case (Cons cat cs)
  have mm: "R s (s\<lparr>machine_management := m\<rparr>)" for m by (rule outside) (rule harmless_writes)
  have upd: "R s (upd_category cat f s)" for f by (rule outside) (rule harmless_writes)
  have rest: "R s s'" if "canBoot_any w cs t = Inr (c, s')" "R s t" for t
    using Cons.IH [OF that(1)] that(2) trans by blast
  show ?case
    using Cons.prems by (auto simp: Let_def bindR_Inr_conv split: if_splits intro: rest [OF _ mm] rest [OF _ upd] rest [OF _ same])
qed simp

lemma shutdown_any_in: "shutdown_any w depth now cs s = Inr (b, s') \<Longrightarrow> R s s'"
proof (induction cs arbitrary: s)
  case (Cons c cs)
  then obtain b1 s1 where "shutdown w depth c now False s = Inr (b1, s1)"
    and rest: "(if b1 then Inr (True, s1) else shutdown_any w depth now cs s1) = Inr (b, s')"
    by (auto simp: bindR_Inr_conv)
  then have "R s s1" using shutdown_in [OF good_machineTerminated] by (auto simp: shutdown_def)
  moreover have "R s1 s'" using rest Cons.IH by (cases b1) auto
  ultimately show ?case by (rule trans)
qed simp

lemma make_room_in: "make_room w depth n now wb ws s = Inr s' \<Longrightarrow> R s s'"
proof (induction n arbitrary: s)
  case (Suc n)
  show ?case
  proof (cases "wb = []")
    case False
    with Suc.prems obtain c s1 where c: "canBoot_any w wb s = Inr (c, s1)"
      and rest: "(if c \<noteq> None \<or> ws = [] then Inr s1
        else bindR (shutdown_any w depth now ws s1) (\<lambda>(shutAnyDown, s2).
          if shutAnyDown then make_room w depth n now wb ws s2 else Inr s2)) = Inr s'"
      by (auto simp: bindR_Inr_conv)
    have "R s s1" using c by (rule canBoot_in)
    moreover have "R s1 s'"
    proof (cases "c \<noteq> None \<or> ws = []")
      case False
      with rest obtain b s2 where "shutdown_any w depth now ws s1 = Inr (b, s2)"
        "(if b then make_room w depth n now wb ws s2 else Inr s2) = Inr s'"
        by (auto simp: bindR_Inr_conv)
      moreover from this have "R s1 s2" using shutdown_any_in by blast
      ultimately show ?thesis using Suc.IH trans by (cases b) auto
    qed (use rest in simp)
    ultimately show ?thesis by (rule trans)
  qed (use Suc.prems in simp)
qed simp

lemma boot_in: "R s (snd (boot w c now s))"
proof -
  obtain result mm where r: "w_boot_worker w (mc_hardware (get_category s c)) (mc_os (get_category s c))
      (machine_management s) = (result, mm)" by fastforce
  define s1 where "s1 = s\<lparr>machine_management := mm\<rparr>"
  have 1: "R s s1" unfolding s1_def by (rule outside) (rule harmless_writes)
  have "R s1 (snd (boot w c now s))"
  proof (cases result)
    case Unbootable
    define s2 where "s2 = upd_category c (\<lambda>c. c\<lparr>mc_hardwareComboUnbootable := True,
      mc_hardwareComboUnbootableReason := ''Invalid hardware/os combination'', mc_desired := 0\<rparr>) s1"
    have "R s1 s2" unfolding s2_def by (rule outside) (rule harmless_writes)
    moreover have "R s2 (fold triggerTestPriorityUpdate xs s2)" for xs by (rule in_fold) simp
    ultimately show ?thesis
      using r Unbootable trans by (simp add: boot_def Let_def s1_def [symmetric] s2_def [symmetric])
  next
    case (Booted m)
    then show ?thesis
      using r by (simp add: boot_def Let_def s1_def [symmetric])
        (rule trans [OF outside outside]; rule harmless_writes)
  qed (use r in \<open>simp add: boot_def Let_def s1_def [symmetric]\<close>)
  with 1 show ?thesis by (rule trans)
qed

lemma boot_check_in:
  assumes "boot_check w depth now s = Inr (b, s')"
  shows "R s s'"
proof -
  obtain s1 c s2 where "make_room w depth (Suc depth) now (lookup_all (categories s) Category_want_more)
      (lookup_all (categories s) Category_want_less) s = Inr s1"
    "canBoot_any w (lookup_all (categories s) Category_want_more) s1 = Inr (c, s2)"
    and last: "(case c of Some cat \<Rightarrow> Inr (boot w cat now s2) | None \<Rightarrow> Inr (False, s2)) = (Inr (b, s') :: (bool \<times> 'm mgr) res)"
    using assms by (auto simp: boot_check_def Let_def bindR_Inr_conv)
  then have "R s s2" using make_room_in canBoot_in trans by meson
  moreover have "R s2 s'" using last boot_in by (cases c) (auto, metis snd_conv)
  ultimately show ?thesis by (rule trans)
qed

lemma boot_loop_in: "boot_loop w depth n now s = Inr s' \<Longrightarrow> R s s'"
proof (induction n arbitrary: s)
  case (Suc n)
  then obtain b s1 where "boot_check w depth now s = Inr (b, s1)" "(if b then boot_loop w depth n now s1 else Inr s1) = Inr s'"
    by (auto simp: bindR_Inr_conv)
  moreover from this have "R s s1" using boot_check_in by blast
  ultimately show ?case using Suc.IH trans by (cases b) auto
qed simp

lemma bootMachines_in: "bootMachinesIfNecessary w depth n now s = Inr s' \<Longrightarrow> R s s'"
proof -
  assume run: "bootMachinesIfNecessary w depth n now s = Inr s'"
  have "R s (s\<lparr>lastAmiCheckTimestamp := now, machine_management := w_amiCollectionCheck w (machine_management s)\<rparr>)"
    by (rule outside) (rule harmless_writes)
  with run show ?thesis
    unfolding bootMachinesIfNecessary_def Let_def by (auto split: if_splits intro: trans dest: boot_loop_in)
qed

end

section \<open>Everything a background task does\<close>

text \<open>Calls on the database and the git repositories, seen from the database.\<close>

definition keepsA :: "('m mgr \<Rightarrow> 'm mgr \<Rightarrow> bool) \<Rightarrow> ('a, 'm, 'g) action \<Rightarrow> bool" where
  "keepsA R m \<longleftrightarrow> keepsR (\<lambda>p q. R (fst p) (fst q)) m"

locale intake_relation = machine_relation R for R :: "'m mgr \<Rightarrow> 'm mgr \<Rightarrow> bool" +
  assumes repo_row: "(\<And>r. rp_name (f r) = rp_name r) \<Longrightarrow> R s (upd_repo i f s)"
    and commit_row: "(\<And>c. cm_repo (h c) = cm_repo c \<and> cm_hash (h c) = cm_hash c \<and> cm_data (h c) = cm_data c) \<Longrightarrow>
      R s (upd_commit i h s)"
    and data_row: "(\<And>d. cd_parents (k d) = cd_parents d) \<Longrightarrow> R s (upd_commit_data i k s)"
    and found: "R s (snd (commit_by_hash repo hash s))"
    and source_dep: "R s (snd (createSourceDep commit reponame hash_option s))"
    and repo_made: "lookup_any (repos s) (Repo_name name) = None \<Longrightarrow> R s (snd (createRepo name s))"
    and learned: "R s (snd (learn_commit repo info s))"
begin

lemma data_in: "(\<And>d. cd_parents (k d) = cd_parents d) \<Longrightarrow> R s (upd_data c k s)"
  unfolding upd_data_def by (auto split: option.split intro: data_row)

lemma markTestCreated_in: "R s (markTestCreated test s)"
proof -
  have "R s (del_unresolved_test dep (triggerTestPriorityUpdate t (snd (new_test_dep r s))))" for dep t r s
    using outside [OF harmless_new(5)] triggers(1) outside [OF harmless_del(1)] by (rule trans [OF trans])
  then show ?thesis unfolding markTestCreated_def Let_def by (intro in_fold) simp
qed

lemma createTestDep_in: "createTestDep test h a s = Inr s' \<Longrightarrow> R s s'"
  using outside [OF harmless_new(6)] outside [OF harmless_new(5)]
  by (auto simp: createTestDep_def split: option.splits if_splits)

lemma check_dependency_in: "keepsR R (check_dependency test dep)"
  unfolding check_dependency_def
  by (cases dep) (auto intro!: call_roll simp: bindR_Inr_conv dest: createTestDep_in)

lemma test_dependencies_in: "keepsR R (checkAllTestDependencies w test def)"
proof -
  have "keepsR R (modD (upd_test test f))" for f
    by (rule call_mod) (rule outside [OF harmless_upd(1)])
  moreover have "keepsR R (rollD (machineCategoryForTest w test))"
    by (rule call_roll) (rule category_for_test)
  ultimately show ?thesis
    unfolding checkAllTestDependencies_def Let_def
    by (auto split: option.split test_environment.split intro!: call_bind call_each simp: check_dependency_in case_prod_beta)
qed

lemma createTest_in: "keepsR R (createTest w commit def)"
proof -
  have new: "keepsR R (newD (new_test r))" "keepsR R (newD (new_commit_test r'))" for r r'
    by (rule call_new, rule outside, rule harmless_writes)+
  have "keepsR R (modD (\<lambda>s. triggerTestPriorityUpdate test (markTestCreated test s)))" for test
    by (rule call_mod) (rule trans [OF markTestCreated_in triggers(1)])
  with new test_dependencies_in show ?thesis
    unfolding createTest_def Let_def by (intro call_bind call_read) (auto split: option.split intro!: call_bind)
qed

lemma store_tests_in: "keepsR R (store_tests_of_commit w commit defs)"
proof -
  have 1: "keepsR R (modD (upd_data commit (\<lambda>d. d\<lparr>cd_repos := r\<rparr>)))" for r
    by (rule call_mod) (rule data_in, simp)
  have "R s (upd_data commit (\<lambda>d. d\<lparr>cd_testsParsed := True\<rparr>)
       (upd_repo (cm_repo (get_commit s commit)) (\<lambda>r. r\<lparr>rp_commitsWithTests := rp_commitsWithTests r + 1\<rparr>)
         (upd_data commit (\<lambda>d. d\<lparr>cd_tests := t\<rparr>) s)))" for s t
    by (rule trans [OF data_in trans [OF repo_row data_in]]) simp_all
  then have 2: "keepsR R (modD (\<lambda>s. upd_data commit (\<lambda>d. d\<lparr>cd_testsParsed := True\<rparr>)
       (upd_repo (cm_repo (get_commit s commit)) (\<lambda>r. r\<lparr>rp_commitsWithTests := rp_commitsWithTests r + 1\<rparr>)
         (upd_data commit (\<lambda>d. d\<lparr>cd_tests := t\<rparr>) s))))" for t
    by (rule call_mod)
  show ?thesis
    unfolding store_tests_of_commit_def
    by (cases defs) (auto intro!: call_bind 1 2 call_foldG simp: createTest_in case_prod_beta)
qed

lemma parse_definitions_in: "keepsR R (parse_definitions w rd commit)"
  unfolding keepsR_def
proof
  fix s :: "'m mgr"
  let ?c = "get_commit s commit"
  let ?name = "rp_name (get_repo s (cm_repo ?c))"
  let ?x = "known_services (rd_services rd) s"
  show "R s (snd (parse_definitions w rd commit s))"
  proof (cases "unprocessedRepoPinsFor ?x ?name (cm_hash ?c) new_resolver")
    case (Some p)
    obtain r resolver where p: "p = (r, resolver)" by fastforce
    show ?thesis
    proof (cases r)
      case (Inr pins)
      define s1 where "s1 = upd_data commit (\<lambda>d. d\<lparr>cd_repos := pins\<rparr>) s"
      have 1: "R s s1" unfolding s1_def by (rule data_in) simp
      have st: "R s1 (snd (store_tests_of_commit w commit defs s1))" for defs
        using store_tests_in by (simp add: keepsR_def)
      have "R s1 (snd (parse_definitions w rd commit s))"
        using Some p Inr unfolding parse_definitions_def Let_def s1_def [symmetric]
        by (auto simp: s1_def [symmetric] source_dep st split: option.split sum.split py_error.split)
      with 1 show ?thesis by (rule trans)
    qed (use Some p in \<open>simp add: parse_definitions_def Let_def\<close>)
  qed (simp add: parse_definitions_def Let_def)
qed

lemma parseCommitTests_in: "keepsR R (parseCommitTests w rd commit)"
proof -
  have "keepsR R (parse_body w rd commit)"
    using parse_definitions_in [of w rd commit]
    by (auto simp: keepsR_def parse_body_def Let_def data_in split: sum.split)
  moreover have "keepsR R (modD (upd_data commit (\<lambda>d. d\<lparr>cd_testDefinitionsError := e, cd_testsParsed := True\<rparr>)))" for e
    by (rule call_mod) (rule data_in, simp)
  ultimately have "keepsR R (tryG (parse_body w rd commit) (\<lambda>e.
        modD (upd_data commit (\<lambda>d. d\<lparr>cd_testDefinitionsError := rd_traceback rd e, cd_testsParsed := True\<rparr>))))"
    by blast
  then show ?thesis by (simp add: keepsR_def parseCommitTests_def)
qed

lemma recalculateBranchPins_in: "keepsR R (recalculateBranchPins branch)"
proof -
  have new: "keepsR R (newD (new_pin r))" for r
    by (rule call_new, rule outside, rule harmless_writes)
  have "keepsR R (recalculate_pin branch p)" for p
    unfolding recalculate_pin_def by (cases p) (auto intro!: call_bind new split: repo_reference.split)
  moreover have "keepsR R (modD (\<lambda>s. fold del_pin (xs s) s))" for xs
    by (rule call_mod, rule in_fold, rule outside, rule harmless_writes)
  moreover have "keepsR R (modD (scheduleBranchPinNeedsUpdating branch))"
    by (rule call_mod) simp
  ultimately show ?thesis
    unfolding recalculateBranchPins_def by (intro call_bind call_read call_each)
qed

lemma recalculate_heads_in: "keepsR R (recalculate_heads commit)"
  unfolding recalculate_heads_def by (intro call_bind call_read call_each recalculateBranchPins_in)

lemma load_commit_in: "keepsR R (load_commit w rd b commit ts)"
proof -
  have "keepsR R (modD (upd_data commit k))" if "\<And>d. cd_parents (k d) = cd_parents d" for k
    by (rule call_mod, rule data_in, rule that)
  moreover have "keepsR R (modD (triggerCommitPriorityUpdate commit))" by (rule call_mod) simp
  ultimately show ?thesis
    unfolding load_commit_def by (auto intro!: call_bind parseCommitTests_in)
qed

lemma updateCommitDataForHash_in: "keepsR R (updateCommitDataForHash w rd repo b info)"
proof -
  have "keepsR R (rollD (\<lambda>s. bindR (f s)
      (\<lambda>priority. Inr ((), upd_commit commit (\<lambda>c. c\<lparr>cm_userPriority := max (cm_userPriority c) priority\<rparr>) s))))"
    for f and commit :: oid
    by (rule call_roll) (auto simp: bindR_Inr_conv intro: commit_row)
  moreover have "keepsR R (newD (learn_commit repo info))"
    by (rule call_new, rule learned)
  ultimately show ?thesis
    unfolding updateCommitDataForHash_def
    by (intro call_bind) (auto split: option.split intro!: call_bind load_commit_in recalculate_heads_in)
qed

lemma updateCommitData_in: "keepsR R (updateCommitData w rd lookingBack commit)"
proof -
  have "keepsR R (eachG (updateCommitDataForHash w rd repo False) infos)" for repo infos
    by (rule call_each) (rule updateCommitDataForHash_in)
  then show ?thesis by (simp add: keepsR_def updateCommitData_def Let_def split: option.split)
qed

lemma forceTrigger_in: "keepsR R (forceTriggerCommitTestParse w rd commit)"
proof -
  have "keepsR R (bindG (parseCommitTests w rd commit) (\<lambda>_. recalculate_heads commit))"
    by (intro call_bind parseCommitTests_in recalculate_heads_in)
  moreover have "R s (upd_data commit (\<lambda>d. d\<lparr>cd_testsParsed := False, cd_noTestsFound := False\<rparr>) s)" for s
    by (rule data_in) simp
  ultimately show ?thesis
    unfolding keepsR_def forceTriggerCommitTestParse_def using trans by (auto; blast)
qed

lemma mark_loop_in: "R s (mark_loop n branch cs s)"
proof (induction n branch cs s rule: mark_loop.induct)
  case (2 n branch commit rest s)
  have step: "R s (triggerCommitPriorityUpdate commit (upd_commit commit (\<lambda>c. c\<lparr>cm_anyBranch := Some branch\<rparr>) s))"
    by (rule trans [OF commit_row triggers(2)]) simp
  show ?case
  proof (cases "cm_anyBranch (get_commit s commit) \<noteq> None")
    case False
    show ?thesis
    proof (cases n)
      case (Suc m)
      note rest = 2(2) [OF False Suc refl]
      from False Suc show ?thesis
        using trans [OF step rest] by (simp add: Let_def)
    qed (use False in simp)
  qed (use 2(1) in simp)
qed simp

lemma move_head_in: "keepsR R (move_head branch commit)"
proof -
  have head: "R s (setBranchHead branch h s)" for s h
    unfolding setBranchHead_def by (rule trans [OF outside outside]) (rule harmless_writes)+
  have 1: "keepsR R (newD (\<lambda>s. commit_by_hash (br_repo (get_branch s branch)) commit s))"
    by (rule call_new, rule found)
  have 2: "keepsR R (modD (\<lambda>s. case h of None \<Rightarrow> s | Some h \<Rightarrow> triggerCommitPriorityUpdate h s))" for h
    by (rule call_mod) (simp split: option.split)
  have 3: "keepsR R (modD (\<lambda>s. fold (\<lambda>pin s. scheduleBranchPinNeedsUpdating (bp_branch (get_pin s pin)) s) (xs s) s))" for xs
    by (rule call_mod, rule in_fold) simp
  have 4: "keepsR R (modD (setBranchHead branch h))" "keepsR R (modD (triggerCommitPriorityUpdate c))" for h c
    by (rule call_mod, simp add: head)+
  show ?thesis
    unfolding move_head_def by (intro call_bind call_read recalculateBranchPins_in 1 2 3 4)
qed

lemma updateBranchTopCommit_in: "keepsR R (updateBranchTopCommit w rd lookingBack topCommit branch)"
proof -
  have "keepsR R (modD (\<lambda>s. mark_loop (next_id s) branch cs s))" for cs
    by (rule call_mod) (rule mark_loop_in)
  then show ?thesis
    unfolding updateBranchTopCommit_def
    by (intro call_bind call_read)
      (auto split: option.split intro!: call_bind move_head_in updateCommitData_in simp del: mark_loop.simps)
qed

lemma refresh_repo_list_in: "R s (refresh_repo_list names s)"
proof -
  have 1: "R s (upd_repo r (\<lambda>row. row\<lparr>rp_isActive := b\<rparr>) s)" for s r b by (rule repo_row) simp
  have "R s (fold (\<lambda>name s. case lookup_any (repos s) (Repo_name name) of
            Some r \<Rightarrow> upd_repo r (\<lambda>row. row\<lparr>rp_isActive := True\<rparr>) s
          | None \<Rightarrow> snd (createRepo name s)) xs s)" for xs s
    by (rule in_fold) (auto split: option.split intro: 1 repo_made)
  moreover have "R s (fold (\<lambda>r s. if rp_name (get_repo s r) \<in> set names then s
                          else upd_repo r (\<lambda>row. row\<lparr>rp_isActive := False\<rparr>) s) xs s)" for xs s
    by (rule in_fold) (simp add: 1)
  ultimately show ?thesis unfolding refresh_repo_list_def Let_def using trans by blast
qed

subsection \<open>Database and git together\<close>

lemma pairs: "call_relation (\<lambda>(p :: 'm mgr \<times> 'g) q. R (fst p) (fst q))"
  by unfold_locales (auto intro: trans)

lemma action_rules:
  fixes m :: "('a, 'm, 'g) action"
  shows action_bind: "keepsA R m \<Longrightarrow> (\<And>v. keepsA R (f v)) \<Longrightarrow> keepsA R (bindG m f)"
    and action_try: "keepsA R m \<Longrightarrow> (\<And>e. keepsA R (h e)) \<Longrightarrow> keepsA R (tryG m h)"
    and action_lift: "keepsA R (liftG r :: ('b, 'm, 'g) action)"
    and action_ret: "keepsA R (retG v :: ('b, 'm, 'g) action)"
    and action_each: "(\<And>x. keepsA R (u x)) \<Longrightarrow> keepsA R (eachG u xs :: (unit, 'm, 'g) action)"
  unfolding keepsA_def
  by (rule call_relation.call_bind [OF pairs] call_relation.call_try [OF pairs] call_relation.call_lift [OF pairs]
      call_relation.call_ret [OF pairs] call_relation.call_each [OF pairs]; assumption)+

lemma action_db: "keepsR R m \<Longrightarrow> keepsA R (dbA m :: ('a, 'm, 'g) action)"
  by (auto simp: keepsA_def keepsR_def dbA_def split: prod.split) (metis snd_conv)

lemma action_git: "keepsA R (gitA k :: ('a, 'm, 'g) action)"
  by (auto simp: keepsA_def keepsR_def gitA_def split: prod.split)

lemma action_read: "keepsA R (readA r :: ('a, 'm, 'g) action)"
  unfolding readA_def by (rule action_db) (rule call_read)

lemma action_mod: "(\<And>s. R s (f s)) \<Longrightarrow> keepsA R (modA f :: (unit, 'm, 'g) action)"
  unfolding modA_def by (rule action_db) (rule call_mod)

lemma action_ask: "keepsA R (askA q :: ('a, 'm, 'g) action)"
  by (auto simp: keepsA_def keepsR_def askA_def)

lemmas actions = action_bind action_try action_lift action_ret action_each action_git action_read action_ask

lemma log_in: "R s (log_to_repo repo text ts s)"
proof -
  have "R s (upd_repo repo (\<lambda>r. r\<lparr>rp_branchCreateLogs := Some l\<rparr>) (snd (new_log row s)))" for l row
    by (rule trans [OF outside [OF harmless_new(9)] repo_row]) simp
  then show ?thesis by (simp add: log_to_repo_def createLogMessage_def case_prod_beta)
qed

lemma queue_all_in: "(\<And>x. st x \<noteq> Running) \<Longrightarrow> R s (fold (\<lambda>x. queueTask (t x) (st x)) xs s)"
  by (rule in_fold) (rule queue)

lemma refreshRepos_in: "keepsA R (refreshRepos sc)"
proof -
  have "R s (let s1 = refresh_repo_list names s in
       fold (\<lambda>r. queueTask (RefreshBranches r) PendingVeryLow) (xs s1) s1)" for s names xs
    unfolding Let_def by (rule trans [OF refresh_repo_list_in queue_all_in]) simp
  then show ?thesis unfolding refreshRepos_def by (intro actions action_mod)
qed

lemma branchDeleted_in: "keepsA R (branchDeleted sc ts branch)"
proof -
  have "R s (setBranchHead branch h s)" for s h
    unfolding setBranchHead_def by (rule trans [OF outside outside]) (rule harmless_writes)+
  then have "R s (case br_head (get_branch s branch) of None \<Rightarrow> s
      | Some h \<Rightarrow> triggerCommitPriorityUpdate h (setBranchHead branch None s))" for s
    by (auto split: option.split intro: trans [OF _ triggers(2)])
  moreover have "keepsA R (delete_tracking sc name ts b)" for name b
    unfolding delete_tracking_def by (intro actions action_mod log_in)
  ultimately show ?thesis unfolding branchDeleted_def by (intro actions action_mod)
qed

lemma create_branch_in: "R s (create_branch repo name s)"
proof -
  have "R s (queueTask t PendingLow (repoTouched repo (snd (new_branch row s))))" for t row
    by (rule trans [OF outside trans [OF outside queue]], (rule harmless_writes)+) simp
  then show ?thesis by (simp add: create_branch_def case_prod_beta)
qed

lemma schedule_dirty_in: "R s (schedule_dirty_head reponame p s)"
  by (simp add: schedule_dirty_head_def case_prod_beta split: sum.split option.split)

lemma refreshBranches_in: "keepsA R (refreshBranches sc ts repo)"
proof -
  have "keepsA R (delete_branches sc ts names bs)" for names bs
    unfolding delete_branches_def
    by (intro actions) (auto intro!: actions branchDeleted_in action_mod outside harmless_writes)
  moreover have "R s (fold (schedule_dirty_head reponame) xs (fold (create_branch repo) ys s))" for s reponame xs ys
    by (rule trans [OF in_fold in_fold]) (rule create_branch_in schedule_dirty_in)+
  ultimately show ?thesis unfolding refreshBranches_def by (intro actions action_mod)
qed

lemma new_tracking_branch_in: "R s (new_tracking_branch branch template s)"
proof -
  have "R s (scheduleUpdateBranchTopCommit nb (repoTouched repo (snd (new_branch row s))))" for nb repo row
    by (rule trans [OF outside trans [OF outside triggers(6)]]; rule harmless_writes)
  then show ?thesis by (simp add: new_tracking_branch_def Let_def case_prod_beta)
qed

lemma template_in: "keepsA R (createNewBranchFromTemplate sc branch template)"
proof -
  have "R s (upd_data head (\<lambda>d. d\<lparr>cd_repos := replaced_in_source template (cd_repos d)\<rparr>) s)" for head s
    by (rule data_in) simp
  then show ?thesis
    unfolding createNewBranchFromTemplate_def
    by (intro actions)
      (auto split: sum.split intro!: actions action_mod new_tracking_branch_in simp: case_prod_beta)
qed

lemma checkBranchAutocreate_in: "keepsA R (checkBranchAutocreate sc branch ts)"
  unfolding checkBranchAutocreate_def
  by (intro actions) (auto split: option.split intro!: actions action_mod log_in template_in simp: case_prod_beta)

lemma run_pin_update_in: "keepsA R (run_pin_update sc depth branch r i l)"
proof -
  have "R s (fold scheduleUpdateBranchTopCommit bs s)" for bs s by (rule in_fold) simp
  then show ?thesis
    unfolding run_pin_update_def by (intro actions) (auto intro!: action_mod simp: case_prod_beta)
qed

lemma processTask_in: "keepsA R (processTask w sc depth task ts)"
proof (cases task)
  case (UpdateBranchTopCommit branch)
  have "keepsA R (dbA (updateBranchTopCommit w rd lookingBack c branch))" for rd lookingBack c
    by (rule action_db) (rule updateBranchTopCommit_in)
  then have "keepsA R (refresh_branch_head w sc branch)"
    unfolding refresh_branch_head_def by (intro actions) (auto intro!: actions simp: case_prod_beta)
  with UpdateBranchTopCommit show ?thesis by (simp add: processTask_def)
next
  case (UpdateBranchPins branch)
  have "keepsA R (updateBranchPins sc depth branch)"
    unfolding updateBranchPins_def by (intro actions) (auto intro!: actions run_pin_update_in)
  with UpdateBranchPins show ?thesis by (simp add: processTask_def)
next
  case (UpdateCommitData commit)
  have "keepsA R (dbA (updateCommitData w rd lookingBack commit))" for rd lookingBack
    by (rule action_db) (rule updateCommitData_in)
  with UpdateCommitData show ?thesis
    by (auto simp: processTask_def case_prod_beta intro!: actions)
next
  case (CommitTestParse commit)
  then show ?thesis by (auto simp: processTask_def intro!: actions action_db parseCommitTests_in)
next
  case (UpdateTestPriority test)
  then show ?thesis
    by (auto simp: processTask_def bindR_Inr_conv intro!: action_db call_roll dest: updateTestPriority_in)
next
  case BootMachineCheck
  then show ?thesis
    by (auto simp: processTask_def bindR_Inr_conv intro!: action_db call_roll dest: bootMachines_in)
next
  case (UpdateCommitPriority commit)
  have "R s (updateCommitPriority commit s)" for s
  proof -
    have row: "R s (if b then upd_commit commit f s else s)"
      if "\<And>c. cm_repo (f c) = cm_repo c \<and> cm_hash (f c) = cm_hash c \<and> cm_data (f c) = cm_data c" for b f s
      using commit_row [OF that] by simp
    have any: "R s (if b then upd_commit commit (\<lambda>c. c\<lparr>cm_anyBranch := v\<rparr>) s else s)" for b v s by (rule row) simp
    have prio: "R s (if b then upd_commit commit (\<lambda>c. c\<lparr>cm_calculatedPriority := v\<rparr>) s else s)" for b v s
      by (rule row) simp
    have "R s (trigger_commit_tests commit s)" for s
      unfolding trigger_commit_tests_def by (rule in_fold) (rule trans [OF in_fold triggers(1)], rule triggers)
    moreover have "R s (fold triggerCommitPriorityUpdate ps s)" for ps s
      by (rule in_fold) (rule triggers)
    ultimately have "R s (trigger_commit_tests commit (fold triggerCommitPriorityUpdate ps s))" for ps s
      by (rule trans [rotated])
    then have last: "R s (if b then trigger_commit_tests commit (fold triggerCommitPriorityUpdate ps s) else s)" for b ps s
      by simp
    show ?thesis
      unfolding updateCommitPriority_def Let_def by (rule trans [OF trans [OF any prio] last])
  qed
  with UpdateCommitPriority show ?thesis by (auto simp: processTask_def intro!: action_mod)
qed (auto simp: processTask_def intro: refreshRepos_in refreshBranches_in checkBranchAutocreate_in)

end

end
