(* ===== verification/Commit_Names.thy ===== *)
theory Commit_Names
  imports Commit_Graph
begin

text \<open>
  The names of a commit: \<open>commitFindAllBranches\<close> finds every branch above the commit, and the path it
  records leads from the head of the branch down to the commit. The compression of that path is
  right for paths along first parents, and wrong for some others.
\<close>

section \<open>Following a path\<close>

fun follow :: "'m mgr \<Rightarrow> nat list \<Rightarrow> oid \<Rightarrow> oid option" where
  "follow s [] c = Some c"
| "follow s (ix # ixs) c = (if ix < length (parents_of s c) then follow s ixs (parents_of s c ! ix) else None)"

fun render :: "nat list \<Rightarrow> string" where
  "render [] = ''''"
| "render (ix # ixs) = step_name ix @ render ixs"

lemma list_index_Some: "list_index xs y = Some i \<Longrightarrow> i < length xs \<and> xs ! i = y"
  by (induction xs arbitrary: i) (auto split: if_splits)

lemma named_children_fold:
  assumes "foldR (\<lambda>child toCheck. case commit_data s child of None \<Rightarrow> Inl AttributeError
     | Some d \<Rightarrow> (case list_index (cd_parents d) c of None \<Rightarrow> Inl ValueError
        | Some ix \<Rightarrow> Inr (alist_set child (step_name ix) toCheck))) xs acc = Inr ch"
    "\<And>k v. (k, v) \<in> set acc \<Longrightarrow> \<exists>ix < length (parents_of s k). v = step_name ix \<and> parents_of s k ! ix = c"
  shows "fst ` set ch = fst ` set acc \<union> set xs \<and>
    (\<forall>(k, v)\<in>set ch. \<exists>ix < length (parents_of s k). v = step_name ix \<and> parents_of s k ! ix = c)"
  using assms
proof (induction xs arbitrary: acc)
  case (Cons x xs)
  from Cons.prems(1) obtain d ix where d: "commit_data s x = Some d" "list_index (cd_parents d) c = Some ix"
    and r: "foldR (\<lambda>child toCheck. case commit_data s child of None \<Rightarrow> Inl AttributeError
     | Some d \<Rightarrow> (case list_index (cd_parents d) c of None \<Rightarrow> Inl ValueError
        | Some ix \<Rightarrow> Inr (alist_set child (step_name ix) toCheck))) xs (alist_set x (step_name ix) acc) = Inr ch"
    by (auto simp: bindR_Inr_conv split: option.splits)
  have x: "ix < length (parents_of s x) \<and> parents_of s x ! ix = c"
    using list_index_Some [OF d(2)] d(1) by (simp add: parents_of_def)
  have sub: "set (alist_set x v acc) \<subseteq> insert (x, v) (set acc)" for v
    by (induction acc) (auto split: if_splits)
  have "\<exists>ix < length (parents_of s k). v = step_name ix \<and> parents_of s k ! ix = c"
    if "(k, v) \<in> set (alist_set x (step_name ix) acc)" for k v
    using that sub [of "step_name ix"] x Cons.prems(2) by blast
  from Cons.IH [OF r this] show ?case using keys_alist_set [of x "step_name ix" acc] by auto
qed auto

lemma named_childrenD:
  assumes "named_children s c = Inr ch"
  shows "fst ` set ch = set (children_of s c)"
    "(k, v) \<in> set ch \<Longrightarrow> \<exists>ix < length (parents_of s k). v = step_name ix \<and> parents_of s k ! ix = c"
  using named_children_fold [where s = s and c = c and xs = "children_of s c" and acc = "[]" and ch = ch] assms
  by (auto simp: named_children_def)

section \<open>The paths are right\<close>

definition paths_ok :: "'m mgr \<Rightarrow> oid \<Rightarrow> (oid \<times> string) list \<times> (oid \<times> string) list \<Rightarrow> bool" where
  "paths_ok s commit st \<longleftrightarrow>
     (\<forall>b name. map_of (snd st) b = Some name \<longrightarrow> (\<exists>k ixs. b \<in> set (lookup_all (branches s) (Branch_head (Some k))) \<and>
        name = compress_pathback (render ixs) \<and> follow s ixs k = Some commit))"

lemma fold_alist_set: "map_of (fold (\<lambda>b. alist_set b v) bs m) b = (if b \<in> set bs then Some v else map_of m b)"
  by (induction bs arbitrary: m) auto

lemma branch_check_paths:
  "branch_check n s c (render ixs) st = Inr st' \<Longrightarrow> follow s ixs c = Some commit \<Longrightarrow> paths_ok s commit st \<Longrightarrow>
     paths_ok s commit st'"
proof (induction n arbitrary: c ixs st st')
  case (Suc n)
  obtain cc brs where st: "st = (cc, brs)" by fastforce
  let ?brs = "fold (\<lambda>b. alist_set b (compress_pathback (render ixs))) (lookup_all (branches s) (Branch_head (Some c))) brs"
  show ?case
  proof (cases "case map_of cc c of None \<Rightarrow> True | Some p \<Rightarrow> length (render ixs) < length p")
    case False
    then have "st' = st" using Suc.prems(1) by (simp add: st)
    then show ?thesis using Suc.prems(3) by simp
  next
    case True
    then obtain ch where ch: "named_children s c = Inr ch"
      and f: "foldR (\<lambda>(child, to_add). branch_check n s child (to_add @ render ixs)) ch
        (alist_set c (render ixs) cc, ?brs) = Inr st'"
      using Suc.prems(1) by (auto simp: st bindR_Inr_conv)
    have start: "paths_ok s commit (alist_set c (render ixs) cc, ?brs)"
      using Suc.prems(2,3) by (auto simp: paths_ok_def st fold_alist_set split: if_splits)
    show ?thesis
    proof (rule foldR_inv [where P = "paths_ok s commit", OF f start])
      fix x u v assume x: "x \<in> set ch" "paths_ok s commit u"
        "(case x of (child, to_add) \<Rightarrow> branch_check n s child (to_add @ render ixs)) u = Inr v"
      obtain k name where xk: "x = (k, name)" by fastforce
      then obtain ix where ix: "ix < length (parents_of s k)" "name = step_name ix" "parents_of s k ! ix = c"
        using named_childrenD(2) [OF ch] x(1) by blast
      then have "follow s (ix # ixs) k = Some commit" using Suc.prems(2) by simp
      then show "paths_ok s commit v" using Suc.IH [of k "ix # ixs" u v] x(2,3) xk ix(2) by simp
    qed
  qed
qed simp

section \<open>Every branch above is found\<close>

definition heads_at :: "'m mgr \<Rightarrow> oid \<Rightarrow> oid set" where
  "heads_at s k = set (lookup_all (branches s) (Branch_head (Some k)))"

definition visited :: "(oid \<times> string) list \<times> (oid \<times> string) list \<Rightarrow> oid set" where
  "visited st = fst ` set (fst st)"

definition found :: "(oid \<times> string) list \<times> (oid \<times> string) list \<Rightarrow> oid set" where
  "found st = fst ` set (snd st)"

definition check_post ::
  "'m mgr \<Rightarrow> oid set \<Rightarrow> (oid \<times> string) list \<times> (oid \<times> string) list \<Rightarrow>
   (oid \<times> string) list \<times> (oid \<times> string) list \<Rightarrow> bool" where
  "check_post s T st st' \<longleftrightarrow>
     visited st \<union> T \<subseteq> visited st' \<and> found st \<subseteq> found st' \<and>
     found st' \<subseteq> found st \<union> \<Union> (heads_at s ` visited st') \<and>
     (\<forall>k\<in>visited st' - visited st. set (children_of s k) \<subseteq> visited st' \<and>
        heads_at s k \<subseteq> found st' \<and> k \<in> (edges (children_of s))\<^sup>* `` T)"

lemma check_post_refl: "check_post s {} st st"
  by (auto simp: check_post_def)

lemma check_post_trans:
  assumes "check_post s T st u" "check_post s T' u st'"
  shows "check_post s (T \<union> T') st st'"
  unfolding check_post_def
proof (intro conjI ballI)
  have mono: "visited st \<subseteq> visited u" "T \<subseteq> visited u" "found st \<subseteq> found u"
    "visited u \<subseteq> visited st'" "T' \<subseteq> visited st'" "found u \<subseteq> found st'"
    using assms by (auto simp: check_post_def)
  then show "visited st \<union> (T \<union> T') \<subseteq> visited st'" "found st \<subseteq> found st'" by blast+
  have sets: "A \<subseteq> D \<union> C" if "A \<subseteq> B \<union> C" "B \<subseteq> D \<union> E" "E \<subseteq> C" for A B C D E :: "oid set"
    using that by blast
  show "found st' \<subseteq> found st \<union> \<Union> (heads_at s ` visited st')"
  proof (rule sets)
    show "found st' \<subseteq> found u \<union> \<Union> (heads_at s ` visited st')" "found u \<subseteq> found st \<union> \<Union> (heads_at s ` visited u)"
      using assms by (simp_all add: check_post_def)
    show "\<Union> (heads_at s ` visited u) \<subseteq> \<Union> (heads_at s ` visited st')"
      by (intro Union_mono image_mono mono(4))
  qed
  fix k assume k: "k \<in> visited st' - visited st"
  have "set (children_of s k) \<subseteq> visited st' \<and> heads_at s k \<subseteq> found st' \<and>
      k \<in> (edges (children_of s))\<^sup>* `` (T \<union> T')"
  proof (cases "k \<in> visited u")
    case True
    then have "k \<in> visited u - visited st" using k by blast
    then have "set (children_of s k) \<subseteq> visited u" "heads_at s k \<subseteq> found u"
      "k \<in> (edges (children_of s))\<^sup>* `` T" using assms(1) unfolding check_post_def by blast+
    with mono show ?thesis by blast
  next
    case False
    then have "k \<in> visited st' - visited u" using k by blast
    then have "set (children_of s k) \<subseteq> visited st'" "heads_at s k \<subseteq> found st'"
      "k \<in> (edges (children_of s))\<^sup>* `` T'" using assms(2) unfolding check_post_def by blast+
    then show ?thesis by blast
  qed
  then show "set (children_of s k) \<subseteq> visited st'" "heads_at s k \<subseteq> found st'"
    "k \<in> (edges (children_of s))\<^sup>* `` (T \<union> T')" by blast+
qed

lemma keys_fold_set: "fst ` set (fold (\<lambda>b. alist_set b v) bs m) = fst ` set m \<union> set bs"
proof (induction bs arbitrary: m)
  case (Cons b bs)
  then show ?case using keys_alist_set [of b v m] by auto
qed simp

lemma branch_check_post: "branch_check n s c p st = Inr st' \<Longrightarrow> check_post s {c} st st'"
proof (induction n arbitrary: c p st st')
  case (Suc n)
  obtain cc brs where st: "st = (cc, brs)" by fastforce
  let ?brs = "fold (\<lambda>b. alist_set b (compress_pathback p)) (lookup_all (branches s) (Branch_head (Some c))) brs"
  let ?mid = "(alist_set c p cc, ?brs)"
  show ?case
  proof (cases "case map_of cc c of None \<Rightarrow> True | Some q \<Rightarrow> length p < length q")
    case False
    then have "c \<in> fst ` set cc" by (auto split: option.splits dest: map_of_SomeD intro: rev_image_eqI)
    moreover have "st' = st" using Suc.prems(1) False by (simp add: st)
    ultimately show ?thesis by (auto simp: check_post_def visited_def st)
  next
    case True
    then obtain ch where ch: "named_children s c = Inr ch"
      and f: "foldR (\<lambda>(child, to_add). branch_check n s child (to_add @ p)) ch ?mid = Inr st'"
      using Suc.prems(1) by (auto simp: st bindR_Inr_conv)
    have "check_post s (fst ` set xs) u v"
      if "foldR (\<lambda>(child, to_add). branch_check n s child (to_add @ p)) xs u = Inr v" for xs u v
      using that
    proof (induction xs arbitrary: u)
      case Nil
      then show ?case by (simp add: check_post_refl)
    next
      case (Cons x xs)
      obtain k name where x: "x = (k, name)" by fastforce
      from Cons.prems obtain w where "branch_check n s k (name @ p) u = Inr w"
        "foldR (\<lambda>(child, to_add). branch_check n s child (to_add @ p)) xs w = Inr v"
        unfolding x foldR.simps bindR_Inr_conv prod.case by blast
      from check_post_trans [OF Suc.IH [OF this(1)] Cons.IH [OF this(2)]] show ?case by (simp add: x)
    qed
    from this [OF f] have post: "check_post s (set (children_of s c)) ?mid st'"
      using named_childrenD(1) [OF ch] by simp
    have keys: "visited ?mid = insert c (visited st)" "found ?mid = found st \<union> heads_at s c"
      using keys_alist_set [of c p cc] by (auto simp: keys_fold_set heads_at_def visited_def found_def st)
    have step: "(c, k) \<in> (edges (children_of s))\<^sup>*"
      if "k \<in> (edges (children_of s))\<^sup>* `` set (children_of s c)" for k
      using that by (auto intro: converse_rtrancl_into_rtrancl)
    have self: "c \<in> (edges (children_of s))\<^sup>* `` {c}" by blast
    show ?thesis
      unfolding check_post_def
    proof (intro conjI ballI)
      show "visited st \<union> {c} \<subseteq> visited st'" "found st \<subseteq> found st'"
        "found st' \<subseteq> found st \<union> \<Union> (heads_at s ` visited st')"
        using post by (auto simp: check_post_def keys)
      fix k assume k: "k \<in> visited st' - visited st"
      have "set (children_of s k) \<subseteq> visited st' \<and> heads_at s k \<subseteq> found st' \<and> (c, k) \<in> (edges (children_of s))\<^sup>*"
      proof (cases "k = c")
        case True
        then show ?thesis using post by (auto simp: check_post_def keys)
      next
        case False
        then have "k \<in> visited st' - visited ?mid" using k by (simp add: keys)
        then show ?thesis using post step unfolding check_post_def by blast
      qed
      then show "set (children_of s k) \<subseteq> visited st'" "heads_at s k \<subseteq> found st'"
        "k \<in> (edges (children_of s))\<^sup>* `` {c}" by blast+
    qed
  qed
qed simp

text \<open>The relationships of the database: every child has data that names the commit as a parent, and
  \<open>height\<close> bounds how far up the history goes.\<close>

definition history_below :: "'m mgr \<Rightarrow> (oid \<Rightarrow> nat) \<Rightarrow> bool" where
  "history_below s height \<longleftrightarrow>
     (\<forall>c. \<forall>child\<in>set (children_of s c). c \<in> set (parents_of s child) \<and> height child < height c)"

lemma list_index_in: "y \<in> set xs \<Longrightarrow> \<exists>i. list_index xs y = Some i"
  by (induction xs) auto

lemma named_children_ok:
  assumes "history_below s height"
  shows "\<exists>ch. named_children s c = Inr ch"
  unfolding named_children_def
proof (rule exE [OF foldR_ok [where P = "\<lambda>_. True"]])
  fix child acc assume "child \<in> set (children_of s c)"
  then have "c \<in> set (parents_of s child)" using assms by (auto simp: history_below_def)
  then show "\<exists>v. (case commit_data s child of None \<Rightarrow> Inl AttributeError
     | Some d \<Rightarrow> (case list_index (cd_parents d) c of None \<Rightarrow> Inl ValueError
        | Some ix \<Rightarrow> Inr (alist_set child (step_name ix) acc))) = Inr v \<and> True"
    using list_index_in [of c] by (fastforce simp: parents_of_def split: option.splits)
qed auto

lemma branch_check_ok:
  assumes "history_below s height"
  shows "height c < n \<Longrightarrow> \<exists>st'. branch_check n s c p st = Inr st'"
proof (induction n arbitrary: c p st)
  case (Suc n)
  obtain cc brs where st: "st = (cc, brs)" by fastforce
  obtain ch where ch: "named_children s c = Inr ch" using named_children_ok [OF assms] by blast
  have "\<exists>t. foldR (\<lambda>(child, to_add). branch_check n s child (to_add @ p)) ch u = Inr t" for u
  proof -
    have "\<exists>t. foldR (\<lambda>(child, to_add). branch_check n s child (to_add @ p)) ch u = Inr t \<and> True"
    proof (rule foldR_ok)
      fix x v assume "x \<in> set ch"
      then have "fst x \<in> set (children_of s c)" using named_childrenD(1) [OF ch] by auto
      then have "height (fst x) < height c" using assms unfolding history_below_def by blast
      then have "height (fst x) < n" using Suc.prems by simp
      from Suc.IH [OF this] show "\<exists>w. (case x of (child, to_add) \<Rightarrow> branch_check n s child (to_add @ p)) v = Inr w \<and> True"
        by (simp add: split_beta)
    qed simp
    then show ?thesis by simp
  qed
  then show ?case by (simp add: st ch)
qed simp

text \<open>C25: In a history whose relationships agree with the parents of the commits,
  \<open>commitFindAllBranches\<close> returns, and it finds exactly the branches whose head is the commit or above
  it; each name it gives is the compression of a path of parents from the head of the branch down to
  the commit.\<close>

theorem branch_names_correct:
  assumes "history_below s height" "height commit < n"
  shows "\<exists>brs. commitFindAllBranches n s commit = Inr brs \<and>
    set (map fst brs) = \<Union> (heads_at s ` ((edges (children_of s))\<^sup>* `` {commit})) \<and>
    (\<forall>b name. map_of brs b = Some name \<longrightarrow>
       (\<exists>k ixs. b \<in> heads_at s k \<and> name = compress_pathback (render ixs) \<and> follow s ixs k = Some commit))"
proof -
  from branch_check_ok [OF assms, of "render []" "([], [])"] obtain cc brs where
    bc: "branch_check n s commit (render []) ([], []) = Inr (cc, brs)" by force
  then have run: "commitFindAllBranches n s commit = Inr brs" by (simp add: commitFindAllBranches_def)
  have "paths_ok s commit (cc, brs)"
    by (rule branch_check_paths [OF bc]) (simp_all add: paths_ok_def)
  moreover have post: "check_post s {commit} ([], []) (cc, brs)" by (rule branch_check_post [OF bc])
  let ?V = "visited (cc, brs)"
  have nil: "visited ([], []) = {}" "found ([], []) = {}" by (simp_all add: visited_def found_def)
  have "closed_under (children_of s) ?V" "commit \<in> ?V"
    using post by (auto simp: check_post_def closed_under_def nil)
  then have "(edges (children_of s))\<^sup>* `` {commit} \<subseteq> ?V" using closed_reach by fastforce
  then have V: "?V = (edges (children_of s))\<^sup>* `` {commit}" using post by (auto simp: check_post_def nil)
  have "found (cc, brs) = \<Union> (heads_at s ` ?V)" using post unfolding check_post_def nil by blast
  then have "fst ` set brs = \<Union> (heads_at s ` ((edges (children_of s))\<^sup>* `` {commit}))"
    unfolding V by (simp add: found_def)
  ultimately show ?thesis using run by (simp add: paths_ok_def heads_at_def)
qed

text \<open>Two commits: \<open>1\<close> is the child of \<open>0\<close> and the head of branch \<open>9\<close>.\<close>

definition demo_pair :: "unit mgr" where
  "demo_pair =
     (new_manager () 0)\<lparr>
       commits := empty_tbl\<lparr>rows := [0 \<mapsto> default_commit\<lparr>cm_data := Some 0\<rparr>, 1 \<mapsto> default_commit\<lparr>cm_data := Some 1\<rparr>]\<rparr>,
       commit_datas := empty_tbl\<lparr>rows := [0 \<mapsto> default_commit_data, 1 \<mapsto> default_commit_data\<lparr>cd_parents := [0]\<rparr>]\<rparr>,
       relationships := tbl_new relationship_keys 5 \<lparr>rel_child = 1, rel_parent = 0\<rparr> empty_tbl,
       branches := tbl_new branch_keys 9 (default_branch\<lparr>br_head := Some 1\<rparr>) empty_tbl\<rparr>"

lemma demo_pair_children: "children_of demo_pair c = (if c = 0 then [1] else [])"
  by (simp add: children_of_def demo_pair_def get_relationship_def relationship_index.lookup_new relationship_keys_def)

theorem branch_names_correct_witness:
  "\<exists>brs. commitFindAllBranches 2 demo_pair 0 = Inr brs \<and> 9 \<in> set (map fst brs)"
proof -
  have "parents_of demo_pair 1 = [0]"
    by (simp add: parents_of_def commit_data_def get_commit_def get_commit_data_def demo_pair_def default_commit_data_def)
  then have "history_below demo_pair (\<lambda>c. 1 - c)" by (simp add: history_below_def demo_pair_children)
  from branch_names_correct [OF this, of 0 2] obtain brs where
    brs: "commitFindAllBranches 2 demo_pair 0 = Inr brs"
    "set (map fst brs) = \<Union> (heads_at demo_pair ` ((edges (children_of demo_pair))\<^sup>* `` {0}))" by auto
  have "(0, 1) \<in> (edges (children_of demo_pair))\<^sup>*" by (rule r_into_rtrancl) (simp add: demo_pair_children)
  moreover have "9 \<in> heads_at demo_pair 1"
    by (simp add: heads_at_def demo_pair_def branch_index.lookup_new branch_keys_def default_branch_def)
  ultimately show ?thesis using brs by auto
qed

section \<open>Compressing a path\<close>

lemma compress_no_tilde:
  assumes "CHR ''~'' \<notin> set (drop i path)"
  shows "compress_loop path None i = path"
  using assms
proof (induction "length path + 1 - i" arbitrary: i)
  case 0
  then show ?case by (subst compress_loop.simps) simp
next
  case (Suc n)
  have "\<not> (i < length path \<and> path ! i = CHR ''~'')"
  proof
    assume a: "i < length path \<and> path ! i = CHR ''~''"
    then have "path ! i \<in> set (drop i path)" by (metis Cons_nth_drop_Suc list.set_intros(1))
    with a Suc.prems show False by simp
  qed
  moreover have "CHR ''~'' \<notin> set (drop (i + 1) path)"
    using Suc.prems set_drop_subset_set_drop [of i "i + 1" path] by auto
  ultimately show ?case using Suc.hyps by (subst compress_loop.simps) auto
qed

lemma compress_scan:
  "i \<le> n \<Longrightarrow> 0 < i \<Longrightarrow> compress_loop (replicate n CHR ''~'') (Some 0) i =
     compress_loop (replicate n CHR ''~'') (Some 0) n"
proof (induction "n - i" arbitrary: i)
  case (Suc k)
  have "i < n" using Suc.hyps(2) by simp
  then have "compress_loop (replicate n CHR ''~'') (Some 0) i = compress_loop (replicate n CHR ''~'') (Some 0) (i + 1)"
    by (subst compress_loop.simps) simp
  also have "\<dots> = compress_loop (replicate n CHR ''~'') (Some 0) n"
    by (rule Suc.hyps(1)) (use Suc.hyps(2) Suc.prems in auto)
  finally show ?case .
qed simp

lemma compress_tildes:
  "compress_pathback (render (replicate n 0)) =
     (if n = 0 then '''' else if n = 1 then ''~'' else ''~'' @ digits n)"
proof -
  have r: "render (replicate n 0) = replicate n CHR ''~''" by (induction n) (auto simp: step_name_def)
  show ?thesis
  proof (cases "n = 0")
    case True
    then show ?thesis by (simp add: compress_pathback_def compress_no_tilde)
  next
    case False
    have "compress_loop (replicate n CHR ''~'') None 0 = compress_loop (replicate n CHR ''~'') (Some 0) 1"
      using False by (subst compress_loop.simps) simp
    also have "\<dots> = compress_loop (replicate n CHR ''~'') (Some 0) n"
      by (rule compress_scan) (use False in auto)
    also have "\<dots> = (if n = 1 then ''~'' else ''~'' @ digits n)"
    proof (cases "n = 1")
      case True
      then show ?thesis by (simp add: compress_loop.simps [of "''~''" "Some 0"])
    next
      case n: False
      then have "compress_loop (replicate n CHR ''~'') (Some 0) n = compress_loop (''~'' @ digits n) None 1"
        using False by (subst compress_loop.simps) simp
      also have "\<dots> = ''~'' @ digits n" by (rule compress_no_tilde) (simp add: digits_no_tilde)
      finally show ?thesis using n by simp
    qed
    finally show ?thesis using False by (simp add: compress_pathback_def r)
  qed
qed

text \<open>A commit on the first-parent line of a branch gets the right name: \<open>n\<close> tildes, for \<open>n > 1\<close>, are
  compressed to one tilde followed by the number \<open>n\<close>.\<close>

theorem first_parent_names:
  "compress_pathback (render (replicate n 0)) =
     (if n = 0 then '''' else if n = 1 then ''~'' else ''~'' @ digits n)"
  by (rule compress_tildes)

text \<open>The name of a commit behind a merge can be wrong: the second parent of the first parent gets the
  name of the commit 22 first parents down, because a single tilde before \<open>^\<close> is compressed together
  with it.\<close>

theorem merge_names_ambiguous:
  "compress_pathback (render [0, 1]) = ''~22'' \<and> compress_pathback (render (replicate 22 0)) = ''~22''"
proof
  have 2: "digits 2 = ''2''" by code_simp
  have "render [0, 1] = ''~^2''" using 2 by (simp add: step_name_def numeral_eq_Suc)
  then show "compress_pathback (render [0, 1]) = ''~22''"
    using 2 by (simp add: compress_pathback_def compress_loop.simps numeral_eq_Suc)
  have "digits 22 = ''22''" by code_simp
  then show "compress_pathback (render (replicate 22 0)) = ''~22''" unfolding compress_tildes by simp
qed

end
