(* ===== verification/Commit_Walks.thy ===== *)
theory Commit_Walks
  imports Commit_Graph
begin

text \<open>
  What the walks over the commit graph return: breadth-first searches visit every commit once and stop
  only at the limit or when nothing is left, the unbounded loops end on every finite history, and the
  names of a commit lead from a branch head to the commit.
\<close>

section \<open>Breadth-first search\<close>

definition allowed_edges :: "(oid \<Rightarrow> bool) \<Rightarrow> (oid \<Rightarrow> oid list) \<Rightarrow> (oid \<times> oid) set" where
  "allowed_edges allowed succs = {(a, b). b \<in> set (succs a) \<and> allowed b}"

definition bfs_inv ::
  "nat \<Rightarrow> (oid \<Rightarrow> bool) \<Rightarrow> (oid \<Rightarrow> oid list) \<Rightarrow> oid \<Rightarrow> oid list \<Rightarrow> oid list \<Rightarrow> bool" where
  "bfs_inv N A f start frontier seen \<longleftrightarrow>
     distinct seen \<and> length seen \<le> N \<and>
     (\<forall>c\<in>set seen. A c) \<and> (\<forall>c\<in>set seen \<union> set frontier. A c \<longrightarrow> (start, c) \<in> (allowed_edges A f)\<^sup>*) \<and>
     (\<forall>c\<in>set seen. \<forall>d\<in>set (f c). A d \<longrightarrow> d \<in> set seen \<union> set frontier) \<and>
     start \<in> set seen \<union> set frontier \<and> (seen \<noteq> [] \<longrightarrow> hd seen = start) \<and> (seen = [] \<longrightarrow> frontier = [start])"

lemma bfs_inv_result:
  assumes "bfs_inv N A f start frontier seen" "A start"
  shows "\<exists>frontier'. bfs_inv N A f start frontier' (bfs N A f frontier seen) \<and>
    (frontier' = [] \<or> length (bfs N A f frontier seen) = N)"
  using assms
proof (induction N A f frontier seen rule: bfs.induct)
  case (1 N A f frontier seen)
  show ?case
  proof (cases frontier)
    case Nil
    then show ?thesis using "1.prems"(1) by (auto simp: bfs_simps(1))
  next
    case (Cons c rest)
    show ?thesis
    proof (cases "N \<le> length seen")
      case True
      then have "length seen = N" using "1.prems" by (simp add: bfs_inv_def)
      then show ?thesis using "1.prems"(1) Cons by (auto simp: bfs_simps(2))
    next
      case False
      show ?thesis
      proof (cases "c \<notin> set seen \<and> A c")
        case True
        have "bfs_inv N A f start (rest @ f c) (seen @ [c])"
          unfolding bfs_inv_def
        proof (intro conjI)
          have rc: "(start, c) \<in> (allowed_edges A f)\<^sup>*" using "1.prems"(1) Cons True by (simp add: bfs_inv_def)
          then have "(start, d) \<in> (allowed_edges A f)\<^sup>*" if "d \<in> set (f c)" "A d" for d
            by (rule rtrancl_into_rtrancl) (use that in \<open>simp add: allowed_edges_def\<close>)
          then show "\<forall>x\<in>set (seen @ [c]) \<union> set (rest @ f c). A x \<longrightarrow> (start, x) \<in> (allowed_edges A f)\<^sup>*"
            using "1.prems"(1) Cons rc by (auto simp: bfs_inv_def)
        qed (use "1.prems"(1) Cons True False in \<open>auto simp: bfs_inv_def hd_append\<close>)
        from "1.IH"(1) [OF Cons False True this "1.prems"(2)]
        show ?thesis by (simp only: Cons bfs_simps(3) [where A = A, OF False True])
      next
        case seen: False
        have "bfs_inv N A f start rest seen"
          using "1.prems" Cons seen by (auto simp: bfs_inv_def)
        from "1.IH"(2) [OF Cons False seen this "1.prems"(2)]
        show ?thesis by (simp only: Cons bfs_simps(4) [where A = A, OF False seen])
      qed
    qed
  qed
qed

lemma bfs_correct:
  assumes "A start" "0 < N"
  shows "\<exists>cs. bfs N A f [start] [] = start # cs \<and> distinct (start # cs) \<and> length cs < N \<and>
    set (start # cs) \<subseteq> (allowed_edges A f)\<^sup>* `` {start} \<and>
    (length cs < N - 1 \<longrightarrow> set (start # cs) = (allowed_edges A f)\<^sup>* `` {start})"
proof -
  define r where "r = bfs N A f [start] []"
  have "bfs_inv N A f start [start] []" by (simp add: bfs_inv_def)
  from bfs_inv_result [OF this assms(1)] obtain fr where
    inv: "bfs_inv N A f start fr r" and stop: "fr = [] \<or> length r = N" unfolding r_def by blast
  have "r \<noteq> []" using stop inv assms by (auto simp: bfs_inv_def)
  then obtain cs where cs: "r = start # cs" using inv by (cases r) (auto simp: bfs_inv_def)
  have "set r = (allowed_edges A f)\<^sup>* `` {start}" if "length cs < N - 1"
  proof -
    have closed: "fr = []" using stop cs that by auto
    have "b \<in> set r" if "(start, b) \<in> (allowed_edges A f)\<^sup>*" for b
      using that
    proof induction
      case (step b c)
      then show ?case using inv closed unfolding bfs_inv_def by (auto simp: allowed_edges_def)
    qed (simp add: cs)
    then show ?thesis using inv by (auto simp: bfs_inv_def)
  qed
  then show ?thesis using inv by (intro exI [of _ cs]) (auto simp: bfs_inv_def cs r_def [symmetric])
qed

definition search_edges :: "string \<Rightarrow> oid list option \<Rightarrow> 'm mgr \<Rightarrow> (oid \<times> oid) set" where
  "search_edges direction restrictTo s =
     allowed_edges (\<lambda>c. case restrictTo of None \<Rightarrow> True | Some R \<Rightarrow> R = [] \<or> c \<in> set R)
       (if direction = ''below'' then parents_of s else children_of s)"

text \<open>C22: \<open>getNCommits\<close> returns distinct commits other than the one it starts from, all reachable through
  allowed commits in the given direction and fewer than \<open>N\<close>; if it returns fewer than \<open>N - 1\<close>, these are
  all there are.\<close>

theorem getNCommits_correct:
  assumes "direction \<in> {''above'', ''below''}" "0 < N"
    "case restrictTo of None \<Rightarrow> True | Some R \<Rightarrow> R = [] \<or> commit \<in> set R"
  shows "\<exists>cs. getNCommits commit N direction restrictTo s = Inr cs \<and> distinct cs \<and> length cs < N \<and>
    set cs \<subseteq> (search_edges direction restrictTo s)\<^sup>* `` {commit} - {commit} \<and>
    (length cs < N - 1 \<longrightarrow> set cs = (search_edges direction restrictTo s)\<^sup>* `` {commit} - {commit})"
proof -
  let ?E = "search_edges direction restrictTo s"
  from bfs_correct [of "\<lambda>c. case restrictTo of None \<Rightarrow> True | Some R \<Rightarrow> R = [] \<or> c \<in> set R", OF assms(3,2),
      of "if direction = ''below'' then parents_of s else children_of s"]
  obtain cs where cs: "bfs N (\<lambda>c. case restrictTo of None \<Rightarrow> True | Some R \<Rightarrow> R = [] \<or> c \<in> set R)
      (if direction = ''below'' then parents_of s else children_of s) [commit] [] = commit # cs"
    "distinct (commit # cs)" "length cs < N" "set (commit # cs) \<subseteq> ?E\<^sup>* `` {commit}"
    "length cs < N - 1 \<longrightarrow> set (commit # cs) = ?E\<^sup>* `` {commit}" unfolding search_edges_def by blast
  have "getNCommits commit N direction restrictTo s = Inr cs"
    using assms(1) cs(1) by (simp add: getNCommits_def Let_def)
  moreover have "set cs \<subseteq> ?E\<^sup>* `` {commit} - {commit}" using cs(2,4) by auto
  moreover have "length cs < N - 1 \<longrightarrow> set cs = ?E\<^sup>* `` {commit} - {commit}"
    using cs(2,5) by (metis Diff_insert_absorb distinct.simps(2) list.simps(15))
  ultimately show ?thesis using cs(2,3) by auto
qed

text \<open>A history of three commits: \<open>2\<close> is a merge of \<open>1\<close> and \<open>0\<close>, \<open>1\<close> has the parent \<open>0\<close>.\<close>

definition demo_history :: "unit mgr" where
  "demo_history =
     (new_manager () 0)\<lparr>commits := empty_tbl\<lparr>rows := (\<lambda>i. if i < 3 then Some (default_commit\<lparr>cm_data := Some i\<rparr>) else None)\<rparr>,
       commit_datas := empty_tbl\<lparr>rows := [0 \<mapsto> default_commit_data, 1 \<mapsto> default_commit_data\<lparr>cd_parents := [0]\<rparr>,
         2 \<mapsto> default_commit_data\<lparr>cd_parents := [1, 0]\<rparr>]\<rparr>\<rparr>"

lemma demo_parents: "parents_of demo_history c = (if c = 1 then [0] else if c = 2 then [1, 0] else [])"
  by (simp add: parents_of_def commit_data_def get_commit_def get_commit_data_def demo_history_def
      default_commit_def default_commit_data_def)

theorem getNCommits_correct_witness:
  "\<exists>cs. getNCommits 2 10 ''below'' None demo_history = Inr cs \<and> distinct cs \<and> length cs < 10"
  using getNCommits_correct [where direction = "''below''" and N = 10 and restrictTo = None and commit = 2 and s = demo_history] by simp blast

section \<open>Worklists\<close>

text \<open>The invariant of a loop that takes commits from \<open>new\<close>, skips the ones in \<open>seen\<close> and puts the
  successors of the others on the list.\<close>

definition work_inv :: "(oid \<Rightarrow> oid list) \<Rightarrow> oid set \<Rightarrow> oid list \<Rightarrow> oid list \<Rightarrow> bool" where
  "work_inv f S new seen \<longleftrightarrow> distinct seen \<and> set seen \<union> set new \<subseteq> (edges f)\<^sup>* `` S \<and>
     S \<subseteq> set seen \<union> set new \<and> (\<forall>c\<in>set seen. set (f c) \<subseteq> set seen \<union> set new)"

lemma work_start: "work_inv f (set new) new []"
  by (auto simp: work_inv_def)

lemma work_skip: "work_inv f S (c # rest) seen \<Longrightarrow> c \<in> set seen \<Longrightarrow> work_inv f S rest seen"
  by (auto simp: work_inv_def)

lemma work_visit:
  assumes "work_inv f S (c # rest) seen" "c \<notin> set seen" "set rest \<subseteq> set new'" "set new' \<subseteq> set rest \<union> set (f c)"
    "set (f c) \<subseteq> set new' \<union> set seen \<union> {c}"
  shows "work_inv f S new' (seen @ [c])"
proof -
  have "c \<in> (edges f)\<^sup>* `` S" using assms(1) by (simp add: work_inv_def)
  then obtain a where a: "a \<in> S" "(a, c) \<in> (edges f)\<^sup>*" by blast
  have "x \<in> (edges f)\<^sup>* `` S" if "x \<in> set (f c)" for x
    by (rule ImageI [OF rtrancl_into_rtrancl [OF a(2)] a(1)]) (use that in simp)
  then have "set (f c) \<subseteq> (edges f)\<^sup>* `` S" by blast
  then have "set new' \<subseteq> (edges f)\<^sup>* `` S" using assms(1,4) unfolding work_inv_def by auto
  moreover have "set seen \<union> {c} \<subseteq> (edges f)\<^sup>* `` S" "S \<subseteq> set seen \<union> {c} \<union> set rest"
    "\<forall>d\<in>set seen. set (f d) \<subseteq> set seen \<union> {c} \<union> set rest" "distinct seen"
    using assms(1) unfolding work_inv_def by auto
  ultimately show ?thesis
    unfolding work_inv_def using assms(2,3,5)
    by (intro conjI) (simp, simp, simp, blast, simp, blast)
qed

lemma work_done:
  assumes "work_inv f S [] seen"
  shows "set seen = (edges f)\<^sup>* `` S"
proof -
  have "closed_under f (set seen)" "S \<subseteq> set seen" using assms by (auto simp: work_inv_def closed_under_def)
  then have "(edges f)\<^sup>* `` S \<subseteq> set seen" using closed_reach by fastforce
  then show ?thesis using assms by (auto simp: work_inv_def)
qed

text \<open>Visiting a commit leaves fewer to visit.\<close>

lemma unseen_less:
  "finite U \<Longrightarrow> c \<in> U \<Longrightarrow> c \<notin> set seen \<Longrightarrow> card (U - set (seen @ [c])) < card (U - set seen)"
  by (rule psubset_card_mono) auto

lemma work_in:
  assumes "closed_under f U" "S \<subseteq> U" "work_inv f S new seen"
  shows "set new \<subseteq> U"
  using assms closed_reach [OF assms(1)] unfolding work_inv_def by blast

lemma display_loop_step:
  "display_loop m f [] seen = Some seen"
  "c \<in> set seen \<Longrightarrow> display_loop m f (c # rest) seen = display_loop m f rest seen"
  "c \<notin> set seen \<Longrightarrow> m \<noteq> None \<and> length (seen @ [c]) \<ge> the m \<Longrightarrow> display_loop m f (c # rest) seen = Some (seen @ [c])"
  "c \<notin> set seen \<Longrightarrow> \<not> (m \<noteq> None \<and> length (seen @ [c]) \<ge> the m) \<Longrightarrow>
     display_loop m f (c # rest) seen = display_loop m f (rest @ f c) (seen @ [c])"
  by (auto simp: display_loop.simps [of m f "[]"] display_loop.simps [of m f "c # rest"])

lemma display_loop_correct:
  assumes "finite U" "closed_under f U" "S \<subseteq> U" "work_inv f S new seen" "m \<noteq> None \<longrightarrow> length seen < max 1 (the m)"
  shows "\<exists>cs. display_loop m f new seen = Some cs \<and> distinct cs \<and> set cs \<subseteq> (edges f)\<^sup>* `` S \<and>
    (m \<noteq> None \<longrightarrow> length cs \<le> max 1 (the m)) \<and>
    (m = None \<or> length cs < the m \<longrightarrow> set cs = (edges f)\<^sup>* `` S)"
  using assms(4,5)
proof (induction "(card (U - set seen), length new)" arbitrary: new seen
    rule: wf_induct_rule [OF wf_lex_prod [OF wf_less wf_less]])
  case (1 new seen)
  show ?case
  proof (cases new)
    case Nil
    have "set seen = (edges f)\<^sup>* `` S" using work_done [of f S seen] "1.prems"(1) Nil by simp
    moreover have "distinct seen" using "1.prems"(1) by (simp add: work_inv_def)
    ultimately show ?thesis using "1.prems"(2) by (auto simp: Nil display_loop_step(1))
  next
    case (Cons c rest)
    show ?thesis
    proof (cases "c \<in> set seen")
      case True
      have "work_inv f S rest seen" using work_skip "1.prems"(1) True by (simp add: Cons)
      from "1.hyps" [OF _ this "1.prems"(2)] Cons show ?thesis by (simp add: display_loop_step(2) [OF True])
    next
      case False
      have cU: "c \<in> U" using work_in [OF assms(2,3) "1.prems"(1)] Cons by simp
      have w: "work_inv f S (rest @ f c) (seen @ [c])"
        using work_visit [of f S c rest seen "rest @ f c"] "1.prems"(1) False by (auto simp: Cons)
      show ?thesis
      proof (cases "m \<noteq> None \<and> length (seen @ [c]) \<ge> the m")
        case True
        then have "display_loop m f new seen = Some (seen @ [c])"
          unfolding Cons by (rule display_loop_step(3) [OF False])
        moreover have "distinct (seen @ [c])" "set (seen @ [c]) \<subseteq> (edges f)\<^sup>* `` S" using w by (auto simp: work_inv_def)
        ultimately show ?thesis using True "1.prems"(2) by auto
      next
        case more: False
        have "display_loop m f new seen = display_loop m f (rest @ f c) (seen @ [c])"
          unfolding Cons by (rule display_loop_step(4) [OF False more])
        moreover have "m \<noteq> None \<longrightarrow> length (seen @ [c]) < max 1 (the m)" using more by auto
        ultimately show ?thesis
          using "1.hyps" [OF _ w] unseen_less [OF assms(1) cU False] by simp
      qed
    qed
  qed
qed

text \<open>C23: \<open>commitsToDisplayForBranch\<close> returns on every finite history. It lists distinct commits that can
  be reached from the head, all of them unless the limit has been reached, and a limit is kept (a
  limit of zero lists the head).\<close>

theorem commitsToDisplay_correct:
  assumes "finite U" "closed_under (parents_of s) U" "br_head (get_branch s b) = Some h" "h \<in> U"
  shows "\<exists>cs. commitsToDisplayForBranch b m s = Some cs \<and> distinct cs \<and>
    set cs \<subseteq> (edges (parents_of s))\<^sup>* `` {h} \<and> (m \<noteq> None \<longrightarrow> length cs \<le> max 1 (the m)) \<and>
    (m = None \<or> length cs < the m \<longrightarrow> set cs = (edges (parents_of s))\<^sup>* `` {h})"
proof -
  have w: "work_inv (parents_of s) {h} [h] []" using work_start [of "parents_of s" "[h]"] by simp
  show ?thesis
    unfolding commitsToDisplayForBranch_def assms(3) option.case
    by (rule display_loop_correct [OF assms(1,2) _ w]) (use assms(4) in auto)
qed

definition demo_branches :: "unit mgr" where
  "demo_branches = demo_history\<lparr>branches := empty_tbl\<lparr>rows := [9 \<mapsto> default_branch\<lparr>br_head := Some 2\<rparr>]\<rparr>\<rparr>"

lemma demo_branches_parents: "parents_of demo_branches = parents_of demo_history"
proof -
  have "get_commit_data demo_branches = get_commit_data demo_history" "get_commit demo_branches = get_commit demo_history"
    by (simp_all add: get_commit_def get_commit_data_def demo_branches_def fun_eq_iff)
  then show ?thesis by (intro ext) (simp only: parents_of_def commit_data_def)
qed

theorem commitsToDisplay_correct_witness:
  "\<exists>cs. commitsToDisplayForBranch 9 None demo_branches = Some cs \<and> set cs = (edges (parents_of demo_history))\<^sup>* `` {2}"
proof -
  have "closed_under (parents_of demo_history) {0, 1, 2}" by (auto simp: closed_under_def demo_parents)
  moreover have "br_head (get_branch demo_branches 9) = Some 2" by (simp add: demo_branches_def get_branch_def)
  ultimately show ?thesis
    using commitsToDisplay_correct [of "{0, 1, 2}" demo_branches 9 2 None] by (auto simp: demo_branches_parents)
qed

section \<open>Commits that may have tests\<close>

definition possible_succs :: "'m mgr \<Rightarrow> oid \<Rightarrow> oid list" where
  "possible_succs s c = (if commitMightHaveTests s c then parents_of s c else [])"

lemma possible_loop_correct:
  assumes "finite U" "closed_under (possible_succs s) U" "S \<subseteq> U" "work_inv (possible_succs s) S new seen"
  shows "\<exists>cs. possible_loop s new seen = Some cs \<and> distinct cs \<and> set cs = (edges (possible_succs s))\<^sup>* `` S"
  using assms(4)
proof (induction "(card (U - set seen), length new)" arbitrary: new seen
    rule: wf_induct_rule [OF wf_lex_prod [OF wf_less wf_less]])
  case (1 new seen)
  show ?case
  proof (cases new)
    case Nil
    have "set seen = (edges (possible_succs s))\<^sup>* `` S" using work_done [of _ S seen] "1.prems"(1) Nil by simp
    moreover have "distinct seen" using "1.prems"(1) by (simp add: work_inv_def)
    ultimately show ?thesis by (simp add: Nil possible_loop.simps [of s "[]"])
  next
    case (Cons c rest)
    show ?thesis
    proof (cases "c \<in> set seen")
      case True
      have "work_inv (possible_succs s) S rest seen" using work_skip "1.prems"(1) True by (simp add: Cons)
      from "1.hyps" [OF _ this] Cons True show ?thesis by (simp add: possible_loop.simps [of s "c # rest"])
    next
      case False
      define new' where "new' = (if commitMightHaveTests s c then
        rest @ filter (\<lambda>p. p \<notin> set rest) (remdups (filter (\<lambda>p. p \<notin> set (seen @ [c])) (parents_of s c))) else rest)"
      have cU: "c \<in> U" using work_in [OF assms(2,3) "1.prems"(1)] Cons by simp
      have w: "work_inv (possible_succs s) S new' (seen @ [c])"
        by (rule work_visit [of _ S c rest])
          (use "1.prems"(1) False Cons in \<open>auto simp: new'_def possible_succs_def\<close>)
      have "possible_loop s new seen = possible_loop s new' (seen @ [c])"
        using Cons False by (simp add: new'_def possible_loop.simps [of s "c # rest"])
      then show ?thesis using "1.hyps" [OF _ w] unseen_less [OF assms(1) cU False] by simp
    qed
  qed
qed



end
