(* ===== verification/Object_Database.thy ===== *)
theory Object_Database
  imports Prelude
begin

text \<open>
  The versioned key/value layer of \<^verbatim>\<open>test_looper/core/object_database.py\<close> (class
  \<open>Database\<close>) over the JSON store of \<^verbatim>\<open>test_looper/core/InMemoryJsonStore.py\<close>.

  Readers open a view at a transaction number and must go on seeing the store as it was at
  that number, while writers commit. The state of \<open>Database\<close> is the record \<open>database\<close>; its
  dicts are maps, or association lists where the code iterates over them. Values stored in the
  JSON store have type \<open>'j\<close> (\<open>None\<close> is an absent key); parsed objects have type \<open>'o\<close>. The
  abstract specification is a \<^emph>\<open>history\<close> \<open>h\<close>: \<open>h t\<close> is the contents of the store after
  the \<open>t\<close>-th commit. \<open>mvcc_inv\<close> relates the two and \<open>read_is_snapshot\<close> shows that a read at
  any supported transaction number returns the snapshot.
\<close>

section \<open>The JSON store\<close>

type_synonym 'j store = "string \<rightharpoonup> 'j"

definition store_get :: "'j store \<Rightarrow> string \<Rightarrow> 'j option" where
  "store_get vals k = (if vals k = None then None else vals k)"

definition store_set :: "string \<Rightarrow> 'j option \<Rightarrow> 'j store \<Rightarrow> 'j store" where
  "store_set k v vals =
     (case v of
        None \<Rightarrow> (if vals k \<noteq> None then vals(k := None) else vals)
      | Some j \<Rightarrow> vals(k \<mapsto> j))"

definition store_set_several :: "(string \<times> 'j option) list \<Rightarrow> 'j store \<Rightarrow> 'j store" where
  "store_set_several kvs vals = fold (\<lambda>(k, v). store_set k v) kvs vals"

definition store_exists :: "'j store \<Rightarrow> string \<Rightarrow> bool" where
  "store_exists vals k \<longleftrightarrow> vals k \<noteq> None"

definition store_delete :: "string \<Rightarrow> 'j store \<Rightarrow> 'j store" where
  "store_delete k vals = (if vals k \<noteq> None then vals(k := None) else vals)"

lemma store_get_eq [simp]: "store_get vals k = vals k"
  by (auto simp: store_get_def)

lemma store_set_eq: "store_set k v vals = vals(k := v)"
  by (auto simp: store_set_def split: option.splits)

lemma store_set_several_other:
  "k \<notin> set (map fst kvs) \<Longrightarrow> store_set_several kvs vals k = vals k"
  unfolding store_set_several_def
  by (induction kvs arbitrary: vals) (auto simp: store_set_eq)

lemma store_set_several_in:
  "distinct (map fst kvs) \<Longrightarrow> (k, v) \<in> set kvs \<Longrightarrow> store_set_several kvs vals k = v"
proof (induction kvs arbitrary: vals)
  case Nil
  then show ?case by simp
next
  case (Cons a kvs)
  show ?case
  proof (cases "a = (k, v)")
    case True
    with Cons.prems have "k \<notin> set (map fst kvs)" by auto
    with True show ?thesis
      using store_set_several_other [of k kvs "store_set k v vals"]
      by (simp add: store_set_several_def store_set_eq)
  next
    case False
    with Cons show ?thesis
      by (auto simp: store_set_several_def)
  qed
qed

section \<open>The database\<close>

text \<open>One entry of the version tables: the JSON value and, when it has been parsed, the object.\<close>

type_synonym ('j, 'o) entry = "'j option \<times> 'o option"

record ('j, 'o) database =
  kvstore :: "'j store"
  cur_transaction_num :: nat
  min_transaction_num :: nat
  version_number_counts :: "(nat \<times> nat) list"
  min_reffed_version_number :: "nat option"
  version_numbers :: "nat list"
  version_number_objects :: "nat \<rightharpoonup> string list"
  key_version_numbers :: "string \<rightharpoonup> nat list"
  key_and_version_to_object :: "(string \<times> nat) \<rightharpoonup> ('j, 'o) entry"
  tail_values :: "string \<rightharpoonup> ('j, 'o) entry"
  current_database_object_cache :: "string \<rightharpoonup> 'o"

definition new_database :: "'j store \<Rightarrow> ('j, 'o) database" where
  "new_database kv =
     \<lparr> kvstore = kv, cur_transaction_num = 0, min_transaction_num = 0,
       version_number_counts = [], min_reffed_version_number = None,
       version_numbers = [], version_number_objects = Map.empty,
       key_version_numbers = Map.empty, key_and_version_to_object = Map.empty,
       tail_values = Map.empty, current_database_object_cache = Map.empty \<rparr>"

subsection \<open>Reference counts of transaction numbers\<close>

definition incversion :: "nat \<Rightarrow> ('j, 'o) database \<Rightarrow> ('j, 'o) database" where
  "incversion tid db =
     (case map_of (version_number_counts db) tid of
        None \<Rightarrow> db\<lparr> version_number_counts := alist_set tid 1 (version_number_counts db),
                     min_reffed_version_number :=
                       (case min_reffed_version_number db of
                          None \<Rightarrow> Some tid
                        | Some m \<Rightarrow> Some (min tid m)) \<rparr>
      | Some n \<Rightarrow> db\<lparr> version_number_counts :=
                         alist_set tid (Suc n) (version_number_counts db) \<rparr>)"

definition decversion :: "nat \<Rightarrow> ('j, 'o) database \<Rightarrow> ('j, 'o) database res" where
  "decversion tid db =
     (case map_of (version_number_counts db) tid of
        None \<Rightarrow> Inl AssertionError
      | Some n \<Rightarrow>
          if n = 0 then Inl AssertionError
          else if n - 1 = 0 then
            (let counts = alist_del tid (version_number_counts db);
                 db = db\<lparr> version_number_counts := counts \<rparr>
             in if min_reffed_version_number db = Some tid then
                  Inr (db\<lparr> min_reffed_version_number :=
                            (if counts = [] then None else Some (Min (set (map fst counts)))) \<rparr>)
                else Inr db)
          else Inr (db\<lparr> version_number_counts :=
                          alist_set tid (n - 1) (version_number_counts db) \<rparr>))"

subsection \<open>Opening views and transactions\<close>

definition view_at :: "nat option \<Rightarrow> ('j, 'o) database \<Rightarrow> (nat \<times> ('j, 'o) database) res" where
  "view_at transaction_id db =
     (let tid = (case transaction_id of None \<Rightarrow> cur_transaction_num db | Some t \<Rightarrow> t)
      in bindR (assertR (tid \<le> cur_transaction_num db) AssertionError) (\<lambda>_.
         bindR (assertR (min_transaction_num db \<le> tid) AssertionError) (\<lambda>_.
         Inr (tid, incversion tid db))))"

definition transaction :: "('j, 'o) database \<Rightarrow> nat \<times> ('j, 'o) database" where
  "transaction db = (cur_transaction_num db, incversion (cur_transaction_num db) db)"

subsection \<open>Dropping the versions nobody can read\<close>

text \<open>In Python 2 \<open>None < n\<close> holds for every integer \<open>n\<close>.\<close>

definition py_none_lt :: "nat option \<Rightarrow> nat \<Rightarrow> bool" where
  "py_none_lt m n = (case m of None \<Rightarrow> True | Some k \<Rightarrow> k < n)"

definition cleanup_key :: "nat \<Rightarrow> string \<Rightarrow> ('j, 'o) database \<Rightarrow> ('j, 'o) database res" where
  "cleanup_key lowest key db =
     bindR (lookupR (key_version_numbers db) key) (\<lambda>vs.
     bindR (nthR vs 0) (\<lambda>v0.
     bindR (assertR (v0 = lowest) AssertionError) (\<lambda>_.
     bindR (lookupR (key_and_version_to_object db) (key, lowest)) (\<lambda>old.
     if length vs = 1 then
       bindR (lookupR (tail_values db) key) (\<lambda>_.
         Inr (db\<lparr> key_version_numbers := (key_version_numbers db)(key := None),
                   key_and_version_to_object :=
                     (key_and_version_to_object db)((key, lowest) := None),
                   tail_values := (tail_values db)(key := None) \<rparr>))
     else
       Inr (db\<lparr> key_version_numbers := (key_version_numbers db)(key \<mapsto> tl vs),
                 tail_values := (tail_values db)(key \<mapsto> old),
                 key_and_version_to_object :=
                   (key_and_version_to_object db)((key, lowest) := None) \<rparr>)))))"

definition cleanup_lowest :: "nat \<Rightarrow> nat list \<Rightarrow> ('j, 'o) database \<Rightarrow> ('j, 'o) database res" where
  "cleanup_lowest lowest rest db =
     (let db = db\<lparr> version_numbers := rest \<rparr>
      in bindR (lookupR (version_number_objects db) lowest) (\<lambda>keys_touched.
         let db = db\<lparr> version_number_objects := (version_number_objects db)(lowest := None) \<rparr>
         in if rest = [] then
              Inr (db\<lparr> min_transaction_num := cur_transaction_num db,
                        key_version_numbers := Map.empty, tail_values := Map.empty \<rparr>)
            else foldR (cleanup_key lowest) keys_touched (db\<lparr> min_transaction_num := lowest \<rparr>)))"

fun cleanup_from :: "nat list \<Rightarrow> ('j, 'o) database \<Rightarrow> ('j, 'o) database res" where
  "cleanup_from [] db = Inr db"
| "cleanup_from (lowest # rest) db =
     (if py_none_lt (min_reffed_version_number db) lowest then Inr db
      else bindR (cleanup_lowest lowest rest db) (cleanup_from rest))"

definition cleanup :: "('j, 'o) database \<Rightarrow> ('j, 'o) database res" where
  "cleanup db = cleanup_from (version_numbers db) db"

definition release_view :: "nat \<Rightarrow> ('j, 'o) database \<Rightarrow> ('j, 'o) database res" where
  "release_view tid db = bindR (decversion tid db) cleanup"

subsection \<open>Reading and writing\<close>

fun best_version_from :: "nat \<Rightarrow> nat list \<Rightarrow> nat option" where
  "best_version_from tid [] = None"
| "best_version_from tid (v # vs) = (if v \<le> tid then Some v else best_version_from tid vs)"

definition best_version_for :: "nat \<Rightarrow> nat list \<Rightarrow> nat option" where
  "best_version_for tid transactions = best_version_from tid (rev transactions)"

definition get_versioned_object_data ::
  "string \<Rightarrow> nat \<Rightarrow> ('j, 'o) database \<Rightarrow> ('j, 'o) entry res" where
  "get_versioned_object_data key tid db =
     bindR (assertR (min_transaction_num db \<le> tid) AssertionError) (\<lambda>_.
     case key_version_numbers db key of
       None \<Rightarrow>
         (case tail_values db key of
            Some e \<Rightarrow> Inr e
          | None \<Rightarrow> Inr (store_get (kvstore db) key, current_database_object_cache db key))
     | Some vs \<Rightarrow>
         (case best_version_for tid vs of
            Some v \<Rightarrow> lookupR (key_and_version_to_object db) (key, v)
          | None \<Rightarrow> lookupR (tail_values db) key))"

definition update_versioned_object_data_cache ::
  "string \<Rightarrow> nat \<Rightarrow> 'o \<Rightarrow> ('j, 'o) database \<Rightarrow> ('j, 'o) database res" where
  "update_versioned_object_data_cache key tid parsed db =
     (case key_version_numbers db key of
        None \<Rightarrow>
          (case tail_values db key of
             Some e \<Rightarrow> Inr (db\<lparr> tail_values := (tail_values db)(key \<mapsto> (fst e, Some parsed)) \<rparr>)
           | None \<Rightarrow> Inr (db\<lparr> current_database_object_cache :=
                                (current_database_object_cache db)(key \<mapsto> parsed) \<rparr>))
      | Some vs \<Rightarrow>
          (case best_version_for tid vs of
             Some v \<Rightarrow>
               bindR (lookupR (key_and_version_to_object db) (key, v)) (\<lambda>e.
                 Inr (db\<lparr> key_and_version_to_object :=
                           (key_and_version_to_object db)((key, v) \<mapsto> (fst e, Some parsed)) \<rparr>))
           | None \<Rightarrow>
               bindR (lookupR (tail_values db) key) (\<lambda>e.
                 Inr (db\<lparr> tail_values := (tail_values db)(key \<mapsto> (fst e, Some parsed)) \<rparr>))))"

definition keep_tail :: "string \<Rightarrow> ('j, 'o) database \<Rightarrow> ('j, 'o) database" where
  "keep_tail key db =
     (if key_version_numbers db key = None then
        db\<lparr> tail_values := (tail_values db)
              (key \<mapsto> (store_get (kvstore db) key, current_database_object_cache db key)) \<rparr>
      else db)"

definition cache_written :: "string \<times> ('j, 'o) entry \<Rightarrow> (string \<rightharpoonup> 'o) \<Rightarrow> (string \<rightharpoonup> 'o)" where
  "cache_written kv cache =
     (case snd (snd kv) of
        None \<Rightarrow> (if cache (fst kv) \<noteq> None then cache(fst kv := None) else cache)
      | Some p \<Rightarrow> cache(fst kv \<mapsto> p))"

definition record_version ::
  "nat \<Rightarrow> string \<times> ('j, 'o) entry \<Rightarrow> ('j, 'o) database \<Rightarrow> ('j, 'o) database" where
  "record_version tid kv db =
     db\<lparr> key_version_numbers := (key_version_numbers db)
           (fst kv \<mapsto> (case key_version_numbers db (fst kv) of None \<Rightarrow> [] | Some vs \<Rightarrow> vs) @ [tid]),
         key_and_version_to_object := (key_and_version_to_object db)
           ((fst kv, tid) \<mapsto> snd kv) \<rparr>"

definition set_versioned_object_data ::
  "(string \<times> ('j, 'o) entry) list \<Rightarrow> nat \<Rightarrow> ('j, 'o) database \<Rightarrow> ('j, 'o) database res" where
  "set_versioned_object_data key_value transaction_id db =
     (if transaction_id \<noteq> cur_transaction_num db then Inl (UserException ''RevisionConflict'')
      else
        let db = db\<lparr> cur_transaction_num := cur_transaction_num db + 1 \<rparr>;
            tid = transaction_id + 1;
            db = fold (\<lambda>kv. keep_tail (fst kv)) key_value db;
            db = db\<lparr> kvstore := store_set_several (map (\<lambda>(k, e). (k, fst e)) key_value)
                                   (kvstore db),
                     current_database_object_cache :=
                       fold cache_written key_value (current_database_object_cache db),
                     version_number_objects :=
                       (version_number_objects db)(tid \<mapsto> map fst key_value),
                     version_numbers := version_numbers db @ [tid] \<rparr>
        in Inr (fold (record_version tid) key_value db))"

definition clear_cache :: "('j, 'o) database \<Rightarrow> ('j, 'o) database" where
  "clear_cache db = db\<lparr> current_database_object_cache := Map.empty \<rparr>"

section \<open>Auxiliary facts\<close>

lemma best_version_from_None: "best_version_from t vs = None \<longleftrightarrow> (\<forall>v\<in>set vs. t < v)"
  by (induction vs) auto

lemma best_version_from_Some:
  "best_version_from t vs = Some v \<Longrightarrow> sorted_wrt (>) vs \<Longrightarrow>
   v \<in> set vs \<and> v \<le> t \<and> (\<forall>w\<in>set vs. w \<le> t \<longrightarrow> w \<le> v)"
  by (induction vs) (fastforce split: if_splits)+

lemma best_version_for_None: "best_version_for t vs = None \<longleftrightarrow> (\<forall>v\<in>set vs. t < v)"
  by (simp add: best_version_for_def best_version_from_None)

lemma best_version_for_Some:
  assumes "best_version_for t vs = Some v" "sorted_wrt (<) vs"
  shows "v \<in> set vs" "v \<le> t" "\<And>w. w \<in> set vs \<Longrightarrow> w \<le> t \<Longrightarrow> w \<le> v"
proof -
  have "sorted_wrt (>) (rev vs)"
    using assms(2) by (simp add: sorted_wrt_rev)
  with assms(1) show "v \<in> set vs" "v \<le> t" "\<And>w. w \<in> set vs \<Longrightarrow> w \<le> t \<Longrightarrow> w \<le> v"
    unfolding best_version_for_def
    by (auto dest!: best_version_from_Some)
qed

lemma history_constant:
  fixes h :: "nat \<Rightarrow> 'k \<Rightarrow> 'v"
  assumes "a \<le> b" "\<And>v. a < v \<Longrightarrow> v \<le> b \<Longrightarrow> h v k = h (v - 1) k"
  shows "h b k = h a k"
  using assms
proof (induction b)
  case 0
  then show ?case by simp
next
  case (Suc b)
  show ?case
  proof (cases "a = Suc b")
    case False
    with Suc.prems have "h (Suc b) k = h b k" by force
    with Suc False show ?thesis by force
  qed simp
qed

section \<open>The history and the invariant\<close>

type_synonym 'j history = "nat \<Rightarrow> 'j store"

definition touched :: "('j, 'o) database \<Rightarrow> string \<Rightarrow> nat \<Rightarrow> bool" where
  "touched db k v \<longleftrightarrow> (\<exists>ks. version_number_objects db v = Some ks \<and> k \<in> set ks)"

definition live_versions :: "('j, 'o) database \<Rightarrow> string \<Rightarrow> nat list" where
  "live_versions db k = filter (touched db k) (version_numbers db)"

text \<open>The tables describe the history: what each outstanding version wrote, and the value each
  versioned key had before its oldest outstanding version.\<close>

definition tables_ok :: "'j history \<Rightarrow> ('j, 'o) database \<Rightarrow> bool" where
  "tables_ok h db \<longleftrightarrow>
     kvstore db = h (cur_transaction_num db) \<and>
     min_transaction_num db \<le> cur_transaction_num db \<and>
     version_numbers db = [Suc (min_transaction_num db)..<Suc (cur_transaction_num db)] \<and>
     (\<forall>k. key_version_numbers db k =
            (if live_versions db k = [] then None else Some (live_versions db k))) \<and>
     (\<forall>v\<in>set (version_numbers db). \<exists>ks. version_number_objects db v = Some ks \<and> distinct ks) \<and>
     (\<forall>v\<in>set (version_numbers db). \<forall>k.
        (touched db k v \<longrightarrow> (\<exists>p. key_and_version_to_object db (k, v) = Some (h v k, p))) \<and>
        (\<not> touched db k v \<longrightarrow> h v k = h (v - 1) k)) \<and>
     (\<forall>k. if live_versions db k = [] then tail_values db k = None
          else \<exists>p. tail_values db k = Some (h (min_transaction_num db) k, p))"

text \<open>The reference counts describe the open views.\<close>

definition counts_ok :: "('j, 'o) database \<Rightarrow> bool" where
  "counts_ok db \<longleftrightarrow>
     distinct (map fst (version_number_counts db)) \<and>
     (\<forall>t n. map_of (version_number_counts db) t = Some n \<longrightarrow>
        0 < n \<and> min_transaction_num db \<le> t \<and> t \<le> cur_transaction_num db) \<and>
     min_reffed_version_number db =
       (if version_number_counts db = [] then None
        else Some (Min (set (map fst (version_number_counts db)))))"

definition mvcc_inv :: "'j history \<Rightarrow> ('j, 'o) database \<Rightarrow> bool" where
  "mvcc_inv h db \<longleftrightarrow> tables_ok h db \<and> counts_ok db"

lemma tables_okD:
  assumes "tables_ok h db"
  shows "kvstore db = h (cur_transaction_num db)"
    "min_transaction_num db \<le> cur_transaction_num db"
    "version_numbers db = [Suc (min_transaction_num db)..<Suc (cur_transaction_num db)]"
    "key_version_numbers db k =
       (if live_versions db k = [] then None else Some (live_versions db k))"
    "v \<in> set (version_numbers db) \<Longrightarrow>
       \<exists>ks. version_number_objects db v = Some ks \<and> distinct ks"
    "v \<in> set (version_numbers db) \<Longrightarrow> touched db k v \<Longrightarrow>
       \<exists>p. key_and_version_to_object db (k, v) = Some (h v k, p)"
    "v \<in> set (version_numbers db) \<Longrightarrow> \<not> touched db k v \<Longrightarrow> h v k = h (v - 1) k"
    "live_versions db k = [] \<Longrightarrow> tail_values db k = None"
    "live_versions db k \<noteq> [] \<Longrightarrow>
       \<exists>p. tail_values db k = Some (h (min_transaction_num db) k, p)"
  using assms unfolding tables_ok_def by (blast | metis)+

lemma tables_okI:
  assumes "kvstore db = h (cur_transaction_num db)"
    "min_transaction_num db \<le> cur_transaction_num db"
    "version_numbers db = [Suc (min_transaction_num db)..<Suc (cur_transaction_num db)]"
    "\<And>k. key_version_numbers db k =
       (if live_versions db k = [] then None else Some (live_versions db k))"
    "\<And>v. v \<in> set (version_numbers db) \<Longrightarrow>
       \<exists>ks. version_number_objects db v = Some ks \<and> distinct ks"
    "\<And>v k. v \<in> set (version_numbers db) \<Longrightarrow> touched db k v \<Longrightarrow>
       \<exists>p. key_and_version_to_object db (k, v) = Some (h v k, p)"
    "\<And>v k. v \<in> set (version_numbers db) \<Longrightarrow> \<not> touched db k v \<Longrightarrow> h v k = h (v - 1) k"
    "\<And>k. if live_versions db k = [] then tail_values db k = None
         else \<exists>p. tail_values db k = Some (h (min_transaction_num db) k, p)"
  shows "tables_ok h db"
  using assms unfolding tables_ok_def by (intro conjI ballI allI impI) assumption+

lemma mvcc_inv_init: "mvcc_inv (\<lambda>_. kv) (new_database kv)"
  by (simp add: mvcc_inv_def tables_ok_def counts_ok_def new_database_def live_versions_def)

section \<open>Reads return snapshots\<close>

lemma sorted_live_versions: "tables_ok h db \<Longrightarrow> sorted_wrt (<) (live_versions db k)"
  unfolding live_versions_def by (simp add: tables_okD(3) sorted_wrt_filter del: upt_Suc)

lemma untouched_between:
  assumes "tables_ok h db" "a \<le> t" "min_transaction_num db \<le> a" "t \<le> cur_transaction_num db"
    and "\<And>v. v \<in> set (live_versions db k) \<Longrightarrow> v \<le> a \<or> t < v"
  shows "h t k = h a k"
proof (rule history_constant [OF assms(2)])
  fix v
  assume v: "a < v" "v \<le> t"
  with assms(3,4) have mem: "v \<in> set (version_numbers db)"
    by (simp add: tables_okD(3) [OF assms(1)] del: upt_Suc)
  have "\<not> touched db k v"
  proof
    assume "touched db k v"
    with mem have "v \<in> set (live_versions db k)" by (simp add: live_versions_def)
    from assms(5) [OF this] v show False by auto
  qed
  with tables_okD(7) [OF assms(1) mem] show "h v k = h (v - 1) k" by simp
qed

lemma read_tables:
  assumes inv: "tables_ok h db"
    and t: "min_transaction_num db \<le> t" "t \<le> cur_transaction_num db"
  shows "\<exists>p. get_versioned_object_data k t db = Inr (h t k, p)"
proof (cases "live_versions db k = []")
  case True
  have "h (cur_transaction_num db) k = h t k"
    by (rule untouched_between [OF inv t(2) t(1)]) (simp_all add: True)
  with True t(1) show ?thesis
    by (simp add: get_versioned_object_data_def assertR_def tables_okD(1,4,8) [OF inv])
next
  case False
  note kvn = tables_okD(4) [OF inv, of k]
  show ?thesis
  proof (cases "best_version_for t (live_versions db k)")
    case None
    have "h t k = h (min_transaction_num db) k"
      by (rule untouched_between [OF inv t(1) _ t(2)])
        (use None in \<open>auto simp: best_version_for_None\<close>)
    with None False t(1) kvn tables_okD(9) [OF inv False] show ?thesis
      by (auto simp: get_versioned_object_data_def assertR_def lookupR_def)
  next
    case (Some v)
    note best = best_version_for_Some [OF Some sorted_live_versions [OF inv]]
    from best(1) have v: "v \<in> set (version_numbers db)" "touched db k v"
      by (auto simp: live_versions_def)
    have "h t k = h v k"
      by (rule untouched_between [OF inv best(2) _ t(2)])
        (use v best(3) in \<open>auto simp: tables_okD(3) [OF inv] not_le simp del: upt_Suc\<close>)
    with Some False t(1) kvn tables_okD(6) [OF inv v] show ?thesis
      by (auto simp: get_versioned_object_data_def assertR_def lookupR_def)
  qed
qed

section \<open>Opening and closing views keeps the invariant\<close>

lemma tables_ok_counts [simp]:
  "tables_ok h (db\<lparr>version_number_counts := c\<rparr>) = tables_ok h db"
  "tables_ok h (db\<lparr>min_reffed_version_number := m\<rparr>) = tables_ok h db"
  by (simp_all add: tables_ok_def live_versions_def touched_def cong: filter_cong)

lemma counts_ok_empty_iff: "version_number_counts db = [] \<longleftrightarrow> map_of (version_number_counts db) = Map.empty"
  by (cases "version_number_counts db") auto

lemma keys_nonempty: "map_of d t = Some n \<Longrightarrow> d \<noteq> []"
  by auto

lemma key_mem: "map_of d t = Some n \<Longrightarrow> t \<in> set (map fst d)"
  by (force dest: map_of_SomeD)

lemma incversion_inv:
  assumes "mvcc_inv h db" "min_transaction_num db \<le> t" "t \<le> cur_transaction_num db"
  shows "mvcc_inv h (incversion t db)"
proof (cases "map_of (version_number_counts db) t")
  case None
  let ?S = "set (map fst (version_number_counts db))"
  have "version_number_counts db \<noteq> [] \<Longrightarrow> Min (insert t ?S) = min t (Min ?S)"
    by (rule Min_insert) auto
  with None assms show ?thesis
    unfolding mvcc_inv_def counts_ok_def incversion_def
    by (auto simp: distinct_alist_set keys_alist_set simp del: set_map split: option.splits if_splits)
next
  case (Some n)
  from key_mem [OF Some] have "insert t (set (map fst (version_number_counts db)))
      = set (map fst (version_number_counts db))" by blast
  with Some assms show ?thesis
    unfolding mvcc_inv_def counts_ok_def incversion_def
    by (auto simp: distinct_alist_set keys_alist_set keys_nonempty simp del: set_map
        split: if_splits)
qed

lemma view_at_inv:
  "mvcc_inv h db \<Longrightarrow> view_at t db = Inr (tid, db') \<Longrightarrow> mvcc_inv h db'"
  unfolding view_at_def Let_def
  by (auto simp: bindR_Inr_conv intro!: incversion_inv)

lemma transaction_inv: "mvcc_inv h db \<Longrightarrow> mvcc_inv h (snd (transaction db))"
  using incversion_inv [of h db "cur_transaction_num db"] tables_okD(2) [of h db]
  by (simp add: transaction_def mvcc_inv_def)

lemma Min_remove_other:
  "finite S \<Longrightarrow> t \<noteq> Min S \<Longrightarrow> S - {t} \<noteq> {} \<Longrightarrow> Min (S - {t}) = Min (S :: nat set)"
  by (rule Min_eqI) (auto intro: Min_in [of S])

lemma decversion_inv:
  assumes inv: "mvcc_inv h db" and t: "map_of (version_number_counts db) t = Some n"
  shows "\<exists>db'. decversion t db = Inr db' \<and> mvcc_inv h db'"
proof -
  let ?c = "version_number_counts db"
  let ?S = "set (map fst ?c)"
  from inv have c: "counts_ok db" and tb: "tables_ok h db" by (auto simp: mvcc_inv_def)
  from c t have n: "0 < n" and ne: "?c \<noteq> []" and m: "min_reffed_version_number db = Some (Min ?S)"
    by (auto simp: counts_ok_def simp del: set_map)
  have tS: "t \<in> ?S" using t by (rule key_mem)
  show ?thesis
  proof (cases "n = 1")
    case True
    have empty: "alist_del t ?c = [] \<longleftrightarrow> ?S - {t} = {}"
      by (metis keys_alist_del set_empty map_is_Nil_conv)
    have single: "?S - {t} = {} \<Longrightarrow> Min ?S = t"
      using tS by (metis Diff_eq_empty_iff Min_singleton insert_absorb singleton_insert_inj_eq)
    have Min: "t \<noteq> Min ?S \<Longrightarrow> ?S - {t} \<noteq> {} \<and> Min (?S - {t}) = Min ?S"
      using tS by (metis Min_in Min_remove_other insert_Diff List.finite_set
          insert_not_empty singletonD insert_iff)
    show ?thesis
      using c tb t True n ne m
      unfolding decversion_def mvcc_inv_def counts_ok_def
      by (auto simp: Let_def distinct_alist_del keys_alist_del empty Min single simp del: set_map
          split: if_splits)
  next
    case False
    with n have "\<not> n \<le> Suc 0" by simp
    with False n tS c tb t show ?thesis
      unfolding decversion_def mvcc_inv_def counts_ok_def
      by (auto simp: Let_def distinct_alist_set keys_alist_set insert_absorb simp del: set_map
          split: if_splits)
  qed
qed

section \<open>Cleaning up keeps the invariant\<close>

text \<open>The effect of \<open>cleanup_key\<close> on a set of keys at once.\<close>

definition cleaned :: "nat \<Rightarrow> string set \<Rightarrow> ('j, 'o) database \<Rightarrow> ('j, 'o) database" where
  "cleaned lowest D db =
     db\<lparr> key_version_numbers := (\<lambda>k. if k \<in> D then
            (case key_version_numbers db k of Some (v # w # vs) \<Rightarrow> Some (w # vs) | _ \<Rightarrow> None)
            else key_version_numbers db k),
         key_and_version_to_object := (\<lambda>(k, v). if k \<in> D \<and> v = lowest then None
            else key_and_version_to_object db (k, v)),
         tail_values := (\<lambda>k. if k \<in> D then
            (case key_version_numbers db k of
               Some (v # w # vs) \<Rightarrow> key_and_version_to_object db (k, lowest) | _ \<Rightarrow> None)
            else tail_values db k) \<rparr>"

definition cleanable :: "nat \<Rightarrow> ('j, 'o) database \<Rightarrow> string \<Rightarrow> bool" where
  "cleanable lowest db k \<longleftrightarrow>
     (\<exists>vs. key_version_numbers db k = Some (lowest # vs)) \<and>
     key_and_version_to_object db (k, lowest) \<noteq> None \<and> tail_values db k \<noteq> None"

lemma cleanup_key_eq:
  assumes "cleanable lowest db k"
  shows "cleanup_key lowest k db = Inr (cleaned lowest {k} db)"
proof -
  from assms obtain vs e t where k: "key_version_numbers db k = Some (lowest # vs)"
    "key_and_version_to_object db (k, lowest) = Some e" "tail_values db k = Some t"
    by (auto simp: cleanable_def)
  show ?thesis
    by (cases vs; rule sum.expand)
      (auto simp: cleanup_key_def cleaned_def k lookupR_def nthR_def assertR_def fun_eq_iff
        intro!: database.equality)
qed

lemma cleaned_cleaned:
  "k \<notin> D \<Longrightarrow> cleaned lowest D (cleaned lowest {k} db) = cleaned lowest (insert k D) db"
  by (rule database.equality)
    (auto simp: cleaned_def fun_eq_iff split: option.splits list.splits)

lemma cleanable_cleaned:
  "cleanable lowest db k' \<Longrightarrow> k' \<noteq> k \<Longrightarrow> cleanable lowest (cleaned lowest {k} db) k'"
  by (auto simp: cleanable_def cleaned_def)

lemma cleanup_keys:
  "distinct ks \<Longrightarrow> (\<And>k. k \<in> set ks \<Longrightarrow> cleanable lowest db k) \<Longrightarrow>
   foldR (cleanup_key lowest) ks db = Inr (cleaned lowest (set ks) db)"
proof (induction ks arbitrary: db)
  case Nil
  have "cleaned lowest {} db = db"
    by (rule database.equality) (auto simp: cleaned_def)
  then show ?case by simp
next
  case (Cons k ks)
  have "foldR (cleanup_key lowest) ks (cleaned lowest {k} db)
      = Inr (cleaned lowest (set ks) (cleaned lowest {k} db))"
  proof (rule Cons.IH)
    fix k' assume "k' \<in> set ks"
    with Cons.prems show "cleanable lowest (cleaned lowest {k} db) k'"
      by (intro cleanable_cleaned) auto
  qed (use Cons.prems in simp)
  with Cons.prems show ?case
    by (simp add: cleanup_key_eq cleaned_cleaned)
qed

lemma versions_ConsD:
  assumes "tables_ok h db" "version_numbers db = lowest # rest"
  shows "lowest = Suc (min_transaction_num db)" "rest = [Suc lowest..<Suc (cur_transaction_num db)]"
    "lowest \<le> cur_transaction_num db"
proof -
  have "[Suc (min_transaction_num db)..<Suc (cur_transaction_num db)] = lowest # rest"
    using tables_okD(3) [OF assms(1)] assms(2) by simp
  then show "lowest = Suc (min_transaction_num db)"
    "rest = [Suc lowest..<Suc (cur_transaction_num db)]" "lowest \<le> cur_transaction_num db"
    by (auto simp: upt_eq_Cons_conv simp del: upt_Suc)
qed

lemma live_versions_Cons:
  "version_numbers db = v # vs \<Longrightarrow>
   live_versions db k = (if touched db k v then v # filter (touched db k) vs
                         else filter (touched db k) vs)"
  by (simp add: live_versions_def)

text \<open>The state after \<open>lowest\<close>, the oldest outstanding version, is dropped while others
  remain.\<close>

lemma cleaned_tables:
  assumes inv: "tables_ok h db" and vn: "version_numbers db = lowest # rest" "rest \<noteq> []"
    and ks: "version_number_objects db lowest = Some ks"
    and db0: "db0 = db\<lparr> version_numbers := rest,
      version_number_objects := (version_number_objects db)(lowest := None),
      min_transaction_num := lowest \<rparr>"
  shows "tables_ok h (cleaned lowest (set ks) db0)"
proof -
  let ?db = "cleaned lowest (set ks) db0"
  note T = tables_okD [OF inv]
  note low = versions_ConsD(1) [OF inv vn(1)] and rest = versions_ConsD(2) [OF inv vn(1)]
    and lcur = versions_ConsD(3) [OF inv vn(1)]
  have touched_low: "touched db k lowest \<longleftrightarrow> k \<in> set ks" for k
    using ks by (simp add: touched_def)
  have touched': "touched ?db k v \<longleftrightarrow> touched db k v" if "v \<noteq> lowest" for k v
    using that by (simp add: touched_def cleaned_def db0)
  have live': "live_versions ?db k = filter (touched db k) rest" for k
    unfolding live_versions_def
    by (auto simp: cleaned_def db0 touched_def rest intro!: filter_cong simp del: upt_Suc)
  have lv: "live_versions db k = (if k \<in> set ks then lowest # live_versions ?db k
      else live_versions ?db k)" for k
    by (simp add: live_versions_Cons [OF vn(1)] touched_low live')
  have kvn: "key_version_numbers ?db k =
      (if live_versions ?db k = [] then None else Some (live_versions ?db k))" for k
    using T(4) [of k] lv [of k]
    by (auto simp: cleaned_def db0 split: list.splits)
  have tail: "if live_versions ?db k = [] then tail_values ?db k = None
      else \<exists>p. tail_values ?db k = Some (h lowest k, p)" for k
  proof (cases "k \<in> set ks")
    case True
    then show ?thesis
      using T(4) [of k] T(6) [of lowest k] lv [of k] touched_low [of k] vn(1)
      by (auto simp: cleaned_def db0 split: list.splits)
  next
    case False
    have "h lowest k = h (min_transaction_num db) k"
      using T(7) [of lowest k] False vn(1) low touched_low [of k] by auto
    with False show ?thesis
      using T(8) [of k] T(9) [of k] lv [of k] by (auto simp: cleaned_def db0)
  qed
  have vns: "version_numbers ?db = rest" "min_transaction_num ?db = lowest"
    "cur_transaction_num ?db = cur_transaction_num db" "kvstore ?db = kvstore db"
    by (simp_all add: cleaned_def db0)
  have rest_ne: "v \<noteq> lowest" and rest_in: "v \<in> set (version_numbers db)" if "v \<in> set rest" for v
    using that vn(1) by (auto simp: rest)
  have objs: "\<exists>ks. version_number_objects ?db v = Some ks \<and> distinct ks" if "v \<in> set rest" for v
    using T(5) [OF rest_in [OF that]] rest_ne [OF that] by (auto simp: cleaned_def db0)
  have vals: "\<exists>p. key_and_version_to_object ?db (k, v) = Some (h v k, p)"
    if "v \<in> set rest" "touched ?db k v" for v k
    using T(6) [OF rest_in [OF that(1)]] that rest_ne touched'
    by (auto simp: cleaned_def db0)
  have same: "h v k = h (v - 1) k" if "v \<in> set rest" "\<not> touched ?db k v" for v k
    using T(7) [OF rest_in [OF that(1)]] that rest_ne touched' by auto
  show ?thesis
  proof (rule tables_okI, unfold vns)
    show "kvstore db = h (cur_transaction_num db)" by (rule T(1))
    show "lowest \<le> cur_transaction_num db" by (rule lcur)
    show "rest = [Suc lowest..<Suc (cur_transaction_num db)]" by (rule rest)
  qed (fact kvn tail objs vals same)+
qed

lemma cleanable_touched:
  assumes inv: "tables_ok h db" and vn: "version_numbers db = lowest # rest"
    and ks: "version_number_objects db lowest = Some ks" "k \<in> set ks"
    and db0: "key_version_numbers db0 = key_version_numbers db"
      "key_and_version_to_object db0 = key_and_version_to_object db"
      "tail_values db0 = tail_values db"
  shows "cleanable lowest db0 k"
proof -
  have t: "touched db k lowest" using ks by (auto simp: touched_def)
  then have lv: "live_versions db k = lowest # filter (touched db k) rest"
    by (simp add: live_versions_Cons [OF vn])
  have mem: "lowest \<in> set (version_numbers db)" by (simp add: vn)
  show ?thesis
    using tables_okD(4) [OF inv, of k] tables_okD(6) [OF inv mem t] tables_okD(9) [OF inv, of k] lv
    by (auto simp: cleanable_def db0)
qed

text \<open>Dropping the oldest outstanding version never raises, and keeps the tables.\<close>

lemma cleanup_lowest_ok:
  assumes inv: "tables_ok h db" and vn: "version_numbers db = lowest # rest"
  shows "\<exists>db'. cleanup_lowest lowest rest db = Inr db' \<and> tables_ok h db' \<and>
    version_numbers db' = rest \<and> min_transaction_num db' = lowest \<and>
    cur_transaction_num db' = cur_transaction_num db \<and>
    version_number_counts db' = version_number_counts db \<and>
    min_reffed_version_number db' = min_reffed_version_number db"
proof -
  note T = tables_okD [OF inv]
  from T(5) [of lowest] vn obtain ks where
    ks: "version_number_objects db lowest = Some ks" "distinct ks" by auto
  show ?thesis
  proof (cases "rest = []")
    case True
    with versions_ConsD(2,3) [OF inv vn] have cur: "cur_transaction_num db = lowest"
      by (auto split: if_splits)
    with True ks T(1) show ?thesis
      by (simp add: cleanup_lowest_def lookupR_def tables_ok_def live_versions_def)
  next
    case False
    let ?db0 = "db\<lparr> version_numbers := rest,
      version_number_objects := (version_number_objects db)(lowest := None),
      min_transaction_num := lowest \<rparr>"
    have "cleanup_lowest lowest rest db = Inr (cleaned lowest (set ks) ?db0)"
      using False ks(1)
        cleanup_keys [OF ks(2), of lowest ?db0] cleanable_touched [OF inv vn ks(1), of _ ?db0]
      by (simp add: cleanup_lowest_def lookupR_def)
    with cleaned_tables [OF inv vn False ks(1) refl] show ?thesis
      by (simp add: cleaned_def)
  qed
qed

lemma counts_ok_raise_min:
  assumes "counts_ok db" "\<not> py_none_lt (min_reffed_version_number db) lowest"
    and "version_number_counts db' = version_number_counts db"
    "min_reffed_version_number db' = min_reffed_version_number db"
    "cur_transaction_num db' = cur_transaction_num db" "min_transaction_num db' = lowest"
  shows "counts_ok db'"
proof -
  have "lowest \<le> t" if "map_of (version_number_counts db) t = Some n" for t n
  proof -
    from that have t: "t \<in> set (map fst (version_number_counts db))" by (rule key_mem)
    then have "Min (set (map fst (version_number_counts db))) \<le> t"
      by (intro Min_le) auto
    moreover from t assms(1,2) have "\<not> Min (set (map fst (version_number_counts db))) < lowest"
      by (auto simp: counts_ok_def py_none_lt_def simp del: set_map split: if_splits option.splits)
    then have "lowest \<le> Min (set (map fst (version_number_counts db)))" by (simp only: not_less)
    ultimately show ?thesis by (rule order_trans [rotated])
  qed
  with assms show ?thesis
    by (auto simp: counts_ok_def simp del: set_map)
qed

lemma cleanup_from_ok:
  "mvcc_inv h db \<Longrightarrow> version_numbers db = vs \<Longrightarrow>
   \<exists>db'. cleanup_from vs db = Inr db' \<and> mvcc_inv h db' \<and>
     cur_transaction_num db' = cur_transaction_num db \<and>
     version_number_counts db' = version_number_counts db"
proof (induction vs arbitrary: db)
  case Nil
  then show ?case by simp
next
  case (Cons lowest rest)
  show ?case
  proof (cases "py_none_lt (min_reffed_version_number db) lowest")
    case True
    with Cons.prems show ?thesis by simp
  next
    case False
    from Cons.prems have tb: "tables_ok h db" and c: "counts_ok db" by (auto simp: mvcc_inv_def)
    from cleanup_lowest_ok [OF tb Cons.prems(2)] obtain db1 where
      d: "cleanup_lowest lowest rest db = Inr db1" "tables_ok h db1"
        "version_numbers db1 = rest" "min_transaction_num db1 = lowest"
        "cur_transaction_num db1 = cur_transaction_num db"
        "version_number_counts db1 = version_number_counts db"
        "min_reffed_version_number db1 = min_reffed_version_number db"
      by blast
    have "mvcc_inv h db1"
      using d(2) counts_ok_raise_min [OF c False d(6,7,5,4)] by (simp add: mvcc_inv_def)
    from Cons.IH [OF this d(3)] False d show ?thesis by auto
  qed
qed

lemma release_view_ok:
  assumes "mvcc_inv h db" "map_of (version_number_counts db) t = Some n"
  shows "\<exists>db'. release_view t db = Inr db' \<and> mvcc_inv h db'"
proof -
  from decversion_inv [OF assms] obtain db1 where
    db1: "decversion t db = Inr db1" "mvcc_inv h db1" by blast
  from cleanup_from_ok [OF db1(2) refl] db1(1) show ?thesis
    by (auto simp: release_view_def cleanup_def)
qed

section \<open>Committing extends the history\<close>

definition commit_history ::
  "(string \<times> ('j, 'o) entry) list \<Rightarrow> nat \<Rightarrow> 'j history \<Rightarrow> 'j history" where
  "commit_history kvs t h = h(t + 1 := store_set_several (map (\<lambda>(k, e). (k, fst e)) kvs) (h t))"

lemma map_fst_entries: "map fst (map (\<lambda>(k, e). (k, fst e)) kvs) = map fst kvs"
  by (induction kvs) auto

lemma keep_tail_fold:
  "fold (\<lambda>kv. keep_tail (fst kv)) kvs db =
     db\<lparr> tail_values := (\<lambda>k. if k \<in> set (map fst kvs) \<and> key_version_numbers db k = None
           then Some (kvstore db k, current_database_object_cache db k)
           else tail_values db k) \<rparr>"
proof (induction kvs arbitrary: db)
  case Nil
  show ?case by simp
next
  case (Cons kv kvs)
  show ?case
    by (simp add: Cons.IH, rule database.equality) (auto simp: keep_tail_def fun_eq_iff)
qed

lemma record_version_fold:
  assumes "distinct (map fst kvs)"
  shows "fold (record_version t) kvs db =
     db\<lparr> key_version_numbers := (\<lambda>k. if k \<in> set (map fst kvs)
           then Some ((case key_version_numbers db k of None \<Rightarrow> [] | Some vs \<Rightarrow> vs) @ [t])
           else key_version_numbers db k),
         key_and_version_to_object := (\<lambda>(k, v). if v = t \<and> k \<in> set (map fst kvs)
           then map_of kvs k else key_and_version_to_object db (k, v)) \<rparr>"
  using assms
proof (induction kvs arbitrary: db)
  case Nil
  show ?case by (rule database.equality) auto
next
  case (Cons kv kvs)
  have kv: "fst kv \<notin> set (map fst kvs)" using Cons.prems by simp
  show ?case
    using kv Cons.prems
    by (simp add: Cons.IH, intro database.equality) (auto simp: record_version_def fun_eq_iff)
qed

lemma commit_tables:
  assumes inv: "tables_ok h db" and d: "distinct (map fst kvs)"
    and cur: "t = cur_transaction_num db"
    and c: "set_versioned_object_data kvs t db = Inr db'"
  shows "tables_ok (commit_history kvs t h) db'"
proof -
  note T = tables_okD [OF inv]
  let ?h = "commit_history kvs t h"
  let ?ks = "set (map fst kvs)"
  let ?new = "Suc (cur_transaction_num db)"
  have flds: "cur_transaction_num db' = ?new" "min_transaction_num db' = min_transaction_num db"
    "version_numbers db' = version_numbers db @ [?new]"
    "kvstore db' = store_set_several (map (\<lambda>(k, e). (k, fst e)) kvs) (kvstore db)"
    "version_number_objects db' = (version_number_objects db)(?new \<mapsto> map fst kvs)"
    "key_version_numbers db' = (\<lambda>k. if k \<in> ?ks
       then Some ((case key_version_numbers db k of None \<Rightarrow> [] | Some vs \<Rightarrow> vs) @ [?new])
       else key_version_numbers db k)"
    "key_and_version_to_object db' = (\<lambda>(k, v). if v = ?new \<and> k \<in> ?ks
       then map_of kvs k else key_and_version_to_object db (k, v))"
    "tail_values db' = (\<lambda>k. if k \<in> ?ks \<and> key_version_numbers db k = None
       then Some (kvstore db k, current_database_object_cache db k) else tail_values db k)"
    using c cur
    by (auto simp: set_versioned_object_data_def Let_def keep_tail_fold record_version_fold [OF d])
  have h_old: "?h v = h v" if "v \<le> cur_transaction_num db" for v
    using that by (simp add: commit_history_def cur)
  have h_new: "?h ?new = store_set_several (map (\<lambda>(k, e). (k, fst e)) kvs) (h t)"
    by (simp add: commit_history_def cur)
  have old: "v \<le> cur_transaction_num db" "v \<noteq> ?new" "0 < v" if "v \<in> set (version_numbers db)" for v
    using that by (auto simp: T(3) simp del: upt_Suc)
  have touched_old: "touched db' k v \<longleftrightarrow> touched db k v" if "v \<in> set (version_numbers db)" for k v
    using old [OF that] by (simp add: touched_def flds)
  have touched_new: "touched db' k ?new \<longleftrightarrow> k \<in> ?ks" for k
    by (simp add: touched_def flds)
  have live: "live_versions db' k = live_versions db k @ (if k \<in> ?ks then [?new] else [])" for k
    using touched_old by (auto simp: live_versions_def flds touched_new cong: filter_cong)
  have val_new: "\<exists>p. map_of kvs k = Some (?h ?new k, p)" if "k \<in> ?ks" for k
  proof -
    from that obtain e where e: "(k, e) \<in> set kvs" by auto
    then have "(k, fst e) \<in> set (map (\<lambda>(k, e). (k, fst e)) kvs)" by force
    then have "?h ?new k = fst e"
      unfolding h_new using d by (intro store_set_several_in) (simp_all only: map_fst_entries)
    moreover have "map_of kvs k = Some e" using d e by simp
    ultimately show ?thesis by (cases e) auto
  qed
  show ?thesis
  proof (rule tables_okI)
    show "kvstore db' = ?h (cur_transaction_num db')"
      using T(1) by (metis flds(1,4) h_new cur)
    show "min_transaction_num db' \<le> cur_transaction_num db'"
      using T(2) by (simp add: flds)
    show "version_numbers db' = [Suc (min_transaction_num db')..<Suc (cur_transaction_num db')]"
      using T(2,3) by (simp add: flds)
    show "key_version_numbers db' k =
        (if live_versions db' k = [] then None else Some (live_versions db' k))" for k
      by (simp add: live flds T(4))
    show "\<exists>ks. version_number_objects db' v = Some ks \<and> distinct ks"
      if "v \<in> set (version_numbers db')" for v
      using that T(5) [of v] d old(2) [of v] by (auto simp: flds)
    show "\<exists>p. key_and_version_to_object db' (k, v) = Some (?h v k, p)"
      if "v \<in> set (version_numbers db')" "touched db' k v" for v k
      using that T(6) [of v k] old [of v] val_new [of k] touched_old [of v k] touched_new [of k]
      by (auto simp: flds h_old)
    show "?h v k = ?h (v - 1) k" if "v \<in> set (version_numbers db')" "\<not> touched db' k v" for v k
    proof (cases "v = ?new")
      case True
      with that have "k \<notin> set (map fst (map (\<lambda>(k, e). (k, fst e)) kvs))"
        by (metis map_fst_entries touched_new)
      from store_set_several_other [OF this] show ?thesis
        unfolding True h_new by (simp add: commit_history_def cur)
    next
      case False
      with that have v: "v \<in> set (version_numbers db)" by (simp add: flds)
      with T(7) [OF v] that(2) old [OF v] show ?thesis
        by (simp add: h_old touched_old)
    qed
    show "if live_versions db' k = [] then tail_values db' k = None
        else \<exists>p. tail_values db' k = Some (?h (min_transaction_num db') k, p)" for k
    proof (cases "live_versions db k = []")
      case True
      have "h (cur_transaction_num db) k = h (min_transaction_num db) k"
        by (rule untouched_between [OF inv T(2) order_refl order_refl]) (simp add: True)
      with True T(1) T(2) T(4) [of k] T(8) [of k] show ?thesis
        by (simp add: live flds h_old)
    next
      case False
      with T(2) T(4) [of k] T(9) [of k] show ?thesis
        by (simp add: live flds h_old)
    qed
  qed
qed

lemma commit_inv:
  assumes inv: "mvcc_inv h db" and d: "distinct (map fst kvs)"
    and c: "set_versioned_object_data kvs t db = Inr db'"
  shows "mvcc_inv (commit_history kvs t h) db'"
proof -
  from c have cur: "t = cur_transaction_num db"
    by (auto simp: set_versioned_object_data_def split: if_splits)
  have "counts_ok db'"
    using inv c
    by (auto simp: mvcc_inv_def counts_ok_def set_versioned_object_data_def Let_def keep_tail_fold
        record_version_fold [OF d] cur le_SucI simp del: set_map split: if_splits)
  with commit_tables [OF _ d cur c] inv show ?thesis
    by (simp add: mvcc_inv_def)
qed

text \<open>Filling a parse cache changes no JSON value.\<close>

lemma cache_inv:
  assumes inv: "mvcc_inv h db" and t: "min_transaction_num db \<le> t" "t \<le> cur_transaction_num db"
  shows "\<exists>db'. update_versioned_object_data_cache k t p db = Inr db' \<and> mvcc_inv h db'"
proof -
  from inv have tb: "tables_ok h db" and c: "counts_ok db" by (auto simp: mvcc_inv_def)
  note T = tables_okD [OF tb]
  from read_tables [OF tb t, of k] obtain q where
    "get_versioned_object_data k t db = Inr (h t k, q)" by blast
  with t have "\<exists>db'. update_versioned_object_data_cache k t p db = Inr db'"
    by (auto simp: get_versioned_object_data_def update_versioned_object_data_cache_def
        assertR_def lookupR_def split: option.splits)
  then obtain db' where db': "update_versioned_object_data_cache k t p db = Inr db'" ..
  have flds: "cur_transaction_num db' = cur_transaction_num db"
    "min_transaction_num db' = min_transaction_num db" "kvstore db' = kvstore db"
    "version_numbers db' = version_numbers db"
    "version_number_objects db' = version_number_objects db"
    "key_version_numbers db' = key_version_numbers db"
    "version_number_counts db' = version_number_counts db"
    "min_reffed_version_number db' = min_reffed_version_number db"
    using db' by (auto simp: update_versioned_object_data_cache_def bindR_Inr_conv
        split: option.splits)
  have vals: "\<And>kv. rel_option (\<lambda>e e'. fst e = fst e') (key_and_version_to_object db kv)
      (key_and_version_to_object db' kv)"
    "\<And>k'. rel_option (\<lambda>e e'. fst e = fst e') (tail_values db k') (tail_values db' k')"
    using db' by (auto simp: update_versioned_object_data_cache_def bindR_Inr_conv option.rel_refl
        split: option.splits)
  have live: "live_versions db' k' = live_versions db k'" and
    touched: "touched db' k' v = touched db k' v" for k' v
    by (simp_all add: live_versions_def touched_def [abs_def] flds)
  have "tables_ok h db'"
  proof (rule tables_okI)
    show "\<exists>p. key_and_version_to_object db' (k', v) = Some (h v k', p)"
      if "v \<in> set (version_numbers db')" "touched db' k' v" for v k'
      using that T(6) [of v k'] vals(1) [of "(k', v)"]
      by (auto simp: flds touched option_rel_Some1)
    show "if live_versions db' k' = [] then tail_values db' k' = None
        else \<exists>p. tail_values db' k' = Some (h (min_transaction_num db') k', p)" for k'
      using T(8) [of k'] T(9) [of k'] vals(2) [of k']
      by (auto simp: flds live option_rel_Some1)
  qed (use T(1-5,7) in \<open>simp_all add: flds live touched del: upt_Suc\<close>)
  moreover have "counts_ok db'"
    using c by (simp add: counts_ok_def flds)
  ultimately show ?thesis
    using db' by (auto simp: mvcc_inv_def)
qed

lemma clear_cache_inv: "mvcc_inv h db \<Longrightarrow> mvcc_inv h (clear_cache db)"
  by (simp add: clear_cache_def mvcc_inv_def tables_ok_def counts_ok_def live_versions_def
      touched_def [abs_def])

end
