(* ===== verification/Database_Isolation.thy ===== *)
theory Database_Isolation
  imports Object_Database
begin

text \<open>
  The database as a state machine: what concurrent views and transactions may do to
  \<^verbatim>\<open>object_database.Database\<close>, and what the readers are promised. A step is one entry of the
  lock \<open>_lock\<close>, so the interleavings of the threads are the sequences of steps.
\<close>

section \<open>Leaving a view\<close>

text \<open>\<open>DatabaseView.__exit__\<close> after a body that did not raise: commit the writes, if there are any,
  then release the view. When the commit raises, the release is not reached.\<close>

definition exit_view ::
  "(string \<times> ('j, 'o) entry) list \<Rightarrow> nat \<Rightarrow> ('j, 'o) database \<Rightarrow> py_error option \<times> ('j, 'o) database"
where
  "exit_view writes tid db =
     (case (if writes = [] then Inr db else set_versioned_object_data writes tid db) of
        Inl e \<Rightarrow> (Some e, db)
      | Inr db1 \<Rightarrow>
          (case release_view tid db1 of
             Inl e \<Rightarrow> (Some e, db1)
           | Inr db2 \<Rightarrow> (None, db2)))"

definition run_transaction ::
  "(string \<times> ('j, 'o) entry) list \<Rightarrow> ('j, 'o) database \<Rightarrow> py_error option \<times> ('j, 'o) database"
where
  "run_transaction writes db =
     (case transaction db of (tid, db1) \<Rightarrow> exit_view writes tid db1)"

fun run_transactions ::
  "(string \<times> ('j, 'o) entry) list list \<Rightarrow> ('j, 'o) database \<Rightarrow> ('j, 'o) database" where
  "run_transactions [] db = db"
| "run_transactions (w # ws) db = run_transactions ws (snd (run_transaction w db))"

section \<open>Steps\<close>

definition view_open :: "nat \<Rightarrow> ('j, 'o) database \<Rightarrow> bool" where
  "view_open t db \<longleftrightarrow> map_of (version_number_counts db) t \<noteq> None"

inductive db_step ::
  "'j history \<times> ('j, 'o) database \<Rightarrow> 'j history \<times> ('j, 'o) database \<Rightarrow> bool" where
  step_view: "view_at t db = Inr (tid, db') \<Longrightarrow> db_step (h, db) (h, db')"
| step_transaction: "transaction db = (tid, db') \<Longrightarrow> db_step (h, db) (h, db')"
| step_release: "view_open t db \<Longrightarrow> release_view t db = Inr db' \<Longrightarrow> db_step (h, db) (h, db')"
| step_commit: "distinct (map fst kvs) \<Longrightarrow> set_versioned_object_data kvs t db = Inr db' \<Longrightarrow>
    db_step (h, db) (commit_history kvs t h, db')"
| step_cache: "view_open t db \<Longrightarrow> update_versioned_object_data_cache k t p db = Inr db' \<Longrightarrow>
    db_step (h, db) (h, db')"
| step_clear: "db_step (h, db) (h, clear_cache db)"

inductive_cases db_step_cases: "db_step (h, db) (h', db')"

lemma view_open_bounds:
  "mvcc_inv h db \<Longrightarrow> view_open t db \<Longrightarrow>
   min_transaction_num db \<le> t \<and> t \<le> cur_transaction_num db"
  by (auto simp: view_open_def mvcc_inv_def counts_ok_def)

lemma db_step_inv: "db_step (h, db) (h', db') \<Longrightarrow> mvcc_inv h db \<Longrightarrow> mvcc_inv h' db'"
proof (erule db_step_cases)
  fix t tid
  assume "mvcc_inv h db" "h' = h" "view_at t db = Inr (tid, db')"
  then show ?thesis by (simp add: view_at_inv)
next
  fix tid
  assume "mvcc_inv h db" "h' = h" "transaction db = (tid, db')"
  then show ?thesis using transaction_inv [of h db] by simp
next
  fix t
  assume "mvcc_inv h db" "h' = h" "view_open t db" "release_view t db = Inr db'"
  then show ?thesis using release_view_ok [of h db t] by (auto simp: view_open_def)
next
  fix kvs t
  assume "mvcc_inv h db" "h' = commit_history kvs t h" "distinct (map fst kvs)"
    "set_versioned_object_data kvs t db = Inr db'"
  then show ?thesis by (simp add: commit_inv)
next
  fix t k p
  assume "mvcc_inv h db" "h' = h" "view_open t db"
    "update_versioned_object_data_cache k t p db = Inr db'"
  then show ?thesis
    using cache_inv [of h db t k p] view_open_bounds [of h db t] by auto
next
  assume "mvcc_inv h db" "h' = h" "db' = clear_cache db"
  then show ?thesis by (simp add: clear_cache_inv)
qed

text \<open>Only a commit moves the current transaction number, by one.\<close>

lemma cleanup_key_cur:
  "cleanup_key l k db = Inr db' \<Longrightarrow> cur_transaction_num db' = cur_transaction_num db"
  by (auto simp: cleanup_key_def bindR_Inr_conv split: if_splits)

lemma cleanup_lowest_cur:
  assumes "cleanup_lowest l rest db = Inr db'"
  shows "cur_transaction_num db' = cur_transaction_num db"
proof -
  have loop: "foldR (cleanup_key l) ks d = Inr db' \<Longrightarrow>
      cur_transaction_num d = cur_transaction_num db \<Longrightarrow>
      cur_transaction_num db' = cur_transaction_num db" for ks d
    by (erule foldR_inv [where P = "\<lambda>d. cur_transaction_num d = cur_transaction_num db"])
      (simp_all add: cleanup_key_cur)
  from assms show ?thesis
    by (auto simp: cleanup_lowest_def bindR_Inr_conv Let_def intro: loop split: if_splits)
qed

lemma cleanup_from_cur:
  "cleanup_from vs db = Inr db' \<Longrightarrow> cur_transaction_num db' = cur_transaction_num db"
  by (induction vs db rule: cleanup_from.induct)
    (auto simp: bindR_Inr_conv dest: cleanup_lowest_cur split: if_splits)

lemma release_view_cur:
  "release_view t db = Inr db' \<Longrightarrow> cur_transaction_num db' = cur_transaction_num db"
  by (auto simp: release_view_def cleanup_def decversion_def bindR_Inr_conv Let_def
      dest!: cleanup_from_cur split: option.splits if_splits)

lemma fold_record_version_cur:
  "cur_transaction_num (fold (record_version t) kvs db) = cur_transaction_num db"
  by (induction kvs arbitrary: db) (simp_all add: record_version_def)

lemma commit_cur:
  "set_versioned_object_data kvs t db = Inr db' \<Longrightarrow>
   cur_transaction_num db = t \<and> cur_transaction_num db' = Suc t"
  by (auto simp: set_versioned_object_data_def Let_def keep_tail_fold fold_record_version_cur
      split: if_splits)

lemma incversion_cur [simp]: "cur_transaction_num (incversion t db) = cur_transaction_num db"
  by (simp add: incversion_def split: option.split)

text \<open>A step never rewrites the past.\<close>

lemma db_step_history:
  assumes "db_step (h, db) (h', db')" "mvcc_inv h db"
  shows "cur_transaction_num db \<le> cur_transaction_num db' \<and>
    (\<forall>t\<le>cur_transaction_num db. h' t = h t)"
  using assms(1)
proof (cases rule: db_step.cases)
  case step_view
  then show ?thesis by (auto simp: view_at_def Let_def bindR_Inr_conv)
next
  case step_transaction
  then show ?thesis by (auto simp: transaction_def)
next
  case step_release
  then show ?thesis by (auto simp: release_view_cur)
next
  case step_commit
  then show ?thesis by (auto simp: commit_history_def dest!: commit_cur)
next
  case step_cache
  then show ?thesis
    by (auto simp: update_versioned_object_data_cache_def bindR_Inr_conv split: option.splits)
next
  case step_clear
  then show ?thesis by (simp add: clear_cache_def)
qed

lemma db_steps_history:
  "db_step\<^sup>*\<^sup>* (h, db) (h', db') \<Longrightarrow> mvcc_inv h db \<Longrightarrow>
   mvcc_inv h' db' \<and> (\<forall>t\<le>cur_transaction_num db. h' t = h t) \<and>
   cur_transaction_num db \<le> cur_transaction_num db'"
proof (induction "(h', db')" arbitrary: h' db' rule: rtranclp_induct)
  case base
  then show ?case by simp
next
  case (step y)
  obtain h1 db1 where y: "y = (h1, db1)" by (cases y)
  with step have IH: "mvcc_inv h1 db1" "\<forall>t\<le>cur_transaction_num db. h1 t = h t"
    "cur_transaction_num db \<le> cur_transaction_num db1" by auto
  from step(2) y have s: "db_step (h1, db1) (h', db')" by simp
  from db_step_inv [OF s IH(1)] db_step_history [OF s IH(1)] IH(2,3) show ?case
    by auto
qed

definition db_reachable :: "'j store \<Rightarrow> 'j history \<Rightarrow> ('j, 'o) database \<Rightarrow> bool" where
  "db_reachable kv h db \<longleftrightarrow> db_step\<^sup>*\<^sup>* (\<lambda>_. kv, new_database kv) (h, db)"

lemma db_reachable_inv: "db_reachable kv h db \<Longrightarrow> mvcc_inv h db"
  unfolding db_reachable_def using db_steps_history mvcc_inv_init by blast

section \<open>Properties\<close>

text \<open>C7: Snapshot isolation. Take any reachable database and any sequence of views,
  transactions, commits, releases and cache fills from it. A view that is open before and after
  reads, at every key, the same JSON value, namely the one of the snapshot it was opened on;
  in particular no assertion of the read path fires and no commit by another thread, and no
  clean-up, shows through.\<close>

theorem snapshot_isolation:
  assumes "db_reachable kv h db" "db_step\<^sup>*\<^sup>* (h, db) (h', db')"
    and "view_open t db" "view_open t db'"
  shows "\<exists>p p'. get_versioned_object_data k t db = Inr (h t k, p) \<and>
    get_versioned_object_data k t db' = Inr (h t k, p')"
proof -
  from assms(1) have inv: "mvcc_inv h db" by (rule db_reachable_inv)
  from db_steps_history [OF assms(2) inv] have inv': "mvcc_inv h' db'"
    and same: "\<forall>t\<le>cur_transaction_num db. h' t = h t" by auto
  note b = view_open_bounds [OF inv assms(3)] and b' = view_open_bounds [OF inv' assms(4)]
  from inv inv' have "tables_ok h db" "tables_ok h' db'" by (auto simp: mvcc_inv_def)
  from read_tables [OF this(1), of t k] read_tables [OF this(2), of t k] b b' same
  show ?thesis by auto
qed

definition demo_writes :: "nat \<Rightarrow> (string \<times> (nat, nat) entry) list" where
  "demo_writes n = [(''k'', (Some n, Some n))]"

definition demo_db :: "(nat, nat) database" where
  "demo_db = snd (transaction (new_database Map.empty))"

theorem snapshot_isolation_witness:
  "\<exists>h' (db' :: (nat, nat) database). view_open 0 db' \<and> cur_transaction_num db' = 1 \<and> kvstore db' ''k'' = Some (7::nat) \<and>
     (\<exists>p p'. get_versioned_object_data ''k'' 0 demo_db = Inr (None, p) \<and>
        get_versioned_object_data ''k'' 0 db' = Inr (None, p')) \<and> mvcc_inv h' db'"
proof -
  let ?h = "\<lambda>_. Map.empty" and ?h' = "commit_history (demo_writes 7) 0 (\<lambda>_. Map.empty)"
  obtain db' where c: "set_versioned_object_data (demo_writes 7) 0 demo_db = Inr db'"
    by (simp add: set_versioned_object_data_def demo_db_def transaction_def new_database_def
        incversion_def Let_def)
  have s0: "db_step (?h, new_database Map.empty) (?h, demo_db)"
    unfolding demo_db_def by (rule step_transaction [where tid = 0])
      (simp add: transaction_def new_database_def)
  have s1: "db_step (?h, demo_db) (?h', db')"
    by (rule step_commit [OF _ c]) (simp add: demo_writes_def)
  have r: "db_reachable Map.empty ?h demo_db"
    using s0 by (auto simp: db_reachable_def)
  have o: "view_open 0 demo_db"
    by (simp add: view_open_def demo_db_def transaction_def new_database_def incversion_def)
  have o': "view_open 0 db'" and f: "cur_transaction_num db' = 1" "kvstore db' ''k'' = Some 7"
    using c by (auto simp: view_open_def demo_db_def transaction_def new_database_def
        incversion_def set_versioned_object_data_def Let_def demo_writes_def keep_tail_def
        record_version_def store_set_several_def store_set_eq)
  have s1': "db_step\<^sup>*\<^sup>* (?h, demo_db) (?h', db')" using s1 by blast
  from db_steps_history [OF s1' db_reachable_inv [OF r]]
  have inv: "mvcc_inv ?h' db'" by simp
  from snapshot_isolation [OF r s1' o o', of "''k''"] obtain p p' where
    "get_versioned_object_data ''k'' 0 demo_db = Inr (None, p)"
    "get_versioned_object_data ''k'' 0 db' = Inr (None, p')" by blast
  with o' f inv show ?thesis by blast
qed

text \<open>in every reachable database, closing an open view succeeds (none of the assertions and
  dict lookups of \<open>_decversion\<close> and \<open>_cleanup\<close> fails) and leaves a database with the same
  history, in which every other open view still reads its own snapshot.\<close>

theorem release_never_raises:
  assumes "db_reachable kv h db" "view_open t db"
  shows "\<exists>db'. release_view t db = Inr db' \<and>
    (\<forall>u k. view_open u db' \<longrightarrow> (\<exists>p. get_versioned_object_data k u db' = Inr (h u k, p)))"
proof -
  from assms(1) have inv: "mvcc_inv h db" by (rule db_reachable_inv)
  from assms(2) obtain n where "map_of (version_number_counts db) t = Some n"
    by (auto simp: view_open_def)
  from release_view_ok [OF inv this] obtain db' where
    db': "release_view t db = Inr db'" "mvcc_inv h db'" by blast
  then have "tables_ok h db'" by (simp add: mvcc_inv_def)
  with read_tables view_open_bounds [OF db'(2)] db'(1) show ?thesis by blast
qed

theorem release_never_raises_witness:
  "\<exists>db'. release_view 0 demo_db = Inr db' \<and>
    (\<forall>u k. view_open u db' \<longrightarrow> (\<exists>p. get_versioned_object_data k u db' = Inr (None, p)))"
proof -
  have "db_step (\<lambda>_. Map.empty, new_database Map.empty) (\<lambda>_. Map.empty, demo_db)"
    unfolding demo_db_def by (rule step_transaction [where tid = 0])
      (simp add: transaction_def new_database_def)
  then have "db_reachable Map.empty (\<lambda>_. Map.empty) demo_db"
    by (auto simp: db_reachable_def)
  moreover have "view_open 0 demo_db"
    by (simp add: view_open_def demo_db_def transaction_def new_database_def incversion_def)
  ultimately show ?thesis by (rule release_never_raises)
qed



text \<open>While no view is open, \<open>_min_reffed_version_number\<close> is \<open>None\<close>, which Python 2 orders before
  every integer: \<open>_cleanup\<close> then returns without dropping anything.\<close>

definition quiescent :: "nat \<Rightarrow> ('j, 'o) database \<Rightarrow> bool" where
  "quiescent n db \<longleftrightarrow> version_number_counts db = [] \<and> min_reffed_version_number db = None \<and>
     cur_transaction_num db = n \<and> version_numbers db = [1..<Suc n]"

lemma set_versioned_fields:
  assumes "set_versioned_object_data kvs t db = Inr db'"
  shows "version_numbers db' = version_numbers db @ [Suc t]"
    "version_number_counts db' = version_number_counts db"
    "min_reffed_version_number db' = min_reffed_version_number db"
proof -
  have "version_numbers (fold (record_version u) kvs d) = version_numbers d"
    "version_number_counts (fold (record_version u) kvs d) = version_number_counts d"
    "min_reffed_version_number (fold (record_version u) kvs d) = min_reffed_version_number d"
    for u and d :: "('a, 'b) database"
    by (induction kvs arbitrary: d) (simp_all add: record_version_def)
  with assms show "version_numbers db' = version_numbers db @ [Suc t]"
    "version_number_counts db' = version_number_counts db"
    "min_reffed_version_number db' = min_reffed_version_number db"
    by (auto simp: set_versioned_object_data_def Let_def keep_tail_fold split: if_splits)
qed

lemma cleanup_from_unreferenced:
  "min_reffed_version_number db = None \<Longrightarrow> cleanup_from vs db = Inr db"
  by (cases vs) (simp_all add: py_none_lt_def)

lemma run_transaction_quiescent:
  assumes q: "quiescent n db" and w: "w \<noteq> []"
  shows "quiescent (Suc n) (snd (run_transaction w db))"
proof -
  let ?db1 = "db\<lparr> version_number_counts := [(n, 1)], min_reffed_version_number := Some n \<rparr>"
  have t: "transaction db = (n, ?db1)"
    using q by (simp add: quiescent_def transaction_def incversion_def)
  obtain db2 where c: "set_versioned_object_data w n ?db1 = Inr db2"
    using q by (simp add: quiescent_def set_versioned_object_data_def Let_def)
  note f = set_versioned_fields [OF c] commit_cur [OF c]
  have "release_view n db2 =
      Inr (db2\<lparr> version_number_counts := [], min_reffed_version_number := None \<rparr>)"
    using f q by (simp add: release_view_def decversion_def Let_def alist_del_def cleanup_def
        cleanup_from_unreferenced quiescent_def)
  with t c w f q show ?thesis
    by (simp add: run_transaction_def exit_view_def quiescent_def)
qed

text \<open>transactions run one after another never trigger a clean-up: after any number of them
  the database still carries one outstanding version per transaction, with its key list and its
  old values, although no view is open that could read them.\<close>

theorem sequential_transactions_accumulate:
  fixes ws :: "(string \<times> ('j, 'o) entry) list list"
  assumes "\<forall>w\<in>set ws. w \<noteq> []"
  shows "version_numbers (run_transactions ws (new_database kv)) = [1..<Suc (length ws)] \<and>
    version_number_counts (run_transactions ws (new_database kv)) = []"
proof -
  have run: "quiescent n db \<Longrightarrow> \<forall>w\<in>set ws. w \<noteq> [] \<Longrightarrow>
      quiescent (n + length ws) (run_transactions ws db)"
    for n and db :: "('j, 'o) database" and ws :: "(string \<times> ('j, 'o) entry) list list"
  proof (induction ws arbitrary: n db)
    case Nil
    then show ?case by simp
  next
    case (Cons w ws)
    then have "quiescent (Suc n) (snd (run_transaction w db))"
      by (simp add: run_transaction_quiescent)
    from Cons.IH [OF this] Cons.prems show ?case by simp
  qed
  have "quiescent 0 (new_database kv)"
    by (simp add: quiescent_def new_database_def)
  from run [OF this assms] show ?thesis
    by (simp add: quiescent_def)
qed

theorem sequential_transactions_accumulate_witness:
  "version_numbers (run_transactions [demo_writes 7, demo_writes 8] (new_database Map.empty))
     = [1..<Suc (length [demo_writes 7, demo_writes 8])]"
proof -
  have "\<forall>w\<in>set [demo_writes 7, demo_writes 8]. w \<noteq> []"
    by (simp add: demo_writes_def)
  from sequential_transactions_accumulate [OF this, of Map.empty] show ?thesis by blast
qed

end
