(* ===== verification/Git_Locks.thy ===== *)
theory Git_Locks
  imports Task_Queue
begin

text \<open>
  The locks a worker holds while it talks to the git server: \<open>_cleanupGitRepoLocks\<close>,
  \<open>tryToAllocateGitRepoLock\<close> and \<open>gitRepoLockReleased\<close> of \<^verbatim>\<open>TestManager.py\<close>.
\<close>

definition MAX_GIT_CONNECTIONS :: nat where
  "MAX_GIT_CONNECTIONS = 4"

section \<open>Operations\<close>

definition lock_is_dead :: "'m mgr \<Rightarrow> git_lock_row \<Rightarrow> bool" where
  "lock_is_dead s lock =
     (case lk_testOrDeployId lock of
        None \<Rightarrow> True
      | Some i \<Rightarrow>
          if rows (runs s) i \<noteq> None \<and> (run_canceled (get_run s i) \<or> run_endTimestamp (get_run s i) > 0) then True
          else rows (deployments s) i \<noteq> None \<and> \<not> de_isAlive (get_deployment s i))"

definition cleanupGitRepoLocks :: "'m mgr \<Rightarrow> 'm mgr" where
  "cleanupGitRepoLocks s =
     fold (\<lambda>lock s. if lock_is_dead s (get_lock s lock) then del_lock lock s else s)
       (lookup_all (locks s) Lock_alive) s"

definition lock_test_hash :: "'m mgr \<Rightarrow> oid \<Rightarrow> string option" where
  "lock_test_hash s i =
     (if rows (runs s) i \<noteq> None then Some (ts_hash (get_test s (run_test (get_run s i))))
      else if rows (deployments s) i \<noteq> None then Some (ts_hash (get_test s (de_test (get_deployment s i))))
      else None)"

definition tryToAllocateGitRepoLock :: "string \<Rightarrow> oid \<Rightarrow> 'm mgr \<Rightarrow> bool \<times> 'm mgr" where
  "tryToAllocateGitRepoLock requestId testOrDeployId s0 =
     (let s = cleanupGitRepoLocks s0 in
      if lookup_any (locks s) (Lock_requestUniqueId requestId) \<noteq> None then (True, s)
      else case lock_test_hash s testOrDeployId of
        None \<Rightarrow> (False, s)
      | Some testHash \<Rightarrow>
          if length (lookup_all (locks s) Lock_alive) > MAX_GIT_CONNECTIONS then (False, s)
          else if length (lookup_all (locks s) (Lock_testOrDeployId (Some testOrDeployId))) > 1 then (False, s)
          else if length (lookup_all (locks s) (Lock_testHash testHash)) > 1 then (False, s)
          else (True, snd (new_lock \<lparr>lk_requestUniqueId = requestId,
                   lk_testOrDeployId = Some testOrDeployId, lk_testHash = testHash\<rparr> s)))"

definition gitRepoLockReleased :: "string \<Rightarrow> 'm mgr \<Rightarrow> 'm mgr" where
  "gitRepoLockReleased requestId s =
     (case lookup_any (locks s) (Lock_requestUniqueId requestId) of
        Some lock \<Rightarrow> del_lock lock s
      | None \<Rightarrow> s)"

section \<open>What the operations keep\<close>

text \<open>The number of locks under each index key.\<close>

definition lock_count :: "'m mgr \<Rightarrow> lock_ix \<Rightarrow> nat" where
  "lock_count s k = length (lookup_all (locks s) k)"

definition locks_bounded :: "'m mgr \<Rightarrow> bool" where
  "locks_bounded s \<longleftrightarrow> lock_count s Lock_alive \<le> MAX_GIT_CONNECTIONS + 1 \<and>
     (\<forall>i. lock_count s (Lock_testOrDeployId (Some i)) \<le> 2) \<and>
     (\<forall>h. lock_count s (Lock_testHash h) \<le> 2) \<and> (\<forall>r. lock_count s (Lock_requestUniqueId r) \<le> 1)"

lemma lock_count_del:
  "db_ok s \<Longrightarrow> lock_count (del_lock i s) k \<le> lock_count s k"
  by (simp add: lock_count_def del_lock_def db_ok_def lock_index.lookup_delete)

lemma lock_count_new:
  "lock_count (snd (new_lock r s)) k = lock_count s k + (if k \<in> set (lock_keys r) then 1 else 0)"
  by (simp add: lock_count_def new_lock_def lock_index.lookup_new)

lemma bounded_mono:
  assumes "locks_bounded s" "\<And>k. lock_count s' k \<le> lock_count s k"
  shows "locks_bounded s'"
  using assms unfolding locks_bounded_def by (meson le_trans)

lemma cleanup_keeps:
  assumes "db_ok s"
  shows "db_ok (cleanupGitRepoLocks s)" "lock_count (cleanupGitRepoLocks s) k \<le> lock_count s k"
proof -
  have "db_ok (fold (\<lambda>lock s. if lock_is_dead s (get_lock s lock) then del_lock lock s else s) L s) \<and>
    lock_count (fold (\<lambda>lock s. if lock_is_dead s (get_lock s lock) then del_lock lock s else s) L s) k
      \<le> lock_count s k" for L
    using assms
  proof (induction L arbitrary: s)
    case (Cons l L)
    let ?s = "if lock_is_dead s (get_lock s l) then del_lock l s else s"
    have "db_ok ?s" "lock_count ?s k \<le> lock_count s k" using Cons.prems lock_count_del by auto
    with Cons.IH [of ?s] show ?case by force
  qed simp
  then show "db_ok (cleanupGitRepoLocks s)" "lock_count (cleanupGitRepoLocks s) k \<le> lock_count s k"
    by (simp_all add: cleanupGitRepoLocks_def)
qed

lemma allocate_keeps:
  assumes "db_ok s" "locks_bounded s"
  shows "db_ok (snd (tryToAllocateGitRepoLock r i s)) \<and> locks_bounded (snd (tryToAllocateGitRepoLock r i s))"
proof -
  define c where "c = cleanupGitRepoLocks s"
  have c: "db_ok c" "locks_bounded c"
    using cleanup_keeps [OF assms(1)] bounded_mono [OF assms(2)] by (auto simp: c_def)
  have no: "lookup_any (locks c) (Lock_requestUniqueId r) = None \<Longrightarrow> lock_count c (Lock_requestUniqueId r) = 0"
    by (simp add: lookup_any_None lock_count_def)
  have "db_ok (snd (new_lock \<lparr>lk_requestUniqueId = r, lk_testOrDeployId = Some i, lk_testHash = h\<rparr> c)) \<and>
      locks_bounded (snd (new_lock \<lparr>lk_requestUniqueId = r, lk_testOrDeployId = Some i, lk_testHash = h\<rparr> c))"
    if "lookup_any (locks c) (Lock_requestUniqueId r) = None"
      "length (lookup_all (locks c) Lock_alive) \<le> MAX_GIT_CONNECTIONS"
      "length (lookup_all (locks c) (Lock_testOrDeployId (Some i))) \<le> 1"
      "length (lookup_all (locks c) (Lock_testHash h)) \<le> 1" for h
    using c no [OF that(1)] that(2-4)
    by (auto simp: locks_bounded_def lock_count_new lock_keys_def simp flip: lock_count_def)
  then show ?thesis using c
    by (auto simp: tryToAllocateGitRepoLock_def Let_def not_less c_def [symmetric] split: option.split)
qed

lemma release_keeps:
  assumes "db_ok s" "locks_bounded s"
  shows "db_ok (gitRepoLockReleased r s) \<and> locks_bounded (gitRepoLockReleased r s)"
  using assms bounded_mono [OF assms(2) lock_count_del [OF assms(1)]]
  by (auto simp: gitRepoLockReleased_def split: option.split)

text \<open>The other operations of the manager touch no lock.\<close>

inductive locks_reachable :: "'m mgr \<Rightarrow> bool" where
  start: "db_ok s \<Longrightarrow> lookup_all (locks s) = (\<lambda>_. []) \<Longrightarrow> locks_reachable s"
| allocate: "locks_reachable s \<Longrightarrow> locks_reachable (snd (tryToAllocateGitRepoLock r i s))"
| release: "locks_reachable s \<Longrightarrow> locks_reachable (gitRepoLockReleased r s)"
| other: "locks_reachable s \<Longrightarrow> db_ok s' \<Longrightarrow> locks s' = locks s \<Longrightarrow> locks_reachable s'"

lemma reachable_bounded: "locks_reachable s \<Longrightarrow> db_ok s \<and> locks_bounded s"
proof (induction rule: locks_reachable.induct)
  case (start s)
  then show ?case by (simp add: locks_bounded_def lock_count_def)
next
  case (other s s')
  then show ?case using bounded_mono [of s s'] by (simp add: lock_count_def)
qed (use allocate_keeps release_keeps in blast)+

section \<open>Properties\<close>

text \<open>The number of git locks is bounded in every reachable state: at most one for a request, two for
  a test run or deployment, two for a test definition, and one more than \<open>MAX_GIT_CONNECTIONS\<close> in all
  (the comparison in the code is \<open>>\<close>).\<close>

theorem git_locks_bounded:
  assumes "locks_reachable s"
  shows "length (lookup_all (locks s) Lock_alive) \<le> MAX_GIT_CONNECTIONS + 1 \<and>
    length (lookup_all (locks s) (Lock_testOrDeployId (Some i))) \<le> 2 \<and>
    length (lookup_all (locks s) (Lock_testHash h)) \<le> 2 \<and>
    length (lookup_all (locks s) (Lock_requestUniqueId r)) \<le> 1"
  using reachable_bounded [OF assms] by (simp add: locks_bounded_def lock_count_def)

definition one_run :: "unit mgr" where
  "one_run = snd (new_run (default_run\<lparr>run_test := 0\<rparr>) (snd (new_test default_test (new_manager () 0))))"

lemma one_run_tables:
  "locks one_run = empty_tbl" "runs one_run = tbl_new run_keys 1 (default_run\<lparr>run_test := 0\<rparr>) empty_tbl"
  "tests one_run = tbl_new test_keys 0 default_test empty_tbl" "deployments one_run = empty_tbl"
  "next_id one_run = 2"
  by (simp_all add: one_run_def new_run_def new_test_def new_manager_def)

lemma one_run_ok: "locks_reachable one_run"
proof (rule locks_reachable.start)
  show "db_ok one_run"
    unfolding one_run_def by (intro db_ok_new(13) db_ok_new(8) db_ok_new_manager)
qed (simp add: one_run_tables fun_eq_iff)

definition one_lock :: "unit mgr" where
  "one_lock = snd (tryToAllocateGitRepoLock [] 1 one_run)"

lemma one_lock_reachable: "locks_reachable one_lock"
  by (simp add: one_lock_def one_run_ok locks_reachable.allocate)

lemma one_lock_granted: "fst (tryToAllocateGitRepoLock [] 1 one_run)"
  by (simp add: tryToAllocateGitRepoLock_def cleanupGitRepoLocks_def Let_def lock_test_hash_def
      one_run_tables lookup_any_None split: option.split)

theorem git_locks_bounded_witness:
  "length (lookup_all (locks one_lock) Lock_alive) \<in> {1..5}"
proof -
  have "length (lookup_all (locks one_lock) Lock_alive) \<noteq> 0"
    using one_lock_granted lock_count_new [of _ one_run Lock_alive]
    by (simp add: one_lock_def tryToAllocateGitRepoLock_def cleanupGitRepoLocks_def Let_def lock_test_hash_def
      one_run_tables lookup_any_None lock_count_def lock_keys_def split: option.split)
     
  then have "1 \<le> length (lookup_all (locks one_lock) Lock_alive)" by (simp add: Suc_leI)
  with git_locks_bounded [OF one_lock_reachable] show ?thesis by (simp add: MAX_GIT_CONNECTIONS_def)
qed

text \<open>\<open>MAX_GIT_CONNECTIONS\<close> is not the maximum: with that many locks held, the run of a test that holds
  none still gets one.\<close>

theorem git_lock_beyond_maximum:
  assumes "length (lookup_all (locks s) Lock_alive) = MAX_GIT_CONNECTIONS"
    "\<forall>l\<in>set (lookup_all (locks s) Lock_alive). \<not> lock_is_dead s (get_lock s l)"
    "lookup_all (locks s) (Lock_requestUniqueId r) = []" "lock_test_hash s i = Some h"
    "lookup_all (locks s) (Lock_testOrDeployId (Some i)) = []" "lookup_all (locks s) (Lock_testHash h) = []"
  shows "fst (tryToAllocateGitRepoLock r i s) \<and>
    length (lookup_all (locks (snd (tryToAllocateGitRepoLock r i s))) Lock_alive) = MAX_GIT_CONNECTIONS + 1"
proof -
  have "fold (\<lambda>lock s. if lock_is_dead s (get_lock s lock) then del_lock lock s else s) L s = s"
    if "\<forall>l\<in>set L. \<not> lock_is_dead s (get_lock s l)" for L
    using that by (induction L) auto
  then have c: "cleanupGitRepoLocks s = s" using assms(2) by (simp add: cleanupGitRepoLocks_def)
  have "lookup_any (locks s) (Lock_requestUniqueId r) = None" using assms(3) by (simp add: lookup_any_None)
  then show ?thesis using assms(1,4-6) lock_count_new [of _ s Lock_alive]
    by (simp add: tryToAllocateGitRepoLock_def c lock_count_def lock_keys_def)
qed

definition four_locks :: "unit mgr" where
  "four_locks =
     fold (\<lambda>i s. snd (new_lock \<lparr>lk_requestUniqueId = replicate i CHR ''r'', lk_testOrDeployId = Some (10 + i),
        lk_testHash = replicate (Suc i) CHR ''h''\<rparr> s)) [0, 1, 2, 3] one_run"

theorem git_lock_beyond_maximum_witness:
  "length (lookup_all (locks (snd (tryToAllocateGitRepoLock ''new'' 1 four_locks))) Lock_alive) = 5"
proof -
  have L: "locks four_locks = fold (\<lambda>i. tbl_new lock_keys (2 + i) \<lparr>lk_requestUniqueId = replicate i CHR ''r'',
      lk_testOrDeployId = Some (10 + i), lk_testHash = replicate (Suc i) CHR ''h''\<rparr>) [0, 1, 2, 3] empty_tbl"
    by (simp add: four_locks_def one_run_tables new_lock_def numeral_eq_Suc)
  have R: "runs four_locks = runs one_run" "tests four_locks = tests one_run" "deployments four_locks = deployments one_run"
    by (simp_all add: four_locks_def new_lock_def)
  note look = L lock_index.lookup_new lock_keys_def numeral_eq_Suc
  have "fst (tryToAllocateGitRepoLock ''new'' 1 four_locks) \<and>
    length (lookup_all (locks (snd (tryToAllocateGitRepoLock ''new'' 1 four_locks))) Lock_alive) =
      MAX_GIT_CONNECTIONS + 1"
  proof (rule git_lock_beyond_maximum [of _ _ _ "''''"])
    show "length (lookup_all (locks four_locks) Lock_alive) = MAX_GIT_CONNECTIONS"
      by (simp add: look MAX_GIT_CONNECTIONS_def)
    show "\<forall>l\<in>set (lookup_all (locks four_locks) Lock_alive). \<not> lock_is_dead four_locks (get_lock four_locks l)"
      by (simp add: look lock_is_dead_def get_lock_def R one_run_tables)
    show "lookup_all (locks four_locks) (Lock_requestUniqueId ''new'') = []"
      by (simp add: look)
    show "lock_test_hash four_locks 1 = Some ''''"
      by (simp add: lock_test_hash_def R one_run_tables get_run_def get_test_def default_test_def)
    show "lookup_all (locks four_locks) (Lock_testOrDeployId (Some 1)) = []"
      by (simp add: look)
    show "lookup_all (locks four_locks) (Lock_testHash '''') = []"
      by (simp add: look)
  qed
  then show ?thesis by (simp add: MAX_GIT_CONNECTIONS_def)
qed

text \<open>The answer tells whether the request holds a lock now, and releasing the request frees exactly
  that lock.\<close>

theorem git_lock_granted:
  assumes "locks_reachable s" "tryToAllocateGitRepoLock r i s = (granted, s')"
  shows "(granted \<longleftrightarrow> length (lookup_all (locks s') (Lock_requestUniqueId r)) = 1) \<and>
    (\<not> granted \<longrightarrow> lookup_all (locks s') (Lock_requestUniqueId r) = []) \<and>
    lookup_all (locks (gitRepoLockReleased r s')) (Lock_requestUniqueId r) = [] \<and>
    length (lookup_all (locks s') Lock_alive) =
      length (lookup_all (locks (gitRepoLockReleased r s')) Lock_alive) + (if granted then 1 else 0)"
proof -
  have s': "s' = snd (tryToAllocateGitRepoLock r i s)" using assms(2) by simp
  have ok: "db_ok s'" "lock_count s' (Lock_requestUniqueId r) \<le> 1"
    using reachable_bounded [OF locks_reachable.allocate [OF assms(1), of r i]]
    by (auto simp: s' locks_bounded_def)
  have t: "tbl_ok lock_keys (locks s')" using ok(1) by (simp add: db_ok_def)
  have eq: "granted \<longleftrightarrow> lookup_any (locks s') (Lock_requestUniqueId r) \<noteq> None"
    using assms(2)
    by (auto simp: tryToAllocateGitRepoLock_def Let_def lookup_any_None new_lock_def lock_index.lookup_new
        lock_keys_def split: option.splits if_splits)
  show ?thesis
  proof (cases "lookup_any (locks s') (Lock_requestUniqueId r)")
    case None
    then have "gitRepoLockReleased r s' = s'" "\<not> granted" using eq by (simp_all add: gitRepoLockReleased_def)
    then show ?thesis using None by (simp add: lookup_any_None)
  next
    case (Some l)
    then have "lookup_all (locks s') (Lock_requestUniqueId r) \<noteq> []" by (metis lookup_any_None option.distinct(1))
    then have one: "lookup_all (locks s') (Lock_requestUniqueId r) = [l]"
      using ok(2) Some by (cases "lookup_all (locks s') (Lock_requestUniqueId r)")
        (auto simp: lock_count_def lookup_any_def lookup_all_def)
    have "l \<in> set (lookup_all (locks s') Lock_alive)"
      using lock_index.lookup_anyD [OF t Some] by (auto simp: lock_index.in_lookup_iff [OF t] lock_keys_def)
    moreover have "distinct (lookup_all (locks s') Lock_alive)" by (rule lock_index.distinct_lookup [OF t])
    ultimately have "Suc (length (filter (\<lambda>x. x \<noteq> l) (lookup_all (locks s') Lock_alive))) =
        length (lookup_all (locks s') Lock_alive)" by (rule length_filter_other [rotated])
    then show ?thesis using eq one Some
      by (simp add: gitRepoLockReleased_def del_lock_def lock_index.lookup_delete [OF t])
  qed
qed

theorem git_lock_granted_witness:
  "length (lookup_all (locks one_lock) (Lock_requestUniqueId [])) = 1"
  using git_lock_granted [OF one_run_ok prod.collapse [symmetric], of "[]" 1] one_lock_granted
  by (simp only: one_lock_def simp_thms)

end
