(* ===== verification/Intake_Invariants.thy ===== *)
theory Intake_Invariants
  imports Call_Relations
begin

text \<open>
  What holds of the test manager's database whatever its background tasks do: no queued task is
  lost, the indices agree with the rows, a commit is stored once, the edges of the commit
  graph are those that the commits' data name, and nothing waits for a commit that has arrived. Both parts
  are interpretations of the locale of \<open>Call_Relations\<close>.
\<close>

section \<open>No task is lost\<close>

definition same_task :: "data_task \<Rightarrow> data_task \<Rightarrow> bool" where
  "same_task d d' \<longleftrightarrow> dt_task d' = dt_task d \<and> dt_status d' = dt_status d \<and> dt_prior d' = dt_prior d \<and>
     (dt_status d = Running \<longrightarrow> d' = d)"

definition only_queued :: "'m mgr \<Rightarrow> 'm mgr \<Rightarrow> bool" where
  "only_queued s s' \<longleftrightarrow> (tasks_inv s \<longrightarrow> tasks_inv s' \<and> next_id s \<le> next_id s' \<and>
     (\<forall>i d. rows (tasks s) i = Some d \<longrightarrow> (\<exists>d'. rows (tasks s') i = Some d' \<and> same_task d d')) \<and>
     (\<forall>i d. rows (tasks s') i = Some d \<longrightarrow> rows (tasks s) i = None \<longrightarrow> dt_status d \<noteq> Running \<and> next_id s \<le> i))"

lemma same_task_refl [simp]: "same_task d d"
  by (simp add: same_task_def)

lemma same_task_trans: "same_task c d \<Longrightarrow> same_task d e \<Longrightarrow> same_task c e"
  by (auto simp: same_task_def)

lemma only_queued_refl: "only_queued s s"
  by (auto simp: only_queued_def)

lemma only_queued_frame: "tasks s' = tasks s \<Longrightarrow> next_id s \<le> next_id s' \<Longrightarrow> only_queued s s'"
  unfolding only_queued_def using tasks_inv_frame by fastforce

lemma only_queued_trans:
  assumes "only_queued s t" "only_queued t u"
  shows "only_queued s u"
  unfolding only_queued_def
proof (intro impI conjI allI)
  assume inv: "tasks_inv s"
  note a = assms(1) [unfolded only_queued_def, rule_format, OF inv]
  then have "tasks_inv t" by blast
  note b = assms(2) [unfolded only_queued_def, rule_format, OF this]
  from b show "tasks_inv u" by blast
  from a b show "next_id s \<le> next_id u" by (meson le_trans)
  { fix i d assume "rows (tasks s) i = Some d"
    with a obtain d1 where "rows (tasks t) i = Some d1" "same_task d d1" by blast
    with b show "\<exists>d'. rows (tasks u) i = Some d' \<and> same_task d d'" by (meson same_task_trans) }
  { fix i d assume u: "rows (tasks u) i = Some d" and s: "rows (tasks s) i = None"
    show "dt_status d \<noteq> Running"
    proof (cases "rows (tasks t) i")
      case (Some d1)
      with b obtain d' where "rows (tasks u) i = Some d'" "same_task d1 d'" by blast
      with a Some s u show ?thesis by (auto simp: same_task_def)
    qed (use b u in blast)
    show "next_id s \<le> i"
    proof (cases "rows (tasks t) i")
      case None
      with b u have "next_id t \<le> i" by blast
      with a show ?thesis by simp
    qed (use a s in blast) }
qed

lemma only_queued_queue:
  assumes "st \<noteq> Running"
  shows "only_queued s (queueTask task st s)"
  unfolding only_queued_def
proof (intro impI conjI allI)
  assume inv: "tasks_inv s"
  show "tasks_inv (queueTask task st s)" by (rule queueTask_inv [OF inv assms])
  show "next_id s \<le> next_id (queueTask task st s)" by (simp add: rows_queueTask(2) [OF inv])
  have ok: "tbl_ok task_keys (tasks s)" and free: "rows (tasks s) (next_id s) = None"
    using inv by (auto simp: tasks_inv_def)
  have e: "\<exists>d. rows (tasks s) e = Some d \<and> dt_status d = st" if "lookup_any (tasks s) (Task_status st) = Some e" for e
    using task_index.lookup_anyD [OF ok that] by (auto simp: head_key)
  { fix i d assume "rows (tasks s) i = Some d"
    with free e show "\<exists>d'. rows (tasks (queueTask task st s)) i = Some d' \<and> same_task d d'"
      using assms by (auto simp: rows_queueTask(1) [OF inv] same_task_def split: option.split) }
  { fix i d assume "rows (tasks (queueTask task st s)) i = Some d" "rows (tasks s) i = None"
    then show "dt_status d \<noteq> Running" "next_id s \<le> i"
      using assms by (auto simp: rows_queueTask(1) [OF inv] fresh_task_def split: option.splits if_splits) }
qed

lemma only_queued_tables:
  "tasks (upd_repo i f s) = tasks s" "next_id (upd_repo i f s) = next_id s"
  "tasks (upd_commit i g s) = tasks s" "next_id (upd_commit i g s) = next_id s"
  "tasks (upd_commit_data i h s) = tasks s" "next_id (upd_commit_data i h s) = next_id s"
  by (simp_all add: upd_defs)

interpretation queued: machine_relation only_queued
proof
  show "only_queued s s'" if "harmless s s'" for s s' :: "'m mgr"
    using that by (auto simp: harmless_def intro: only_queued_frame)
qed (blast intro: only_queued_refl only_queued_trans only_queued_queue)+

lemma only_queued_source_dep: "only_queued s (snd (createSourceDep commit reponame hash_option s))"
  by (auto simp: createSourceDep_def new_unresolved_repo_def new_unresolved_source_def intro!: only_queued_frame
      split: option.splits)

lemma only_queued_commit: "only_queued s (snd (commit_by_hash repo hash s))"
proof -
  have "only_queued s (triggerCommitDataUpdate c (repoTouched repo (upd_repo repo f (snd (new_commit r s)))))" for c f r
    by (rule only_queued_trans [OF only_queued_frame queued.triggers(4)])
      (simp_all add: repoTouched_def only_queued_tables new_commit_def)
  then show ?thesis
    by (auto simp: commit_by_hash_def lookupCommitByHash_def Let_def case_prod_beta split: option.split)
qed

lemma only_queued_repo: "only_queued s (snd (createRepo name s))"
proof -
  have "only_queued s (del_unresolved_repo dep s)" for dep and s :: "'a mgr"
    by (rule only_queued_frame) (simp_all add: del_defs)
  then have step: "only_queued s (triggerCommitTestParse c (del_unresolved_repo dep (snd (createSourceDep c' name None s))))"
    for c c' dep and s :: "'a mgr"
    by (rule only_queued_trans [OF only_queued_trans [OF only_queued_source_dep] queued.triggers(3)])
  have new: "only_queued s (snd (new_repo row s))" for row
    by (rule only_queued_frame) (simp_all add: new_repo_def)
  show ?thesis
    unfolding createRepo_def Let_def case_prod_beta snd_conv
    by (rule only_queued_trans [OF new queued.in_fold]) (rule step)
qed

lemma only_queued_parents: "only_queued s (snd (lookup_parents repo hashes s))"
proof -
  have "only_queued s (snd (fold (\<lambda>p (ps, s). case commit_by_hash repo p s of (c, t) \<Rightarrow> (ps @ [c], t)) hashes (ps, s)))"
    for ps
    by (induction hashes arbitrary: ps s)
      (auto simp: only_queued_refl case_prod_beta intro: only_queued_trans [OF only_queued_commit])
  then show ?thesis unfolding lookup_parents_def .
qed

lemma only_queued_release: "only_queued s (release_source_deps repo hash s)"
  unfolding release_source_deps_def
  by (intro queued.in_fold only_queued_trans [OF only_queued_frame queued.triggers(3)]) (simp_all add: del_defs)

lemma only_queued_store: "only_queued s (store_commit_data repo commit info parents s)"
proof -
  have "only_queued s (upd_commit commit f (snd (new_commit_data row (repoTouched repo s))))"
    for f row and s :: "'a mgr"
    by (rule only_queued_frame) (simp_all add: upd_defs new_defs repoTouched_def)
  note data = only_queued_trans [OF this only_queued_release]
  have "only_queued s (fold (\<lambda>p s. snd (new_relationship \<lparr>rel_child = commit, rel_parent = p\<rparr> s)) ps s)"
    for ps and s :: "'a mgr"
    by (intro queued.in_fold only_queued_frame) (simp_all add: new_defs)
  then show ?thesis
    unfolding store_commit_data_def Let_def case_prod_beta
    by (rule only_queued_trans [OF data])
qed

lemma only_queued_learn: "only_queued s (snd (learn_commit repo info s))"
proof -
  have "only_queued s (store_commit_data repo c info ps (snd (lookup_parents r hs (snd (commit_by_hash repo h s)))))"
    for c ps r hs h
    by (rule only_queued_trans [OF only_queued_trans [OF only_queued_commit only_queued_parents] only_queued_store])
  then show ?thesis by (simp add: learn_commit_def case_prod_beta Let_def only_queued_commit)
qed

interpretation queued_intake: intake_relation only_queued
proof (rule intake_relation.intro [OF queued.machine_relation_axioms], rule intake_relation_axioms.intro)
  show "only_queued s (upd_repo i f s)" "only_queued s (upd_commit i h s)" "only_queued s (upd_commit_data i k s)"
    for i f h k and s :: "'m mgr"
    by (rule only_queued_frame; simp add: only_queued_tables)+
qed (rule only_queued_source_dep only_queued_commit only_queued_repo only_queued_learn)+

text \<open>C3: One round of \<open>performBackgroundWork\<close> with the real task processor removes exactly the task it took from
  the queue and keeps every other one, with its target and its priority, whatever the task does and also when
  it raises; what the task adds is waiting, and the chains of the queue stay intact.\<close>

theorem background_work_keeps_tasks:
  assumes inv: "tasks_inv s" and work: "background_work w sc depth now (s, g) = (taken, s', g')"
  shows "tasks_inv s' \<and>
    (case nextTask s of
       None \<Rightarrow> taken = None \<and> s' = s
     | Some t \<Rightarrow> taken = Some (dt_task (get_task s t)) \<and> rows (tasks s') t = None \<and>
         (\<forall>i d. i \<noteq> t \<longrightarrow> rows (tasks s) i = Some d \<longrightarrow>
            (\<exists>d'. rows (tasks s') i = Some d' \<and> dt_task d' = dt_task d \<and> dt_status d' = dt_status d)) \<and>
         (\<forall>i d. rows (tasks s) i = None \<longrightarrow> rows (tasks s') i = Some d \<longrightarrow> dt_status d \<noteq> Running))"
proof (cases "nextTask s")
  case None
  with inv work show ?thesis by (simp add: background_work_def)
next
  case (Some t)
  from nextTask_head [OF inv Some] obtain d where d: "rows (tasks s) t = Some d" "dt_isHead d" by blast
  define s1 where "s1 = startTask t s"
  have i1: "tasks_inv s1" unfolding s1_def by (rule startTask_inv [OF inv d])
  have r1: "rows (tasks s1) = (rows (tasks s))(t \<mapsto> d\<lparr>dt_status := Running\<rparr>)"
    by (rule ext) (simp add: s1_def startTask_def rows_upd_task d(1))
  obtain s2 where s2: "only_queued s1 s2" "s' = finishTask t s2" "taken = Some (dt_task (get_task s t))"
    using work queued_intake.processTask_in [of w sc depth "dt_task (get_task s t)" now]
    by (auto simp: background_work_def Some Let_def s1_def [symmetric] keepsA_def keepsR_def intro: only_queued_refl
        split: prod.splits sum.splits) (metis fst_conv snd_conv)+
  note q = s2(1) [unfolded only_queued_def, rule_format, OF i1]
  have "rows (tasks s1) t = Some (d\<lparr>dt_status := Running\<rparr>)" by (simp add: r1)
  with q obtain d' where "rows (tasks s2) t = Some d'" "same_task (d\<lparr>dt_status := Running\<rparr>) d'" by blast
  then have t2: "rows (tasks s2) t = Some (d\<lparr>dt_status := Running\<rparr>)"
    by (simp add: same_task_def)
  have i2: "tasks_inv s2" using q by blast
  have np: "dt_prior d \<noteq> Some t"
    using linkedD(1) [OF chains_okD(1), of "rows (tasks s)" t d t] inv d(1) by (auto simp: tasks_inv_def)
  have r': "rows (tasks s') = finish_rows t (rows (tasks s2))"
    unfolding s2(2) by (rule rows_finishTask [OF t2]) (simp add: np)
  have "tasks_inv s'" unfolding s2(2) by (rule finishTask_inv [OF i2 t2]) simp
  moreover have "rows (tasks s') t = None" using t2 np by (simp add: r' finish_rows_def split: option.split)
  moreover have kept: "\<exists>d'. rows (tasks s') i = Some d' \<and> dt_task d' = dt_task c \<and> dt_status d' = dt_status c"
    if "i \<noteq> t" "rows (tasks s) i = Some c" for i c
  proof -
    have "rows (tasks s1) i = Some c" using that by (simp add: r1)
    with q obtain c2 where "rows (tasks s2) i = Some c2" "same_task c c2" by blast
    then show ?thesis using that(1) t2
      by (auto simp: r' finish_rows_def same_task_def split: option.split)
  qed
  moreover have "dt_status c \<noteq> Running" if "rows (tasks s) i = None" "rows (tasks s') i = Some c" for i c
  proof -
    have "i \<noteq> t" using that(1) d(1) by auto
    then have "rows (tasks s1) i = None" using that(1) by (simp add: r1)
    moreover have "\<exists>c2. rows (tasks s2) i = Some c2 \<and> dt_status c2 = dt_status c"
      using that(2) t2 by (auto simp: r' finish_rows_def split: option.splits if_splits)
    ultimately show ?thesis using q by metis
  qed
  ultimately show ?thesis using Some s2(3) by simp
qed

section \<open>The commit graph\<close>

definition edge :: "(oid \<Rightarrow> relationship_row option) \<Rightarrow> oid \<Rightarrow> oid \<Rightarrow> bool" where
  "edge L c p \<longleftrightarrow> (\<exists>i. L i = Some \<lparr>rel_child = c, rel_parent = p\<rparr>)"

definition has_commit :: "(oid \<Rightarrow> commit_row option) \<Rightarrow> oid \<Rightarrow> string \<Rightarrow> bool" where
  "has_commit C r h \<longleftrightarrow> (\<exists>c row. C c = Some row \<and> cm_repo row = r \<and> cm_hash row = h \<and> cm_data row \<noteq> None)"

text \<open>A commit is stored once under its repository and hash, and a repository under its name; the data of a
  commit exist; the edges are those of the commits' data; nothing waits for a commit with data or for a
  repository that exists.\<close>

definition intake_ok :: "'m mgr \<Rightarrow> bool" where
  "intake_ok s \<longleftrightarrow> db_ok s \<and>
     (\<forall>i j r q. rows (commits s) i = Some r \<longrightarrow> rows (commits s) j = Some q \<longrightarrow>
        cm_repo r = cm_repo q \<longrightarrow> cm_hash r = cm_hash q \<longrightarrow> i = j) \<and>
     (\<forall>i r d. rows (commits s) i = Some r \<longrightarrow> cm_data r = Some d \<longrightarrow> rows (commit_datas s) d \<noteq> None) \<and>
     (\<forall>c p. edge (rows (relationships s)) c p \<longleftrightarrow> p \<in> set (parents_of s c)) \<and>
     (\<forall>i u. rows (unresolved_sources s) i = Some u \<longrightarrow> \<not> has_commit (rows (commits s)) (us_repo u) (us_commitHash u)) \<and>
     (\<forall>i u j r. rows (unresolved_repos s) i = Some u \<longrightarrow> rows (repos s) j = Some r \<longrightarrow> rp_name r \<noteq> ur_reponame u)"

lemma intake_okD:
  assumes "intake_ok s"
  shows "db_ok s"
    "rows (commits s) i = Some r \<Longrightarrow> rows (commits s) j = Some q \<Longrightarrow> cm_repo r = cm_repo q \<Longrightarrow> cm_hash r = cm_hash q \<Longrightarrow> i = j"
    "rows (commits s) i = Some r \<Longrightarrow> cm_data r = Some d \<Longrightarrow> rows (commit_datas s) d \<noteq> None"
    "edge (rows (relationships s)) c p \<longleftrightarrow> p \<in> set (parents_of s c)"
    "rows (unresolved_sources s) i = Some u \<Longrightarrow> \<not> has_commit (rows (commits s)) (us_repo u) (us_commitHash u)"
    "rows (unresolved_repos s) i = Some v \<Longrightarrow> rows (repos s) j = Some a \<Longrightarrow> rp_name a \<noteq> ur_reponame v"
  using assms unfolding intake_ok_def by blast+

lemma intake_okI:
  assumes "db_ok s"
    "\<And>i j r q. rows (commits s) i = Some r \<Longrightarrow> rows (commits s) j = Some q \<Longrightarrow> cm_repo r = cm_repo q \<Longrightarrow>
      cm_hash r = cm_hash q \<Longrightarrow> i = j"
    "\<And>i r d. rows (commits s) i = Some r \<Longrightarrow> cm_data r = Some d \<Longrightarrow> rows (commit_datas s) d \<noteq> None"
    "\<And>c p. edge (rows (relationships s)) c p \<longleftrightarrow> p \<in> set (parents_of s c)"
    "\<And>i u. rows (unresolved_sources s) i = Some u \<Longrightarrow> \<not> has_commit (rows (commits s)) (us_repo u) (us_commitHash u)"
    "\<And>i u j r. rows (unresolved_repos s) i = Some u \<Longrightarrow> rows (repos s) j = Some r \<Longrightarrow> rp_name r \<noteq> ur_reponame u"
  shows "intake_ok s"
  using assms unfolding intake_ok_def by blast

lemma parents_of_eq:
  "rows (commits s') c = rows (commits s) c \<Longrightarrow> rows (commit_datas s') = rows (commit_datas s) \<Longrightarrow>
   parents_of s' c = parents_of s c"
  by (simp add: parents_of_def commit_data_def get_commit_def get_commit_data_def split: option.split)

lemma intake_ok_tables:
  assumes "intake_ok s" "commit_tables s' = commit_tables s" "db_ok s'"
  shows "intake_ok s'"
proof -
  have "parents_of s' c = parents_of s c" for c
    using assms(2) by (intro parents_of_eq) (simp_all add: commit_tables_def)
  with assms show ?thesis by (simp add: intake_ok_def commit_tables_def)
qed

lemma queueTask_commit_tables: "commit_tables (queueTask a st s) = commit_tables s" "db_ok s \<Longrightarrow> db_ok (queueTask a st s)"
proof -
  obtain T n where "queueTask a st s = s\<lparr>tasks := T, next_id := n\<rparr>"
    using queueTask_same [of s a st] by (auto simp: same_but_tasks_def)
  then show "commit_tables (queueTask a st s) = commit_tables s" by (simp add: commit_tables_def)
  assume "db_ok s"
  then have "db_ok (snd (new_task r s))" for r by (rule db_ok_new)
  then show "db_ok (queueTask a st s)"
    by (auto simp: queueTask_def Let_def case_prod_beta intro!: db_ok_upd split: option.split)
qed

abbreviation keeps_intake :: "'m mgr \<Rightarrow> 'm mgr \<Rightarrow> bool" where
  "keeps_intake s s' \<equiv> intake_ok s \<longrightarrow> intake_ok s'"

interpretation intake_writes: machine_relation keeps_intake
proof
  have ok: "db_ok s" if "intake_ok s" for s :: "'m mgr" using that by (simp add: intake_ok_def)
  fix s s' :: "'m mgr"
  show "keeps_intake s s'" if "harmless s s'" using that ok intake_ok_tables by (auto simp: harmless_def)
  show "keeps_intake s (queueTask a st s)" for a st
    using queueTask_commit_tables ok intake_ok_tables by blast
qed auto

section \<open>Writes to the commit tables\<close>

lemma intake_ok_upd_repo:
  assumes "intake_ok s" "\<And>r. rp_name (f r) = rp_name r"
  shows "intake_ok (upd_repo i f s)"
proof -
  have "db_ok (upd_repo i f s)" using assms(1) by (auto simp: intake_ok_def)
  moreover have "parents_of (upd_repo i f s) c = parents_of s c" for c
    by (rule parents_of_eq) (simp_all add: upd_defs)
  ultimately show ?thesis using assms by (auto simp: intake_ok_def upd_defs split: if_splits)
qed

lemma parents_of_rows:
  "parents_of s c = (case rows (commits s) c of None \<Rightarrow> [] | Some r \<Rightarrow> (case cm_data r of None \<Rightarrow> []
     | Some d \<Rightarrow> (case rows (commit_datas s) d of None \<Rightarrow> [] | Some x \<Rightarrow> cd_parents x)))"
  by (simp add: parents_of_def commit_data_def get_commit_def get_commit_data_def default_commit_def
      default_commit_data_def split: option.split)

lemma intake_ok_upd_commit:
  assumes "intake_ok s" "\<And>c. cm_repo (h c) = cm_repo c \<and> cm_hash (h c) = cm_hash c \<and> cm_data (h c) = cm_data c"
  shows "intake_ok (upd_commit i h s)"
proof -
  let ?s = "upd_commit i h s"
  have C: "rows (commits ?s) j = (if j = i then map_option h (rows (commits s) i) else rows (commits s) j)" for j
    by (simp add: upd_defs)
  have old: "\<exists>r0. rows (commits s) j = Some r0 \<and> cm_repo r0 = cm_repo r \<and> cm_hash r0 = cm_hash r \<and>
      cm_data r0 = cm_data r" if "rows (commits ?s) j = Some r" for j r
    using that assms(2) by (auto simp: C split: if_splits)
  have sub: "has_commit (rows (commits s)) r x" if "has_commit (rows (commits ?s)) r x" for r x
  proof -
    from that obtain c row where "rows (commits ?s) c = Some row" "cm_repo row = r" "cm_hash row = x" "cm_data row \<noteq> None"
      unfolding has_commit_def by blast
    with old [of c row] show ?thesis unfolding has_commit_def by metis
  qed
  note k = intake_okD [OF assms(1)]
  show ?thesis
  proof (rule intake_okI)
    show "db_ok ?s" using k(1) by (rule db_ok_upd)
    show "a = b" if "rows (commits ?s) a = Some r" "rows (commits ?s) b = Some q" "cm_repo r = cm_repo q"
      "cm_hash r = cm_hash q" for a b r q
      using old [OF that(1)] old [OF that(2)] that(3,4) k(2) [of a _ b] by metis
    show "rows (commit_datas ?s) d \<noteq> None" if "rows (commits ?s) j = Some r" "cm_data r = Some d" for j r d
      using old [OF that(1)] that(2) k(3) [of j _ d] by (auto simp: upd_defs)
    have "parents_of ?s c = parents_of s c" for c
      using assms(2) by (simp add: parents_of_rows C) (simp add: upd_defs split: option.split)
    then show "edge (rows (relationships ?s)) c p \<longleftrightarrow> p \<in> set (parents_of ?s c)" for c p
      using k(4) [of c p] by (simp add: upd_defs)
    show "\<not> has_commit (rows (commits ?s)) (us_repo u) (us_commitHash u)"
      if "rows (unresolved_sources ?s) j = Some u" for j u
      using sub k(5) [of j u] that by (auto simp: upd_defs)
  qed (use k(6) in \<open>auto simp: upd_defs\<close>)
qed

lemma intake_ok_upd_data:
  assumes "intake_ok s" "\<And>d. cd_parents (k d) = cd_parents d"
  shows "intake_ok (upd_commit_data i k s)"
proof -
  let ?s = "upd_commit_data i k s"
  have D: "rows (commit_datas ?s) j = (if j = i then map_option k (rows (commit_datas s) i) else rows (commit_datas s) j)" for j
    by (simp add: upd_defs)
  have "db_ok ?s" using assms(1) by (auto simp: intake_ok_def)
  moreover have "parents_of ?s c = parents_of s c" for c
    using assms(2) by (simp add: parents_of_rows D) (simp add: upd_defs split: option.split)
  ultimately show ?thesis using assms(1) unfolding intake_ok_def D
    by (auto simp: upd_defs)
qed

section \<open>Looking up and creating\<close>

lemma queueTask_rows [simp]:
  "commits (queueTask a st s) = commits s" "repos (queueTask a st s) = repos s"
  "commit_datas (queueTask a st s) = commit_datas s" "relationships (queueTask a st s) = relationships s"
  "unresolved_sources (queueTask a st s) = unresolved_sources s"
  "unresolved_repos (queueTask a st s) = unresolved_repos s"
  using queueTask_commit_tables(1) [of a st s] by (simp_all add: commit_tables_def)

lemma intake_queue: "intake_ok s \<Longrightarrow> intake_ok (queueTask a st s)"
  by (rule intake_ok_tables [OF _ queueTask_commit_tables(1)]) (auto simp: intake_ok_def queueTask_commit_tables)

lemma intake_touched: "intake_ok s \<Longrightarrow> intake_ok (repoTouched r s)"
  using harmless_fields(5) intake_writes.outside by blast

lemma intake_ok_new_commit:
  assumes ok: "intake_ok s" and new: "lookup_any (commits s) (Commit_repo_and_hash repo h) = None"
  shows "intake_ok (snd (new_commit (default_commit\<lparr>cm_repo := repo, cm_hash := h\<rparr>) s))"
proof -
  let ?r = "default_commit\<lparr>cm_repo := repo, cm_hash := h\<rparr>"
  let ?s = "snd (new_commit ?r s)"
  note k = intake_okD [OF ok]
  have t: "tbl_ok commit_keys (commits s)" and free: "rows (commits s) (next_id s) = None"
    using k(1) by (auto simp: db_ok_def)
  have C: "rows (commits ?s) = (rows (commits s))(next_id s \<mapsto> ?r)" by (simp add: new_commit_def)
  have other: "\<not> (cm_repo q = repo \<and> cm_hash q = h)" if "rows (commits s) j = Some q" for j q
    using commit_index.lookup_any_NoneD [OF t new that] by (auto simp: commit_keys_def)
  show ?thesis
  proof (rule intake_okI)
    show "db_ok ?s" using k(1) by (rule db_ok_new)
    show "a = b" if "rows (commits ?s) a = Some r" "rows (commits ?s) b = Some q" "cm_repo r = cm_repo q"
      "cm_hash r = cm_hash q" for a b r q
      using that other [of a r] other [of b q] k(2) [of a r b q] by (auto simp: C split: if_splits)
    show "rows (commit_datas ?s) d \<noteq> None" if "rows (commits ?s) j = Some r" "cm_data r = Some d" for j r d
      using that k(3) [of j r d] by (auto simp: C default_commit_def new_commit_def split: if_splits)
    have "parents_of ?s c = parents_of s c" for c
      using free by (auto simp: parents_of_rows new_commit_def default_commit_def split: option.split)
    then show "edge (rows (relationships ?s)) c p \<longleftrightarrow> p \<in> set (parents_of ?s c)" for c p
      using k(4) [of c p] by (simp add: new_commit_def)
    have "has_commit (rows (commits s)) r x" if "has_commit (rows (commits ?s)) r x" for r x
      using that unfolding has_commit_def C by (auto simp: default_commit_def split: if_splits)
    then show "\<not> has_commit (rows (commits ?s)) (us_repo u) (us_commitHash u)"
      if "rows (unresolved_sources ?s) j = Some u" for j u
      using k(5) [of j u] that by (auto simp: new_commit_def)
  qed (use k(6) in \<open>auto simp: new_commit_def\<close>)
qed

lemma commit_by_hash_spec:
  assumes ok: "intake_ok s" and call: "commit_by_hash repo h s = (c, t)"
  shows "intake_ok t" "rows (commits s) \<subseteq>\<^sub>m rows (commits t)"
    "\<exists>r. rows (commits t) c = Some r \<and> cm_repo r = repo \<and> cm_hash r = h"
proof -
  have tab: "tbl_ok commit_keys (commits s)" and free: "rows (commits s) (next_id s) = None"
    using intake_okD(1) [OF ok] by (auto simp: db_ok_def)
  show "intake_ok t"
    using call ok
    by (auto simp: commit_by_hash_def lookupCommitByHash_def Let_def case_prod_beta triggerCommitDataUpdate_def
        intro!: intake_queue intake_touched intake_ok_upd_repo intake_ok_new_commit split: option.splits)
  show "rows (commits s) \<subseteq>\<^sub>m rows (commits t)"
    using call free
    by (auto simp: commit_by_hash_def lookupCommitByHash_def Let_def case_prod_beta triggerCommitDataUpdate_def
        repoTouched_def upd_repo_def new_commit_def map_le_def split: option.splits)
  show "\<exists>r. rows (commits t) c = Some r \<and> cm_repo r = repo \<and> cm_hash r = h"
  proof (cases "lookup_any (commits s) (Commit_repo_and_hash repo h)")
    case None
    with call show ?thesis
      by (auto simp: commit_by_hash_def lookupCommitByHash_def Let_def case_prod_beta triggerCommitDataUpdate_def
          repoTouched_def upd_repo_def new_commit_def)
  next
    case (Some d)
    with call have "d = c" "commits t = commits s"
      by (auto simp: commit_by_hash_def lookupCommitByHash_def triggerCommitDataUpdate_def)
    with commit_index.lookup_anyD [OF tab Some] show ?thesis by (auto simp: commit_keys_def)
  qed
qed

lemma intake_source_dep:
  assumes ok: "intake_ok s"
  shows "intake_ok (snd (createSourceDep commit reponame hash_option s))"
proof -
  note k = intake_okD [OF ok]
  have tabs: "tbl_ok repo_keys (repos s)" "tbl_ok commit_keys (commits s)" using k(1) by (auto simp: db_ok_def)
  have ur: "intake_ok (snd (new_unresolved_repo \<lparr>ur_commit = commit, ur_reponame = reponame\<rparr> s))"
    if none: "lookup_any (repos s) (Repo_name reponame) = None"
  proof (rule intake_okI)
    show "db_ok (snd (new_unresolved_repo \<lparr>ur_commit = commit, ur_reponame = reponame\<rparr> s))" using k(1) by (rule db_ok_new)
    show "rp_name r \<noteq> ur_reponame u"
      if u: "rows (unresolved_repos (snd (new_unresolved_repo \<lparr>ur_commit = commit, ur_reponame = reponame\<rparr> s))) i = Some u"
        and r: "rows (repos (snd (new_unresolved_repo \<lparr>ur_commit = commit, ur_reponame = reponame\<rparr> s))) j = Some r"
      for i u j r
      using u r k(6) [of i u j r] repo_index.lookup_any_NoneD [OF tabs(1) none, of j r]
      by (auto simp: new_unresolved_repo_def repo_keys_def split: if_splits)
  qed (use k(2-5) in \<open>auto simp: new_unresolved_repo_def parents_of_rows\<close>)
  have us: "intake_ok (snd (new_unresolved_source \<lparr>us_commit = commit, us_repo = repo, us_commitHash = h\<rparr> s))"
    if none: "\<not> has_commit (rows (commits s)) repo h" for repo h
  proof (rule intake_okI)
    show "db_ok (snd (new_unresolved_source \<lparr>us_commit = commit, us_repo = repo, us_commitHash = h\<rparr> s))"
      using k(1) by (rule db_ok_new)
    show "\<not> has_commit (rows (commits (snd (new_unresolved_source \<lparr>us_commit = commit, us_repo = repo,
        us_commitHash = h\<rparr> s)))) (us_repo u) (us_commitHash u)"
      if u: "rows (unresolved_sources (snd (new_unresolved_source \<lparr>us_commit = commit, us_repo = repo,
          us_commitHash = h\<rparr> s))) i = Some u" for i u
      using u k(5) [of i u] none by (auto simp: new_unresolved_source_def split: if_splits)
  qed (use k(2-4,6) in \<open>auto simp: new_unresolved_source_def parents_of_rows\<close>)
  have no: "\<not> has_commit (rows (commits s)) repo h"
    if "case lookup_any (commits s) (Commit_repo_and_hash repo h) of None \<Rightarrow> True | Some c \<Rightarrow> cm_data (get_commit s c) = None"
    for repo h
  proof
    assume "has_commit (rows (commits s)) repo h"
    then obtain c row where c: "rows (commits s) c = Some row" "cm_repo row = repo" "cm_hash row = h" "cm_data row \<noteq> None"
      by (auto simp: has_commit_def)
    then obtain d where d: "lookup_any (commits s) (Commit_repo_and_hash repo h) = Some d"
      using commit_index.lookup_any_NoneD [OF tabs(2) _ c(1)] by (auto simp: commit_keys_def)
    from commit_index.lookup_anyD [OF tabs(2) d] obtain r where
      "rows (commits s) d = Some r" "cm_repo r = repo" "cm_hash r = h" by (auto simp: commit_keys_def)
    with c k(2) [of c row d r] have "cm_data (get_commit s d) \<noteq> None" by (auto simp: get_commit_def)
    with that d show False by simp
  qed
  show ?thesis
    using ok ur us no by (auto simp: createSourceDep_def split: option.split)
qed

text \<open>Both kinds of waiting rows are dropped by a fold that deletes and queues.\<close>

lemma drop_repo_deps:
  assumes "lookup_any (repos s) (Repo_name name) \<noteq> None"
  defines "step \<equiv> \<lambda>dep s. triggerCommitTestParse (ur_commit (get_unresolved_repo s dep))
      (del_unresolved_repo dep (snd (createSourceDep (ur_commit (get_unresolved_repo s dep)) name None s)))"
  shows "repos (fold step L s) = repos s \<and> commits (fold step L s) = commits s \<and>
    commit_datas (fold step L s) = commit_datas s \<and> relationships (fold step L s) = relationships s \<and>
    unresolved_sources (fold step L s) = unresolved_sources s \<and>
    rows (unresolved_repos (fold step L s)) = rows (unresolved_repos s) |` (- set L) \<and>
    (db_ok s \<longrightarrow> db_ok (fold step L s))"
  using assms(1)
proof (induction L arbitrary: s)
  case (Cons dep L)
  have step: "step dep s = triggerCommitTestParse (ur_commit (get_unresolved_repo s dep)) (del_unresolved_repo dep s)"
    using Cons.prems by (auto simp: step_def createSourceDep_def)
  have "db_ok s \<longrightarrow> db_ok (step dep s)"
    unfolding step triggerCommitTestParse_def by (auto intro!: queueTask_commit_tables(2) db_ok_del)
  moreover have "lookup_any (repos (step dep s)) (Repo_name name) \<noteq> None"
    using Cons.prems by (simp add: step triggerCommitTestParse_def del_unresolved_repo_def)
  ultimately show ?case using Cons.IH [of "step dep s"]
    by (auto simp: step triggerCommitTestParse_def del_unresolved_repo_def restrict_map_def fun_eq_iff)
qed (simp add: restrict_map_def)

lemma intake_createRepo:
  assumes ok: "intake_ok s"
  shows "intake_ok (snd (createRepo name s))"
proof -
  define s1 where "s1 = snd (new_repo (default_repo\<lparr>rp_name := name, rp_isActive := True\<rparr>) s)"
  define L where "L = lookup_all (unresolved_repos s1) (UR_reponame name)"
  define v where "v = snd (createRepo name s)"
  note k = intake_okD [OF ok]
  have "lookup_all (repos s1) (Repo_name name) \<noteq> []"
    by (simp add: s1_def new_repo_def repo_index.lookup_new repo_keys_def default_repo_def)
  then have "lookup_any (repos s1) (Repo_name name) \<noteq> None" by (simp add: lookup_any_None)
  note d = drop_repo_deps [OF this, of L]
  have v: "v = fold (\<lambda>dep s. triggerCommitTestParse (ur_commit (get_unresolved_repo s dep))
      (del_unresolved_repo dep (snd (createSourceDep (ur_commit (get_unresolved_repo s dep)) name None s)))) L s1"
    unfolding v_def createRepo_def L_def s1_def by (simp add: case_prod_beta Let_def)
  have same: "commits s1 = commits s" "commit_datas s1 = commit_datas s" "relationships s1 = relationships s"
    "unresolved_sources s1 = unresolved_sources s" "unresolved_repos s1 = unresolved_repos s"
    by (simp_all add: s1_def new_repo_def)
  have "db_ok s1" unfolding s1_def using k(1) by (rule db_ok_new)
  note D = d [folded v]
  have db: "db_ok v" using D \<open>db_ok s1\<close> by blast
  have ur: "rows (unresolved_repos s) i = Some u \<and> ur_reponame u \<noteq> name" if "rows (unresolved_repos v) i = Some u" for i u
  proof -
    have tab: "tbl_ok unresolved_repo_keys (unresolved_repos s)" using k(1) by (simp add: db_ok_def)
    from that D have "rows (unresolved_repos s) i = Some u" "i \<notin> set L" by (auto simp: same restrict_map_def split: if_splits)
    then show ?thesis using unresolved_repo_index.in_lookup_iff [OF tab, of i "UR_reponame name"]
      by (auto simp: L_def same unresolved_repo_keys_def)
  qed
  have "intake_ok v"
  proof (rule intake_okI [OF db])
    show "rp_name r \<noteq> ur_reponame u" if "rows (unresolved_repos v) i = Some u" "rows (repos v) j = Some r" for i u j r
    proof (cases "j = next_id s")
      case True
      with that(2) D have "rp_name r = name" by (auto simp: s1_def new_repo_def default_repo_def)
      with ur [OF that(1)] show ?thesis by auto
    next
      case False
      with that(2) D have "rows (repos s) j = Some r" by (simp add: s1_def new_repo_def)
      with ur [OF that(1)] k(6) show ?thesis by blast
    qed
    show "edge (rows (relationships v)) c p \<longleftrightarrow> p \<in> set (parents_of v c)" for c p
      using D k(4) by (simp add: same parents_of_rows)
  qed (use D k(2,3,5) in \<open>auto simp: same\<close>)
  then show ?thesis by (simp add: v_def)
qed

section \<open>Learning a commit\<close>

lemma lookup_parents_spec:
  assumes "intake_ok s" "lookup_parents repo hashes s = (ps, t)"
  shows "intake_ok t \<and> rows (commits s) \<subseteq>\<^sub>m rows (commits t)"
proof -
  define f where "f = (\<lambda>p (ps, s). case commit_by_hash repo p s of (c, t) \<Rightarrow> (ps @ [c], t :: 'a mgr))"
  have "intake_ok (snd (fold f hashes (ps, s))) \<and> rows (commits s) \<subseteq>\<^sub>m rows (commits (snd (fold f hashes (ps, s))))"
    if "intake_ok s" for ps s
    using that
  proof (induction hashes arbitrary: ps s)
    case (Cons h hs)
    obtain c u where u: "commit_by_hash repo h s = (c, u)" by fastforce
    note spec = commit_by_hash_spec [OF Cons.prems u]
    have "fold f (h # hs) (ps, s) = fold f hs (ps @ [c], u)" by (simp add: f_def u)
    with Cons.IH [OF spec(1), of "ps @ [c]"] spec(2) show ?case using map_le_trans by auto
  qed simp
  from this [OF assms(1), of "[]"] show ?thesis
    using assms(2) by (simp add: lookup_parents_def f_def)
qed

lemma drop_source_deps:
  "repos (release_source_deps repo h s) = repos s \<and> commits (release_source_deps repo h s) = commits s \<and>
    commit_datas (release_source_deps repo h s) = commit_datas s \<and>
    relationships (release_source_deps repo h s) = relationships s \<and>
    unresolved_repos (release_source_deps repo h s) = unresolved_repos s \<and>
    rows (unresolved_sources (release_source_deps repo h s)) =
      rows (unresolved_sources s) |` (- set (lookup_all (unresolved_sources s) (US_repo_and_hash repo h))) \<and>
    (db_ok s \<longrightarrow> db_ok (release_source_deps repo h s))"
proof -
  define f where "f = (\<lambda>dep s. triggerCommitTestParse (us_commit (get_unresolved_source s dep)) (del_unresolved_source dep s :: 'a mgr))"
  have "repos (fold f L s) = repos s \<and> commits (fold f L s) = commits s \<and> commit_datas (fold f L s) = commit_datas s \<and>
    relationships (fold f L s) = relationships s \<and> unresolved_repos (fold f L s) = unresolved_repos s \<and>
    rows (unresolved_sources (fold f L s)) = rows (unresolved_sources s) |` (- set L) \<and>
    (db_ok s \<longrightarrow> db_ok (fold f L s))" for L s
  proof (induction L arbitrary: s)
    case (Cons dep L)
    have "db_ok s \<longrightarrow> db_ok (f dep s)"
      unfolding f_def triggerCommitTestParse_def by (auto intro!: queueTask_commit_tables(2) db_ok_del)
    with Cons.IH [of "f dep s"] show ?case
      by (auto simp: f_def triggerCommitTestParse_def del_unresolved_source_def restrict_map_def fun_eq_iff)
  qed (simp add: restrict_map_def)
  then show ?thesis unfolding release_source_deps_def f_def .
qed

lemma new_edges:
  fixes s :: "'m mgr" and ps :: "oid list" and commit :: oid
  assumes "db_ok s"
  defines "t \<equiv> fold (\<lambda>p s. snd (new_relationship \<lparr>rel_child = commit, rel_parent = p\<rparr> s)) ps s"
  shows "repos t = repos s" "commits t = commits s" "commit_datas t = commit_datas s"
    "unresolved_sources t = unresolved_sources s" "unresolved_repos t = unresolved_repos s" "db_ok t"
    "edge (rows (relationships t)) c p \<longleftrightarrow> edge (rows (relationships s)) c p \<or> c = commit \<and> p \<in> set ps"
proof -
  define f where "f = (\<lambda>p s. snd (new_relationship \<lparr>rel_child = commit, rel_parent = p\<rparr> (s :: 'm mgr)))"
  have "repos (fold f ps s) = repos s \<and> commits (fold f ps s) = commits s \<and> commit_datas (fold f ps s) = commit_datas s \<and>
    unresolved_sources (fold f ps s) = unresolved_sources s \<and> unresolved_repos (fold f ps s) = unresolved_repos s \<and>
    db_ok (fold f ps s) \<and>
    (edge (rows (relationships (fold f ps s))) c p \<longleftrightarrow> edge (rows (relationships s)) c p \<or> c = commit \<and> p \<in> set ps)"
    using assms(1)
  proof (induction ps arbitrary: s)
    case (Cons q qs)
    have "rows (relationships s) (next_id s) = None" using Cons.prems by (simp add: db_ok_def)
    then have "edge (rows (relationships (f q s))) c p \<longleftrightarrow> edge (rows (relationships s)) c p \<or> c = commit \<and> p = q"
      unfolding edge_def f_def new_relationship_def by auto (metis option.distinct(1))
    moreover have "db_ok (f q s)" unfolding f_def using Cons.prems by (rule db_ok_new)
    moreover have "repos (f q s) = repos s" "commits (f q s) = commits s" "commit_datas (f q s) = commit_datas s"
      "unresolved_sources (f q s) = unresolved_sources s" "unresolved_repos (f q s) = unresolved_repos s"
      by (simp_all add: f_def new_relationship_def)
    ultimately show ?case using Cons.IH [of "f q s"] by auto
  qed simp
  then show "repos t = repos s" "commits t = commits s" "commit_datas t = commit_datas s"
    "unresolved_sources t = unresolved_sources s" "unresolved_repos t = unresolved_repos s" "db_ok t"
    "edge (rows (relationships t)) c p \<longleftrightarrow> edge (rows (relationships s)) c p \<or> c = commit \<and> p \<in> set ps"
    unfolding t_def f_def by blast+
qed

lemma intake_store:
  assumes ok: "intake_ok s" and c: "rows (commits s) commit = Some row" "cm_repo row = repo" "cm_hash row = ci_hash info"
    "cm_data row = None"
  shows "intake_ok (store_commit_data repo commit info parents s)"
proof -
  let ?h = "ci_hash info"
  define s0 where "s0 = repoTouched repo s"
  define d where "d = next_id s0"
  define data where "data = commit_data_of commit info parents"
  define s2 where "s2 = upd_commit commit (\<lambda>c. c\<lparr>cm_data := Some d\<rparr>) (snd (new_commit_data data s0))"
  define s3 where "s3 = release_source_deps repo ?h s2"
  define v where "v = store_commit_data repo commit info parents s"
  have v: "v = fold (\<lambda>p s. snd (new_relationship \<lparr>rel_child = commit, rel_parent = p\<rparr> s)) parents s3"
    by (simp add: v_def store_commit_data_def s3_def s2_def d_def data_def s0_def case_prod_beta Let_def new_commit_data_def)
  note k = intake_okD [OF ok]
  have s0: "db_ok s0" "d = next_id s" using intake_touched [OF ok] by (auto simp: s0_def d_def intake_ok_def repoTouched_def)
  have db2: "db_ok s2" unfolding s2_def using s0(1) by (intro db_ok_upd db_ok_new)
  have t2: "repos s2 = repos s" "relationships s2 = relationships s" "unresolved_sources s2 = unresolved_sources s"
    "unresolved_repos s2 = unresolved_repos s"
    by (simp_all add: s2_def s0_def upd_defs new_defs repoTouched_def)
  have C2: "rows (commits s2) = (rows (commits s))(commit \<mapsto> row\<lparr>cm_data := Some d\<rparr>)"
    using c(1) by (auto simp: s2_def s0_def upd_defs new_defs repoTouched_def)
  have D2: "rows (commit_datas s2) = (rows (commit_datas s))(d \<mapsto> data)"
    by (simp add: s2_def s0_def d_def upd_defs new_defs repoTouched_def)
  have fresh: "rows (commit_datas s) d = None" using k(1) s0(2) by (simp add: db_ok_def)
  note r = drop_source_deps [of repo ?h s2, folded s3_def]
  note e = new_edges [of s3 commit parents, folded v]
  have db3: "db_ok s3" using r db2 by blast
  note e = e [OF db3]
  have tabs: "repos v = repos s" "commits v = commits s2" "commit_datas v = commit_datas s2"
    "unresolved_repos v = unresolved_repos s"
    using e r t2 by simp_all
  have US: "rows (unresolved_sources s) i = Some u \<and> \<not> (us_repo u = repo \<and> us_commitHash u = ?h)"
    if "rows (unresolved_sources v) i = Some u" for i u
  proof -
    have tab: "tbl_ok unresolved_source_keys (unresolved_sources s2)" using db2 by (simp add: db_ok_def)
    from that e r have "rows (unresolved_sources s2) i = Some u"
      "i \<notin> set (lookup_all (unresolved_sources s2) (US_repo_and_hash repo ?h))"
      by (auto simp: restrict_map_def split: if_splits)
    then show ?thesis using unresolved_source_index.in_lookup_iff [OF tab, of i "US_repo_and_hash repo ?h"]
      by (auto simp: t2 unresolved_source_keys_def)
  qed
  have "intake_ok v"
  proof (rule intake_okI [OF e(6)])
    show "i = j" if "rows (commits v) i = Some r" "rows (commits v) j = Some q" "cm_repo r = cm_repo q"
      "cm_hash r = cm_hash q" for i j r q
      using that k(2) [of i _ j q] k(2) [of i r j] c(1) by (auto simp: tabs C2 split: if_splits)
    show "rows (commit_datas v) e \<noteq> None" if "rows (commits v) j = Some r" "cm_data r = Some e" for j r e
      using that k(3) [of j r e] by (auto simp: tabs C2 D2 split: if_splits)
    show "edge (rows (relationships v)) a p \<longleftrightarrow> p \<in> set (parents_of v a)" for a p
    proof -
      have "parents_of v a = (if a = commit then parents else parents_of s a)"
        using k(3) [of a _ d] fresh
        by (auto simp: parents_of_rows tabs C2 D2 data_def commit_data_of_def split: option.split)
      moreover have "parents_of s commit = []" using c by (simp add: parents_of_rows)
      ultimately show ?thesis using e(7) [of a p] r k(4) [of a p] by (auto simp: t2)
    qed
    show "\<not> has_commit (rows (commits v)) (us_repo u) (us_commitHash u)"
      if "rows (unresolved_sources v) i = Some u" for i u
      using US [OF that] k(5) [of i u] c(2,3) by (auto simp: has_commit_def tabs C2 split: if_splits)
    show "rp_name r \<noteq> ur_reponame u" if "rows (unresolved_repos v) i = Some u" "rows (repos v) j = Some r" for i u j r
      using that k(6) by (simp add: tabs)
  qed
  then show ?thesis by (simp add: v_def)
qed

lemma intake_learn:
  assumes "intake_ok s"
  shows "intake_ok (snd (learn_commit repo info s))"
proof -
  obtain c s1 where 1: "commit_by_hash repo (ci_hash info) s = (c, s1)" by fastforce
  note spec = commit_by_hash_spec [OF assms 1]
  then obtain row where row: "rows (commits s1) c = Some row" "cm_repo row = repo" "cm_hash row = ci_hash info" by blast
  obtain ps s2 where 2: "lookup_parents repo (ci_parents info) s1 = (ps, s2)" by fastforce
  have ok2: "intake_ok s2" and "rows (commits s1) \<subseteq>\<^sub>m rows (commits s2)" using lookup_parents_spec [OF spec(1) 2] by auto
  with row(1) have "rows (commits s2) c = Some row" by (auto simp: map_le_def dom_def)
  with intake_store [OF ok2 this row(2,3)] spec(1) row(1) show ?thesis
    by (auto simp: learn_commit_def 1 2 get_commit_def row(2))
qed

interpretation intake_always: intake_relation keeps_intake
proof (rule intake_relation.intro [OF intake_writes.machine_relation_axioms], rule intake_relation_axioms.intro)
  fix s :: "'m mgr"
  show "keeps_intake s (upd_repo i f s)" if "\<And>r. rp_name (f r) = rp_name r" for i f
    using intake_ok_upd_repo that by blast
  show "keeps_intake s (upd_commit i h s)"
    if "\<And>c. cm_repo (h c) = cm_repo c \<and> cm_hash (h c) = cm_hash c \<and> cm_data (h c) = cm_data c" for i h
    using intake_ok_upd_commit that by blast
  show "keeps_intake s (upd_commit_data i k s)" if "\<And>d. cd_parents (k d) = cd_parents d" for i k
    using intake_ok_upd_data that by blast
  show "keeps_intake s (snd (commit_by_hash repo hash s))" for repo hash
    using commit_by_hash_spec(1) by (metis prod.collapse)
qed (use intake_source_dep intake_createRepo intake_learn in blast)+

lemma intake_finish:
  assumes "intake_ok s"
  shows "intake_ok (finishTask t s)"
proof (rule intake_ok_tables [OF assms])
  show "commit_tables (finishTask t s) = commit_tables s"
    by (simp add: finishTask_def commit_tables_def upd_task_def del_task_def Let_def split: option.split)
  show "db_ok (finishTask t s)"
    using intake_okD(1) [OF assms] unfolding finishTask_def Let_def
    by (auto intro!: db_ok_del db_ok_upd split: option.split)
qed

lemma children_of_edges:
  assumes "intake_ok s"
  shows "c \<in> set (children_of s p) \<longleftrightarrow> edge (rows (relationships s)) c p"
proof -
  have tab: "tbl_ok relationship_keys (relationships s)" using intake_okD(1) [OF assms] by (simp add: db_ok_def)
  have "i \<in> set (lookup_all (relationships s) (Rel_parent p)) \<longleftrightarrow>
      (\<exists>r. rows (relationships s) i = Some r \<and> rel_parent r = p)" for i
    using relationship_index.in_lookup_iff [OF tab, of i "Rel_parent p"] by (auto simp: relationship_keys_def)
  then have "c \<in> set (children_of s p) \<longleftrightarrow>
      (\<exists>i. (\<exists>r. rows (relationships s) i = Some r \<and> rel_parent r = p) \<and> c = rel_child (get_relationship s i))"
    unfolding children_of_def set_map image_iff Bex_def by simp
  also have "\<dots> \<longleftrightarrow> (\<exists>i r. rows (relationships s) i = Some r \<and> rel_parent r = p \<and> rel_child r = c)"
    by (auto simp: get_relationship_def) force
  also have "\<dots> \<longleftrightarrow> edge (rows (relationships s)) c p"
  proof -
    have "rel_parent r = p \<and> rel_child r = c \<longleftrightarrow> r = \<lparr>rel_child = c, rel_parent = p\<rparr>" for r :: relationship_row
      by (cases r) auto
    then show ?thesis unfolding edge_def by auto
  qed
  finally show ?thesis .
qed


section \<open>Commits that wait are read again\<close>

definition waiting_for :: "background_task \<Rightarrow> 'm mgr \<Rightarrow> bool" where
  "waiting_for a s \<longleftrightarrow> (\<exists>t d. rows (tasks s) t = Some d \<and> dt_task d = a \<and> dt_status d \<noteq> Running)"

lemma waiting_stays: "only_queued s s' \<Longrightarrow> tasks_inv s \<Longrightarrow> waiting_for a s \<Longrightarrow> waiting_for a s'"
  unfolding only_queued_def waiting_for_def same_task_def by metis

lemma waiting_queued: "tasks_inv s \<Longrightarrow> st \<noteq> Running \<Longrightarrow> waiting_for a (queueTask a st s)"
  unfolding waiting_for_def
  by (rule exI [of _ "next_id s"]) (auto simp: rows_queueTask(1) fresh_task_def split: option.split)

lemma only_queued_inv: "only_queued s s' \<Longrightarrow> tasks_inv s \<Longrightarrow> tasks_inv s'"
  by (simp add: only_queued_def)

text \<open>A commit is read again only when it waits for nothing else.\<close>

definition settled :: "oid \<Rightarrow> 'm mgr \<Rightarrow> bool" where
  "settled c s \<longleftrightarrow> waiting_for (CommitTestParse c) s \<or> lookup_all (unresolved_repos s) (UR_commit c) \<noteq> [] \<or>
     lookup_all (unresolved_sources s) (US_commit c) \<noteq> []"

lemma release_settles:
  assumes inv: "tasks_inv s" and db: "db_ok s" and u: "rows (unresolved_sources s) i = Some u"
    and i: "i \<in> set (lookup_all (unresolved_sources s) (US_repo_and_hash repo h))"
  shows "settled (us_commit u) (release_source_deps repo h s)"
proof -
  let ?c = "us_commit u"
  define f where "f = (\<lambda>dep s. triggerCommitTestParse (us_commit (get_unresolved_source s dep)) (del_unresolved_source dep s :: 'a mgr))"
  have step: "only_queued s (f dep s)" for dep s
    unfolding f_def by (rule only_queued_trans [OF only_queued_frame queued.triggers(3)]) (simp_all add: del_defs)
  have db_step: "db_ok s \<Longrightarrow> db_ok (f dep s)" for dep s
    unfolding f_def triggerCommitTestParse_def by (auto intro!: queueTask_commit_tables(2) db_ok_del)
  have own: "settled ?c (f dep s)" if "tasks_inv s" "rows (unresolved_sources s) dep = Some v" "us_commit v = ?c" for dep v s
  proof -
    have "tasks_inv (del_unresolved_source dep s)" by (rule tasks_inv_frame [OF that(1)]) (simp_all add: del_defs)
    then show ?thesis using that(2,3)
      by (auto simp: f_def get_unresolved_source_def triggerCommitTestParse_def settled_def waiting_queued)
  qed
  have keep: "settled ?c (f dep s)" if "tasks_inv s" "db_ok s" "settled ?c s" for dep s
  proof (cases "\<exists>v. rows (unresolved_sources s) dep = Some v \<and> us_commit v = ?c")
    case False
    have tab: "tbl_ok unresolved_source_keys (unresolved_sources s)" using that(2) by (simp add: db_ok_def)
    have "dep \<notin> set (lookup_all (unresolved_sources s) (US_commit ?c))"
      using False unresolved_source_index.in_lookup_iff [OF tab] by (auto simp: unresolved_source_keys_def)
    then have "filter (\<lambda>x. x \<noteq> dep) (lookup_all (unresolved_sources s) (US_commit ?c)) =
        lookup_all (unresolved_sources s) (US_commit ?c)" by (auto intro: filter_True)
    then have "lookup_all (unresolved_sources (f dep s)) (US_commit ?c) = lookup_all (unresolved_sources s) (US_commit ?c)"
      by (simp add: f_def triggerCommitTestParse_def del_unresolved_source_def unresolved_source_index.lookup_delete [OF tab])
    moreover have "unresolved_repos (f dep s) = unresolved_repos s"
      by (simp add: f_def triggerCommitTestParse_def del_defs)
    ultimately show ?thesis using that(3) waiting_stays [OF step that(1)] by (auto simp: settled_def)
  qed (use own that in blast)
  have keep_all: "settled ?c (fold f L s)" if "tasks_inv s" "db_ok s" "settled ?c s" for L s
    using that by (induction L arbitrary: s) (simp_all add: keep db_step only_queued_inv [OF step])
  have "settled ?c (fold f L s)"
    if "tasks_inv s" "db_ok s" "rows (unresolved_sources s) i = Some u" "i \<in> set L" for L s
    using that
  proof (induction L arbitrary: s)
    case (Cons dep L)
    have after: "tasks_inv (f dep s)" "db_ok (f dep s)"
      using only_queued_inv [OF step] db_step Cons.prems(1,2) by blast+
    show ?case
    proof (cases "dep = i")
      case True
      with own Cons.prems(1,3) keep_all [OF after] show ?thesis by auto
    next
      case False
      have "rows (unresolved_sources (f dep s)) i = Some u"
        using False Cons.prems(3) by (simp add: f_def triggerCommitTestParse_def del_defs)
      with Cons.IH [OF after] False Cons.prems(4) show ?thesis by auto
    qed
  qed simp
  then show ?thesis using inv db u i unfolding release_source_deps_def f_def by blast
qed

lemma commit_by_hash_sources: "unresolved_sources (snd (commit_by_hash repo h s)) = unresolved_sources s"
  by (simp add: commit_by_hash_def lookupCommitByHash_def triggerCommitDataUpdate_def Let_def case_prod_beta
      repoTouched_def upd_defs new_defs split: option.split)

lemma lookup_parents_sources: "unresolved_sources (snd (lookup_parents repo hashes s)) = unresolved_sources s"
proof -
  have "unresolved_sources (snd (fold (\<lambda>p (ps, s). case commit_by_hash repo p s of (c, t) \<Rightarrow> (ps @ [c], t)) hashes (ps, s))) =
      unresolved_sources s" for ps
    by (induction hashes arbitrary: ps s) (simp_all add: case_prod_beta commit_by_hash_sources)
  then show ?thesis by (simp add: lookup_parents_def)
qed

text \<open>C5: When git's answer for a commit is stored, nothing that waited for that commit still does: every such
  entry is gone, and the commit it belonged to either waits for something else that is still missing, or a task
  that reads its test definitions again is in the queue.\<close>

theorem waiting_commits_are_read_again:
  assumes ok: "intake_ok s" and inv: "tasks_inv s" and learn: "learn_commit repo info s = (Some (c, ps), s')"
    and u: "rows (unresolved_sources s) i = Some u" "us_repo u = repo" "us_commitHash u = ci_hash info"
  shows "rows (unresolved_sources s') i = None \<and>
    ((\<exists>t d. rows (tasks s') t = Some d \<and> dt_task d = CommitTestParse (us_commit u) \<and> dt_status d \<noteq> Running) \<or>
     lookup_all (unresolved_repos s') (UR_commit (us_commit u)) \<noteq> [] \<or>
     lookup_all (unresolved_sources s') (US_commit (us_commit u)) \<noteq> [])"
proof -
  let ?h = "ci_hash info"
  define s1 where "s1 = snd (commit_by_hash repo ?h s)"
  define s2 where "s2 = snd (lookup_parents (cm_repo (get_commit s1 c)) (ci_parents info) s1)"
  define s3 where "s3 = upd_commit c (\<lambda>r. r\<lparr>cm_data := Some (next_id s2)\<rparr>)
    (snd (new_commit_data (commit_data_of c info ps) (repoTouched repo s2)))"
  define s4 where "s4 = release_source_deps repo ?h s3"
  have s': "s' = fold (\<lambda>p s. snd (new_relationship \<lparr>rel_child = c, rel_parent = p\<rparr> s)) ps s4"
    using learn unfolding learn_commit_def case_prod_beta
    by (auto simp: s1_def s2_def s3_def s4_def store_commit_data_def new_commit_data_def repoTouched_def Let_def
        split: if_splits)
  obtain c1 where c1: "commit_by_hash repo ?h s = (c1, s1)" unfolding s1_def by (metis prod.collapse)
  obtain ps2 where ps2: "lookup_parents (cm_repo (get_commit s1 c)) (ci_parents info) s1 = (ps2, s2)"
    unfolding s2_def by (metis prod.collapse)
  have "intake_ok s2" using lookup_parents_spec [OF commit_by_hash_spec(1) [OF ok c1] ps2] by blast
  then have db3: "db_ok s3" unfolding s3_def
    by (intro db_ok_upd db_ok_new intake_okD(1) intake_touched)
  have q: "only_queued s s3"
  proof -
    have "only_queued s2 s3" by (rule only_queued_frame) (simp_all add: s3_def upd_defs new_defs repoTouched_def)
    then show ?thesis unfolding s2_def s1_def
      by (rule only_queued_trans [OF only_queued_trans [OF only_queued_commit only_queued_parents]])
  qed
  have us: "unresolved_sources s3 = unresolved_sources s"
    by (simp add: s3_def s2_def s1_def upd_defs new_defs repoTouched_def lookup_parents_sources commit_by_hash_sources)
  have "tbl_ok unresolved_source_keys (unresolved_sources s)" using intake_okD(1) [OF ok] by (simp add: db_ok_def)
  then have i: "i \<in> set (lookup_all (unresolved_sources s3) (US_repo_and_hash repo ?h))"
    using unresolved_source_index.in_lookup_iff u by (simp add: us unresolved_source_keys_def)
  have i3: "tasks_inv s3" by (rule only_queued_inv [OF q inv])
  have "settled (us_commit u) s4"
    unfolding s4_def by (rule release_settles [OF i3 db3 _ i]) (simp add: us u(1))
  moreover have "tasks s' = tasks s4 \<and> unresolved_repos s' = unresolved_repos s4 \<and>
      unresolved_sources s' = unresolved_sources s4"
  proof -
    have "tasks (fold (\<lambda>p s. snd (new_relationship \<lparr>rel_child = c, rel_parent = p\<rparr> s)) ps s) = tasks s \<and>
        unresolved_repos (fold (\<lambda>p s. snd (new_relationship \<lparr>rel_child = c, rel_parent = p\<rparr> s)) ps s) = unresolved_repos s \<and>
        unresolved_sources (fold (\<lambda>p s. snd (new_relationship \<lparr>rel_child = c, rel_parent = p\<rparr> s)) ps s) =
        unresolved_sources s" for ps and s :: "'a mgr"
      by (induction ps arbitrary: s) (simp_all add: new_defs)
    then show ?thesis by (simp add: s')
  qed
  moreover have "rows (unresolved_sources s4) i = None"
    using drop_source_deps [of repo ?h s3] i by (simp add: s4_def)
  ultimately show ?thesis unfolding waiting_for_def settled_def by simp
qed

section \<open>An example\<close>

text \<open>A repository whose git knows one commit with one parent, both too old to be searched for tests.\<close>

definition demo_git :: git_repo where
  "demo_git = \<lparr>commitExists = (\<lambda>h. h = ''c1''), getTestDefinitionsPath = (\<lambda>h. None),
     getFileContents = (\<lambda>h p. None), mostRecentHashForSubpath = (\<lambda>h p. None)\<rparr>"

definition demo_reader :: reader where
  "demo_reader = \<lparr>rd_services = \<lparr>git_repo_lookup = (\<lambda>r. if r = ''r'' then Some demo_git else None),
       parse_yaml = (\<lambda>x. Inl ValueError), parse_json = (\<lambda>x. Inl ValueError),
       decode_script = (\<lambda>v. Inl ValueError), nesting = 9, sha_hash = (\<lambda>t. ''h'')\<rparr>,
     rd_levels = 9, rd_traceback = (\<lambda>e. ''traceback'')\<rparr>"

definition demo_source :: "unit source_control" where
  "demo_source = \<lparr>sc_reader = (\<lambda>g. demo_reader),
     sc_pins = \<lparr>pg_testDefinitionsPath = (\<lambda>r h g. None), pg_fileContents = (\<lambda>r h p g. None),
       pg_standardCommitMessage = (\<lambda>r h g. ''''), pg_createCommit = (\<lambda>r h p m g. (Inl ValueError, g)),
       pg_pushCommit = (\<lambda>r h b f g. (False, g))\<rparr>,
     sc_listRepos = (\<lambda>g. [''r'']), sc_ensureWebhook = (\<lambda>r g. g), sc_fetchOrigin = (\<lambda>r g. (Inr (), g)),
     sc_listBranches = (\<lambda>r g. []), sc_branchTopCommit = (\<lambda>r b g. None),
     sc_commitsLookingBack = (\<lambda>g r h n. [\<lparr>ci_hash = ''c1'', ci_parents = [''c0''], ci_timestamp = 0,
       ci_message = ''m'', ci_author = '''', ci_authorEmail = ''''\<rparr>]),
     sc_deleteRemoteBranch = (\<lambda>r b g. (Inr (), g))\<rparr>"

definition demo_intake :: "nat mgr" where
  "demo_intake = snd (commit_by_hash 0 ''c1'' (snd (createRepo ''r'' (new_manager 0 0))))"

lemma intake_new_manager: "intake_ok (new_manager m now)"
  by (rule intake_okI) (simp_all add: db_ok_new_manager, simp_all add: new_manager_def parents_of_rows edge_def)

lemma demo_intake_ok: "intake_ok demo_intake" "tasks_inv demo_intake"
proof -
  have "intake_ok (snd (createRepo ''r'' (new_manager (0 :: nat) 0)))"
    by (rule intake_createRepo) (rule intake_new_manager)
  then show "intake_ok demo_intake"
    unfolding demo_intake_def using commit_by_hash_spec(1) by (metis prod.collapse)
  have "only_queued (new_manager (0 :: nat) 0) demo_intake"
    unfolding demo_intake_def by (rule only_queued_trans [OF only_queued_repo only_queued_commit])
  then show "tasks_inv demo_intake" by (simp add: only_queued_def tasks_inv_new_manager)
qed

lemma demo_next: "nextTask demo_intake = Some 2" "dt_task (get_task demo_intake 2) = UpdateCommitData 1"
  by code_simp+

theorem background_work_keeps_tasks_witness:
  "fst (background_work demo_world demo_source 9 0 (demo_intake, ())) = Some (UpdateCommitData 1) \<and>
   tasks_inv (fst (snd (background_work demo_world demo_source 9 0 (demo_intake, ()))))"
proof -
  obtain taken s' where "background_work demo_world demo_source 9 0 (demo_intake, ()) = (taken, s', ())"
    by (metis prod.collapse old.unit.exhaust)
  from background_work_keeps_tasks [OF demo_intake_ok(2) this] this show ?thesis by (simp add: demo_next)
qed


lemma demo_learns:
  "map (\<lambda>c. cm_hash (get_commit (snd (learn_commit 0 (hd (sc_commitsLookingBack demo_source () ''r'' ''c1'' 1)) demo_intake)) c))
     (parents_of (snd (learn_commit 0 (hd (sc_commitsLookingBack demo_source () ''r'' ''c1'' 1)) demo_intake)) 1) = [''c0'']"
  by code_simp

theorem waiting_commits_are_read_again_witness:
  "let s = snd (createSourceDep 7 ''r'' (Some ''c1'') demo_intake);
       s' = snd (learn_commit 0 (hd (sc_commitsLookingBack demo_source () ''r'' ''c1'' 1)) s)
   in rows (unresolved_sources s) 3 \<noteq> None \<and> rows (unresolved_sources s') 3 = None \<and>
      (\<exists>t d. rows (tasks s') t = Some d \<and> dt_task d = CommitTestParse 7)"
proof -
  define s where "s = snd (createSourceDep 7 ''r'' (Some ''c1'') demo_intake)"
  define info where "info = hd (sc_commitsLookingBack demo_source () ''r'' ''c1'' 1)"
  have "map_option fst (fst (learn_commit 0 info s)) = Some 1" "map_option us_commit (rows (unresolved_sources s) 3) = Some 7"
    "map_option us_repo (rows (unresolved_sources s) 3) = Some 0"
    "map_option us_commitHash (rows (unresolved_sources s) 3) = Some ''c1''"
    unfolding s_def info_def by code_simp+
  then obtain ps s' u where l: "learn_commit 0 info s = (Some (1, ps), s')" and
    u: "rows (unresolved_sources s) 3 = Some u" "us_repo u = 0" "us_commitHash u = ci_hash info" "us_commit u = 7"
    by (cases "learn_commit 0 info s") (auto simp: info_def demo_source_def)
  have "lookup_all (unresolved_repos (snd (learn_commit 0 info s))) (UR_commit 7) = []"
    "lookup_all (unresolved_sources (snd (learn_commit 0 info s))) (US_commit 7) = []"
    unfolding s_def info_def by code_simp+
  moreover have "intake_ok s" unfolding s_def by (rule intake_source_dep [OF demo_intake_ok(1)])
  moreover have "tasks_inv s" unfolding s_def by (rule only_queued_inv [OF only_queued_source_dep demo_intake_ok(2)])
  ultimately show ?thesis
    using waiting_commits_are_read_again [OF _ _ l u(1-3)] l u unfolding s_def [symmetric] info_def [symmetric] Let_def
    by auto
qed

end
