(* ===== verification/Log_Handling.thy ===== *)
theory Log_Handling
  imports Prelude
begin

text \<open>
  The message streams of \<^verbatim>\<open>TestManager.py\<close>: \<open>MessageBuffer\<close> keeps every message and passes it on to
  its subscribers, \<open>DeploymentStream\<close> has one buffer in each direction, \<open>HeartbeatHandler\<close> collects the
  log of every test run and decides which heartbeats reach the database. A subscriber is a name; whether
  its callback accepts a message or raises is the parameter \<open>accepts\<close>; what it has received is recorded
  in \<open>sent\<close>.
\<close>

type_synonym listener = nat

section \<open>MessageBuffer\<close>

record message_buffer =
  buf_messages :: "string list"
  buf_subscribers :: "listener list"
  buf_sent :: "(listener \<times> string) list"

definition new_buffer :: message_buffer where
  "new_buffer = \<lparr>buf_messages = [], buf_subscribers = [], buf_sent = []\<rparr>"

definition addMessage :: "(listener \<Rightarrow> string \<Rightarrow> bool) \<Rightarrow> string \<Rightarrow> message_buffer \<Rightarrow> message_buffer" where
  "addMessage accepts msg b =
     (let ok = filter (\<lambda>l. accepts l msg) (buf_subscribers b)
      in b\<lparr>buf_sent := buf_sent b @ map (\<lambda>l. (l, msg)) ok, buf_subscribers := ok,
            buf_messages := buf_messages b @ [msg]\<rparr>)"

definition setTotalMessages :: "(listener \<Rightarrow> string \<Rightarrow> bool) \<Rightarrow> string \<Rightarrow> message_buffer \<Rightarrow> message_buffer" where
  "setTotalMessages accepts all_data b =
     (let bytes_so_far = sum_list (map length (buf_messages b))
      in addMessage accepts (drop bytes_so_far all_data) b)"

text \<open>Messages are passed on one by one; the first that is refused raises, and \<open>subscribe\<close> gives up.\<close>

fun send_all :: "(listener \<Rightarrow> string \<Rightarrow> bool) \<Rightarrow> listener \<Rightarrow> string list \<Rightarrow> message_buffer \<Rightarrow> bool \<times> message_buffer" where
  "send_all accepts l [] b = (True, b)"
| "send_all accepts l (m # ms) b =
     (if accepts l m then send_all accepts l ms (b\<lparr>buf_sent := buf_sent b @ [(l, m)]\<rparr>) else (False, b))"

text \<open>The messages present are sent outside of the lock; \<open>arrived\<close> are the ones that other threads add
  meanwhile, which are caught up on under the lock.\<close>

definition subscribe ::
  "(listener \<Rightarrow> string \<Rightarrow> bool) \<Rightarrow> listener \<Rightarrow> string list \<Rightarrow> message_buffer \<Rightarrow> message_buffer" where
  "subscribe accepts onMessage arrived b =
     (let toSend = buf_messages b
      in case send_all accepts onMessage toSend b of
           (False, b1) \<Rightarrow> fold (addMessage accepts) arrived b1
         | (True, b1) \<Rightarrow>
             let b2 = fold (addMessage accepts) arrived b1
             in case send_all accepts onMessage (drop (length toSend) (buf_messages b2)) b2 of
                  (False, b3) \<Rightarrow> b3
                | (True, b3) \<Rightarrow>
                    if onMessage \<in> set (buf_subscribers b3) then b3
                    else b3\<lparr>buf_subscribers := buf_subscribers b3 @ [onMessage]\<rparr>)"

definition unsubscribe :: "listener \<Rightarrow> message_buffer \<Rightarrow> message_buffer" where
  "unsubscribe onMessage b = b\<lparr>buf_subscribers := filter (\<lambda>l. l \<noteq> onMessage) (buf_subscribers b)\<rparr>"

section \<open>DeploymentStream\<close>

record deployment_stream =
  str_from_client :: message_buffer
  str_from_deployment :: message_buffer

definition new_stream :: deployment_stream where
  "new_stream = \<lparr>str_from_client = new_buffer, str_from_deployment = new_buffer\<rparr>"

definition clientCount :: "deployment_stream \<Rightarrow> nat" where
  "clientCount st = length (buf_subscribers (str_from_deployment st))"

definition addMessageFromClient where
  "addMessageFromClient accepts msg st =
     st\<lparr>str_from_client := addMessage accepts msg (str_from_client st)\<rparr>"

definition allMessagesFromDeploymentFromStart where
  "allMessagesFromDeploymentFromStart accepts all_data st =
     st\<lparr>str_from_deployment := setTotalMessages accepts all_data (str_from_deployment st)\<rparr>"

definition addMessageFromDeployment where
  "addMessageFromDeployment accepts msg st =
     st\<lparr>str_from_deployment := addMessage accepts msg (str_from_deployment st)\<rparr>"

definition subscribeToDeploymentMessages where
  "subscribeToDeploymentMessages accepts l arrived st =
     st\<lparr>str_from_deployment := subscribe accepts l arrived (str_from_deployment st)\<rparr>"

definition subscribeToClientMessages where
  "subscribeToClientMessages accepts l arrived st =
     st\<lparr>str_from_client := subscribe accepts l arrived (str_from_client st)\<rparr>"

definition unsubscribeFromDeploymentMessages :: "listener \<Rightarrow> deployment_stream \<Rightarrow> deployment_stream" where
  "unsubscribeFromDeploymentMessages l st =
     st\<lparr>str_from_deployment := unsubscribe l (str_from_deployment st)\<rparr>"

definition unsubscribeFromClientMessages :: "listener \<Rightarrow> deployment_stream \<Rightarrow> deployment_stream" where
  "unsubscribeFromClientMessages l st = st\<lparr>str_from_client := unsubscribe l (str_from_client st)\<rparr>"

text \<open>\<open>streamForDeployment\<close>: the stream of a deployment is made when it is first asked for.\<close>

definition streamForDeployment ::
  "nat \<Rightarrow> (nat \<Rightarrow> deployment_stream option) \<Rightarrow> deployment_stream \<times> (nat \<Rightarrow> deployment_stream option)" where
  "streamForDeployment d streams =
     (case streams d of Some st \<Rightarrow> (st, streams) | None \<Rightarrow> (new_stream, streams(d \<mapsto> new_stream)))"

section \<open>HeartbeatHandler\<close>

record heartbeat_handler =
  hb_logs :: "nat \<Rightarrow> string list option"
  hb_timestamps :: "nat \<Rightarrow> int option"
  hb_listeners :: "nat \<Rightarrow> listener list option"
  hb_sent :: "(listener \<times> string) list"

definition new_handler :: heartbeat_handler where
  "new_handler = \<lparr>hb_logs = Map.empty, hb_timestamps = Map.empty, hb_listeners = Map.empty, hb_sent = []\<rparr>"

definition MAX_LOG_MESSAGES_PER_TEST :: nat where
  "MAX_LOG_MESSAGES_PER_TEST = 100000"

definition getAllLogsFor :: "nat \<Rightarrow> heartbeat_handler \<Rightarrow> string" where
  "getAllLogsFor testId h = (case hb_logs h testId of Some ls \<Rightarrow> concat ls | None \<Rightarrow> '''')"

definition getMostRecentTestHeartbeats :: "nat \<Rightarrow> heartbeat_handler \<Rightarrow> string" where
  "getMostRecentTestHeartbeats testId h =
     (let res = getAllLogsFor testId h
      in if length res < 10 * 1024 then res else drop (length res - 10 * 1024) res)"

definition addListener :: "(listener \<Rightarrow> string \<Rightarrow> bool) \<Rightarrow> nat \<Rightarrow> listener \<Rightarrow> heartbeat_handler \<Rightarrow> heartbeat_handler" where
  "addListener accepts testId l h0 =
     (let h = (if hb_listeners h0 testId = None then h0\<lparr>hb_listeners := (hb_listeners h0)(testId \<mapsto> [])\<rparr> else h0)
      in case hb_logs h testId of
           None \<Rightarrow> h
         | Some ls \<Rightarrow>
             if accepts l (concat ls)
             then h\<lparr>hb_sent := hb_sent h @ [(l, concat ls)],
                     hb_listeners := (hb_listeners h)(testId \<mapsto> the (hb_listeners h testId) @ [l])\<rparr>
             else h)"

definition append_log :: "string \<Rightarrow> string list \<Rightarrow> string list" where
  "append_log msg ls =
     (let ls' = ls @ [msg] in if length ls' > MAX_LOG_MESSAGES_PER_TEST then drop 100 ls' else ls')"

text \<open>The result tells whether the heartbeat has to be recorded in the database.\<close>

definition handler_testHeartbeat ::
  "(listener \<Rightarrow> string \<Rightarrow> bool) \<Rightarrow> nat \<Rightarrow> int \<Rightarrow> string option \<Rightarrow> heartbeat_handler \<Rightarrow> bool \<times> heartbeat_handler" where
  "handler_testHeartbeat accepts testId timestamp logMessage h0 =
     (let h = (if hb_timestamps h0 testId = None
               then h0\<lparr>hb_timestamps := (hb_timestamps h0)(testId \<mapsto> timestamp), hb_logs := (hb_logs h0)(testId \<mapsto> [])\<rparr>
               else h0);
          h1 = (case logMessage of
                  None \<Rightarrow> h
                | Some msg \<Rightarrow>
                    let ok = filter (\<lambda>l. accepts l msg) (case hb_listeners h testId of Some ls \<Rightarrow> ls | None \<Rightarrow> [])
                    in h\<lparr>hb_logs := (hb_logs h)(testId \<mapsto> append_log msg (the (hb_logs h testId))),
                          hb_sent := hb_sent h @ map (\<lambda>l. (l, msg)) ok,
                          hb_listeners := (hb_listeners h)(testId \<mapsto> ok)\<rparr>)
      in if timestamp - the (hb_timestamps h1 testId) > 5
         then (True, h1\<lparr>hb_timestamps := (hb_timestamps h1)(testId \<mapsto> timestamp)\<rparr>)
         else (False, h1))"

definition testHeartbeatReinitialized ::
  "(listener \<Rightarrow> string \<Rightarrow> bool) \<Rightarrow> nat \<Rightarrow> int \<Rightarrow> string \<Rightarrow> heartbeat_handler \<Rightarrow> heartbeat_handler" where
  "testHeartbeatReinitialized accepts testId timestamp logMessagesFromStart h =
     (let message_len = sum_list (map length (case hb_logs h testId of Some ls \<Rightarrow> ls | None \<Rightarrow> []))
      in snd (handler_testHeartbeat accepts testId timestamp (Some (drop message_len logMessagesFromStart)) h))"

section \<open>What a subscriber receives\<close>

definition received :: "listener \<Rightarrow> message_buffer \<Rightarrow> string list" where
  "received l b = map snd (filter (\<lambda>p. fst p = l) (buf_sent b))"

lemma filter_subscriber: "distinct ls \<Longrightarrow> filter (\<lambda>x. x = l) ls = (if l \<in> set ls then [l] else [])"
  by (induction ls) auto

lemma addMessage_facts:
  "buf_messages (addMessage accepts m b) = buf_messages b @ [m]"
  "set (buf_subscribers (addMessage accepts m b)) = {l \<in> set (buf_subscribers b). accepts l m}"
  "distinct (buf_subscribers b) \<Longrightarrow> distinct (buf_subscribers (addMessage accepts m b))"
  by (auto simp: addMessage_def Let_def)

lemma received_addMessage:
  assumes "distinct (buf_subscribers b)"
  shows "received l (addMessage accepts m b) =
    received l b @ (if l \<in> set (buf_subscribers b) \<and> accepts l m then [m] else [])"
proof -
  have "map snd (filter (\<lambda>p. fst p = l) (map (\<lambda>l. (l, m)) (filter (\<lambda>l. accepts l m) ls))) =
      (if l \<in> set ls \<and> accepts l m then [m] else [])" if "distinct ls" for ls
    using that by (induction ls) auto
  from this [OF assms] show ?thesis by (simp add: received_def addMessage_def Let_def)
qed

lemma send_all_facts:
  assumes "send_all accepts l ms b = (ok, b')"
  shows "buf_messages b' = buf_messages b \<and> buf_subscribers b' = buf_subscribers b \<and>
    (\<forall>k. k \<noteq> l \<longrightarrow> received k b' = received k b) \<and>
    ((\<forall>m. accepts l m) \<longrightarrow> ok \<and> received l b' = received l b @ ms)"
  using assms
proof (induction ms arbitrary: b)
  case (Cons m ms)
  show ?case
  proof (cases "accepts l m")
    case True
    with Cons.prems have "send_all accepts l ms (b\<lparr>buf_sent := buf_sent b @ [(l, m)]\<rparr>) = (ok, b')" by simp
    from Cons.IH [OF this] show ?thesis by (simp add: received_def)
  next
    case False
    with Cons.prems show ?thesis by auto
  qed
qed simp

lemma send_all_ok: "\<forall>m. accepts l m \<Longrightarrow> \<exists>b'. send_all accepts l ms b = (True, b')"
  by (induction ms arbitrary: b) simp_all

lemma add_all_facts:
  "buf_messages (fold (addMessage accepts) ms b) = buf_messages b @ ms"
  "distinct (buf_subscribers b) \<Longrightarrow> distinct (buf_subscribers (fold (addMessage accepts) ms b))"
  "set (buf_subscribers (fold (addMessage accepts) ms b)) = {l \<in> set (buf_subscribers b). \<forall>m\<in>set ms. accepts l m}"
  by (induction ms arbitrary: b) (auto simp: addMessage_facts)

lemma received_add_all:
  assumes "distinct (buf_subscribers b)" "\<forall>m. accepts l m"
  shows "received l (fold (addMessage accepts) ms b) =
    received l b @ (if l \<in> set (buf_subscribers b) then ms else [])"
  using assms(1)
proof (induction ms arbitrary: b)
  case (Cons m ms)
  from Cons.IH [OF addMessage_facts(3) [OF Cons.prems]] show ?case
    using assms(2) by (simp add: received_addMessage [OF Cons.prems] addMessage_facts(2))
qed simp

text \<open>The operations on a buffer, as events.\<close>

datatype buffer_event = Add string | Total string | Sub listener "string list" | Unsub listener

fun buffer_step :: "(listener \<Rightarrow> string \<Rightarrow> bool) \<Rightarrow> buffer_event \<Rightarrow> message_buffer \<Rightarrow> message_buffer" where
  "buffer_step accepts (Add m) b = addMessage accepts m b"
| "buffer_step accepts (Total all_data) b = setTotalMessages accepts all_data b"
| "buffer_step accepts (Sub l arrived) b = subscribe accepts l arrived b"
| "buffer_step accepts (Unsub l) b = unsubscribe l b"

fun concerns :: "listener \<Rightarrow> buffer_event \<Rightarrow> bool" where
  "concerns l (Sub k arrived) = (k = l)"
| "concerns l (Unsub k) = (k = l)"
| "concerns l _ = False"

definition follows :: "listener \<Rightarrow> message_buffer \<Rightarrow> bool" where
  "follows l b \<longleftrightarrow> distinct (buf_subscribers b) \<and> l \<in> set (buf_subscribers b) \<and> received l b = buf_messages b"

lemma follows_add_all:
  "follows l b \<Longrightarrow> \<forall>m. accepts l m \<Longrightarrow> follows l (fold (addMessage accepts) ms b)"
  by (simp add: follows_def add_all_facts received_add_all)

lemma distinct_subscribe:
  assumes "distinct (buf_subscribers b)"
  shows "distinct (buf_subscribers (subscribe accepts k arrived b))"
proof -
  obtain ok1 b1 where 1: "send_all accepts k (buf_messages b) b = (ok1, b1)" by fastforce
  define b2 where "b2 = fold (addMessage accepts) arrived b1"
  obtain ok3 b3 where 3: "send_all accepts k (drop (length (buf_messages b)) (buf_messages b2)) b2 = (ok3, b3)" by fastforce
  have "distinct (buf_subscribers b1)" using send_all_facts [OF 1] assms by simp
  then have "distinct (buf_subscribers b2)" by (simp add: b2_def add_all_facts)
  then have "distinct (buf_subscribers b3)" using send_all_facts [OF 3] by simp
  with \<open>distinct (buf_subscribers b2)\<close> show ?thesis
    by (simp add: subscribe_def Let_def 1 b2_def [symmetric] 3 split: bool.split)
qed

lemma follows_subscribe_other:
  assumes "follows l b" "\<forall>m. accepts l m" "k \<noteq> l"
  shows "follows l (subscribe accepts k arrived b)"
proof -
  obtain ok1 b1 where 1: "send_all accepts k (buf_messages b) b = (ok1, b1)" by fastforce
  define b2 where "b2 = fold (addMessage accepts) arrived b1"
  obtain ok3 b3 where 3: "send_all accepts k (drop (length (buf_messages b)) (buf_messages b2)) b2 = (ok3, b3)" by fastforce
  have "follows l b1" using send_all_facts [OF 1] assms by (simp add: follows_def)
  then have f2: "follows l b2" unfolding b2_def using assms(2) by (rule follows_add_all)
  then have "follows l b3" using send_all_facts [OF 3] assms(3) by (simp add: follows_def)
  then have "follows l (b3\<lparr>buf_subscribers := buf_subscribers b3 @ [k]\<rparr>)" if "k \<notin> set (buf_subscribers b3)"
    using that by (simp add: follows_def received_def)
  with f2 \<open>follows l b3\<close> show ?thesis
    by (simp add: subscribe_def Let_def 1 b2_def [symmetric] 3 split: bool.split)
qed

lemma follows_step:
  assumes "follows l b" "\<forall>m. accepts l m" "\<not> concerns l e"
  shows "follows l (buffer_step accepts e b)"
proof (cases e)
  case (Add m)
  then show ?thesis using follows_add_all [where accepts = accepts, OF assms(1,2), of "[m]"] by simp
next
  case (Total d)
  then show ?thesis using follows_add_all [where accepts = accepts, OF assms(1,2), of "[drop (sum_list (map length (buf_messages b))) d]"]
    by (simp add: setTotalMessages_def Let_def)
next
  case (Sub k arrived)
  then show ?thesis using follows_subscribe_other assms by simp
next
  case (Unsub k)
  then show ?thesis using assms by (simp add: follows_def unsubscribe_def received_def)
qed

lemma subscribe_follows:
  assumes "distinct (buf_subscribers b)" "l \<notin> set (buf_subscribers b)" "received l b = []" "\<forall>m. accepts l m"
  shows "follows l (subscribe accepts l arrived b)"
proof -
  obtain b1 where 1: "send_all accepts l (buf_messages b) b = (True, b1)"
    using send_all_ok [where accepts = accepts, OF assms(4)] by blast
  define b2 where "b2 = fold (addMessage accepts) arrived b1"
  obtain b3 where 3: "send_all accepts l (drop (length (buf_messages b)) (buf_messages b2)) b2 = (True, b3)"
    using send_all_ok [where accepts = accepts, OF assms(4)] by blast
  have b1: "buf_messages b1 = buf_messages b" "buf_subscribers b1 = buf_subscribers b" "received l b1 = buf_messages b"
    using send_all_facts [OF 1] assms(3,4) by simp_all
  have b2: "buf_messages b2 = buf_messages b @ arrived" "distinct (buf_subscribers b2)" "l \<notin> set (buf_subscribers b2)"
    "received l b2 = buf_messages b"
    using assms(1,2,4) by (simp_all add: b2_def b1 add_all_facts received_add_all)
  have "buf_messages b3 = buf_messages b2" "buf_subscribers b3 = buf_subscribers b2" "received l b3 = buf_messages b @ arrived"
    using send_all_facts [OF 3] assms(4) by (simp_all add: b2)
  note b3 = this
  have "subscribe accepts l arrived b = (if l \<in> set (buf_subscribers b3) then b3
      else b3\<lparr>buf_subscribers := buf_subscribers b3 @ [l]\<rparr>)"
    by (simp add: subscribe_def Let_def 1 b2_def [symmetric] 3)
  then show ?thesis using b2 b3 by (simp add: follows_def) (simp add: received_def)
qed

text \<open>C31: A subscriber whose callback never fails receives every message of the buffer exactly once and in
  order: those from before it subscribed, those that arrive while it subscribes, and all later ones,
  whatever else happens to the buffer and to other subscribers.\<close>

theorem subscriber_receives_everything:
  assumes "distinct (buf_subscribers b)" "l \<notin> set (buf_subscribers b)" "received l b = []" "\<forall>m. accepts l m"
    "\<forall>e\<in>set events. \<not> concerns l e"
  shows "received l (fold (buffer_step accepts) events (subscribe accepts l arrived b)) =
    buf_messages (fold (buffer_step accepts) events (subscribe accepts l arrived b))"
proof -
  have "follows l (fold (buffer_step accepts) events b')" if "follows l b'" for b'
    using that assms(5) by (induction events arbitrary: b') (simp_all add: follows_step [where accepts = accepts, OF _ assms(4)])
  from this [OF subscribe_follows [where accepts = accepts, OF assms(1-4)]] show ?thesis by (simp add: follows_def)
qed

theorem subscriber_receives_everything_witness:
  "received 1 (fold (buffer_step (\<lambda>l m. l = 1)) [Add ''b'', Total ''abcd'', Sub 2 [], Unsub 2]
     (subscribe (\<lambda>l m. l = 1) 1 [''x''] (addMessage (\<lambda>l m. l = 1) ''a'' new_buffer))) = [''a'', ''x'', ''b'', ''d'']"
proof -
  have "buf_messages (fold (buffer_step (\<lambda>l m. l = 1)) [Add ''b'', Total ''abcd'', Sub 2 [], Unsub 2]
     (subscribe (\<lambda>l m. l = 1) 1 [''x''] (addMessage (\<lambda>l m. l = 1) ''a'' new_buffer))) = [''a'', ''x'', ''b'', ''d'']"
    by code_simp
  with subscriber_receives_everything [of "addMessage (\<lambda>l m. l = 1) ''a'' new_buffer" 1 "\<lambda>l m. l = 1"
      "[Add ''b'', Total ''abcd'', Sub 2 [], Unsub 2]" "[''x'']"]
  show ?thesis by (simp add: new_buffer_def addMessage_def received_def)
qed

section \<open>The logs of a test run\<close>

text \<open>A listener that is added before the first heartbeat of a test run is forgotten: it is not
  registered, and no later heartbeat sends anything to it.\<close>

theorem early_listener_is_lost:
  assumes "hb_logs h testId = None" "hb_listeners h testId = None"
  shows "hb_listeners (addListener accepts testId l h) testId = Some [] \<and>
    hb_sent (snd (handler_testHeartbeat accepts testId now (Some msg) (addListener accepts testId l h))) = hb_sent h"
  using assms by (simp add: addListener_def handler_testHeartbeat_def Let_def)

theorem early_listener_is_lost_witness:
  "hb_sent (snd (handler_testHeartbeat (\<lambda>l m. True) 3 7 (Some ''log'') (addListener (\<lambda>l m. True) 3 1 new_handler))) = []"
  using early_listener_is_lost [of new_handler 3 "\<lambda>l m. True" 1 7 "''log''"] by (simp add: new_handler_def)

end
