(* ===== verification/Manager_Repair.thy ===== *)
theory Manager_Repair
  imports Test_Priority
begin

text \<open>
  The periodic repairs of \<^verbatim>\<open>TestManager.py\<close>: \<open>_checkMachineCategoryCounts\<close> recounts what the
  categories of machines have booted and want, \<open>_checkAllTestPriorities\<close> recomputes priorities and
  running counts, \<open>_pruneDeadWorkers\<close> terminates the machines that the machine management has lost, and
  \<open>performCleanupTasks\<close> does all of them and drops machines and deployments without a heartbeat.
\<close>

section \<open>Recounting the categories\<close>

type_synonym counts = "(oid \<times> int) list"

definition count_touch :: "oid \<Rightarrow> counts \<Rightarrow> counts" where
  "count_touch k d = (case map_of d k of None \<Rightarrow> alist_set k 0 d | Some n \<Rightarrow> d)"

definition count_inc :: "oid \<Rightarrow> counts \<Rightarrow> counts" where
  "count_inc k d = (case map_of d k of None \<Rightarrow> alist_set k 1 d | Some n \<Rightarrow> alist_set k (n + 1) d)"

definition count_machines :: "'m mgr \<Rightarrow> oid list \<Rightarrow> counts \<times> counts \<times> 'm mgr \<Rightarrow> counts \<times> counts \<times> 'm mgr" where
  "count_machines s0 ms st =
     fold (\<lambda>m (desired, booted, s).
        case machineCategoryForPair (ma_hardware (get_machine s0 m), ma_os (get_machine s0 m)) s of (cat, s') \<Rightarrow>
          (count_touch cat desired, count_inc cat booted, s')) ms st"

text \<open>A test without suitable hardware raises (\<open>_machineCategoryPairForTest\<close>), so the branch for a missing
  category is never reached.\<close>

definition checkTestCategory :: "'m world \<Rightarrow> oid \<Rightarrow> 'm mgr \<Rightarrow> 'm mgr res" where
  "checkTestCategory w test s =
     bindR (machineCategoryForTest w test s) (\<lambda>(real_cat, s1).
       Inr (if Some real_cat \<noteq> ts_machineCategory (get_test s1 test)
            then upd_test test (\<lambda>t. t\<lparr>ts_machineCategory := Some real_cat\<rparr>) s1 else s1))"

definition count_category :: "oid option \<Rightarrow> counts \<Rightarrow> counts" where
  "count_category c desired = (case c of None \<Rightarrow> desired | Some cat \<Rightarrow> count_inc cat desired)"

definition count_test :: "'m world \<Rightarrow> oid \<Rightarrow> counts \<times> 'm mgr \<Rightarrow> (counts \<times> 'm mgr) res" where
  "count_test w test st =
     (case st of (desired, s) \<Rightarrow>
        bindR (checkTestCategory w test s) (\<lambda>s'.
          Inr (count_category (ts_machineCategory (get_test s' test)) desired, s')))"

definition count_tests :: "'m world \<Rightarrow> counts \<times> 'm mgr \<Rightarrow> (counts \<times> 'm mgr) res" where
  "count_tests w st =
     foldR (\<lambda>p st. foldR (count_test w) (lookup_all (tests (snd st)) (Test_priority p)) st) priority_order st"

definition adjust_category :: "counts \<Rightarrow> oid \<times> int \<Rightarrow> 'm mgr \<Rightarrow> 'm mgr res" where
  "adjust_category desired cb s =
     (case cb of (cat, bootedCount) \<Rightarrow>
        bindR (lookupR (map_of desired) cat) (\<lambda>desiredCount.
        let s1 = (if mc_desired (get_category s cat) \<noteq> desiredCount
                  then upd_category cat (\<lambda>c. c\<lparr>mc_desired := desiredCount\<rparr>) s else s)
        in Inr (if mc_booted (get_category s1 cat) \<noteq> bootedCount
                then upd_category cat (\<lambda>c. c\<lparr>mc_booted := bootedCount\<rparr>) s1 else s1)))"

definition checkMachineCategoryCounts :: "'m world \<Rightarrow> 'm mgr \<Rightarrow> 'm mgr res" where
  "checkMachineCategoryCounts w s =
     (case count_machines s (lookup_all (machines s) Machine_isAlive) ([], [], s) of (desired, booted, s1) \<Rightarrow>
      let desired1 = fold count_touch (lookup_all (categories s1) Category_want_less) desired;
          desired2 = fold count_touch (lookup_all (categories s1) Category_want_more) desired1;
          desired3 = fold (\<lambda>run. count_category (ts_machineCategory (get_test s1 (run_test (get_run s1 run)))))
                       (lookup_all (runs s1) Run_isRunning) desired2
      in bindR (count_tests w (desired3, s1)) (\<lambda>st.
         bindR (foldR (\<lambda>d. count_test w (de_test (get_deployment (snd st) d)))
                  (lookup_all (deployments (snd st)) Deployment_isAlive) st) (\<lambda>(desired5, s5).
         foldR (adjust_category desired5) (fold (\<lambda>(cat, n). count_touch cat) desired5 booted) s5)))"

section \<open>Dead workers\<close>

definition pruneDeadWorkers :: "'m world \<Rightarrow> nat \<Rightarrow> int \<Rightarrow> 'm mgr \<Rightarrow> 'm mgr res" where
  "pruneDeadWorkers w depth curTimestamp s =
     bindR (checkMachineCategoryCounts w (s\<lparr>lastWorkerPruneOperation := curTimestamp\<rparr>)) (\<lambda>s1.
     let known_workers = map (\<lambda>m. (ma_machineId (get_machine s1 m), ma_hardware (get_machine s1 m), ma_os (get_machine s1 m)))
                           (lookup_all (machines s1) Machine_isAlive)
     in bindR (w_synchronize_workers w known_workers (machine_management s1)) (\<lambda>(to_kill, mm).
        foldR (\<lambda>machineId s.
            if machineId \<in> set (map fst known_workers) then machineTerminated w depth machineId curTimestamp s
            else Inr s)
          to_kill (s1\<lparr>machine_management := mm\<rparr>)))"

section \<open>Rechecking the priorities\<close>

definition checkActiveRunsLooksCorrupt :: "'m mgr \<Rightarrow> bool" where
  "checkActiveRunsLooksCorrupt s \<longleftrightarrow>
     (\<exists>p\<in>set priority_order. \<exists>test\<in>set (lookup_all (tests s) (Test_priority p)). ts_activeRuns (get_test s test) < 0)"

text \<open>A test that has no category yet refers to the null object, and reading a field of that raises.\<close>

definition reset_unbootable :: "'m world \<Rightarrow> nat \<Rightarrow> int \<Rightarrow> oid list \<Rightarrow> 'm mgr \<Rightarrow> 'm mgr res" where
  "reset_unbootable w depth curTimestamp commitsWithTests s =
     (let all_tests = concat (map (allTestsForCommit s) commitsWithTests);
          cats = remdups (map (\<lambda>t. ts_machineCategory (get_test s t)) all_tests)
      in if None \<in> set cats then Inl (UserException ''Null object'')
         else
           let changed = filter (\<lambda>cat. mc_hardwareComboUnbootable (get_category s cat)) (map the cats);
               s1 = fold (\<lambda>cat. upd_category cat (\<lambda>r. r\<lparr>mc_hardwareComboUnbootable := False\<rparr>)) changed s
           in foldR (\<lambda>test s.
                if ts_machineCategory (get_test s test) \<in> Some ` set changed \<and>
                   ts_priority (get_test s test) = HardwareComboUnbootable
                then updateTestPriority w depth test curTimestamp s else Inr s) all_tests s1)"

definition recount_active_runs :: "oid list \<Rightarrow> 'm mgr \<Rightarrow> 'm mgr" where
  "recount_active_runs commitsWithTests s =
     (let s1 = fold (\<lambda>test. upd_test test (\<lambda>t. t\<lparr>ts_activeRuns := 0\<rparr>))
                 (concat (map (allTestsForCommit s) commitsWithTests)) s
      in fold (\<lambda>run s. upd_test (run_test (get_run s run)) (\<lambda>t. t\<lparr>ts_activeRuns := ts_activeRuns t + 1\<rparr>) s)
           (lookup_all (runs s1) Run_isRunning) s1)"

text \<open>\<open>None\<close>: the walk of the history does not end.\<close>

definition checkAllTestPriorities :: "'m world \<Rightarrow> nat \<Rightarrow> int \<Rightarrow> bool \<Rightarrow> 'm mgr \<Rightarrow> 'm mgr res option" where
  "checkAllTestPriorities w depth curTimestamp resetUnbootable s =
     (case (if resetUnbootable
            then map_option (\<lambda>cs. reset_unbootable w depth curTimestamp cs s) (allCommitsWithPossibilityOfTests s)
            else Some (Inr s)) of
        None \<Rightarrow> None
      | Some (Inl e) \<Rightarrow> Some (Inl e)
      | Some (Inr s1) \<Rightarrow>
          (case (if checkActiveRunsLooksCorrupt s1
                 then map_option (\<lambda>cs. recount_active_runs cs s1) (allCommitsWithPossibilityOfTests s1)
                 else Some s1) of
             None \<Rightarrow> None
           | Some s2 \<Rightarrow> Some
               (foldR (\<lambda>p s. foldR (\<lambda>test. updateTestPriority w depth test curTimestamp)
                  (lookup_all (tests s) (Test_priority p)) s) priority_order s2)))"

section \<open>Cleaning up\<close>

definition machine_timed_out :: "machine_row \<Rightarrow> int \<Rightarrow> int \<Rightarrow> bool" where
  "machine_timed_out m initial curTimestamp \<longleftrightarrow>
     (let heartbeat = max (ma_lastHeartbeat m) (ma_bootTime m);
          timeout = (if ma_lastHeartbeat m = 0 then 1200 else 600)
      in heartbeat < curTimestamp - timeout \<and> curTimestamp - initial > 600)"

definition cancel_stale_runs :: "'m world \<Rightarrow> nat \<Rightarrow> int \<Rightarrow> int \<Rightarrow> 'm mgr \<Rightarrow> 'm mgr res" where
  "cancel_stale_runs w depth initial curTimestamp s =
     foldR (\<lambda>t s.
        if run_lastHeartbeat (get_run s t) < curTimestamp - 60 \<and> curTimestamp - initial > 60
        then cancelTestRun w depth curTimestamp t s else Inr s)
       (lookup_all (runs s) Run_isRunning) s"

definition terminate_silent_machines :: "'m world \<Rightarrow> nat \<Rightarrow> int \<Rightarrow> int \<Rightarrow> 'm mgr \<Rightarrow> 'm mgr res" where
  "terminate_silent_machines w depth initial curTimestamp s =
     foldR (\<lambda>m s.
        if machine_timed_out (get_machine s m) initial curTimestamp
        then terminateMachine w depth m curTimestamp s else Inr s)
       (lookup_all (machines s) Machine_isAlive) s"

definition performCleanupTasks :: "'m world \<Rightarrow> nat \<Rightarrow> int \<Rightarrow> 'm mgr \<Rightarrow> 'm mgr res" where
  "performCleanupTasks w depth curTimestamp s =
     bindR (cancel_stale_runs w depth (initialTimestamp s) curTimestamp s) (\<lambda>s1.
     bindR (terminate_silent_machines w depth (initialTimestamp s) curTimestamp s1) (\<lambda>s2.
     bindR (shutdownMachinesIfNecessary w depth curTimestamp (scheduleBootCheck s2)) (\<lambda>s3.
       Inr (checkRetryTests s3))))"

section \<open>Cleaning up succeeds\<close>

definition stale_run :: "int \<Rightarrow> int \<Rightarrow> test_run_row \<Rightarrow> bool" where
  "stale_run initial now r \<longleftrightarrow> run_lastHeartbeat r < now - 60 \<and> now - initial > 60"

lemma cancel_stale_good:
  assumes b: "books w s" and depth: "card (alive_ids s) < depth"
  shows "\<exists>s'. cancel_stale_runs w depth initial now s = Inr s' \<and> books w s' \<and> evolves s s' \<and>
    (\<forall>i r. rows (runs s') i = Some r \<and> stale_run initial now r \<longrightarrow> \<not> is_running r)"
proof -
  let ?Q = "\<lambda>i s. \<forall>r. rows (runs s) i = Some r \<and> stale_run initial now r \<longrightarrow> run_canceled r"
  let ?f = "\<lambda>t s. if run_lastHeartbeat (get_run s t) < now - 60 \<and> now - initial > 60
    then cancelTestRun w depth now t s else Inr s"
  have ok: "tbl_ok run_keys (runs s)" using b by (simp add: books_def runs_ok_def)
  have "\<exists>t. foldR ?f (lookup_all (runs s) Run_isRunning) s = Inr t \<and> books w t \<and> evolves s t \<and>
      (\<forall>i\<in>set (lookup_all (runs s) Run_isRunning). ?Q i t)"
  proof (rule foldR_evolves [where Q = ?Q])
    fix i u assume i: "i \<in> set (lookup_all (runs s) Run_isRunning)" and u: "books w u" "evolves s u"
    then obtain r where r: "rows (runs s) i = Some r" "is_running r"
      using run_index.in_lookup_iff [OF ok] by (auto simp: run_keys_def split: if_splits)
    then have "run_endTimestamp r = 0" using b by (auto simp: books_def runs_ok_def)
    then obtain r' where r': "rows (runs u) i = Some r'" "run_endTimestamp r' = 0"
      using evolves_rows(2) [OF u(2) r(1)] by (auto simp: run_le_def)
    have "card (alive_ids u) < depth" using card_alive_le [OF b u(2)] depth by simp
    then have "term_good w (card (alive_ids u)) (machineTerminated w depth)" by (rule machineTerminated_term_good)
    then obtain v where "cancelTestRun w depth now i u = Inr v" "books w v" "evolves u v"
      "\<exists>r'. rows (runs v) i = Some r' \<and> run_canceled r'"
      using cancelRun_good [OF _ u(1) order_refl r', where mt = "machineTerminated w depth" and ts = now]
      unfolding cancelTestRun_def by blast
    then show "\<exists>v. ?f i u = Inr v \<and> books w v \<and> evolves u v \<and> ?Q i v"
      using u(1) r'(1) by (cases "stale_run initial now r'") (auto simp: get_run_def stale_run_def)
  next
    fix i u v assume Q: "?Q i u" and "evolves u v"
    then show "?Q i v" using evolves_rows_back(2) [of u v i] by (fastforce simp: run_le_def stale_run_def)
  qed (use b in simp)
  then obtain t where t: "cancel_stale_runs w depth initial now s = Inr t" "books w t" "evolves s t"
    "\<And>i. i \<in> set (lookup_all (runs s) Run_isRunning) \<Longrightarrow> ?Q i t"
    unfolding cancel_stale_runs_def by blast
  have "\<not> is_running r" if r: "rows (runs t) i = Some r" "stale_run initial now r" for i r
  proof
    assume run: "is_running r"
    obtain r0 where r0: "rows (runs s) i = Some r0" "run_le r0 r" using evolves_rows_back(2) [OF t(3) r(1)] by blast
    then have "is_running r0" using run by (auto simp: is_running_def run_le_def)
    then have "i \<in> set (lookup_all (runs s) Run_isRunning)"
      using r0(1) run_index.in_lookup_iff [OF ok] by (auto simp: run_keys_def)
    from t(4) [OF this] r run show False by (simp add: is_running_def)
  qed
  with t(1-3) show ?thesis by blast
qed

lemma terminate_silent_good:
  assumes b: "books w s" and depth: "card (alive_ids s) < depth"
  shows "\<exists>s'. terminate_silent_machines w depth initial now s = Inr s' \<and> books w s' \<and> evolves s s' \<and>
    (\<forall>i m. rows (machines s') i = Some m \<and> machine_timed_out m initial now \<longrightarrow> \<not> ma_isAlive m)"
proof -
  let ?Q = "\<lambda>i s. \<forall>m. rows (machines s) i = Some m \<and> machine_timed_out m initial now \<longrightarrow> \<not> ma_isAlive m"
  let ?f = "\<lambda>m s. if machine_timed_out (get_machine s m) initial now then terminateMachine w depth m now s else Inr s"
  have ok: "tbl_ok machine_keys (machines s)" using b by (simp add: books_def machines_ok_def)
  have "\<exists>t. foldR ?f (lookup_all (machines s) Machine_isAlive) s = Inr t \<and> books w t \<and> evolves s t \<and>
      (\<forall>i\<in>set (lookup_all (machines s) Machine_isAlive). ?Q i t)"
  proof (rule foldR_evolves [where Q = ?Q])
    fix i u assume i: "i \<in> set (lookup_all (machines s) Machine_isAlive)" and u: "books w u" "evolves s u"
    then obtain m where "rows (machines s) i = Some m"
      using machine_index.in_lookup_iff [OF ok] by blast
    then obtain m' where m': "rows (machines u) i = Some m'" using evolves_rows(1) [OF u(2)] by blast
    have "card (alive_ids u) < depth" using card_alive_le [OF b u(2)] depth by simp
    then have "term_good w (card (alive_ids u)) (machineTerminated w depth)" by (rule machineTerminated_term_good)
    from terminate_good [OF this u(1) _ order_refl, of i now] m'
    show "\<exists>v. ?f i u = Inr v \<and> books w v \<and> evolves u v \<and> ?Q i v"
      using u(1) by (auto simp: terminateMachine_def get_machine_def alive_ids_def)
  next
    fix i u v assume Q: "?Q i u" and "evolves u v"
    then show "?Q i v"
      using evolves_rows_back(1) [of u v i] by (fastforce simp: machine_le_def machine_timed_out_def Let_def)
  qed (use b in simp)
  then obtain t where t: "terminate_silent_machines w depth initial now s = Inr t" "books w t" "evolves s t"
    "\<And>i. i \<in> set (lookup_all (machines s) Machine_isAlive) \<Longrightarrow> ?Q i t"
    unfolding terminate_silent_machines_def by blast
  have "\<not> ma_isAlive m" if m: "rows (machines t) i = Some m" "machine_timed_out m initial now" for i m
  proof
    assume alive: "ma_isAlive m"
    obtain m0 where "rows (machines s) i = Some m0" "machine_le m0 m" using evolves_rows_back(1) [OF t(3) m(1)] by blast
    then have "i \<in> set (lookup_all (machines s) Machine_isAlive)"
      using alive machine_index.in_lookup_iff [OF ok] by (auto simp: machine_keys_def machine_le_def)
    from t(4) [OF this] m alive show False by simp
  qed
  with t(1-3) show ?thesis by blast
qed

lemma evolves_keeps_clean:
  assumes "evolves s s'"
  shows "(\<forall>i r. rows (runs s) i = Some r \<and> stale_run initial now r \<longrightarrow> \<not> is_running r) \<Longrightarrow>
      rows (runs s') i = Some r \<Longrightarrow> stale_run initial now r \<Longrightarrow> \<not> is_running r"
    "(\<forall>i m. rows (machines s) i = Some m \<and> machine_timed_out m initial now \<longrightarrow> \<not> ma_isAlive m) \<Longrightarrow>
      rows (machines s') i = Some m \<Longrightarrow> machine_timed_out m initial now \<Longrightarrow> \<not> ma_isAlive m"
proof -
  show "\<not> is_running r" if all: "\<forall>i r. rows (runs s) i = Some r \<and> stale_run initial now r \<longrightarrow> \<not> is_running r"
    and r: "rows (runs s') i = Some r" "stale_run initial now r"
  proof -
    obtain r0 where r0: "rows (runs s) i = Some r0" "run_le r0 r" using evolves_rows_back(2) [OF assms r(1)] by blast
    then have "stale_run initial now r0" using r(2) by (simp add: stale_run_def run_le_def)
    with all r0 show ?thesis by (auto simp: is_running_def run_le_def)
  qed
  show "\<not> ma_isAlive m" if all: "\<forall>i m. rows (machines s) i = Some m \<and> machine_timed_out m initial now \<longrightarrow> \<not> ma_isAlive m"
    and m: "rows (machines s') i = Some m" "machine_timed_out m initial now"
  proof -
    obtain m0 where m0: "rows (machines s) i = Some m0" "machine_le m0 m" using evolves_rows_back(1) [OF assms m(1)] by blast
    then have "machine_timed_out m0 initial now" using m(2) by (simp add: machine_timed_out_def machine_le_def Let_def)
    with all m0 show ?thesis by (auto simp: machine_le_def)
  qed
qed

lemma checkRetryTests_good: "books w s \<Longrightarrow> books w (checkRetryTests s) \<and> evolves s (checkRetryTests s)"
proof -
  assume b: "books w s"
  have "evolves s (fold triggerTestPriorityUpdate ts s)" for ts
    using b
  proof (induction ts arbitrary: s)
    case (Cons t ts)
    have "evolves s (triggerTestPriorityUpdate t s)" "books w (triggerTestPriorityUpdate t s)"
      using trigger_books [OF Cons.prems] by blast+
    then show ?case using Cons.IH evolves_trans by auto
  qed simp
  with b show ?thesis by (simp add: checkRetryTests_def triggers_books)
qed



end
