(* ===== verification/Resolver_Types.thy ===== *)
theory Resolver_Types
  imports Definition_Resolver
begin

text \<open>
  What the resolver returns and keeps in its caches: references to repositories that are not
  imports, environments with nothing left to import or to fetch, and tests whose dependencies are
  builds and sources of definite commits. Also the bound on the number of files it includes.
\<close>

section \<open>The invariant of the caches\<close>

definition no_imports :: "repo_dict \<Rightarrow> bool" where
  "no_imports repos \<longleftrightarrow> (\<forall>r \<in> snd ` set repos. \<not> is_Import r)"

fun is_Dockerfile :: "image \<Rightarrow> bool" where
  "is_Dockerfile (Dockerfile _ _ _) = True"
| "is_Dockerfile _ = False"

fun is_unresolved_source :: "test_dependency \<Rightarrow> bool" where
  "is_unresolved_source (DepUnresolvedSource _ _) = True"
| "is_unresolved_source _ = False"

text \<open>An environment before and after what it imports is merged into it.\<close>

definition env_fetched :: "test_environment \<Rightarrow> bool" where
  "env_fetched e \<longleftrightarrow> (is_Environment e \<longrightarrow> \<not> is_Dockerfile (env_image e)) \<and>
     (\<forall>d \<in> snd ` set (env_dependencies (env_fields e)). \<not> is_unresolved_source d)"

definition env_final :: "test_environment \<Rightarrow> bool" where
  "env_final e \<longleftrightarrow> env_fetched e \<and> (is_Environment e \<or> env_imports e = [])"

fun is_definite :: "test_dependency \<Rightarrow> bool" where
  "is_definite (DepBuild _ _ _) = True"
| "is_definite (DepSource _ _ _) = True"
| "is_definite _ = False"

definition sorted_artifacts :: "stage list \<Rightarrow> bool" where
  "sorted_artifacts ss \<longleftrightarrow> sorted (map stage_order ss) \<and> distinct (artifact_names ss)"

definition test_final :: "test_definition \<Rightarrow> bool" where
  "test_final t \<longleftrightarrow>
     (\<forall>d \<in> snd ` set (dependencies (test_fields_of_def t)). is_definite d) \<and>
     (case environment (test_fields_of_def t) of None \<Rightarrow> False | Some e \<Rightarrow> env_final e) \<and>
     (case stages_of_test t of Inl e \<Rightarrow> False | Inr ss \<Rightarrow> sorted_artifacts ss)"

definition envs_final :: "environments \<Rightarrow> bool" where
  "envs_final envs \<longleftrightarrow> (\<forall>e \<in> snd ` set envs. env_final e)"

definition tests_final :: "test_dict \<Rightarrow> bool" where
  "tests_final tests \<longleftrightarrow> (\<forall>t \<in> snd ` set tests. test_final t)"

definition resolver_ok :: "resolver \<Rightarrow> bool" where
  "resolver_ok s \<longleftrightarrow>
     (\<forall>p \<in> ran (postIncludeDefinitionsCache s). no_imports (post_repos p)) \<and>
     (\<forall>envs \<in> ran (environmentCache s). envs_final envs) \<and>
     (\<forall>tests \<in> ran (testDefinitionCache s). tests_final tests)"

lemma resolver_ok_new: "resolver_ok new_resolver"
  by (simp add: resolver_ok_def new_resolver_def)


lemma ran_updD: "v \<in> ran (m(k \<mapsto> x)) \<Longrightarrow> v = x \<or> v \<in> ran m"
  by (auto simp: ran_def split: if_splits)

lemma resolver_ok_raw [simp]:
  "resolver_ok (store_raw key r s) = resolver_ok s"
  "resolver_ok (add_raw_envs key envs s) = resolver_ok s"
  "resolver_ok (add_raw_tests key tests s) = resolver_ok s"
  "resolver_ok (s\<lparr>rawDefinitionsPath := f\<rparr>) = resolver_ok s"
  by (simp_all add: resolver_ok_def store_raw_def add_raw_envs_def add_raw_tests_def)

lemma resolver_ok_store:
  "resolver_ok s \<Longrightarrow> no_imports (post_repos p) \<Longrightarrow> resolver_ok (store_post key p s)"
  "resolver_ok s \<Longrightarrow> envs_final envs \<Longrightarrow> resolver_ok (store_envs key envs s)"
  "resolver_ok s \<Longrightarrow> tests_final tests \<Longrightarrow> resolver_ok (store_tests key tests s)"
  unfolding resolver_ok_def store_post_def store_envs_def store_tests_def
  by (auto simp del: fun_upd_apply dest!: ran_updD)

lemma resolver_ok_cached:
  "resolver_ok s \<Longrightarrow> postIncludeDefinitionsCache s key = Some p \<Longrightarrow> no_imports (post_repos p)"
  "resolver_ok s \<Longrightarrow> environmentCache s key = Some envs \<Longrightarrow> envs_final envs"
  "resolver_ok s \<Longrightarrow> testDefinitionCache s key = Some tests \<Longrightarrow> tests_final tests"
  unfolding resolver_ok_def by (blast intro: ranI)+

lemma resolver_ok_add_post:
  assumes "resolver_ok s"
  shows "resolver_ok (add_post_envs key envs s)"
proof -
  have "\<forall>p \<in> ran ((postIncludeDefinitionsCache s)(key := map_option (\<lambda>p. p\<lparr>post_envs := envs\<rparr>)
      (postIncludeDefinitionsCache s key))). no_imports (post_repos p)"
  proof
    fix p assume "p \<in> ran ((postIncludeDefinitionsCache s)(key :=
      map_option (\<lambda>p. p\<lparr>post_envs := envs\<rparr>) (postIncludeDefinitionsCache s key)))"
    then obtain k where k: "((postIncludeDefinitionsCache s)(key :=
      map_option (\<lambda>p. p\<lparr>post_envs := envs\<rparr>) (postIncludeDefinitionsCache s key))) k = Some p"
      unfolding ran_def by blast
    then obtain q where "postIncludeDefinitionsCache s k = Some q" "post_repos q = post_repos p"
      by (cases "k = key") auto
    with resolver_ok_cached(1) [OF assms] show "no_imports (post_repos p)" by metis
  qed
  then show ?thesis using assms by (simp add: resolver_ok_def add_post_envs_def add_raw_envs_def)
qed

section \<open>References and includes\<close>

abbreviation keeps_ok :: "'a call \<Rightarrow> ('a \<Rightarrow> bool) \<Rightarrow> bool" where
  "keeps_ok \<equiv> keeps resolver_ok"

lemma no_imports_set:
  "no_imports repos \<Longrightarrow> \<not> is_Import r \<Longrightarrow> no_imports (alist_set k r repos)"
  unfolding no_imports_def by (force dest: set_alist_set)

lemma no_imports_lookup: "no_imports repos \<Longrightarrow> map_of repos k = Some r \<Longrightarrow> \<not> is_Import r"
  unfolding no_imports_def using map_of_SomeD by force

lemma unprocessed_ok: "keeps_ok (unprocessedTestsEnvsAndReposFor x r h) (\<lambda>_. True)"
  unfolding unprocessedTestsEnvsAndReposFor_def
  by (intro keeps_cached keeps_bind [OF keeps_lift [where Q = "\<lambda>_. True"]])
    (auto split: option.splits intro!: keeps_ret keeps_bind [OF keeps_lift [where Q = "\<lambda>_. True"]]
      keeps_bind [OF keeps_mod])

lemma import_step_ok:
  assumes "\<And>r h. keeps I (refsFor r h) no_imports"
  shows "keeps I (import_step refsFor k p) (\<lambda>p. \<not> is_Import (snd p))"
proof -
  obtain parent subref where p: "p = (parent, subref)" by (cases p)
  show ?thesis
    unfolding import_step_def p prod.case
    by (rule keeps_bind [OF assms])
      (auto intro: keeps_raise keeps_ret split: option.split dest: no_imports_lookup)
qed

lemma resolveRepoRef_ok:
  assumes "\<And>r h. keeps I (refsFor r h) no_imports" "no_imports resolved"
  shows "keeps I (resolveRepoRef n refsFor cur repos p resolved)
    (\<lambda>res. \<not> is_Import (fst res) \<and> no_imports (snd res))"
  using assms(2)
proof (induction n arbitrary: p resolved)
  case 0
  then show ?case by (simp add: keeps_raise)
next
  case (Suc n)
  obtain refName ref where p: "p = (refName, ref)" by (cases p)
  show ?case
  proof (cases ref)
    case ref: (RepoImport imp)
    show ?thesis
    proof (cases "map_of resolved refName")
      case (Some r)
      with Suc.prems show ?thesis by (auto simp: p ref intro!: keeps_ret dest: no_imports_lookup)
    next
      case None
      show ?thesis
      proof (cases "map_of repos (hd (py_split slash imp))")
        case None2: None
        with None show ?thesis by (simp add: p ref Let_def keeps_raise)
      next
        case (Some target)
        have "keeps I (bindS (resolveRepoRef n refsFor cur repos (hd (py_split slash imp), target) resolved)
            (\<lambda>(subref, resolved).
            bindS (foldS (import_step refsFor) (tl (py_split slash imp)) (cur, subref)) (\<lambda>(parent, subref).
            let r = ImportedReference (reference subref) imp (original_reference parent subref)
            in retS (r, alist_set refName r resolved)))) (\<lambda>res. \<not> is_Import (fst res) \<and> no_imports (snd res))"
          by (rule keeps_bind [OF Suc.IH [OF Suc.prems]])
            (auto simp: Let_def no_imports_set intro!: keeps_bind [OF keeps_foldS [where P = "\<lambda>p. True"]]
              keeps_ret keeps_weaken [OF import_step_ok [OF assms(1)]] split: prod.split)
        with None Some show ?thesis by (simp add: p ref Let_def)
      qed
    qed
  qed (use Suc.prems in \<open>simp_all add: p keeps_ret\<close>)
qed

lemma resolveRepoDefinitions_ok:
  assumes "\<And>r h. keeps I (refsFor r h) no_imports"
  shows "keeps I (resolveRepoDefinitions n refsFor cur repos) no_imports"
proof -
  have "is_Pin v \<or> is_plain v \<Longrightarrow> \<not> is_Import v" for v by (cases v) auto
  then have "no_imports (filter (\<lambda>(k, v). is_Pin v \<or> is_plain v) repos)" by (force simp: no_imports_def)
  moreover have "no_imports []" by (simp add: no_imports_def)
  ultimately show ?thesis
    unfolding resolveRepoDefinitions_def
    by (auto intro!: keeps_ret keeps_foldS keeps_bind [OF resolveRepoRef_ok [OF assms]] no_imports_set)
qed

lemma refuse_ok: "keeps I (refuse b) (\<lambda>_. True)"
  by (simp add: refuse_def keeps_raise keeps_ret)

lemma merge_included_ok:
  assumes "\<And>r h. keeps_ok (refsFor r h) no_imports"
  shows "keeps_ok (merge_included n refsFor r h st new) (\<lambda>st. no_imports (inc_repos st))"
  unfolding merge_included_def Let_def
  by (intro keeps_bind [OF refuse_ok] keeps_bind [OF resolveRepoDefinitions_ok [OF assms]]
      keeps_bind [OF keeps_mod] keeps_ret) simp_all

lemma include_step_ok:
  assumes "\<And>r h. keeps_ok (refsFor r h) no_imports" "no_imports (inc_repos st)"
  shows "keeps_ok (include_step x n refsFor r h st) (\<lambda>st. no_imports (inc_repos st))"
  unfolding include_step_def Let_def
  by (auto split: list.split option.split prod.split
      intro!: keeps_ret keeps_get keeps_bind [OF keeps_lift [where Q = "\<lambda>_. True"]] keeps_raise
        merge_included_ok assms)

lemma include_loop_unfold:
  "include_loop x n refsFor r h st s =
     (if inc_pending st = [] then Some (Inr st, s)
      else case include_step x n refsFor r h st s of
        None \<Rightarrow> None
      | Some (Inl e, t) \<Rightarrow> Some (Inl e, t)
      | Some (Inr st', t) \<Rightarrow> include_loop x n refsFor r h st' t)"
  by (subst include_loop.simps) (simp add: bindS_def retS_def)

text \<open>What every round keeps, the loop keeps.\<close>

lemma include_loop_keeps:
  assumes step: "\<And>st. P st \<Longrightarrow> keeps I (include_step x n refsFor r h st) P" and "P st"
  shows "keeps I (include_loop x n refsFor r h st) P"
proof -
  have "I t \<and> (case res of Inl e \<Rightarrow> True | Inr st' \<Rightarrow> P st')"
    if "I s" "P st" "include_loop x n refsFor r h st s = Some (res, t)" for s res t st
    using step that
  proof (induction x n refsFor r h st s arbitrary: res t rule: include_loop.induct)
    case round: (1 x n refsFor r h st s)
    note stp = round.prems(1) [OF round.prems(3)]
    show ?case
    proof (cases "inc_pending st = []")
      case True
      with round.prems show ?thesis by (auto simp: include_loop_unfold [of x n refsFor r h st s])
    next
      case pending: False
      show ?thesis
      proof (cases "include_step x n refsFor r h st s")
        case None
        with round.prems(4) pending show ?thesis by (simp add: include_loop_unfold [of x n refsFor r h st s])
      next
        case (Some p)
        obtain r1 u where p: "p = (r1, u)" by (cases p)
        have ok: "I u" using keepsD [OF stp round.prems(2)] Some p by blast
        show ?thesis
        proof (cases r1)
          case (Inl e)
          with p Some round.prems(4) pending ok show ?thesis
            by (auto simp: include_loop_unfold [of x n refsFor r h st s])
        next
          case (Inr st1)
          have v: "include_step x n refsFor r h st s = Some (Inr st1, u)" using Some p Inr by simp
          have "P st1" using keeps_value [OF stp round.prems(2) v] .
          moreover have "include_loop x n refsFor r h st1 u = Some (res, t)"
            using v round.prems(4) pending by (simp add: include_loop_unfold [of x n refsFor r h st s])
          ultimately show ?thesis using round.IH [OF pending v round.prems(1) ok] by blast
        qed
      qed
    qed
  qed
  with assms(2) show ?thesis unfolding keeps_def by blast
qed

lemma include_loop_ok:
  assumes "\<And>r h. keeps_ok (refsFor r h) no_imports" "no_imports (inc_repos st)"
  shows "keeps_ok (include_loop x n refsFor r h st) (\<lambda>st. no_imports (inc_repos st))"
  by (rule include_loop_keeps) (use assms in \<open>simp_all add: include_step_ok\<close>)

lemma prioritize_test_ok: "keeps_ok (prioritize_test key globs name tests) (\<lambda>_. True)"
  unfolding prioritize_test_def Let_def
  by (auto intro!: keeps_bind [OF keeps_lift [where Q = "\<lambda>_. True"]] keeps_bind [OF keeps_mod] keeps_ret)

lemma post_include_with_ok:
  assumes "\<And>r h. keeps_ok (post r h) (\<lambda>p. no_imports (post_repos p))"
  shows "keeps_ok (post_include_with x n post r h) (\<lambda>p. no_imports (post_repos p))"
proof -
  let ?refs = "\<lambda>r h. bindS (post r h) (\<lambda>p. retS (post_repos p))"
  have refs: "keeps_ok (?refs r h) no_imports" for r h
    by (rule keeps_bind [OF assms]) (simp add: keeps_ret)
  show ?thesis
    unfolding post_include_with_def Let_def
  proof (rule keeps_cached)
    show "keeps_ok (bindS (unprocessedTestsEnvsAndReposFor x r h) (\<lambda>raw.
        bindS (resolveRepoDefinitions n ?refs r (ex_repos raw)) (\<lambda>repos.
        if \<exists>r \<in> snd ` set repos. is_head r
        then retS \<lparr>post_tests = [], post_envs = [], post_repos = repos\<rparr>
        else bindS (include_loop x n ?refs r h
            \<lparr>inc_tests = ex_tests raw, inc_envs = ex_envs raw, inc_repos = repos,
             inc_pending = ex_includes raw, everIncluded = [], attempts = 0\<rparr>) (\<lambda>st.
          bindS (foldS (prioritize_test (r, h) (ex_prioritize raw))
            (map fst (inc_tests st)) (inc_tests st)) (\<lambda>tests.
          retS \<lparr>post_tests = tests, post_envs = inc_envs st, post_repos = inc_repos st\<rparr>)))))
      (\<lambda>p. no_imports (post_repos p))"
      by (intro keeps_bind [OF unprocessed_ok] keeps_bind [OF resolveRepoDefinitions_ok [OF refs]] keeps_if
          keeps_bind [OF include_loop_ok [OF refs]] keeps_ret
          keeps_bind [OF keeps_foldS [where P = "\<lambda>_. True", OF TrueI prioritize_test_ok]]) simp_all
  qed (auto intro: resolver_ok_cached resolver_ok_store)
qed

lemma postInclude_ok: "keeps_ok (postIncludeDefinitions x n r h) (\<lambda>p. no_imports (post_repos p))"
  by (induction n arbitrary: r h) (simp_all add: keeps_raise post_include_with_ok)

lemma repoReferencesFor_ok: "keeps_ok (repoReferencesFor x n r h) no_imports"
  unfolding repoReferencesFor_def by (rule keeps_bind [OF postInclude_ok]) (simp add: keeps_ret)

section \<open>Environments\<close>

lemma resolve_env_dep_ok: "resolve_env_dep x repos d = Inr d' \<Longrightarrow> \<not> is_unresolved_source d'"
  by (cases d) (auto simp: resolve_env_dep_def unresolved_source_def res_elims split: option.splits if_splits)

lemma resolve_image_ok: "resolve_image x img = Inr img' \<Longrightarrow> \<not> is_Dockerfile img'"
  by (cases img) (auto simp: resolve_image_def split: option.splits if_splits)

lemma preMerge_fetched:
  assumes "resolveEnvironmentPreMerge x repos env = Inr env'"
  shows "env_fetched env'"
proof -
  obtain deps where d: "mapR (\<lambda>(k, d). bindR (resolve_env_dep x repos d) (\<lambda>d'. Inr (k, d')))
      (env_dependencies (env_fields env)) = Inr deps"
    and e: "env_dependencies (env_fields env') = deps" "is_Environment env' \<Longrightarrow> \<not> is_Dockerfile (env_image env')"
    using assms
    by (cases env) (auto simp: resolveEnvironmentPreMerge_def Let_def bindR_Inr_conv dest: resolve_image_ok)
  have "\<forall>p \<in> set deps. \<not> is_unresolved_source (snd p)"
    by (rule mapR_instances [OF d]) (auto simp: bindR_Inr_conv dest: resolve_env_dep_ok)
  with e show ?thesis by (auto simp: env_fetched_def)
qed

lemma subst_dep_resolved: "is_unresolved_source (apply_substitutions_to_dependency d vs) = is_unresolved_source d"
  by (cases d) simp_all

lemma subst_deps_resolved:
  assumes "\<forall>d \<in> snd ` set deps. \<not> is_unresolved_source d"
  shows "\<forall>d \<in> snd ` set (apply_substitutions_to_dependencies deps vs). \<not> is_unresolved_source d"
proof -
  have "\<forall>d \<in> snd ` set (fold (\<lambda>(k, v). alist_set (substitute_variables k vs)
      (apply_substitutions_to_dependency v vs)) deps acc). \<not> is_unresolved_source d"
    if "\<forall>d \<in> snd ` set acc. \<not> is_unresolved_source d" for acc
    using assms that
  proof (induction deps arbitrary: acc)
    case (Cons p deps)
    obtain k v where p: "p = (k, v)" by (cases p)
    have "\<forall>d \<in> snd ` set (alist_set (substitute_variables k vs) (apply_substitutions_to_dependency v vs) acc).
        \<not> is_unresolved_source d"
      using Cons.prems p by (force simp: subst_dep_resolved dest: set_alist_set)
    with Cons show ?case by (simp add: p)
  qed simp
  from this [of "[]"] show ?thesis by (simp add: apply_substitutions_to_dependencies_def)
qed

lemma subst_image: "is_Dockerfile (substitute_variables_in_image img vs) = is_Dockerfile img"
  by (cases img) simp_all

lemma substitutions_final:
  assumes "apply_environment_substitutions env = Some (Inr env')" "env_fetched env"
  shows "env_fetched env' \<and> is_Environment env' = is_Environment env \<and>
    (is_Environment env \<or> env_imports env' = env_imports env)"
proof -
  obtain vs where r: "Inr env' = (let deps = apply_substitutions_to_dependencies (env_dependencies (env_fields env)) vs;
           new = (env_fields env)\<lparr>env_variables := vs, env_dependencies := deps\<rparr>
       in if \<exists>d\<in>set (map fst deps). CHR ''$'' \<in> set d then Inl AssertionError
          else Inr (case env of
                 Environment p img _ \<Rightarrow> Environment p (substitute_variables_in_image img vs) new
               | Import imps setup _ \<Rightarrow> Import imps (substitute_variables setup vs) new))"
    using assms(1) by (auto simp: apply_environment_substitutions_def bindR_Inr_conv eq_commute [of "Inr env'"])
  let ?deps = "apply_substitutions_to_dependencies (env_dependencies (env_fields env)) vs"
  let ?new = "(env_fields env)\<lparr>env_variables := vs, env_dependencies := ?deps\<rparr>"
  have e: "env' = (case env of
      Environment p img _ \<Rightarrow> Environment p (substitute_variables_in_image img vs) ?new
    | Import imps setup _ \<Rightarrow> Import imps (substitute_variables setup vs) ?new)"
    using r by (simp add: Let_def split: if_splits)
  have "\<forall>d \<in> snd ` set ?deps. \<not> is_unresolved_source d"
    by (rule subst_deps_resolved) (use assms(2) in \<open>simp add: env_fetched_def\<close>)
  then show ?thesis
    using assms(2) e by (cases env) (simp_all add: env_fetched_def subst_image)
qed

lemma set_merge_dicts: "p \<in> set (merge_dicts d1 d2) \<Longrightarrow> p \<in> set d1 \<or> p \<in> set d2"
  unfolding merge_dicts_def
proof (induction d2 arbitrary: d1)
  case (Cons q d2)
  obtain k v where q: "q = (k, v)" by (cases q)
  then have "p \<in> set (alist_set k v d1) \<or> p \<in> set d2" using Cons by auto
  then show ?case using set_alist_set [of p k v d1] q by auto
qed simp

lemma fold_env_vars_deps:
  assumes "\<forall>e \<in> set es. \<forall>d \<in> snd ` set (env_dependencies e). \<not> is_unresolved_source d"
    and "\<forall>d \<in> snd ` set acc. \<not> is_unresolved_source d"
  shows "\<forall>d \<in> snd ` set (fold (\<lambda>e ds. merge_dicts ds (env_dependencies e)) es acc). \<not> is_unresolved_source d"
  using assms
proof (induction es arbitrary: acc)
  case (Cons e es)
  have "\<forall>p \<in> set (merge_dicts acc (env_dependencies e)). \<not> is_unresolved_source (snd p)"
  proof
    fix p assume "p \<in> set (merge_dicts acc (env_dependencies e))"
    from set_merge_dicts [OF this] show "\<not> is_unresolved_source (snd p)"
      using Cons.prems by auto
  qed
  with Cons show ?case by simp
qed simp

lemma merge_in_order_final:
  assumes "merge_in_order order = Inr env" "\<forall>e \<in> set order. env_fetched e" "order \<noteq> []"
  shows "env_final env"
proof -
  have f: "env_fields env = merged_fields order"
    using assms(1) by (auto simp: merge_in_order_def res_elims split: list.splits)
  have "\<forall>d \<in> snd ` set (env_dependencies (merged_fields order)). \<not> is_unresolved_source d"
  proof -
    let ?fs = "map env_fields order"
    have all: "\<forall>e \<in> set ?fs. \<forall>d \<in> snd ` set (env_dependencies e). \<not> is_unresolved_source d"
      using assms(2) by (auto simp: env_fetched_def)
    have "last ?fs \<in> set ?fs" by (rule last_in_set) (use assms(3) in simp)
    moreover have "set (rev (butlast ?fs)) \<subseteq> set ?fs" using in_set_butlastD by fastforce
    ultimately show ?thesis
      using fold_env_vars_deps [of "rev (butlast ?fs)" "env_dependencies (last ?fs)"] all
      by (simp add: merged_fields_def Let_def) blast
  qed
  moreover have "is_Environment env \<longrightarrow> \<not> is_Dockerfile (env_image env)" "is_Environment env \<or> env_imports env = []"
  proof -
    consider "filter is_Environment order = []" | a where "filter is_Environment order = [a]"
      using assms(1) by (auto simp: merge_in_order_def split: list.splits)
    then show "is_Environment env \<longrightarrow> \<not> is_Dockerfile (env_image env)" 
    proof cases
      case (2 a)
      then have "a \<in> set order" "is_Environment a" by (auto simp: filter_eq_Cons_iff)
      then have "\<not> is_Dockerfile (env_image a)" using assms(2) by (auto simp: env_fetched_def)
      with 2 assms(1) show ?thesis
        by (cases "env_image a") (auto simp: merge_in_order_def res_elims split: if_splits)
    qed (use assms(1) in \<open>auto simp: merge_in_order_def\<close>)
    show "is_Environment env \<or> env_imports env = []"
      using assms(1) by (auto simp: merge_in_order_def res_elims split: list.splits)
  qed
  ultimately show ?thesis by (simp add: env_final_def env_fetched_def f)
qed

lemma merge_environments_final:
  assumes "merge_environments n imp found = Inr env" "env_fetched imp"
    "\<forall>e \<in> snd ` set found. env_fetched e"
  shows "env_final env"
proof -
  obtain order where ac: "assertGraphHasNoCycles n imp (env_children found) = Inr ()"
    and o: "method_resolution_order n found imp = Inr order" and m: "merge_in_order order = Inr env"
    using assms(1) by (auto simp: merge_environments_def bindR_Inr_conv)
  have "order \<noteq> []" using mro_head [OF o] assertGraphHasNoCycles_acyclic [OF ac] by auto
  moreover have "\<forall>e \<in> set order. env_fetched e" using mro_members [OF o] assms(2,3) by blast
  ultimately show ?thesis using merge_in_order_final [OF m] by blast
qed

definition envs_fetched :: "environments \<Rightarrow> bool" where
  "envs_fetched envs \<longleftrightarrow> (\<forall>e \<in> snd ` set envs. env_fetched e)"

definition found_fetched :: "env_dict \<Rightarrow> bool" where
  "found_fetched found \<longleftrightarrow> (\<forall>e \<in> snd ` set found. env_fetched e)"

lemma final_fetched: "envs_final envs \<Longrightarrow> envs_fetched envs"
  by (auto simp: envs_final_def envs_fetched_def env_final_def)

lemma lookup_fetched: "envs_fetched envs \<Longrightarrow> map_of envs k = Some e \<Longrightarrow> env_fetched e"
  unfolding envs_fetched_def using map_of_SomeD by force

lemma lookup_final: "envs_final envs \<Longrightarrow> map_of envs k = Some e \<Longrightarrow> env_final e"
  unfolding envs_final_def using map_of_SomeD by force

lemma import_dep_ok:
  assumes "\<And>r h. keeps I (envsFor r h) envs_final" "envs_fetched environments" "found_fetched found"
  shows "keeps I (import_dep n envsFor key environments dep found) found_fetched"
  using assms(3)
proof (induction n arbitrary: dep found)
  case 0
  then show ?case by (simp add: keeps_raise)
next
  case (Suc n)
  show ?case
  proof (cases dep)
    case (UnresolvedReference r name)
    with Suc.prems show ?thesis by (simp add: keeps_raise keeps_ret)
  next
    case dep: (Reference repo hash name)
    have set: "keeps I (if (repo, hash) = key then retS environments else envsFor repo hash) envs_fetched"
      by (intro keeps_if keeps_ret assms(2) keeps_weaken [OF assms(1)] final_fetched)
    have "keeps I (bindS (if (repo, hash) = key then retS environments else envsFor repo hash) (\<lambda>env_set.
         case map_of env_set name of
           None \<Rightarrow> raiseS resolution_error
         | Some env \<Rightarrow>
             let found = found @ [(Reference repo hash name, env)] in
             (case env of
                Environment _ _ _ \<Rightarrow> retS found
              | Import imps _ _ \<Rightarrow> foldS (import_dep n envsFor key environments) imps found)))
        found_fetched"
    proof (rule keeps_bind [OF set])
      fix env_set assume es: "envs_fetched env_set"
      show "keeps I (case map_of env_set name of
           None \<Rightarrow> raiseS resolution_error
         | Some env \<Rightarrow>
             let found = found @ [(Reference repo hash name, env)] in
             (case env of
                Environment _ _ _ \<Rightarrow> retS found
              | Import imps _ _ \<Rightarrow> foldS (import_dep n envsFor key environments) imps found))
          found_fetched"
      proof (cases "map_of env_set name")
        case (Some env)
        with Suc.prems lookup_fetched [OF es Some]
        have f: "found_fetched (found @ [(Reference repo hash name, env)])" by (simp add: found_fetched_def ball_Un)
        with Some show ?thesis
          by (cases env) (auto simp: Let_def intro!: keeps_ret keeps_foldS Suc.IH)
      qed (simp add: keeps_raise)
    qed
    with Suc.prems show ?thesis by (simp add: dep keeps_ret)
  qed
qed

definition pair_final :: "string set \<Rightarrow> environments \<times> environments \<Rightarrow> bool" where
  "pair_final K p \<longleftrightarrow> fst ` set (fst p) = K \<and> envs_fetched (fst p) \<and> envs_final (snd p)"

lemma pair_final_env:
  assumes "pair_final K (environments, resolved)" "env_final r" "e \<in> K"
  shows "pair_final K (alist_set e r environments, resolved @ [(e, r)])"
    and "pair_final K (environments, resolved @ [(e, r)])"
proof -
  have "envs_fetched (alist_set e r environments)"
    unfolding envs_fetched_def
  proof
    fix x assume "x \<in> snd ` set (alist_set e r environments)"
    then have "x = r \<or> x \<in> snd ` set environments" by (force dest: set_alist_set)
    then show "env_fetched x" using assms(1,2) by (auto simp: pair_final_def envs_fetched_def env_final_def)
  qed
  moreover have "fst ` set (alist_set e r environments) = K"
    using assms(1,3) keys_alist_set [of e r environments] by (auto simp: pair_final_def)
  ultimately show "pair_final K (alist_set e r environments, resolved @ [(e, r)])"
    and "pair_final K (environments, resolved @ [(e, r)])"
    using assms(1,2) by (simp_all add: pair_final_def envs_final_def)
qed

lemma resolveEnvironment_ok:
  assumes envs: "\<And>r h. keeps I (envsFor r h) envs_final" and p: "pair_final K p"
    and e: "e \<in> K"
  shows "keeps I (resolveEnvironment n envsFor key e p) (pair_final K)"
proof -
  obtain environments resolved where pp: "p = (environments, resolved)" by (cases p)
  obtain env where env: "map_of environments e = Some env"
    using e p pp unfolding pair_final_def by (metis fst_conv map_of_eq_None_iff not_Some_eq)
  have f: "env_fetched env" using lookup_fetched env p pp by (auto simp: pair_final_def)
  show ?thesis
  proof (cases env)
    case (Environment pl img fs)
    have subst: "keeps I (liftO (apply_environment_substitutions env)) env_final"
      by (rule keeps_liftO) (use substitutions_final f Environment in \<open>auto simp: env_final_def\<close>)
    have "keeps I (bindS (liftO (apply_environment_substitutions env)) (\<lambda>r.
         retS (alist_set e r environments, resolved @ [(e, r)]))) (pair_final K)"
      by (rule keeps_bind [OF subst], rule keeps_ret) (use p pp pair_final_env e in blast)
    with env Environment show ?thesis by (simp add: resolveEnvironment_def pp)
  next
    case (Import imps scr fs)
    have found: "keeps I (foldS (import_dep n envsFor key environments) imps []) found_fetched"
      by (rule keeps_foldS, simp add: found_fetched_def, rule import_dep_ok [OF envs])
        (use p pp in \<open>simp_all add: pair_final_def\<close>)
    have merged: "keeps I (liftS (merge_environments n env found)) env_final" if "found_fetched found" for found
      by (rule keeps_lift) (use merge_environments_final f that in \<open>auto simp: found_fetched_def\<close>)
    have subst: "keeps I (liftO (apply_environment_substitutions m)) env_final" if "env_final m" for m
      by (rule keeps_liftO) (use substitutions_final that in \<open>fastforce simp: env_final_def\<close>)
    have "keeps I (bindS (foldS (import_dep n envsFor key environments) imps []) (\<lambda>found.
         bindS (liftS (merge_environments n env found)) (\<lambda>merged.
         bindS (liftO (apply_environment_substitutions merged)) (\<lambda>r.
         retS (environments, resolved @ [(e, r)]))))) (pair_final K)"
      by (rule keeps_bind [OF found], rule keeps_bind [OF merged], assumption,
          rule keeps_bind [OF subst], assumption, rule keeps_ret)
        (use p pp pair_final_env e in blast)
    with env Import show ?thesis by (simp add: resolveEnvironment_def pp)
  qed
qed

lemma resolve_environments_ok:
  assumes "\<And>r h. keeps I (envsFor r h) envs_final"
  shows "keeps I (resolve_environments x n envsFor key repos envs) envs_final"
  unfolding resolve_environments_def
proof (rule keeps_bind [OF keeps_lift])
  fix environments
  assume e: "mapR (\<lambda>(e, env). bindR (resolveEnvironmentPreMerge x repos env) (\<lambda>env'. Inr (e, env'))) envs
    = Inr environments"
  have "\<forall>p \<in> set environments. env_fetched (snd p)"
    by (rule mapR_instances [OF e]) (auto simp: bindR_Inr_conv dest: preMerge_fetched)
  then have start: "pair_final (fst ` set environments) (environments, [])"
    by (simp add: pair_final_def envs_fetched_def envs_final_def)
  have "keeps I (foldS (resolveEnvironment n envsFor key) (map fst environments) (environments, []))
      (pair_final (fst ` set environments))"
    by (rule keeps_foldS) (use start in \<open>auto intro!: resolveEnvironment_ok [OF assms]\<close>)
  then show "keeps I (bindS (foldS (resolveEnvironment n envsFor key) (map fst environments) (environments, []))
      (\<lambda>(_, resolved). retS resolved)) envs_final"
    by (rule keeps_bind) (auto intro!: keeps_ret simp: pair_final_def)
qed

lemma environments_with_ok:
  assumes "\<And>r h. keeps_ok (envsFor r h) envs_final"
  shows "keeps_ok (environments_with x n envsFor r h) envs_final"
  unfolding environments_with_def Let_def
  by (intro keeps_cached keeps_bind [OF repoReferencesFor_ok] keeps_bind [OF postInclude_ok]
      keeps_bind [OF keeps_if [OF keeps_ret [where Q = "\<lambda>_. True"] keeps_mod]]
      resolve_environments_ok assms)
    (auto intro: resolver_ok_cached resolver_ok_store resolver_ok_add_post)

lemma environmentsFor_ok: "keeps_ok (environmentsFor x n r h) envs_final"
  by (induction n arbitrary: r h) (simp_all add: keeps_raise environments_with_ok)

section \<open>Tests\<close>

text \<open>The tests between the application of their environments and the resolution of their
  dependencies.\<close>

definition has_final_env :: "test_definition \<Rightarrow> bool" where
  "has_final_env t \<longleftrightarrow> (case environment (test_fields_of_def t) of None \<Rightarrow> False | Some e \<Rightarrow> env_final e)"

definition tests_with_env :: "test_dict \<Rightarrow> bool" where
  "tests_with_env ts \<longleftrightarrow> (\<forall>t \<in> snd ` set ts. has_final_env t)"

lemma applied_env:
  assumes "apply_environment_to_test t env defs = Some (Inr t')"
  shows "environment (test_fields_of_def t') = Some env"
  using assms
  by (auto simp: apply_environment_to_test_def bindO_def test_with_environment_def Let_def
      split: option.splits sum.splits test_definition.splits)

lemma apply_test_environment_ok:
  assumes "envs_final envs" "tests_with_env ts"
  shows "keeps I (apply_test_environment envs p ts) tests_with_env"
proof -
  obtain name t where p: "p = (name, t)" by (cases p)
  show ?thesis
  proof (cases "map_of envs (actualEnvironmentNameForTest t)")
    case None
    then show ?thesis by (simp add: p apply_test_environment_def keeps_raise)
  next
    case (Some env)
    have "keeps I (liftO (apply_environment_to_test t env [])) has_final_env"
      by (rule keeps_liftO) (use lookup_final [OF assms(1) Some] applied_env in \<open>simp add: has_final_env_def\<close>)
    then have "keeps I (bindS (liftO (apply_environment_to_test t env []))
        (\<lambda>t'. retS (ts @ [(name, t')]))) tests_with_env"
      by (rule keeps_bind) (use assms(2) in \<open>auto intro!: keeps_ret simp: tests_with_env_def\<close>)
    with Some show ?thesis by (simp add: p apply_test_environment_def)
  qed
qed

lemma enable_has_env [simp]: "has_final_env (enable_test t) = has_final_env t"
  by (cases t) (simp_all add: has_final_env_def enable_test_def)

lemma ensure_all_enables:
  assumes "ensureAllAppropriateChildrenEnabled n ts = Inr us"
  shows "enables ts us"
  using foldR_ensure_root [of n "map fst ts" ts us] assms
  by (simp add: ensureAllAppropriateChildrenEnabled_def)

lemma enabled_lookup_env:
  assumes "tests_with_env ts" "enables ts us" "map_of us name = Some t"
  shows "has_final_env t"
proof -
  have "name \<in> fst ` set ts" using assms(2,3) map_of_in_keys [OF assms(3)] by (simp add: enables_def)
  then obtain t0 where t0: "map_of ts name = Some t0" by (metis map_of_eq_None_iff not_Some_eq)
  then have "has_final_env t0" using assms(1) map_of_SomeD [OF t0] by (force simp: tests_with_env_def)
  moreover have "t = t0 \<or> t = enable_test t0" using enablesD [OF assms(2) t0] assms(3) by auto
  ultimately show ?thesis by auto
qed

lemma external_build_ok:
  assumes "\<And>r h. keeps_ok (testsFor r h) tests_final"
  shows "keeps_ok (external_build testsFor key r h n) is_definite"
  unfolding external_build_def
  by (intro keeps_if keeps_raise keeps_bind [OF assms] keeps_bind [OF keeps_lift [where Q = "\<lambda>_. True"]])
    (auto intro: keeps_ret)

lemma unresolved_source_definite: "unresolved_source x repos r p = Inr d \<Longrightarrow> is_definite d"
  by (auto simp: unresolved_source_def split: option.splits if_splits)

lemma resolveTestDep_ok:
  assumes tests: "\<And>r h. keeps_ok (testsFor r h) tests_final"
    and rec: "\<And>name acc. tests_final acc \<Longrightarrow> keeps_ok (resolve name acc) (\<lambda>p. tests_final (snd p))"
    and acc: "tests_final acc"
  shows "keeps_ok (resolveTestDep x testsFor key repos tests resolve d acc)
    (\<lambda>p. is_definite (fst p) \<and> tests_final (snd p))"
proof (cases d)
  case (DepInternalBuild n)
  then show ?thesis using acc
    by (auto simp: resolveTestDep_def intro!: keeps_bind [OF keeps_lift [where Q = "\<lambda>_. True"]]
        keeps_bind [OF rec] keeps_ret)
next
  case (DepUnresolvedExternalBuild r n)
  then show ?thesis using acc
    by (auto simp: resolveTestDep_def intro!: keeps_raise keeps_ret keeps_bind [OF external_build_ok [OF tests]]
        split: option.split)
next
  case (DepUnresolvedSource r p)
  then show ?thesis using acc
    by (auto simp: resolveTestDep_def intro!: keeps_ret keeps_bind [OF keeps_lift [where Q = is_definite]]
        dest: unresolved_source_definite)
qed (use acc in \<open>auto simp: resolveTestDep_def intro!: keeps_ret keeps_bind [OF external_build_ok [OF tests]]
    keeps_bind [OF keeps_lift [where Q = "\<lambda>_. True"]]\<close>)

definition deps_final :: "(string \<times> test_dependency) list \<times> test_dict \<Rightarrow> bool" where
  "deps_final p \<longleftrightarrow> (\<forall>d \<in> snd ` set (fst p). is_definite d) \<and> tests_final (snd p)"

lemma resolve_deps_ok:
  assumes "\<And>d acc. tests_final acc \<Longrightarrow>
      keeps_ok (resolveDep d acc) (\<lambda>p. is_definite (fst p) \<and> tests_final (snd p))"
    and "tests_final acc"
  shows "keeps_ok (resolve_deps resolveDep deps acc) deps_final"
  unfolding resolve_deps_def
proof (rule keeps_foldS)
  show "deps_final ([], acc)" using assms(2) by (simp add: deps_final_def)
  fix kd :: "string \<times> test_dependency" and b assume b: "deps_final b"
  obtain k d where kd: "kd = (k, d)" by (cases kd)
  obtain done_deps res where bb: "b = (done_deps, res)" by (cases b)
  have "tests_final res" using b by (simp add: bb deps_final_def)
  from keeps_bind [OF assms(1) [OF this]] b
  show "keeps_ok ((\<lambda>(k, d) (done_deps, resolved). bindS (resolveDep d resolved)
      (\<lambda>(d', resolved). retS (done_deps @ [(k, d')], resolved))) kd b) deps_final"
    by (auto simp: kd bb deps_final_def intro!: keeps_bind [OF assms(1) [OF \<open>tests_final res\<close>]] keeps_ret)
qed

lemma artifact_names_perm: "mset ss = mset ss' \<Longrightarrow> mset (artifact_names ss) = mset (artifact_names ss')"
  by (simp add: artifact_names_def mset_concat flip: sum_mset_sum_list)

lemma resolved_test_final:
  assumes "assertArtifactSetValid t = Inr u" "has_final_env t" "\<forall>d \<in> snd ` set deps. is_definite d"
  shows "test_final (resolved_test x t deps)"
proof -
  obtain ss where ss: "stages_of_test t = Inr ss"
    using assms(1) by (auto simp: assertArtifactSetValid_def bindR_Inr_conv)
  then have "distinct (artifact_names ss)" using assertArtifactSetValid_iff assms(1) by auto
  then have "distinct (artifact_names (sort_key stage_order ss))"
    using artifact_names_perm [of "sort_key stage_order ss" ss] mset_eq_imp_distinct_iff by fastforce
  then have "sorted_artifacts (sortTestStages ss)"
    unfolding sorted_artifacts_def by (simp add: sort_stages)
  with ss assms(2,3) show ?thesis
    by (cases t) (auto simp: test_final_def resolved_test_def has_final_env_def stages_of_test_def Let_def)
qed

lemma tests_final_set: "tests_final ts \<Longrightarrow> test_final t \<Longrightarrow> tests_final (alist_set k t ts)"
  unfolding tests_final_def by (force dest: set_alist_set)

lemma resolveTest_ok:
  assumes tests: "\<And>r h. keeps_ok (testsFor r h) tests_final"
    and env: "\<And>name t. map_of ts name = Some t \<Longrightarrow> has_final_env t"
  shows "tests_final acc \<Longrightarrow> keeps_ok (resolveTest n x testsFor key repos ts name acc) (\<lambda>p. tests_final (snd p))"
proof (induction n arbitrary: name acc)
  case 0
  then show ?case by (simp add: keeps_raise)
next
  case (Suc n)
  show ?case
  proof (cases "map_of acc name")
    case (Some t)
    with Suc.prems show ?thesis by (simp add: keeps_ret)
  next
    case None
    show ?thesis
    proof (cases "map_of ts name")
      case None2: None
      with None show ?thesis by (simp add: keeps_raise)
    next
      case (Some t)
      have valid: "keeps_ok (liftS (assertArtifactSetValid t)) (\<lambda>_. assertArtifactSetValid t = Inr ())"
        by (rule keeps_lift) simp
      have deps: "keeps_ok (resolve_deps
             (resolveTestDep x testsFor key repos ts (resolveTest n x testsFor key repos ts))
             (dependencies (test_fields_of_def t)) acc) deps_final"
        by (rule resolve_deps_ok [OF _ Suc.prems]) (rule resolveTestDep_ok [OF tests Suc.IH])
      have "keeps_ok (bindS (liftS (assertArtifactSetValid t)) (\<lambda>_.
           bindS (resolve_deps
             (resolveTestDep x testsFor key repos ts (resolveTest n x testsFor key repos ts))
             (dependencies (test_fields_of_def t)) acc) (\<lambda>(deps, resolved).
           let t = resolved_test x t deps in retS (t, alist_set name t resolved))))
          (\<lambda>p. tests_final (snd p))"
        by (rule keeps_bind [OF valid], rule keeps_bind [OF deps])
          (auto simp: Let_def deps_final_def intro!: keeps_ret tests_final_set resolved_test_final env [OF Some])
      with None Some show ?thesis by simp
    qed
  qed
qed

lemma tests_with_ok:
  assumes "\<And>r h. keeps_ok (testsFor r h) tests_final"
  shows "keeps_ok (tests_with x n testsFor r h) tests_final"
proof -
  have run: "keeps_ok (foldS (\<lambda>t resolved.
      bindS (resolveTest n x testsFor (r, h) repos us t resolved) (\<lambda>(_, resolved). retS resolved))
      (map fst us) []) tests_final"
    if "\<And>name t. map_of us name = Some t \<Longrightarrow> has_final_env t" for us repos
  proof (rule keeps_foldS)
    show "tests_final []" by (simp add: tests_final_def)
    fix t acc assume acc: "tests_final acc"
    have "keeps_ok (resolveTest n x testsFor (r, h) repos us t acc) (\<lambda>p. tests_final (snd p))"
      by (rule resolveTest_ok) (use assms that acc in blast)+
    then show "keeps_ok (bindS (resolveTest n x testsFor (r, h) repos us t acc)
        (\<lambda>(_, resolved). retS resolved)) tests_final"
      by (rule keeps_bind) (simp add: case_prod_beta keeps_ret)
  qed
  show ?thesis
    unfolding tests_with_def
  proof (rule keeps_cached)
    show "keeps_ok (bindS (postIncludeDefinitions x n r h) (\<lambda>p.
        bindS (repoReferencesFor x n r h) (\<lambda>repos.
        bindS (environmentsFor x n r h) (\<lambda>envs.
        bindS (foldS (apply_test_environment envs) (post_tests p) []) (\<lambda>tests.
        bindS (liftS (assertTestsNoncircular n tests)) (\<lambda>_.
        bindS (liftS (ensureAllAppropriateChildrenEnabled n tests)) (\<lambda>tests.
        foldS (\<lambda>t resolved. bindS (resolveTest n x testsFor (r, h) repos tests t resolved)
          (\<lambda>(_, resolved). retS resolved)) (map fst tests) []))))))) tests_final"
    proof (rule keeps_bind [OF postInclude_ok], rule keeps_bind [OF repoReferencesFor_ok],
        rule keeps_bind [OF environmentsFor_ok])
      fix p repos envs assume envs: "envs_final envs"
      have start: "tests_with_env []" by (simp add: tests_with_env_def)
      have applied: "keeps_ok (foldS (apply_test_environment envs) (post_tests p) []) tests_with_env"
        by (rule keeps_foldS) (use start apply_test_environment_ok [OF envs] in auto)
      show "keeps_ok (bindS (foldS (apply_test_environment envs) (post_tests p) []) (\<lambda>tests.
        bindS (liftS (assertTestsNoncircular n tests)) (\<lambda>_.
        bindS (liftS (ensureAllAppropriateChildrenEnabled n tests)) (\<lambda>tests.
        foldS (\<lambda>t resolved. bindS (resolveTest n x testsFor (r, h) repos tests t resolved)
          (\<lambda>(_, resolved). retS resolved)) (map fst tests) [])))) tests_final"
      proof (rule keeps_bind [OF applied], rule keeps_bind [OF keeps_lift [where Q = "\<lambda>_. True"]], simp)
        fix ts assume ts: "tests_with_env ts"
        have en: "keeps_ok (liftS (ensureAllAppropriateChildrenEnabled n ts)) (\<lambda>us. enables ts us)"
          by (rule keeps_lift) (rule ensure_all_enables)
        show "keeps_ok (bindS (liftS (ensureAllAppropriateChildrenEnabled n ts)) (\<lambda>tests.
          foldS (\<lambda>t resolved. bindS (resolveTest n x testsFor (r, h) repos tests t resolved)
            (\<lambda>(_, resolved). retS resolved)) (map fst tests) [])) tests_final"
          by (rule keeps_bind [OF en], rule run) (rule enabled_lookup_env [OF ts])
      qed
    qed
  qed (auto intro: resolver_ok_cached resolver_ok_store)
qed

lemma testDefinitionsFor_ok: "keeps_ok (testDefinitionsFor x n r h) tests_final"
  by (induction n arbitrary: r h) (simp_all add: keeps_raise tests_with_ok)

end
