(* ===== verification/Resolver_Properties.thy ===== *)
theory Resolver_Properties
  imports Resolver_Types
begin

text \<open>
  The properties of the resolver that span its calls, and what it returns for small repositories.
\<close>

section \<open>A repository\<close>

definition demo_hash :: string where
  "demo_hash = replicate 40 (CHR ''a'')"

definition demo_env_def :: "vardefs \<Rightarrow> define_env_fields" where
  "demo_env_def vars = \<lparr>de_variables = vars, de_dependencies = [], de_test_configuration = '''',
     de_test_stages = [], de_test_timeout = 0, de_test_min_cores = 0, de_test_max_cores = 0,
     de_test_min_ram_gb = 0, de_test_min_disk_gb = 0, de_test_max_retries = 0,
     de_test_retry_wait_seconds = 0\<rparr>"

definition demo_df :: "(string \<times> string) list \<Rightarrow> define_fields" where
  "demo_df deps = \<lparr>df_environment = ''linux'', df_mixins = [], df_configuration = '''',
     df_project = '''', df_dependencies = deps, df_variables = [], df_timeout = 0,
     df_min_cores = 0, df_max_cores = 0, df_min_ram_gb = 0, df_min_disk_gb = 0\<rparr>"

text \<open>A build, and a test that depends on it and on the sources.\<close>

definition small_script :: test_script where
  "small_script = \<lparr>script_repos = [], script_includes = [],
     script_environments = [(''linux'', DefineEnvironment linux (ScriptAMI ''ami'' '''') (demo_env_def []))],
     script_builds = [(''b/linux'', DefineBuild (demo_df []) [] ''make'' '''' True 0 0)],
     script_tests = [(''t/linux'', DefineTest
        (demo_df [(''b'', ''b/linux''), (''src'', ''HEAD'')]) [] ''check'' '''' False)],
     script_deployments = [], script_prioritize = []\<rparr>"

definition demo_repo :: git_repo where
  "demo_repo = \<lparr>commitExists = (\<lambda>h. h = demo_hash), getTestDefinitionsPath = (\<lambda>_. Some ''testlooper.yml''),
     getFileContents = (\<lambda>_ _. Some ''text''), mostRecentHashForSubpath = (\<lambda>h _. Some h)\<rparr>"

definition demo_services :: "test_script \<Rightarrow> services" where
  "demo_services script = \<lparr>git_repo_lookup = (\<lambda>r. if r = ''repo'' then Some demo_repo else None),
     parse_yaml = (\<lambda>_. Inr (VDict [(VStr ''looper_version'', VInt 4)])),
     parse_json = (\<lambda>_. Inl ValueError), decode_script = (\<lambda>_. Inr script), nesting = 9,
     sha_hash = (\<lambda>t. ''h:'' @ test_name (test_fields_of_def t))\<rparr>"

declare dirty_loop.simps [code] apply_variable_substitutions_and_merge_repeatedly.simps [code]

section \<open>What is returned\<close>


lemma small_script_run:
  "map_option (\<lambda>p. map_sum id (\<lambda>(tests, envs, repos).
      (map (\<lambda>(name, t). (name, disabled_of_test t, dependencies (test_fields_of_def t))) tests,
       map fst envs, repos)) (fst p))
    (testEnvironmentAndRepoDefinitionsFor (demo_services small_script) 5 ''repo'' demo_hash new_resolver) =
   Some (Inr ([(''b/linux'', Inr False, []),
     (''t/linux'', Inr False, [(''test_inputs/b'', DepBuild ''b/linux'' ''h:b/linux'' ''''),
        (''test_inputs/src'', DepSource ''repo'' demo_hash '''')])], [''linux''], []))"
  by code_simp


text \<open>What has been returned for a commit is returned again, whatever git answers by then, and
  without a change of the caches.\<close>

theorem resolved_once:
  assumes "testDefinitionsFor x n r h s = Some (Inr tests, s')"
  shows "testDefinitionsFor x' (Suc m) r h s' = Some (Inr tests, s')"
proof -
  have again: "cached testDefinitionCache store_tests key compute' t = Some (Inr v, t)"
    if "cached testDefinitionCache store_tests key compute u = Some (Inr v, t)" for key compute compute' v u t
  proof (cases "testDefinitionCache u key")
    case None
    then have "bindS compute (\<lambda>v. bindS (modS (store_tests key v)) (\<lambda>_. retS v)) u = Some (Inr v, t)"
      using that by (simp add: cached_def)
    then obtain w where "t = store_tests key v w"
      by (auto simp: bindS_Some_Inr modS_def retS_def)
    then have "testDefinitionCache t key = Some v" by (simp add: store_tests_def)
    then show ?thesis by (simp add: cached_def retS_def)
  next
    case (Some w)
    then show ?thesis using that by (simp add: cached_def retS_def)
  qed
  show ?thesis
  proof (cases n)
    case 0
    with assms show ?thesis by (simp add: raiseS_def)
  next
    case (Suc k)
    with assms again show ?thesis by (auto simp: tests_with_def)
  qed
qed

lemma resolved_once_witness:
  "case testDefinitionsFor (demo_services small_script) 5 ''repo'' demo_hash new_resolver of
     Some (Inr tests, s) \<Rightarrow> map fst tests = [''b/linux'', ''t/linux''] \<and>
       testDefinitionsFor ((demo_services small_script)\<lparr>git_repo_lookup := Map.empty\<rparr>) 1 ''repo'' demo_hash s =
         Some (Inr tests, s)
   | _ \<Rightarrow> False"
proof -
  have e: "map_option (\<lambda>p. map_sum id (map fst) (fst p))
      (testDefinitionsFor (demo_services small_script) 5 ''repo'' demo_hash new_resolver) =
    Some (Inr [''b/linux'', ''t/linux''])"
    by code_simp
  then obtain tests s where run: "testDefinitionsFor (demo_services small_script) 5 ''repo'' demo_hash
      new_resolver = Some (Inr tests, s)"
    by (cases "testDefinitionsFor (demo_services small_script) 5 ''repo'' demo_hash new_resolver")
      (auto simp: map_sum_def split: sum.splits prod.splits)
  with e have "map fst tests = [''b/linux'', ''t/linux'']" by simp
  with resolved_once [OF run, of _ 0] run show ?thesis by simp
qed

section \<open>Includes\<close>

text \<open>What every round of the loop over the includes keeps, from where it starts.\<close>

definition include_inv :: "include_state \<Rightarrow> include_state \<Rightarrow> bool" where
  "include_inv start st \<longleftrightarrow> attempts st \<le> MAX_INCLUDE_ATTEMPTS \<and> distinct (everIncluded st) \<and>
     length (everIncluded st) = attempts st \<and>
     map_of (inc_tests start) \<subseteq>\<^sub>m map_of (inc_tests st) \<and> map_of (inc_envs start) \<subseteq>\<^sub>m map_of (inc_envs st)"

lemma map_le_update:
  assumes "m \<subseteq>\<^sub>m map_of d" "fst ` set e \<inter> fst ` set d = {}"
  shows "m \<subseteq>\<^sub>m map_of (alist_update d e)"
  unfolding map_le_def map_of_alist_update
proof
  fix k assume k: "k \<in> dom m"
  then obtain v where "m k = Some v" by auto
  then have d: "map_of d k = Some v" using assms(1) k by (simp add: map_le_def)
  then have "k \<notin> fst ` set e" using assms(2) map_of_in_keys [OF d] by blast
  then have "map_of (rev e) k = None" by (simp add: map_of_eq_None_iff)
  with d \<open>m k = Some v\<close> show "m k = (map_of d ++ map_of (rev e)) k" by (simp add: map_add_def)
qed

lemma merge_included_extends:
  assumes "merge_included n refsFor r h st new s = Some (Inr st', t)"
  shows "inc_tests st' = alist_update (inc_tests st) (ex_tests new) \<and>
    fst ` set (ex_tests new) \<inter> fst ` set (inc_tests st) = {} \<and>
    inc_envs st' = alist_update (inc_envs st) (ex_envs new) \<and>
    fst ` set (ex_envs new) \<inter> fst ` set (inc_envs st) = {}"
proof -
  have refuse: "refuse b u = Some (Inr (), u') \<longleftrightarrow> \<not> b \<and> u' = u" for b u u'
    by (auto simp: refuse_def raiseS_def retS_def)
  show ?thesis
    using assms
    by (auto simp: merge_included_def bindS_Some_Inr Let_def retS_def refuse modS_def)
qed

lemma include_step_inv:
  assumes "include_inv start st"
  shows "keeps (\<lambda>_. True) (include_step x n refsFor r h st) (include_inv start)"
  unfolding keeps_def
proof (intro allI impI conjI TrueI)
  fix s res t assume run: "include_step x n refsFor r h st s = Some (res, t)"
  show "case res of Inl e \<Rightarrow> True | Inr st' \<Rightarrow> include_inv start st'"
  proof (cases res)
    case (Inr st')
    show ?thesis
    proof (cases "inc_pending st")
      case Nil
      with run assms Inr show ?thesis by (auto simp: include_step_def retS_def)
    next
      case (Cons i rest)
      note run' = run [unfolded Inr]
      obtain rr hh p where res': "resolveIncludeString (inc_repos st) r h (rawDefinitionsPath s (r, h))
          (include_path i) = Inr (rr, hh, p)"
        using run' Cons by (auto simp: include_step_def Let_def bindS_Some_Inr liftS_def)
      have "inc_tests st' = inc_tests st \<and> inc_envs st' = inc_envs st \<or>
        (\<exists>st0 new u. merge_included n refsFor r h st0 new u = Some (Inr st', t) \<and>
          inc_tests st0 = inc_tests st \<and> inc_envs st0 = inc_envs st)"
      proof (cases "((rr, hh, p), include_variables i) \<in> set (everIncluded st)")
        case True
        with run' Cons res' show ?thesis by (auto simp: include_step_def Let_def retS_def)
      next
        case False
        let ?st = "st\<lparr>inc_pending := rest,
          everIncluded := everIncluded st @ [((rr, hh, p), include_variables i)], attempts := attempts st + 1\<rparr>"
        from False run' Cons res' obtain new u where
            "merge_included n refsFor r h ?st new u = Some (Inr st', t)"
          by (auto simp: include_step_def Let_def bindS_Some_Inr liftS_def raiseS_def
              split: if_splits option.splits)
        then show ?thesis by fastforce
      qed
      then have "map_of (inc_tests start) \<subseteq>\<^sub>m map_of (inc_tests st') \<and>
          map_of (inc_envs start) \<subseteq>\<^sub>m map_of (inc_envs st')"
        using assms merge_included_extends map_le_update unfolding include_inv_def by metis
      with include_step_counts [OF run' Cons] assms Inr show ?thesis
        by (auto simp: include_inv_def)
    qed
  qed simp
qed

text \<open>C34: The loop over the includes always ends; when it ends without an error there is nothing
  left to include, each file was read once per set of variables, at most 128 were read, and no
  included file replaced a test or an environment that was there before.\<close>

theorem includes_bounded:
  assumes "include_loop x n refsFor r h
    \<lparr>inc_tests = tests, inc_envs = envs, inc_repos = repos, inc_pending = incs, everIncluded = [],
     attempts = 0\<rparr> s = Some (Inr st, s')"
  shows "inc_pending st = [] \<and> distinct (everIncluded st) \<and> length (everIncluded st) \<le> 128 \<and>
    map_of tests \<subseteq>\<^sub>m map_of (inc_tests st) \<and> map_of envs \<subseteq>\<^sub>m map_of (inc_envs st)"
proof -
  let ?start = "\<lparr>inc_tests = tests, inc_envs = envs, inc_repos = repos, inc_pending = incs,
    everIncluded = [], attempts = 0\<rparr>"
  have "include_inv ?start ?start" by (simp add: include_inv_def)
  then have "keeps (\<lambda>_. True) (include_loop x n refsFor r h ?start) (include_inv ?start)"
    by (intro include_loop_keeps [where P = "include_inv ?start"] include_step_inv)
  then have inv: "include_inv ?start st" using keeps_value assms by fast
  have "inc_pending st = []"
    if "include_loop x n refsFor r h st0 s = Some (Inr st, s')" for st0 s
    using that
  proof (induction x n refsFor r h st0 s rule: include_loop.induct)
    case (1 x n refsFor r h st0 s)
    then show ?case
      by (cases "inc_pending st0 = []")
        (auto simp: include_loop_unfold [of x n refsFor r h st0 s] split: option.splits sum.splits)
  qed
  with assms inv show ?thesis by (simp add: include_inv_def MAX_INCLUDE_ATTEMPTS_def)
qed

text \<open>A file that is included twice is read once.\<close>

definition two_includes :: include_state where
  "two_includes = \<lparr>inc_tests = [], inc_envs = [], inc_repos = [],
     inc_pending = replicate 2 \<lparr>include_path = ''/a.yml'', include_variables = []\<rparr>,
     everIncluded = [], attempts = 0\<rparr>"

lemma two_includes_run:
  "map_option (\<lambda>p. map_sum id (\<lambda>st. (map fst (inc_tests st), everIncluded st, inc_pending st)) (fst p))
    (include_loop (demo_services small_script) 5 (\<lambda>_ _. raiseS KeyError) ''repo'' demo_hash
      two_includes new_resolver) =
   Some (Inr ([''b/linux'', ''t/linux''], [((''repo'', demo_hash, ''a.yml''), [])], []))"
  by code_simp

lemma includes_bounded_witness:
  "case include_loop (demo_services small_script) 5 (\<lambda>_ _. raiseS KeyError) ''repo'' demo_hash
      two_includes new_resolver of
     Some (Inr st, s) \<Rightarrow> inc_pending st = [] \<and> length (everIncluded st) \<le> 128 \<and> length (inc_tests st) = 2
   | _ \<Rightarrow> False"
proof -
  obtain st s where run: "include_loop (demo_services small_script) 5 (\<lambda>_ _. raiseS KeyError) ''repo''
      demo_hash two_includes new_resolver = Some (Inr st, s)"
    using two_includes_run
    by (cases "include_loop (demo_services small_script) 5 (\<lambda>_ _. raiseS KeyError) ''repo''
        demo_hash two_includes new_resolver") (auto simp: map_sum_def split: sum.splits prod.splits)
  with two_includes_run have "map fst (inc_tests st) = [''b/linux'', ''t/linux'']" by simp
  then have "length (inc_tests st) = 2" by (metis length_Cons length_map list.size(3) Suc_1 One_nat_def)
  with includes_bounded [OF run [unfolded two_includes_def]] run show ?thesis by simp
qed

section \<open>Where the code does not do what it means to\<close>

text \<open>A file that declares a deployment is never resolved: a deployment has no flag that could
  disable it.\<close>

lemma deployments_are_refused:
  assumes "map_of tests name = Some (Deployment f ports)"
  shows "prioritize_test key globs name tests s = Some (Inl AttributeError, s)"
  using assms by (simp add: prioritize_test_def prioritized_def disabled_of_test_def raiseS_def)

text \<open>A source of another repository at a path is never resolved.\<close>

lemma pinned_subpath_is_refused:
  assumes "path \<noteq> ''''"
  shows "\<exists>e. unresolved_source x repos repo_name path = Inl e"
  using assms by (simp add: unresolved_source_def split: option.split)

text \<open>What an environment inherits depends on the order in which the environments of a commit are
  resolved: \<open>B\<close> imports \<open>A\<close>, which defines \<open>V\<close> by \<open>X\<close>, and redefines \<open>X\<close>. When \<open>A\<close> is resolved
  first, \<open>V\<close> has the value it has in \<open>A\<close>.\<close>

definition env_with :: "string \<Rightarrow> vardefs \<Rightarrow> environment_fields" where
  "env_with name vars = env_fields_of name [] (demo_env_def vars)"

definition env_A :: "string \<times> test_environment" where
  "env_A = (''A'', Environment linux (AMI ''ami'' '''')
     (env_with ''A'' [(''X'', ''1''), (''V'', ''${X}'')]))"

definition env_B :: "string \<times> test_environment" where
  "env_B = (''B'', Import [Reference ''repo'' demo_hash ''A''] '''' (env_with ''B'' [(''X'', ''2'')]))"

definition resolved_V :: "environments \<Rightarrow> string option res option" where
  "resolved_V envs = map_option (\<lambda>p. map_sum id (\<lambda>es.
       map_of (env_variables (env_fields (the (map_of es ''B'')))) ''V'') (fst p))
     (resolve_environments (demo_services small_script) 5 (\<lambda>_ _. raiseS KeyError) (''repo'', demo_hash)
       [] envs new_resolver)"

lemma inheritance_depends_on_order:
  "resolved_V [env_A, env_B] = Some (Inr (Some ''1''))"
  "resolved_V [env_B, env_A] = Some (Inr (Some ''2''))"
  by code_simp+

text \<open>References that import each other are not detected: the search ends when the interpreter has
  no levels left, however many it had.\<close>

lemma circular_imports_undetected:
  "resolveRepoRef n refsFor cur [(''a'', RepoImport ''b''), (''b'', RepoImport ''a'')]
     (''a'', RepoImport ''b'') [] s = Some (Inl RecursionError, s) \<and>
   resolveRepoRef n refsFor cur [(''a'', RepoImport ''b''), (''b'', RepoImport ''a'')]
     (''b'', RepoImport ''a'') [] s = Some (Inl RecursionError, s)"
  by (induction n) (simp_all add: raiseS_def bindS_def)

end
