(* ===== verification/Test_Runs.thy ===== *)
theory Test_Runs
  imports Manager_Repair Log_Handling
begin

text \<open>
  Test runs in \<^verbatim>\<open>TestManager.py\<close>: \<open>startNewTest\<close> and \<open>startNewDeployment\<close>, which give work to a
  machine, \<open>recordTestArtifactUploaded\<close> and \<open>recordTestResults\<close>, by which it reports, \<open>testHeartbeat\<close>,
  \<open>clearTestRun\<close> and \<open>_importTestRun\<close>. An operation that uses several transactions returns its outcome
  together with the state that the committed ones have left.
\<close>

section \<open>Handing out work\<close>

fun deploy_first ::
  "'m world \<Rightarrow> oid \<Rightarrow> string \<Rightarrow> int \<Rightarrow> oid list \<Rightarrow> 'm mgr \<Rightarrow> ((oid \<times> test_definition option) option \<times> 'm mgr) res" where
  "deploy_first w machine machineId timestamp [] s = Inr (None, s)"
| "deploy_first w machine machineId timestamp (deployment # rest) s =
     (let test = de_test (get_deployment s deployment) in
      bindR (machineCategoryForTest w test s) (\<lambda>(c1, s1).
      case machineCategoryForPair (ma_hardware (get_machine s1 machine), ma_os (get_machine s1 machine)) s1 of (c2, s2) \<Rightarrow>
      if c1 = c2 then
        let s3 = upd_deployment deployment (\<lambda>d. d\<lparr>de_machine := Some machine\<rparr>) s2;
            s4 = addDeploymentMessage deployment (MachineAccepting timestamp machineId) s3
        in bindR (definitionForTest w test s4) (\<lambda>def. Inr (Some (deployment, def), s4))
      else deploy_first w machine machineId timestamp rest s2))"

definition startNewDeployment ::
  "'m world \<Rightarrow> string \<Rightarrow> int \<Rightarrow> 'm mgr \<Rightarrow> ((oid \<times> test_definition option) option \<times> 'm mgr) res" where
  "startNewDeployment w machineId timestamp s =
     (case lookup_any (machines s) (Machine_machineId machineId) of
        None \<Rightarrow> Inr (None, s)
      | Some machine \<Rightarrow>
          if \<not> ma_isAlive (get_machine s machine) then Inr (None, s)
          else let s1 = recordHeartbeat machine timestamp '''' s
               in deploy_first w machine machineId timestamp (lookup_all (deployments s1) Deployment_isAliveAndPending) s1)"

definition assign_test ::
  "'m world \<Rightarrow> nat \<Rightarrow> oid \<Rightarrow> string \<Rightarrow> int \<Rightarrow> 'm mgr \<Rightarrow> ((oid \<times> test_definition option) option \<times> 'm mgr) res" where
  "assign_test w depth machine machineId timestamp s =
     bindR (lookupHighestPriorityTest w machine s) (\<lambda>t. case t of
       None \<Rightarrow> Inr (None, s)
     | Some test \<Rightarrow>
         let s1 = upd_test test (\<lambda>t. t\<lparr>ts_activeRuns := ts_activeRuns t + 1\<rparr>) s in
         bindR (lookup_one (machines s1) (Machine_machineId machineId)) (\<lambda>m.
         case new_run (default_run\<lparr>run_test := test, run_startedTimestamp := timestamp,
                         run_lastHeartbeat := timestamp, run_machine := Some m\<rparr>) s1 of (runningTest, s2) \<Rightarrow>
         bindR (updateTestPriority w depth test timestamp s2) (\<lambda>s3.
         bindR (definitionForTest w test s3) (\<lambda>def. Inr (Some (runningTest, def), s3)))))"

definition startNewTest ::
  "'m world \<Rightarrow> nat \<Rightarrow> string \<Rightarrow> int \<Rightarrow> 'm mgr \<Rightarrow> (oid \<times> test_definition option) option res \<times> 'm mgr" where
  "startNewTest w depth machineId timestamp s =
     (case lookup_any (machines s) (Machine_machineId machineId) of
        None \<Rightarrow> (Inr None, s)
      | Some machine \<Rightarrow>
          if \<not> ma_isAlive (get_machine s machine) then (Inr None, s)
          else let s1 = recordHeartbeat machine timestamp '''' s
               in case assign_test w depth machine machineId timestamp s1 of
                    Inl e \<Rightarrow> (Inl e, s1)
                  | Inr (r, s2) \<Rightarrow> (Inr r, s2))"

section \<open>Reports\<close>

definition testNameSet :: "'m world \<Rightarrow> string list \<Rightarrow> 'm mgr \<Rightarrow> oid \<times> 'm mgr" where
  "testNameSet w testNames s =
     (let shaHash = w_hashNames w (sort testNames)
      in case lookup_any (name_sets s) (Names_shaHash shaHash) of
           Some cur \<Rightarrow> (cur, s)
         | None \<Rightarrow> new_name_set \<lparr>ns_shaHash = shaHash, ns_test_names = sort testNames\<rparr> s)"

text \<open>\<open>Inl\<close>: one more artifact; \<open>Inr\<close>: the cumulative list.\<close>

definition artifacts_after :: "string list \<Rightarrow> string list \<Rightarrow> string + string list \<Rightarrow> string list res" where
  "artifacts_after completed expected artifact =
     (case artifact of
        Inl a \<Rightarrow>
          if length completed \<ge> length expected then Inl (UserException ''Unexpected artifact'')
          else if a \<noteq> expected ! length completed then Inl (UserException ''Unexpected artifact'')
          else Inr (completed @ [a])
      | Inr as \<Rightarrow>
          if length completed > length as \<or> take (length completed) as \<noteq> completed
          then Inl (UserException ''Unexpected cumulative artifact'')
          else if length as > length expected then Inl (UserException ''Unexpected cumulative artifact'')
          else if as \<noteq> take (length as) expected then Inl (UserException ''Unexpected cumulative artifact'')
          else Inr as)"

definition update_dependents :: "'m world \<Rightarrow> nat \<Rightarrow> oid \<Rightarrow> int \<Rightarrow> 'm mgr \<Rightarrow> 'm mgr res" where
  "update_dependents w depth test curTimestamp s =
     foldR (\<lambda>dep s. updateTestPriority w depth (td_test (get_test_dep s dep)) curTimestamp s)
       (lookup_all (test_deps s) (TD_dependsOn test)) s"

definition recordTestArtifactUploaded ::
  "'m world \<Rightarrow> nat \<Rightarrow> oid \<Rightarrow> string + string list \<Rightarrow> int \<Rightarrow> 'm mgr \<Rightarrow> 'm mgr res" where
  "recordTestArtifactUploaded w depth testId artifact curTimestamp s =
     (if rows (runs s) testId = None then Inr s
      else
        let testRun = get_run s testId in
        bindR (artifacts_after (run_artifactsCompleted testRun)
                 (sm_artifacts (ts_summary (get_test s (run_test testRun)))) artifact) (\<lambda>as.
        update_dependents w depth (run_test testRun) curTimestamp
          (upd_run testId (\<lambda>r. r\<lparr>run_artifactsCompleted := as\<rparr>) s)))"

type_synonym test_results = "(string \<times> bool \<times> bool) list"

text \<open>What the second transaction of \<open>recordTestResults\<close> writes, before the machine is looked at.\<close>

definition store_results :: "'m world \<Rightarrow> bool \<Rightarrow> oid \<Rightarrow> test_results \<Rightarrow> int \<Rightarrow> 'm mgr \<Rightarrow> 'm mgr" where
  "store_results w success testId testSuccesses curTimestamp s =
     (let test = run_test (get_run s testId);
          names = sort (map fst testSuccesses);
          passed = map (\<lambda>n. fst (the (map_of testSuccesses n))) names;
          has_logs = map (\<lambda>n. snd (the (map_of testSuccesses n))) names;
          failed = int (length (filter (\<lambda>n. \<not> fst (the (map_of testSuccesses n))) names));
          s1 = upd_run testId (\<lambda>r. r\<lparr>run_endTimestamp := curTimestamp\<rparr>) s;
          s2 = upd_test test (\<lambda>t. t\<lparr>ts_activeRuns := ts_activeRuns t - 1, ts_totalRuns := ts_totalRuns t + 1,
                 ts_lastTestEndTimestamp := curTimestamp\<rparr>) s1
      in case testNameSet w names s2 of (ns, s3) \<Rightarrow>
         let s4 = upd_run testId (\<lambda>r. r\<lparr>run_testNames := Some ns, run_testFailures := fromBools passed,
                    run_testHasLogs := fromBools has_logs, run_totalTestCount := int (length names),
                    run_totalFailedTestCount := failed, run_success := success\<rparr>) s3
         in upd_test test (\<lambda>t. t\<lparr>ts_totalTestCount := ts_totalTestCount t + int (length names),
              ts_totalFailedTestCount := ts_totalFailedTestCount t + failed,
              ts_successes := (if success then ts_successes t + 1 else ts_successes t)\<rparr>) s4)"

definition finish_run ::
  "'m world \<Rightarrow> nat \<Rightarrow> bool \<Rightarrow> oid \<Rightarrow> test_results \<Rightarrow> int \<Rightarrow> 'm mgr \<Rightarrow> (bool \<times> 'm mgr) res" where
  "finish_run w depth success testId testSuccesses curTimestamp s =
     (let testRun = get_run s testId; test = run_test testRun in
      if rows (runs s) testId = None then Inr (False, s)
      else if run_canceled testRun then Inr (False, s)
      else if success \<and> run_artifactsCompleted testRun \<noteq> sm_artifacts (ts_summary (get_test s test))
      then Inl AssertionError
      else
        let s1 = store_results w success testId testSuccesses curTimestamp s
        in case run_machine testRun of
             None \<Rightarrow> Inl (UserException ''Null object'')
           | Some m \<Rightarrow>
               let s2 = upd_machine m (\<lambda>m. m\<lparr>ma_lastTestCompleted := curTimestamp\<rparr>) s1 in
               bindR (if is_vm (ma_os (get_machine s2 m)) then terminateMachine w depth m curTimestamp s2 else Inr s2) (\<lambda>s3.
               bindR (update_dependents w depth test curTimestamp s3) (\<lambda>s4.
               bindR (updateTestPriority w depth test curTimestamp s4) (\<lambda>s5. Inr (True, s5)))))"

definition recordTestResults ::
  "'m world \<Rightarrow> nat \<Rightarrow> bool \<Rightarrow> oid \<Rightarrow> test_results \<Rightarrow> string list \<Rightarrow> int \<Rightarrow> 'm mgr \<Rightarrow> bool res \<times> 'm mgr" where
  "recordTestResults w depth success testId testSuccesses artifactList curTimestamp s =
     (case recordTestArtifactUploaded w depth testId (Inr artifactList) curTimestamp s of
        Inl e \<Rightarrow> (Inl e, s)
      | Inr s1 \<Rightarrow>
          (case finish_run w depth success testId testSuccesses curTimestamp s1 of
             Inl e \<Rightarrow> (Inl e, s1)
           | Inr (b, s2) \<Rightarrow> (Inr b, s2)))"

section \<open>Clearing and importing\<close>

definition clearTestRun :: "'m world \<Rightarrow> nat \<Rightarrow> oid \<Rightarrow> int \<Rightarrow> 'm mgr \<Rightarrow> 'm mgr res" where
  "clearTestRun w depth testId now s =
     (let testRun = get_run s testId; test = run_test testRun in
      if rows (runs s) testId = None then Inl AssertionError
      else if run_endTimestamp testRun = 0 then cancelTestRun w depth now testId s
      else
        let s1 = upd_test test (\<lambda>t. t\<lparr>ts_totalRuns := ts_totalRuns t - 1\<rparr>) s;
            s2 = (if run_success testRun
                  then upd_test test (\<lambda>t. t\<lparr>ts_successes := ts_successes t - 1,
                         ts_totalTestCount := ts_totalTestCount t - run_totalTestCount testRun,
                         ts_totalFailedTestCount := ts_totalFailedTestCount t - run_totalFailedTestCount testRun\<rparr>) s1
                  else s1)
        in Inr (triggerTestPriorityUpdate test (upd_run testId (\<lambda>r. r\<lparr>run_canceled := True\<rparr>) s2)))"

definition importTestRun ::
  "'m world \<Rightarrow> oid \<Rightarrow> oid \<Rightarrow> int \<Rightarrow> int \<Rightarrow> int \<Rightarrow> bool \<Rightarrow> bool \<Rightarrow> string list \<Rightarrow> string \<Rightarrow> string \<Rightarrow> int \<Rightarrow> int \<Rightarrow> 'm mgr \<Rightarrow> 'm mgr" where
  "importTestRun w test identity started lastHeartbeat ended success canceled testNameList
     testFailureBits testHasLogsBits testCount failedTestCount s =
     (case testNameSet w testNameList s of (ns, s1) \<Rightarrow>
      let r = default_run\<lparr>run_test := test, run_startedTimestamp := started, run_lastHeartbeat := lastHeartbeat,
            run_endTimestamp := ended, run_canceled := canceled, run_success := success, run_testNames := Some ns,
            run_testFailures := testFailureBits, run_testHasLogs := testHasLogsBits,
            run_totalTestCount := testCount, run_totalFailedTestCount := failedTestCount\<rparr>;
          s2 = s1\<lparr>runs := tbl_new run_keys identity r (runs s1)\<rparr>;
          s3 = (if success
                then upd_test test (\<lambda>t. t\<lparr>ts_successes := ts_successes t + 1,
                       ts_totalTestCount := ts_totalTestCount t + testCount,
                       ts_totalFailedTestCount := ts_totalFailedTestCount t + failedTestCount\<rparr>) s2
                else s2);
          s4 = (if \<not> canceled
                then if ended > 0 then upd_test test (\<lambda>t. t\<lparr>ts_totalRuns := ts_totalRuns t + 1\<rparr>) s3
                     else upd_test test (\<lambda>t. t\<lparr>ts_activeRuns := ts_activeRuns t + 1\<rparr>) s3
                else s3)
      in triggerTestPriorityUpdate test s4)"

section \<open>Heartbeats\<close>

definition database_heartbeat :: "'m world \<Rightarrow> nat \<Rightarrow> oid \<Rightarrow> int \<Rightarrow> 'm mgr \<Rightarrow> (bool \<times> 'm mgr) res" where
  "database_heartbeat w depth testId timestamp s =
     (let testRun = get_run s testId in
      if rows (runs s) testId = None then Inr (False, s)
      else if run_canceled testRun then Inr (False, s)
      else case run_machine testRun of
        None \<Rightarrow> Inl (UserException ''Null object'')
      | Some m \<Rightarrow>
          if \<not> ma_isAlive (get_machine s m)
          then bindR (cancelTestRun w depth timestamp testId s) (\<lambda>s1. Inr (False, s1))
          else Inr (True, upd_run testId (\<lambda>r. r\<lparr>run_lastHeartbeat := timestamp\<rparr>) (recordHeartbeat m timestamp '''' s)))"

definition testHeartbeat ::
  "(listener \<Rightarrow> string \<Rightarrow> bool) \<Rightarrow> 'm world \<Rightarrow> nat \<Rightarrow> oid \<Rightarrow> int \<Rightarrow> string option \<Rightarrow> heartbeat_handler \<times> 'm mgr \<Rightarrow>
   bool res \<times> heartbeat_handler \<times> 'm mgr" where
  "testHeartbeat accepts w depth testId timestamp logMessage hs =
     (case hs of (h, s) \<Rightarrow>
      case handler_testHeartbeat accepts testId timestamp logMessage h of (record_it, h') \<Rightarrow>
        if \<not> record_it then (Inr True, h', s)
        else case database_heartbeat w depth testId timestamp s of
               Inl e \<Rightarrow> (Inl e, h', s)
             | Inr (b, s') \<Rightarrow> (Inr b, h', s'))"

definition handleTestConnectionReinitialized ::
  "(listener \<Rightarrow> string \<Rightarrow> bool) \<Rightarrow> 'm world \<Rightarrow> nat \<Rightarrow> oid \<Rightarrow> int \<Rightarrow> string \<Rightarrow> string list \<Rightarrow> heartbeat_handler \<times> 'm mgr \<Rightarrow>
   bool res \<times> heartbeat_handler \<times> 'm mgr" where
  "handleTestConnectionReinitialized accepts w depth testId timestamp allLogs allArtifacts hs =
     (case hs of (h, s) \<Rightarrow>
      let h1 = testHeartbeatReinitialized accepts testId timestamp allLogs h
      in case recordTestArtifactUploaded w depth testId (Inr allArtifacts) timestamp s of
           Inl e \<Rightarrow> (Inl e, h1, s)
         | Inr s1 \<Rightarrow> testHeartbeat accepts w depth testId timestamp None (h1, s1))"

text \<open>The machine field of a deployment that does not exist cannot be read through the null object;
  \<open>None\<close> is the answer of the database for a missing value.\<close>

definition handleMessageFromDeployment :: "oid \<Rightarrow> int \<Rightarrow> string option \<Rightarrow> 'm mgr \<Rightarrow> bool \<times> 'm mgr" where
  "handleMessageFromDeployment deploymentId timestamp msg s =
     (let d = get_deployment s deploymentId;
          s1 = (case de_machine d of
                  Some m \<Rightarrow> upd_machine m (\<lambda>m. m\<lparr>ma_lastHeartbeat := timestamp\<rparr>) s
                | None \<Rightarrow> s)
      in if rows (deployments s) deploymentId = None \<or> \<not> de_isAlive d then (False, s1)
         else (True, addDeploymentMessage deploymentId (FromDeployment msg) s1))"

end
