(* ===== verification/Run_Invariants.thy ===== *)
theory Run_Invariants
  imports Test_Runs
begin

text \<open>
  Invariants of test runs and of the counters that tests keep about them. The locale states what an
  invariant has to promise about the few writes to these two tables; inside it every operation that
  terminates machines, cancels runs, updates priorities or records results is shown to keep the
  invariant. The interpretation is the exactness of the counters.
\<close>

lemma machineCategoryForPair_tables:
  assumes "machineCategoryForPair p s = (c, s')"
  shows "runs s' = runs s" "tests s' = tests s" "deployments s' = deployments s" "machines s' = machines s"
    "test_deps s' = test_deps s" "commit_tests s' = commit_tests s" "commits s' = commits s"
  using assms by (auto simp: machineCategoryForPair_def new_category_def split: option.splits)

lemma trigger_tables:
  "runs (triggerTestPriorityUpdate t s) = runs s" "tests (triggerTestPriorityUpdate t s) = tests s"
  "runs (scheduleBootCheck s) = runs s" "tests (scheduleBootCheck s) = tests s"
  by (simp_all add: triggerTestPriorityUpdate_def scheduleBootCheck_def queueTask_tables)

locale run_invariant =
  fixes P :: "'m mgr \<Rightarrow> bool"
  assumes frame: "P s \<Longrightarrow> runs s' = runs s \<Longrightarrow> tests s' = tests s \<Longrightarrow> P s'"
    and stored: "P s \<Longrightarrow> tbl_ok run_keys (runs s)"
    and canceled: "P s \<Longrightarrow> rows (runs s) i = Some r \<Longrightarrow> run_endTimestamp r = 0 \<Longrightarrow> \<not> run_canceled r \<Longrightarrow>
      P (upd_test (run_test r) (\<lambda>t. t\<lparr>ts_activeRuns := ts_activeRuns t - 1\<rparr>) (upd_run i (\<lambda>r. r\<lparr>run_canceled := True\<rparr>) s))"
    and retest: "P s \<Longrightarrow> (\<And>t. ts_activeRuns (f t) = ts_activeRuns t \<and> ts_totalRuns (f t) = ts_totalRuns t \<and>
      ts_successes (f t) = ts_successes t) \<Longrightarrow> P (upd_test i f s)"
    and rerun: "P s \<Longrightarrow> (\<And>r. run_test (g r) = run_test r \<and> run_endTimestamp (g r) = run_endTimestamp r \<and>
      run_canceled (g r) = run_canceled r \<and> run_success (g r) = run_success r) \<Longrightarrow> P (upd_run i g s)"
begin

definition keeps :: "'m mgr \<Rightarrow> 'm mgr \<Rightarrow> bool" where
  "keeps s s' \<longleftrightarrow> (P s \<longrightarrow> P s' \<and> (\<forall>i. rel_option (\<lambda>r r'. run_endTimestamp r' = run_endTimestamp r)
     (rows (runs s) i) (rows (runs s') i)))"

lemma keeps_refl [simp]: "keeps s s"
  by (simp add: keeps_def)

lemma keeps_trans: "keeps s t \<Longrightarrow> keeps t u \<Longrightarrow> keeps s u"
  unfolding keeps_def by (auto intro: rel_option_trans)

lemma keeps_frame: "runs s' = runs s \<Longrightarrow> tests s' = tests s \<Longrightarrow> keeps s s'"
  using frame by (auto simp: keeps_def)

lemma keeps_foldR:
  assumes "foldR f xs s = Inr s'"
    "\<And>x u v. P s \<Longrightarrow> P u \<Longrightarrow> x \<in> set xs \<Longrightarrow> keeps s u \<Longrightarrow> f x u = Inr v \<Longrightarrow> keeps u v"
  shows "keeps s s'"
proof (cases "P s")
  case True
  have "P s' \<and> keeps s s'"
  proof (rule foldR_inv [where P = "\<lambda>u. P u \<and> keeps s u", OF assms(1)])
    fix x u v assume x: "x \<in> set xs" and u: "P u \<and> keeps s u" and v: "f x u = Inr v"
    have "keeps u v" using assms(2) [OF True _ x _ v] u by blast
    with u show "P v \<and> keeps s v" using keeps_trans by (auto simp: keeps_def)
  qed (use True in simp)
  then show ?thesis ..
qed (simp add: keeps_def)

lemma keeps_stored:
  assumes "P s" "keeps s u" "i \<in> set (lookup_all (runs s) k)"
  shows "rows (runs u) i \<noteq> None"
proof -
  obtain r where "rows (runs s) i = Some r" using run_index.in_lookup_iff [OF stored [OF assms(1)], of i k] assms(3) by blast
  moreover have "rel_option (\<lambda>r r'. run_endTimestamp r' = run_endTimestamp r) (rows (runs s) i) (rows (runs u) i)"
    using assms(1,2) by (simp add: keeps_def)
  ultimately show ?thesis by (auto elim: option.rel_cases)
qed

definition good :: "'m terminator \<Rightarrow> bool" where
  "good mt \<longleftrightarrow> (\<forall>id ts s s'. mt id ts s = Inr s' \<longrightarrow> keeps s s')"

lemma terminateMachine_keeps:
  assumes "good mt" "terminateMachine_with w mt m ts s = Inr s'"
  shows "keeps s s'"
proof -
  let ?s = "s\<lparr>machine_management := w_terminate_worker w (ma_machineId (get_machine s m)) (machine_management s)\<rparr>"
  have "keeps s ?s" by (rule keeps_frame) simp_all
  moreover have "keeps ?s s'" using assms by (auto simp: good_def terminateMachine_with_def Let_def)
  ultimately show ?thesis by (rule keeps_trans)
qed

lemma cancelTestRun_keeps:
  assumes "good mt" "rows (runs s) i \<noteq> None" "cancelTestRun_with w mt ts i s = Inr s'"
  shows "keeps s s'"
proof -
  obtain r where r: "rows (runs s) i = Some r" using assms(2) by blast
  then have get: "get_run s i = r" by (simp add: get_run_def)
  show ?thesis
  proof (cases "run_endTimestamp r = 0 \<and> \<not> run_canceled r")
    case True
    define s2 where "s2 = upd_test (run_test r) (\<lambda>t. t\<lparr>ts_activeRuns := ts_activeRuns t - 1\<rparr>)
      (upd_run i (\<lambda>r. r\<lparr>run_canceled := True\<rparr>) s)"
    have k2: "keeps s s2"
      using canceled [OF _ r] True unfolding keeps_def s2_def
      by (auto simp: upd_test_def upd_run_def option.rel_map)
    have "cancelTestRun_with w mt ts i s = bindR (case run_machine r of None \<Rightarrow> Inr s2
          | Some m \<Rightarrow> if is_vm (ma_os (get_machine s2 m)) then terminateMachine_with w mt m ts s2 else Inr s2)
        (\<lambda>s3. Inr (triggerTestPriorityUpdate (run_test r) s3))"
      unfolding cancelTestRun_with_def get Let_def s2_def using True by simp
    note run = assms(3) [unfolded this]
    then obtain s3 where s3: "(case run_machine r of None \<Rightarrow> Inr s2
          | Some m \<Rightarrow> if is_vm (ma_os (get_machine s2 m)) then terminateMachine_with w mt m ts s2 else Inr s2) = Inr s3"
        "s' = triggerTestPriorityUpdate (run_test r) s3"
      by (rule bindR_InrE) simp
    have "keeps s2 s3" using s3(1) terminateMachine_keeps [OF assms(1)] by (auto split: option.splits if_splits)
    moreover have "keeps s3 s'" using s3(2) by (intro keeps_frame) (simp_all add: trigger_tables)
    ultimately show ?thesis using k2 keeps_trans by blast
  next
    case False
    with assms(3) show ?thesis by (auto simp: cancelTestRun_with_def get Let_def split: if_splits)
  qed
qed

lemma shutdown_first_keeps:
  assumes "good mt" "shutdown_first w mt ts onlyIdle ms s = Inr (b, s')"
  shows "keeps s s'"
  using assms(2)
proof (induction ms)
  case (Cons m ms)
  then show ?case
    by (auto simp: bindR_Inr_conv split: if_splits intro: terminateMachine_keeps [OF assms(1)])
qed simp

lemma shutdown_keeps: "good mt \<Longrightarrow> shutdown_with w mt c ts onlyIdle s = Inr (b, s') \<Longrightarrow> keeps s s'"
  by (auto simp: shutdown_with_def Let_def intro: shutdown_first_keeps)

lemma shutdown_check_keeps:
  assumes "good mt" "shutdown_check_with w mt ts s = Inr (b, s')"
  shows "keeps s s'"
proof -
  let ?f = "\<lambda>cat (shutDownAny, s). if mc_desired (get_category s cat) < mc_booted (get_category s cat)
    then bindR (shutdown_with w mt cat ts True s) (\<lambda>(b, s'). Inr (shutDownAny \<or> b, s')) else Inr (shutDownAny, s)"
  have "keeps s (snd (b, s'))"
  proof (rule foldR_inv [where P = "\<lambda>st. keeps s (snd st)" and f = ?f and s = "(False, s)"])
    show "foldR ?f (lookup_all (categories s) Category_want_less) (False, s) = Inr (b, s')"
      using assms(2) by (simp add: shutdown_check_with_def)
    fix x u v assume k: "keeps s (snd u)" and v: "?f x u = Inr v"
    obtain a t where u: "u = (a, t)" by fastforce
    have "keeps t (snd v)"
    proof (cases "mc_desired (get_category t x) < mc_booted (get_category t x)")
      case True
      with v have "bindR (shutdown_with w mt x ts True t) (\<lambda>(b, s'). Inr (a \<or> b, s')) = Inr v" unfolding u by simp
      then obtain r where "shutdown_with w mt x ts True t = Inr r" "(case r of (b, s') \<Rightarrow> Inr (a \<or> b, s')) = (Inr v :: (bool \<times> 'm mgr) res)"
        by (rule bindR_InrE) (rule that)
      then show ?thesis using shutdown_keeps [OF assms(1)] by (cases r) auto
    qed (use v u in auto)
    with k u keeps_trans show "keeps s (snd v)" by (metis snd_conv)
  qed simp
  then show ?thesis by simp
qed

lemma shutdown_loop_keeps:
  assumes "good mt"
  shows "shutdownMachinesIfNecessary_with w mt n ts s = Inr s' \<Longrightarrow> keeps s s'"
proof (induction n arbitrary: s)
  case (Suc n)
  then obtain b s1 where "shutdown_check_with w mt ts s = Inr (b, s1)"
    "(if b then shutdownMachinesIfNecessary_with w mt n ts s1 else Inr s1) = Inr s'"
    by (auto simp: bindR_Inr_conv)
  moreover from this have "keeps s s1" using shutdown_check_keeps [OF assms] by blast
  ultimately show ?case using Suc.IH keeps_trans by (cases b) auto
qed simp

lemma cancelDeployment_keeps:
  assumes "good mt" "cancelDeployment_with w mt n ts d s = Inr s'"
  shows "keeps s s'"
proof (cases "de_isAlive (get_deployment s d)")
  case True
  from assms(2) [unfolded cancelDeployment_with_def Let_def] True
  have "bindR (machineCategoryForTest w (de_test (get_deployment s d)) s) (\<lambda>(cat, s1).
      let s4 = upd_deployment d (\<lambda>d. d\<lparr>de_isAlive := False\<rparr>)
        (addDeploymentMessage d (SessionTerminated ts) (upd_category cat (\<lambda>c. c\<lparr>mc_desired := mc_desired c - 1\<rparr>) s1))
      in bindR (case de_machine (get_deployment s d) of None \<Rightarrow> Inr s4
                | Some m \<Rightarrow> let s5 = upd_machine m (\<lambda>r. r\<lparr>ma_lastTestCompleted := ts\<rparr>) s4
                  in if is_vm (ma_os (get_machine s5 m)) then terminateMachine_with w mt m ts s5 else Inr s5)
           (\<lambda>s6. shutdownMachinesIfNecessary_with w mt n ts (scheduleBootCheck s6))) = Inr s'"
    unfolding Let_def by simp
  then obtain c where c: "machineCategoryForTest w (de_test (get_deployment s d)) s = Inr c" and rest: "(case c of (cat, s1) \<Rightarrow>
      let s4 = upd_deployment d (\<lambda>d. d\<lparr>de_isAlive := False\<rparr>)
        (addDeploymentMessage d (SessionTerminated ts) (upd_category cat (\<lambda>c. c\<lparr>mc_desired := mc_desired c - 1\<rparr>) s1))
      in bindR (case de_machine (get_deployment s d) of None \<Rightarrow> Inr s4
                | Some m \<Rightarrow> let s5 = upd_machine m (\<lambda>r. r\<lparr>ma_lastTestCompleted := ts\<rparr>) s4
                  in if is_vm (ma_os (get_machine s5 m)) then terminateMachine_with w mt m ts s5 else Inr s5)
           (\<lambda>s6. shutdownMachinesIfNecessary_with w mt n ts (scheduleBootCheck s6))) = Inr s'"
    by (rule bindR_InrE) (rule that)
  obtain cat s1 where cs: "c = (cat, s1)" by fastforce
  obtain p where p: "machineCategoryForPair p s = (cat, s1)"
    using c unfolding cs machineCategoryForTest_def by (rule bindR_InrE) simp
  define s4 where "s4 = upd_deployment d (\<lambda>d. d\<lparr>de_isAlive := False\<rparr>)
    (addDeploymentMessage d (SessionTerminated ts) (upd_category cat (\<lambda>c. c\<lparr>mc_desired := mc_desired c - 1\<rparr>) s1))"
  have k4: "keeps s s4"
    by (rule keeps_frame) (simp_all add: s4_def upd_deployment_def addDeploymentMessage_def upd_category_def
        machineCategoryForPair_tables [OF p])
  obtain s6 where s6: "(case de_machine (get_deployment s d) of None \<Rightarrow> Inr s4
      | Some m \<Rightarrow> let s5 = upd_machine m (\<lambda>r. r\<lparr>ma_lastTestCompleted := ts\<rparr>) s4
          in if is_vm (ma_os (get_machine s5 m)) then terminateMachine_with w mt m ts s5 else Inr s5) = Inr s6"
    and last: "shutdownMachinesIfNecessary_with w mt n ts (scheduleBootCheck s6) = Inr s'"
    using rest unfolding cs prod.case s4_def [symmetric] Let_def [of s4] by (rule bindR_InrE) (rule that)
  have "keeps s4 s6"
  proof (cases "de_machine (get_deployment s d)")
    case (Some m)
    let ?s5 = "upd_machine m (\<lambda>r. r\<lparr>ma_lastTestCompleted := ts\<rparr>) s4"
    have "keeps s4 ?s5" by (rule keeps_frame) (simp_all add: upd_machine_def)
    moreover have "keeps ?s5 s6"
      using s6 Some terminateMachine_keeps [OF assms(1)] by (auto simp: Let_def split: if_splits)
    ultimately show ?thesis by (rule keeps_trans)
  qed (use s6 in simp)
  moreover have "keeps s6 (scheduleBootCheck s6)" by (rule keeps_frame) (simp_all add: trigger_tables)
  moreover have "keeps (scheduleBootCheck s6) s'" using shutdown_loop_keeps [OF assms(1) last] .
  ultimately show ?thesis using k4 keeps_trans by blast
next
  case False
  with assms(2) show ?thesis by (simp add: cancelDeployment_with_def Let_def)
qed

lemma good_machineTerminated: "good (machineTerminated w depth)"
proof (induction depth)
  case 0
  then show ?case by (simp add: good_def)
next
  case (Suc depth)
  have "keeps s s'" if run: "machineTerminated w (Suc depth) id ts s = Inr s'" for id ts s s'
  proof -
    from run obtain machine where m: "lookup_one (machines s) (Machine_machineId id) = Inr machine"
      by (auto simp: bindR_Inr_conv)
    define r where "r = get_machine s machine"
    show ?thesis
    proof (cases "ma_isAlive r")
      case False
      then show ?thesis using run m by (simp add: r_def Let_def)
    next
      case True
      define s1 where "s1 = upd_machine machine (\<lambda>m. m\<lparr>ma_isAlive := False\<rparr>) s"
      obtain mc s2 where s2: "machineCategoryForPair (ma_hardware r, ma_os r) s1 = (mc, s2)" by fastforce
      define s3 where "s3 = upd_category mc (\<lambda>c. c\<lparr>mc_booted := mc_booted c - 1\<rparr>) s2"
      have k3: "keeps s s3"
        by (rule keeps_frame) (simp_all add: s3_def upd_category_def machineCategoryForPair_tables [OF s2] s1_def upd_machine_def)
      have "(if mc_booted (get_category s3 mc) < 0 then Inl AssertionError
        else bindR (foldR (cancelTestRun_with w (machineTerminated w depth) ts)
                  (lookup_all (runs s3) (Run_runningOnMachine (Some machine))) s3) (\<lambda>s4.
         bindR (foldR (cancelDeployment_with w (machineTerminated w depth) (Suc depth) ts)
                  (lookup_all (deployments s4) (Deployment_runningOnMachine (Some machine))) s4) (\<lambda>s5.
           Inr (scheduleBootCheck s5)))) = Inr s'"
        using run True unfolding machineTerminated.simps m bindR.simps Let_def r_def [symmetric] s1_def [symmetric] s2
          prod.case s3_def [symmetric] by simp
      then obtain s4 s5 where 4: "foldR (cancelTestRun_with w (machineTerminated w depth) ts)
          (lookup_all (runs s3) (Run_runningOnMachine (Some machine))) s3 = Inr s4"
        and 5: "foldR (cancelDeployment_with w (machineTerminated w depth) (Suc depth) ts)
          (lookup_all (deployments s4) (Deployment_runningOnMachine (Some machine))) s4 = Inr s5"
        and 6: "s' = scheduleBootCheck s5"
        by (auto simp: bindR_Inr_conv split: if_splits)
      have k4: "keeps s3 s4"
        using 4 by (rule keeps_foldR) (use cancelTestRun_keeps [OF Suc.IH] keeps_stored in blast)
      have k5: "keeps s4 s5" by (rule keeps_foldR [OF 5]) (rule cancelDeployment_keeps [OF Suc.IH])
      have k6: "keeps s5 s'" unfolding 6 by (rule keeps_frame) (simp_all add: trigger_tables)
      show ?thesis using k3 k4 k5 k6 keeps_trans by blast
    qed
  qed
  then show ?case by (simp only: good_def) blast
qed

lemma keeps_upd_test:
  assumes "\<And>t. ts_activeRuns (f t) = ts_activeRuns t \<and> ts_totalRuns (f t) = ts_totalRuns t \<and>
      ts_successes (f t) = ts_successes t"
  shows "keeps s (upd_test i f s)"
  using retest [OF _ assms] by (simp add: keeps_def) (simp add: upd_test_def)

lemma keeps_upd_run:
  assumes "\<And>r. run_test (g r) = run_test r \<and> run_endTimestamp (g r) = run_endTimestamp r \<and>
      run_canceled (g r) = run_canceled r \<and> run_success (g r) = run_success r"
  shows "keeps s (upd_run i g s)"
  using rerun [OF _ assms] assms unfolding keeps_def by (auto simp: upd_run_def option.rel_map)

lemma keeps_fold:
  "(\<And>x u. keeps u (f x u)) \<Longrightarrow> keeps s (fold f xs s)"
  by (induction xs arbitrary: s) (auto intro: keeps_trans)

lemma keeps_trigger: "keeps s (triggerTestPriorityUpdate t s)"
  by (rule keeps_frame) (simp_all add: trigger_tables)

lemma terminate_keeps: "terminateMachine w depth m ts s = Inr s' \<Longrightarrow> keeps s s'"
  unfolding terminateMachine_def by (rule terminateMachine_keeps [OF good_machineTerminated])

lemma cancel_keeps: "rows (runs s) i \<noteq> None \<Longrightarrow> cancelTestRun w depth ts i s = Inr s' \<Longrightarrow> keeps s s'"
  unfolding cancelTestRun_def by (rule cancelTestRun_keeps [OF good_machineTerminated])

lemma shutdown_all_keeps: "shutdownMachinesIfNecessary w depth ts s = Inr s' \<Longrightarrow> keeps s s'"
  unfolding shutdownMachinesIfNecessary_def by (rule shutdown_loop_keeps [OF good_machineTerminated])

lemma cancel_runs_keeps:
  assumes "cancel_runs w depth test ts s = Inr s'"
  shows "keeps s s'"
  using assms unfolding cancel_runs_def
proof (rule keeps_foldR)
  fix i u v
  assume P: "P s" and i: "i \<in> set (lookup_all (runs s) (Run_test test))" and k: "keeps s u"
    and v: "(if run_endTimestamp (get_run u i) = 0 \<and> \<not> run_canceled (get_run u i)
      then cancelTestRun w depth ts i u else Inr u) = Inr v"
  have "rows (runs u) i \<noteq> None" using keeps_stored [OF P k i] .
  note cancel_keeps = cancel_keeps [OF this, of w depth ts v]
  show "keeps u v"
  proof (cases "run_endTimestamp (get_run u i) = 0 \<and> \<not> run_canceled (get_run u i)")
    case True
    with v have "cancelTestRun w depth ts i u = Inr v" by simp
    then show ?thesis by (rule cancel_keeps)
  qed (use v in auto)
qed

lemma raise_keeps: "keeps s (snd (raise_to_dependents test s))"
proof -
  have "keeps s (snd (fold (\<lambda>dep (anyTestsReferencingUs, s).
        let p = ts_calculatedPriority (get_test s (td_test (get_test_dep s dep)))
        in (anyTestsReferencingUs \<or> p \<noteq> 0,
            upd_test test (\<lambda>t. t\<lparr>ts_calculatedPriority := max p (ts_calculatedPriority t)\<rparr>) s)) xs (b, s)))" for xs b s
  proof (induction xs arbitrary: b s)
    case (Cons x xs)
    let ?p = "ts_calculatedPriority (get_test s (td_test (get_test_dep s x)))"
    have "keeps s (upd_test test (\<lambda>t. t\<lparr>ts_calculatedPriority := max ?p (ts_calculatedPriority t)\<rparr>) s)"
      by (rule keeps_upd_test) simp
    from keeps_trans [OF this Cons.IH] show ?case by (simp add: Let_def)
  qed simp
  then show ?thesis by (simp add: raise_to_dependents_def)
qed

lemma keeps_neighbours: "keeps s (trigger_neighbours test s)"
  unfolding trigger_neighbours_def by (rule keeps_trans [OF keeps_fold keeps_fold]) (rule keeps_trigger)+

lemma keeps_store_class: "keeps s (store_class test category any now oldPriority oldCalcPri oldTarget s)"
proof -
  define s4 where "s4 = upd_test test (\<lambda>t. t\<lparr>ts_machineCategory := Some category\<rparr>) s"
  define s5 where "s5 = upd_test test (\<lambda>t. classify s4 test (mc_hardwareComboUnbootable (get_category s4 category)) any now t) s4"
  define net where "net = ts_targetMachineBoot (get_test s5 test) - oldTarget"
  define s6 where "s6 = (if net \<noteq> 0
    then scheduleBootCheck (upd_category category (\<lambda>c. c\<lparr>mc_desired := mc_desired c + net\<rparr>) s5) else s5)"
  have "keeps s s4" unfolding s4_def by (rule keeps_upd_test) simp
  moreover have "keeps s4 s5" unfolding s5_def by (rule keeps_upd_test) (simp add: classify_keeps)
  moreover have "keeps s5 s6" by (rule keeps_frame) (simp_all add: s6_def trigger_tables upd_category_def)
  moreover have "keeps s6 (store_class test category any now oldPriority oldCalcPri oldTarget s)"
    unfolding store_class_def Let_def s4_def [symmetric] s5_def [symmetric] net_def [symmetric] s6_def [symmetric]
    by (simp add: keeps_neighbours)
  ultimately show ?thesis using keeps_trans by blast
qed

lemma updateTestPriority_keeps:
  assumes "updateTestPriority w depth test now s = Inr s'"
  shows "keeps s s'"
proof -
  obtain p where p: "commit_priority s test = Inr p"
    using assms unfolding updateTestPriority_steps by (rule bindR_InrE)
  define u0 where "u0 = upd_test test (\<lambda>t. t\<lparr>ts_calculatedPriority := p\<rparr>) s"
  obtain any s1 where s1: "raise_to_dependents test u0 = (any, s1)" by fastforce
  note run = assms [unfolded updateTestPriority_steps p bindR.simps u0_def [symmetric] s1 prod.case]
  obtain s2 where s2: "(if ts_calculatedPriority (get_test s1 test) = 0 then cancel_runs w depth test now s1
      else Inr s1) = Inr s2"
    and rest: "bindR (machineCategoryForTest w test s2) (\<lambda>(category, s3). Inr (store_class test category any now
      (ts_priority (get_test s2 test)) (ts_calculatedPriority (get_test s test)) (ts_targetMachineBoot (get_test s2 test)) s3)) = Inr s'"
    using run by (rule bindR_InrE) (rule that)
  obtain c where c: "machineCategoryForTest w test s2 = Inr c" "(case c of (category, s3) \<Rightarrow> Inr (store_class test category any now
      (ts_priority (get_test s2 test)) (ts_calculatedPriority (get_test s test)) (ts_targetMachineBoot (get_test s2 test)) s3)) = (Inr s' :: 'm mgr res)"
    using rest by (rule bindR_InrE) (rule that)
  obtain category s3 where cs: "c = (category, s3)" by fastforce
  obtain q where q: "machineCategoryForPair q s2 = (category, s3)"
    using c(1) unfolding cs machineCategoryForTest_def by (rule bindR_InrE) simp
  have "keeps s u0" unfolding u0_def by (rule keeps_upd_test) simp
  moreover have "keeps u0 s1" using raise_keeps [of u0 test] by (simp add: s1)
  moreover have "keeps s1 s2" using s2 cancel_runs_keeps by (cases "ts_calculatedPriority (get_test s1 test) = 0") auto
  moreover have "keeps s2 s3" by (rule keeps_frame) (simp_all add: machineCategoryForPair_tables [OF q])
  moreover have "keeps s3 s'" using c(2) keeps_store_class by (auto simp: cs)
  ultimately show ?thesis using keeps_trans by blast
qed

lemma update_dependents_keeps:
  assumes "update_dependents w depth test now s = Inr s'"
  shows "keeps s s'"
  using assms unfolding update_dependents_def by (rule keeps_foldR) (rule updateTestPriority_keeps)

lemma artifact_keeps:
  assumes "recordTestArtifactUploaded w depth testId artifact now s = Inr s'"
  shows "keeps s s'"
proof (cases "rows (runs s) testId = None")
  case False
  then obtain as where "update_dependents w depth (run_test (get_run s testId)) now
      (upd_run testId (\<lambda>r. r\<lparr>run_artifactsCompleted := as\<rparr>) s) = Inr s'"
    using assms by (auto simp: recordTestArtifactUploaded_def Let_def bindR_Inr_conv)
  moreover have "keeps s (upd_run testId (\<lambda>r. r\<lparr>run_artifactsCompleted := as\<rparr>) s)" by (rule keeps_upd_run) simp
  ultimately show ?thesis using update_dependents_keeps keeps_trans by blast
qed (use assms in \<open>simp add: recordTestArtifactUploaded_def\<close>)

lemma heartbeat_keeps:
  assumes "database_heartbeat w depth testId now s = Inr (b, s')"
  shows "keeps s s'"
proof (cases "rows (runs s) testId = None \<or> run_canceled (get_run s testId)")
  case True
  then show ?thesis using assms by (auto simp: database_heartbeat_def Let_def split: if_splits)
next
  case False
  with assms obtain m where m: "run_machine (get_run s testId) = Some m"
    by (auto simp: database_heartbeat_def Let_def split: option.splits)
  show ?thesis
  proof (cases "ma_isAlive (get_machine s m)")
    case True
    have "keeps s (recordHeartbeat m now '''' s)" by (rule keeps_frame) (simp_all add: recordHeartbeat_def upd_machine_def)
    moreover have "s' = upd_run testId (\<lambda>r. r\<lparr>run_lastHeartbeat := now\<rparr>) (recordHeartbeat m now '''' s)"
      using assms False m True by (auto simp: database_heartbeat_def Let_def)
    then have "keeps (recordHeartbeat m now '''' s) s'" by (simp only:) (rule keeps_upd_run, simp)
    ultimately show ?thesis by (rule keeps_trans)
  next
    case dead: False
    then have "cancelTestRun w depth now testId s = Inr s'"
      using assms False m by (auto simp: database_heartbeat_def Let_def bindR_Inr_conv)
    then show ?thesis using cancel_keeps False by blast
  qed
qed

lemma cancel_stale_keeps:
  assumes "cancel_stale_runs w depth initial now s = Inr s'"
  shows "keeps s s'"
  using assms unfolding cancel_stale_runs_def
proof (rule keeps_foldR)
  fix i u v
  assume P: "P s" and i: "i \<in> set (lookup_all (runs s) Run_isRunning)" and k: "keeps s u"
    and v: "(if run_lastHeartbeat (get_run u i) < now - 60 \<and> now - initial > 60
      then cancelTestRun w depth now i u else Inr u) = Inr v"
  show "keeps u v"
  proof (cases "run_lastHeartbeat (get_run u i) < now - 60 \<and> now - initial > 60")
    case True
    with v have "cancelTestRun w depth now i u = Inr v" by simp
    with keeps_stored [OF P k i] show ?thesis by (rule cancel_keeps)
  qed (use v in auto)
qed

lemma terminate_silent_keeps:
  assumes "terminate_silent_machines w depth initial now s = Inr s'"
  shows "keeps s s'"
  using assms unfolding terminate_silent_machines_def
proof (rule keeps_foldR)
  fix m u v
  assume "(if machine_timed_out (get_machine u m) initial now then terminateMachine w depth m now u else Inr u) = Inr v"
  then show "keeps u v" using terminate_keeps by (cases "machine_timed_out (get_machine u m) initial now") auto
qed

lemma keeps_retry: "keeps s (checkRetryTests s)"
  unfolding checkRetryTests_def by (rule keeps_fold) (rule keeps_trigger)

lemma performCleanup_keeps:
  assumes "performCleanupTasks w depth now s = Inr s'"
  shows "keeps s s'"
proof -
  obtain s1 where 1: "cancel_stale_runs w depth (initialTimestamp s) now s = Inr s1" and
    r1: "bindR (terminate_silent_machines w depth (initialTimestamp s) now s1) (\<lambda>s2.
     bindR (shutdownMachinesIfNecessary w depth now (scheduleBootCheck s2)) (\<lambda>s3. Inr (checkRetryTests s3))) = Inr s'"
    using assms unfolding performCleanupTasks_def by (rule bindR_InrE) (rule that)
  obtain s2 where 2: "terminate_silent_machines w depth (initialTimestamp s) now s1 = Inr s2" and
    r2: "bindR (shutdownMachinesIfNecessary w depth now (scheduleBootCheck s2)) (\<lambda>s3. Inr (checkRetryTests s3)) = Inr s'"
    using r1 by (rule bindR_InrE) (rule that)
  obtain s3 where 3: "shutdownMachinesIfNecessary w depth now (scheduleBootCheck s2) = Inr s3" and s': "s' = checkRetryTests s3"
    using r2 by (rule bindR_InrE) (simp add: that)
  have "keeps s s2" using cancel_stale_keeps [OF 1] terminate_silent_keeps [OF 2] by (rule keeps_trans)
  moreover have "keeps s2 (scheduleBootCheck s2)" by (rule keeps_frame) (simp_all add: trigger_tables)
  ultimately have "keeps s (scheduleBootCheck s2)" by (rule keeps_trans)
  from keeps_trans [OF this shutdown_all_keeps [OF 3]] have "keeps s s3" .
  from keeps_trans [OF this keeps_retry] show ?thesis by (simp add: s')
qed

end

section \<open>The counters of a test\<close>

definition running :: "test_run_row \<Rightarrow> bool" where
  "running r \<longleftrightarrow> \<not> run_canceled r \<and> run_endTimestamp r = 0"

definition finished :: "test_run_row \<Rightarrow> bool" where
  "finished r \<longleftrightarrow> \<not> run_canceled r \<and> run_endTimestamp r \<noteq> 0"

definition succeeded :: "test_run_row \<Rightarrow> bool" where
  "succeeded r \<longleftrightarrow> finished r \<and> run_success r"

definition run_count :: "(test_run_row, run_ix) tbl \<Rightarrow> oid \<Rightarrow> (test_run_row \<Rightarrow> bool) \<Rightarrow> nat" where
  "run_count R t p = card {i. \<exists>r. rows R i = Some r \<and> run_test r = t \<and> p r}"

definition counted :: "(test_run_row, run_ix) tbl \<Rightarrow> oid \<Rightarrow> test_row \<Rightarrow> bool" where
  "counted R t row \<longleftrightarrow> ts_activeRuns row = int (run_count R t running) \<and>
     ts_totalRuns row = int (run_count R t finished) \<and> ts_successes row = int (run_count R t succeeded)"

definition counters_ok :: "'m mgr \<Rightarrow> bool" where
  "counters_ok s \<longleftrightarrow> tbl_ok run_keys (runs s) \<and> finite {i. rows (runs s) i \<noteq> None} \<and>
     (\<forall>t row. rows (tests s) t = Some row \<longrightarrow> counted (runs s) t row)"

lemma run_count_set:
  assumes fin: "finite {i. rows R i \<noteq> None}" and rows: "rows R' = (rows R)(i \<mapsto> r')"
    and old: "\<And>r. rows R i = Some r \<Longrightarrow> run_test r = run_test r'"
  shows "int (run_count R' t p) = int (run_count R t p) +
    (if t = run_test r' then of_bool (p r') - (case rows R i of None \<Rightarrow> 0 | Some r \<Rightarrow> of_bool (p r)) else 0)"
proof -
  let ?S = "\<lambda>R. {i. \<exists>r. rows R i = Some r \<and> run_test r = t \<and> p r}"
  have f: "finite (?S R)" by (rule finite_subset [OF _ fin]) auto
  have gen: "card (A - {i} \<union> (if c then {i} else {})) = card (A - {i}) + (if c then 1 else 0)" if "finite A" for A c
    using that by (simp add: card.insert_remove)
  have "?S R' = (?S R - {i}) \<union> (if t = run_test r' \<and> p r' then {i} else {})"
    by (auto simp: rows split: if_splits)
  then have "card (?S R') = card (?S R - {i}) + (if t = run_test r' \<and> p r' then 1 else 0)"
    using gen [OF f] by simp
  moreover have "i \<in> ?S R \<longleftrightarrow> t = run_test r' \<and> (\<exists>r. rows R i = Some r \<and> p r)" using old by auto
  moreover have "int (card (?S R - {i})) = int (card (?S R)) - (if i \<in> ?S R then 1 else 0)"
    using f card_Suc_Diff1 [OF f, of i] by (auto simp: card_Diff_singleton_if)
  ultimately show ?thesis by (auto simp: run_count_def split: option.splits)
qed

text \<open>What a run contributes to a counter when its row changes.\<close>

definition delta :: "(test_run_row \<Rightarrow> bool) \<Rightarrow> test_run_row option \<Rightarrow> test_run_row \<Rightarrow> int" where
  "delta p old new = of_bool (p new) - (case old of None \<Rightarrow> 0 | Some r \<Rightarrow> of_bool (p r))"

lemma counters_change:
  assumes ok: "counters_ok s" and rows: "rows (runs s') = (rows (runs s))(i \<mapsto> r')"
    and old: "\<And>r. rows (runs s) i = Some r \<Longrightarrow> run_test r = run_test r'"
    and tbl: "tbl_ok run_keys (runs s')"
    and tests: "\<And>t row'. rows (tests s') t = Some row' \<Longrightarrow> \<exists>row. rows (tests s) t = Some row \<and>
      ts_activeRuns row' = ts_activeRuns row + (if t = run_test r' then delta running (rows (runs s) i) r' else 0) \<and>
      ts_totalRuns row' = ts_totalRuns row + (if t = run_test r' then delta finished (rows (runs s) i) r' else 0) \<and>
      ts_successes row' = ts_successes row + (if t = run_test r' then delta succeeded (rows (runs s) i) r' else 0)"
  shows "counters_ok s'"
proof -
  have fin: "finite {i. rows (runs s) i \<noteq> None}" using ok by (simp add: counters_ok_def)
  have "{j. rows (runs s') j \<noteq> None} \<subseteq> insert i {i. rows (runs s) i \<noteq> None}" by (auto simp: rows)
  then have "finite {j. rows (runs s') j \<noteq> None}" using fin by (meson finite_insert finite_subset)
  moreover have "counted (runs s') t row'" if row': "rows (tests s') t = Some row'" for t row'
  proof -
    obtain row where row: "rows (tests s) t = Some row"
      "ts_activeRuns row' = ts_activeRuns row + (if t = run_test r' then delta running (rows (runs s) i) r' else 0)"
      "ts_totalRuns row' = ts_totalRuns row + (if t = run_test r' then delta finished (rows (runs s) i) r' else 0)"
      "ts_successes row' = ts_successes row + (if t = run_test r' then delta succeeded (rows (runs s) i) r' else 0)"
      using tests [OF row'] by blast
    have "counted (runs s) t row" using ok row(1) by (simp add: counters_ok_def)
    moreover note run_count_set [OF fin rows old, of t running] run_count_set [OF fin rows old, of t finished]
      run_count_set [OF fin rows old, of t succeeded]
    ultimately show ?thesis unfolding counted_def row(2-4) delta_def by presburger
  qed
  ultimately show ?thesis using tbl by (simp add: counters_ok_def)
qed

lemma counters_frame:
  assumes "counters_ok s" "runs s' = runs s"
    "\<And>t row'. rows (tests s') t = Some row' \<Longrightarrow> \<exists>row. rows (tests s) t = Some row \<and>
      ts_activeRuns row' = ts_activeRuns row \<and> ts_totalRuns row' = ts_totalRuns row \<and> ts_successes row' = ts_successes row"
  shows "counters_ok s'"
  using assms unfolding counters_ok_def counted_def by metis

lemma counters_canceled:
  assumes "counters_ok s" "rows (runs s) i = Some r" "run_endTimestamp r = 0" "\<not> run_canceled r"
  shows "counters_ok (upd_test (run_test r) (\<lambda>t. t\<lparr>ts_activeRuns := ts_activeRuns t - 1\<rparr>)
    (upd_run i (\<lambda>r. r\<lparr>run_canceled := True\<rparr>) s))" (is "counters_ok ?s")
proof (rule counters_change [OF assms(1), where i = i and r' = "r\<lparr>run_canceled := True\<rparr>"])
  show "rows (runs ?s) = (rows (runs s))(i \<mapsto> r\<lparr>run_canceled := True\<rparr>)"
    by (auto simp: upd_test_def upd_run_def assms(2) fun_eq_iff)
  show "tbl_ok run_keys (runs ?s)"
    using assms(1) by (simp add: upd_test_def upd_run_def run_index.ok_modify counters_ok_def)
  have d: "delta running (rows (runs s) i) (r\<lparr>run_canceled := True\<rparr>) = -1"
    "delta finished (rows (runs s) i) (r\<lparr>run_canceled := True\<rparr>) = 0"
    "delta succeeded (rows (runs s) i) (r\<lparr>run_canceled := True\<rparr>) = 0"
    using assms(2-4) by (simp_all add: delta_def running_def finished_def succeeded_def)
  fix t row' assume "rows (tests ?s) t = Some row'"
  then show "\<exists>row. rows (tests s) t = Some row \<and>
      ts_activeRuns row' = ts_activeRuns row + (if t = run_test (r\<lparr>run_canceled := True\<rparr>) then delta running (rows (runs s) i) (r\<lparr>run_canceled := True\<rparr>) else 0) \<and>
      ts_totalRuns row' = ts_totalRuns row + (if t = run_test (r\<lparr>run_canceled := True\<rparr>) then delta finished (rows (runs s) i) (r\<lparr>run_canceled := True\<rparr>) else 0) \<and>
      ts_successes row' = ts_successes row + (if t = run_test (r\<lparr>run_canceled := True\<rparr>) then delta succeeded (rows (runs s) i) (r\<lparr>run_canceled := True\<rparr>) else 0)"
    unfolding d by (auto simp: upd_test_def upd_run_def split: if_splits)
qed (use assms(2) in simp)

lemma counters_rerun:
  assumes "counters_ok s" "\<And>r. run_test (g r) = run_test r \<and> run_endTimestamp (g r) = run_endTimestamp r \<and>
      run_canceled (g r) = run_canceled r \<and> run_success (g r) = run_success r"
  shows "counters_ok (upd_run i g s)"
proof (cases "rows (runs s) i")
  case None
  then have "runs (upd_run i g s) = runs s" by (simp add: upd_run_def tbl_modify_def)
  then show ?thesis by (rule counters_frame [OF assms(1)]) (simp add: upd_run_def)
next
  case (Some r)
  have d: "delta p (Some r) (g r) = 0" if "p (g r) = p r" for p
    using that by (simp add: delta_def)
  have same: "running (g r) = running r" "finished (g r) = finished r" "succeeded (g r) = succeeded r" for r
    using assms(2) by (simp_all add: running_def finished_def succeeded_def)
  show ?thesis
  proof (rule counters_change [OF assms(1), where i = i and r' = "g r"])
    show "rows (runs (upd_run i g s)) = (rows (runs s))(i \<mapsto> g r)" by (auto simp: upd_run_def Some fun_eq_iff)
    show "tbl_ok run_keys (runs (upd_run i g s))"
      using assms(1) by (simp add: upd_run_def run_index.ok_modify counters_ok_def)
  qed (use Some assms(2) in \<open>simp_all add: upd_run_def d same\<close>)
qed

interpretation counters: run_invariant counters_ok
proof unfold_locales
  show "counters_ok s'" if "counters_ok s" "runs s' = runs s" "tests s' = tests s" for s s' :: "'a mgr"
    using that by (simp add: counters_ok_def)
  show "tbl_ok run_keys (runs s)" if "counters_ok s" for s :: "'a mgr" using that by (simp add: counters_ok_def)
  show "counters_ok (upd_test i f s)" if "counters_ok s" "\<And>t. ts_activeRuns (f t) = ts_activeRuns t \<and>
      ts_totalRuns (f t) = ts_totalRuns t \<and> ts_successes (f t) = ts_successes t" for s :: "'a mgr" and f i
    by (rule counters_frame [OF that(1)]) (auto simp: upd_test_def that(2) split: if_splits)
qed (rule counters_canceled counters_rerun; assumption)+

section \<open>Starting, finishing and clearing runs\<close>

lemma machine_frame:
  "counters_ok s \<Longrightarrow> counters_ok (recordHeartbeat m ts msg s)" "counters_ok s \<Longrightarrow> counters_ok (upd_machine m f s)"
  by (auto intro!: counters.frame [of s] simp: recordHeartbeat_def upd_machine_def)

lemma new_run_counters:
  assumes "counters_ok s" "rows (runs s) (next_id s) = None" "run_test r = test" "running r"
    "new_run r (upd_test test (\<lambda>t. t\<lparr>ts_activeRuns := ts_activeRuns t + 1\<rparr>) s) = (i, s')"
  shows "counters_ok s'"
proof -
  have i: "i = next_id s" and runs': "runs s' = tbl_new run_keys (next_id s) r (runs s)" and
    tests': "tests s' = tbl_modify test_keys test (\<lambda>t. t\<lparr>ts_activeRuns := ts_activeRuns t + 1\<rparr>) (tests s)"
    using assms(5) by (auto simp: new_run_def upd_test_def)
  have d: "delta running None r = 1" "delta finished None r = 0" "delta succeeded None r = 0"
    using assms(4) by (simp_all add: delta_def running_def finished_def succeeded_def)
  show ?thesis
  proof (rule counters_change [OF assms(1), where i = i and r' = r])
    show "tbl_ok run_keys (runs s')"
      using assms(1,2) by (simp add: runs' counters_ok_def run_index.ok_new)
  qed (auto simp: runs' i tests' assms(2) assms(3) d split: if_splits)
qed

lemma assign_counters:
  assumes "counters_ok s" "rows (runs s) (next_id s) = None"
    "assign_test w depth machine machineId ts s = Inr (res, s')"
  shows "counters_ok s'"
proof -
  obtain t where t: "lookupHighestPriorityTest w machine s = Inr t"
    using assms(3) unfolding assign_test_def by (rule bindR_InrE)
  show ?thesis
  proof (cases t)
    case None
    then show ?thesis using assms(1,3) t by (simp add: assign_test_def)
  next
    case (Some test)
    define s1 where "s1 = upd_test test (\<lambda>t. t\<lparr>ts_activeRuns := ts_activeRuns t + 1\<rparr>) s"
    obtain m where m: "lookup_one (machines s1) (Machine_machineId machineId) = Inr m"
      using assms(3) unfolding assign_test_def t Some bindR.simps option.case Let_def s1_def [symmetric]
      by (rule bindR_InrE)
    obtain i s2 where s2: "new_run (default_run\<lparr>run_test := test, run_startedTimestamp := ts, run_lastHeartbeat := ts,
        run_machine := Some m\<rparr>) s1 = (i, s2)" by fastforce
    note run = assms(3) [unfolded assign_test_def t Some bindR.simps option.case Let_def s1_def [symmetric] m s2 prod.case]
    obtain s3 where s3: "updateTestPriority w depth test ts s2 = Inr s3" and
      rest: "bindR (definitionForTest w test s3) (\<lambda>def. Inr (Some (i, def), s3)) = Inr (res, s')"
      using run by (rule bindR_InrE) (rule that)
    have "s' = s3" using rest by (auto simp: bindR_Inr_conv)
    have "counters_ok s2"
      by (rule new_run_counters [OF assms(1,2) _ _ s2 [unfolded s1_def]]) (simp_all add: running_def default_run_def)
    then show ?thesis using counters.updateTestPriority_keeps [OF s3] \<open>s' = s3\<close> by (simp add: counters.keeps_def)
  qed
qed

lemma testNameSet_tables:
  assumes "testNameSet w names s = (n, s')"
  shows "runs s' = runs s" "tests s' = tests s"
  using assms by (auto simp: testNameSet_def Let_def new_name_set_def split: option.splits)

lemma store_results_counters:
  assumes "counters_ok s" "rows (runs s) i = Some r" "running r" "now \<noteq> 0"
  shows "counters_ok (store_results w success i results now s)"
proof -
  let ?test = "run_test r"
  define names where "names = sort (map fst results)"
  define f1 where "f1 = (\<lambda>t :: test_row. t\<lparr>ts_activeRuns := ts_activeRuns t - 1, ts_totalRuns := ts_totalRuns t + 1,
    ts_lastTestEndTimestamp := now\<rparr>)"
  define s2 where "s2 = upd_test ?test f1 (upd_run i (\<lambda>r. r\<lparr>run_endTimestamp := now\<rparr>) s)"
  obtain n s3 where s3: "testNameSet w names s2 = (n, s3)" by fastforce
  define g where "g = (\<lambda>r :: test_run_row. r\<lparr>run_testNames := Some n, run_testFailures := fromBools (map (\<lambda>n. fst (the (map_of results n))) names),
    run_testHasLogs := fromBools (map (\<lambda>n. snd (the (map_of results n))) names), run_totalTestCount := int (length names),
    run_totalFailedTestCount := int (length (filter (\<lambda>n. \<not> fst (the (map_of results n))) names)), run_success := success\<rparr>)"
  define f4 where "f4 = (\<lambda>t :: test_row. t\<lparr>ts_totalTestCount := ts_totalTestCount t + int (length names),
    ts_totalFailedTestCount := ts_totalFailedTestCount t + int (length (filter (\<lambda>n. \<not> fst (the (map_of results n))) names)),
    ts_successes := (if success then ts_successes t + 1 else ts_successes t)\<rparr>)"
  have get: "get_run s i = r" by (simp add: get_run_def assms(2))
  have eq: "store_results w success i results now s = upd_test ?test f4 (upd_run i g s3)" (is "_ = ?s")
    unfolding store_results_def Let_def get f1_def [symmetric] names_def [symmetric] s2_def [symmetric] s3 prod.case
      g_def [symmetric] f4_def [symmetric] by (rule refl)
  define r' where "r' = g (r\<lparr>run_endTimestamp := now\<rparr>)"
  have runs': "runs ?s = tbl_modify run_keys i g (tbl_modify run_keys i (\<lambda>r. r\<lparr>run_endTimestamp := now\<rparr>) (runs s))"
    by (simp add: testNameSet_tables(1) [OF s3] upd_test_def upd_run_def s2_def)
  have tests': "tests ?s = tbl_modify test_keys ?test f4 (tbl_modify test_keys ?test f1 (tests s))"
    by (simp add: testNameSet_tables(2) [OF s3] upd_test_def upd_run_def s2_def)
  have d: "delta running (Some r) r' = -1" "delta finished (Some r) r' = 1" "delta succeeded (Some r) r' = of_bool success"
    using assms(3,4) by (simp_all add: delta_def r'_def g_def running_def finished_def succeeded_def)
  have r': "run_test r' = ?test" by (simp add: r'_def g_def)
  show ?thesis
    unfolding eq
  proof (rule counters_change [OF assms(1), where i = i and r' = r'])
    show "rows (runs ?s) = (rows (runs s))(i \<mapsto> r')" by (auto simp: runs' assms(2) r'_def fun_eq_iff)
    show "tbl_ok run_keys (runs ?s)" using assms(1) by (simp add: runs' counters_ok_def run_index.ok_modify)
    fix t row' assume "rows (tests ?s) t = Some row'"
    then show "\<exists>row. rows (tests s) t = Some row \<and>
      ts_activeRuns row' = ts_activeRuns row + (if t = run_test r' then delta running (rows (runs s) i) r' else 0) \<and>
      ts_totalRuns row' = ts_totalRuns row + (if t = run_test r' then delta finished (rows (runs s) i) r' else 0) \<and>
      ts_successes row' = ts_successes row + (if t = run_test r' then delta succeeded (rows (runs s) i) r' else 0)"
      unfolding tests' r' assms(2) d by (cases "t = ?test") (auto simp: f1_def f4_def)
  qed (simp add: assms(2) r')
qed

lemma finish_run_counters:
  assumes "counters_ok s" "\<And>r. rows (runs s) i = Some r \<Longrightarrow> run_endTimestamp r = 0" "now \<noteq> 0"
    "finish_run w depth success i results now s = Inr (b, s')"
  shows "counters_ok s'"
proof (cases "rows (runs s) i = None \<or> run_canceled (get_run s i)")
  case True
  then show ?thesis using assms(1,4) by (auto simp: finish_run_def Let_def split: if_splits)
next
  case False
  then obtain r where r: "rows (runs s) i = Some r" "\<not> run_canceled r" by (auto simp: get_run_def)
  then have get: "get_run s i = r" by (simp add: get_run_def)
  define s1 where "s1 = store_results w success i results now s"
  have 1: "counters_ok s1"
    unfolding s1_def using store_results_counters [OF assms(1) r(1)] r assms(2,3) by (simp add: running_def)
  obtain m where m: "run_machine r = Some m"
    using assms(4) r by (auto simp: finish_run_def Let_def get split: option.splits if_splits)
  define s2 where "s2 = upd_machine m (\<lambda>m. m\<lparr>ma_lastTestCompleted := now\<rparr>) s1"
  have 2: "counters_ok s2" unfolding s2_def using 1 by (rule machine_frame(2))
  have "bindR (if is_vm (ma_os (get_machine s2 m)) then terminateMachine w depth m now s2 else Inr s2) (\<lambda>s3.
       bindR (update_dependents w depth (run_test r) now s3) (\<lambda>s4.
       bindR (updateTestPriority w depth (run_test r) now s4) (\<lambda>s5. Inr (True, s5)))) = Inr (b, s')"
    using assms(4) r unfolding finish_run_def Let_def get s1_def [symmetric] m option.case s2_def [symmetric]
    by (simp split: if_splits)
  then obtain s3 where 3: "(if is_vm (ma_os (get_machine s2 m)) then terminateMachine w depth m now s2 else Inr s2) = Inr s3"
    and rest: "bindR (update_dependents w depth (run_test r) now s3) (\<lambda>s4.
       bindR (updateTestPriority w depth (run_test r) now s4) (\<lambda>s5. Inr (True, s5))) = Inr (b, s')"
    by (rule bindR_InrE) (rule that)
  obtain s4 where 4: "update_dependents w depth (run_test r) now s3 = Inr s4"
    and 5: "bindR (updateTestPriority w depth (run_test r) now s4) (\<lambda>s5. Inr (True, s5)) = Inr (b, s')"
    using rest by (rule bindR_InrE) (rule that)
  have "counters.keeps s2 s3"
    using 3 counters.terminate_keeps by (cases "is_vm (ma_os (get_machine s2 m))") auto
  moreover have "counters.keeps s3 s4" using 4 by (rule counters.update_dependents_keeps)
  moreover have "counters.keeps s4 s'" using 5 counters.updateTestPriority_keeps by (auto simp: bindR_Inr_conv)
  ultimately show ?thesis using 2 by (simp add: counters.keeps_def)
qed

lemma clear_counters:
  assumes "counters_ok s" "\<And>r. rows (runs s) i = Some r \<Longrightarrow> run_canceled r \<Longrightarrow> run_endTimestamp r = 0"
    "clearTestRun w depth i now s = Inr s'"
  shows "counters_ok s'"
proof -
  have "rows (runs s) i \<noteq> None" using assms(3) by (auto simp: clearTestRun_def Let_def split: if_splits)
  then obtain r where r: "rows (runs s) i = Some r" by blast
  then have get: "get_run s i = r" by (simp add: get_run_def)
  show ?thesis
  proof (cases "run_endTimestamp r = 0")
    case True
    then have "cancelTestRun w depth now i s = Inr s'" using assms(3) by (simp add: clearTestRun_def get r Let_def)
    then have "counters.keeps s s'" using counters.cancel_keeps r by blast
    then show ?thesis using assms(1) by (simp add: counters.keeps_def)
  next
    case False
    let ?test = "run_test r"
    define f1 where "f1 = (\<lambda>t :: test_row. t\<lparr>ts_totalRuns := ts_totalRuns t - 1\<rparr>)"
    define f2 where "f2 = (\<lambda>t :: test_row. if run_success r then t\<lparr>ts_successes := ts_successes t - 1,
       ts_totalTestCount := ts_totalTestCount t - run_totalTestCount r,
       ts_totalFailedTestCount := ts_totalFailedTestCount t - run_totalFailedTestCount r\<rparr> else t)"
    define u where "u = upd_run i (\<lambda>r. r\<lparr>run_canceled := True\<rparr>) (if run_success r
       then upd_test ?test f2 (upd_test ?test f1 s) else upd_test ?test f1 s)"
    have s': "s' = triggerTestPriorityUpdate ?test u"
      using assms(3) r False by (cases "run_success r") (simp_all add: clearTestRun_def get Let_def u_def f1_def f2_def)
    have runs': "runs u = tbl_modify run_keys i (\<lambda>r. r\<lparr>run_canceled := True\<rparr>) (runs s)"
      by (simp add: u_def upd_test_def upd_run_def)
    have rows': "rows (tests u) t = (if t = ?test then map_option (f2 \<circ> f1) (rows (tests s) t) else rows (tests s) t)" for t
      by (cases "rows (tests s) t") (auto simp: u_def upd_test_def upd_run_def f2_def)
    let ?r = "r\<lparr>run_canceled := True\<rparr>"
    have d: "delta running (Some r) ?r = 0" "delta finished (Some r) ?r = -1" "delta succeeded (Some r) ?r = - of_bool (run_success r)"
      using False assms(2) [OF r] by (auto simp: delta_def running_def finished_def succeeded_def)
    have "counters_ok u"
    proof (rule counters_change [OF assms(1), where i = i and r' = ?r])
      show "rows (runs u) = (rows (runs s))(i \<mapsto> ?r)" by (auto simp: runs' r fun_eq_iff)
      show "tbl_ok run_keys (runs u)" using assms(1) by (simp add: runs' counters_ok_def run_index.ok_modify)
      fix t row' assume "rows (tests u) t = Some row'"
      then show "\<exists>row. rows (tests s) t = Some row \<and>
        ts_activeRuns row' = ts_activeRuns row + (if t = run_test ?r then delta running (rows (runs s) i) ?r else 0) \<and>
        ts_totalRuns row' = ts_totalRuns row + (if t = run_test ?r then delta finished (rows (runs s) i) ?r else 0) \<and>
        ts_successes row' = ts_successes row + (if t = run_test ?r then delta succeeded (rows (runs s) i) ?r else 0)"
        unfolding rows' r d by (cases "t = ?test") (auto simp: f1_def f2_def)
    qed (simp add: r)
    then show ?thesis unfolding s' by (rule counters.frame) (simp_all add: trigger_tables)
  qed
qed

section \<open>Reachable states\<close>

lemma start_counters:
  assumes "counters_ok s" "rows (runs s) (next_id s) = None" "startNewTest w depth machineId now s = (res, s')"
  shows "counters_ok s'"
proof (cases "lookup_any (machines s) (Machine_machineId machineId)")
  case None
  then show ?thesis using assms(1,3) by (simp add: startNewTest_def)
next
  case (Some m)
  let ?s = "recordHeartbeat m now '''' s"
  have 1: "counters_ok ?s" using assms(1) by (rule machine_frame(1))
  have "rows (runs ?s) (next_id ?s) = None" using assms(2) by (simp add: recordHeartbeat_def upd_machine_def)
  note assign = assign_counters [OF 1 this]
  show ?thesis
  proof (cases "assign_test w depth m machineId now ?s")
    case (Inl e)
    then show ?thesis using assms(1,3) 1 Some by (auto simp: startNewTest_def Let_def split: if_splits)
  next
    case (Inr rs)
    then have "s' = s \<or> (\<exists>r. assign_test w depth m machineId now ?s = Inr (r, s'))"
      using assms(3) Some by (cases rs) (auto simp: startNewTest_def Let_def split: if_splits)
    then show ?thesis using assign assms(1) by blast
  qed
qed

lemma results_counters:
  assumes "counters_ok s" "\<And>r. rows (runs s) i = Some r \<Longrightarrow> run_endTimestamp r = 0" "now \<noteq> 0"
    "recordTestResults w depth success i results arts now s = (res, s')"
  shows "counters_ok s'"
proof (cases "recordTestArtifactUploaded w depth i (Inr arts) now s")
  case (Inl e)
  then show ?thesis using assms(1,4) by (simp add: recordTestResults_def)
next
  case (Inr s1)
  have k: "counters.keeps s s1" using Inr by (rule counters.artifact_keeps)
  then have 1: "counters_ok s1" using assms(1) by (simp add: counters.keeps_def)
  have "rel_option (\<lambda>r r'. run_endTimestamp r' = run_endTimestamp r) (rows (runs s) i) (rows (runs s1) i)"
    using k assms(1) by (simp add: counters.keeps_def)
  then have end0: "run_endTimestamp r = 0" if "rows (runs s1) i = Some r" for r
    using that assms(2) by (auto elim: option.rel_cases)
  show ?thesis
  proof (cases "finish_run w depth success i results now s1")
    case (Inl e)
    then show ?thesis using assms(4) 1 Inr by (simp add: recordTestResults_def)
  next
    case (Inr p)
    obtain b s2 where p: "p = (b, s2)" by fastforce
    have "counters_ok s2" using finish_run_counters [OF 1 end0 assms(3) Inr [unfolded p]] .
    moreover have "s' = s2"
      using assms(4) \<open>recordTestArtifactUploaded w depth i (Inr arts) now s = Inr s1\<close> Inr
      by (simp add: recordTestResults_def p)
    ultimately show ?thesis by simp
  qed
qed

lemma new_test_counters:
  assumes "counters_ok s" "\<And>i r. rows (runs s) i = Some r \<Longrightarrow> run_test r \<noteq> next_id s"
    "ts_activeRuns row = 0" "ts_totalRuns row = 0" "ts_successes row = 0"
  shows "counters_ok (snd (new_test row s))"
proof -
  have none: "run_count (runs s) (next_id s) p = 0" for p
  proof -
    have no: "{i. \<exists>r. rows (runs s) i = Some r \<and> run_test r = next_id s \<and> p r} = {}" using assms(2) by blast
    show ?thesis unfolding run_count_def no by simp
  qed
  show ?thesis
    using assms(1,3-5) by (auto simp: counters_ok_def counted_def new_test_def none)
qed

text \<open>Every operation of the manager that touches test runs. The side conditions: identities are fresh, a
  clock does not show zero, results are reported for a run that has not ended, and a run that has
  been cleared after it ended is not cleared again.\<close>

inductive runs_reachable :: "'m world \<Rightarrow> 'm mgr \<Rightarrow> bool" for w where
  start: "rows (runs s) = Map.empty \<Longrightarrow> rows (tests s) = Map.empty \<Longrightarrow> tbl_ok run_keys (runs s) \<Longrightarrow> runs_reachable w s"
| elsewhere: "runs_reachable w s \<Longrightarrow> runs s' = runs s \<Longrightarrow> tests s' = tests s \<Longrightarrow> runs_reachable w s'"
| test_created: "runs_reachable w s \<Longrightarrow> (\<And>i r. rows (runs s) i = Some r \<Longrightarrow> run_test r \<noteq> next_id s) \<Longrightarrow>
    ts_activeRuns row = 0 \<Longrightarrow> ts_totalRuns row = 0 \<Longrightarrow> ts_successes row = 0 \<Longrightarrow>
    runs_reachable w (snd (new_test row s))"
| started: "runs_reachable w s \<Longrightarrow> rows (runs s) (next_id s) = None \<Longrightarrow>
    startNewTest w depth machineId now s = (res, s') \<Longrightarrow> runs_reachable w s'"
| uploaded: "runs_reachable w s \<Longrightarrow> recordTestArtifactUploaded w depth i artifact now s = Inr s' \<Longrightarrow> runs_reachable w s'"
| reported: "runs_reachable w s \<Longrightarrow> (\<And>r. rows (runs s) i = Some r \<Longrightarrow> run_endTimestamp r = 0) \<Longrightarrow> now \<noteq> 0 \<Longrightarrow>
    recordTestResults w depth success i results arts now s = (report, s') \<Longrightarrow> runs_reachable w s'"
| cleared: "runs_reachable w s \<Longrightarrow> (\<And>r. rows (runs s) i = Some r \<Longrightarrow> run_canceled r \<Longrightarrow> run_endTimestamp r = 0) \<Longrightarrow>
    clearTestRun w depth i now s = Inr s' \<Longrightarrow> runs_reachable w s'"
| heartbeat: "runs_reachable w s \<Longrightarrow> database_heartbeat w depth i now s = Inr (b, s') \<Longrightarrow> runs_reachable w s'"
| prioritized: "runs_reachable w s \<Longrightarrow> updateTestPriority w depth test now s = Inr s' \<Longrightarrow> runs_reachable w s'"
| terminated: "runs_reachable w s \<Longrightarrow> machineTerminated w depth machineId now s = Inr s' \<Longrightarrow> runs_reachable w s'"
| undeployed: "runs_reachable w s \<Longrightarrow> cancelDeployment w depth now d s = Inr s' \<Longrightarrow> runs_reachable w s'"
| cleaned: "runs_reachable w s \<Longrightarrow> performCleanupTasks w depth now s = Inr s' \<Longrightarrow> runs_reachable w s'"

lemma reachable_counters: "runs_reachable w s \<Longrightarrow> counters_ok s"
proof (induction rule: runs_reachable.induct)
  case (start s)
  then show ?case by (simp add: counters_ok_def)
next
  case (elsewhere s s')
  then show ?case using counters.frame by blast
next
  case (test_created s row)
  then show ?case using new_test_counters by blast
next
  case (started s depth machineId now res s')
  then show ?case using start_counters by blast
next
  case (uploaded s depth i artifact now s')
  then show ?case using counters.artifact_keeps counters.keeps_def by blast
next
  case (reported s i now depth success results arts report s')
  show ?case by (rule results_counters [OF reported.IH reported.hyps(2,3,4)])
next
  case (cleared s i depth now s')
  show ?case by (rule clear_counters [OF cleared.IH cleared.hyps(2,3)])
next
  case (heartbeat s depth i now b s')
  then show ?case using counters.heartbeat_keeps counters.keeps_def by blast
next
  case (prioritized s depth test now s')
  then show ?case using counters.updateTestPriority_keeps counters.keeps_def by blast
next
  case (terminated s depth machineId now s')
  then show ?case using counters.good_machineTerminated counters.good_def counters.keeps_def by blast
next
  case (undeployed s depth now d s')
  then have "counters.keeps s s'"
    unfolding cancelDeployment_def by (intro counters.cancelDeployment_keeps [OF counters.good_machineTerminated])
  then show ?case using undeployed.IH by (simp add: counters.keeps_def)
next
  case (cleaned s depth now s')
  then show ?case using counters.performCleanup_keeps counters.keeps_def by blast
qed



lemma store_results_rows:
  assumes "rows (runs s) i = Some r" "rows (tests s) (run_test r) = Some row"
    "s' = store_results w success i results now s"
  shows "\<exists>r'. rows (runs s') = (rows (runs s))(i \<mapsto> r') \<and> run_test r' = run_test r \<and> run_canceled r' = run_canceled r \<and>
      run_endTimestamp r' = now"
    "\<exists>row'. rows (tests s') (run_test r) = Some row' \<and> ts_totalRuns row' = ts_totalRuns row + 1 \<and>
      ts_activeRuns row' = ts_activeRuns row - 1"
proof -
  obtain n s3 where s3: "testNameSet w (sort (map fst results)) (upd_test (run_test r) (\<lambda>t. t\<lparr>ts_activeRuns := ts_activeRuns t - 1,
      ts_totalRuns := ts_totalRuns t + 1, ts_lastTestEndTimestamp := now\<rparr>)
      (upd_run i (\<lambda>r. r\<lparr>run_endTimestamp := now\<rparr>) s)) = (n, s3)" by fastforce
  have get: "get_run s i = r" by (simp add: get_run_def assms(1))
  note tables = testNameSet_tables [OF s3]
  have t: "rows (tests s3) (run_test r) = Some (row\<lparr>ts_activeRuns := ts_activeRuns row - 1,
      ts_totalRuns := ts_totalRuns row + 1, ts_lastTestEndTimestamp := now\<rparr>)"
    by (simp add: tables upd_test_def upd_run_def assms(2))
  have r: "rows (runs s3) = (rows (runs s))(i \<mapsto> r\<lparr>run_endTimestamp := now\<rparr>)"
    by (auto simp: tables upd_test_def upd_run_def assms(1) fun_eq_iff)
  show "\<exists>r'. rows (runs s') = (rows (runs s))(i \<mapsto> r') \<and> run_test r' = run_test r \<and> run_canceled r' = run_canceled r \<and>
      run_endTimestamp r' = now"
  proof -
    have "\<exists>g. runs s' = runs (upd_run i g s3) \<and> (\<forall>q. run_test (g q) = run_test q \<and> run_canceled (g q) = run_canceled q \<and>
        run_endTimestamp (g q) = run_endTimestamp q)"
      unfolding assms(3) store_results_def Let_def get s3 prod.case
      by (rule exI, rule conjI, simp add: upd_test_def upd_run_def, simp)
    then obtain g where g: "runs s' = runs (upd_run i g s3)" "\<And>q. run_test (g q) = run_test q"
      "\<And>q. run_canceled (g q) = run_canceled q" "\<And>q. run_endTimestamp (g q) = run_endTimestamp q" by blast
    show ?thesis
      by (rule exI [of _ "g (r\<lparr>run_endTimestamp := now\<rparr>)"]) (auto simp: g upd_run_def r fun_eq_iff)
  qed
  show "\<exists>row'. rows (tests s') (run_test r) = Some row' \<and> ts_totalRuns row' = ts_totalRuns row + 1 \<and>
      ts_activeRuns row' = ts_activeRuns row - 1"
    unfolding assms(3) store_results_def Let_def get s3 prod.case by (simp add: upd_test_def upd_run_def t)
qed


text \<open>A test with one run that has ended.\<close>

definition demo_ended :: "nat mgr" where
  "demo_ended = (new_manager 0 0)\<lparr>runs := empty_tbl\<lparr>rows := [4 \<mapsto> default_run\<lparr>run_test := 2, run_endTimestamp := 9\<rparr>]\<rparr>,
     tests := empty_tbl\<lparr>rows := [2 \<mapsto> default_test\<lparr>ts_totalRuns := 1\<rparr>]\<rparr>\<rparr>"


end
