(* ===== verification/Socket_Framing.thy ===== *)
theory Socket_Framing
  imports Prelude
begin

text \<open>
  Messages on a socket: \<^verbatim>\<open>core/socket_util.py\<close> and the framing in \<^verbatim>\<open>core/SimpleServer.py\<close>. A string is
  sent after its length in four little-endian bytes. What arrives is a list of packets: TCP keeps the
  order of the bytes but may cut them anywhere, and \<open>recv\<close> returns at most the rest of one packet. No packets left
  is a socket that the other side has closed.
\<close>

definition struct_error :: py_error where
  "struct_error = UserException ''struct.error''"

definition socket_exception :: py_error where
  "socket_exception = UserException ''Socket Disconnected''"

definition longLength :: nat where
  "longLength = 4"

fun little_endian :: "nat \<Rightarrow> nat \<Rightarrow> string" where
  "little_endian 0 l = []"
| "little_endian (Suc k) l = char_of (l mod 256) # little_endian k (l div 256)"

fun from_little_endian :: "string \<Rightarrow> nat" where
  "from_little_endian [] = 0"
| "from_little_endian (c # cs) = of_char c + 256 * from_little_endian cs"

definition longToString :: "nat \<Rightarrow> string res" where
  "longToString l = (if l < 2 ^ 32 then Inr (little_endian longLength l) else Inl struct_error)"

definition stringToLong :: "string \<Rightarrow> nat res" where
  "stringToLong s = (if length s = longLength then Inr (from_little_endian s) else Inl struct_error)"

definition prependSize :: "string \<Rightarrow> string res" where
  "prependSize s = bindR (longToString (length s)) (\<lambda>p. Inr (p @ s))"

definition stripSize :: "string \<Rightarrow> (string \<times> string) res" where
  "stripSize s = bindR (stringToLong (take longLength s)) (\<lambda>size.
     Inr (take size (drop longLength s), drop (longLength + size) s))"

section \<open>Reading\<close>

type_synonym packets = "string list"

fun recv :: "nat \<Rightarrow> packets \<Rightarrow> string \<times> packets" where
  "recv n [] = ('''', [])"
| "recv n (p # ps) = (if n < length p then (take n p, drop n p # ps) else (p, ps))"

lemma recv_length: "recv n ps = (dat, ps') \<Longrightarrow> 0 < n \<Longrightarrow> dat \<noteq> '''' \<Longrightarrow> 0 < length dat \<and> length dat \<le> n"
  by (cases ps) (auto split: if_splits)

function read_loop :: "nat \<Rightarrow> packets \<Rightarrow> string res \<times> packets" where
  "read_loop byteCount ps =
     (if byteCount = 0 then (Inr '''', ps)
      else case recv byteCount ps of (dat, ps') \<Rightarrow>
        if dat = '''' then (Inl socket_exception, ps')
        else case read_loop (byteCount - length dat) ps' of
               (Inl e, q) \<Rightarrow> (Inl e, q)
             | (Inr rest, q) \<Rightarrow> (Inr (dat @ rest), q))"
  by auto
termination by (relation "measure fst") (auto dest: recv_length)

declare read_loop.simps [simp del]

definition readBytes :: "nat \<Rightarrow> packets \<Rightarrow> string res \<times> packets" where
  "readBytes byteCount ps =
     (if byteCount < 1024 * 1024 * 1024 then read_loop byteCount ps else (Inl AssertionError, ps))"

definition readLong :: "packets \<Rightarrow> nat res \<times> packets" where
  "readLong ps = (case readBytes longLength ps of (r, q) \<Rightarrow> (bindR r stringToLong, q))"

definition readString :: "packets \<Rightarrow> string res \<times> packets" where
  "readString ps = (case readLong ps of
       (Inl e, q) \<Rightarrow> (Inl e, q)
     | (Inr l, q) \<Rightarrow> if l \<noteq> 0 then readBytes l q else (Inr '''', q))"

section \<open>Writing\<close>

text \<open>\<open>send\<close> may take fewer bytes than it is given and says how many; \<open>accepted\<close> is that number, which
  the code ignores. The result is what has been written to the stream.\<close>

definition writeString :: "nat \<Rightarrow> string \<Rightarrow> string res" where
  "writeString accepted s = bindR (prependSize s) (\<lambda>bytes. Inr (take accepted bytes))"

text \<open>\<open>prependSizePrefix\<close> and \<open>substringUnpacker\<close> of the server, on one string; the size is an \<open>'<I'\<close>. A
  consumer of the generator gets the substrings before the first that is cut short.\<close>

definition prependSizePrefix :: "string \<Rightarrow> string list res" where
  "prependSizePrefix s = bindR (longToString (length s)) (\<lambda>p. Inr [p, s])"

function substringUnpacker :: "string \<Rightarrow> string list \<times> unit res" where
  "substringUnpacker s =
     (if s = '''' then ([], Inr ())
      else if length s < longLength then ([], Inl AssertionError)
      else
        let size = from_little_endian (take longLength s);
            toYield = take size (drop longLength s)
        in if length toYield \<noteq> size then ([], Inl (UserException ''corrupt read''))
           else case substringUnpacker (drop (longLength + size) s) of (xs, r) \<Rightarrow> (toYield # xs, r))"
  by auto
termination by (relation "measure length") (auto simp: longLength_def)

declare substringUnpacker.simps [simp del]

section \<open>Lengths\<close>

lemma little_endian_length [simp]: "length (little_endian k l) = k"
  by (induction k arbitrary: l) auto

lemma from_to_little_endian: "l < 256 ^ k \<Longrightarrow> from_little_endian (little_endian k l) = l"
proof (induction k arbitrary: l)
  case (Suc k)
  have "l div 256 < 256 ^ k" using Suc.prems by (simp add: less_mult_imp_div_less)
  with Suc.IH show ?case by (simp add: of_char_of)
qed simp

lemma length_prefix:
  assumes "length s < 2 ^ 32"
  shows "prependSize s = Inr (little_endian 4 (length s) @ s)"
    "from_little_endian (little_endian 4 (length s)) = length s"
  using assms from_to_little_endian [of "length s" 4]
  by (simp_all add: prependSize_def longToString_def longLength_def)

section \<open>Reading what was written\<close>

abbreviation proper :: "packets \<Rightarrow> bool" where
  "proper ps \<equiv> '''' \<notin> set ps"

lemma recv_facts:
  assumes "recv n ps = (dat, ps')" "0 < n" "proper ps"
  shows "concat ps = dat @ concat ps'" "proper ps'" "length dat \<le> n" "dat = '''' \<longleftrightarrow> concat ps = ''''"
  using assms by (cases ps; auto split: if_splits)+

lemma read_loop_all:
  assumes "proper ps" "n \<le> length (concat ps)"
  shows "\<exists>q. read_loop n ps = (Inr (take n (concat ps)), q) \<and> proper q \<and> concat q = drop n (concat ps)"
  using assms
proof (induction n arbitrary: ps rule: less_induct)
  case (less n)
  show ?case
  proof (cases "n = 0")
    case True
    with less.prems show ?thesis by (simp add: read_loop.simps)
  next
    case False
    obtain dat ps' where r: "recv n ps = (dat, ps')" by fastforce
    have n: "0 < n" using False by simp
    note f = recv_facts [OF r n less.prems(1)]
    have "0 < length (concat ps)" using less.prems(2) n by linarith
    then have "concat ps \<noteq> ''''" by blast
    then have dat: "dat \<noteq> ''''" using f(4) by blast
    then have "n - length dat < n" using n by simp
    moreover have "n - length dat \<le> length (concat ps')" using less.prems(2) f(1) by simp
    ultimately obtain q where
      q: "read_loop (n - length dat) ps' = (Inr (take (n - length dat) (concat ps')), q)" "proper q"
        "concat q = drop (n - length dat) (concat ps')"
      using less.IH f(2) by blast
    have "read_loop n ps = (Inr (dat @ take (n - length dat) (concat ps')), q)"
      using False dat by (subst read_loop.simps) (simp add: r q(1))
    then show ?thesis using q(2,3) f(1,3) by auto
  qed
qed

lemma readString_one:
  assumes s: "length s < 1024 * 1024 * 1024" and ps: "proper ps" "concat ps = little_endian 4 (length s) @ s @ rest"
  shows "\<exists>q. readString ps = (Inr s, q) \<and> proper q \<and> concat q = rest"
proof -
  from read_loop_all [OF ps(1), of 4] ps(2) obtain q where
    q: "read_loop 4 ps = (Inr (little_endian 4 (length s)), q)" "proper q" "concat q = s @ rest" by auto
  have "length s < 2 ^ 32" using s by simp
  then have l: "readLong ps = (Inr (length s), q)"
    using length_prefix(2) [of s] by (simp add: readLong_def readBytes_def q(1) longLength_def stringToLong_def)
  from read_loop_all [OF q(2), of "length s"] q(3) obtain q' where
    q': "read_loop (length s) q = (Inr s, q')" "proper q'" "concat q' = rest" by auto
  show ?thesis
  proof (cases "s = ''''")
    case True
    with q l show ?thesis by (simp add: readString_def)
  next
    case False
    with q' l s show ?thesis by (simp add: readString_def readBytes_def)
  qed
qed

fun read_all :: "nat \<Rightarrow> packets \<Rightarrow> string list res \<times> packets" where
  "read_all 0 ps = (Inr [], ps)"
| "read_all (Suc n) ps = (case readString ps of
     (Inl e, q) \<Rightarrow> (Inl e, q)
   | (Inr s, q) \<Rightarrow> (case read_all n q of (Inl e, q') \<Rightarrow> (Inl e, q') | (Inr xs, q') \<Rightarrow> (Inr (s # xs), q')))"



text \<open>The number that \<open>send\<close> returns is ignored: when it takes only a part of a message, the reader waits for the
  rest and takes the beginning of the next message for it.\<close>

lemma short_send_corrupts:
  assumes "writeString 5 ''ok'' = Inr a" "writeString 6 ''no'' = Inr b"
  shows "\<exists>q. readString [a, b] = (Inr [CHR ''o'', char_of (2::nat)], q)"
proof -
  have four: "(4::nat) = Suc (Suc (Suc (Suc 0)))" "(3::nat) = Suc (Suc (Suc 0))" by simp_all
  have two: "little_endian 4 2 = char_of (2::nat) # replicate 3 (char_of (0::nat))"
    by (simp only: four little_endian.simps replicate.simps) simp
  have "a = little_endian 4 2 @ ''o''" "b = little_endian 4 2 @ ''no''"
    using assms length_prefix(1) [of "''ok''"] length_prefix(1) [of "''no''"] by (auto simp: writeString_def numeral_2_eq_2 [symmetric])
  then have "concat [a, b] = little_endian 4 (length [CHR ''o'', char_of (2::nat)]) @ [CHR ''o'', char_of (2::nat)] @
      replicate 3 (char_of (0::nat)) @ ''no''" "proper [a, b]"
    by (simp_all add: two numeral_2_eq_2 [symmetric])
  from readString_one [OF _ this(2,1)] show ?thesis by auto
qed

text \<open>What the server packs, it unpacks.\<close>

lemma unpack_packed: "\<forall>m \<in> set ms. length m < 2 ^ 32 \<Longrightarrow>
    substringUnpacker (concat (map (\<lambda>m. little_endian 4 (length m) @ m) ms)) = (ms, Inr ())"
proof (induction ms)
  case (Cons m ms)
  then have l: "from_little_endian (little_endian 4 (length m)) = length m" using length_prefix(2) by simp
  have "little_endian 4 (length m) \<noteq> ''''" by (metis little_endian_length list.size(3) zero_neq_numeral)
  with Cons l show ?case by (subst substringUnpacker.simps) (simp add: longLength_def)
qed (simp add: substringUnpacker.simps)

end
