(* ===== verification/Table_Refinement.thy ===== *)
theory Table_Refinement
  imports Manager_Core
begin

text \<open>
  What the rest of the program may assume of the objects of one type: a finite map from identities to
  rows, in which an index lookup is a search. The operations of \<open>Indexed_Table\<close>, which keep lists of
  identities per index key, implement it.
\<close>

section \<open>The specification\<close>

datatype 'row row_op =
    Create oid 'row
  | Change oid "'row \<Rightarrow> 'row"
  | Remove oid

fun spec_write :: "'row row_op \<Rightarrow> (oid \<Rightarrow> 'row option) \<Rightarrow> (oid \<Rightarrow> 'row option)" where
  "spec_write (Create i r) m = m(i \<mapsto> r)"
| "spec_write (Change i f) m = m(i := map_option f (m i))"
| "spec_write (Remove i) m = m(i := None)"

definition spec_search :: "('row \<Rightarrow> 'ix list) \<Rightarrow> (oid \<Rightarrow> 'row option) \<Rightarrow> 'ix \<Rightarrow> oid set" where
  "spec_search keys m k = {i. \<exists>r. m i = Some r \<and> k \<in> set (keys r)}"

text \<open>Identities are never used twice.\<close>

fun fresh_writes :: "'row row_op list \<Rightarrow> (oid \<Rightarrow> 'row option) \<Rightarrow> bool" where
  "fresh_writes [] m = True"
| "fresh_writes (op # ops) m =
     ((case op of Create i r \<Rightarrow> m i = None | _ \<Rightarrow> True) \<and> fresh_writes ops (spec_write op m))"

section \<open>The implementation\<close>

fun tbl_write :: "('row \<Rightarrow> 'ix list) \<Rightarrow> 'row row_op \<Rightarrow> ('row, 'ix) tbl \<Rightarrow> ('row, 'ix) tbl" where
  "tbl_write keys (Create i r) = tbl_new keys i r"
| "tbl_write keys (Change i f) = tbl_modify keys i f"
| "tbl_write keys (Remove i) = tbl_delete keys i"

context indexed_type
begin

lemma rows_write: "rows (tbl_write keys op t) = spec_write op (rows t)"
  by (cases op) (auto simp: fun_eq_iff)

lemma ok_write:
  assumes "tbl_ok keys t" "case op of Create i r \<Rightarrow> rows t i = None | _ \<Rightarrow> True"
  shows "tbl_ok keys (tbl_write keys op t)"
  using assms by (cases op) (auto intro: ok_new ok_modify ok_delete)

lemma writes_refine:
  assumes "tbl_ok keys t" "fresh_writes ops (rows t)"
  shows "tbl_ok keys (fold (tbl_write keys) ops t)" "rows (fold (tbl_write keys) ops t) = fold spec_write ops (rows t)"
  using assms by (induction ops arbitrary: t) (auto simp: rows_write ok_write)

lemma search_lookup:
  assumes "tbl_ok keys t"
  shows "set (lookup_all t k) = spec_search keys (rows t) k"
    "lookup_any t k = None \<longleftrightarrow> spec_search keys (rows t) k = {}"
    "lookup_any t k = Some i \<Longrightarrow> i \<in> spec_search keys (rows t) k"
    "lookup_one t k = Inr i \<longleftrightarrow> spec_search keys (rows t) k = {i}"
proof -
  show all: "set (lookup_all t k) = spec_search keys (rows t) k"
    using in_lookup_iff [OF assms] by (auto simp: spec_search_def)
  show "lookup_any t k = None \<longleftrightarrow> spec_search keys (rows t) k = {}"
    by (simp add: lookup_any_None all [symmetric])
  show "lookup_any t k = Some i \<Longrightarrow> i \<in> spec_search keys (rows t) k"
    using lookup_any_Some [of t k i] all by simp
  show "lookup_one t k = Inr i \<longleftrightarrow> spec_search keys (rows t) k = {i}"
  proof
    assume "spec_search keys (rows t) k = {i}"
    with all have "set (lookup_all t k) = {i}" by simp
    with distinct_lookup [OF assms] show "lookup_one t k = Inr i"
      unfolding lookup_one_ok by (rule distinct_singleton)
  qed (simp add: lookup_one_ok all [symmetric])
qed

end



end
