(* ===== verification/Worker_Session.thy ===== *)
theory Worker_Session
  imports Test_Runs Git_Locks Branch_Updates
begin

text \<open>
  The server's side of the protocol with the workers: the messages and the class \<open>Session\<close> of
  \<^verbatim>\<open>server/TestLooperServer.py\<close>. There is one session per connection; \<open>processMsg\<close> answers one message by
  calls on the test manager and by messages back. A call that raises ends the session. Test runs and
  deployments are named by identity. What the session does to the outside is a list of actions.
\<close>

section \<open>Messages\<close>

datatype terminal_input = KeyboardInput string | Resize int int

datatype worker_state =
    Waiting
  | WorkingOnDeployment oid string
  | WorkingOnTest oid string "string list"
  | FinishedTest oid bool test_results "string list"

datatype server_to_client =
    IdentifyCurrentState
  | TerminalInput oid terminal_input
  | TestAssignment oid test_definition
  | CancelTest oid
  | AcknowledgeFinishedTest oid
  | DeploymentAssignment oid test_definition
  | ShutdownDeployment oid
  | GrantOrDenyPermissionToHitGitRepo string bool

datatype client_to_server =
    CurrentState string worker_state
  | WaitingHeartbeat
  | TestHeartbeat oid
  | ArtifactUploaded oid string
  | TestLogOutput oid string
  | DeploymentHeartbeat oid
  | DeploymentExited oid
  | DeploymentTerminalOutput oid string
  | TestFinished oid bool test_results "string list"
  | RequestPermissionToHitGitRepo string oid
  | GitRepoPullCompleted string

section \<open>Sessions\<close>

record session =
  ss_machineId :: "string option"
  ss_testId :: "oid option"
  ss_deploymentId :: "oid option"
  ss_lastMessage :: int

datatype session_action = Send server_to_client | Subscribe oid

record 'm server =
  sv_session :: session
  sv_handler :: heartbeat_handler
  sv_manager :: "'m mgr"
  sv_actions :: "session_action list"

text \<open>What a session runs with: the world of the test manager, the levels of recursion, the subscribers of
  test logs, the text of the messages that the manager itself puts into the stream of a deployment, and
  the socket, which may refuse a message.\<close>

record 'm setting =
  se_world :: "'m world"
  se_depth :: nat
  se_accepts :: "listener \<Rightarrow> string \<Rightarrow> bool"
  se_render :: "deployment_message \<Rightarrow> string"
  se_link :: "server_to_client \<Rightarrow> bool"

type_synonym ('a, 'm) session_call = "('a, 'm server) git_call"

definition sendS :: "'m setting \<Rightarrow> server_to_client \<Rightarrow> (unit, 'm) session_call" where
  "sendS se msg v =
     (if se_link se msg then (Inr (), v\<lparr>sv_actions := sv_actions v @ [Send msg]\<rparr>)
      else (Inl (UserException ''SocketException''), v))"

definition subscribeS :: "oid \<Rightarrow> (unit, 'm) session_call" where
  "subscribeS d = modD (\<lambda>v. v\<lparr>sv_actions := sv_actions v @ [Subscribe d]\<rparr>)"

definition sessionS :: "(session \<Rightarrow> session) \<Rightarrow> (unit, 'm) session_call" where
  "sessionS f = modD (\<lambda>v. v\<lparr>sv_session := f (sv_session v)\<rparr>)"

text \<open>Calls on the manager: in one transaction that cannot raise, in one that may and is then rolled back, and in
  several.\<close>

definition managerN :: "('m mgr \<Rightarrow> 'a \<times> 'm mgr) \<Rightarrow> ('a, 'm) session_call" where
  "managerN f v = (case f (sv_manager v) of (a, s) \<Rightarrow> (Inr a, v\<lparr>sv_manager := s\<rparr>))"

definition managerR :: "('m mgr \<Rightarrow> ('a \<times> 'm mgr) res) \<Rightarrow> ('a, 'm) session_call" where
  "managerR f v = (case f (sv_manager v) of Inl e \<Rightarrow> (Inl e, v) | Inr (a, s) \<Rightarrow> (Inr a, v\<lparr>sv_manager := s\<rparr>))"

definition managerC :: "('m mgr \<Rightarrow> 'a res \<times> 'm mgr) \<Rightarrow> ('a, 'm) session_call" where
  "managerC f v = (case f (sv_manager v) of (r, s) \<Rightarrow> (r, v\<lparr>sv_manager := s\<rparr>))"

definition managerH ::
  "(heartbeat_handler \<times> 'm mgr \<Rightarrow> 'a res \<times> heartbeat_handler \<times> 'm mgr) \<Rightarrow> ('a, 'm) session_call" where
  "managerH f v = (case f (sv_handler v, sv_manager v) of (r, h, s) \<Rightarrow> (r, v\<lparr>sv_handler := h, sv_manager := s\<rparr>))"

section \<open>Deployments that come back\<close>

text \<open>A heartbeat of a deployment puts \<open>None\<close> into its stream, which has no length.\<close>

definition message_length :: "(deployment_message \<Rightarrow> string) \<Rightarrow> deployment_message \<Rightarrow> nat res" where
  "message_length render m = (case m of
     FromDeployment None \<Rightarrow> Inl TypeError
   | FromDeployment (Some t) \<Rightarrow> Inr (length t)
   | _ \<Rightarrow> Inr (length (render m)))"

definition bytes_so_far :: "(deployment_message \<Rightarrow> string) \<Rightarrow> oid \<Rightarrow> 'm mgr \<Rightarrow> nat res" where
  "bytes_so_far render d s =
     foldR (\<lambda>(_, m) n. bindR (message_length render m) (\<lambda>k. Inr (n + k)))
       (filter (\<lambda>(d', m). d' = d) (deployment_messages s)) 0"

definition handleDeploymentConnectionReinitialized ::
  "(deployment_message \<Rightarrow> string) \<Rightarrow> oid \<Rightarrow> int \<Rightarrow> string \<Rightarrow> 'm mgr \<Rightarrow> (bool \<times> 'm mgr) res" where
  "handleDeploymentConnectionReinitialized render deploymentId timestamp allLogs s =
     bindR (bytes_so_far render deploymentId s) (\<lambda>n.
       Inr (handleMessageFromDeployment deploymentId timestamp (Some '''')
         (addDeploymentMessage deploymentId (FromDeployment (Some (drop n allLogs))) s)))"

section \<open>Answering one message\<close>

definition process_current_state :: "'m setting \<Rightarrow> int \<Rightarrow> string \<Rightarrow> worker_state \<Rightarrow> (unit, 'm) session_call" where
  "process_current_state se now mid st =
     bindG (sessionS (\<lambda>x. x\<lparr>ss_machineId := Some mid\<rparr>)) (\<lambda>_.
     bindG (managerN (\<lambda>s. ((), machineInitialized mid now s))) (\<lambda>_. case st of
       WorkingOnDeployment d logs \<Rightarrow>
         bindG (managerR (handleDeploymentConnectionReinitialized (se_render se) d now logs)) (\<lambda>known.
         if \<not> known then sendS se (ShutdownDeployment d)
         else bindG (sessionS (\<lambda>x. x\<lparr>ss_deploymentId := Some d\<rparr>)) (\<lambda>_. subscribeS d))
     | WorkingOnTest t logs arts \<Rightarrow>
         bindG (managerH (handleTestConnectionReinitialized (se_accepts se) (se_world se) (se_depth se) t now logs arts))
           (\<lambda>known.
         if \<not> known then sendS se (CancelTest t)
         else sessionS (\<lambda>x. x\<lparr>ss_testId := Some t\<rparr>))
     | FinishedTest t success results arts \<Rightarrow>
         bindG (managerC (recordTestResults (se_world se) (se_depth se) success t results arts now)) (\<lambda>_.
         sendS se (AcknowledgeFinishedTest t))
     | Waiting \<Rightarrow> retG ()))"

definition process_permission :: "'m setting \<Rightarrow> string \<Rightarrow> oid \<Rightarrow> (unit, 'm) session_call" where
  "process_permission se request cur =
     bindG (readD sv_session) (\<lambda>x.
     bindG (if ss_deploymentId x \<noteq> Some cur \<and> ss_testId x \<noteq> Some cur then retG False
            else managerN (tryToAllocateGitRepoLock request
              (case ss_deploymentId x of Some d \<Rightarrow> d | None \<Rightarrow> the (ss_testId x)))) (\<lambda>allowed.
     sendS se (GrantOrDenyPermissionToHitGitRepo request allowed)))"

text \<open>A message cannot be built without a definition.\<close>

definition assign :: "'m setting \<Rightarrow> (test_definition \<Rightarrow> server_to_client) \<Rightarrow> test_definition option \<Rightarrow> (unit, 'm) session_call" where
  "assign se f def = (case def of None \<Rightarrow> liftG (Inl TypeError) | Some t \<Rightarrow> sendS se (f t))"

definition offer_work :: "'m setting \<Rightarrow> int \<Rightarrow> string \<Rightarrow> (unit, 'm) session_call" where
  "offer_work se now mid =
     bindG (managerR (startNewDeployment (se_world se) mid now)) (\<lambda>dep. case dep of
       Some (d, def) \<Rightarrow>
         bindG (sessionS (\<lambda>x. x\<lparr>ss_deploymentId := Some d\<rparr>)) (\<lambda>_.
         bindG (assign se (DeploymentAssignment d) def) (\<lambda>_. subscribeS d))
     | None \<Rightarrow>
         bindG (managerC (startNewTest (se_world se) (se_depth se) mid now)) (\<lambda>test. case test of
           None \<Rightarrow> retG ()
         | Some (t, def) \<Rightarrow>
             bindG (sessionS (\<lambda>x. x\<lparr>ss_testId := Some t\<rparr>)) (\<lambda>_. assign se (TestAssignment t) def)))"

definition process_waiting :: "'m setting \<Rightarrow> int \<Rightarrow> (unit, 'm) session_call" where
  "process_waiting se now =
     bindG (readD sv_session) (\<lambda>x. case ss_machineId x of
       None \<Rightarrow> retG ()
     | Some mid \<Rightarrow>
         bindG (managerN (\<lambda>s. ((), machineHeartbeat mid now '''' s))) (\<lambda>_.
         if ss_deploymentId x = None \<and> ss_testId x = None then offer_work se now mid else retG ()))"

definition process_test_heartbeat :: "'m setting \<Rightarrow> int \<Rightarrow> oid \<Rightarrow> string option \<Rightarrow> (unit, 'm) session_call" where
  "process_test_heartbeat se now t line =
     bindG (readD sv_session) (\<lambda>x.
       if ss_testId x \<noteq> Some t then retG ()
       else bindG (managerH (testHeartbeat (se_accepts se) (se_world se) (se_depth se) t now line)) (\<lambda>known.
         if known then retG ()
         else bindG (sendS se (CancelTest t)) (\<lambda>_. sessionS (\<lambda>x. x\<lparr>ss_testId := None\<rparr>))))"

definition process_deployment_message :: "'m setting \<Rightarrow> int \<Rightarrow> oid \<Rightarrow> string option \<Rightarrow> (unit, 'm) session_call" where
  "process_deployment_message se now d line =
     bindG (readD sv_session) (\<lambda>x.
       if ss_deploymentId x \<noteq> Some d then retG ()
       else bindG (managerN (handleMessageFromDeployment d now line)) (\<lambda>known.
         if known then retG ()
         else bindG (sendS se (ShutdownDeployment d)) (\<lambda>_. sessionS (\<lambda>x. x\<lparr>ss_deploymentId := None\<rparr>))))"

definition process_exited :: "'m setting \<Rightarrow> int \<Rightarrow> oid \<Rightarrow> (unit, 'm) session_call" where
  "process_exited se now d =
     bindG (readD sv_session) (\<lambda>x.
       if ss_deploymentId x \<noteq> Some d then retG ()
       else bindG (managerR (\<lambda>s. bindR (shutdownDeployment (se_world se) (se_depth se) d now s) (\<lambda>s'. Inr ((), s')))) (\<lambda>_.
         bindG (sendS se (ShutdownDeployment d)) (\<lambda>_. sessionS (\<lambda>x. x\<lparr>ss_deploymentId := None\<rparr>))))"

definition processMsg :: "'m setting \<Rightarrow> int \<Rightarrow> client_to_server \<Rightarrow> (unit, 'm) session_call" where
  "processMsg se now msg = (case msg of
     CurrentState mid st \<Rightarrow> process_current_state se now mid st
   | RequestPermissionToHitGitRepo request cur \<Rightarrow> process_permission se request cur
   | GitRepoPullCompleted request \<Rightarrow> managerN (\<lambda>s. ((), gitRepoLockReleased request s))
   | WaitingHeartbeat \<Rightarrow> process_waiting se now
   | ArtifactUploaded t artifact \<Rightarrow>
       bindG (readD sv_session) (\<lambda>x.
         if ss_testId x \<noteq> Some t then retG ()
         else managerR (\<lambda>s. bindR (recordTestArtifactUploaded (se_world se) (se_depth se) t (Inl artifact) now s)
           (\<lambda>s'. Inr ((), s'))))
   | TestHeartbeat t \<Rightarrow> process_test_heartbeat se now t None
   | TestLogOutput t line \<Rightarrow> process_test_heartbeat se now t (Some line)
   | DeploymentExited d \<Rightarrow> process_exited se now d
   | DeploymentHeartbeat d \<Rightarrow> process_deployment_message se now d None
   | DeploymentTerminalOutput d data \<Rightarrow> process_deployment_message se now d (Some data)
   | TestFinished t success results arts \<Rightarrow>
       bindG (managerC (recordTestResults (se_world se) (se_depth se) success t results arts now)) (\<lambda>_.
       bindG (sessionS (\<lambda>x. x\<lparr>ss_testId := None\<rparr>)) (\<lambda>_.
       sendS se (AcknowledgeFinishedTest t))))"

text \<open>The loop of a session over the messages that arrive, each with the time at which it does.\<close>

definition session_step :: "'m setting \<Rightarrow> int \<times> client_to_server \<Rightarrow> (unit, 'm) session_call" where
  "session_step se = (\<lambda>(now, msg).
     bindG (sessionS (\<lambda>x. x\<lparr>ss_lastMessage := now\<rparr>)) (\<lambda>_. processMsg se now msg))"

definition run_session :: "'m setting \<Rightarrow> (int \<times> client_to_server) list \<Rightarrow> (unit, 'm) session_call" where
  "run_session se msgs = bindG (sendS se IdentifyCurrentState) (\<lambda>_. eachG (session_step se) msgs)"

definition SOCKET_CLEANUP_TIMEOUT :: int where
  "SOCKET_CLEANUP_TIMEOUT = 360"

definition stillLooksAlive :: "int \<Rightarrow> session \<Rightarrow> bool" where
  "stillLooksAlive now x \<longleftrightarrow> \<not> now - ss_lastMessage x > SOCKET_CLEANUP_TIMEOUT"

definition new_session :: "int \<Rightarrow> session" where
  "new_session now = \<lparr>ss_machineId = None, ss_testId = None, ss_deploymentId = None, ss_lastMessage = now\<rparr>"

text \<open>\<open>_onConnect\<close>: a new connection sweeps the sessions that have gone silent.\<close>

definition onConnect :: "int \<Rightarrow> session list \<Rightarrow> session list" where
  "onConnect now sessions = filter (stillLooksAlive now) (sessions @ [new_session now])"

text \<open>The callback that passes the input of a terminal on, as long as the deployment is the session's.\<close>

definition onMessage :: "'m setting \<Rightarrow> oid \<Rightarrow> terminal_input \<Rightarrow> (unit, 'm) session_call" where
  "onMessage se d msg =
     bindG (readD sv_session) (\<lambda>x. if ss_deploymentId x = Some d then sendS se (TerminalInput d msg) else retG ())"

section \<open>The thread of the test manager\<close>

text \<open>One round of \<open>executeManagerWork\<close>: a background task, and a cleanup when the last one is long ago. A cleanup
  that raises is rolled back and counts as done.\<close>

definition CLEANUP_TASK_FREQUENCY :: int where
  "CLEANUP_TASK_FREQUENCY = 30"

definition manager_round :: "'m world \<Rightarrow> 'g source_control \<Rightarrow> nat \<Rightarrow> int \<Rightarrow> int option \<Rightarrow> 'm mgr \<times> 'g \<Rightarrow>
    background_task option \<times> int option \<times> 'm mgr \<times> 'g" where
  "manager_round w sc depth now lastSweep sg = (case background_work w sc depth now sg of (task, s, g) \<Rightarrow>
     if (case lastSweep of None \<Rightarrow> True | Some t \<Rightarrow> now - t > CLEANUP_TASK_FREQUENCY)
     then (task, Some now, (case performCleanupTasks w depth now s of Inl e \<Rightarrow> s | Inr s' \<Rightarrow> s'), g)
     else (task, lastSweep, s, g))"

text \<open>\<open>initialize\<close>, before the server listens; it may not return when the search for commits does not.\<close>

definition initialize_server :: "'m world \<Rightarrow> nat \<Rightarrow> int \<Rightarrow> 'm mgr \<Rightarrow> 'm mgr option" where
  "initialize_server w depth now s =
     (let s1 = markRepoListDirty s;
          s2 = (case pruneDeadWorkers w depth now s1 of Inl e \<Rightarrow> s1 | Inr s' \<Rightarrow> s')
      in map_option (\<lambda>r. case r of Inl e \<Rightarrow> s2 | Inr s' \<Rightarrow> s') (checkAllTestPriorities w depth now False s2))"

end
