(* ===== verification/Worker_Client.thy ===== *)
theory Worker_Client
  imports Worker_Session
begin

text \<open>
  The worker's side of the protocol: \<^verbatim>\<open>worker/TestLooperClient.py\<close>. The read thread sorts the messages of
  the server into the queue that the main thread consumes and into the input of terminals; the main thread
  waits for work, reports on it and gives the result back. A callback of a terminal is a name, and what it
  has been given is recorded.
\<close>

section \<open>State\<close>

text \<open>The input of a deployment's terminal is kept until somebody subscribes to it.\<close>

datatype subscription = Pending "terminal_input list" | Callback nat

record client =
  cl_shouldStop :: bool
  cl_machineId :: string
  cl_testId :: "oid option"
  cl_testResults :: "(bool \<times> test_results) option"
  cl_deploymentId :: "oid option"
  cl_outputs :: "string list option"
  cl_artifacts :: "string list option"
  cl_inbox :: "server_to_client option list"
  cl_outbox :: "client_to_server list"
  cl_permissions :: "string \<Rightarrow> bool list option"
  cl_subscriptions :: "oid \<Rightarrow> subscription option"
  cl_delivered :: "(nat \<times> terminal_input) list"

type_synonym 'a client_call = "('a, client) git_call"

definition new_client :: "string \<Rightarrow> client" where
  "new_client machineId =
     \<lparr>cl_shouldStop = False, cl_machineId = machineId, cl_testId = None, cl_testResults = None,
      cl_deploymentId = None, cl_outputs = None, cl_artifacts = None, cl_inbox = [], cl_outbox = [],
      cl_permissions = Map.empty, cl_subscriptions = Map.empty, cl_delivered = []\<rparr>"

definition sendC :: "client_to_server \<Rightarrow> client \<Rightarrow> client" where
  "sendC msg c = c\<lparr>cl_outbox := cl_outbox c @ [msg]\<rparr>"

text \<open>A message of a null list cannot be built.\<close>

definition listed :: "'a option \<Rightarrow> 'a res" where
  "listed x = (case x of None \<Rightarrow> Inl TypeError | Some v \<Rightarrow> Inr v)"

section \<open>Messages that arrive\<close>

definition read_message :: "server_to_client \<Rightarrow> client \<Rightarrow> client" where
  "read_message msg c = (case msg of
     TerminalInput d m \<Rightarrow> (case cl_subscriptions c d of
         Some (Callback l) \<Rightarrow> c\<lparr>cl_delivered := cl_delivered c @ [(l, m)]\<rparr>
       | Some (Pending ms) \<Rightarrow> c\<lparr>cl_subscriptions := (cl_subscriptions c)(d \<mapsto> Pending (ms @ [m]))\<rparr>
       | None \<Rightarrow> c\<lparr>cl_subscriptions := (cl_subscriptions c)(d \<mapsto> Pending [m])\<rparr>)
   | _ \<Rightarrow> c\<lparr>cl_inbox := cl_inbox c @ [Some msg]\<rparr>)"

definition subscribeToTerminalInput :: "nat \<Rightarrow> client \<Rightarrow> client" where
  "subscribeToTerminalInput l c = (case cl_deploymentId c of
     None \<Rightarrow> c
   | Some d \<Rightarrow> c\<lparr>cl_subscriptions := (cl_subscriptions c)(d \<mapsto> Callback l),
       cl_delivered := cl_delivered c @
         (case cl_subscriptions c d of Some (Pending ms) \<Rightarrow> map (Pair l) ms | _ \<Rightarrow> [])\<rparr>)"

section \<open>Waiting for work\<close>

definition start_waiting :: "client \<Rightarrow> client" where
  "start_waiting = sendC WaitingHeartbeat"

text \<open>One message in \<open>checkoutWork\<close>; work is the identity, the definition and whether it is a deployment. Every
  other message is dropped.\<close>

definition checkout_message :: "server_to_client \<Rightarrow> client \<Rightarrow> (oid \<times> test_definition \<times> bool) option \<times> client" where
  "checkout_message msg c = (case msg of
     IdentifyCurrentState \<Rightarrow> (None, sendC (CurrentState (cl_machineId c) Waiting) c)
   | TestAssignment t def \<Rightarrow>
       (Some (t, def, False), c\<lparr>cl_testId := Some t, cl_outputs := Some [], cl_artifacts := Some []\<rparr>)
   | DeploymentAssignment d def \<Rightarrow>
       (Some (d, def, True), c\<lparr>cl_deploymentId := Some d, cl_outputs := Some [], cl_artifacts := Some []\<rparr>)
   | _ \<Rightarrow> (None, c))"

definition checkout_next :: "client \<Rightarrow> (oid \<times> test_definition \<times> bool) option \<times> client" where
  "checkout_next c = (case cl_inbox c of
     [] \<Rightarrow> (None, c)
   | None # rest \<Rightarrow> (None, c\<lparr>cl_inbox := rest\<rparr>)
   | Some m # rest \<Rightarrow> checkout_message m (c\<lparr>cl_inbox := rest\<rparr>))"

section \<open>Working\<close>

definition current_state :: "client \<Rightarrow> worker_state res" where
  "current_state c = (case cl_testId c of
     Some t \<Rightarrow> (case cl_testResults c of
         Some (success, results) \<Rightarrow> bindR (listed (cl_artifacts c)) (\<lambda>as. Inr (FinishedTest t success results as))
       | None \<Rightarrow> bindR (listed (cl_outputs c)) (\<lambda>out.
           bindR (listed (cl_artifacts c)) (\<lambda>as. Inr (WorkingOnTest t (concat out) as))))
   | None \<Rightarrow> (case cl_deploymentId c of
         Some d \<Rightarrow> bindR (listed (cl_outputs c)) (\<lambda>out. Inr (WorkingOnDeployment d (concat out)))
       | None \<Rightarrow> Inr Waiting))"

definition drop_test :: "client \<Rightarrow> client" where
  "drop_test c = c\<lparr>cl_testId := None, cl_outputs := None, cl_artifacts := None, cl_testResults := None\<rparr>"

definition consume_message :: "server_to_client \<Rightarrow> unit client_call" where
  "consume_message msg c = (case msg of
     IdentifyCurrentState \<Rightarrow> (case current_state c of
         Inl e \<Rightarrow> (Inl e, c) | Inr st \<Rightarrow> (Inr (), sendC (CurrentState (cl_machineId c) st) c))
   | GrantOrDenyPermissionToHitGitRepo r allowed \<Rightarrow> (case cl_permissions c r of
         None \<Rightarrow> (Inl KeyError, c)
       | Some q \<Rightarrow> (Inr (), c\<lparr>cl_permissions := (cl_permissions c)(r \<mapsto> q @ [allowed])\<rparr>))
   | AcknowledgeFinishedTest t \<Rightarrow> (Inr (), if cl_testId c = Some t then drop_test c else c)
   | CancelTest t \<Rightarrow> (Inr (), if cl_testId c = Some t then drop_test c else c)
   | ShutdownDeployment d \<Rightarrow>
       (Inr (), if cl_deploymentId c = Some d
                then c\<lparr>cl_deploymentId := None, cl_outputs := None, cl_artifacts := None\<rparr> else c)
   | _ \<Rightarrow> (Inr (), c))"

fun consume_all :: "server_to_client option list \<Rightarrow> unit client_call" where
  "consume_all [] c = (Inr (), c\<lparr>cl_inbox := []\<rparr>)"
| "consume_all (None # rest) c = (Inr (), c\<lparr>cl_inbox := rest\<rparr>)"
| "consume_all (Some m # rest) c = (case consume_message m c of
     (Inl e, c') \<Rightarrow> (Inl e, c'\<lparr>cl_inbox := rest\<rparr>)
   | (Inr _, c') \<Rightarrow> consume_all rest c')"

definition consumeMessages :: "unit client_call" where
  "consumeMessages c = (if cl_shouldStop c then (Inr (), c) else consume_all (cl_inbox c) c)"

definition add_output :: "string \<Rightarrow> client \<Rightarrow> client" where
  "add_output msg c = c\<lparr>cl_outputs := map_option (\<lambda>out. out @ [msg]) (cl_outputs c)\<rparr>"

definition stopped :: "'a client_call \<Rightarrow> 'a client_call" where
  "stopped m c = (if cl_shouldStop c then (Inl (UserException ''Shutting down''), c) else m c)"

text \<open>\<open>_curOutputs\<close> may be null after a job has been dropped although another identity is still set; then
  appending to it raises.\<close>

definition report :: "string option \<Rightarrow> client_to_server \<Rightarrow> (string \<Rightarrow> client_to_server) \<Rightarrow> unit client_call" where
  "report msg plain_msg with_log c = (case msg of
     None \<Rightarrow> (Inr (), sendC plain_msg c)
   | Some m \<Rightarrow> if cl_outputs c = None then (Inl AttributeError, c) else (Inr (), sendC (with_log m) (add_output m c)))"

definition heartbeat :: "string option \<Rightarrow> unit client_call" where
  "heartbeat msg = stopped (bindG consumeMessages (\<lambda>_ c. case cl_testId c of
     Some t \<Rightarrow> report msg (TestHeartbeat t) (TestLogOutput t) c
   | None \<Rightarrow> (case cl_deploymentId c of
       Some d \<Rightarrow> report msg (DeploymentHeartbeat d)
         (\<lambda>m. DeploymentTerminalOutput d (py_replace [newline] (CHR 0x0D # [newline]) m)) c
     | None \<Rightarrow> (Inl (UserException ''No active test or deployment''), c))))"

definition recordArtifactUploaded :: "string \<Rightarrow> unit client_call" where
  "recordArtifactUploaded artifact = stopped (bindG consumeMessages (\<lambda>_ c. case cl_testId c of
     None \<Rightarrow> (Inl (UserException ''No active test''), c)
   | Some t \<Rightarrow>
       if cl_artifacts c = None then (Inl AttributeError, c)
       else (Inr (), sendC (ArtifactUploaded t artifact)
         (c\<lparr>cl_artifacts := map_option (\<lambda>as. as @ [artifact]) (cl_artifacts c)\<rparr>))))"

definition terminalOutput :: "string \<Rightarrow> unit client_call" where
  "terminalOutput output c = (case cl_deploymentId c of
     None \<Rightarrow> (Inr (), c)
   | Some d \<Rightarrow>
       if cl_outputs c = None then (Inl AttributeError, c)
       else (Inr (), sendC (DeploymentTerminalOutput d output) (add_output output c)))"

text \<open>\<open>requestPermissionToHitGitRepo\<close> sends the request, and again every time it is polled after ten seconds; then
  it looks for the answer. \<open>Inr None\<close>: no answer yet.\<close>

definition current_id :: "client \<Rightarrow> oid option" where
  "current_id c = (case cl_testId c of Some t \<Rightarrow> Some t | None \<Rightarrow> cl_deploymentId c)"

definition request_permission :: "string \<Rightarrow> unit client_call" where
  "request_permission reqId c = (case current_id c of
     None \<Rightarrow> (Inl TypeError, c\<lparr>cl_permissions := (cl_permissions c)(reqId \<mapsto> [])\<rparr>)
   | Some i \<Rightarrow> (Inr (), sendC (RequestPermissionToHitGitRepo reqId i)
       (c\<lparr>cl_permissions := (cl_permissions c)(reqId \<mapsto> [])\<rparr>)))"

definition poll_permission :: "string \<Rightarrow> oid \<Rightarrow> bool \<Rightarrow> bool option client_call" where
  "poll_permission reqId curId late c0 =
     (let c = (if late then sendC (RequestPermissionToHitGitRepo reqId curId) c0 else c0)
      in case cl_permissions c reqId of
           Some (b # q) \<Rightarrow> (Inr (Some b), c\<lparr>cl_permissions := (cl_permissions c)(reqId \<mapsto> q)\<rparr>)
         | _ \<Rightarrow> if current_id c \<noteq> Some curId then (Inl (UserException ''Server canceled the test.''), c)
                else (Inr None, c))"

definition releaseGitRepoLock :: "string \<Rightarrow> client \<Rightarrow> client" where
  "releaseGitRepoLock reqId = sendC (GitRepoPullCompleted reqId)"

section \<open>Finishing\<close>

definition deploymentExitedEarly :: "unit client_call" where
  "deploymentExitedEarly c = (case cl_deploymentId c of
     None \<Rightarrow> (Inl AssertionError, c) | Some d \<Rightarrow> (Inr (), sendC (DeploymentExited d) c))"

text \<open>\<open>publishTestResult\<close> sends the result and then consumes messages until the test is gone.\<close>

definition start_publishing :: "bool \<Rightarrow> test_results \<Rightarrow> unit client_call" where
  "start_publishing success results c = (case cl_testId c of
     None \<Rightarrow> (Inl AssertionError, c)
   | Some t \<Rightarrow>
       let c1 = c\<lparr>cl_testResults := Some (success, results)\<rparr>
       in case listed (cl_artifacts c) of
            Inl e \<Rightarrow> (Inl e, c1)
          | Inr as \<Rightarrow> (Inr (), sendC (TestFinished t success results as) c1))"

section \<open>A deployment that is never forgotten\<close>

text \<open>The answer to \<open>DeploymentExited\<close> reaches a client that is waiting for work again, where it is dropped, so the
  deployment stays the client's. When a later test is canceled, the heartbeats go on for the old deployment
  and nothing stops the test.\<close>

lemma exited_deployment_hides_cancel:
  assumes "c1 = snd (checkout_message (DeploymentAssignment d def) (new_client m))"
    "c2 = snd (deploymentExitedEarly c1)"
    "c3 = snd (checkout_message (ShutdownDeployment d) c2)"
    "c4 = snd (checkout_message (TestAssignment t def') c3)"
    "heartbeat None (c4\<lparr>cl_inbox := [Some (CancelTest t)]\<rparr>) = (r, c5)"
  shows "r = Inr () \<and> cl_testId c5 = None \<and> last (cl_outbox c5) = DeploymentHeartbeat d"
  using assms
  by (auto simp: checkout_message_def deploymentExitedEarly_def new_client_def sendC_def heartbeat_def stopped_def
      bindG_def consumeMessages_def consume_message_def drop_test_def report_def)

text \<open>Without that deployment the heartbeat raises, and the test is given up.\<close>

lemma canceled_test_is_given_up:
  assumes "c4 = snd (checkout_message (TestAssignment t def') (new_client m))"
  shows "fst (heartbeat None (c4\<lparr>cl_inbox := [Some (CancelTest t)]\<rparr>)) = Inl (UserException ''No active test or deployment'')"
  using assms
  by (auto simp: checkout_message_def new_client_def heartbeat_def stopped_def
      bindG_def consumeMessages_def consume_message_def drop_test_def)

end
