(* ===== verification/Worker_Protocol.thy ===== *)
theory Worker_Protocol
  imports Worker_Client Call_Relations
begin

text \<open>
  A worker and the server on one connection: the client of \<open>Worker_Client\<close> driven by the main loop of
  \<^verbatim>\<open>worker/TestLooperWorker.py\<close>, the session of \<open>Worker_Session\<close>, and the two queues between them. The
  test manager may change at any time, because other sessions and the background tasks share it.
\<close>

section \<open>Connections\<close>

text \<open>\<open>Idle\<close>: in \<open>checkoutWork\<close>; \<open>Busy\<close>: in \<open>runTest\<close>, for a deployment or not; \<open>Publishing\<close>: in
  \<open>publishTestResult\<close>; \<open>Over\<close>: the main loop has ended with an exception, or the session has.\<close>

datatype phase = is_Idle: Idle | Busy bool | Publishing | Over

record 'm connection =
  co_phase :: phase
  co_client :: client
  co_server :: "'m server"

fun sends :: "session_action list \<Rightarrow> server_to_client list" where
  "sends [] = []"
| "sends (Send m # as) = m # sends as"
| "sends (Subscribe d # as) = sends as"

text \<open>What the test that is running does with the connection.\<close>

datatype worker_op =
    Beat "string option"
  | Artifact string
  | Terminal string
  | AskPermission string
  | PollPermission string oid bool
  | Release string
  | SubscribeInput nat

fun worker_call :: "worker_op \<Rightarrow> client \<Rightarrow> client" where
  "worker_call (Beat msg) c = snd (heartbeat msg c)"
| "worker_call (Artifact a) c = snd (recordArtifactUploaded a c)"
| "worker_call (Terminal out) c = snd (terminalOutput out c)"
| "worker_call (AskPermission r) c = snd (request_permission r c)"
| "worker_call (PollPermission r i late) c = snd (poll_permission r i late c)"
| "worker_call (Release r) c = releaseGitRepoLock r c"
| "worker_call (SubscribeInput l) c = subscribeToTerminalInput l c"

definition answered :: "'m setting \<Rightarrow> int \<Rightarrow> 'm connection \<Rightarrow> 'm connection" where
  "answered se now x = (case cl_outbox (co_client x) of
     [] \<Rightarrow> x
   | m # ms \<Rightarrow> (case session_step se (now, m) ((co_server x)\<lparr>sv_actions := []\<rparr>) of (r, v) \<Rightarrow>
       \<lparr>co_phase = (case r of Inl e \<Rightarrow> Over | Inr _ \<Rightarrow> co_phase x),
        co_client = fold read_message (sends (sv_actions v)) ((co_client x)\<lparr>cl_outbox := ms\<rparr>),
        co_server = v\<rparr>))"

definition connected :: "'m setting \<Rightarrow> string \<Rightarrow> int \<Rightarrow> heartbeat_handler \<Rightarrow> 'm mgr \<Rightarrow> 'm connection" where
  "connected se machineId now h s =
     \<lparr>co_phase = Idle, co_client = read_message IdentifyCurrentState (new_client machineId),
      co_server = \<lparr>sv_session = new_session now, sv_handler = h, sv_manager = s, sv_actions = []\<rparr>\<rparr>"

inductive connection_step :: "'m setting \<Rightarrow> 'm connection \<Rightarrow> 'm connection \<Rightarrow> bool" for se where
  poll: "co_phase x = Idle \<Longrightarrow> connection_step se x (x\<lparr>co_client := start_waiting (co_client x)\<rparr>)"
| take_work: "co_phase x = Idle \<Longrightarrow> checkout_next (co_client x) = (work, c) \<Longrightarrow>
    connection_step se x (x\<lparr>co_client := c,
      co_phase := (case work of None \<Rightarrow> Idle | Some (i, def, isDeploy) \<Rightarrow> Busy isDeploy)\<rparr>)"
| operate: "co_phase x = Busy b \<Longrightarrow> connection_step se x (x\<lparr>co_client := worker_call op (co_client x)\<rparr>)"
| publish: "co_phase x = Busy False \<Longrightarrow> start_publishing success results (co_client x) = (r, c) \<Longrightarrow>
    connection_step se x (x\<lparr>co_client := c, co_phase := (case r of Inl e \<Rightarrow> Over | Inr _ \<Rightarrow> Publishing)\<rparr>)"
| await: "co_phase x = Publishing \<Longrightarrow> consumeMessages (co_client x) = (r, c) \<Longrightarrow>
    connection_step se x (x\<lparr>co_client := c, co_phase :=
      (case r of Inl e \<Rightarrow> Over | Inr _ \<Rightarrow> if cl_testId c = None then Idle else Publishing)\<rparr>)"
| leave: "co_phase x = Busy True \<Longrightarrow> deploymentExitedEarly (co_client x) = (r, c) \<Longrightarrow>
    connection_step se x (x\<lparr>co_client := c, co_phase := (case r of Inl e \<Rightarrow> Over | Inr _ \<Rightarrow> Idle)\<rparr>)"
| fail: "connection_step se x (x\<lparr>co_phase := Over\<rparr>)"
| answer: "connection_step se x (answered se now x)"
| input_arrives: "onMessage se d msg ((co_server x)\<lparr>sv_actions := []\<rparr>) = (r, v) \<Longrightarrow>
    connection_step se x (x\<lparr>co_client := fold read_message (sends (sv_actions v)) (co_client x), co_server := v\<rparr>)"
| others: "connection_step se x (x\<lparr>co_server := (co_server x)\<lparr>sv_handler := h, sv_manager := s\<rparr>\<rparr>)"

inductive connection_reachable :: "'m setting \<Rightarrow> 'm connection \<Rightarrow> bool" for se where
  start: "connection_reachable se (connected se machineId now h s)"
| step: "connection_reachable se x \<Longrightarrow> connection_step se x y \<Longrightarrow> connection_reachable se y"

section \<open>What a session sends\<close>

fun is_assignment :: "server_to_client \<Rightarrow> bool" where
  "is_assignment (TestAssignment t def) = True"
| "is_assignment (DeploymentAssignment d def) = True"
| "is_assignment _ = False"

definition has_job :: "session \<Rightarrow> bool" where
  "has_job ss \<longleftrightarrow> ss_testId ss \<noteq> None \<or> ss_deploymentId ss \<noteq> None"

fun holds_job :: "session \<Rightarrow> server_to_client \<Rightarrow> bool" where
  "holds_job ss (TestAssignment t def) \<longleftrightarrow> ss_testId ss = Some t"
| "holds_job ss (DeploymentAssignment d def) \<longleftrightarrow> ss_deploymentId ss = Some d"
| "holds_job ss _ \<longleftrightarrow> True"

text \<open>The messages of a client that has nothing to do.\<close>

fun idle_message :: "client_to_server \<Rightarrow> bool" where
  "idle_message WaitingHeartbeat = True"
| "idle_message (CurrentState mid Waiting) = True"
| "idle_message _ = False"

definition no_work_sent :: "'m server \<Rightarrow> 'm server \<Rightarrow> bool" where
  "no_work_sent v v' \<longleftrightarrow> (\<exists>as. sv_actions v' = sv_actions v @ as \<and> (\<forall>m \<in> set (sends as). \<not> is_assignment m))"

lemma sends_append [simp]: "sends (as @ bs) = sends as @ sends bs"
  by (induction as rule: sends.induct) auto

interpretation no_work: call_relation no_work_sent
proof
  show "no_work_sent v v" for v :: "'m server" by (simp add: no_work_sent_def)
  show "no_work_sent v w" if "no_work_sent v u" "no_work_sent u w" for u v w :: "'m server"
    using that by (auto simp: no_work_sent_def)
qed

definition job_kept :: "'m server \<Rightarrow> 'm server \<Rightarrow> bool" where
  "job_kept v v' \<longleftrightarrow> no_work_sent v v' \<and> ss_testId (sv_session v') = ss_testId (sv_session v) \<and>
     ss_deploymentId (sv_session v') = ss_deploymentId (sv_session v)"

interpretation job: call_relation job_kept
  by unfold_locales (auto simp: job_kept_def intro: no_work.trans)

text \<open>The writes of a session, for both relations.\<close>

lemma manager_calls [intro]:
  "keepsR job_kept (managerN f)" "keepsR job_kept (managerR g)" "keepsR job_kept (managerC h)"
  "keepsR job_kept (managerH k)"
  by (auto simp: keepsR_def managerN_def managerR_def managerC_def managerH_def job_kept_def no_work_sent_def
      split: prod.split sum.split)

lemma sent_message: "\<not> is_assignment m \<Longrightarrow> keepsR job_kept (sendS se m)"
  by (auto simp: keepsR_def sendS_def job_kept_def no_work_sent_def)

lemma subscribed [intro]: "keepsR job_kept (subscribeS d)"
  by (auto simp: keepsR_def subscribeS_def modD_def job_kept_def no_work_sent_def)

lemma kept_no_work: "keepsR job_kept m \<Longrightarrow> keepsR no_work_sent m"
  by (simp add: keepsR_def job_kept_def)

lemma session_changed [intro]: "keepsR no_work_sent (sessionS f)"
  by (simp add: keepsR_def sessionS_def modD_def no_work_sent_def)

lemmas no_work_calls = manager_calls [THEN kept_no_work] subscribed [THEN kept_no_work]
  sent_message [THEN kept_no_work]

lemma only_waiting_gets_work:
  assumes "msg \<noteq> WaitingHeartbeat"
  shows "keepsR no_work_sent (session_step se (now, msg))"
proof -
  note parts = no_work.call_bind no_work.call_ret no_work.call_read session_changed no_work_calls
  have "keepsR no_work_sent (processMsg se now msg)"
  proof (cases msg)
    case (CurrentState mid st)
    then show ?thesis
      by (cases st) (auto simp: processMsg_def process_current_state_def intro!: parts)
  next
    case (RequestPermissionToHitGitRepo r cur)
    have "keepsR no_work_sent (if b then retG False else managerN f)" for b and f :: "'a mgr \<Rightarrow> bool \<times> 'a mgr"
      by (auto intro!: parts)
    with RequestPermissionToHitGitRepo show ?thesis
      unfolding processMsg_def process_permission_def by (auto intro!: parts)
  qed (use assms in \<open>auto simp: processMsg_def process_test_heartbeat_def process_deployment_message_def
      process_exited_def intro!: parts\<close>)
  then show ?thesis unfolding session_step_def by (auto intro!: parts)
qed

text \<open>An assignment is sent only when the session has no job, at most one, and then the session holds it. While it has
  a job, the messages of an idle client change no job and get no work.\<close>

definition offered :: "'m server \<Rightarrow> 'm server \<Rightarrow> bool" where
  "offered v v' \<longleftrightarrow> (\<exists>as. sv_actions v' = sv_actions v @ as \<and>
     (filter is_assignment (sends as) = [] \<or>
      (\<exists>m. filter is_assignment (sends as) = [m] \<and> holds_job (sv_session v') m \<and> has_job (sv_session v'))))"

lemma no_work_offered: "no_work_sent v v' \<Longrightarrow> offered v v'"
  by (auto simp: no_work_sent_def offered_def filter_empty_conv)

lemma offered_after: "no_work_sent u v \<Longrightarrow> offered v w \<Longrightarrow> offered u w"
  by (auto simp: no_work_sent_def offered_def filter_empty_conv)

lemma offered_later:
  assumes "offered v w" "job_kept w w'" shows "offered v w'"
proof -
  obtain bs where bs: "sv_actions w' = sv_actions w @ bs" "filter is_assignment (sends bs) = []"
    using assms(2) by (auto simp: job_kept_def no_work_sent_def filter_empty_conv)
  have "holds_job (sv_session w') m = holds_job (sv_session w) m" for m
    using assms(2) by (cases m) (auto simp: job_kept_def)
  moreover have "has_job (sv_session w') = has_job (sv_session w)" using assms(2) by (simp add: job_kept_def has_job_def)
  ultimately show ?thesis using assms(1) bs by (auto simp: offered_def)
qed

lemma keepsR_step: "keepsR R m \<Longrightarrow> m v = (r, v') \<Longrightarrow> R v v'"
  by (metis keepsR_def snd_conv)

lemma assign_offers:
  assumes "\<And>t. is_assignment (f t)" "\<And>t. holds_job (sv_session v) (f t)" "has_job (sv_session v)" "assign se f def v = (r, v')"
  shows "offered v v'"
  using assms by (auto simp: assign_def sendS_def offered_def liftG_def split: option.splits if_splits)

lemma offer_work_offers:
  assumes "offer_work se now mid v = (r, v')"
  shows "offered v v'"
proof -
  have k: "keepsR no_work_sent (managerR g)" "keepsR no_work_sent (managerC h)" for g and h :: "'a mgr \<Rightarrow> 'b res \<times> 'a mgr"
    using no_work_calls by blast+
  obtain r1 v1 where 1: "managerR (startNewDeployment (se_world se) mid now) v = (r1, v1)" by fastforce
  have n1: "no_work_sent v v1" by (rule keepsR_step [OF k(1) 1])
  show ?thesis
  proof (cases r1)
    case (Inl e)
    with assms 1 have "v' = v1" by (simp add: offer_work_def bindG_def)
    then show ?thesis using n1 no_work_offered by blast
  next
    case r1: (Inr dep)
    show ?thesis
    proof (cases dep)
      case (Some p)
      obtain d def where p: "p = (d, def)" by fastforce
      let ?v = "v1\<lparr>sv_session := (sv_session v1)\<lparr>ss_deploymentId := Some d\<rparr>\<rparr>"
      obtain r2 v2 where 2: "assign se (DeploymentAssignment d) def ?v = (r2, v2)" by fastforce
      have o: "offered v v2"
      proof (rule offered_after)
        show "no_work_sent v ?v" using n1 by (simp add: no_work_sent_def)
        show "offered ?v v2" by (rule assign_offers [OF _ _ _ 2]) (simp_all add: has_job_def)
      qed
      have "v' = v2 \<or> job_kept v2 v'"
        using assms 1 2 r1 Some p keepsR_step [OF subscribed, of d v2 r v']
        by (auto simp: offer_work_def bindG_def sessionS_def modD_def split: sum.splits)
      then show ?thesis using o offered_later by blast
    next
      case None
      obtain r2 v2 where 2: "managerC (startNewTest (se_world se) (se_depth se) mid now) v1 = (r2, v2)" by fastforce
      have n2: "no_work_sent v v2" using n1 keepsR_step [OF k(2) 2] no_work.trans by blast
      show ?thesis
      proof (cases "\<exists>t def. r2 = Inr (Some (t, def))")
        case True
        then obtain t def where r2: "r2 = Inr (Some (t, def))" by blast
        let ?v = "v2\<lparr>sv_session := (sv_session v2)\<lparr>ss_testId := Some t\<rparr>\<rparr>"
        have 3: "assign se (TestAssignment t) def ?v = (r, v')"
          using assms 1 2 r1 None r2 by (auto simp: offer_work_def bindG_def sessionS_def modD_def)
        show ?thesis
        proof (rule offered_after)
          show "no_work_sent v ?v" using n2 by (simp add: no_work_sent_def)
          show "offered ?v v'" by (rule assign_offers [OF _ _ _ 3]) (simp_all add: has_job_def)
        qed
      next
        case False
        then have "v' = v2"
          using assms 1 2 r1 None by (cases r2) (auto simp: offer_work_def bindG_def retG_def split: option.splits)
        then show ?thesis using n2 no_work_offered by blast
      qed
    qed
  qed
qed


lemma waiting_keeps_job:
  assumes "has_job (sv_session v)" "process_waiting se now v = (r, v')"
  shows "job_kept v v'"
proof (cases "ss_machineId (sv_session v)")
  case None
  with assms(2) show ?thesis by (simp add: process_waiting_def bindG_def readD_def retG_def job_kept_def no_work_sent_def)
next
  case (Some mid)
  have n: "\<not> (ss_deploymentId (sv_session v) = None \<and> ss_testId (sv_session v) = None)"
    using assms(1) by (auto simp: has_job_def)
  have "v' = v\<lparr>sv_manager := machineHeartbeat mid now '''' (sv_manager v)\<rparr>"
    using assms(2) Some n by (simp only: process_waiting_def bindG_def readD_def retG_def managerN_def option.case
        prod.case sum.case if_False prod.inject)
  then show ?thesis by (simp add: job_kept_def no_work_sent_def)
qed

lemma waiting_offers:
  assumes "process_waiting se now v = (r, v')"
  shows "offered v v'"
proof (cases "has_job (sv_session v)")
  case True
  then have "job_kept v v'" using assms waiting_keeps_job by blast
  then show ?thesis by (simp add: job_kept_def no_work_offered)
next
  case False
  show ?thesis
  proof (cases "ss_machineId (sv_session v)")
    case None
    with assms have "v' = v" by (simp add: process_waiting_def bindG_def readD_def retG_def)
    then show ?thesis by (simp add: offered_def)
  next
    case (Some mid)
    let ?v = "snd (managerN (\<lambda>s. ((), machineHeartbeat mid now '''' s)) v)"
    have "offer_work se now mid ?v = (r, v')"
      using assms False Some by (auto simp: process_waiting_def bindG_def readD_def managerN_def has_job_def)
    moreover have "no_work_sent v ?v" by (simp add: managerN_def no_work_sent_def)
    ultimately show ?thesis using offer_work_offers offered_after by blast
  qed
qed

lemma waiting_state_keeps_job:
  assumes "processMsg se now (CurrentState mid Waiting) v = (r, v')"
  shows "job_kept v v'"
proof -
  have "v' = v\<lparr>sv_session := (sv_session v)\<lparr>ss_machineId := Some mid\<rparr>,
      sv_manager := machineInitialized mid now (sv_manager v)\<rparr>"
    using assms by (simp add: processMsg_def process_current_state_def bindG_def sessionS_def modD_def managerN_def retG_def)
  then show ?thesis by (simp add: job_kept_def no_work_sent_def)
qed

lemma session_step_heard:
  assumes "session_step se (now, msg) v = (r, v')"
  obtains u where "job_kept v u" "processMsg se now msg u = (r, v')"
proof
  show "job_kept v (v\<lparr>sv_session := (sv_session v)\<lparr>ss_lastMessage := now\<rparr>\<rparr>)"
    by (simp add: job_kept_def no_work_sent_def)
  show "processMsg se now msg (v\<lparr>sv_session := (sv_session v)\<lparr>ss_lastMessage := now\<rparr>\<rparr>) = (r, v')"
    using assms by (simp add: session_step_def bindG_def sessionS_def modD_def)
qed

lemma idle_message_cases:
  assumes "idle_message msg" obtains "msg = WaitingHeartbeat" | mid where "msg = CurrentState mid Waiting"
  using assms by (cases msg rule: idle_message.cases) auto

lemma message_offers:
  assumes "session_step se (now, msg) v = (r, v')"
  shows "offered v v'"
proof (cases "msg = WaitingHeartbeat")
  case True
  from session_step_heard [OF assms] obtain u where "job_kept v u" "process_waiting se now u = (r, v')"
    by (auto simp: True processMsg_def)
  then show ?thesis using waiting_offers offered_after job_kept_def by blast
next
  case False
  then show ?thesis using keepsR_step [OF only_waiting_gets_work assms] no_work_offered by blast
qed

lemma idle_message_keeps_job:
  assumes "idle_message msg" "has_job (sv_session v)" "session_step se (now, msg) v = (r, v')"
  shows "job_kept v v'"
proof -
  obtain u where u: "job_kept v u" "processMsg se now msg u = (r, v')" using session_step_heard [OF assms(3)] .
  have "has_job (sv_session u)" using u(1) assms(2) by (simp add: job_kept_def has_job_def)
  with u(2) have "job_kept u v'"
    by (cases rule: idle_message_cases [OF assms(1)]) (auto simp: processMsg_def waiting_keeps_job intro: waiting_state_keeps_job)
  with u(1) show ?thesis using job.trans by blast
qed

section \<open>No assignment is lost\<close>

fun queued_work :: "server_to_client option list \<Rightarrow> server_to_client list" where
  "queued_work [] = []"
| "queued_work (None # ms) = queued_work ms"
| "queued_work (Some m # ms) = (if is_assignment m then m # queued_work ms else queued_work ms)"

lemma queued_work_append [simp]: "queued_work (xs @ ys) = queued_work xs @ queued_work ys"
  by (induction xs rule: queued_work.induct) auto

lemma read_message_frame [simp]:
  "cl_outbox (read_message m c) = cl_outbox c"
  "queued_work (cl_inbox (read_message m c)) = queued_work (cl_inbox c) @ filter is_assignment [m]"
  by (auto simp: read_message_def split: server_to_client.split option.split subscription.split)

lemma read_messages_frame [simp]:
  "cl_outbox (fold read_message ms c) = cl_outbox c"
  "queued_work (cl_inbox (fold read_message ms c)) = queued_work (cl_inbox c) @ filter is_assignment ms"
  by (induction ms arbitrary: c) auto

text \<open>A client that works asks for no work; an identification may still say that it waits.\<close>

abbreviation working_message :: "client_to_server \<Rightarrow> bool" where
  "working_message m \<equiv> m \<noteq> WaitingHeartbeat"

definition busy_call :: "client \<Rightarrow> client \<Rightarrow> bool" where
  "busy_call c c' \<longleftrightarrow> (queued_work (cl_inbox c) = [] \<longrightarrow> queued_work (cl_inbox c') = []) \<and>
     (\<exists>ms. cl_outbox c' = cl_outbox c @ ms \<and> list_all working_message ms)"

interpretation busy: call_relation busy_call
proof
  show "busy_call c c" for c by (simp add: busy_call_def)
  show "busy_call c e" if "busy_call c d" "busy_call d e" for c d e using that by (auto simp: busy_call_def)
qed

lemma busy_sends [intro]: "working_message m \<Longrightarrow> busy_call c (sendC m c)"
  by (simp add: busy_call_def sendC_def)

lemma busy_same: "cl_inbox c' = cl_inbox c \<Longrightarrow> cl_outbox c' = cl_outbox c \<Longrightarrow> busy_call c c'"
  by (simp add: busy_call_def)

lemma busy_consumes_one: "consume_message m c = (r, c') \<Longrightarrow> busy_call c c' \<and> cl_inbox c' = cl_inbox c"
  by (auto simp: consume_message_def busy_call_def sendC_def drop_test_def
      split: server_to_client.splits sum.splits option.splits if_splits)

lemma busy_consumes_all:
  "consume_all ms c = (r, c') \<Longrightarrow> (queued_work ms = [] \<longrightarrow> queued_work (cl_inbox c') = []) \<and>
    (\<exists>out. cl_outbox c' = cl_outbox c @ out \<and> list_all working_message out)"
proof (induction ms c arbitrary: c' rule: consume_all.induct)
  case (3 m rest c)
  obtain r1 c1 where 1: "consume_message m c = (r1, c1)" by fastforce
  from busy_consumes_one [OF 1] obtain out where out: "cl_outbox c1 = cl_outbox c @ out" "list_all working_message out"
    by (auto simp: busy_call_def)
  have q: "queued_work (Some m # rest) = [] \<longrightarrow> queued_work rest = []" by simp
  show ?case
  proof (cases r1)
    case (Inl e)
    with 3(2) 1 have "cl_outbox c' = cl_outbox c1" "cl_inbox c' = rest" by auto
    with out q show ?thesis by simp
  next
    case (Inr u)
    with 3(2) 1 have "consume_all rest c1 = (r, c')" by simp
    from 3(1) [OF 1 [symmetric] Inr this] obtain out' where
      "cl_outbox c' = cl_outbox c1 @ out'" "list_all working_message out'" "queued_work rest = [] \<longrightarrow> queued_work (cl_inbox c') = []"
      by blast
    with out q have "queued_work (Some m # rest) = [] \<longrightarrow> queued_work (cl_inbox c') = []"
      "cl_outbox c' = cl_outbox c @ (out @ out')" "list_all working_message (out @ out')" by simp_all
    then show ?thesis by blast
  qed
qed auto

lemma busy_consumes [intro]: "keepsR busy_call consumeMessages"
  unfolding keepsR_def
proof
  show "busy_call c (snd (consumeMessages c))" for c
    using busy_consumes_all [of "cl_inbox c" c]
    by (cases "consumeMessages c") (auto simp: consumeMessages_def busy_call_def split: if_splits)
qed

lemma busy_output [simp]: "busy_call c (add_output m c)"
  by (rule busy_same) (simp_all add: add_output_def)

lemma busy_report: "working_message p \<Longrightarrow> (\<And>m. working_message (f m)) \<Longrightarrow> keepsR busy_call (report msg p f)"
  using busy.trans [OF busy_output busy_sends]
  by (auto simp: keepsR_def report_def split: option.split)

lemma busy_stopped: "keepsR busy_call m \<Longrightarrow> keepsR busy_call (stopped m)"
  by (simp add: keepsR_def stopped_def)

lemma busy_heartbeat: "keepsR busy_call (heartbeat msg)"
proof -
  have "keepsR busy_call (\<lambda>c. case cl_testId c of
     Some t \<Rightarrow> report msg (TestHeartbeat t) (TestLogOutput t) c
   | None \<Rightarrow> (case cl_deploymentId c of
       Some d \<Rightarrow> report msg (DeploymentHeartbeat d)
         (\<lambda>m. DeploymentTerminalOutput d (py_replace [newline] (CHR 0x0D # [newline]) m)) c
     | None \<Rightarrow> (Inl (UserException ''No active test or deployment''), c)))"
    using busy_report unfolding keepsR_def by (simp split: option.split)
  then show ?thesis unfolding heartbeat_def by (intro busy_stopped busy.call_bind busy_consumes)
qed

lemma busy_artifact: "keepsR busy_call (recordArtifactUploaded a)"
proof -
  have "keepsR busy_call (\<lambda>c. case cl_testId c of
     None \<Rightarrow> (Inl (UserException ''No active test''), c)
   | Some t \<Rightarrow>
       if cl_artifacts c = None then (Inl AttributeError, c)
       else (Inr (), sendC (ArtifactUploaded t a)
         (c\<lparr>cl_artifacts := map_option (\<lambda>as. as @ [a]) (cl_artifacts c)\<rparr>)))"
    unfolding keepsR_def by (auto simp: busy_call_def sendC_def split: option.split)
  then show ?thesis unfolding recordArtifactUploaded_def by (intro busy_stopped busy.call_bind busy_consumes)
qed

lemma busy_worker_call: "busy_call c (worker_call op c)"
proof (cases op)
  case (Beat msg)
  then show ?thesis using busy_heartbeat [of msg] by (simp add: keepsR_def)
next
  case (Artifact a)
  then show ?thesis using busy_artifact [of a] by (simp add: keepsR_def)
next
  case (PollPermission r i late)
  then show ?thesis
    by (auto simp: poll_permission_def Let_def busy_call_def sendC_def split: option.split list.split)
qed (auto simp: terminalOutput_def add_output_def request_permission_def releaseGitRepoLock_def
    subscribeToTerminalInput_def busy_call_def sendC_def split: option.split)

lemma busy_publishing: "start_publishing success results c = (r, c') \<Longrightarrow> busy_call c c'"
  by (auto simp: start_publishing_def Let_def busy_call_def sendC_def listed_def split: option.splits)

lemma busy_leaving: "deploymentExitedEarly c = (r, c') \<Longrightarrow> busy_call c c'"
  by (auto simp: deploymentExitedEarly_def busy_call_def sendC_def split: option.splits)

lemma checkout_takes:
  assumes "checkout_next c = (work, c')"
  shows "work = None \<Longrightarrow> queued_work (cl_inbox c') = queued_work (cl_inbox c) \<and>
      (\<exists>ms. cl_outbox c' = cl_outbox c @ ms \<and> list_all idle_message ms)"
    "work = Some j \<Longrightarrow> cl_outbox c' = cl_outbox c \<and> (\<exists>m. queued_work (cl_inbox c) = m # queued_work (cl_inbox c'))"
  using assms by (auto simp: checkout_next_def checkout_message_def sendC_def
      split: list.splits option.splits server_to_client.splits)

text \<open>The messages on their way to the server, by what the client does and whether the session has a job: first what it
  sent when it last waited, then what it sent while it worked, then what it sends now that it waits again.\<close>

definition in_step :: "'m connection \<Rightarrow> bool" where
  "in_step x = (let out = cl_outbox (co_client x); q = queued_work (cl_inbox (co_client x));
       ss = sv_session (co_server x)
     in case co_phase x of
       Over \<Rightarrow> True
     | Idle \<Rightarrow> (case q of
           [] \<Rightarrow> list_all idle_message (dropWhile working_message
                   (if has_job ss then dropWhile idle_message out else out))
         | [m] \<Rightarrow> has_job ss \<and> holds_job ss m \<and> list_all idle_message out
         | _ \<Rightarrow> False)
     | _ \<Rightarrow> q = [] \<and> list_all working_message (if has_job ss then dropWhile idle_message out else out))"

lemma dropWhile_append_all: "list_all Q (dropWhile P xs) \<Longrightarrow> list_all Q ys \<Longrightarrow> list_all Q (dropWhile P (xs @ ys))"
proof (induction xs)
  case Nil
  then show ?case by (metis append_Nil list_all_append takeWhile_dropWhile_id)
qed (auto split: if_splits)

lemma dropWhile_all: "list_all P xs \<Longrightarrow> dropWhile P xs = []"
  by (simp add: list_all_iff)

lemma list_all_dropWhile: "list_all Q xs \<Longrightarrow> list_all Q (dropWhile P xs)"
  by (metis list_all_append takeWhile_dropWhile_id)

lemma waiting_is_idle: "\<not> working_message m \<Longrightarrow> idle_message m"
  by simp

lemma idle_prefix:
  assumes "list_all idle_message (dropWhile working_message out)"
  shows "list_all idle_message (dropWhile working_message (dropWhile idle_message out))"
  using assms
proof (induction out)
  case (Cons m out)
  show ?case
  proof (cases "working_message m")
    case True
    with Cons show ?thesis by simp
  next
    case False
    with Cons.prems show ?thesis by (simp add: dropWhile_all)
  qed
qed simp

lemma busy_in_step:
  assumes "in_step x" "co_phase x = Busy b \<or> co_phase x = Publishing" "busy_call (co_client x) c" "ph \<noteq> Over"
  shows "in_step (x\<lparr>co_client := c, co_phase := ph\<rparr>)"
proof -
  let ?j = "has_job (sv_session (co_server x))"
  let ?cut = "\<lambda>out. if ?j then dropWhile idle_message out else out"
  from assms(3) obtain ms where ms: "cl_outbox c = cl_outbox (co_client x) @ ms" "list_all working_message ms"
    by (auto simp: busy_call_def)
  from assms(1,2) have i: "queued_work (cl_inbox (co_client x)) = []" "list_all working_message (?cut (cl_outbox (co_client x)))"
    by (auto simp: in_step_def Let_def)
  then have q: "queued_work (cl_inbox c) = []" using assms(3) by (simp add: busy_call_def)
  have w: "list_all working_message (?cut (cl_outbox c))"
    using i(2) ms dropWhile_append_all by (auto split: if_splits)
  then have "list_all idle_message (dropWhile working_message (?cut (cl_outbox c)))" by (simp only: dropWhile_all [OF w] list.pred_inject)
  with q w assms(4) show ?thesis by (cases ph) (auto simp: in_step_def Let_def)
qed

lemma idle_in_step:
  assumes "in_step x" "co_phase x = Idle" "queued_work (cl_inbox c) = queued_work (cl_inbox (co_client x))"
    "cl_outbox c = cl_outbox (co_client x) @ ms" "list_all idle_message ms"
  shows "in_step (x\<lparr>co_client := c\<rparr>)"
proof -
  have "list_all idle_message (dropWhile working_message (dropWhile idle_message (out @ ms)))"
    if "list_all idle_message (dropWhile working_message (dropWhile idle_message out))" for out
    using that assms(5)
    by (induction out) (auto simp: dropWhile_all intro: dropWhile_append_all split: if_splits)
  with assms show ?thesis
    by (auto simp: in_step_def Let_def intro: dropWhile_append_all split: list.split if_splits)
qed


lemma answered_in_step:
  assumes "in_step x"
  shows "in_step (answered se now x)"
proof (cases "cl_outbox (co_client x)")
  case Nil
  with assms show ?thesis by (simp add: answered_def)
next
  case (Cons m ms)
  let ?v = "(co_server x)\<lparr>sv_actions := []\<rparr>"
  obtain r v where 1: "session_step se (now, m) ?v = (r, v)" by fastforce
  let ?x = "answered se now x" and ?q = "queued_work (cl_inbox (co_client x))"
  let ?new = "filter is_assignment (sends (sv_actions v))"
  have x: "co_phase ?x = (case r of Inl e \<Rightarrow> Over | Inr _ \<Rightarrow> co_phase x)" "cl_outbox (co_client ?x) = ms"
    "queued_work (cl_inbox (co_client ?x)) = ?q @ ?new" "co_server ?x = v"
    by (simp_all add: answered_def Cons 1)
  have offer: "?new = [] \<or> (\<exists>a. ?new = [a] \<and> holds_job (sv_session v) a \<and> has_job (sv_session v))"
    using message_offers [OF 1] by (simp add: offered_def)
  have none: "?new = []" if "working_message m"
    using keepsR_step [OF only_waiting_gets_work [OF that] 1] by (auto simp: no_work_sent_def filter_empty_conv)
  have kept: "job_kept ?v v" if "idle_message m" "has_job (sv_session (co_server x))"
    using idle_message_keeps_job [OF that(1) _ 1] that(2) by simp
  have keeps: "has_job (sv_session v)" "\<And>a. holds_job (sv_session v) a = holds_job (sv_session (co_server x)) a" "?new = []"
    if "job_kept ?v v" "has_job (sv_session (co_server x))"
  proof -
    show "has_job (sv_session v)" using that by (simp add: job_kept_def has_job_def)
    show "holds_job (sv_session v) a = holds_job (sv_session (co_server x)) a" for a
      using that(1) by (cases a) (auto simp: job_kept_def)
    show "?new = []" using that(1) by (auto simp: job_kept_def no_work_sent_def filter_empty_conv)
  qed
  show ?thesis
  proof (cases "co_phase ?x = Over")
    case True
    then show ?thesis by (simp add: in_step_def)
  next
    case False
    then have ph: "co_phase ?x = co_phase x" using x(1) by (cases r) auto
    show ?thesis
    proof (cases "has_job (sv_session (co_server x)) \<and> idle_message m")
      case True
      note k = keeps [OF kept]
      from True have k: "has_job (sv_session v)" "\<And>a. holds_job (sv_session v) a = holds_job (sv_session (co_server x)) a"
        "?new = []" using k by blast+
      from assms True show ?thesis
        unfolding in_step_def Let_def ph x k by (cases "co_phase x") (auto simp: Cons k(1) split: list.splits)
    next
      case F: False
      show ?thesis
      proof (cases "working_message m")
        case True
        from assms F show ?thesis
          unfolding in_step_def Let_def ph x none [OF True]
          by (cases "co_phase x") (auto simp: Cons True list_all_dropWhile idle_prefix dropWhile_all split: list.splits if_splits)
      next
        case idle: False
        with F have n: "\<not> has_job (sv_session (co_server x))" by auto
        from assms n idle False have s: "co_phase x = Idle" "?q = []" "list_all idle_message ms"
          by (auto simp: in_step_def Let_def Cons ph split: phase.splits list.splits)
        from offer s show ?thesis
          unfolding in_step_def Let_def ph x by (auto simp: list_all_dropWhile)
      qed
    qed
  qed
qed

lemma step_in_step: "connection_step se x y \<Longrightarrow> in_step x \<Longrightarrow> in_step y"
proof (induction rule: connection_step.induct)
  case (poll x)
  show ?case
    by (rule idle_in_step [OF poll.prems poll.hyps, where ms = "[WaitingHeartbeat]"]) (simp_all add: start_waiting_def sendC_def)
next
  case (take_work x work c)
  show ?case
  proof (cases work)
    case None
    from checkout_takes(1) [OF take_work.hyps(2) None] obtain ms where
      "queued_work (cl_inbox c) = queued_work (cl_inbox (co_client x))"
      "cl_outbox c = cl_outbox (co_client x) @ ms" "list_all idle_message ms" by blast
    from idle_in_step [OF take_work.prems take_work.hyps(1) this] None take_work.hyps(1) show ?thesis by (simp add: in_step_def)
  next
    case (Some j)
    obtain i def b where j: "j = (i, def, b)" using prod_cases3 by blast
    from checkout_takes(2) [OF take_work.hyps(2) Some] obtain m where
      m: "cl_outbox c = cl_outbox (co_client x)" "queued_work (cl_inbox (co_client x)) = m # queued_work (cl_inbox c)" by blast
    then have "queued_work (cl_inbox c) = []" "list_all idle_message (cl_outbox c)" "has_job (sv_session (co_server x))"
      using take_work.prems take_work.hyps(1) by (auto simp: in_step_def Let_def split: list.splits)
    then show ?thesis by (simp add: in_step_def Let_def Some j dropWhile_all)
  qed
next
  case (operate x b op)
  have "in_step (x\<lparr>co_client := worker_call op (co_client x), co_phase := co_phase x\<rparr>)"
    by (rule busy_in_step [OF operate.prems _ busy_worker_call]) (simp_all add: operate.hyps)
  then show ?case by (simp add: in_step_def)
next
  case (publish x success results r c)
  show ?case
  proof (cases r)
    case (Inr u)
    with busy_in_step [OF publish.prems _ busy_publishing [OF publish.hyps(2)], of False Publishing] publish.hyps(1)
    show ?thesis by simp
  qed (simp add: in_step_def)
next
  case (await x r c)
  have "busy_call (co_client x) c" by (rule keepsR_step [OF busy_consumes await.hyps(2)])
  note s = busy_in_step [OF await.prems _ this]
  show ?case
  proof (cases r)
    case (Inr u)
    with s [of False Idle] s [of False Publishing] await.hyps(1) show ?thesis by (cases "cl_testId c = None") simp_all
  qed (simp add: in_step_def)
next
  case (leave x r c)
  show ?case
  proof (cases r)
    case (Inr u)
    with busy_in_step [OF leave.prems _ busy_leaving [OF leave.hyps(2)], of True Idle] leave.hyps(1) show ?thesis by simp
  qed (simp add: in_step_def)
next
  case (answer x now)
  then show ?case by (simp add: answered_in_step)
next
  case (input_arrives d msg x r v)
  have "keepsR job_kept (onMessage se d msg)"
    by (auto simp: onMessage_def keepsR_def bindG_def readD_def retG_def sendS_def job_kept_def no_work_sent_def)
  then have k: "job_kept ((co_server x)\<lparr>sv_actions := []\<rparr>) v" using input_arrives.hyps by (rule keepsR_step)
  then have "filter is_assignment (sends (sv_actions v)) = []" "has_job (sv_session v) = has_job (sv_session (co_server x))"
    by (auto simp: job_kept_def no_work_sent_def filter_empty_conv has_job_def)
  moreover have "holds_job (sv_session v) m = holds_job (sv_session (co_server x)) m" for m
    using k by (cases m) (auto simp: job_kept_def)
  ultimately show ?case using input_arrives.prems by (auto simp: in_step_def Let_def split: phase.splits list.splits)
qed (simp_all add: in_step_def)

lemma reachable_in_step: "connection_reachable se x \<Longrightarrow> in_step x"
proof (induction rule: connection_reachable.induct)
  case (start machineId now h s)
  show ?case by (simp add: connected_def in_step_def read_message_def new_client_def)
qed (rule step_in_step)

text \<open>A machine, and a deployment that waits for one.\<close>

definition demo_work :: "nat mgr" where
  "demo_work = snd (new_deployment (default_deployment\<lparr>de_test := 1, de_isAlive := True\<rparr>)
     (snd (new_commit_test (default_commit_test\<lparr>ct_commit := 2, ct_test := 1\<rparr>)
     (snd (new_commit (default_commit\<lparr>cm_data := Some 9\<rparr>)
     (snd (new_test default_test
     (snd (new_machine (default_machine\<lparr>ma_machineId := ''m'', ma_hardware := \<lparr>cores = 2, ram_gb = 8\<rparr>, ma_isAlive := True\<rparr>)
       (new_manager 0 0))))))))))"

definition demo_setting :: "nat setting" where
  "demo_setting = \<lparr>se_world = demo_world\<lparr>w_definitions := (\<lambda>r c. Resolved [('''', demo_user)] [])\<rparr>, se_depth = 3,
     se_accepts = (\<lambda>l m. True), se_render = (\<lambda>m. ''''), se_link = (\<lambda>m. True)\<rparr>"

text \<open>A client that identifies itself and asks for work, and a deployment that waits for its machine.\<close>

definition demo_waiting :: "nat connection" where
  "demo_waiting =
     (let x = connected demo_setting ''m'' 0 new_handler demo_work;
          x1 = answered demo_setting 1 (x\<lparr>co_client := snd (checkout_next (co_client x)), co_phase := Idle\<rparr>)
      in x1\<lparr>co_client := start_waiting (co_client x1)\<rparr>)"

lemma demo_waiting_reachable: "connection_reachable demo_setting demo_waiting"
proof -
  let ?x = "connected demo_setting ''m'' 0 new_handler demo_work"
  let ?y = "?x\<lparr>co_client := snd (checkout_next (co_client ?x)), co_phase := Idle\<rparr>"
  have "checkout_next (co_client ?x) = (None, snd (checkout_next (co_client ?x)))" and "co_phase ?x = Idle"
    by (simp_all add: connected_def read_message_def new_client_def checkout_next_def checkout_message_def)
  from connection_step.take_work [OF this(2,1)] have "connection_step demo_setting ?x ?y" by simp
  then have "connection_reachable demo_setting ?y" using connection_reachable.intros by blast
  then have 1: "connection_reachable demo_setting (answered demo_setting 1 ?y)"
    using connection_reachable.step connection_step.answer by blast
  have "is_Idle (co_phase (answered demo_setting 1 ?y))" by code_simp
  then have "connection_step demo_setting (answered demo_setting 1 ?y) demo_waiting"
    unfolding demo_waiting_def Let_def is_Idle_def by (rule connection_step.poll)
  with 1 show ?thesis by (rule connection_reachable.step)
qed

text \<open>C6: Work is never lost between the server and a worker on one connection: whatever other sessions and the background
  tasks do to the test manager, an assignment is on its way to a client only while the client waits for work, never to one
  that is busy and would drop it; there is never a second one; and the session holds the assigned job as its own.\<close>

theorem assignments_meet_waiting_clients:
  assumes "connection_reachable se x" "co_phase x \<noteq> Over"
  shows "queued_work (cl_inbox (co_client x)) = [] \<or>
    (\<exists>m. queued_work (cl_inbox (co_client x)) = [m] \<and> co_phase x = Idle \<and> holds_job (sv_session (co_server x)) m)"
  using reachable_in_step [OF assms(1)] assms(2)
  by (auto simp: in_step_def Let_def split: phase.splits list.splits)

theorem assignments_meet_waiting_clients_witness:
  "\<exists>def. queued_work (cl_inbox (co_client (answered demo_setting 2 demo_waiting))) = [DeploymentAssignment 4 def] \<and>
    co_phase (answered demo_setting 2 demo_waiting) = Idle \<and>
    ss_deploymentId (sv_session (co_server (answered demo_setting 2 demo_waiting))) = Some 4"
proof -
  let ?x = "answered demo_setting 2 demo_waiting"
  have r: "connection_reachable demo_setting ?x"
    using demo_waiting_reachable connection_reachable.step connection_step.answer by blast
  have "is_Idle (co_phase ?x)" by code_simp
  then have "co_phase ?x \<noteq> Over" by (cases "co_phase ?x") simp_all
  note m = assignments_meet_waiting_clients [OF r this]
  have q: "case queued_work (cl_inbox (co_client ?x)) of [DeploymentAssignment d def] \<Rightarrow> d = 4 | _ \<Rightarrow> False" by code_simp
  then obtain def where "queued_work (cl_inbox (co_client ?x)) = [DeploymentAssignment 4 def]"
    by (auto split: list.splits server_to_client.splits)
  with m show ?thesis by auto
qed

end
