(* ===== verification/Spec2Isabelle.thy ===== *)
theory Spec2Isabelle
  imports Algebraic Algebraic_Json Bitstring_Packing Branch_Pinning Branch_Updates Call_Relations Commit_Graph Commit_Intake Commit_Names Commit_Priority Commit_Walks Database_Isolation Definition_Resolver Git_Locks Graph_Util Indexed_Table Intake_Invariants Log_Handling Machine_Lifecycle Machine_Management Macro_Expansion Manager_Core Manager_Repair Manager_State Manager_World Object_Database Prelude Py_Fnmatch Py_Regex Py_String Resolver_Monad Resolver_Properties Resolver_Rules Resolver_Types Run_Invariants Socket_Framing Table_Refinement Task_Queue Test_Definition Test_Priority Test_Runs Test_Script Variable_Substitution Worker_Client Worker_Protocol Worker_Session
begin

text \<open>
  A model of the core of test-looper, a continuous integration server. The server watches git
  repositories, reads the test definitions of every commit, decides which tests should run, boots
  machines for them, hands the tests out to the workers on those machines and collects the results.

  \<^bold>\<open>Parts and interaction\<close>

  All state lives in a versioned object store (\<^verbatim>\<open>core/object_database.py\<close>), which the test manager
  (\<^verbatim>\<open>data_model/TestManager.py\<close>) reads and writes in transactions. Its background tasks form a queue in
  the store. A task may look at git and learn of branches and commits, read the definitions of a commit
  through the definition resolver (\<^verbatim>\<open>data_model/TestDefinitionResolver.py\<close>, which parses files with
  \<^verbatim>\<open>data_model/TestDefinitionScript.py\<close> and inherits environments with \<^verbatim>\<open>data_model/TestDefinition.py\<close>
  and \<^verbatim>\<open>data_model/VariableSubstitution.py\<close>), create tests, recompute the priorities of commits and tests,
  update pins between repositories (\<^verbatim>\<open>data_model/BranchPinning.py\<close>), and boot machines through a machine
  management (\<^verbatim>\<open>core/machine_management/MachineManagement.py\<close>). Everything that is stored or sent is a
  typed union (\<^verbatim>\<open>core/algebraic.py\<close>) encoded as JSON (\<^verbatim>\<open>core/algebraic_to_json.py\<close>).

  \<^bold>\<open>Theories\<close>

  \<^item> \<open>Prelude\<close>, \<open>Py_String\<close>, \<open>Py_Fnmatch\<close>, \<open>Py_Regex\<close>: exceptions as values (\<open>res\<close>, \<open>bindR\<close>, \<open>foldR\<close>),
    association lists for dicts, and the parts of Python's standard library that the source uses.
  \<^item> \<open>Graph_Util\<close>, \<open>Bitstring_Packing\<close>: the helpers of \<^verbatim>\<open>core/\<close> with the same names.
  \<^item> \<open>Algebraic\<close>, \<open>Algebraic_Json\<close>: declaring, coercing and building instances of typed unions; the encoder
    and decoder, with the round trip and the typing of whatever is decoded.
  \<^item> \<open>Object_Database\<close>, \<open>Database_Isolation\<close>: the versions, views, commits, conflicts, cache and cleanup
    of the store; snapshot isolation and first-committer-wins over all interleavings of views.
    \<open>Indexed_Table\<close>, \<open>Table_Refinement\<close>: objects with indices inside a transaction (locale
    \<open>indexed_type\<close>, interpreted for every object type), as a refinement of a plain map.
  \<^item> \<open>Variable_Substitution\<close>, \<open>Test_Definition\<close>, \<open>Macro_Expansion\<close>, \<open>Test_Script\<close>, \<open>Resolver_Rules\<close>,
    \<open>Resolver_Monad\<close>, \<open>Definition_Resolver\<close>, \<open>Resolver_Types\<close>, \<open>Resolver_Properties\<close>: from the text of a
    file to the tests of a commit. The resolver's calls are in a state monad over its five caches
    with an outer \<open>option\<close> for calls that do not return.
  \<^item> \<open>Manager_State\<close>, \<open>Manager_Core\<close>, \<open>Manager_World\<close>: the object types and indices of
    \<^verbatim>\<open>data_model/Types.py\<close>, the state of the test manager and its access functions, and what it calls outside.
  \<^item> \<open>Task_Queue\<close>, \<open>Commit_Graph\<close>, \<open>Commit_Walks\<close>, \<open>Commit_Names\<close>, \<open>Commit_Priority\<close>,
    \<open>Machine_Lifecycle\<close>, \<open>Machine_Management\<close>, \<open>Test_Priority\<close>, \<open>Manager_Repair\<close>, \<open>Test_Runs\<close>,
    \<open>Run_Invariants\<close>, \<open>Git_Locks\<close>, \<open>Log_Handling\<close>: the test manager, one theory per concern; a method of
    the code is the definition of the same name.
  \<^item> \<open>Branch_Pinning\<close>, \<open>Commit_Intake\<close>, \<open>Branch_Updates\<close>: pins, commits and branches, up to \<open>processTask\<close>,
    which runs every kind of background task on the whole state, and \<open>background_work\<close>.
    \<open>Call_Relations\<close> proves once, in a locale, that each of these operations stays in any relation that
    contains their elementary writes; \<open>Intake_Invariants\<close> interprets it twice.
  \<^item> \<open>Worker_Session\<close>, \<open>Worker_Client\<close>, \<open>Worker_Protocol\<close>: the messages between the server and the workers, the
    session with which the server answers them (\<^verbatim>\<open>server/TestLooperServer.py\<close>), the client and main loop of a
    worker (\<^verbatim>\<open>worker/TestLooperClient.py\<close>, \<^verbatim>\<open>worker/TestLooperWorker.py\<close>), and both with the queues between
    them as a step relation, in which everything else may change the test manager between two steps.
    \<open>Socket_Framing\<close>: strings on a stream of packets.

  \<^bold>\<open>Conventions\<close>

  A call that raises is \<open>Inl\<close> of the exception. Where the code rolls a transaction back, a raising
  operation has no state; where it catches the exception inside a transaction, the operation is a
  \<open>git_call\<close>, which returns a state in both cases. Objects are identities in tables; a null object is \<open>None\<close>,
  and reading a field of a missing row gives the defaults. A dict is an association list in iteration order, or
  a map where it is only looked up. Timestamps are integers, hashes are parameters.

  \<^bold>\<open>Bounds and fuel\<close>

  Recursive methods take the levels of recursion that the interpreter has left and raise
  \<open>RecursionError\<close> (or give \<open>None\<close>) without any. The theorems say what is enough: the number of nodes for the
  graph searches, the number of machines alive for terminations
  (\<open>terminating_a_machine_succeeds\<close>), twice the size of a document for macros (\<open>expansion_ends\<close>), 128
  files for includes (\<open>includes_bounded\<close>). The loop that marks the commits of a branch has the number of
  identities ever given out as fuel, since it visits a commit once. Loops that may not end are
  \<open>partial_function (option)\<close>, and returning is proved (\<open>commitsToDisplay_correct\<close>) or refuted
  (\<open>repeated_substitution_may_not_return\<close>).

  \<^bold>\<open>What the lemmas show\<close>

  The store: isolation, conflicts, refinement of maps. Definitions: linear inheritance, levels of variables,
  the cross product of macros, closed sets of enabled tests, results free of unresolved references. The
  manager: no background task is lost and the commit graph stays consistent whatever the tasks do;
  machines are counted exactly and terminated safely; work is never sent to a worker that is busy; tests run exactly when they are ready, highest
  priority first; the counters of runs are exact; locks are bounded; subscribers receive everything. Some
  theorems state the surprising behaviour of the code where it deviates from its comments or its
  evident intention; these are listed as findings in the manifest.

  \<^bold>\<open>Not modelled\<close>

  \<^verbatim>\<open>core/SubprocessingModified.py\<close> is a copy of Python's \<open>subprocess\<close>. What a worker does with a test
  (\<^verbatim>\<open>worker/WorkerState.py\<close>), the web pages (\<^verbatim>\<open>server/TestLooperHttpServer.py\<close>, \<^verbatim>\<open>server/HtmlGeneration.py\<close>) and the wrappers of git, docker and the cloud
  (\<^verbatim>\<open>core/tools/\<close>, \<^verbatim>\<open>core/source_control/\<close>) consist almost entirely of input and output. The YAML and JSON parsers, git, docker and the cloud are
  parameters: the definitions say what is asked of them and what is done with the answers.
\<close>

end
